(* ===== verification/Iesp_Prelude.thy ===== *)
theory Iesp_Prelude
  imports Main "HOL-Library.Word"
begin

text \<open>
  Shared vocabulary of the development: the fixed-width integers of the C++ sources, byte
  buffers as lists of bytes with \<open>memcpy\<close>-like operations, native (little-endian) loads and
  stores, the way a run of the program can be cut short, and the generic lemmas on them.
  Nothing in this theory models a particular source file.
\<close>

unbundle bit_operations_syntax

section \<open>Machine types\<close>

type_synonym byte = "8 word"
type_synonym u16 = "16 word"
type_synonym u32 = "32 word"
type_synonym u64 = "64 word"

text \<open>Rules that move bytes through buffers; rules about packed words.\<close>

named_theorems mem_simps
named_theorems word_bytes

section \<open>Runs that do not return normally\<close>

text \<open>
  \<open>Mem_oob\<close>: an access outside the buffer a pointer refers to (undefined behaviour in C++).
  \<open>Uncaught\<close>: an exception no caller catches, which ends the process (\<open>std::terminate\<close>).
  \<open>No_return\<close>: a loop that has not finished within the fuel it was given.
\<close>

datatype trap = Mem_oob | Uncaught string | No_return

type_synonym 'a result = "trap + 'a"

definition bindR :: "'a result \<Rightarrow> ('a \<Rightarrow> 'b result) \<Rightarrow> 'b result" where
  "bindR r f = (case r of Inl t \<Rightarrow> Inl t | Inr a \<Rightarrow> f a)"

lemma bindR_simps [simp]:
  "bindR (Inl t) f = Inl t"
  "bindR (Inr a) f = f a"
  by (simp_all add: bindR_def)

lemma bindR_Inr_iff: "bindR r f = Inr b \<longleftrightarrow> (\<exists>a. r = Inr a \<and> f a = Inr b)"
  by (cases r) simp_all

lemma bindR_InrE [elim]:
  assumes "bindR r f = Inr b"
  obtains a where "r = Inr a" and "f a = Inr b"
  using assms by (auto simp: bindR_Inr_iff)

definition is_ok :: "'a result \<Rightarrow> bool" where
  "is_ok r \<longleftrightarrow> (case r of Inl _ \<Rightarrow> False | Inr _ \<Rightarrow> True)"

lemma is_ok_simps [simp]: "\<not> is_ok (Inl t)" "is_ok (Inr a)"
  by (simp_all add: is_ok_def)

section \<open>Byte buffers\<close>

definition slice :: "nat \<Rightarrow> nat \<Rightarrow> 'a list \<Rightarrow> 'a list" where
  "slice off n xs = take n (drop off xs)"

definition overwrite :: "nat \<Rightarrow> 'a list \<Rightarrow> 'a list \<Rightarrow> 'a list" where
  "overwrite off d xs = take off xs @ d @ drop (off + length d) xs"

lemma length_slice [simp]: "length (slice off n xs) = min n (length xs - off)"
  by (simp add: slice_def min.commute)

lemma length_overwrite [simp]:
  "off + length d \<le> length xs \<Longrightarrow> length (overwrite off d xs) = length xs"
  by (simp add: overwrite_def)

lemma nth_overwrite [mem_simps]:
  "off + length d \<le> length xs \<Longrightarrow> i < length xs \<Longrightarrow>
   overwrite off d xs ! i = (if off \<le> i \<and> i < off + length d then d ! (i - off) else xs ! i)"
  by (auto simp: overwrite_def nth_append min_def)

lemma nth_slice [mem_simps]:
  "i < n \<Longrightarrow> off + i < length xs \<Longrightarrow> slice off n xs ! i = xs ! (off + i)"
  by (simp add: slice_def)

lemma slice_nil [simp]: "slice off 0 xs = []"
  by (simp add: slice_def)

lemma slice_all [simp]: "length xs \<le> n \<Longrightarrow> slice 0 n xs = xs"
  by (simp add: slice_def)

lemma overwrite_nil [simp]: "overwrite off [] xs = xs"
  by (simp add: overwrite_def)

lemma slice_overwrite_same [mem_simps]:
  assumes "off + length d \<le> length xs" and "length d = n"
  shows "slice off n (overwrite off d xs) = d"
proof -
  have "length (take off xs) = off" using assms by simp
  then show ?thesis using assms by (simp add: slice_def overwrite_def)
qed

lemma slice_overwrite_other [mem_simps]:
  assumes "off + length d \<le> length xs"
    and "o' + n \<le> off \<or> off + length d \<le> o'"
  shows "slice o' n (overwrite off d xs) = slice o' n xs"
proof (rule nth_equalityI)
  show "length (slice o' n (overwrite off d xs)) = length (slice o' n xs)"
    using assms(1) by simp
next
  fix i assume "i < length (slice o' n (overwrite off d xs))"
  then have i: "i < n" "o' + i < length xs" using assms(1) by auto
  show "slice o' n (overwrite off d xs) ! i = slice o' n xs ! i"
    using i assms by (auto simp: nth_slice nth_overwrite)
qed

lemma slice_slice [mem_simps]:
  "a + m \<le> n \<Longrightarrow> slice a m (slice off n xs) = slice (off + a) m xs"
  by (simp add: slice_def drop_take min_def ac_simps)

lemma slice_append_split:
  "slice off (m + n) xs = slice off m xs @ slice (off + m) n xs"
  by (simp add: slice_def take_add add.commute)

lemma overwrite_split:
  assumes "length d1 = m" and "off + m + length d2 \<le> length xs"
  shows "overwrite (off + m) d2 (overwrite off d1 xs) = overwrite off (d1 @ d2) xs"
proof (rule nth_equalityI)
  show "length (overwrite (off + m) d2 (overwrite off d1 xs)) = length (overwrite off (d1 @ d2) xs)"
    using assms by simp
next
  fix i assume "i < length (overwrite (off + m) d2 (overwrite off d1 xs))"
  then have "i < length xs" using assms by simp
  then show "overwrite (off + m) d2 (overwrite off d1 xs) ! i = overwrite off (d1 @ d2) xs ! i"
    using assms by (auto simp: nth_overwrite nth_append)
qed

lemma overwrite_comm:
  assumes "off + length d \<le> length xs" and "off' + length d' \<le> length xs"
    and "off + length d \<le> off' \<or> off' + length d' \<le> off"
  shows "overwrite off d (overwrite off' d' xs) = overwrite off' d' (overwrite off d xs)"
  using assms by (intro nth_equalityI) (auto simp: nth_overwrite)

section \<open>Packed words\<close>

text \<open>
  A scalar member of a packed struct is loaded and stored in the byte order of the machine;
  the development takes it to be little endian, as on x86 and ARM.
\<close>

definition le16_bytes :: "u16 \<Rightarrow> byte list" where
  "le16_bytes v = [ucast v, ucast (drop_bit 8 v)]"

definition le32_bytes :: "u32 \<Rightarrow> byte list" where
  "le32_bytes v = [ucast v, ucast (drop_bit 8 v), ucast (drop_bit 16 v), ucast (drop_bit 24 v)]"

definition le64_bytes :: "u64 \<Rightarrow> byte list" where
  "le64_bytes v = map (\<lambda>i. ucast (drop_bit (8 * i) v)) [0, 1, 2, 3, 4, 5, 6, 7]"

definition ld16 :: "nat \<Rightarrow> byte list \<Rightarrow> u16" where
  "ld16 off p = (ucast (p ! off) OR push_bit 8 (ucast (p ! (off + 1))))"

definition ld32 :: "nat \<Rightarrow> byte list \<Rightarrow> u32" where
  "ld32 off p = (ucast (p ! off) OR push_bit 8 (ucast (p ! (off + 1)))
     OR push_bit 16 (ucast (p ! (off + 2))) OR push_bit 24 (ucast (p ! (off + 3))))"

definition ld64 :: "nat \<Rightarrow> byte list \<Rightarrow> u64" where
  "ld64 off p = (ucast (p ! off) OR push_bit 8 (ucast (p ! (off + 1)))
     OR push_bit 16 (ucast (p ! (off + 2))) OR push_bit 24 (ucast (p ! (off + 3)))
     OR push_bit 32 (ucast (p ! (off + 4))) OR push_bit 40 (ucast (p ! (off + 5)))
     OR push_bit 48 (ucast (p ! (off + 6))) OR push_bit 56 (ucast (p ! (off + 7))))"

definition st8 :: "nat \<Rightarrow> byte \<Rightarrow> byte list \<Rightarrow> byte list" where
  "st8 off v p = overwrite off [v] p"

definition st16 :: "nat \<Rightarrow> u16 \<Rightarrow> byte list \<Rightarrow> byte list" where
  "st16 off v p = overwrite off (le16_bytes v) p"

definition st32 :: "nat \<Rightarrow> u32 \<Rightarrow> byte list \<Rightarrow> byte list" where
  "st32 off v p = overwrite off (le32_bytes v) p"

lemma length_le_bytes [simp]:
  "length (le16_bytes v) = 2" "length (le32_bytes w) = 4" "length (le64_bytes x) = 8"
  by (simp_all add: le16_bytes_def le32_bytes_def le64_bytes_def)

lemma length_st [simp]:
  "off + 1 \<le> length p \<Longrightarrow> length (st8 off b p) = length p"
  "off + 2 \<le> length p \<Longrightarrow> length (st16 off v p) = length p"
  "off + 4 \<le> length p \<Longrightarrow> length (st32 off w p) = length p"
  by (simp_all add: st8_def st16_def st32_def)

lemma ld16_le16_bytes [word_bytes]: "ld16 0 (le16_bytes v) = v"
proof -
  have "ld16 0 (le16_bytes v) = ucast (ucast v :: byte) OR push_bit 8 (ucast (ucast (drop_bit 8 v) :: byte))"
    by (simp add: ld16_def le16_bytes_def)
  also have "\<dots> = v"
    by (rule bit_word_eqI) (auto simp: bit_simps)
  finally show ?thesis .
qed

lemma ld32_le32_bytes [word_bytes]: "ld32 0 (le32_bytes v) = v"
proof -
  have "ld32 0 (le32_bytes v) = ucast (ucast v :: byte)
      OR push_bit 8 (ucast (ucast (drop_bit 8 v) :: byte))
      OR push_bit 16 (ucast (ucast (drop_bit 16 v) :: byte))
      OR push_bit 24 (ucast (ucast (drop_bit 24 v) :: byte))"
    by (simp add: ld32_def le32_bytes_def)
  also have "\<dots> = v"
  proof (rule bit_word_eqI)
    fix n assume "n < LENGTH(32)"
    then consider "n < 8" | "8 \<le> n \<and> n < 16" | "16 \<le> n \<and> n < 24" | "24 \<le> n \<and> n < 32"
      by fastforce
    then show "bit (ucast (ucast v :: byte)
        OR push_bit 8 (ucast (ucast (drop_bit 8 v) :: byte))
        OR push_bit 16 (ucast (ucast (drop_bit 16 v) :: byte))
        OR push_bit 24 (ucast (ucast (drop_bit 24 v) :: byte)) :: u32) n = bit v n"
      by cases (auto simp: bit_simps)
  qed
  finally show ?thesis .
qed

lemma ld32_slice: "off + 4 \<le> length p \<Longrightarrow> ld32 off p = ld32 0 (slice off 4 p)"
  by (simp add: ld32_def nth_slice)

lemma ld16_slice: "off + 2 \<le> length p \<Longrightarrow> ld16 off p = ld16 0 (slice off 2 p)"
  by (simp add: ld16_def nth_slice)

lemma ld_st_same [mem_simps]:
  "off + 2 \<le> length p \<Longrightarrow> ld16 off (st16 off v p) = v"
  "off + 4 \<le> length p \<Longrightarrow> ld32 off (st32 off w p) = w"
  by (simp_all add: ld16_slice [of off] ld32_slice [of off] st16_def st32_def
      slice_overwrite_same ld16_le16_bytes ld32_le32_bytes)

lemma nth_st8 [mem_simps]:
  "off < length p \<Longrightarrow> i < length p \<Longrightarrow> st8 off v p ! i = (if i = off then v else p ! i)"
  by (auto simp: st8_def nth_overwrite)

lemma nth_st16_other [mem_simps]:
  "off + 2 \<le> length p \<Longrightarrow> i < off \<or> off + 2 \<le> i \<Longrightarrow> i < length p \<Longrightarrow> st16 off v p ! i = p ! i"
  by (auto simp: st16_def nth_overwrite)

lemma nth_st32_other [mem_simps]:
  "off + 4 \<le> length p \<Longrightarrow> i < off \<or> off + 4 \<le> i \<Longrightarrow> i < length p \<Longrightarrow> st32 off v p ! i = p ! i"
  by (auto simp: st32_def nth_overwrite)

lemma nth_overwrite_other [mem_simps]:
  "off + length d \<le> length p \<Longrightarrow> i < off \<or> off + length d \<le> i \<Longrightarrow> i < length p \<Longrightarrow>
   overwrite off d p ! i = p ! i"
  by (auto simp: nth_overwrite)

lemma ld32_other [mem_simps]:
  "off + 4 \<le> length p \<Longrightarrow> o' + 4 \<le> off \<or> off + 4 \<le> o' \<Longrightarrow> o' + 4 \<le> length p \<Longrightarrow>
   ld32 o' (st32 off w p) = ld32 o' p"
  "k < length p \<Longrightarrow> o' + 4 \<le> k \<or> k + 1 \<le> o' \<Longrightarrow> o' + 4 \<le> length p \<Longrightarrow>
   ld32 o' (st8 k b p) = ld32 o' p"
  "off + 2 \<le> length p \<Longrightarrow> o' + 4 \<le> off \<or> off + 2 \<le> o' \<Longrightarrow> o' + 4 \<le> length p \<Longrightarrow>
   ld32 o' (st16 off v p) = ld32 o' p"
  "off + length d \<le> length p \<Longrightarrow> o' + 4 \<le> off \<or> off + length d \<le> o' \<Longrightarrow> o' + 4 \<le> length p \<Longrightarrow>
   ld32 o' (overwrite off d p) = ld32 o' p"
  by (simp_all add: ld32_slice [of o'] st32_def st8_def st16_def slice_overwrite_other)

section \<open>Arithmetic on sizes\<close>

lemma unat_mult_u64: "unat a * unat b < 2 ^ 64 \<Longrightarrow> unat (a * b :: u64) = unat a * unat b"
  by (simp add: unat_word_ariths)

lemma unat_add_u64: "unat a + unat b < 2 ^ 64 \<Longrightarrow> unat (a + b :: u64) = unat a + unat b"
  by (simp add: unat_word_ariths)

lemma unat_ucast_u32_u64 [simp]: "unat (ucast (x :: u32) :: u64) = unat x"
proof -
  have "unat x < 2 ^ 32" using unsigned_less [of x, where 'a = nat] by simp
  then have "unat x < 2 ^ 64" by simp
  then show ?thesis by (simp add: unsigned_ucast_eq take_bit_nat_eq_self)
qed

text \<open>The size of a data segment with its padding: \<open>(n + 3) & ~3\<close>.\<close>

definition pad4 :: "nat \<Rightarrow> nat" where
  "pad4 n = (n + 3) div 4 * 4"

lemma pad4_bounds: "n \<le> pad4 n" "pad4 n < n + 4" "pad4 n mod 4 = 0"
  by (auto simp: pad4_def)

lemma pad4_0 [simp]: "pad4 0 = 0"
  by (simp add: pad4_def)

lemma pad4_pos: "0 < n \<Longrightarrow> 4 \<le> pad4 n"
  by (simp add: pad4_def)

end
