(* ===== verification/Iscsi_Util.thy ===== *)
theory Iscsi_Util
  imports Iesp_Prelude
begin

text \<open>
  The helpers every iSCSI component shares: bit fields and key/value text segments of
  \<^verbatim>\<open>iscsi.cpp\<close>, string splitting, big-endian loads, byte-order conversion and LUN encoding of
  \<^verbatim>\<open>utils.cpp\<close>. A \<open>std::string\<close> is a \<open>string\<close>, its characters being bytes.
\<close>

section \<open>Bit fields\<close>

text \<open>
  \<open>int\<close> arithmetic of the source on values that fit: the mask is computed in \<open>uint16_t\<close>,
  the shifts in \<open>int\<close> (32 bits), the result is truncated to a byte.
\<close>

definition set_bits :: "byte \<Rightarrow> nat \<Rightarrow> nat \<Rightarrow> byte \<Rightarrow> byte" where
  "set_bits target bit_nr len value =
     (let max_value = (push_bit len 1 - 1 :: u16);
          cleared = ucast ((ucast target :: u32) AND NOT (push_bit bit_nr (ucast max_value)))
      in cleared OR ucast (push_bit bit_nr (ucast value :: u32)))"

definition get_bits :: "byte \<Rightarrow> nat \<Rightarrow> nat \<Rightarrow> byte" where
  "get_bits from bit_nr len =
     (let m = (push_bit len 1 - 1 :: u16)
      in ucast ((drop_bit bit_nr (ucast from) :: u32) AND ucast m))"

lemma field_mask: "push_bit len 1 - 1 = (mask len :: u16)"
  by (simp add: mask_eq_exp_minus_1 push_bit_eq_mult)

lemma bit_get_bits:
  "bit (get_bits t b l) n \<longleftrightarrow> n < l \<and> n < 8 \<and> bit t (b + n)"
  unfolding get_bits_def Let_def field_mask by (auto simp: bit_simps dest: bit_imp_le_length)

lemma bit_set_bits:
  "b + l \<le> 8 \<Longrightarrow> bit (set_bits t b l v) n \<longleftrightarrow>
     n < 8 \<and> ((b \<le> n \<and> bit v (n - b)) \<or> (bit t n \<and> \<not> (b \<le> n \<and> n < b + l)))"
  unfolding set_bits_def Let_def field_mask by (auto simp: bit_simps dest: bit_imp_le_length)

lemma value_bits: "unat v < 2 ^ l \<Longrightarrow> bit (v :: byte) n \<Longrightarrow> n < l"
proof -
  assume v: "unat v < 2 ^ l" and b: "bit v n"
  have "take_bit l (unat v) = unat v" using v by (simp add: take_bit_nat_eq_self)
  moreover have "bit (unat v) n" using b by (simp add: bit_unsigned_iff)
  ultimately show "n < l" by (metis bit_take_bit_iff)
qed

text \<open>
  Reading a field back after \<open>set_bits\<close> gives the stored value, and every other field of
  the byte is unchanged, whenever the value respects the assertion \<open>value <= max_value\<close> and the
  field lies in the byte.
\<close>

theorem get_bits_set_bits:
  assumes "b + l \<le> 8" and "unat v < 2 ^ l" and "b' + l' \<le> b \<or> b + l \<le> b'"
  shows "get_bits (set_bits t b l v) b l = v \<and>
    get_bits (set_bits t b l v) b' l' = get_bits t b' l'"
proof
  have le: "n < l" if "bit v n" for n
    using value_bits [OF assms(2) that] .
  show "get_bits (set_bits t b l v) b l = v"
    using assms(1) by (intro bit_word_eqI) (auto simp: bit_get_bits bit_set_bits dest: le)
  show "get_bits (set_bits t b l v) b' l' = get_bits t b' l'"
    using assms(1,3)
    by (intro bit_word_eqI) (auto simp: bit_get_bits bit_set_bits dest: le bit_imp_le_length)
qed

theorem get_bits_set_bits_witness:
  "get_bits (set_bits 0 2 2 3) 2 2 = 3 \<and> get_bits (set_bits 0x81 2 2 3) 7 1 = get_bits 0x81 7 1"
  using get_bits_set_bits [of 2 2 3 7 1 "0x81"] get_bits_set_bits [of 2 2 3 7 1 0] by simp

section \<open>Characters and bytes\<close>

definition byte_of_char :: "char \<Rightarrow> byte" where
  "byte_of_char c = of_nat (of_char c)"

definition char_of_byte :: "byte \<Rightarrow> char" where
  "char_of_byte b = char_of (unat b)"

lemma byte_of_char_inverse [simp]: "char_of_byte (byte_of_char c) = c"
proof -
  have "unat (of_nat (of_char c) :: byte) = of_char c"
    using of_char_mod_256 [of c, where 'a = nat] by (simp add: unat_of_nat)
  then show ?thesis by (simp add: char_of_byte_def byte_of_char_def)
qed

lemma char_of_byte_inverse [simp]: "byte_of_char (char_of_byte b) = b"
proof -
  have "unat b < 256" using unsigned_less [of b, where 'a = nat] by simp
  then show ?thesis by (simp add: char_of_byte_def byte_of_char_def)
qed

lemma byte_of_char_0: "0 = byte_of_char c \<longleftrightarrow> c = CHR 0x00"
proof
  assume "0 = byte_of_char c"
  then have "char_of_byte (byte_of_char c) = char_of_byte 0" by simp
  then have "c = char_of_byte 0" by simp
  then show "c = CHR 0x00" by (simp add: char_of_byte_def char_of_def)
qed (simp add: byte_of_char_def)

definition c_str :: "string \<Rightarrow> byte list" where
  "c_str s = map byte_of_char s"

lemma length_c_str [simp]: "length (c_str s) = length s"
  by (simp add: c_str_def)

section \<open>Key/value text segments\<close>

text \<open>The loop of \<open>data_to_text_array\<close>: the bytes left, the current pair, the result so far.\<close>

fun data_to_text_loop :: "byte list \<Rightarrow> string \<Rightarrow> string list \<Rightarrow> string list" where
  "data_to_text_loop [] pair out = (if pair = [] then out else out @ [pair])"
| "data_to_text_loop (d # ds) pair out =
     (if d = 0 then data_to_text_loop ds [] (out @ [pair])
      else data_to_text_loop ds (pair @ [char_of_byte d]) out)"

definition data_to_text_array :: "byte list \<Rightarrow> string list" where
  "data_to_text_array data = data_to_text_loop data [] []"

text \<open>
  \<open>text_array_to_data\<close> allocates \<open>len + 4\<close> zero bytes, copies each string to its offset and
  returns the buffer with the length without the padding.
\<close>

fun text_array_copy :: "string list \<Rightarrow> nat \<Rightarrow> byte list \<Rightarrow> byte list" where
  "text_array_copy [] offset p = p"
| "text_array_copy (kv # kvs) offset p =
     text_array_copy kvs (offset + length kv + 1) (overwrite offset (c_str kv) p)"

definition text_array_to_data :: "string list \<Rightarrow> byte list \<times> nat" where
  "text_array_to_data kvs =
     (let len = sum_list (map (\<lambda>kv. length kv + 1) kvs)
      in (text_array_copy kvs 0 (replicate (len + 4) 0), len))"

definition text_segment :: "string list \<Rightarrow> byte list" where
  "text_segment kvs = concat (map (\<lambda>kv. c_str kv @ [0]) kvs)"

lemma length_text_segment:
  "length (text_segment kvs) = sum_list (map (\<lambda>kv. length kv + 1) kvs)"
  by (induction kvs) (simp_all add: text_segment_def)

lemma text_array_copy_spec:
  "offset + length (text_segment kvs) + k = length p \<Longrightarrow>
   drop offset p = replicate (length p - offset) 0 \<Longrightarrow>
   text_array_copy kvs offset p = take offset p @ text_segment kvs @ replicate k 0"
proof (induction kvs arbitrary: offset p)
  case Nil
  then have "drop offset p = replicate k 0" by (auto simp: text_segment_def)
  then have "p = take offset p @ replicate k 0" by (metis append_take_drop_id)
  then show ?case by (simp add: text_segment_def)
next
  case (Cons kv kvs)
  define p' where "p' = overwrite offset (c_str kv) p"
  have len: "length (text_segment (kv # kvs)) = length kv + 1 + length (text_segment kvs)"
    by (simp add: text_segment_def)
  have p': "p' = take offset p @ c_str kv @ replicate (length p - offset - length kv) 0"
  proof -
    have "drop (offset + length kv) p = drop (length kv) (drop offset p)"
      by (simp add: add.commute)
    also have "\<dots> = replicate (length p - offset - length kv) 0"
      by (simp add: Cons.prems(2))
    finally show ?thesis by (simp add: p'_def overwrite_def)
  qed
  have l: "length p' = length p" using Cons.prems len by (simp add: p'_def)
  have "text_array_copy kvs (offset + length kv + 1) p' =
      take (offset + length kv + 1) p' @ text_segment kvs @ replicate k 0"
  proof (rule Cons.IH)
    show "offset + length kv + 1 + length (text_segment kvs) + k = length p'"
      using Cons.prems len l by simp
    show "drop (offset + length kv + 1) p' = replicate (length p' - (offset + length kv + 1)) 0"
      using Cons.prems len by (simp add: p' l)
  qed
  moreover have "take (offset + length kv + 1) p' = take offset p @ c_str kv @ [0]"
  proof -
    obtain m where m: "length p - offset - length kv = Suc m"
      using Cons.prems(1) len by (cases "length p - offset - length kv") auto
    show ?thesis using Cons.prems(1) len by (simp add: p' m)
  qed
  ultimately show ?case by (simp add: p'_def text_segment_def)
qed

lemma text_array_to_data_spec:
  "text_array_to_data kvs = (text_segment kvs @ replicate 4 0, length (text_segment kvs))"
  unfolding text_array_to_data_def length_text_segment [symmetric] Let_def
  using text_array_copy_spec [of 0 kvs 4 "replicate (length (text_segment kvs) + 4) 0"]
  by simp

lemma data_to_text_loop_str:
  "0 \<notin> set (c_str kv) \<Longrightarrow>
   data_to_text_loop (c_str kv @ 0 # ds) pair out = data_to_text_loop ds [] (out @ [pair @ kv])"
proof (induction kv arbitrary: pair)
  case Nil
  then show ?case by (simp add: c_str_def)
next
  case (Cons c kv)
  then have "byte_of_char c \<noteq> 0" by (auto simp: c_str_def)
  with Cons show ?case by (simp add: c_str_def)
qed

lemma data_to_text_loop_segment:
  "(\<And>kv. kv \<in> set kvs \<Longrightarrow> CHR 0x00 \<notin> set kv) \<Longrightarrow>
   data_to_text_loop (text_segment kvs) [] out = out @ kvs"
proof (induction kvs arbitrary: out)
  case Nil
  then show ?case by (simp add: text_segment_def)
next
  case (Cons kv kvs)
  have "CHR 0x00 \<notin> set kv" using Cons.prems by simp
  then have nz: "0 \<notin> set (c_str kv)"
    by (auto simp: c_str_def byte_of_char_0)
  have "text_segment (kv # kvs) = c_str kv @ 0 # text_segment kvs"
    by (simp add: text_segment_def)
  with data_to_text_loop_str [OF nz] Cons show ?case by simp
qed

text \<open>
  A text segment written by \<open>text_array_to_data\<close> is read back by \<open>data_to_text_array\<close> as the
  same list of key/value strings, provided no string holds a NUL; the returned buffer is the
  segment followed by exactly four padding bytes.
\<close>

theorem text_array_roundtrip:
  assumes "\<And>kv. kv \<in> set kvs \<Longrightarrow> CHR 0x00 \<notin> set kv"
    and "text_array_to_data kvs = (p, len)"
  shows "data_to_text_array (take len p) = kvs \<and> length p = len + 4"
  using assms(2) data_to_text_loop_segment [OF assms(1), of kvs "[]"]
  by (auto simp: text_array_to_data_spec data_to_text_array_def)

theorem text_array_roundtrip_witness:
  "data_to_text_array (take 28 (fst (text_array_to_data [''AuthMethod=None'', ''DataDigest='']))) =
     [''AuthMethod=None'', ''DataDigest=''] \<and>
   length (fst (text_array_to_data [''AuthMethod=None'', ''DataDigest=''])) = 28 + 4"
  by (rule text_array_roundtrip) (auto simp: text_array_to_data_def)

section \<open>Splitting strings\<close>

text \<open>\<open>std::string::find\<close>: the position of the first occurrence, \<open>None\<close> for \<open>npos\<close>.\<close>

fun str_find :: "string \<Rightarrow> string \<Rightarrow> nat option" where
  "str_find [] pat = (if pat = [] then Some 0 else None)"
| "str_find (c # cs) pat =
     (if take (length pat) (c # cs) = pat then Some 0 else map_option Suc (str_find cs pat))"

text \<open>
  The \<open>for(;;)\<close> loop of \<open>split\<close>. With an empty splitter and a non-empty input it never ends, which
  is the value \<open>None\<close>.
\<close>

partial_function (option) split_loop :: "string \<Rightarrow> string \<Rightarrow> string list \<Rightarrow> string list option" where
  "split_loop splitter inp out =
     (case str_find inp splitter of
        None \<Rightarrow> Some (if inp \<noteq> [] then out @ [inp] else out)
      | Some pos \<Rightarrow>
          (if length inp - (pos + length splitter) = 0
           then Some (out @ [take pos inp] @ [[]])
           else split_loop splitter (drop (pos + length splitter) inp) (out @ [take pos inp])))"

definition split_str :: "string \<Rightarrow> string \<Rightarrow> string list option" where
  "split_str inp splitter = split_loop splitter inp []"

fun join_str :: "string \<Rightarrow> string list \<Rightarrow> string" where
  "join_str sep [] = []"
| "join_str sep [p] = p"
| "join_str sep (p # q # ps) = p @ sep @ join_str sep (q # ps)"

lemma join_str_Cons: "ps \<noteq> [] \<Longrightarrow> join_str sep (p # ps) = p @ sep @ join_str sep ps"
  by (cases ps) simp_all

lemma str_find_Some:
  "str_find s pat = Some i \<Longrightarrow>
   i + length pat \<le> length s \<and> s = take i s @ pat @ drop (i + length pat) s"
proof (induction s arbitrary: i)
  case Nil
  then show ?case by (auto split: if_splits)
next
  case (Cons c cs)
  show ?case
  proof (cases "take (length pat) (c # cs) = pat")
    case True
    then have "length pat \<le> length (c # cs)" by (metis length_take min.cobounded1)
    moreover have "c # cs = pat @ drop (length pat) (c # cs)"
      using True by (metis append_take_drop_id)
    ultimately show ?thesis using Cons.prems True by auto
  next
    case False
    with Cons.prems obtain j where "str_find cs pat = Some j" "i = Suc j" by auto
    then show ?thesis using Cons.IH by auto
  qed
qed

lemma str_find_take:
  "pat \<noteq> [] \<Longrightarrow> str_find s pat = Some i \<Longrightarrow> str_find (take i s) pat = None"
proof (induction s arbitrary: i)
  case Nil
  then show ?case by simp
next
  case (Cons c cs)
  show ?case
  proof (cases i)
    case 0
    then show ?thesis using Cons.prems by simp
  next
    case (Suc j)
    then have np: "take (length pat) (c # cs) \<noteq> pat" and j: "str_find cs pat = Some j"
      using Cons.prems by (auto split: if_splits)
    have "take (length pat) (c # take j cs) \<noteq> pat"
    proof
      assume a: "take (length pat) (c # take j cs) = pat"
      then have "length (take (length pat) (take (Suc j) (c # cs))) = length pat" by simp
      then have "length pat \<le> Suc j" by simp
      then have "take (length pat) (take (Suc j) (c # cs)) = take (length pat) (c # cs)"
        by (simp add: min_def del: take_Suc_Cons)
      then show False using a np by simp
    qed
    then show ?thesis using Cons.IH [OF Cons.prems(1) j] Suc by simp
  qed
qed

lemma split_loop_spec:
  assumes "sep \<noteq> []"
  shows "\<exists>ps. split_loop sep s out = Some (out @ ps) \<and> join_str sep ps = s \<and>
    (s \<noteq> [] \<longrightarrow> ps \<noteq> []) \<and> (\<forall>p \<in> set ps. str_find p sep = None)"
proof (induction s arbitrary: out rule: length_induct)
  case (1 s)
  show ?case
  proof (cases "str_find s sep")
    case None
    then show ?thesis
      by (intro exI [of _ "if s \<noteq> [] then [s] else []"]) (simp add: split_loop.simps)
  next
    case (Some i)
    note found = str_find_Some [OF Some] and fresh = str_find_take [OF assms Some]
    define rest where "rest = drop (i + length sep) s"
    show ?thesis
    proof (cases "rest = []")
      case True
      then have "s = take i s @ sep" and "length s - (i + length sep) = 0"
        using found by (auto simp: rest_def)
      then show ?thesis using Some fresh assms
        by (intro exI [of _ "[take i s, []]"]) (simp add: split_loop.simps)
    next
      case False
      then have more: "length s - (i + length sep) \<noteq> 0" by (simp add: rest_def)
      have "0 < length sep" using assms by simp
      moreover have "length rest = length s - (i + length sep)" by (simp add: rest_def)
      ultimately have "length rest < length s" using found by linarith
      then obtain ps where ps: "split_loop sep rest (out @ [take i s]) = Some ((out @ [take i s]) @ ps)"
        "join_str sep ps = rest" "ps \<noteq> []" "\<forall>p \<in> set ps. str_find p sep = None"
        using 1 False by blast
      have "split_loop sep s out = Some (out @ take i s # ps)"
        using Some more ps(1) by (subst split_loop.simps) (simp add: rest_def)
      moreover have "join_str sep (take i s # ps) = s"
        using ps(2,3) found by (simp add: join_str_Cons rest_def)
      ultimately show ?thesis using ps(4) fresh by (intro exI [of _ "take i s # ps"]) simp
    qed
  qed
qed

text \<open>
  With a non-empty splitter, \<open>split\<close> terminates, the parts it returns joined by the splitter
  are the input again, and no part contains the splitter.
\<close>

theorem split_join:
  assumes "sep \<noteq> []"
  shows "\<exists>ps. split_str s sep = Some ps \<and> join_str sep ps = s \<and>
    (\<forall>p \<in> set ps. str_find p sep = None)"
  using split_loop_spec [OF assms, of s "[]"] by (auto simp: split_str_def)

theorem split_join_witness:
  "\<exists>ps. split_str ''MaxRecvDataSegmentLength=8192'' ''='' = Some ps \<and>
     join_str ''='' ps = ''MaxRecvDataSegmentLength=8192'' \<and>
     (\<forall>p \<in> set ps. str_find p ''='' = None)"
  by (rule split_join) simp

section \<open>Hexadecimal dumps\<close>

definition hex_digit :: "byte \<Rightarrow> char" where
  "hex_digit v = (if 9 < v then char_of_byte (byte_of_char (CHR ''a'') + v - 10)
                  else char_of_byte (byte_of_char (CHR ''0'') + v))"

text \<open>The result of \<open>to_hex\<close>: the string is first resized to \<open>3 n\<close>, the loop fills in \<open>3 n - 1\<close> characters.\<close>

fun to_hex_loop :: "byte list \<Rightarrow> bool \<Rightarrow> string" where
  "to_hex_loop [] first = []"
| "to_hex_loop (v # vs) first =
     (if first then [] else [CHR '' '']) @ [hex_digit (drop_bit 4 v), hex_digit (v AND 15)]
     @ to_hex_loop vs False"

definition to_hex :: "byte list \<Rightarrow> string" where
  "to_hex data = to_hex_loop data True @ (if data = [] then [] else [CHR 0x00])"

lemma length_to_hex_loop:
  "length (to_hex_loop vs first) = 3 * length vs - (if first \<and> vs \<noteq> [] then 1 else 0)"
  by (induction vs first rule: to_hex_loop.induct) auto

lemma length_to_hex: "length (to_hex data) = 3 * length data"
  by (cases data) (simp_all add: to_hex_def length_to_hex_loop)

section \<open>Byte order and LUNs\<close>

definition get_uint64_t :: "byte list \<Rightarrow> nat \<Rightarrow> u64" where
  "get_uint64_t p o' = (push_bit 56 (ucast (p ! o')) OR push_bit 48 (ucast (p ! (o' + 1)))
     OR push_bit 40 (ucast (p ! (o' + 2))) OR push_bit 32 (ucast (p ! (o' + 3)))
     OR push_bit 24 (ucast (p ! (o' + 4))) OR push_bit 16 (ucast (p ! (o' + 5)))
     OR push_bit 8 (ucast (p ! (o' + 6))) OR ucast (p ! (o' + 7)))"

definition get_uint32_t :: "byte list \<Rightarrow> nat \<Rightarrow> u32" where
  "get_uint32_t p o' = (push_bit 24 (ucast (p ! o')) OR push_bit 16 (ucast (p ! (o' + 1)))
     OR push_bit 8 (ucast (p ! (o' + 2))) OR ucast (p ! (o' + 3)))"

definition my_HTONS :: "u16 \<Rightarrow> u16" where
  "my_HTONS x = push_bit 8 x OR drop_bit 8 x"

definition my_HTONL :: "u32 \<Rightarrow> u32" where
  "my_HTONL x = push_bit 16 (ucast (my_HTONS (ucast x))) OR ucast (my_HTONS (ucast (drop_bit 16 x)))"

definition my_NTOHS :: "u16 \<Rightarrow> u16" where
  "my_NTOHS x = my_HTONS x"

definition my_NTOHL :: "u32 \<Rightarrow> u32" where
  "my_NTOHL x = my_HTONL x"

definition encode_lun :: "u64 \<Rightarrow> byte list" where
  "encode_lun lun_nr =
     (if lun_nr < 256 then [0, ucast lun_nr, 0, 0, 0, 0, 0, 0]
      else if lun_nr < 0x4000 then [1, ucast (drop_bit 8 lun_nr), ucast lun_nr, 0, 0, 0, 0, 0]
      else le64_bytes lun_nr)"

lemma length_encode_lun [simp]: "length (encode_lun l) = 8"
  by (simp add: encode_lun_def)

lemma bit_my_HTONS: "bit (my_HTONS x) n \<longleftrightarrow> n < 16 \<and> bit x (if n < 8 then 8 + n else n - 8)"
  unfolding my_HTONS_def
  by (auto simp: bit_simps dest: bit_imp_le_length)

lemma bit_my_HTONL:
  "bit (my_HTONL x) n \<longleftrightarrow> n < 32 \<and>
     bit x (if n < 8 then 24 + n else if n < 16 then 8 + n else if n < 24 then n - 8 else n - 24)"
proof -
  consider "n < 8" | "8 \<le> n" "n < 16" | "16 \<le> n" "n < 24" | "24 \<le> n" "n < 32" | "32 \<le> n"
    by linarith
  then show ?thesis
    unfolding my_HTONL_def
    by cases (auto simp: bit_simps bit_my_HTONS dest: bit_imp_le_length)
qed

lemma my_HTONS_involution [simp]: "my_HTONS (my_HTONS x) = x"
  by (rule bit_word_eqI) (auto simp: bit_my_HTONS)

lemma my_HTONL_involution [simp]: "my_HTONL (my_HTONL x) = x"
  by (rule bit_word_eqI) (auto simp: bit_my_HTONL)

lemma le32_bytes_HTONL: "le32_bytes (my_HTONL x) = rev (le32_bytes x)"
  unfolding le32_bytes_def
  by (simp, intro conjI; rule bit_word_eqI; simp add: bit_simps bit_my_HTONL)

lemma le16_bytes_HTONS: "le16_bytes (my_HTONS x) = rev (le16_bytes x)"
  unfolding le16_bytes_def
  by (simp, intro conjI; rule bit_word_eqI; simp add: bit_simps bit_my_HTONS)

lemma bit_byte_high: "8 \<le> m \<Longrightarrow> \<not> bit (b :: byte) m"
  by (auto dest: bit_imp_le_length)

lemma my_NTOHL_ld32: "my_NTOHL (ld32 off p) = get_uint32_t p off"
proof (rule bit_word_eqI)
  fix n assume "n < LENGTH(32)"
  then consider "n < 8" | "8 \<le> n" "n < 16" | "16 \<le> n" "n < 24" | "24 \<le> n" "n < 32"
    by fastforce
  then show "bit (my_NTOHL (ld32 off p)) n = bit (get_uint32_t p off) n"
    unfolding my_NTOHL_def bit_my_HTONL ld32_def get_uint32_t_def bit_or_iff
    by cases (simp_all add: bit_simps less_diff_conv2 le_diff_conv2 bit_byte_high)
qed

text \<open>
  A 32-bit field stored as \<open>my_HTONL(v)\<close> in a packed struct occupies the four bytes of \<open>v\<close>, most
  significant first, so \<open>get_uint32_t\<close> on the raw bytes and \<open>my_NTOHL\<close> of the field both read \<open>v\<close>.
\<close>

theorem network_order_roundtrip:
  assumes "off + 4 \<le> length p"
  shows "get_uint32_t (st32 off (my_HTONL v) p) off = v \<and>
    my_NTOHL (ld32 off (st32 off (my_HTONL v) p)) = v \<and>
    slice off 4 (st32 off (my_HTONL v) p) = rev (le32_bytes v)"
proof -
  have ld: "ld32 off (st32 off (my_HTONL v) p) = my_HTONL v"
    using assms by (simp add: ld_st_same)
  then have "my_NTOHL (ld32 off (st32 off (my_HTONL v) p)) = v"
    by (simp add: my_NTOHL_def)
  moreover have "slice off 4 (st32 off (my_HTONL v) p) = rev (le32_bytes v)"
    using assms by (simp add: st32_def slice_overwrite_same le32_bytes_HTONL)
  ultimately show ?thesis by (simp add: my_NTOHL_ld32)
qed

theorem network_order_roundtrip_witness:
  "get_uint32_t (st32 1 (my_HTONL 0x01020304) (replicate 6 0)) 1 = 0x01020304 \<and>
   my_NTOHL (ld32 1 (st32 1 (my_HTONL 0x01020304) (replicate 6 0))) = 0x01020304 \<and>
   slice 1 4 (st32 1 (my_HTONL 0x01020304) (replicate 6 0)) = rev (le32_bytes 0x01020304)"
  by (rule network_order_roundtrip) simp

end
