(* ===== verification/Backend.thy ===== *)
theory Backend
  imports Iscsi_Util
begin

text \<open>
  The storage interface of \<^verbatim>\<open>backend.h\<close> / \<^verbatim>\<open>backend.cpp\<close>: its counters, the range locks every backend
  shares, the virtual methods as a record of operations, and the contract that the SCSI layer relies on
  (locales \<open>block_storage\<close> and, with an atomic \<open>cmpwrite\<close>, \<open>block_device\<close>).
\<close>

section \<open>The world a backend runs in\<close>

text \<open>
  \<open>clock\<close>: the values successive \<open>clock_gettime\<close> calls give, in microseconds; once it is exhausted
  the call fails and \<open>get_micros\<close> returns 0. \<open>sys\<close>: how successive system calls on the medium end;
  once exhausted they all succeed. \<open>entropy\<close>: the bytes \<open>my_getrandom\<close> hands out; it fails when fewer
  are left than requested. \<open>machine_id\<close>: the contents of \<^verbatim>\<open>/var/lib/dbus/machine-id\<close>, if readable.
\<close>

datatype io_outcome = Io_ok | Io_err | Io_short nat

record env =
  clock :: "u64 list"
  sys :: "io_outcome list"
  entropy :: "byte list"
  machine_id :: "string option"

definition get_micros :: "env \<Rightarrow> u64 \<times> env" where
  "get_micros e = (case clock e of [] \<Rightarrow> (0, e) | t # ts \<Rightarrow> (t, e\<lparr>clock := ts\<rparr>))"

definition next_outcome :: "env \<Rightarrow> io_outcome \<times> env" where
  "next_outcome e = (case sys e of [] \<Rightarrow> (Io_ok, e) | r # rs \<Rightarrow> (r, e\<lparr>sys := rs\<rparr>))"

definition my_getrandom :: "nat \<Rightarrow> env \<Rightarrow> byte list option \<times> env" where
  "my_getrandom n e =
     (if n \<le> length (entropy e) then (Some (take n (entropy e)), e\<lparr>entropy := drop n (entropy e)\<rparr>) else (None, e))"

text \<open>The medium misbehaves only as far as \<open>sys\<close> says; a quiet environment has nothing left to inject.\<close>

definition quiet :: "env \<Rightarrow> bool" where
  "quiet e \<longleftrightarrow> sys e = []"

lemma quiet_get_micros [simp]: "quiet (snd (get_micros e)) = quiet e"
  by (simp add: quiet_def get_micros_def split: list.split)

lemma quiet_next_outcome [simp]: "quiet e \<Longrightarrow> next_outcome e = (Io_ok, e)"
  by (simp add: quiet_def next_outcome_def)

section \<open>Counters\<close>

record backend_stats_t =
  bs_bytes_read :: u64
  bs_n_reads :: u64
  bs_bytes_written :: u64
  bs_n_writes :: u64
  bs_n_syncs :: u64
  bs_n_trims :: u64
  bs_io_wait :: u32
  bs_io_wait_ticks :: u32

definition zero_stats :: backend_stats_t where
  "zero_stats = \<lparr>bs_bytes_read = 0, bs_n_reads = 0, bs_bytes_written = 0, bs_n_writes = 0,
     bs_n_syncs = 0, bs_n_trims = 0, bs_io_wait = 0, bs_io_wait_ticks = 0\<rparr>"

text \<open>\<open>bs.io_wait += end-start\<close>: a 64-bit difference added to a 32-bit counter.\<close>

definition add_io_wait :: "u64 \<Rightarrow> u64 \<Rightarrow> backend_stats_t \<Rightarrow> backend_stats_t" where
  "add_io_wait start end_ts bs = bs\<lparr>bs_io_wait := bs_io_wait bs + ucast (end_ts - start)\<rparr>"

definition get_and_reset_stats :: "backend_stats_t \<Rightarrow> backend_stats_t \<times> backend_stats_t" where
  "get_and_reset_stats bs = (bs, zero_stats)"

definition get_idle_state :: "u64 \<Rightarrow> u64 \<times> u32" where
  "get_idle_state ts_last_acces = (ts_last_acces, 500000)"

section \<open>Range locks\<close>

text \<open>
  The mutexes of a backend are the list of their states (locked or not). Taking a mutex that is
  already held by the only running thread blocks for ever.
\<close>

definition N_BACKEND_LOCKS :: nat where "N_BACKEND_LOCKS = 131"

definition LOCK_SPREADER :: u64 where "LOCK_SPREADER = 31"

definition lock_index :: "u64 \<Rightarrow> nat" where
  "lock_index i = unat ((i * LOCK_SPREADER) mod of_nat N_BACKEND_LOCKS)"

lemma unat_succ_less: "i < limit \<Longrightarrow> unat (i + 1 :: u64) = unat i + 1"
proof -
  assume "i < limit"
  then have "unat i < unat limit" by (simp add: word_less_nat_alt)
  moreover have "unat limit < 2 ^ 64" using unsigned_less [of limit, where 'a = nat] by simp
  ultimately show ?thesis by (simp add: unat_word_ariths)
qed

text \<open>The loop over \<open>[block_nr, block_nr + block_n)\<close>; \<open>std::set\<close> is an ascending list without duplicates.\<close>

function lock_range_loop :: "u64 \<Rightarrow> u64 \<Rightarrow> nat list \<Rightarrow> nat list" where
  "lock_range_loop i limit indexes =
     (if i < limit then lock_range_loop (i + 1) limit (List.insort_insert (lock_index i) indexes)
      else indexes)"
  by auto
termination
  by (relation "measure (\<lambda>(i, limit, _). unat limit - unat i)")
    (auto simp: unat_succ_less word_less_nat_alt)

declare lock_range_loop.simps [simp del]

definition lock_indexes :: "u64 \<Rightarrow> u32 \<Rightarrow> nat list" where
  "lock_indexes block_nr block_n = lock_range_loop block_nr (block_nr + ucast block_n) []"

fun lock_all :: "nat list \<Rightarrow> bool list \<Rightarrow> bool list result" where
  "lock_all [] ls = Inr ls"
| "lock_all (nr # nrs) ls =
     (if length ls \<le> nr then Inl Mem_oob
      else if ls ! nr then Inl No_return
      else lock_all nrs (ls[nr := True]))"

definition lock_range :: "u64 \<Rightarrow> u32 \<Rightarrow> bool list \<Rightarrow> (nat list \<times> bool list) result" where
  "lock_range block_nr block_n ls =
     (let indexes = lock_indexes block_nr block_n
      in bindR (lock_all indexes ls) (\<lambda>ls'. Inr (indexes, ls')))"

fun unlock_range :: "nat list \<Rightarrow> bool list \<Rightarrow> bool list" where
  "unlock_range [] ls = ls"
| "unlock_range (nr # nrs) ls = unlock_range nrs (ls[nr := False])"

definition no_locks :: "bool list" where
  "no_locks = replicate N_BACKEND_LOCKS False"

lemma lock_index_lt: "lock_index i < N_BACKEND_LOCKS"
proof -
  have "unat ((i * LOCK_SPREADER) mod (131 :: u64)) < 131"
    by (simp add: unat_mod_distrib)
  then show ?thesis by (simp add: lock_index_def N_BACKEND_LOCKS_def)
qed

lemma lock_range_loop_props:
  "sorted s \<and> distinct s \<and> set s \<subseteq> {..<N_BACKEND_LOCKS} \<Longrightarrow>
   sorted (lock_range_loop i lim s) \<and> distinct (lock_range_loop i lim s) \<and>
   set (lock_range_loop i lim s) \<subseteq> {..<N_BACKEND_LOCKS}"
proof (induction i lim s rule: lock_range_loop.induct)
  case (1 i lim s)
  show ?case
  proof (cases "i < lim")
    case True
    have "sorted (List.insort_insert (lock_index i) s)"
      "distinct (List.insort_insert (lock_index i) s)"
      "set (List.insort_insert (lock_index i) s) \<subseteq> {..<N_BACKEND_LOCKS}"
      using 1(2) lock_index_lt by (auto simp: sorted_insort_insert distinct_insort_insert set_insort_insert)
    then show ?thesis using 1(1) [OF True] True by (simp add: lock_range_loop.simps [of i])
  next
    case False
    then show ?thesis using 1(2) by (simp add: lock_range_loop.simps [of i])
  qed
qed

lemma set_lock_range_loop:
  "set (lock_range_loop i lim s) = lock_index ` {j. i \<le> j \<and> j < lim} \<union> set s"
proof (induction i lim s rule: lock_range_loop.induct)
  case (1 i lim s)
  show ?case
  proof (cases "i < lim")
    case True
    have "{j. i \<le> j \<and> j < lim} = insert i {j. i + 1 \<le> j \<and> j < lim}"
    proof -
      have "i \<le> j \<longleftrightarrow> j = i \<or> i + 1 \<le> j" for j
        using True by (auto simp: word_le_nat_alt unat_succ_less [OF True] word_unat_eq_iff)
      then show ?thesis using True by auto
    qed
    then show ?thesis using 1 [OF True] True
      by (auto simp: lock_range_loop.simps [of i] set_insort_insert)
  next
    case False
    then have "lock_index ` {j. i \<le> j \<and> j < lim} = {}" by auto
    then show ?thesis using False by (subst lock_range_loop.simps) (simp del: Collect_empty_eq image_is_empty)
  qed
qed

lemma lock_indexes_props:
  "sorted (lock_indexes a n)" "distinct (lock_indexes a n)"
  "i \<in> set (lock_indexes a n) \<Longrightarrow> i < N_BACKEND_LOCKS"
  using lock_range_loop_props [of "[]" a "a + ucast n"] by (auto simp: lock_indexes_def)

lemma unlock_range_update: "unlock_range nrs (ls[nr := False]) = (unlock_range nrs ls)[nr := False]"
proof (induction nrs arbitrary: ls)
  case (Cons k nrs)
  have "ls[nr := False, k := False] = ls[k := False, nr := False]"
    by (cases "nr = k") (simp_all add: list_update_swap)
  then show ?case using Cons by simp
qed simp

lemma lock_all_balanced:
  assumes "distinct nrs" and "\<And>n. n \<in> set nrs \<Longrightarrow> n < length ls \<and> \<not> ls ! n"
  shows "\<exists>ls'. lock_all nrs ls = Inr ls' \<and> unlock_range nrs ls' = ls"
  using assms
proof (induction nrs arbitrary: ls)
  case (Cons nr nrs)
  have "\<exists>ls'. lock_all nrs (ls[nr := True]) = Inr ls' \<and> unlock_range nrs ls' = ls[nr := True]"
    using Cons.prems by (intro Cons.IH) (auto simp: nth_list_update)
  then obtain ls' where "lock_all nrs (ls[nr := True]) = Inr ls'" "unlock_range nrs ls' = ls[nr := True]"
    by blast
  moreover have "ls[nr := False] = ls" using Cons.prems(2) [of nr] by (simp add: list_update_same_conv)
  ultimately show ?case using Cons.prems(2) [of nr] by (auto simp: unlock_range_update)
qed simp

lemma lock_range_balanced:
  obtains ls' where "lock_range a n no_locks = Inr (lock_indexes a n, ls')"
    and "unlock_range (lock_indexes a n) ls' = no_locks"
proof -
  have "k < length no_locks \<and> \<not> no_locks ! k" if "k \<in> set (lock_indexes a n)" for k
    using lock_indexes_props(3) [OF that] by (simp add: no_locks_def)
  then show thesis
    using lock_all_balanced [OF lock_indexes_props(2), of a n no_locks] that
    by (auto simp: lock_range_def Let_def)
qed

text \<open>
  C34: the locks a range takes are in ascending order without repetition and exist in the array;
  taking them on an unlocked backend succeeds and \<open>unlock_range\<close> gives back the unlocked state;
  and two ranges (that do not wrap around 64 bits) with a block in common take a common lock.
\<close>

theorem lock_range_exclusion:
  fixes j :: u64
  assumes "unat a + unat n < 2 ^ 64" and "unat b + unat m < 2 ^ 64"
    and "unat a \<le> unat j" "unat j < unat a + unat n"
    and "unat b \<le> unat j" "unat j < unat b + unat m"
  shows "sorted (lock_indexes a n) \<and> distinct (lock_indexes a n) \<and>
    set (lock_indexes a n) \<subseteq> {..<N_BACKEND_LOCKS} \<and>
    (\<exists>ls. lock_range a n no_locks = Inr (lock_indexes a n, ls) \<and>
       unlock_range (lock_indexes a n) ls = no_locks) \<and>
    set (lock_indexes a n) \<inter> set (lock_indexes b m) \<noteq> {}"
proof -
  have mem: "lock_index j \<in> set (lock_indexes c k)"
    if "unat c + unat k < 2 ^ 64" "unat c \<le> unat j" "unat j < unat c + unat k" for c :: u64 and k :: u32
  proof -
    have "unat (c + ucast k) = unat c + unat k"
      using that(1) by (subst unat_add_u64) simp_all
    then have "c \<le> j \<and> j < c + ucast k"
      using that by (simp add: word_le_nat_alt word_less_nat_alt)
    then show ?thesis by (auto simp: lock_indexes_def set_lock_range_loop)
  qed
  have "lock_index j \<in> set (lock_indexes a n) \<inter> set (lock_indexes b m)"
    using mem [OF assms(1,3,4)] mem [OF assms(2,5,6)] by blast
  moreover obtain ls where "lock_range a n no_locks = Inr (lock_indexes a n, ls)"
    "unlock_range (lock_indexes a n) ls = no_locks"
    by (rule lock_range_balanced)
  ultimately show ?thesis using lock_indexes_props [where a = a and n = n] by blast
qed

theorem lock_range_exclusion_witness:
  "sorted (lock_indexes 10 4) \<and> distinct (lock_indexes 10 4) \<and>
    set (lock_indexes 10 4) \<subseteq> {..<N_BACKEND_LOCKS} \<and>
    (\<exists>ls. lock_range 10 4 no_locks = Inr (lock_indexes 10 4, ls) \<and>
       unlock_range (lock_indexes 10 4) ls = no_locks) \<and>
    set (lock_indexes 10 4) \<inter> set (lock_indexes 12 1) \<noteq> {}"
  by (rule lock_range_exclusion [where j = 12]) simp_all

section \<open>The virtual methods\<close>

datatype cmpwrite_result_t = CWR_OK | CWR_MISMATCH | CWR_READ_ERROR | CWR_WRITE_ERROR

text \<open>
  The virtual methods of \<open>class backend\<close> over a backend state \<open>'b\<close> and the environment. A source
  pointer is the list of the bytes behind it; the target buffer of \<open>read\<close> is passed in and returned.
\<close>

record 'b backend_ops =
  be_get_serial :: "'b \<Rightarrow> env \<Rightarrow> string"
  be_get_size_in_blocks :: "'b \<Rightarrow> u64"
  be_get_block_size :: "'b \<Rightarrow> u64"
  be_sync :: "'b \<times> env \<Rightarrow> (bool \<times> 'b \<times> env) result"
  be_write :: "u64 \<Rightarrow> u32 \<Rightarrow> byte list \<Rightarrow> 'b \<times> env \<Rightarrow> (bool \<times> 'b \<times> env) result"
  be_trim :: "u64 \<Rightarrow> u32 \<Rightarrow> 'b \<times> env \<Rightarrow> (bool \<times> 'b \<times> env) result"
  be_read :: "u64 \<Rightarrow> u32 \<Rightarrow> byte list \<Rightarrow> 'b \<times> env \<Rightarrow> (bool \<times> byte list \<times> 'b \<times> env) result"
  be_cmpwrite :: "u64 \<Rightarrow> u32 \<Rightarrow> byte list \<Rightarrow> byte list \<Rightarrow> 'b \<times> env
                    \<Rightarrow> (cmpwrite_result_t \<times> 'b \<times> env) result"

text \<open>\<open>get_free_space_percentage\<close>: 100 random blocks are sampled; an error makes the answer 0.\<close>

fun free_space_loop :: "'b backend_ops \<Rightarrow> nat \<Rightarrow> u64 \<Rightarrow> u64 \<Rightarrow> byte list \<Rightarrow> byte \<Rightarrow> 'b \<times> env
    \<Rightarrow> (byte \<times> 'b \<times> env) result" where
  "free_space_loop ops 0 block_size dev_size buffer empty_count st = Inr (empty_count, st)"
| "free_space_loop ops (Suc i) block_size dev_size buffer empty_count (b, e) =
     (case my_getrandom 8 e of
        (None, e) \<Rightarrow> Inr (0, b, e)
      | (Some rnd, e) \<Rightarrow>
          bindR (be_read ops (ld64 0 rnd mod dev_size) 1 buffer (b, e)) (\<lambda>(rc, buffer, st).
          if \<not> rc then Inr (0, st)
          else free_space_loop ops i block_size dev_size buffer
                 (if buffer = replicate (unat block_size) 0 then empty_count + 1 else empty_count) st))"

definition get_free_space_percentage :: "'b backend_ops \<Rightarrow> 'b \<times> env \<Rightarrow> (byte \<times> 'b \<times> env) result" where
  "get_free_space_percentage ops st =
     (let block_size = be_get_block_size ops (fst st);
          dev_size = be_get_size_in_blocks ops (fst st)
      in if dev_size div 100 = 0 then Inr (0, st)
         else free_space_loop ops 100 block_size dev_size (replicate (unat block_size) 0) 0 st)"

section \<open>The contract of a backend\<close>

text \<open>
  \<open>disk\<close> is the medium as bytes, \<open>inv\<close> the backend's invariant, \<open>bsz\<close> the block size and \<open>lim\<close> the
  number of blocks one call can transfer. The laws say when each method succeeds, what it then
  did, and what a failed call leaves untouched.
\<close>

locale block_storage =
  fixes ops :: "'b backend_ops" and disk :: "'b \<Rightarrow> byte list" and inv :: "'b \<Rightarrow> bool"
    and bsz :: nat and lim :: nat
  assumes bsz_pos: "0 < bsz" and bsz_lt: "bsz < 2 ^ 31" and lim_pos: "0 < lim"
  and block_size: "inv b \<Longrightarrow> be_get_block_size ops b = of_nat bsz"
  and size_in_blocks: "inv b \<Longrightarrow> be_get_size_in_blocks ops b = of_nat (length (disk b) div bsz)"
  and disk_lt: "inv b \<Longrightarrow> length (disk b) < 2 ^ 63"
  and sync_law: "inv b \<Longrightarrow> \<exists>ok b' e'. be_sync ops (b, e) = Inr (ok, b', e') \<and> inv b' \<and>
        disk b' = disk b \<and> (quiet e \<longrightarrow> ok \<and> quiet e')"
  and read_law: "\<lbrakk> inv b; unat n * bsz \<le> length buf; unat nr * bsz + unat n * bsz \<le> length (disk b) \<rbrakk>
      \<Longrightarrow> \<exists>ok buf' b' e'. be_read ops nr n buf (b, e) = Inr (ok, buf', b', e') \<and> inv b' \<and>
        disk b' = disk b \<and> length buf' = length buf \<and>
        (ok \<longrightarrow> buf' = overwrite 0 (slice (unat nr * bsz) (unat n * bsz) (disk b)) buf) \<and>
        (quiet e \<longrightarrow> quiet e' \<and> (unat n \<le> lim \<longrightarrow> ok))"
  and write_law: "\<lbrakk> inv b; unat n * bsz \<le> length data; unat nr * bsz + unat n * bsz \<le> length (disk b) \<rbrakk>
      \<Longrightarrow> \<exists>k ok b' e'. be_write ops nr n data (b, e) = Inr (ok, b', e') \<and> inv b' \<and>
        k \<le> unat n * bsz \<and> disk b' = overwrite (unat nr * bsz) (take k data) (disk b) \<and>
        (ok \<longrightarrow> k = unat n * bsz) \<and>
        (quiet e \<longrightarrow> quiet e' \<and> (unat n \<le> lim \<longrightarrow> ok))"
  and trim_law: "\<lbrakk> inv b; unat nr * bsz + unat n * bsz \<le> length (disk b) \<rbrakk>
      \<Longrightarrow> \<exists>ok b' e'. be_trim ops nr n (b, e) = Inr (ok, b', e') \<and> inv b' \<and>
        disk b' = (if ok then overwrite (unat nr * bsz) (replicate (unat n * bsz) 0) (disk b) else disk b) \<and>
        (quiet e \<longrightarrow> quiet e' \<and> (0 < n \<longrightarrow> ok))"

text \<open>A backend that can also compare and write any number of blocks, all of them or none.\<close>

locale block_device = block_storage +
  assumes cmpwrite_law: "\<lbrakk> inv b; unat n * bsz \<le> length dw; unat n * bsz \<le> length dc;
        unat nr * bsz + unat n * bsz \<le> length (disk b) \<rbrakk>
      \<Longrightarrow> \<exists>k r b' e'. be_cmpwrite ops nr n dw dc (b, e) = Inr (r, b', e') \<and> inv b' \<and>
        disk b' = overwrite (unat nr * bsz) (take k dw) (disk b) \<and> k \<le> unat n * bsz \<and>
        (r = CWR_OK \<longrightarrow> k = unat n * bsz) \<and>
        (r \<in> {CWR_MISMATCH, CWR_READ_ERROR} \<longrightarrow> k = 0) \<and>
        (r \<in> {CWR_OK, CWR_WRITE_ERROR} \<longrightarrow>
           slice (unat nr * bsz) (unat n * bsz) (disk b) = take (unat n * bsz) dc) \<and>
        (r = CWR_MISMATCH \<longrightarrow> slice (unat nr * bsz) (unat n * bsz) (disk b) \<noteq> take (unat n * bsz) dc) \<and>
        (quiet e \<longrightarrow> quiet e' \<and> r \<noteq> CWR_READ_ERROR \<and> (unat n \<le> lim \<longrightarrow> r \<noteq> CWR_WRITE_ERROR))"

context block_storage
begin

lemma write_keeps_size:
  assumes "inv b" and "unat n * bsz \<le> length data" and "unat nr * bsz + unat n * bsz \<le> length (disk b)"
    and "be_write ops nr n data (b, e) = Inr (ok, b', e')"
  shows "inv b' \<and> length (disk b') = length (disk b)"
  using write_law [OF assms(1,2,3), of e] assms by auto

lemma write_frame:
  assumes "inv b" and "unat n * bsz \<le> length data" and "unat nr * bsz + unat n * bsz \<le> length (disk b)"
    and "be_write ops nr n data (b, e) = Inr (ok, b', e')"
    and "o' + k \<le> unat nr * bsz \<or> unat nr * bsz + unat n * bsz \<le> o'"
  shows "slice o' k (disk b') = slice o' k (disk b)"
proof -
  obtain j where j: "j \<le> unat n * bsz" "disk b' = overwrite (unat nr * bsz) (take j data) (disk b)"
    using write_law [OF assms(1,2,3), of e] assms(4) by auto
  show ?thesis
    unfolding j(2) using j(1) assms(2,3,5) by (intro slice_overwrite_other) auto
qed

lemma write_then_read:
  assumes "inv b" and "length data = unat n * bsz" and "unat nr * bsz + unat n * bsz \<le> length (disk b)"
    and "be_write ops nr n data (b, e) = Inr (True, b', e1)"
    and "length buf = unat n * bsz"
    and "be_read ops nr n buf (b', e2) = Inr (True, buf', b'', e3)"
  shows "buf' = data"
proof -
  have b': "inv b'" "disk b' = overwrite (unat nr * bsz) data (disk b)"
    using write_law [OF assms(1) _ assms(3), of data e] assms(2,4) by auto
  have "slice (unat nr * bsz) (unat n * bsz) (disk b') = data"
    using b' assms(2,3) by (simp add: slice_overwrite_same)
  then show ?thesis
    using read_law [OF b'(1), of n buf nr e2] assms b' by (auto simp: overwrite_def)
qed

end

end
