(* ===== verification/Backend_Nbd.thy ===== *)
theory Backend_Nbd
  imports Backend
begin

text \<open>
  The NBD backend (\<^verbatim>\<open>backend-nbd.cpp\<close>): a client of a network block device server, with the socket
  loops \<open>READ\<close> and \<open>WRITE\<close> of \<^verbatim>\<open>utils.cpp\<close>. The network calls are parameters of the model; what a server
  does is only ever a hypothesis (\<open>nbd_serves\<close>).
\<close>

section \<open>Network calls\<close>

text \<open>
  The calls the backend makes, over a state \<open>'w\<close> of the outside world. \<open>getaddrinfo\<close> gives the number
  of addresses or fails; \<open>socket\<close> a descriptor or -1; \<open>connect\<close> its success for the address with that
  index; \<open>read\<close> the bytes received (none at the end of the stream) or an error; \<open>write\<close> the number of
  bytes taken or -1.
\<close>

record 'w nbd_net =
  net_getaddrinfo :: "string \<Rightarrow> int \<Rightarrow> 'w \<Rightarrow> nat option \<times> 'w"
  net_socket :: "'w \<Rightarrow> int \<times> 'w"
  net_connect :: "int \<Rightarrow> nat \<Rightarrow> 'w \<Rightarrow> bool \<times> 'w"
  net_read :: "int \<Rightarrow> nat \<Rightarrow> 'w \<Rightarrow> byte list option \<times> 'w"
  net_write :: "int \<Rightarrow> byte list \<Rightarrow> 'w \<Rightarrow> int \<times> 'w"
  net_close :: "int \<Rightarrow> 'w \<Rightarrow> 'w"

text \<open>
  \<open>READ\<close>: whether all of \<open>len\<close> bytes came in, and what came in. A call never gives more than it was
  asked for.
\<close>

function READ :: "'w nbd_net \<Rightarrow> int \<Rightarrow> nat \<Rightarrow> 'w \<Rightarrow> bool \<times> byte list \<times> 'w" where
  "READ net fd len w =
     (if len = 0 then (True, [], w)
      else case net_read net fd len w of
             (None, w) \<Rightarrow> (False, [], w)
           | (Some d, w) \<Rightarrow>
               if d = [] then (False, [], w)
               else
                 let d = take len d; (ok, ds, w) = READ net fd (len - length d) w
                 in (ok, d @ ds, w))"
  by pat_completeness auto
termination
  by (relation "measure (\<lambda>(_, _, len, _). len)") auto

text \<open>\<open>WRITE\<close>: whether everything was sent.\<close>

function WRITE :: "'w nbd_net \<Rightarrow> int \<Rightarrow> byte list \<Rightarrow> 'w \<Rightarrow> bool \<times> 'w" where
  "WRITE net fd d w =
     (if d = [] then (True, w)
      else case net_write net fd d w of
             (rc, w) \<Rightarrow> if rc \<le> 0 then (False, w) else WRITE net fd (drop (nat rc) d) w)"
  by pat_completeness auto
termination
  by (relation "measure (\<lambda>(_, _, d, _). length d)") auto

declare READ.simps [simp del] WRITE.simps [simp del]

section \<open>State\<close>

record 'w backend_nbd =
  nb_identifier :: string
  nb_host :: string
  nb_port :: int
  nb_fd :: int
  nb_dev_size :: u64
  nb_bs :: backend_stats_t
  nb_ts_last_acces :: u64
  nb_locks :: "bool list"
  nb_world :: 'w

definition my_HTONLL :: "u64 \<Rightarrow> u64" where
  "my_HTONLL x =
     (if 1 = my_HTONL 1 then x
      else push_bit 32 (ucast (my_HTONL (ucast (x AND 0xffffffff)))) OR ucast (my_HTONL (ucast (drop_bit 32 x))))"

definition my_NTOHLL :: "u64 \<Rightarrow> u64" where
  "my_NTOHLL x =
     (if 1 = my_NTOHL 1 then x
      else push_bit 32 (ucast (my_NTOHL (ucast (x AND 0xffffffff)))) OR ucast (my_NTOHL (ucast (drop_bit 32 x))))"

section \<open>Connecting\<close>

text \<open>The loop over the addresses, from index \<open>i\<close> on: the descriptor of the first that works, or -1.\<close>

fun nbd_try_addresses :: "'w nbd_net \<Rightarrow> nat \<Rightarrow> nat \<Rightarrow> 'w \<Rightarrow> int \<times> 'w" where
  "nbd_try_addresses net i 0 w = (-1, w)"
| "nbd_try_addresses net i (Suc left) w =
     (case net_socket net w of (fd, w) \<Rightarrow>
        if fd = -1 then nbd_try_addresses net (i + 1) left w
        else case net_connect net fd i w of (ok, w) \<Rightarrow>
          if \<not> ok then nbd_try_addresses net (i + 1) left (net_close net fd w)
          else (fd, w))"

definition nbd_close :: "'w nbd_net \<Rightarrow> 'w backend_nbd \<Rightarrow> 'w backend_nbd" where
  "nbd_close net b = b\<lparr>nb_fd := -1, nb_world := net_close net (nb_fd b) (nb_world b)\<rparr>"

text \<open>
  The hello message of the server: 152 bytes, two magic numbers of eight bytes, the size of the
  device, flags and padding. The structure is zeroed before the \<open>READ\<close>.
\<close>

definition nbd_hello :: "'w nbd_net \<Rightarrow> 'w backend_nbd \<Rightarrow> 'w backend_nbd" where
  "nbd_hello net b =
     (let (ok, d, w) = READ net (nb_fd b) 152 (nb_world b);
          hello = overwrite 0 d (replicate 152 0);
          b = b\<lparr>nb_world := w\<rparr>;
          b = (if ok then b else nbd_close net b);
          b = b\<lparr>nb_dev_size := my_NTOHLL (ld64 16 hello)\<rparr>
      in if nb_fd b \<noteq> -1 \<and> slice 0 8 hello \<noteq> c_str ''NBDMAGIC'' then nbd_close net b else b)"

definition nbd_connect_once :: "'w nbd_net \<Rightarrow> 'w backend_nbd \<Rightarrow> 'w backend_nbd" where
  "nbd_connect_once net b =
     (case net_getaddrinfo net (nb_host b) (nb_port b) (nb_world b) of
        (None, w) \<Rightarrow> b\<lparr>nb_world := w\<rparr>
      | (Some n, w) \<Rightarrow>
          let (fd, w) = nbd_try_addresses net 0 n w; b = b\<lparr>nb_fd := fd, nb_world := w\<rparr>
          in if fd \<noteq> -1 then nbd_hello net b else b)"

text \<open>\<open>connect\<close>; with \<open>retry\<close> it does not return before it is connected.\<close>

fun nbd_connect_loop :: "nat \<Rightarrow> 'w nbd_net \<Rightarrow> bool \<Rightarrow> 'w backend_nbd \<Rightarrow> 'w backend_nbd result" where
  "nbd_connect_loop 0 net retry b = Inl No_return"
| "nbd_connect_loop (Suc fuel) net retry b =
     (let b = nbd_connect_once net b
      in if nb_fd b = -1 \<and> retry then nbd_connect_loop fuel net retry b else Inr b)"

definition nbd_connect :: "nat \<Rightarrow> 'w nbd_net \<Rightarrow> bool \<Rightarrow> 'w backend_nbd \<Rightarrow> (bool \<times> 'w backend_nbd) result" where
  "nbd_connect fuel net retry b =
     (if nb_fd b \<noteq> -1 then Inr (True, b)
      else bindR (nbd_connect_loop fuel net retry b) (\<lambda>b. Inr (nb_fd b \<noteq> -1, b)))"

text \<open>The constructor and \<open>begin\<close>; \<open>name\<close> is the formatted \<open>host:port\<close>.\<close>

definition backend_nbd_new :: "string \<Rightarrow> string \<Rightarrow> int \<Rightarrow> 'w \<Rightarrow> env \<Rightarrow> 'w backend_nbd \<times> env" where
  "backend_nbd_new name host port w e =
     (let (t, e) = get_micros e
      in (\<lparr>nb_identifier = name, nb_host = host, nb_port = port, nb_fd = -1, nb_dev_size = 0, nb_bs = zero_stats,
           nb_ts_last_acces = t, nb_locks = no_locks, nb_world = w\<rparr>, e))"

definition backend_nbd_begin :: "'w nbd_net \<Rightarrow> 'w backend_nbd \<Rightarrow> (bool \<times> 'w backend_nbd) result" where
  "backend_nbd_begin net b = nbd_connect 1 net False b"

definition nbd_get_block_size :: "'w backend_nbd \<Rightarrow> u64" where
  "nbd_get_block_size b = 4096"

definition nbd_get_size_in_blocks :: "'w backend_nbd \<Rightarrow> u64" where
  "nbd_get_size_in_blocks b = nb_dev_size b div nbd_get_block_size b"

section \<open>Requests\<close>

definition NBD_CMD_READ :: u32 where "NBD_CMD_READ = 0"
definition NBD_CMD_WRITE :: u32 where "NBD_CMD_WRITE = 1"
definition NBD_CMD_FLUSH :: u32 where "NBD_CMD_FLUSH = 3"
definition NBD_CMD_TRIM :: u32 where "NBD_CMD_TRIM = 4"

definition nbd_request :: "u32 \<Rightarrow> u64 \<Rightarrow> u32 \<Rightarrow> byte list" where
  "nbd_request command offset n_bytes =
     le32_bytes (my_NTOHL 0x25609513) @ le32_bytes (my_HTONL command) @ le64_bytes 0
     @ le64_bytes (my_HTONLL offset) @ le32_bytes (my_HTONL n_bytes)"

text \<open>
  One round of \<open>invoke_nbd\<close> on a connection: \<open>None\<close> is the jump to the loop's condition after the
  connection was closed, otherwise the error code of the reply. \<open>data\<close> is the buffer the pointer
  refers to; a request for more than it holds accesses memory outside of it.
\<close>

definition nbd_transact :: "'w nbd_net \<Rightarrow> u32 \<Rightarrow> u64 \<Rightarrow> u32 \<Rightarrow> byte list \<Rightarrow> 'w backend_nbd
    \<Rightarrow> (u32 option \<times> byte list \<times> 'w backend_nbd) result" where
  "nbd_transact net command offset n_bytes data b =
     (let fd = nb_fd b; (sent, w) = WRITE net fd (nbd_request command offset n_bytes) (nb_world b); b = b\<lparr>nb_world := w\<rparr>
      in if \<not> sent then Inr (None, data, nbd_close net b)
         else if command \<in> {NBD_CMD_WRITE, NBD_CMD_READ} \<and> length data < unat n_bytes then Inl Mem_oob
         else
           let (sent, w) = (if command = NBD_CMD_WRITE then WRITE net fd (take (unat n_bytes) data) (nb_world b)
                            else (True, nb_world b));
               b = b\<lparr>nb_world := w\<rparr>
           in if \<not> sent then Inr (None, data, nbd_close net b)
              else
                let (got, reply, w) = READ net fd 16 (nb_world b); b = b\<lparr>nb_world := w\<rparr>
                in if \<not> got then Inr (None, data, nbd_close net b)
                   else if my_NTOHL (ld32 0 reply) \<noteq> 0x67446698 then Inr (None, data, nbd_close net b)
                   else if my_NTOHL (ld32 4 reply) \<noteq> 0 then Inr (Some (my_NTOHL (ld32 4 reply)), data, b)
                   else if command = NBD_CMD_READ then
                     let (got, d, w) = READ net fd (unat n_bytes) (nb_world b);
                         b = b\<lparr>nb_world := w\<rparr>; data = overwrite 0 d data
                     in Inr (if got then Some 0 else None, data, if got then b else nbd_close net b)
                   else Inr (Some 0, data, b))"

text \<open>
  The \<open>do ... while(fd == -1)\<close> loop. \<open>connect(true)\<close> returns only when it is connected, so its failure
  branch is not taken.
\<close>

fun invoke_nbd_loop :: "nat \<Rightarrow> 'w nbd_net \<Rightarrow> u32 \<Rightarrow> u64 \<Rightarrow> u32 \<Rightarrow> byte list \<Rightarrow> 'w backend_nbd
    \<Rightarrow> (u32 \<times> byte list \<times> 'w backend_nbd) result" where
  "invoke_nbd_loop 0 net command offset n_bytes data b = Inl No_return"
| "invoke_nbd_loop (Suc fuel) net command offset n_bytes data b =
     bindR (nbd_connect (Suc fuel) net True b) (\<lambda>(_, b).
     bindR (nbd_transact net command offset n_bytes data b) (\<lambda>(r, data, b).
     case r of Some err \<Rightarrow> Inr (err, data, b)
     | None \<Rightarrow> invoke_nbd_loop fuel net command offset n_bytes data b))"

text \<open>An error reply returns at once, without counting the time spent.\<close>

definition invoke_nbd :: "nat \<Rightarrow> 'w nbd_net \<Rightarrow> u32 \<Rightarrow> u64 \<Rightarrow> u32 \<Rightarrow> byte list \<Rightarrow> 'w backend_nbd \<times> env
    \<Rightarrow> (bool \<times> byte list \<times> 'w backend_nbd \<times> env) result" where
  "invoke_nbd fuel net command offset n_bytes data = (\<lambda>(b, e).
     let (start, e) = get_micros e
     in bindR (invoke_nbd_loop fuel net command offset n_bytes data b) (\<lambda>(err, data, b).
        if err \<noteq> 0 then Inr (False, data, b, e)
        else
          let (end_ts, e) = get_micros e
          in Inr (nb_fd b \<noteq> -1, data, b\<lparr>nb_bs := add_io_wait start end_ts (nb_bs b)\<rparr>, e)))"

section \<open>The virtual methods\<close>

definition nbd_sync :: "nat \<Rightarrow> 'w nbd_net \<Rightarrow> 'w backend_nbd \<times> env \<Rightarrow> (bool \<times> 'w backend_nbd \<times> env) result" where
  "nbd_sync fuel net = (\<lambda>(b, e).
     let bs = nb_bs b; (t, e) = get_micros e;
         b = b\<lparr>nb_bs := bs\<lparr>bs_n_syncs := bs_n_syncs bs + 1\<rparr>, nb_ts_last_acces := t\<rparr>
     in bindR (invoke_nbd fuel net NBD_CMD_FLUSH 0 0 [] (b, e)) (\<lambda>(rc, _, b, e). Inr (rc, b, e)))"

definition nbd_write :: "nat \<Rightarrow> 'w nbd_net \<Rightarrow> u64 \<Rightarrow> u32 \<Rightarrow> byte list \<Rightarrow> 'w backend_nbd \<times> env
    \<Rightarrow> (bool \<times> 'w backend_nbd \<times> env) result" where
  "nbd_write fuel net block_nr n_blocks data = (\<lambda>(b, e).
     let block_size = nbd_get_block_size b;
         offset = block_nr * block_size;
         n_bytes = ucast n_blocks * block_size
     in bindR (lock_range block_nr n_blocks (nb_locks b)) (\<lambda>(lock_list, ls).
        bindR (invoke_nbd fuel net NBD_CMD_WRITE offset (ucast n_bytes) data (b\<lparr>nb_locks := ls\<rparr>, e)) (\<lambda>(rc, _, b, e).
        let (t, e) = get_micros e; bs = nb_bs b
        in Inr (rc, b\<lparr>nb_locks := unlock_range lock_list (nb_locks b), nb_ts_last_acces := t,
             nb_bs := bs\<lparr>bs_bytes_written := bs_bytes_written bs + n_bytes, bs_n_writes := bs_n_writes bs + 1\<rparr>\<rparr>, e))))"

definition nbd_trim :: "nat \<Rightarrow> 'w nbd_net \<Rightarrow> u64 \<Rightarrow> u32 \<Rightarrow> 'w backend_nbd \<times> env
    \<Rightarrow> (bool \<times> 'w backend_nbd \<times> env) result" where
  "nbd_trim fuel net block_nr n_blocks = (\<lambda>(b, e).
     let block_size = nbd_get_block_size b;
         offset = block_nr * block_size;
         n_bytes = ucast n_blocks * block_size
     in bindR (lock_range block_nr n_blocks (nb_locks b)) (\<lambda>(lock_list, ls).
        bindR (invoke_nbd fuel net NBD_CMD_TRIM offset (ucast n_bytes) [] (b\<lparr>nb_locks := ls\<rparr>, e)) (\<lambda>(rc, _, b, e).
        let (t, e) = get_micros e; bs = nb_bs b
        in Inr (rc, b\<lparr>nb_locks := unlock_range lock_list (nb_locks b), nb_ts_last_acces := t,
             nb_bs := bs\<lparr>bs_n_trims := bs_n_trims bs + ucast n_blocks\<rparr>\<rparr>, e))))"

definition nbd_read :: "nat \<Rightarrow> 'w nbd_net \<Rightarrow> u64 \<Rightarrow> u32 \<Rightarrow> byte list \<Rightarrow> 'w backend_nbd \<times> env
    \<Rightarrow> (bool \<times> byte list \<times> 'w backend_nbd \<times> env) result" where
  "nbd_read fuel net block_nr n_blocks data = (\<lambda>(b, e).
     let block_size = nbd_get_block_size b;
         offset = block_nr * block_size;
         n_bytes = ucast n_blocks * block_size
     in bindR (lock_range block_nr n_blocks (nb_locks b)) (\<lambda>(lock_list, ls).
        bindR (invoke_nbd fuel net NBD_CMD_READ offset (ucast n_bytes) data (b\<lparr>nb_locks := ls\<rparr>, e)) (\<lambda>(rc, data, b, e).
        let (t, e) = get_micros e; bs = nb_bs b
        in Inr (rc, data, b\<lparr>nb_locks := unlock_range lock_list (nb_locks b), nb_ts_last_acces := t,
             nb_bs := bs\<lparr>bs_bytes_read := bs_bytes_read bs + n_bytes, bs_n_reads := bs_n_reads bs + 1\<rparr>\<rparr>, e))))"

text \<open>The compare loop of \<open>cmpwrite\<close>: \<open>left\<close> blocks from number \<open>i\<close> of the range on.\<close>

fun nbd_cmp_loop :: "nat \<Rightarrow> 'w nbd_net \<Rightarrow> u64 \<Rightarrow> nat \<Rightarrow> nat \<Rightarrow> byte list \<Rightarrow> byte list \<Rightarrow> 'w backend_nbd \<times> env
    \<Rightarrow> (cmpwrite_result_t \<times> 'w backend_nbd \<times> env) result" where
  "nbd_cmp_loop fuel net block_nr i 0 data_compare buffer st = Inr (CWR_OK, st)"
| "nbd_cmp_loop fuel net block_nr i (Suc left) data_compare buffer st =
     (let block_size = nbd_get_block_size (fst st)
      in bindR (invoke_nbd fuel net NBD_CMD_READ ((block_nr + of_nat i) * block_size) (ucast block_size) buffer st)
           (\<lambda>(rc, buffer, b, e).
         if \<not> rc then Inr (CWR_READ_ERROR, b, e)
         else if length data_compare < (i + 1) * unat block_size then Inl Mem_oob
         else
           let bs = nb_bs b; b = b\<lparr>nb_bs := bs\<lparr>bs_bytes_read := bs_bytes_read bs + block_size\<rparr>\<rparr>
           in if buffer \<noteq> slice (i * unat block_size) (unat block_size) data_compare then Inr (CWR_MISMATCH, b, e)
              else nbd_cmp_loop fuel net block_nr (i + 1) left data_compare buffer (b, e)))"

definition nbd_cmpwrite :: "nat \<Rightarrow> 'w nbd_net \<Rightarrow> u64 \<Rightarrow> u32 \<Rightarrow> byte list \<Rightarrow> byte list \<Rightarrow> 'w backend_nbd \<times> env
    \<Rightarrow> (cmpwrite_result_t \<times> 'w backend_nbd \<times> env) result" where
  "nbd_cmpwrite fuel net block_nr n_blocks data_write data_compare = (\<lambda>(b, e).
     let block_size = nbd_get_block_size b
     in bindR (lock_range block_nr n_blocks (nb_locks b)) (\<lambda>(lock_list, ls).
        bindR (nbd_cmp_loop fuel net block_nr 0 (unat n_blocks) data_compare (replicate (unat block_size) 0)
                 (b\<lparr>nb_locks := ls\<rparr>, e)) (\<lambda>(result, b, e).
        bindR (if result = CWR_OK then
                 bindR (invoke_nbd fuel net NBD_CMD_WRITE (block_nr * block_size) (ucast (ucast n_blocks * block_size))
                          data_write (b, e)) (\<lambda>(rc, _, b, e).
                 if \<not> rc then Inr (CWR_WRITE_ERROR, b, e)
                 else
                   let (t, e) = get_micros e; bs = nb_bs b
                   in Inr (CWR_OK, b\<lparr>nb_ts_last_acces := t,
                        nb_bs := bs\<lparr>bs_bytes_written := bs_bytes_written bs + block_size\<rparr>\<rparr>, e))
               else Inr (result, b, e)) (\<lambda>(result, b, e).
        let bs = nb_bs b
        in Inr (result, b\<lparr>nb_locks := unlock_range lock_list (nb_locks b),
             nb_bs := bs\<lparr>bs_n_reads := bs_n_reads bs + 1, bs_n_writes := bs_n_writes bs + 1\<rparr>\<rparr>, e)))))"

definition nbd_get_serial :: "'w backend_nbd \<Rightarrow> string" where
  "nbd_get_serial b = nb_identifier b"

definition nbd_ops :: "nat \<Rightarrow> 'w nbd_net \<Rightarrow> 'w backend_nbd backend_ops" where
  "nbd_ops fuel net = \<lparr>be_get_serial = (\<lambda>b e. nbd_get_serial b), be_get_size_in_blocks = nbd_get_size_in_blocks,
     be_get_block_size = nbd_get_block_size, be_sync = nbd_sync fuel net, be_write = nbd_write fuel net,
     be_trim = nbd_trim fuel net, be_read = nbd_read fuel net, be_cmpwrite = nbd_cmpwrite fuel net\<rparr>"

section \<open>The server\<close>

text \<open>
  What the NBD protocol says about a server for one export with no errors: the bytes received that do
  not form a complete request yet, the bytes not yet fetched by the client, and the export. A request
  is answered once it is complete; a WRITE carries its data. A request outside the export is refused.
  Trimmed blocks read as zeros: the protocol leaves this to the server, but the SCSI layer announces it
  for every backend.
\<close>

record nbd_srv =
  srv_disk :: "byte list"
  srv_in :: "byte list"
  srv_out :: "byte list"

definition request_complete :: "byte list \<Rightarrow> bool" where
  "request_complete r \<longleftrightarrow> 28 \<le> length r \<and>
     (get_uint32_t r 4 = NBD_CMD_WRITE \<longrightarrow> 28 + unat (get_uint32_t r 24) \<le> length r)"

definition srv_reply :: "u32 \<Rightarrow> byte list \<Rightarrow> byte list" where
  "srv_reply err handle = rev (le32_bytes 0x67446698) @ rev (le32_bytes err) @ handle"

definition srv_execute :: "nbd_srv \<Rightarrow> byte list \<Rightarrow> nbd_srv" where
  "srv_execute srv r =
     (let typ = get_uint32_t r 4; off = unat (get_uint64_t r 16); len = unat (get_uint32_t r 24);
          answer = (\<lambda>err d srv. srv\<lparr>srv_out := srv_out srv @ srv_reply err (slice 8 8 r) @ d\<rparr>)
      in if get_uint32_t r 0 \<noteq> 0x25609513 then answer 22 [] srv
         else if typ = NBD_CMD_FLUSH then answer 0 [] srv
         else if length (srv_disk srv) < off + len then answer 28 [] srv
         else if typ = NBD_CMD_READ then answer 0 (slice off len (srv_disk srv)) srv
         else if typ = NBD_CMD_WRITE then answer 0 [] (srv\<lparr>srv_disk := overwrite off (slice 28 len r) (srv_disk srv)\<rparr>)
         else if typ = NBD_CMD_TRIM then answer 0 [] (srv\<lparr>srv_disk := overwrite off (replicate len 0) (srv_disk srv)\<rparr>)
         else answer 22 [] srv)"

definition srv_receive :: "nbd_srv \<Rightarrow> byte list \<Rightarrow> nbd_srv" where
  "srv_receive srv d =
     (let r = srv_in srv @ d
      in if request_complete r then srv_execute (srv\<lparr>srv_in := []\<rparr>) r else srv\<lparr>srv_in := r\<rparr>)"

text \<open>
  The hypothesis on the outside world: \<open>srv w\<close> is the state of the server behind the connection \<open>fd\<close>,
  \<open>live fd w\<close> says that the connection is up. A \<open>write\<close> hands some of its bytes to the server, a
  \<open>read\<close> takes some of those that are there.
\<close>

definition nbd_serves :: "'w nbd_net \<Rightarrow> (int \<Rightarrow> 'w \<Rightarrow> bool) \<Rightarrow> ('w \<Rightarrow> nbd_srv) \<Rightarrow> bool" where
  "nbd_serves net live srv \<longleftrightarrow>
     (\<forall>fd w d. live fd w \<and> d \<noteq> [] \<longrightarrow>
        (\<exists>k w'. net_write net fd d w = (int k, w') \<and> 0 < k \<and> k \<le> length d \<and> live fd w' \<and>
           srv w' = srv_receive (srv w) (take k d))) \<and>
     (\<forall>fd w n. live fd w \<and> 0 < n \<and> srv_out (srv w) \<noteq> [] \<longrightarrow>
        (\<exists>k w'. net_read net fd n w = (Some (take k (srv_out (srv w))), w') \<and> 0 < k \<and> k \<le> n \<and> live fd w' \<and>
           srv w' = (srv w)\<lparr>srv_out := drop k (srv_out (srv w))\<rparr>))"

section \<open>Bytes of a request\<close>

lemma my_HTONL_1: "1 \<noteq> my_HTONL 1"
  by (simp add: my_HTONL_def my_HTONS_def)

lemma bit_my_HTONLL: "bit (my_HTONLL x) n \<longleftrightarrow>
    (if n < 32 then bit (my_HTONL (ucast (drop_bit 32 x))) n else n < 64 \<and> bit (my_HTONL (ucast x)) (n - 32))"
proof -
  have "x AND 0xffffffff = take_bit 32 x" by (simp add: take_bit_eq_mask mask_eq_exp_minus_1)
  then have "ucast (x AND 0xffffffff) = (ucast x :: u32)"
    by (simp only:) (rule bit_word_eqI, simp add: bit_simps)
  then show ?thesis
    using my_HTONL_1 by (auto simp: my_HTONLL_def bit_simps dest: bit_imp_le_length)
qed

lemma le64_bytes_HTONLL: "le64_bytes (my_HTONLL x) = rev (le64_bytes x)"
  unfolding le64_bytes_def
  by (simp, intro conjI; rule bit_word_eqI; simp add: bit_simps bit_my_HTONLL bit_my_HTONL)

lemma get_uint32_rev:
  assumes "length a = k"
  shows "get_uint32_t (a @ rev (le32_bytes v) @ c) k = v"
proof -
  have "ld32 k (a @ rev (le32_bytes v) @ c) = ld32 0 (rev (le32_bytes v))"
    using assms by (subst ld32_slice) (simp_all add: slice_def)
  also have "\<dots> = my_HTONL v" by (simp add: le32_bytes_HTONL [symmetric] ld32_le32_bytes)
  finally show ?thesis by (simp add: my_NTOHL_ld32 [symmetric] my_NTOHL_def)
qed

lemma get_uint64_rev:
  assumes "length a = k"
  shows "get_uint64_t (a @ rev (le64_bytes v) @ c) k = v"
proof -
  have eq: "get_uint64_t (a @ rev (le64_bytes v) @ c) k =
      push_bit 56 (ucast (ucast (drop_bit 56 v) :: byte)) OR push_bit 48 (ucast (ucast (drop_bit 48 v) :: byte))
      OR push_bit 40 (ucast (ucast (drop_bit 40 v) :: byte)) OR push_bit 32 (ucast (ucast (drop_bit 32 v) :: byte))
      OR push_bit 24 (ucast (ucast (drop_bit 24 v) :: byte)) OR push_bit 16 (ucast (ucast (drop_bit 16 v) :: byte))
      OR push_bit 8 (ucast (ucast (drop_bit 8 v) :: byte)) OR ucast (ucast v :: byte)"
    unfolding assms [symmetric] get_uint64_t_def nth_append_length_plus by (simp add: le64_bytes_def)
  have "bit (get_uint64_t (a @ rev (le64_bytes v) @ c) k) n = bit v n" if "n < 64" for n
  proof -
    consider "n < 8" | "8 \<le> n" "n < 16" | "16 \<le> n" "n < 24" | "24 \<le> n" "n < 32" | "32 \<le> n" "n < 40"
      | "40 \<le> n" "n < 48" | "48 \<le> n" "n < 56" | "56 \<le> n"
      by linarith
    then show ?thesis unfolding eq bit_or_iff by cases (use that in \<open>simp_all add: bit_simps less_diff_conv2\<close>)
  qed
  then show ?thesis by (intro bit_word_eqI) simp
qed

lemma nbd_request_bytes:
  "nbd_request c o' n = rev (le32_bytes 0x25609513) @ rev (le32_bytes c) @ replicate 8 0 @ rev (le64_bytes o') @ rev (le32_bytes n)"
proof -
  have "le64_bytes 0 = replicate 8 0" by (simp add: le64_bytes_def numeral_eq_Suc)
  then show ?thesis by (simp add: nbd_request_def my_NTOHL_def le32_bytes_HTONL le64_bytes_HTONLL)
qed

lemma nbd_request_fields:
  fixes c n :: u32 and o' :: u64 and d :: "byte list"
  defines "r \<equiv> nbd_request c o' n @ d"
  shows "length (nbd_request c o' n) = 28" "get_uint32_t r 0 = 0x25609513" "get_uint32_t r 4 = c" "get_uint64_t r 16 = o'"
    "get_uint32_t r 24 = n" "slice 8 8 r = replicate 8 0" "slice 28 (length d) r = d"
proof -
  show l: "length (nbd_request c o' n) = 28" by (simp add: nbd_request_bytes)
  show "get_uint32_t r 0 = 0x25609513"
    using get_uint32_rev [of "[]" 0 "0x25609513"] by (simp add: r_def nbd_request_bytes)
  show "get_uint32_t r 4 = c"
    using get_uint32_rev [of "rev (le32_bytes 0x25609513)" 4 c] by (simp add: r_def nbd_request_bytes)
  show "get_uint64_t r 16 = o'"
    using get_uint64_rev [of "rev (le32_bytes 0x25609513) @ rev (le32_bytes c) @ replicate 8 0" 16 o']
    by (simp add: r_def nbd_request_bytes)
  show "get_uint32_t r 24 = n"
    using get_uint32_rev [of "rev (le32_bytes 0x25609513) @ rev (le32_bytes c) @ replicate 8 0 @ rev (le64_bytes o')" 24 n]
    by (simp add: r_def nbd_request_bytes)
  show "slice 8 8 r = replicate 8 0" by (simp add: r_def nbd_request_bytes slice_def)
  show "slice 28 (length d) r = d" using l by (simp add: r_def slice_def)
qed

section \<open>Sending and receiving\<close>

lemma WRITE_sends:
  assumes "nbd_serves net live srv" and "live fd w" and "d \<noteq> []"
    and "\<And>k. k < length d \<Longrightarrow> \<not> request_complete (srv_in (srv w) @ take k d)"
  shows "\<exists>w'. WRITE net fd d w = (True, w') \<and> live fd w' \<and> srv w' = srv_receive (srv w) d"
  using assms(2-4)
proof (induction "length d" arbitrary: d w rule: less_induct)
  case less
  obtain k w1 where k: "net_write net fd d w = (int k, w1)" "0 < k" "k \<le> length d" "live fd w1"
    "srv w1 = srv_receive (srv w) (take k d)"
    using assms(1) less.prems(1,2) unfolding nbd_serves_def by blast
  show ?case
  proof (cases "k = length d")
    case True
    then have "WRITE net fd d w = (True, w1)" using k(1,2) less.prems(2) by (simp add: WRITE.simps)
    then show ?thesis using k(4,5) True by simp
  next
    case False
    have lt: "k < length d" using False k(3) by simp
    have w1: "srv w1 = (srv w)\<lparr>srv_in := srv_in (srv w) @ take k d\<rparr>"
      using less.prems(3) [OF lt] k(5) by (simp add: srv_receive_def)
    have "\<exists>w'. WRITE net fd (drop k d) w1 = (True, w') \<and> live fd w' \<and> srv w' = srv_receive (srv w1) (drop k d)"
    proof (rule less.hyps [OF _ k(4)])
      fix j assume "j < length (drop k d)"
      then have "\<not> request_complete (srv_in (srv w) @ take (k + j) d)" by (intro less.prems(3)) simp
      then show "\<not> request_complete (srv_in (srv w1) @ take j (drop k d))" by (simp add: w1 take_add)
    qed (use lt k(2) in simp_all)
    moreover have "srv_receive (srv w1) (drop k d) = srv_receive (srv w) d" by (simp add: w1 srv_receive_def Let_def)
    ultimately show ?thesis using k(1,2) less.prems(2) by (auto simp: WRITE.simps [of net fd d])
  qed
qed

lemma READ_gets:
  assumes "nbd_serves net live srv" and "live fd w" and "n \<le> length (srv_out (srv w))"
  shows "\<exists>w'. READ net fd n w = (True, take n (srv_out (srv w)), w') \<and> live fd w' \<and>
    srv w' = (srv w)\<lparr>srv_out := drop n (srv_out (srv w))\<rparr>"
  using assms(2,3)
proof (induction n arbitrary: w rule: less_induct)
  case (less n)
  let ?out = "srv_out (srv w)"
  show ?case
  proof (cases "n = 0")
    case True
    then show ?thesis using less.prems by (simp add: READ.simps)
  next
    case False
    then have "?out \<noteq> []" using less.prems(2) by auto
    then obtain k w1 where k: "net_read net fd n w = (Some (take k ?out), w1)" "0 < k" "k \<le> n" "live fd w1"
      "srv w1 = (srv w)\<lparr>srv_out := drop k ?out\<rparr>"
      using assms(1) less.prems(1) False unfolding nbd_serves_def by (metis gr0I)
    have len: "length (take k ?out) = k" using k(3) less.prems(2) by simp
    obtain w' where w': "READ net fd (n - k) w1 = (True, take (n - k) (srv_out (srv w1)), w')" "live fd w'"
      "srv w' = (srv w1)\<lparr>srv_out := drop (n - k) (srv_out (srv w1))\<rparr>"
      using less.IH [of "n - k" w1] k(2-5) diff_le_mono [OF less.prems(2), of k] by auto
    have "take k ?out \<noteq> []" using len k(2) by auto
    then have "READ net fd n w = (True, take k ?out @ take (n - k) (drop k ?out), w')"
      using False k(1,3,5) len w'(1) by (simp add: READ.simps [of net fd n] min_absorb1 min_absorb2)
    moreover have "take k ?out @ take (n - k) (drop k ?out) = take n ?out"
      using k(3) by (simp add: take_add [symmetric])
    ultimately show ?thesis using w'(2,3) k(3,5) by simp
  qed
qed

text \<open>The server between two requests.\<close>

definition srv_idle :: "byte list \<Rightarrow> nbd_srv" where
  "srv_idle d = \<lparr>srv_disk = d, srv_in = [], srv_out = []\<rparr>"

lemma request_complete_request:
  "request_complete (nbd_request c o' n @ d) \<longleftrightarrow> (c = NBD_CMD_WRITE \<longrightarrow> unat n \<le> length d)"
  by (simp add: request_complete_def nbd_request_fields)

lemma request_incomplete: "k < 28 \<Longrightarrow> \<not> request_complete (take k (nbd_request c o' n))"
  by (simp add: request_complete_def)

lemma srv_reply_fields:
  "length (srv_reply err h) = 8 + length h" "my_NTOHL (ld32 0 (srv_reply err h @ d)) = 0x67446698"
  "my_NTOHL (ld32 4 (srv_reply err h @ d)) = err"
  using get_uint32_rev [of "[]" 0 "0x67446698"] get_uint32_rev [of "rev (le32_bytes 0x67446698)" 4 err]
  by (simp_all add: srv_reply_def my_NTOHL_ld32)

text \<open>A request sent completely, with its data in the case of a WRITE: the server has answered it.\<close>

lemma request_sent:
  fixes n :: u32
  assumes "nbd_serves net live srv" and "live fd w" and "srv w = srv_idle disk"
    and "c = NBD_CMD_WRITE \<longrightarrow> unat n \<le> length data"
    and d_def: "d = (if c = NBD_CMD_WRITE then take (unat n) data else [])"
  shows "\<exists>w1 w2. WRITE net fd (nbd_request c o' n) w = (True, w1) \<and>
    (if c = NBD_CMD_WRITE then WRITE net fd (take (unat n) data) w1 else (True, w1)) = (True, w2) \<and>
    live fd w2 \<and> srv w2 = srv_execute (srv_idle disk) (nbd_request c o' n @ d)"
proof -
  let ?r = "nbd_request c o' n"
  have len: "length ?r = 28" by (rule nbd_request_fields)
  then have "?r \<noteq> []" by auto
  then obtain w1 where w1: "WRITE net fd ?r w = (True, w1)" "live fd w1" "srv w1 = srv_receive (srv_idle disk) ?r"
    using WRITE_sends [OF assms(1,2), of ?r] request_incomplete len assms(3) by (auto simp: srv_idle_def)
  have c0: "request_complete ?r \<longleftrightarrow> (c = NBD_CMD_WRITE \<longrightarrow> unat n = 0)"
    using request_complete_request [of c o' n "[]"] by simp
  show ?thesis
  proof (cases "c = NBD_CMD_WRITE \<and> unat n \<noteq> 0")
    case False
    then have "srv w1 = srv_execute (srv_idle disk) (?r @ d)"
      using w1(3) c0 d_def by (auto simp: srv_receive_def srv_idle_def)
    moreover have "(if c = NBD_CMD_WRITE then WRITE net fd (take (unat n) data) w1 else (True, w1)) = (True, w1)"
      using False by (simp add: WRITE.simps)
    ultimately show ?thesis using w1 by blast
  next
    case True
    then have s1: "srv w1 = (srv_idle disk)\<lparr>srv_in := ?r\<rparr>" using w1(3) c0 by (simp add: srv_receive_def srv_idle_def)
    have ld: "length d = unat n" "d \<noteq> []" using True assms(4) d_def by auto
    have "\<not> request_complete (?r @ take k d)" if "k < length d" for k
      using True that ld by (simp add: request_complete_request)
    then obtain w2 where "WRITE net fd d w1 = (True, w2)" "live fd w2" "srv w2 = srv_receive (srv w1) d"
      using WRITE_sends [OF assms(1) w1(2) ld(2)] s1 by auto
    moreover have "srv_receive (srv w1) d = srv_execute (srv_idle disk) (?r @ d)"
      using True ld s1 by (simp add: srv_receive_def request_complete_request srv_idle_def)
    ultimately show ?thesis using w1(1) True d_def by auto
  qed
qed

section \<open>One request\<close>

definition nbd_ready :: "(int \<Rightarrow> 'w \<Rightarrow> bool) \<Rightarrow> ('w \<Rightarrow> nbd_srv) \<Rightarrow> byte list \<Rightarrow> 'w backend_nbd \<Rightarrow> bool" where
  "nbd_ready live srv disk b \<longleftrightarrow> nb_fd b \<noteq> -1 \<and> live (nb_fd b) (nb_world b) \<and> srv (nb_world b) = srv_idle disk"

definition nbd_commands :: "u32 set" where
  "nbd_commands = {NBD_CMD_READ, NBD_CMD_WRITE, NBD_CMD_FLUSH, NBD_CMD_TRIM}"

text \<open>What a request does to the export, and what the buffer holds afterwards.\<close>

definition nbd_effect :: "u32 \<Rightarrow> nat \<Rightarrow> nat \<Rightarrow> byte list \<Rightarrow> byte list \<Rightarrow> byte list" where
  "nbd_effect c off len data disk =
     (if c = NBD_CMD_WRITE then overwrite off (take len data) disk
      else if c = NBD_CMD_TRIM then overwrite off (replicate len 0) disk else disk)"

definition nbd_buffer :: "u32 \<Rightarrow> nat \<Rightarrow> nat \<Rightarrow> byte list \<Rightarrow> byte list \<Rightarrow> byte list" where
  "nbd_buffer c off len data disk = (if c = NBD_CMD_READ then overwrite 0 (slice off len disk) data else data)"

lemmas nbd_cmds = NBD_CMD_READ_def NBD_CMD_WRITE_def NBD_CMD_FLUSH_def NBD_CMD_TRIM_def

definition nbd_in_range :: "u32 \<Rightarrow> nat \<Rightarrow> nat \<Rightarrow> byte list \<Rightarrow> byte list \<Rightarrow> bool" where
  "nbd_in_range c off len data disk \<longleftrightarrow> c \<in> nbd_commands \<and> (c = NBD_CMD_FLUSH \<or> off + len \<le> length disk) \<and>
     (c \<in> {NBD_CMD_WRITE, NBD_CMD_READ} \<longrightarrow> len \<le> length data)"

lemma srv_execute_request:
  assumes "nbd_in_range c (unat o') (unat n) data disk"
  shows "srv_execute (srv_idle disk) (nbd_request c o' n @ (if c = NBD_CMD_WRITE then take (unat n) data else [])) =
    \<lparr>srv_disk = nbd_effect c (unat o') (unat n) data disk, srv_in = [],
     srv_out = srv_reply 0 (replicate 8 0) @ (if c = NBD_CMD_READ then slice (unat o') (unat n) disk else [])\<rparr>"
proof -
  have "slice 28 (unat n) (nbd_request c o' n @ take (unat n) data) = take (unat n) data" if "c = NBD_CMD_WRITE"
    using nbd_request_fields(7) [of "take (unat n) data" c o' n] that assms by (simp add: nbd_in_range_def min_absorb2)
  then show ?thesis
    using assms by (auto simp: srv_execute_def Let_def nbd_request_fields srv_idle_def nbd_in_range_def nbd_commands_def
        nbd_effect_def nbd_cmds)
qed

lemma transact_law:
  assumes "nbd_serves net live srv" and "nbd_ready live srv disk b"
    and "nbd_in_range c (unat o') (unat n) data disk"
  shows "\<exists>w'. nbd_transact net c o' n data b =
      Inr (Some 0, nbd_buffer c (unat o') (unat n) data disk, b\<lparr>nb_world := w'\<rparr>) \<and>
    live (nb_fd b) w' \<and> srv w' = srv_idle (nbd_effect c (unat o') (unat n) data disk)"
proof -
  let ?fd = "nb_fd b" and ?pay = "if c = NBD_CMD_READ then slice (unat o') (unat n) disk else []"
  let ?disk = "nbd_effect c (unat o') (unat n) data disk"
  have small: "\<not> (c \<in> {NBD_CMD_WRITE, NBD_CMD_READ} \<and> length data < unat n)"
    using assms(3) by (auto simp: nbd_in_range_def)
  obtain w1 w2 where w: "WRITE net ?fd (nbd_request c o' n) (nb_world b) = (True, w1)"
    "(if c = NBD_CMD_WRITE then WRITE net ?fd (take (unat n) data) w1 else (True, w1)) = (True, w2)"
    "live ?fd w2" "srv w2 = \<lparr>srv_disk = ?disk, srv_in = [], srv_out = srv_reply 0 (replicate 8 0) @ ?pay\<rparr>"
    using request_sent [OF assms(1) _ _ _ refl, of ?fd "nb_world b" disk c n data o'] assms(2,3) srv_execute_request [OF assms(3)]
    by (auto simp: nbd_ready_def nbd_in_range_def)
  obtain w3 where w3: "READ net ?fd 16 w2 = (True, srv_reply 0 (replicate 8 0), w3)" "live ?fd w3"
    "srv w3 = \<lparr>srv_disk = ?disk, srv_in = [], srv_out = ?pay\<rparr>"
    using READ_gets [OF assms(1) w(3), of 16] by (auto simp: w(4) srv_reply_fields)
  have reply: "my_NTOHL (ld32 0 (srv_reply 0 (replicate 8 0))) = 0x67446698" "my_NTOHL (ld32 4 (srv_reply 0 (replicate 8 0))) = 0"
    using srv_reply_fields(2,3) [of 0 "replicate 8 0" "[]"] by simp_all
  have rw: "NBD_CMD_READ \<noteq> NBD_CMD_WRITE" by (simp add: nbd_cmds)
  show ?thesis
  proof (cases "c = NBD_CMD_READ")
    case False
    then have "nbd_transact net c o' n data b = Inr (Some 0, nbd_buffer c (unat o') (unat n) data disk, b\<lparr>nb_world := w3\<rparr>)"
      using w(1,2) small by (cases "c = NBD_CMD_WRITE") (auto simp: nbd_transact_def w3(1) reply nbd_buffer_def)
    then show ?thesis using w3(2,3) False by (auto simp: srv_idle_def)
  next
    case True
    have len: "length (slice (unat o') (unat n) disk) = unat n"
      using assms(3) True by (auto simp: nbd_in_range_def nbd_cmds)
    have le: "unat n \<le> length disk - unat o'" using assms(3) True by (auto simp: nbd_in_range_def nbd_cmds)
    obtain w4 where w4: "READ net ?fd (unat n) w3 = (True, slice (unat o') (unat n) disk, w4)" "live ?fd w4" "srv w4 = srv_idle ?disk"
      using READ_gets [OF assms(1) w3(2), of "unat n"] len le True by (auto simp: w3(3) srv_idle_def)
    have "nbd_transact net c o' n data b = Inr (Some 0, nbd_buffer c (unat o') (unat n) data disk, b\<lparr>nb_world := w4\<rparr>)"
      using w(1,2) small rw True w4(1) w3(1) by (simp add: nbd_transact_def reply nbd_buffer_def)
    then show ?thesis using w4(2,3) by blast
  qed
qed

lemma invoke_law:
  assumes "nbd_serves net live srv" and "nbd_ready live srv disk b" and "0 < fuel"
    and "nbd_in_range c (unat o') (unat n) data disk"
  shows "\<exists>w' bs' e'. invoke_nbd fuel net c o' n data (b, e) =
      Inr (True, nbd_buffer c (unat o') (unat n) data disk, b\<lparr>nb_world := w', nb_bs := bs'\<rparr>, e') \<and> quiet e' = quiet e \<and>
    live (nb_fd b) w' \<and> srv w' = srv_idle (nbd_effect c (unat o') (unat n) data disk)"
proof -
  obtain w' where w': "nbd_transact net c o' n data b =
      Inr (Some 0, nbd_buffer c (unat o') (unat n) data disk, b\<lparr>nb_world := w'\<rparr>)"
    "live (nb_fd b) w'" "srv w' = srv_idle (nbd_effect c (unat o') (unat n) data disk)"
    using transact_law [OF assms(1,2,4)] by blast
  have fd: "nb_fd b \<noteq> -1" using assms(2) by (simp add: nbd_ready_def)
  have loop: "invoke_nbd_loop fuel net c o' n data b =
      Inr (0, nbd_buffer c (unat o') (unat n) data disk, b\<lparr>nb_world := w'\<rparr>)"
    using assms(3) fd w'(1) by (cases fuel) (simp_all add: nbd_connect_def)
  obtain t1 e1 where e1: "get_micros e = (t1, e1)" by fastforce
  obtain t2 e2 where e2: "get_micros e1 = (t2, e2)" by fastforce
  have "quiet e2 = quiet e" using quiet_get_micros [of e] quiet_get_micros [of e1] e1 e2 by simp
  then show ?thesis using fd w'(2,3) by (simp add: invoke_nbd_def e1 e2 loop) blast
qed

section \<open>The methods as a block device\<close>

text \<open>
  A connected backend without held locks, whose size is that of the export. Requests carry their length
  in 32 bits, so the export is taken to be smaller than 4 GiB.
\<close>

definition nbd_disk :: "('w \<Rightarrow> nbd_srv) \<Rightarrow> 'w backend_nbd \<Rightarrow> byte list" where
  "nbd_disk srv b = srv_disk (srv (nb_world b))"

definition nbd_inv :: "(int \<Rightarrow> 'w \<Rightarrow> bool) \<Rightarrow> ('w \<Rightarrow> nbd_srv) \<Rightarrow> 'w backend_nbd \<Rightarrow> bool" where
  "nbd_inv live srv b \<longleftrightarrow> nbd_ready live srv (nbd_disk srv b) b \<and> nb_locks b = no_locks \<and>
     length (nbd_disk srv b) < 2 ^ 32 \<and> nb_dev_size b = of_nat (length (nbd_disk srv b))"

lemma nbd_bytes:
  assumes "unat nr * 4096 + unat n * 4096 \<le> m" and "m < 2 ^ 32"
  shows "unat (nr * 4096 :: u64) = unat nr * 4096" "unat (ucast (ucast (n :: u32) * 4096 :: u64) :: u32) = unat n * 4096"
proof -
  have "unat nr * 4096 < 2 ^ 64" "unat n * 4096 < 2 ^ 32" using assms by simp_all
  then show "unat (nr * 4096 :: u64) = unat nr * 4096" by (subst unat_mult_u64) simp_all
  have "unat (ucast n * 4096 :: u64) = unat n * 4096" using \<open>unat n * 4096 < 2 ^ 32\<close> by (subst unat_mult_u64) simp_all
  then show "unat (ucast (ucast n * 4096 :: u64) :: u32) = unat n * 4096"
    using \<open>unat n * 4096 < 2 ^ 32\<close> by (simp add: unsigned_ucast_eq take_bit_nat_eq_self)
qed

text \<open>A request under locks that are then released.\<close>

lemma invoke_inv:
  assumes "nbd_serves net live srv" and "nbd_inv live srv b" and "0 < fuel"
    and "nbd_in_range c (unat o') (unat n) data (nbd_disk srv b)"
  shows "\<exists>b' e'. invoke_nbd fuel net c o' n data (b\<lparr>nb_locks := ls\<rparr>, e) =
      Inr (True, nbd_buffer c (unat o') (unat n) data (nbd_disk srv b), b'\<lparr>nb_locks := ls\<rparr>, e') \<and>
    quiet e' = quiet e \<and> nbd_inv live srv b' \<and> nbd_disk srv b' = nbd_effect c (unat o') (unat n) data (nbd_disk srv b)"
proof -
  let ?b = "b\<lparr>nb_locks := ls\<rparr>"
  have "nbd_ready live srv (nbd_disk srv b) ?b" using assms(2) by (simp add: nbd_inv_def nbd_ready_def)
  then obtain w' bs' e' where r: "invoke_nbd fuel net c o' n data (?b, e) =
      Inr (True, nbd_buffer c (unat o') (unat n) data (nbd_disk srv b), ?b\<lparr>nb_world := w', nb_bs := bs'\<rparr>, e')"
    "quiet e' = quiet e" "live (nb_fd b) w'" "srv w' = srv_idle (nbd_effect c (unat o') (unat n) data (nbd_disk srv b))"
    using invoke_law [OF assms(1) _ assms(3,4), of ?b e] by auto
  have "length (nbd_effect c (unat o') (unat n) data (nbd_disk srv b)) = length (nbd_disk srv b)"
    using assms(4) by (auto simp: nbd_effect_def nbd_in_range_def nbd_cmds)
  then have "nbd_inv live srv (b\<lparr>nb_world := w', nb_bs := bs'\<rparr>)"
    using assms(2) r(3,4) by (simp add: nbd_inv_def nbd_ready_def nbd_disk_def srv_idle_def)
  moreover have "nbd_disk srv (b\<lparr>nb_world := w', nb_bs := bs'\<rparr>) = nbd_effect c (unat o') (unat n) data (nbd_disk srv b)"
    using r(4) by (simp add: nbd_disk_def srv_idle_def)
  ultimately show ?thesis
    using r(1,2) by (intro exI [of _ "b\<lparr>nb_world := w', nb_bs := bs'\<rparr>"] exI [of _ e']) simp
qed

lemma nbd_inv_upd [simp]:
  "nbd_inv live srv (b\<lparr>nb_ts_last_acces := t\<rparr>) = nbd_inv live srv b" "nbd_inv live srv (b\<lparr>nb_bs := bs\<rparr>) = nbd_inv live srv b"
  "nbd_disk srv (b\<lparr>nb_ts_last_acces := t\<rparr>) = nbd_disk srv b" "nbd_disk srv (b\<lparr>nb_bs := bs\<rparr>) = nbd_disk srv b"
  "nbd_disk srv (b\<lparr>nb_locks := ls\<rparr>) = nbd_disk srv b"
  by (simp_all add: nbd_inv_def nbd_ready_def nbd_disk_def)

lemma nbd_inv_locks: "nbd_inv live srv b \<Longrightarrow> nb_locks b = no_locks \<and> b\<lparr>nb_locks := no_locks\<rparr> = b"
  by (simp add: nbd_inv_def)

lemma get_micros_quiet': "get_micros e = (t, e') \<Longrightarrow> quiet e' = quiet e"
  using quiet_get_micros [of e] by simp

lemma nbd_sync_law:
  assumes "nbd_serves net live srv" and "nbd_inv live srv b" and "0 < fuel"
  shows "\<exists>b' e'. nbd_sync fuel net (b, e) = Inr (True, b', e') \<and> nbd_inv live srv b' \<and>
    nbd_disk srv b' = nbd_disk srv b \<and> quiet e' = quiet e"
proof -
  obtain t e1 where e1: "get_micros e = (t, e1)" by fastforce
  let ?b = "b\<lparr>nb_bs := (nb_bs b)\<lparr>bs_n_syncs := bs_n_syncs (nb_bs b) + 1\<rparr>, nb_ts_last_acces := t\<rparr>"
  have inv: "nbd_inv live srv ?b" using assms(2) by simp
  have "nbd_in_range NBD_CMD_FLUSH (unat (0 :: u64)) (unat (0 :: u32)) [] (nbd_disk srv ?b)"
    by (simp add: nbd_in_range_def nbd_commands_def nbd_cmds)
  then obtain b' e' where "invoke_nbd fuel net NBD_CMD_FLUSH 0 0 [] (?b, e1) = Inr (True, [], b', e')"
    "quiet e' = quiet e1" "nbd_inv live srv b'" "nbd_disk srv b' = nbd_disk srv b"
    using invoke_inv [OF assms(1) inv assms(3), of NBD_CMD_FLUSH 0 0 "[]" no_locks e1] nbd_inv_locks [OF inv]
    by (auto simp: nbd_buffer_def nbd_effect_def nbd_cmds nbd_inv_locks)
  then show ?thesis using get_micros_quiet' [OF e1] by (auto simp: nbd_sync_def e1 Let_def)
qed

lemma nbd_range:
  fixes nr :: u64 and n :: u32
  assumes "nbd_inv live srv b" and "unat nr * 4096 + unat n * 4096 \<le> length (nbd_disk srv b)"
    and "c \<in> nbd_commands" and "c \<in> {NBD_CMD_WRITE, NBD_CMD_READ} \<longrightarrow> unat n * 4096 \<le> length data"
  shows "nbd_in_range c (unat (nr * 4096 :: u64)) (unat (ucast (ucast n * 4096 :: u64) :: u32)) data (nbd_disk srv b)"
  using assms nbd_bytes [OF assms(2)] by (auto simp: nbd_inv_def nbd_in_range_def)

lemma nbd_read_law:
  assumes "nbd_serves net live srv" and "nbd_inv live srv b" and "0 < fuel"
    and "unat n * 4096 \<le> length buf" and "unat nr * 4096 + unat n * 4096 \<le> length (nbd_disk srv b)"
  shows "\<exists>b' e'. nbd_read fuel net nr n buf (b, e) =
      Inr (True, overwrite 0 (slice (unat nr * 4096) (unat n * 4096) (nbd_disk srv b)) buf, b', e') \<and>
    nbd_inv live srv b' \<and> nbd_disk srv b' = nbd_disk srv b \<and> quiet e' = quiet e"
proof -
  have lt: "length (nbd_disk srv b) < 2 ^ 32" using assms(2) by (simp add: nbd_inv_def)
  obtain ls where ls: "lock_range nr n no_locks = Inr (lock_indexes nr n, ls)" "unlock_range (lock_indexes nr n) ls = no_locks"
    by (rule lock_range_balanced)
  have "nbd_in_range NBD_CMD_READ (unat (nr * 4096)) (unat (ucast (ucast n * 4096 :: u64) :: u32)) buf (nbd_disk srv b)"
    using nbd_range [OF assms(2,5)] assms(4) by (simp add: nbd_commands_def)
  then obtain b' e1 where r: "invoke_nbd fuel net NBD_CMD_READ (nr * 4096) (ucast (ucast n * 4096 :: u64)) buf (b\<lparr>nb_locks := ls\<rparr>, e) =
      Inr (True, overwrite 0 (slice (unat nr * 4096) (unat n * 4096) (nbd_disk srv b)) buf, b'\<lparr>nb_locks := ls\<rparr>, e1)"
    "quiet e1 = quiet e" "nbd_inv live srv b'" "nbd_disk srv b' = nbd_disk srv b"
    using invoke_inv [OF assms(1,2,3), of NBD_CMD_READ "nr * 4096" "ucast (ucast n * 4096 :: u64)" buf ls e]
    unfolding nbd_bytes [OF assms(5) lt] by (auto simp: nbd_buffer_def nbd_effect_def nbd_cmds)
  obtain t e2 where e2: "get_micros e1 = (t, e2)" by fastforce
  show ?thesis
    using r(1,3,4) ls nbd_inv_locks [OF assms(2)] nbd_inv_locks [OF r(3)] get_micros_quiet' [OF e2] r(2)
    by (simp add: nbd_read_def nbd_get_block_size_def e2 Let_def)
qed

lemma nbd_write_law:
  assumes "nbd_serves net live srv" and "nbd_inv live srv b" and "0 < fuel"
    and "unat n * 4096 \<le> length data" and "unat nr * 4096 + unat n * 4096 \<le> length (nbd_disk srv b)"
  shows "\<exists>b' e'. nbd_write fuel net nr n data (b, e) = Inr (True, b', e') \<and> nbd_inv live srv b' \<and>
    nbd_disk srv b' = overwrite (unat nr * 4096) (take (unat n * 4096) data) (nbd_disk srv b) \<and> quiet e' = quiet e"
proof -
  have lt: "length (nbd_disk srv b) < 2 ^ 32" using assms(2) by (simp add: nbd_inv_def)
  obtain ls where ls: "lock_range nr n no_locks = Inr (lock_indexes nr n, ls)" "unlock_range (lock_indexes nr n) ls = no_locks"
    by (rule lock_range_balanced)
  have "nbd_in_range NBD_CMD_WRITE (unat (nr * 4096)) (unat (ucast (ucast n * 4096 :: u64) :: u32)) data (nbd_disk srv b)"
    using nbd_range [OF assms(2,5)] assms(4) by (simp add: nbd_commands_def)
  then obtain b' e1 where r: "invoke_nbd fuel net NBD_CMD_WRITE (nr * 4096) (ucast (ucast n * 4096 :: u64)) data (b\<lparr>nb_locks := ls\<rparr>, e) =
      Inr (True, data, b'\<lparr>nb_locks := ls\<rparr>, e1)"
    "quiet e1 = quiet e" "nbd_inv live srv b'"
    "nbd_disk srv b' = overwrite (unat nr * 4096) (take (unat n * 4096) data) (nbd_disk srv b)"
    using invoke_inv [OF assms(1,2,3), of NBD_CMD_WRITE "nr * 4096" "ucast (ucast n * 4096 :: u64)" data ls e]
    unfolding nbd_bytes [OF assms(5) lt] by (auto simp: nbd_buffer_def nbd_effect_def nbd_cmds)
  obtain t e2 where e2: "get_micros e1 = (t, e2)" by fastforce
  show ?thesis
    using r(1,3,4) ls nbd_inv_locks [OF assms(2)] nbd_inv_locks [OF r(3)] get_micros_quiet' [OF e2] r(2)
    by (simp add: nbd_write_def nbd_get_block_size_def e2 Let_def)
qed

lemma nbd_trim_law:
  assumes "nbd_serves net live srv" and "nbd_inv live srv b" and "0 < fuel"
    and "unat nr * 4096 + unat n * 4096 \<le> length (nbd_disk srv b)"
  shows "\<exists>b' e'. nbd_trim fuel net nr n (b, e) = Inr (True, b', e') \<and> nbd_inv live srv b' \<and>
    nbd_disk srv b' = overwrite (unat nr * 4096) (replicate (unat n * 4096) 0) (nbd_disk srv b) \<and> quiet e' = quiet e"
proof -
  have lt: "length (nbd_disk srv b) < 2 ^ 32" using assms(2) by (simp add: nbd_inv_def)
  obtain ls where ls: "lock_range nr n no_locks = Inr (lock_indexes nr n, ls)" "unlock_range (lock_indexes nr n) ls = no_locks"
    by (rule lock_range_balanced)
  have "nbd_in_range NBD_CMD_TRIM (unat (nr * 4096)) (unat (ucast (ucast n * 4096 :: u64) :: u32)) [] (nbd_disk srv b)"
    using nbd_range [OF assms(2,4), of NBD_CMD_TRIM "[]"] by (simp add: nbd_commands_def nbd_cmds)
  then obtain b' e1 where r: "invoke_nbd fuel net NBD_CMD_TRIM (nr * 4096) (ucast (ucast n * 4096 :: u64)) [] (b\<lparr>nb_locks := ls\<rparr>, e) =
      Inr (True, [], b'\<lparr>nb_locks := ls\<rparr>, e1)"
    "quiet e1 = quiet e" "nbd_inv live srv b'"
    "nbd_disk srv b' = overwrite (unat nr * 4096) (replicate (unat n * 4096) 0) (nbd_disk srv b)"
    using invoke_inv [OF assms(1,2,3), of NBD_CMD_TRIM "nr * 4096" "ucast (ucast n * 4096 :: u64)" "[]" ls e]
    unfolding nbd_bytes [OF assms(4) lt] by (auto simp: nbd_buffer_def nbd_effect_def nbd_cmds)
  obtain t e2 where e2: "get_micros e1 = (t, e2)" by fastforce
  show ?thesis
    using r(1,3,4) ls nbd_inv_locks [OF assms(2)] nbd_inv_locks [OF r(3)] get_micros_quiet' [OF e2] r(2)
    by (simp add: nbd_trim_def nbd_get_block_size_def e2 Let_def)
qed

lemma nbd_block_offset:
  assumes "unat nr * 4096 + (i + 1) * 4096 \<le> m" and "m < 2 ^ 32"
  shows "unat ((nr + of_nat i) * 4096 :: u64) = unat nr * 4096 + i * 4096"
proof -
  have "unat (of_nat i :: u64) = i" using assms by (simp add: unat_of_nat)
  moreover have "unat nr + i < 2 ^ 64" using assms by simp
  ultimately have "unat (nr + of_nat i) = unat nr + i" by (subst unat_add_u64) simp_all
  moreover have "(unat nr + i) * 4096 < 2 ^ 64" using assms by simp
  ultimately show ?thesis by (subst unat_mult_u64) (simp_all add: add_mult_distrib)
qed

lemma slice_eq_split:
  assumes "length (slice o1 m xs) = length (slice o2 m ys)"
  shows "slice o1 (m + n) xs = slice o2 (m + n) ys \<longleftrightarrow> slice o1 m xs = slice o2 m ys \<and> slice (o1 + m) n xs = slice (o2 + m) n ys"
  using assms by (simp add: slice_append_split)

lemma nb_upd_swap: "b\<lparr>nb_locks := ls, nb_bs := bs\<rparr> = b\<lparr>nb_bs := bs, nb_locks := ls\<rparr>"
  by (cases b) simp

lemma nbd_cmp_loop_law:
  assumes "nbd_serves net live srv" and "0 < fuel" and "nbd_inv live srv b"
    and "unat nr * 4096 + (i + left) * 4096 \<le> length (nbd_disk srv b)" and "(i + left) * 4096 \<le> length dc" and "length buf = 4096"
  shows "\<exists>r b' e'. nbd_cmp_loop fuel net nr i left dc buf (b\<lparr>nb_locks := ls\<rparr>, e) = Inr (r, b'\<lparr>nb_locks := ls\<rparr>, e') \<and>
    nbd_inv live srv b' \<and> nbd_disk srv b' = nbd_disk srv b \<and> quiet e' = quiet e \<and> r \<in> {CWR_OK, CWR_MISMATCH} \<and>
    (r = CWR_OK \<longleftrightarrow> slice (unat nr * 4096 + i * 4096) (left * 4096) (nbd_disk srv b) = slice (i * 4096) (left * 4096) dc)"
  using assms(3-6)
proof (induction left arbitrary: i b buf e)
  case 0
  then show ?case by auto
next
  case (Suc left)
  let ?disk = "nbd_disk srv b" and ?o = "unat nr * 4096 + i * 4096"
  have lt: "length ?disk < 2 ^ 32" using Suc.prems(1) by (simp add: nbd_inv_def)
  have off: "unat ((nr + of_nat i) * 4096 :: u64) = ?o"
    using nbd_block_offset [of nr i "length ?disk"] Suc.prems(2) lt by simp
  have "nbd_in_range NBD_CMD_READ ?o (unat (4096 :: u32)) buf ?disk"
    using Suc.prems(2,4) by (simp add: nbd_in_range_def nbd_commands_def nbd_cmds)
  then obtain b1 e1 where r: "invoke_nbd fuel net NBD_CMD_READ ((nr + of_nat i) * 4096) 4096 buf (b\<lparr>nb_locks := ls\<rparr>, e) =
      Inr (True, overwrite 0 (slice ?o 4096 ?disk) buf, b1\<lparr>nb_locks := ls\<rparr>, e1)"
    "quiet e1 = quiet e" "nbd_inv live srv b1" "nbd_disk srv b1 = ?disk"
    using invoke_inv [OF assms(1) Suc.prems(1) assms(2), of NBD_CMD_READ "(nr + of_nat i) * 4096" 4096 buf ls e]
    unfolding off by (auto simp: nbd_buffer_def nbd_effect_def nbd_cmds)
  have lens: "length (slice ?o 4096 ?disk) = 4096" "length (slice (i * 4096) 4096 dc) = 4096"
    using Suc.prems(2,3) by simp_all
  then have buf: "overwrite 0 (slice ?o 4096 ?disk) buf = slice ?o 4096 ?disk" using Suc.prems(4) by (simp add: overwrite_def)
  define b2 where "b2 = b1\<lparr>nb_bs := (nb_bs b1)\<lparr>bs_bytes_read := bs_bytes_read (nb_bs b1) + 4096\<rparr>\<rparr>"
  have b2: "nbd_inv live srv b2" "nbd_disk srv b2 = ?disk" using r(3,4) by (simp_all add: b2_def)
  have split: "slice ?o (Suc left * 4096) ?disk = slice (i * 4096) (Suc left * 4096) dc \<longleftrightarrow>
      slice ?o 4096 ?disk = slice (i * 4096) 4096 dc \<and>
      slice (?o + 4096) (left * 4096) ?disk = slice (i * 4096 + 4096) (left * 4096) dc"
    using slice_eq_split [of ?o 4096 ?disk "i * 4096" dc "left * 4096"] lens by simp
  have small: "\<not> length dc < (i + 1) * 4096" using Suc.prems(3) by simp
  have step: "nbd_cmp_loop fuel net nr i (Suc left) dc buf (b\<lparr>nb_locks := ls\<rparr>, e) =
      (if slice ?o 4096 ?disk \<noteq> slice (i * 4096) 4096 dc then Inr (CWR_MISMATCH, b2\<lparr>nb_locks := ls\<rparr>, e1)
       else nbd_cmp_loop fuel net nr (i + 1) left dc (slice ?o 4096 ?disk) (b2\<lparr>nb_locks := ls\<rparr>, e1))"
    using r(1) small by (simp add: nbd_get_block_size_def buf b2_def nb_upd_swap Let_def)
  show ?case
  proof (cases "slice ?o 4096 ?disk = slice (i * 4096) 4096 dc")
    case False
    then have "nbd_cmp_loop fuel net nr i (Suc left) dc buf (b\<lparr>nb_locks := ls\<rparr>, e) = Inr (CWR_MISMATCH, b2\<lparr>nb_locks := ls\<rparr>, e1)"
      using step by simp
    then show ?thesis using False split b2 r(2) by blast
  next
    case True
    have "\<exists>r b' e'. nbd_cmp_loop fuel net nr (i + 1) left dc (slice ?o 4096 ?disk) (b2\<lparr>nb_locks := ls\<rparr>, e1) =
        Inr (r, b'\<lparr>nb_locks := ls\<rparr>, e') \<and> nbd_inv live srv b' \<and> nbd_disk srv b' = nbd_disk srv b2 \<and> quiet e' = quiet e1 \<and>
      r \<in> {CWR_OK, CWR_MISMATCH} \<and> (r = CWR_OK \<longleftrightarrow>
        slice (unat nr * 4096 + (i + 1) * 4096) (left * 4096) (nbd_disk srv b2) = slice ((i + 1) * 4096) (left * 4096) dc)"
      by (rule Suc.IH [OF b2(1)]) (use Suc.prems lens in \<open>simp_all add: b2(2)\<close>)
    moreover have "unat nr * 4096 + (i + 1) * 4096 = ?o + 4096" "(i + 1) * 4096 = i * 4096 + 4096" by simp_all
    ultimately show ?thesis using True split step r(2) b2(2) by (simp only: simp_thms if_False)
  qed
qed

lemma nbd_cmpwrite_law:
  assumes "nbd_serves net live srv" and "nbd_inv live srv b" and "0 < fuel"
    and "unat n * 4096 \<le> length dw" and "unat n * 4096 \<le> length dc"
    and "unat nr * 4096 + unat n * 4096 \<le> length (nbd_disk srv b)"
    and same_def: "same \<longleftrightarrow> slice (unat nr * 4096) (unat n * 4096) (nbd_disk srv b) = take (unat n * 4096) dc"
  shows "\<exists>b' e'. nbd_cmpwrite fuel net nr n dw dc (b, e) = Inr (if same then CWR_OK else CWR_MISMATCH, b', e') \<and>
    nbd_inv live srv b' \<and> quiet e' = quiet e \<and> nbd_disk srv b' =
      (if same then overwrite (unat nr * 4096) (take (unat n * 4096) dw) (nbd_disk srv b) else nbd_disk srv b)"
proof -
  have lt: "length (nbd_disk srv b) < 2 ^ 32" using assms(2) by (simp add: nbd_inv_def)
  obtain ls where ls: "lock_range nr n no_locks = Inr (lock_indexes nr n, ls)" "unlock_range (lock_indexes nr n) ls = no_locks"
    by (rule lock_range_balanced)
  have s0: "slice 0 (unat n * 4096) dc = take (unat n * 4096) dc" by (simp add: slice_def)
  obtain r b1 e1 where l: "nbd_cmp_loop fuel net nr 0 (unat n) dc (replicate 4096 0) (b\<lparr>nb_locks := ls\<rparr>, e) = Inr (r, b1\<lparr>nb_locks := ls\<rparr>, e1)"
    "nbd_inv live srv b1" "nbd_disk srv b1 = nbd_disk srv b" "quiet e1 = quiet e" "r = (if same then CWR_OK else CWR_MISMATCH)"
    using nbd_cmp_loop_law [OF assms(1,3,2), of nr 0 "unat n" dc "replicate 4096 0" ls e] assms(5,6) s0 same_def by auto
  note locks = nbd_inv_locks [OF assms(2)] nbd_inv_locks [OF l(2)]
  note run = nbd_cmpwrite_def nbd_get_block_size_def Let_def
  show ?thesis
  proof (cases same)
    case False
    then have "nbd_cmpwrite fuel net nr n dw dc (b, e) = Inr (CWR_MISMATCH,
        b1\<lparr>nb_bs := (nb_bs b1)\<lparr>bs_n_reads := bs_n_reads (nb_bs b1) + 1, bs_n_writes := bs_n_writes (nb_bs b1) + 1\<rparr>\<rparr>, e1)"
      using l(1,5) ls locks by (simp add: run)
    then show ?thesis using False l(2-4) by simp
  next
    case True
    have "nbd_in_range NBD_CMD_WRITE (unat (nr * 4096)) (unat (ucast (ucast n * 4096 :: u64) :: u32)) dw (nbd_disk srv b1)"
      using nbd_range [OF l(2)] assms(4,6) l(3) by (simp add: nbd_commands_def)
    then obtain b2 e2 where w: "invoke_nbd fuel net NBD_CMD_WRITE (nr * 4096) (ucast (ucast n * 4096 :: u64)) dw (b1\<lparr>nb_locks := ls\<rparr>, e1) =
        Inr (True, dw, b2\<lparr>nb_locks := ls\<rparr>, e2)" "quiet e2 = quiet e1" "nbd_inv live srv b2"
      "nbd_disk srv b2 = overwrite (unat nr * 4096) (take (unat n * 4096) dw) (nbd_disk srv b)"
      using invoke_inv [OF assms(1) l(2) assms(3), of NBD_CMD_WRITE "nr * 4096" "ucast (ucast n * 4096 :: u64)" dw ls e1]
      unfolding nbd_bytes [OF assms(6) lt] l(3) by (auto simp: nbd_buffer_def nbd_effect_def nbd_cmds)
    obtain t e3 where e3: "get_micros e2 = (t, e3)" by fastforce
    let ?b3 = "b2\<lparr>nb_ts_last_acces := t, nb_bs := (nb_bs b2)\<lparr>bs_bytes_written := bs_bytes_written (nb_bs b2) + 4096,
        bs_n_reads := bs_n_reads (nb_bs b2) + 1, bs_n_writes := bs_n_writes (nb_bs b2) + 1\<rparr>\<rparr>"
    have "b2\<lparr>nb_locks := no_locks\<rparr> = b2" using nbd_inv_locks [OF w(3)] by blast
    then have "nbd_cmpwrite fuel net nr n dw dc (b, e) = Inr (CWR_OK, ?b3, e3)"
      using l(1,5) True w(1) ls locks by (cases b2) (simp add: run e3)
    then show ?thesis using True w l(4) get_micros_quiet' [OF e3] by simp
  qed
qed

lemma nbd_block_device:
  assumes "nbd_serves net live srv" and "0 < fuel"
  shows "block_device (nbd_ops fuel net) (nbd_disk srv) (nbd_inv live srv) 4096 (2 ^ 20)"
proof (unfold_locales, goal_cases)
  case (5 b)
  have "length (nbd_disk srv b) < 2 ^ 64" using 5 by (simp add: nbd_inv_def)
  then have "unat (nbd_get_size_in_blocks b) = length (nbd_disk srv b) div 4096"
    using 5 by (simp add: nbd_get_size_in_blocks_def nbd_get_block_size_def nbd_inv_def unat_div_distrib unat_of_nat)
  then have "(of_nat (unat (nbd_get_size_in_blocks b)) :: u64) = of_nat (length (nbd_disk srv b) div 4096)" by simp
  then show ?case by (simp add: nbd_ops_def)
next
  case (7 b e)
  then show ?case using nbd_sync_law [OF assms(1) _ assms(2)] by (fastforce simp: nbd_ops_def)
next
  case (8 b n buf nr e)
  obtain b' e' where "nbd_read fuel net nr n buf (b, e) =
      Inr (True, overwrite 0 (slice (unat nr * 4096) (unat n * 4096) (nbd_disk srv b)) buf, b', e')"
    "nbd_inv live srv b'" "nbd_disk srv b' = nbd_disk srv b" "quiet e' = quiet e"
    using nbd_read_law [OF assms(1) 8(1) assms(2) 8(2,3)] by blast
  moreover have "length (overwrite 0 (slice (unat nr * 4096) (unat n * 4096) (nbd_disk srv b)) buf) = length buf"
    using 8 by simp
  ultimately show ?case by (simp add: nbd_ops_def) blast
next
  case (9 b n data nr e)
  then show ?case using nbd_write_law [OF assms(1) 9(1) assms(2) 9(2,3)] by (fastforce simp: nbd_ops_def)
next
  case (10 b nr n e)
  then show ?case using nbd_trim_law [OF assms(1) 10(1) assms(2) 10(2)] by (fastforce simp: nbd_ops_def)
next
  case (11 b n dw dc nr e)
  let ?same = "slice (unat nr * 4096) (unat n * 4096) (nbd_disk srv b) = take (unat n * 4096) dc"
  obtain b' e' where c: "nbd_cmpwrite fuel net nr n dw dc (b, e) = Inr (if ?same then CWR_OK else CWR_MISMATCH, b', e')"
    "nbd_inv live srv b'" "quiet e' = quiet e" "nbd_disk srv b' =
      (if ?same then overwrite (unat nr * 4096) (take (unat n * 4096) dw) (nbd_disk srv b) else nbd_disk srv b)"
    using nbd_cmpwrite_law [OF assms(1) 11(1) assms(2) 11(2,3,4) refl] by blast
  show ?case
    by (rule exI [of _ "if ?same then unat n * 4096 else 0"]) (use c in \<open>auto simp: nbd_ops_def\<close>)
qed (simp_all add: nbd_ops_def nbd_get_block_size_def nbd_inv_def)

text \<open>A server in memory that takes at most 100 bytes and gives at most 50 bytes per call.\<close>

definition loop_net :: "nbd_srv nbd_net" where
  "loop_net = \<lparr>net_getaddrinfo = (\<lambda>host port w. (Some 1, w)), net_socket = (\<lambda>w. (3, w)),
     net_connect = (\<lambda>fd i w. (True, w\<lparr>srv_in := [],
       srv_out := c_str ''NBDMAGIC'' @ replicate 8 0 @ rev (le64_bytes (of_nat (length (srv_disk w)))) @ replicate 128 0\<rparr>)),
     net_read = (\<lambda>fd n w. (Some (take (min 50 n) (srv_out w)), w\<lparr>srv_out := drop (min 50 n) (srv_out w)\<rparr>)),
     net_write = (\<lambda>fd d w. (int (min 100 (length d)), srv_receive w (take 100 d))),
     net_close = (\<lambda>fd w. w)\<rparr>"

lemma loop_net_serves: "nbd_serves loop_net (\<lambda>fd w. True) (\<lambda>w. w)"
proof -
  have 1: "\<exists>k w'. net_write loop_net fd d w = (int k, w') \<and> 0 < k \<and> k \<le> length d \<and> True \<and> w' = srv_receive w (take k d)"
    if "d \<noteq> []" for fd w d
    using that by (intro exI [of _ "min 100 (length d)"]) (auto simp: loop_net_def min_def take_all_iff)
  have 2: "\<exists>k w'. net_read loop_net fd n w = (Some (take k (srv_out w)), w') \<and> 0 < k \<and> k \<le> n \<and> True \<and>
      w' = w\<lparr>srv_out := drop k (srv_out w)\<rparr>" if "0 < n" for fd n and w :: nbd_srv
    using that by (intro exI [of _ "min 50 n"]) (simp add: loop_net_def)
  show ?thesis unfolding nbd_serves_def using 1 2 by blast
qed


definition example_nbd :: "nbd_srv backend_nbd" where
  "example_nbd = \<lparr>nb_identifier = ''localhost:10809'', nb_host = ''localhost'', nb_port = 10809, nb_fd = 3, nb_dev_size = 8192,
     nb_bs = zero_stats, nb_ts_last_acces = 0, nb_locks = no_locks, nb_world = srv_idle (replicate 8192 7)\<rparr>"


section \<open>Connecting and reconnecting\<close>

definition nbd_hello_message :: "nat \<Rightarrow> byte list \<Rightarrow> byte list \<Rightarrow> byte list" where
  "nbd_hello_message size_in_bytes magic2 flags =
     c_str ''NBDMAGIC'' @ magic2 @ rev (le64_bytes (of_nat size_in_bytes)) @ flags @ replicate 124 0"

text \<open>
  The hypothesis on a server that can be reached while \<open>up\<close> holds: the name resolves, the first address
  accepts the connection, and the server greets with its hello message.
\<close>

definition nbd_listens :: "'w nbd_net \<Rightarrow> (int \<Rightarrow> 'w \<Rightarrow> bool) \<Rightarrow> ('w \<Rightarrow> nbd_srv) \<Rightarrow> ('w \<Rightarrow> bool) \<Rightarrow> bool" where
  "nbd_listens net live srv up \<longleftrightarrow>
     (\<forall>host port w. up w \<longrightarrow> (\<exists>n w0 fd w1 w2 magic2 flags.
        net_getaddrinfo net host port w = (Some (Suc n), w0) \<and> net_socket net w0 = (fd, w1) \<and> fd \<noteq> -1 \<and>
        net_connect net fd 0 w1 = (True, w2) \<and> live fd w2 \<and> length magic2 = 8 \<and> length flags = 4 \<and>
        srv w2 = (srv_idle (srv_disk (srv w)))\<lparr>srv_out := nbd_hello_message (length (srv_disk (srv w))) magic2 flags\<rparr>))"

lemma ld64_HTONLL: "my_NTOHLL (ld64 k p) = get_uint64_t p k"
proof (rule bit_word_eqI)
  fix n assume n: "n < LENGTH(64)"
  have eq: "my_NTOHLL (ld64 k p) = my_HTONLL (ld64 k p)" by (simp add: my_NTOHLL_def my_HTONLL_def my_NTOHL_def)
  consider "n < 8" | "8 \<le> n" "n < 16" | "16 \<le> n" "n < 24" | "24 \<le> n" "n < 32" | "32 \<le> n" "n < 40"
    | "40 \<le> n" "n < 48" | "48 \<le> n" "n < 56" | "56 \<le> n"
    by linarith
  then show "bit (my_NTOHLL (ld64 k p)) n = bit (get_uint64_t p k) n"
    unfolding eq unfolding bit_my_HTONLL bit_my_HTONL get_uint64_t_def ld64_def bit_or_iff
    by cases (use n in \<open>simp_all add: bit_simps less_diff_conv2 le_diff_conv2 bit_byte_high\<close>)
qed

lemma hello_fields:
  assumes "length m2 = 8" and "length fl = 4" and "sz < 2 ^ 64"
  shows "length (nbd_hello_message sz m2 fl) = 152" "slice 0 8 (nbd_hello_message sz m2 fl) = c_str ''NBDMAGIC''"
    "unat (my_NTOHLL (ld64 16 (nbd_hello_message sz m2 fl))) = sz"
proof -
  have l: "length (c_str ''NBDMAGIC'') = 8" by (simp add: c_str_def)
  then show "length (nbd_hello_message sz m2 fl) = 152" "slice 0 8 (nbd_hello_message sz m2 fl) = c_str ''NBDMAGIC''"
    using assms by (simp_all add: nbd_hello_message_def slice_def)
  have "get_uint64_t (nbd_hello_message sz m2 fl) 16 = of_nat sz"
    using get_uint64_rev [of "c_str ''NBDMAGIC'' @ m2" 16 "of_nat sz"] assms(1) l by (simp add: nbd_hello_message_def)
  then show "unat (my_NTOHLL (ld64 16 (nbd_hello_message sz m2 fl))) = sz"
    using assms(3) by (simp add: ld64_HTONLL unat_of_nat)
qed

lemma connect_once_law:
  assumes "nbd_serves net live srv" and "nbd_listens net live srv up" and "up (nb_world b)"
    and "length (srv_disk (srv (nb_world b))) < 2 ^ 64"
  shows "\<exists>fd w'. nbd_connect_once net b =
      b\<lparr>nb_fd := fd, nb_world := w', nb_dev_size := of_nat (length (srv_disk (srv (nb_world b))))\<rparr> \<and>
    fd \<noteq> -1 \<and> live fd w' \<and> srv w' = srv_idle (srv_disk (srv (nb_world b)))"
proof -
  let ?disk = "srv_disk (srv (nb_world b))"
  obtain n w0 fd w1 w2 m2 fl where c: "net_getaddrinfo net (nb_host b) (nb_port b) (nb_world b) = (Some (Suc n), w0)"
    "net_socket net w0 = (fd, w1)" "fd \<noteq> -1" "net_connect net fd 0 w1 = (True, w2)" "live fd w2" "length m2 = 8" "length fl = 4"
    "srv w2 = (srv_idle ?disk)\<lparr>srv_out := nbd_hello_message (length ?disk) m2 fl\<rparr>"
    using assms(2,3) unfolding nbd_listens_def by blast
  note h = hello_fields [OF c(6,7) assms(4)]
  obtain w' where w': "READ net fd 152 w2 = (True, nbd_hello_message (length ?disk) m2 fl, w')" "live fd w'" "srv w' = srv_idle ?disk"
    using READ_gets [OF assms(1) c(5), of 152] c(8) h(1) by (auto simp: srv_idle_def)
  have ov: "overwrite 0 (nbd_hello_message (length ?disk) m2 fl) (replicate 152 0) = nbd_hello_message (length ?disk) m2 fl"
    using h(1) by (simp add: overwrite_def)
  have size: "my_NTOHLL (ld64 16 (nbd_hello_message (length ?disk) m2 fl)) = of_nat (length ?disk)"
    using arg_cong [OF h(3), of "of_nat :: nat \<Rightarrow> u64"] by simp
  have "nbd_connect_once net b = b\<lparr>nb_fd := fd, nb_world := w', nb_dev_size := of_nat (length ?disk)\<rparr>"
    using c(1-4) w'(1) h(2) by (simp add: nbd_connect_once_def nbd_hello_def ov size)
  then show ?thesis using c(3) w'(2,3) by blast
qed


text \<open>A net on which the first connection is dead: its writes fail until the socket is closed.\<close>

definition flaky_net :: "(bool \<times> nbd_srv) nbd_net" where
  "flaky_net = \<lparr>net_getaddrinfo = (\<lambda>host port w. (Some 1, w)), net_socket = (\<lambda>w. (4, w)),
     net_connect = (\<lambda>fd i w. (True, True, snd (net_connect loop_net fd i (snd w)))),
     net_read = (\<lambda>fd n w. (let (d, s) = net_read loop_net fd n (snd w) in (d, fst w, s))),
     net_write = (\<lambda>fd d w. if fst w then (let (k, s) = net_write loop_net fd d (snd w) in (k, True, s)) else (-1, w)),
     net_close = (\<lambda>fd w. w)\<rparr>"

lemma flaky_net_serves: "nbd_serves flaky_net (\<lambda>fd w. fst w) snd"
proof -
  have 1: "\<exists>k w'. net_write flaky_net fd d w = (int k, w') \<and> 0 < k \<and> k \<le> length d \<and> fst w' \<and> snd w' = srv_receive (snd w) (take k d)"
    if "fst w" "d \<noteq> []" for fd w d
    using that by (intro exI [of _ "min 100 (length d)"]) (auto simp: flaky_net_def loop_net_def min_def take_all_iff)
  have 2: "\<exists>k w'. net_read flaky_net fd n w = (Some (take k (srv_out (snd w))), w') \<and> 0 < k \<and> k \<le> n \<and> fst w' \<and>
      snd w' = (snd w)\<lparr>srv_out := drop k (srv_out (snd w))\<rparr>" if "fst w" "0 < n" for fd n and w :: "bool \<times> nbd_srv"
    using that by (intro exI [of _ "min 50 n"]) (simp add: flaky_net_def loop_net_def)
  show ?thesis unfolding nbd_serves_def using 1 2 by blast
qed

lemma flaky_net_listens: "nbd_listens flaky_net (\<lambda>fd w. fst w) snd (\<lambda>w. True)"
  unfolding nbd_listens_def
proof (intro allI impI, goal_cases)
  case (1 host port w)
  show ?case
    by (intro exI [of _ 0] exI [of _ w] exI [of _ 4] exI [of _ "replicate 8 0"]
        exI [of _ "(True, snd (net_connect loop_net 4 0 (snd w)))"] exI [of _ "replicate 4 0"])
      (simp add: flaky_net_def loop_net_def nbd_hello_message_def srv_idle_def replicate_add [symmetric] numeral_eq_Suc)
qed


end
