(* ===== verification/Backend_File.thy ===== *)
theory Backend_File
  imports Backend
begin

text \<open>
  The file backend (\<^verbatim>\<open>backend-file.cpp\<close>, Linux build): a file opened read/write, accessed by
  \<open>pread\<close>, \<open>pwrite\<close> and hole-punching \<open>fallocate\<close>. The file system is modelled by the contents of the
  file and by the documented behaviour of those calls; injected failures come from the environment.
\<close>

section \<open>State\<close>

record backend_file =
  bf_identifier :: string
  bf_fd :: int
  bf_contents :: "byte list"
  bf_bs :: backend_stats_t
  bf_ts_last_acces :: u64
  bf_locks :: "bool list"

definition backend_file_new :: "string \<Rightarrow> byte list \<Rightarrow> env \<Rightarrow> backend_file \<times> env" where
  "backend_file_new filename contents e =
     (let (t, e) = get_micros e
      in (\<lparr>bf_identifier = filename, bf_fd = -1, bf_contents = contents, bf_bs = zero_stats,
           bf_ts_last_acces = t, bf_locks = no_locks\<rparr>, e))"

text \<open>\<open>begin()\<close>; \<open>open_result\<close> is what \<open>open(filename, O_RDWR)\<close> returned.\<close>

definition backend_file_begin :: "int \<Rightarrow> backend_file \<Rightarrow> bool \<times> backend_file" where
  "backend_file_begin open_result b = (open_result \<noteq> -1, b\<lparr>bf_fd := open_result\<rparr>)"

section \<open>System calls on the file\<close>

text \<open>
  Linux transfers at most \<open>0x7ffff000\<close> bytes per call. An offset is a signed 64-bit value. A
  \<open>pread\<close> stops at the end of the file; a \<open>pwrite\<close> beyond it extends the file with zeros. The
  result \<open>-1\<close> is an error without any effect.
\<close>

definition MAX_RW_COUNT :: nat where "MAX_RW_COUNT = 0x7ffff000"

definition io_limit :: "io_outcome \<Rightarrow> nat \<Rightarrow> nat option" where
  "io_limit r n = (case r of Io_ok \<Rightarrow> Some (min n MAX_RW_COUNT) | Io_err \<Rightarrow> None
     | Io_short k \<Rightarrow> Some (min k (min n MAX_RW_COUNT)))"

definition sys_pread :: "int \<Rightarrow> byte list \<Rightarrow> nat \<Rightarrow> u64 \<Rightarrow> byte list \<Rightarrow> env \<Rightarrow> (int \<times> byte list \<times> env) result" where
  "sys_pread fd buf n offset file e =
     (if length buf < n then Inl Mem_oob
      else let (r, e) = next_outcome e
      in if fd = -1 \<or> sint offset < 0 then Inr (-1, buf, e)
      else case io_limit r n of
             None \<Rightarrow> Inr (-1, buf, e)
           | Some k \<Rightarrow> let d = slice (unat offset) k file
                       in Inr (int (length d), overwrite 0 d buf, e))"

definition file_put :: "nat \<Rightarrow> byte list \<Rightarrow> byte list \<Rightarrow> byte list" where
  "file_put off d file =
     (if d = [] then file
      else overwrite off d (file @ replicate (off + length d - length file) 0))"

definition sys_pwrite :: "int \<Rightarrow> byte list \<Rightarrow> nat \<Rightarrow> u64 \<Rightarrow> byte list \<Rightarrow> env \<Rightarrow> (int \<times> byte list \<times> env) result" where
  "sys_pwrite fd data n offset file e =
     (if length data < n then Inl Mem_oob
      else let (r, e) = next_outcome e
      in if fd = -1 \<or> sint offset < 0 \<or> 2 ^ 63 \<le> unat offset + n then Inr (-1, file, e)
      else case io_limit r n of
             None \<Rightarrow> Inr (-1, file, e)
           | Some k \<Rightarrow> Inr (int k, file_put (unat offset) (take k data) file, e))"

text \<open>\<open>FALLOC_FL_PUNCH_HOLE | FALLOC_FL_KEEP_SIZE\<close>: zeroes the range inside the file; a length of 0 is an error.\<close>

definition sys_punch_hole :: "int \<Rightarrow> u64 \<Rightarrow> u64 \<Rightarrow> byte list \<Rightarrow> env \<Rightarrow> int \<times> byte list \<times> env" where
  "sys_punch_hole fd offset n file e =
     (let (r, e) = next_outcome e
      in if fd = -1 \<or> sint offset < 0 \<or> sint n \<le> 0 \<or> 2 ^ 63 \<le> unat offset + unat n \<or> r \<noteq> Io_ok
         then (-1, file, e)
         else (0, overwrite (unat offset)
                 (replicate (min (unat n) (length file - unat offset)) 0) file, e))"

section \<open>Operations\<close>

definition file_get_block_size :: "backend_file \<Rightarrow> u64" where
  "file_get_block_size b = 4096"

definition file_get_size_in_blocks :: "backend_file \<Rightarrow> u64" where
  "file_get_size_in_blocks b =
     (let rc = (if bf_fd b = -1 then -1 else of_nat (length (bf_contents b)))
      in rc div file_get_block_size b)"

definition file_sync :: "backend_file \<times> env \<Rightarrow> (bool \<times> backend_file \<times> env) result" where
  "file_sync = (\<lambda>(b, e).
     let (start, e) = get_micros e;
         (r, e) = next_outcome e;
         ok = (bf_fd b \<noteq> -1 \<and> r = Io_ok);
         (end_ts, e) = get_micros e;
         bs = (bf_bs b)\<lparr>bs_n_syncs := bs_n_syncs (bf_bs b) + 1\<rparr>;
         bs = add_io_wait start end_ts bs;
         (now, e) = get_micros e
     in Inr (ok, b\<lparr>bf_bs := bs, bf_ts_last_acces := now\<rparr>, e))"

definition file_write :: "u64 \<Rightarrow> u32 \<Rightarrow> byte list \<Rightarrow> backend_file \<times> env
    \<Rightarrow> (bool \<times> backend_file \<times> env) result" where
  "file_write block_nr n_blocks data = (\<lambda>(b, e).
     let block_size = file_get_block_size b;
         offset = block_nr * block_size;
         n_bytes = ucast n_blocks * block_size;
         (start, e) = get_micros e
     in bindR (lock_range block_nr 1 (bf_locks b)) (\<lambda>(lock_list, ls).
        bindR (sys_pwrite (bf_fd b) data (unat n_bytes) offset (bf_contents b) e) (\<lambda>(rc, file, e).
        let ls = unlock_range lock_list ls;
            (end_ts, e) = get_micros e;
            bs = add_io_wait start end_ts (bf_bs b);
            bs = bs\<lparr>bs_bytes_written := bs_bytes_written bs + n_bytes, bs_n_writes := bs_n_writes bs + 1\<rparr>
        in Inr (rc = sint n_bytes,
                b\<lparr>bf_contents := file, bf_bs := bs, bf_ts_last_acces := end_ts, bf_locks := ls\<rparr>, e))))"

definition file_trim :: "u64 \<Rightarrow> u32 \<Rightarrow> backend_file \<times> env \<Rightarrow> (bool \<times> backend_file \<times> env) result" where
  "file_trim block_nr n_blocks = (\<lambda>(b, e).
     let block_size = file_get_block_size b;
         offset = block_nr * block_size;
         n_bytes = ucast n_blocks * block_size;
         (start, e) = get_micros e;
         (rc, file, e) = sys_punch_hole (bf_fd b) offset n_bytes (bf_contents b) e;
         (end_ts, e) = get_micros e;
         bs = (bf_bs b)\<lparr>bs_n_trims := bs_n_trims (bf_bs b) + ucast n_blocks\<rparr>;
         bs = add_io_wait start end_ts bs
     in Inr (rc = 0, b\<lparr>bf_contents := file, bf_bs := bs, bf_ts_last_acces := end_ts\<rparr>, e))"

definition file_read :: "u64 \<Rightarrow> u32 \<Rightarrow> byte list \<Rightarrow> backend_file \<times> env
    \<Rightarrow> (bool \<times> byte list \<times> backend_file \<times> env) result" where
  "file_read block_nr n_blocks data = (\<lambda>(b, e).
     let block_size = file_get_block_size b;
         offset = block_nr * block_size;
         n_bytes = ucast n_blocks * block_size;
         (start, e) = get_micros e
     in bindR (lock_range block_nr n_blocks (bf_locks b)) (\<lambda>(lock_list, ls).
        bindR (sys_pread (bf_fd b) data (unat n_bytes) offset (bf_contents b) e) (\<lambda>(rc, data, e).
        let ls = unlock_range lock_list ls;
            (end_ts, e) = get_micros e;
            bs = add_io_wait start end_ts (bf_bs b);
            bs = bs\<lparr>bs_bytes_read := bs_bytes_read bs + n_bytes, bs_n_reads := bs_n_reads bs + 1\<rparr>
        in Inr (rc = sint n_bytes, data,
                b\<lparr>bf_bs := bs, bf_ts_last_acces := end_ts, bf_locks := ls\<rparr>, e))))"

text \<open>The compare loop of \<open>cmpwrite\<close>: block \<open>i\<close> of \<open>n_blocks\<close>; it yields the result, the buffer and \<open>bytes_read\<close>.\<close>

fun file_cmp_loop :: "int \<Rightarrow> u64 \<Rightarrow> nat \<Rightarrow> nat \<Rightarrow> u64 \<Rightarrow> byte list \<Rightarrow> byte list \<Rightarrow> byte list \<Rightarrow> u64 \<Rightarrow> env
    \<Rightarrow> (cmpwrite_result_t \<times> u64 \<times> env) result" where
  "file_cmp_loop fd block_nr i 0 block_size data_compare file buffer bytes_read e = Inr (CWR_OK, bytes_read, e)"
| "file_cmp_loop fd block_nr i (Suc left) block_size data_compare file buffer bytes_read e =
     bindR (sys_pread fd buffer (unat block_size) ((block_nr + of_nat i) * block_size) file e) (\<lambda>(rc, buffer, e).
     if rc \<noteq> sint block_size then Inr (CWR_READ_ERROR, bytes_read, e)
     else if length data_compare < (i + 1) * unat block_size then Inl Mem_oob
     else if buffer \<noteq> slice (i * unat block_size) (unat block_size) data_compare
       then Inr (CWR_MISMATCH, bytes_read + block_size, e)
     else file_cmp_loop fd block_nr (i + 1) left block_size data_compare file buffer (bytes_read + block_size) e)"

definition file_cmpwrite :: "u64 \<Rightarrow> u32 \<Rightarrow> byte list \<Rightarrow> byte list \<Rightarrow> backend_file \<times> env
    \<Rightarrow> (cmpwrite_result_t \<times> backend_file \<times> env) result" where
  "file_cmpwrite block_nr n_blocks data_write data_compare = (\<lambda>(b, e).
     let block_size = file_get_block_size b;
         (start, e) = get_micros e
     in bindR (lock_range block_nr n_blocks (bf_locks b)) (\<lambda>(lock_list, ls).
        bindR (file_cmp_loop (bf_fd b) block_nr 0 (unat n_blocks) block_size data_compare
                 (bf_contents b) (replicate (unat block_size) 0) (bs_bytes_read (bf_bs b)) e)
          (\<lambda>(res, bytes_read, e).
        let b = b\<lparr>bf_bs := (bf_bs b)\<lparr>bs_bytes_read := bytes_read\<rparr>\<rparr>
        in bindR
          (if res \<noteq> CWR_OK then Inr (res, b, e)
           else bindR (sys_pwrite (bf_fd b) data_write (unat (ucast n_blocks * block_size))
                         (block_nr * block_size) (bf_contents b) e) (\<lambda>(rc, file, e).
             let b = b\<lparr>bf_contents := file\<rparr>
             in if rc \<noteq> sint (ucast n_blocks * block_size) then Inr (CWR_WRITE_ERROR, b, e)
                else let (now, e) = get_micros e
                     in Inr (CWR_OK, b\<lparr>bf_bs := (bf_bs b)\<lparr>bs_bytes_written :=
                              bs_bytes_written (bf_bs b) + block_size\<rparr>, bf_ts_last_acces := now\<rparr>, e)))
          (\<lambda>(res, b, e).
        let (end_ts, e) = get_micros e;
            bs = add_io_wait start end_ts (bf_bs b);
            bs = bs\<lparr>bs_n_reads := bs_n_reads bs + 1, bs_n_writes := bs_n_writes bs + 1\<rparr>
        in Inr (res, b\<lparr>bf_bs := bs, bf_locks := unlock_range lock_list ls\<rparr>, e)))))"

text \<open>\<open>get_serial\<close>: \<open>fgets\<close> reads one line of at most 127 characters, which is then cut at its newline.\<close>

definition file_get_serial :: "backend_file \<Rightarrow> env \<Rightarrow> string" where
  "file_get_serial b e =
     (case machine_id e of None \<Rightarrow> ''12345678''
      | Some contents \<Rightarrow>
          takeWhile (\<lambda>c. c \<noteq> CHR 0x0A \<and> c \<noteq> CHR 0x00) (take 127 contents))"

definition file_ops :: "backend_file backend_ops" where
  "file_ops = \<lparr>be_get_serial = file_get_serial, be_get_size_in_blocks = file_get_size_in_blocks,
     be_get_block_size = file_get_block_size, be_sync = file_sync, be_write = file_write,
     be_trim = file_trim, be_read = file_read, be_cmpwrite = file_cmpwrite\<rparr>"

section \<open>The file as a block device\<close>

definition file_inv :: "backend_file \<Rightarrow> bool" where
  "file_inv b \<longleftrightarrow> bf_fd b \<noteq> -1 \<and> bf_locks b = no_locks \<and> length (bf_contents b) < 2 ^ 63"

text \<open>The largest number of 4096-byte blocks within \<open>MAX_RW_COUNT\<close>.\<close>

definition file_lim :: nat where "file_lim = 524287"

lemma sint_small: "unat w < 2 ^ 63 \<Longrightarrow> sint (w :: u64) = int (unat w)"
proof -
  assume "unat w < 2 ^ 63"
  then have "uint w < 2 ^ 63" by (metis of_nat_less_iff of_nat_numeral of_nat_power int_eq_iff uint_nat)
  then have "signed_take_bit 63 (uint w) = uint w"
    by (intro signed_take_bit_int_eq_self) (use uint_ge_0 [of w] in linarith)+
  then show ?thesis by (simp add: sint_uint)
qed

lemma unat_times_4096: "unat nr * 4096 < 2 ^ 64 \<Longrightarrow> unat (nr * 4096 :: u64) = unat nr * 4096"
  by (subst unat_mult_u64) simp_all

lemma unat_n_bytes: "unat (ucast (n :: u32) * 4096 :: u64) = unat n * 4096"
proof -
  have "unat n < 2 ^ 32" using unsigned_less [of n, where 'a = nat] by simp
  then show ?thesis by (subst unat_times_4096) simp_all
qed

lemma n_bytes_lt: "unat (n :: u32) * 4096 < 2 ^ 63"
proof -
  have "unat n < 2 ^ 32" using unsigned_less [of n, where 'a = nat] by simp
  then show ?thesis by simp
qed

lemma sint_n_bytes: "sint (ucast (n :: u32) * 4096 :: u64) = int (unat n * 4096)"
  by (subst sint_small) (use n_bytes_lt [of n] in \<open>simp_all add: unat_n_bytes\<close>)

lemma in_range_offset:
  "unat nr * 4096 + k \<le> length (xs :: byte list) \<Longrightarrow> length xs < 2 ^ 63 \<Longrightarrow>
   unat (nr * 4096 :: u64) = unat nr * 4096 \<and> \<not> sint (nr * 4096) < 0"
  by (subst sint_small) (simp_all add: unat_times_4096)

lemma file_put_in_range:
  "off + length d \<le> length file \<Longrightarrow> file_put off d file = overwrite off d file"
  by (simp add: file_put_def)

lemma io_limit_le: "io_limit r n = Some k \<Longrightarrow> k \<le> n"
  by (auto simp: io_limit_def split: io_outcome.splits)

lemma io_limit_ok: "n \<le> MAX_RW_COUNT \<Longrightarrow> io_limit Io_ok n = Some n"
  by (simp add: io_limit_def)

lemma sys_pwrite_spec:
  assumes "n \<le> length data" and "unat off + n \<le> length file" and "length file < 2 ^ 63" and "fd \<noteq> -1"
  shows "\<exists>k rc e'. sys_pwrite fd data n off file e = Inr (rc, overwrite (unat off) (take k data) file, e') \<and>
    k \<le> n \<and> (rc = int n \<longrightarrow> k = n) \<and> (quiet e \<longrightarrow> quiet e' \<and> (n \<le> MAX_RW_COUNT \<longrightarrow> rc = int n))"
proof -
  obtain r e' where r: "next_outcome e = (r, e')" by fastforce
  have s: "\<not> sint off < 0" using assms by (subst sint_small) auto
  have q: "quiet e \<Longrightarrow> r = Io_ok \<and> quiet e'" using r by simp
  show ?thesis
  proof (cases "io_limit r n")
    case None
    then show ?thesis using assms r s q
      by (intro exI [of _ 0] exI [of _ "-1"] exI [of _ e']) (auto simp: sys_pwrite_def io_limit_ok)
  next
    case (Some k)
    have k: "k \<le> n" by (rule io_limit_le [OF Some])
    have "file_put (unat off) (take k data) file = overwrite (unat off) (take k data) file"
      using assms k by (intro file_put_in_range) simp
    then show ?thesis using assms r s q Some k
      by (intro exI [of _ k] exI [of _ "int k"] exI [of _ e']) (auto simp: sys_pwrite_def io_limit_ok)
  qed
qed

lemma sys_pread_spec:
  assumes "n \<le> length buf" and "unat off + n \<le> length file" and "length file < 2 ^ 63" and "fd \<noteq> -1"
  shows "\<exists>rc buf' e'. sys_pread fd buf n off file e = Inr (rc, buf', e') \<and> length buf' = length buf \<and>
    (rc = int n \<longrightarrow> buf' = overwrite 0 (slice (unat off) n file) buf) \<and>
    (quiet e \<longrightarrow> quiet e' \<and> (n \<le> MAX_RW_COUNT \<longrightarrow> rc = int n))"
proof -
  obtain r e' where r: "next_outcome e = (r, e')" by fastforce
  have s: "\<not> sint off < 0" using assms by (subst sint_small) auto
  have q: "quiet e \<Longrightarrow> r = Io_ok \<and> quiet e'" using r by simp
  show ?thesis
  proof (cases "io_limit r n")
    case None
    then show ?thesis using assms r s q by (auto simp: sys_pread_def io_limit_ok)
  next
    case (Some k)
    have k: "k \<le> n" by (rule io_limit_le [OF Some])
    then have "min k (length file - unat off) = k" using assms by simp
    then show ?thesis using assms r s q Some k
      by (auto simp: sys_pread_def io_limit_ok Let_def)
  qed
qed

lemma block_size_file [simp]: "file_get_block_size b = 4096"
  by (simp add: file_get_block_size_def)

lemma lim_bytes: "unat n \<le> file_lim \<Longrightarrow> unat n * 4096 \<le> MAX_RW_COUNT"
  by (simp add: file_lim_def MAX_RW_COUNT_def)

lemma get_micros_quiet: "get_micros e = (t, e') \<Longrightarrow> quiet e' = quiet e"
  using quiet_get_micros [of e] by simp

lemma file_write_law:
  assumes "file_inv b" and "unat n * 4096 \<le> length data"
    and "unat nr * 4096 + unat n * 4096 \<le> length (bf_contents b)"
  shows "\<exists>k ok b' e'. file_write nr n data (b, e) = Inr (ok, b', e') \<and> file_inv b' \<and>
    k \<le> unat n * 4096 \<and> bf_contents b' = overwrite (unat nr * 4096) (take k data) (bf_contents b) \<and>
    (ok \<longrightarrow> k = unat n * 4096) \<and>
    (quiet e \<longrightarrow> quiet e' \<and> (unat n \<le> file_lim \<longrightarrow> ok))"
proof -
  note inv = assms(1) [unfolded file_inv_def]
  have off: "unat (nr * 4096 :: u64) = unat nr * 4096"
    using in_range_offset [OF assms(3)] inv by blast
  obtain start e1 where e1: "get_micros e = (start, e1)" by fastforce
  obtain ls where ls: "lock_range nr 1 no_locks = Inr (lock_indexes nr 1, ls)"
    "unlock_range (lock_indexes nr 1) ls = no_locks"
    by (rule lock_range_balanced)
  obtain k rc e2 where w: "sys_pwrite (bf_fd b) data (unat n * 4096) (nr * 4096) (bf_contents b) e1 =
      Inr (rc, overwrite (unat nr * 4096) (take k data) (bf_contents b), e2)"
    "k \<le> unat n * 4096" "rc = int (unat n * 4096) \<longrightarrow> k = unat n * 4096"
    "quiet e1 \<longrightarrow> quiet e2 \<and> (unat n * 4096 \<le> MAX_RW_COUNT \<longrightarrow> rc = int (unat n * 4096))"
    using sys_pwrite_spec [of "unat n * 4096" data "nr * 4096" "bf_contents b" "bf_fd b" e1] assms inv
    unfolding off by blast
  obtain end_ts e3 where e3: "get_micros e2 = (end_ts, e3)" by fastforce
  have res: "\<exists>b'. file_write nr n data (b, e) = Inr (rc = int (unat n * 4096), b', e3) \<and>
      bf_contents b' = overwrite (unat nr * 4096) (take k data) (bf_contents b) \<and>
      bf_locks b' = no_locks \<and> bf_fd b' = bf_fd b"
    using inv e1 e3 ls w(1) by (simp add: file_write_def unat_n_bytes sint_n_bytes Let_def)
  then obtain b' where b': "file_write nr n data (b, e) = Inr (rc = int (unat n * 4096), b', e3)"
      "bf_contents b' = overwrite (unat nr * 4096) (take k data) (bf_contents b)"
      "bf_locks b' = no_locks" "bf_fd b' = bf_fd b"
    by blast
  have "length (bf_contents b') = length (bf_contents b)"
    using b'(2) w(2) assms(2,3) by simp
  then have "file_inv b'" using b' inv by (simp add: file_inv_def)
  moreover have "quiet e \<longrightarrow> quiet e3 \<and> (unat n \<le> file_lim \<longrightarrow> rc = int (unat n * 4096))"
    using w(4) lim_bytes [of n] get_micros_quiet [OF e1] get_micros_quiet [OF e3] by blast
  ultimately show ?thesis using b'(1,2) w(2,3) by blast
qed

lemma file_read_law:
  assumes "file_inv b" and "unat n * 4096 \<le> length buf"
    and "unat nr * 4096 + unat n * 4096 \<le> length (bf_contents b)"
  shows "\<exists>ok buf' b' e'. file_read nr n buf (b, e) = Inr (ok, buf', b', e') \<and> file_inv b' \<and>
    bf_contents b' = bf_contents b \<and> length buf' = length buf \<and>
    (ok \<longrightarrow> buf' = overwrite 0 (slice (unat nr * 4096) (unat n * 4096) (bf_contents b)) buf) \<and>
    (quiet e \<longrightarrow> quiet e' \<and> (unat n \<le> file_lim \<longrightarrow> ok))"
proof -
  note inv = assms(1) [unfolded file_inv_def]
  have off: "unat (nr * 4096 :: u64) = unat nr * 4096"
    using in_range_offset [OF assms(3)] inv by blast
  obtain start e1 where e1: "get_micros e = (start, e1)" by fastforce
  obtain ls where ls: "lock_range nr n no_locks = Inr (lock_indexes nr n, ls)"
    "unlock_range (lock_indexes nr n) ls = no_locks"
    by (rule lock_range_balanced)
  obtain buf' rc e2 where r: "sys_pread (bf_fd b) buf (unat n * 4096) (nr * 4096) (bf_contents b) e1 =
      Inr (rc, buf', e2)" "length buf' = length buf"
    "rc = int (unat n * 4096) \<longrightarrow>
       buf' = overwrite 0 (slice (unat nr * 4096) (unat n * 4096) (bf_contents b)) buf"
    "quiet e1 \<longrightarrow> quiet e2 \<and> (unat n * 4096 \<le> MAX_RW_COUNT \<longrightarrow> rc = int (unat n * 4096))"
    using sys_pread_spec [of "unat n * 4096" buf "nr * 4096" "bf_contents b" "bf_fd b" e1] assms inv
    unfolding off by blast
  obtain end_ts e3 where e3: "get_micros e2 = (end_ts, e3)" by fastforce
  have "\<exists>b'. file_read nr n buf (b, e) = Inr (rc = int (unat n * 4096), buf', b', e3) \<and>
      bf_contents b' = bf_contents b \<and> file_inv b'"
    using inv e1 e3 ls r(1) by (simp add: file_read_def unat_n_bytes sint_n_bytes file_inv_def Let_def)
  moreover have "quiet e \<longrightarrow> quiet e3 \<and> (unat n \<le> file_lim \<longrightarrow> rc = int (unat n * 4096))"
    using r(4) lim_bytes [of n] get_micros_quiet [OF e1] get_micros_quiet [OF e3] by blast
  ultimately show ?thesis using r(2,3) by blast
qed

lemma file_trim_law:
  assumes "file_inv b" and "unat nr * 4096 + unat n * 4096 \<le> length (bf_contents b)"
  shows "\<exists>ok b' e'. file_trim nr n (b, e) = Inr (ok, b', e') \<and> file_inv b' \<and>
    bf_contents b' = (if ok then overwrite (unat nr * 4096) (replicate (unat n * 4096) 0) (bf_contents b)
                      else bf_contents b) \<and>
    (quiet e \<longrightarrow> quiet e' \<and> (0 < n \<longrightarrow> ok))"
proof -
  note inv = assms(1) [unfolded file_inv_def]
  have off: "unat (nr * 4096 :: u64) = unat nr * 4096" "\<not> sint (nr * 4096) < 0"
    using in_range_offset [OF assms(2)] inv by blast+
  obtain start e1 where e1: "get_micros e = (start, e1)" by fastforce
  obtain r e2 where e2: "next_outcome e1 = (r, e2)" by fastforce
  obtain end_ts e3 where e3: "get_micros e2 = (end_ts, e3)" by fastforce
  have q: "quiet e \<Longrightarrow> r = Io_ok \<and> quiet e3"
    using e2 get_micros_quiet [OF e1] get_micros_quiet [OF e3] by simp
  define ok where "ok \<longleftrightarrow> n \<noteq> 0 \<and> r = Io_ok"
  have hole: "sys_punch_hole (bf_fd b) (nr * 4096) (ucast n * 4096) (bf_contents b) e1 =
      (if ok then 0 else -1, if ok then overwrite (unat nr * 4096) (replicate (unat n * 4096) 0) (bf_contents b)
        else bf_contents b, e2)"
    using inv assms(2) off e2 by (auto simp: sys_punch_hole_def sint_n_bytes unat_n_bytes ok_def min_def uint_0_iff)
  have "\<exists>b'. file_trim nr n (b, e) = Inr (ok, b', e3) \<and> bf_fd b' = bf_fd b \<and> bf_locks b' = bf_locks b \<and>
      bf_contents b' = (if ok then overwrite (unat nr * 4096) (replicate (unat n * 4096) 0) (bf_contents b)
        else bf_contents b)"
    using e1 e3 hole by (simp add: file_trim_def)
  then obtain b' where b': "file_trim nr n (b, e) = Inr (ok, b', e3)" "bf_fd b' = bf_fd b"
      "bf_locks b' = bf_locks b" "bf_contents b' = (if ok
        then overwrite (unat nr * 4096) (replicate (unat n * 4096) 0) (bf_contents b) else bf_contents b)"
    by blast
  then have "file_inv b'" using inv assms(2) by (simp add: file_inv_def)
  moreover have "quiet e \<longrightarrow> quiet e3 \<and> (0 < n \<longrightarrow> ok)"
    using q by (auto simp: ok_def)
  ultimately show ?thesis using b'(1,4) by blast
qed

lemma slice_split_eq:
  assumes "a + m \<le> length xs" and "b + m \<le> length ys"
  shows "slice a (m + n) xs = slice b (m + n) ys \<longleftrightarrow>
    slice a m xs = slice b m ys \<and> slice (a + m) n xs = slice (b + m) n ys"
  unfolding slice_append_split using assms by (intro append_eq_append_conv) simp

lemma file_cmp_loop_spec:
  assumes "(i + left) * 4096 \<le> length dc" and "(unat nr + i + left) * 4096 \<le> length file"
    and "length file < 2 ^ 63" and "fd \<noteq> -1" and "length buffer = 4096"
  shows "\<exists>res br' e'. file_cmp_loop fd nr i left 4096 dc file buffer br e = Inr (res, br', e') \<and>
    res \<noteq> CWR_WRITE_ERROR \<and> (quiet e \<longrightarrow> quiet e' \<and> res \<noteq> CWR_READ_ERROR) \<and>
    (res \<in> {CWR_OK, CWR_MISMATCH} \<longrightarrow> (res = CWR_OK \<longleftrightarrow>
      slice ((unat nr + i) * 4096) (left * 4096) file = slice (i * 4096) (left * 4096) dc))"
  using assms
proof (induction left arbitrary: i buffer br e)
  case 0
  then show ?case by simp
next
  case (Suc left)
  define nr' where "nr' = nr + of_nat i"
  have "unat nr' = unat nr + i"
    unfolding nr'_def using Suc.prems by (subst unat_add_u64) (simp_all add: unat_of_nat)
  moreover have "unat nr' * 4096 < 2 ^ 64" using calculation Suc.prems by simp
  ultimately have off: "unat (nr' * 4096) = (unat nr + i) * 4096"
    by (subst unat_times_4096) simp_all
  obtain rc buf' e' where r: "sys_pread fd buffer 4096 (nr' * 4096) file e = Inr (rc, buf', e')"
    "length buf' = length buffer" "rc = 4096 \<longrightarrow> buf' = overwrite 0 (slice ((unat nr + i) * 4096) 4096 file) buffer"
    "quiet e \<longrightarrow> quiet e' \<and> rc = 4096"
    using sys_pread_spec [of 4096 buffer "nr' * 4096" "file" fd e] Suc.prems
    unfolding off by (auto simp: MAX_RW_COUNT_def)
  have buf': "buf' = slice ((unat nr + i) * 4096) 4096 file" if "rc = 4096"
    using that r(3) Suc.prems by (simp add: overwrite_def)
  have step: "slice ((unat nr + i) * 4096) (Suc left * 4096) file = slice (i * 4096) (Suc left * 4096) dc \<longleftrightarrow>
      slice ((unat nr + i) * 4096) 4096 file = slice (i * 4096) 4096 dc \<and>
      slice ((unat nr + (i + 1)) * 4096) (left * 4096) file = slice ((i + 1) * 4096) (left * 4096) dc"
    using slice_split_eq [of "(unat nr + i) * 4096" 4096 "file" "i * 4096" dc "left * 4096"] Suc.prems
    by (simp add: algebra_simps)
  show ?case
  proof (cases "rc = 4096 \<and> buf' = slice (i * 4096) 4096 dc")
    case True
    have "\<exists>res br' e''. file_cmp_loop fd nr (i + 1) left 4096 dc file buf' (br + 4096) e' = Inr (res, br', e'') \<and>
      res \<noteq> CWR_WRITE_ERROR \<and> (quiet e' \<longrightarrow> quiet e'' \<and> res \<noteq> CWR_READ_ERROR) \<and>
      (res \<in> {CWR_OK, CWR_MISMATCH} \<longrightarrow> (res = CWR_OK \<longleftrightarrow>
        slice ((unat nr + (i + 1)) * 4096) (left * 4096) file = slice ((i + 1) * 4096) (left * 4096) dc))"
      using Suc.prems r(2) by (intro Suc.IH) auto
    then show ?thesis
      unfolding step using True r(1,4) buf' Suc.prems by (auto simp: nr'_def)
  next
    case False
    then show ?thesis
      unfolding step using r(1,4) buf' Suc.prems by (auto simp: nr'_def)
  qed
qed

lemma file_cmpwrite_law:
  assumes "file_inv b" and "unat n * 4096 \<le> length dw" and "unat n * 4096 \<le> length dc"
    and "unat nr * 4096 + unat n * 4096 \<le> length (bf_contents b)"
  shows "\<exists>k r b' e'. file_cmpwrite nr n dw dc (b, e) = Inr (r, b', e') \<and> file_inv b' \<and>
    bf_contents b' = overwrite (unat nr * 4096) (take k dw) (bf_contents b) \<and> k \<le> unat n * 4096 \<and>
    (r = CWR_OK \<longrightarrow> k = unat n * 4096) \<and>
    (r \<in> {CWR_MISMATCH, CWR_READ_ERROR} \<longrightarrow> k = 0) \<and>
    (r \<in> {CWR_OK, CWR_WRITE_ERROR} \<longrightarrow>
       slice (unat nr * 4096) (unat n * 4096) (bf_contents b) = take (unat n * 4096) dc) \<and>
    (r = CWR_MISMATCH \<longrightarrow> slice (unat nr * 4096) (unat n * 4096) (bf_contents b) \<noteq> take (unat n * 4096) dc) \<and>
    (quiet e \<longrightarrow> quiet e' \<and> r \<noteq> CWR_READ_ERROR \<and> (unat n \<le> file_lim \<longrightarrow> r \<noteq> CWR_WRITE_ERROR))"
proof -
  note inv = assms(1) [unfolded file_inv_def]
  have off: "unat (nr * 4096 :: u64) = unat nr * 4096"
    using in_range_offset [OF assms(4)] inv by blast
  have len: "length (overwrite (unat nr * 4096) (take k dw) (bf_contents b)) = length (bf_contents b)"
    if "k \<le> unat n * 4096" for k
    using that assms(4) by (intro length_overwrite) simp
  obtain start e1 where e1: "get_micros e = (start, e1)" by fastforce
  obtain ls where ls: "lock_range nr n no_locks = Inr (lock_indexes nr n, ls)"
    "unlock_range (lock_indexes nr n) ls = no_locks"
    by (rule lock_range_balanced)
  obtain res br e2 where c: "file_cmp_loop (bf_fd b) nr 0 (unat n) 4096 dc (bf_contents b)
      (replicate 4096 0) (bs_bytes_read (bf_bs b)) e1 = Inr (res, br, e2)"
    "res \<noteq> CWR_WRITE_ERROR" "quiet e1 \<longrightarrow> quiet e2 \<and> res \<noteq> CWR_READ_ERROR"
    "res \<in> {CWR_OK, CWR_MISMATCH} \<longrightarrow> (res = CWR_OK \<longleftrightarrow>
       slice (unat nr * 4096) (unat n * 4096) (bf_contents b) = take (unat n * 4096) dc)"
    using file_cmp_loop_spec [of 0 "unat n" dc nr "bf_contents b" "bf_fd b" "replicate 4096 0"
        "bs_bytes_read (bf_bs b)" e1] assms inv
    by (auto simp: slice_def [of 0])
  note run = file_cmpwrite_def Let_def unat_n_bytes sint_n_bytes
  show ?thesis
  proof (cases "res = CWR_OK")
    case False
    obtain t3 e3 where e3: "get_micros e2 = (t3, e3)" by fastforce
    have q: "quiet e \<Longrightarrow> quiet e3 \<and> res \<noteq> CWR_READ_ERROR"
      using c(3) get_micros_quiet [OF e1] get_micros_quiet [OF e3] by blast
    have "\<exists>b'. file_cmpwrite nr n dw dc (b, e) = Inr (res, b', e3) \<and> file_inv b' \<and>
        bf_contents b' = overwrite (unat nr * 4096) (take 0 dw) (bf_contents b)"
      using False inv e1 e3 ls c(1) by (simp add: run file_inv_def)
    then show ?thesis using False c(2,4) q by blast
  next
    case True
    obtain k rc e3 where w: "sys_pwrite (bf_fd b) dw (unat n * 4096) (nr * 4096) (bf_contents b) e2 =
        Inr (rc, overwrite (unat nr * 4096) (take k dw) (bf_contents b), e3)"
      "k \<le> unat n * 4096" "rc = int (unat n * 4096) \<longrightarrow> k = unat n * 4096"
      "quiet e2 \<longrightarrow> quiet e3 \<and> (unat n * 4096 \<le> MAX_RW_COUNT \<longrightarrow> rc = int (unat n * 4096))"
      using sys_pwrite_spec [of "unat n * 4096" dw "nr * 4096" "bf_contents b" "bf_fd b" e2] assms inv
      unfolding off by blast
    define r where "r = (if rc = int (unat n * 4096) then CWR_OK else CWR_WRITE_ERROR)"
    have "\<exists>b' e'. file_cmpwrite nr n dw dc (b, e) = Inr (r, b', e') \<and> file_inv b' \<and>
        bf_contents b' = overwrite (unat nr * 4096) (take k dw) (bf_contents b) \<and> (quiet e3 \<longrightarrow> quiet e')"
    proof (cases "rc = int (unat n * 4096)")
      case rc: True
      obtain t4 e4 where e4: "get_micros e3 = (t4, e4)" by fastforce
      obtain t5 e5 where e5: "get_micros e4 = (t5, e5)" by fastforce
      show ?thesis using rc True inv e1 e4 e5 ls c(1) w(1) len [OF w(2)]
          get_micros_quiet [OF e4] get_micros_quiet [OF e5]
        by (simp add: run file_inv_def r_def)
    next
      case rc: False
      obtain t4 e4 where e4: "get_micros e3 = (t4, e4)" by fastforce
      show ?thesis using rc True inv e1 e4 ls c(1) w(1) len [OF w(2)] get_micros_quiet [OF e4]
        by (simp add: run file_inv_def r_def)
    qed
    moreover have "r = CWR_OK \<longleftrightarrow> rc = int (unat n * 4096)" "r \<in> {CWR_OK, CWR_WRITE_ERROR}"
      by (simp_all add: r_def)
    moreover have "quiet e \<Longrightarrow> quiet e3 \<and> (unat n \<le> file_lim \<longrightarrow> rc = int (unat n * 4096))"
      using c(3) w(4) get_micros_quiet [OF e1] lim_bytes [of n] by blast
    ultimately show ?thesis using w(2,3) c(4) True by blast
  qed
qed

lemma file_sync_law:
  assumes "file_inv b"
  shows "\<exists>ok b' e'. file_sync (b, e) = Inr (ok, b', e') \<and> file_inv b' \<and>
    bf_contents b' = bf_contents b \<and> (quiet e \<longrightarrow> ok \<and> quiet e')"
proof -
  obtain t1 e1 where e1: "get_micros e = (t1, e1)" by fastforce
  obtain r e2 where e2: "next_outcome e1 = (r, e2)" by fastforce
  obtain t3 e3 where e3: "get_micros e2 = (t3, e3)" by fastforce
  obtain t4 e4 where e4: "get_micros e3 = (t4, e4)" by fastforce
  have "quiet e \<Longrightarrow> r = Io_ok \<and> quiet e4"
    using e2 get_micros_quiet [OF e1] get_micros_quiet [OF e3] get_micros_quiet [OF e4] by simp
  then show ?thesis
    using assms e1 e2 e3 e4 by (simp add: file_sync_def file_inv_def)
qed

lemma file_size_law:
  assumes "file_inv b"
  shows "file_get_size_in_blocks b = of_nat (length (bf_contents b) div 4096)"
proof -
  have "length (bf_contents b) < 2 ^ 64" using assms by (simp add: file_inv_def)
  then have "unat (file_get_size_in_blocks b) = length (bf_contents b) div 4096"
    using assms by (simp add: file_get_size_in_blocks_def file_inv_def unat_div_distrib unat_of_nat)
  then have "(of_nat (unat (file_get_size_in_blocks b)) :: u64) = of_nat (length (bf_contents b) div 4096)"
    by simp
  then show ?thesis by simp
qed

interpretation file_dev: block_device file_ops bf_contents file_inv 4096 file_lim
proof (unfold_locales, goal_cases)
  case 7 then show ?case using file_sync_law by (simp add: file_ops_def)
next
  case 8 then show ?case using file_read_law by (simp add: file_ops_def)
next
  case 9 then show ?case using file_write_law by (simp add: file_ops_def)
next
  case 10 then show ?case using file_trim_law by (simp add: file_ops_def)
next
  case 11 then show ?case using file_cmpwrite_law by (simp add: file_ops_def)
qed (simp_all add: file_ops_def file_lim_def file_size_law file_inv_def)

lemma file_ops_sel [simp]:
  "be_get_serial file_ops = file_get_serial" "be_get_size_in_blocks file_ops = file_get_size_in_blocks"
  "be_get_block_size file_ops = file_get_block_size" "be_sync file_ops = file_sync"
  "be_write file_ops = file_write" "be_trim file_ops = file_trim"
  "be_read file_ops = file_read" "be_cmpwrite file_ops = file_cmpwrite"
  by (simp_all add: file_ops_def)

text \<open>
  What \<open>backend_file::write\<close> stored is what \<open>backend_file::read\<close> of the same blocks returns, for
  every clock and every failure the environment injects into other calls; and the write leaves
  every byte outside its blocks, the file size and the locks as they were, also when it fails.
\<close>

theorem file_write_read:
  assumes "file_inv b" and "length data = unat n * 4096" and "length buf = unat n * 4096"
    and "unat nr * 4096 + unat n * 4096 \<le> length (bf_contents b)"
    and "file_write nr n data (b, e) = Inr (ok, b', e1)"
    and "file_read nr n buf (b', e2) = Inr (ok', buf', b'', e3)"
  shows "(ok \<and> ok' \<longrightarrow> buf' = data) \<and> file_inv b' \<and> length (bf_contents b') = length (bf_contents b) \<and>
    (\<forall>off k. off + k \<le> unat nr * 4096 \<or> unat nr * 4096 + unat n * 4096 \<le> off \<longrightarrow>
       slice off k (bf_contents b') = slice off k (bf_contents b))"
proof -
  note w = assms(5) [folded file_ops_sel(5)] and r = assms(6) [folded file_ops_sel(7)]
  have d: "unat n * 4096 \<le> length data" using assms(2) by simp
  have "buf' = data" if "ok" "ok'"
    using file_dev.write_then_read [OF assms(1,2,4) _ assms(3)] w r that by simp
  then show ?thesis
    using file_dev.write_keeps_size [OF assms(1) d assms(4) w]
      file_dev.write_frame [OF assms(1) d assms(4) w] by blast
qed

definition example_file :: backend_file where
  "example_file = \<lparr>bf_identifier = ''test.dat'', bf_fd = 3, bf_contents = replicate 8192 7,
     bf_bs = zero_stats, bf_ts_last_acces = 0, bf_locks = no_locks\<rparr>"

definition example_env :: env where
  "example_env = \<lparr>clock = [], sys = [], entropy = [], machine_id = None\<rparr>"

lemma example_file_inv: "file_inv example_file"
  by (simp add: file_inv_def example_file_def)

theorem file_write_read_witness:
  "\<exists>ok b' e1 ok' buf' b'' e3.
     file_write 1 1 (replicate 4096 9) (example_file, example_env) = Inr (ok, b', e1) \<and>
     file_read 1 1 (replicate 4096 0) (b', e1) = Inr (ok', buf', b'', e3) \<and>
     ok \<and> ok' \<and> buf' = replicate 4096 9"
proof -
  have q: "quiet example_env" by (simp add: quiet_def example_env_def)
  have len: "length (bf_contents example_file) = 8192" by (simp add: example_file_def)
  obtain k ok b' e1 where w: "file_write 1 1 (replicate 4096 9) (example_file, example_env) = Inr (ok, b', e1)"
    "file_inv b'" "bf_contents b' = overwrite 4096 (take k (replicate 4096 9)) (bf_contents example_file)"
    "k \<le> 4096" "ok" "quiet e1"
    using file_write_law [OF example_file_inv, of 1 "replicate 4096 9" 1 example_env] q len
    by (auto simp: file_lim_def)
  have len': "length (bf_contents b') = 8192" using w(3,4) len by simp
  obtain ok' buf' b'' e3 where r: "file_read 1 1 (replicate 4096 0) (b', e1) = Inr (ok', buf', b'', e3)" "ok'"
    using file_read_law [OF w(2), of 1 "replicate 4096 0" 1 e1] w(6) len' by (auto simp: file_lim_def)
  show ?thesis
    using file_write_read [OF example_file_inv _ _ _ w(1) r(1)] w(1,5) r len by auto
qed

text \<open>
  C16: \<open>backend_file::cmpwrite\<close> is a compare-and-swap. It never traps on buffers of the right size;
  it changes the file only after all blocks compared equal; on a mismatch or a read error the file
  is untouched, on success exactly the addressed blocks hold the new data; and on every path the
  mutexes it took are released.
\<close>

theorem file_cmpwrite_atomic:
  assumes "file_inv b" and "length dw = unat n * 4096" and "length dc = unat n * 4096"
    and "unat nr * 4096 + unat n * 4096 \<le> length (bf_contents b)"
  shows "\<exists>r b' e'. file_cmpwrite nr n dw dc (b, e) = Inr (r, b', e') \<and> bf_locks b' = no_locks \<and>
    (r = CWR_OK \<longrightarrow> slice (unat nr * 4096) (unat n * 4096) (bf_contents b) = dc \<and>
       bf_contents b' = overwrite (unat nr * 4096) dw (bf_contents b)) \<and>
    (r = CWR_MISMATCH \<longrightarrow> slice (unat nr * 4096) (unat n * 4096) (bf_contents b) \<noteq> dc \<and>
       bf_contents b' = bf_contents b) \<and>
    (r = CWR_READ_ERROR \<longrightarrow> bf_contents b' = bf_contents b) \<and>
    (quiet e \<longrightarrow> r \<noteq> CWR_READ_ERROR \<and> (unat n \<le> file_lim \<longrightarrow> r \<noteq> CWR_WRITE_ERROR))"
  using file_cmpwrite_law [OF assms(1) _ _ assms(4), of dw dc e] assms(2,3)
  by (fastforce simp: file_inv_def)

theorem file_cmpwrite_atomic_witness:
  "\<exists>r b' e'. file_cmpwrite 1 1 (replicate 4096 9) (replicate 4096 7) (example_file, example_env) =
      Inr (r, b', e') \<and> bf_locks b' = no_locks \<and>
    (r = CWR_OK \<longrightarrow> slice 4096 4096 (bf_contents example_file) = replicate 4096 7 \<and>
       bf_contents b' = overwrite 4096 (replicate 4096 9) (bf_contents example_file)) \<and>
    (r = CWR_MISMATCH \<longrightarrow> slice 4096 4096 (bf_contents example_file) \<noteq> replicate 4096 7 \<and>
       bf_contents b' = bf_contents example_file) \<and>
    (r = CWR_READ_ERROR \<longrightarrow> bf_contents b' = bf_contents example_file) \<and>
    (quiet example_env \<longrightarrow> r \<noteq> CWR_READ_ERROR \<and> r \<noteq> CWR_WRITE_ERROR)"
proof -
  have "unat (1 :: u64) * 4096 + unat (1 :: u32) * 4096 \<le> length (bf_contents example_file)"
    by (simp add: example_file_def)
  from file_cmpwrite_atomic [OF example_file_inv _ _ this, of "replicate 4096 9" "replicate 4096 7" example_env]
  show ?thesis by (simp add: file_lim_def del: replicate_eq_replicate)
qed

end
