(* ===== verification/Scsi.thy ===== *)
theory Scsi
  imports Backend_File
begin

text \<open>
  The SCSI layer below the commands (\<^verbatim>\<open>scsi.h\<close>, second half of \<^verbatim>\<open>scsi.cpp\<close>): responses, sense
  data, request validation, the reservation of the device by one connection, and the
  reservation-checked access to the backend with its statistics. Thread ids are numbers; the
  running thread is an argument of the operations that ask for \<open>std::this_thread::get_id()\<close>.
\<close>

section \<open>Types\<close>

datatype iscsi_reacion_t = ir_as_is | ir_empty_sense | ir_r2t

record r2t_session =
  buffer_lba :: u64
  bytes_left :: u32
  bytes_done :: u32
  PDU_initiator :: "byte list option"
  is_write_same :: bool
  write_same_is_unmap :: bool
  fua :: bool

definition r2t_zero :: r2t_session where
  "r2t_zero = \<lparr>buffer_lba = 0, bytes_left = 0, bytes_done = 0, PDU_initiator = None,
     is_write_same = False, write_same_is_unmap = False, fua = False\<rparr>"

record data_descriptor =
  dd_lba :: u64
  dd_n_sectors :: u32

text \<open>
  \<open>r_data\<close> is \<open>io.what.data\<close>: \<open>None\<close> for a null pointer, otherwise the bytes up to \<open>data.second\<close>.
\<close>

record scsi_response =
  r_type :: iscsi_reacion_t
  sense_data :: "byte list"
  data_is_meta :: bool
  amount_of_data_expected :: "u64 option"
  is_inline :: bool
  r_data :: "byte list option"
  r_location :: data_descriptor
  r_r2t :: r2t_session

definition scsi_response_new :: "iscsi_reacion_t \<Rightarrow> scsi_response" where
  "scsi_response_new type_in = \<lparr>r_type = type_in, sense_data = [], data_is_meta = True,
     amount_of_data_expected = None, is_inline = False, r_data = None,
     r_location = \<lparr>dd_lba = 0, dd_n_sectors = 0\<rparr>, r_r2t = r2t_zero\<rparr>"

record io_stats_t =
  n_reads :: u64
  bytes_read :: u64
  n_writes :: u64
  bytes_written :: u64
  n_syncs :: u64
  blocks_trimmed :: u64
  io_wait :: u64

definition io_stats_reset :: io_stats_t where
  "io_stats_reset = \<lparr>n_reads = 0, bytes_read = 0, n_writes = 0, bytes_written = 0, n_syncs = 0,
     blocks_trimmed = 0, io_wait = 0\<rparr>"

definition get_n_iops :: "io_stats_t \<Rightarrow> u64" where
  "get_n_iops ios = n_reads ios + n_writes ios"

datatype scsi_lock_status = l_not_locked | l_locked | l_locked_other

datatype scsi_rw_result = rw_ok | rw_fail_rw | rw_fail_locked | rw_fail_general | rw_fail_mismatch

datatype cdb_size_t = cs_6 | cs_10 | cs_12 | cs_16

text \<open>
  \<open>class scsi\<close> with its backend, the statistics object of the caller and the environment.
\<close>

record 'b scsi_st =
  sc_b :: 'b
  trim_level :: int
  serial :: string
  locked_by :: "nat option"
  sc_is :: io_stats_t
  sc_env :: env

definition scsi_new :: "'b backend_ops \<Rightarrow> 'b \<Rightarrow> int \<Rightarrow> env \<Rightarrow> 'b scsi_st" where
  "scsi_new ops b tlevel e = \<lparr>sc_b = b, trim_level = tlevel, serial = be_get_serial ops b e,
     locked_by = None, sc_is = io_stats_reset, sc_env = e\<rparr>"

section \<open>Sense data\<close>

definition error_reservation_conflict_1 :: "byte list" where
  "error_reservation_conflict_1 = [0x70, 0, 0x06, 0, 0, 0, 0, 0x0a, 0, 0, 0, 0, 0x29, 0, 0, 0, 0, 0]"
definition error_reservation_conflict_2 :: "byte list" where
  "error_reservation_conflict_2 = [0x70, 0, 0x05, 0, 0, 0, 0, 0x0a, 0, 0, 0, 0, 0x2c, 0x09, 0, 0, 0, 0]"
definition error_not_implemented :: "byte list" where
  "error_not_implemented = [0x70, 0, 0x05, 0, 0, 0, 0, 0x0a, 0, 0, 0, 0, 0x20, 0, 0, 0, 0, 0]"
definition error_write_error :: "byte list" where
  "error_write_error = [0x70, 0, 0x03, 0, 0, 0, 0, 0x0a, 0, 0, 0, 0, 0x03, 0, 0, 0, 0, 0]"
definition error_read_error :: "byte list" where
  "error_read_error = [0x70, 0, 0x03, 0, 0, 0, 0, 0x0a, 0, 0, 0, 0, 0x11, 0, 0, 0, 0, 0]"
definition error_compare_and_write_count :: "byte list" where
  "error_compare_and_write_count = [0x70, 0, 0x05, 0, 0, 0, 0, 0x0a, 0, 0, 0, 0, 0x24, 0, 0, 0, 0, 0]"
definition error_out_of_range :: "byte list" where
  "error_out_of_range = [0x70, 0, 0x05, 0, 0, 0, 0, 0x0a, 0, 0, 0, 0, 0x21, 0, 0, 0, 0, 0]"
definition error_miscompare :: "byte list" where
  "error_miscompare = [0x70, 0, 0x0e, 0, 0, 0, 0, 0x0a, 0, 0, 0, 0, 0x1d, 0, 0, 0, 0, 0]"
definition error_invalid_field :: "byte list" where
  "error_invalid_field = [0x70, 0, 0x05, 0, 0, 0, 0, 0x0a, 0, 0, 0, 0, 0x24, 0, 0, 0, 0, 0]"

lemmas sense_defs =
  error_reservation_conflict_1_def error_reservation_conflict_2_def error_not_implemented_def
  error_write_error_def error_read_error_def error_compare_and_write_count_def
  error_out_of_range_def error_miscompare_def error_invalid_field_def

section \<open>Operation codes\<close>

abbreviation (input) o_test_unit_ready :: byte where "o_test_unit_ready \<equiv> 0x00"
abbreviation (input) o_request_sense :: byte where "o_request_sense \<equiv> 0x02"
abbreviation (input) o_read_6 :: byte where "o_read_6 \<equiv> 0x08"
abbreviation (input) o_write_6 :: byte where "o_write_6 \<equiv> 0x0a"
abbreviation (input) o_seek :: byte where "o_seek \<equiv> 0x0b"
abbreviation (input) o_inquiry :: byte where "o_inquiry \<equiv> 0x12"
abbreviation (input) o_reserve_6 :: byte where "o_reserve_6 \<equiv> 0x16"
abbreviation (input) o_release_6 :: byte where "o_release_6 \<equiv> 0x17"
abbreviation (input) o_mode_sense_6 :: byte where "o_mode_sense_6 \<equiv> 0x1a"
abbreviation (input) o_read_capacity_10 :: byte where "o_read_capacity_10 \<equiv> 0x25"
abbreviation (input) o_read_10 :: byte where "o_read_10 \<equiv> 0x28"
abbreviation (input) o_write_10 :: byte where "o_write_10 \<equiv> 0x2a"
abbreviation (input) o_write_verify_10 :: byte where "o_write_verify_10 \<equiv> 0x2e"
abbreviation (input) o_prefetch_10 :: byte where "o_prefetch_10 \<equiv> 0x34"
abbreviation (input) o_sync_cache_10 :: byte where "o_sync_cache_10 \<equiv> 0x35"
abbreviation (input) o_write_same_10 :: byte where "o_write_same_10 \<equiv> 0x41"
abbreviation (input) o_unmap :: byte where "o_unmap \<equiv> 0x42"
abbreviation (input) o_read_16 :: byte where "o_read_16 \<equiv> 0x88"
abbreviation (input) o_compare_and_write :: byte where "o_compare_and_write \<equiv> 0x89"
abbreviation (input) o_write_16 :: byte where "o_write_16 \<equiv> 0x8a"
abbreviation (input) o_prefetch_16 :: byte where "o_prefetch_16 \<equiv> 0x90"
abbreviation (input) o_write_same_16 :: byte where "o_write_same_16 \<equiv> 0x93"
abbreviation (input) o_get_lba_status :: byte where "o_get_lba_status \<equiv> 0x9e"
abbreviation (input) o_report_luns :: byte where "o_report_luns \<equiv> 0xa0"
abbreviation (input) o_rep_sup_oper :: byte where "o_rep_sup_oper \<equiv> 0xa3"
abbreviation (input) o_read_12 :: byte where "o_read_12 \<equiv> 0xa8"
abbreviation (input) o_write_12 :: byte where "o_write_12 \<equiv> 0xaa"

definition MAX_WS_LEN :: nat where "MAX_WS_LEN = 256"
definition MAX_UNMAP_BLOCKS :: u32 where "MAX_UNMAP_BLOCKS = 8192"
definition max_compare_and_write_block_count :: u32 where "max_compare_and_write_block_count = 1"

section \<open>Addresses in a CDB\<close>

definition get_lba_len :: "byte list \<Rightarrow> cdb_size_t \<Rightarrow> u64 \<times> u32" where
  "get_lba_len CDB s = (case s of
     cs_6 \<Rightarrow> (push_bit 16 (ucast (CDB ! 1 AND 31)) OR push_bit 8 (ucast (CDB ! 2)) OR ucast (CDB ! 3),
              if CDB ! 4 = 0 then 256 else ucast (CDB ! 4))
   | cs_10 \<Rightarrow> (ucast (get_uint32_t CDB 2), push_bit 8 (ucast (CDB ! 7)) OR ucast (CDB ! 8))
   | cs_12 \<Rightarrow> (ucast (get_uint32_t CDB 2), get_uint32_t CDB 6)
   | cs_16 \<Rightarrow> (get_uint64_t CDB 2, get_uint32_t CDB 10))"

definition validate_request :: "'b backend_ops \<Rightarrow> 'b \<Rightarrow> u64 \<Rightarrow> u32 \<Rightarrow> byte list option \<Rightarrow> byte list option" where
  "validate_request ops b lba n_blocks CDB =
     (let size_in_blocks = be_get_size_in_blocks ops b
      in if lba > size_in_blocks - ucast n_blocks then Some error_out_of_range
         else if lba + ucast n_blocks < lba then Some error_out_of_range
         else case CDB of None \<Rightarrow> None
         | Some CDB \<Rightarrow>
             (let opcode = CDB ! 0; ws = (opcode = o_write_same_10 \<or> opcode = o_write_same_16)
              in if (opcode = o_read_10 \<or> opcode = o_read_16) \<and> drop_bit 5 (CDB ! 1) \<noteq> 0
                 then Some error_invalid_field
                 else if ws \<and> CDB ! 1 AND 16 = 16 \<and> CDB ! 1 AND 8 = 0 then Some error_invalid_field
                 else if ws \<and> unat n_blocks > MAX_WS_LEN then Some error_invalid_field
                 else if (opcode = o_write_10 \<or> opcode = o_write_16 \<or> opcode = o_write_verify_10 \<or> ws)
                         \<and> drop_bit 5 (CDB ! 1) \<noteq> 0
                 then Some error_invalid_field
                 else None))"

definition validate_request_lba :: "'b backend_ops \<Rightarrow> 'b \<Rightarrow> u64 \<Rightarrow> byte list option" where
  "validate_request_lba ops b lba =
     (if lba \<ge> be_get_size_in_blocks ops b then Some error_out_of_range else None)"

section \<open>Reservation\<close>

definition locking_status :: "nat \<Rightarrow> 'b scsi_st \<Rightarrow> scsi_lock_status" where
  "locking_status tid s = (case locked_by s of None \<Rightarrow> l_not_locked
     | Some t \<Rightarrow> if t = tid then l_locked else l_locked_other)"

definition reserve_device :: "nat \<Rightarrow> 'b scsi_st \<Rightarrow> scsi_lock_status \<times> 'b scsi_st" where
  "reserve_device tid s = (case locked_by s of
     Some t \<Rightarrow> (if t = tid then l_locked else l_locked_other, s)
   | None \<Rightarrow> (l_locked, s\<lparr>locked_by := Some tid\<rparr>))"

definition unlock_device :: "nat \<Rightarrow> 'b scsi_st \<Rightarrow> bool \<times> 'b scsi_st" where
  "unlock_device tid s = (case locked_by s of None \<Rightarrow> (False, s)
     | Some t \<Rightarrow> if t = tid then (True, s\<lparr>locked_by := None\<rparr>) else (False, s))"

section \<open>Access to the backend\<close>

definition sc_micros :: "'b scsi_st \<Rightarrow> u64 \<times> 'b scsi_st" where
  "sc_micros s = (let (t, e) = get_micros (sc_env s) in (t, s\<lparr>sc_env := e\<rparr>))"

definition put_dev :: "'b \<times> env \<Rightarrow> 'b scsi_st \<Rightarrow> 'b scsi_st" where
  "put_dev be s = s\<lparr>sc_b := fst be, sc_env := snd be\<rparr>"

text \<open>\<open>is->io_wait += get_micros() - start\<close>\<close>

definition count_wait :: "u64 \<Rightarrow> 'b scsi_st \<Rightarrow> 'b scsi_st" where
  "count_wait start s = (let (t, s) = sc_micros s
     in s\<lparr>sc_is := (sc_is s)\<lparr>io_wait := io_wait (sc_is s) + (t - start)\<rparr>\<rparr>)"

definition rw_of_bool :: "bool \<Rightarrow> scsi_rw_result" where
  "rw_of_bool r = (if r then rw_ok else rw_fail_general)"

definition scsi_sync :: "'b backend_ops \<Rightarrow> nat \<Rightarrow> 'b scsi_st \<Rightarrow> (scsi_rw_result \<times> 'b scsi_st) result" where
  "scsi_sync ops tid s =
     (if locking_status tid s \<noteq> l_locked_other then
        let (start, s) = sc_micros s
        in bindR (be_sync ops (sc_b s, sc_env s)) (\<lambda>(result, be).
           let s = put_dev be s;
               s = s\<lparr>sc_is := (sc_is s)\<lparr>n_syncs := n_syncs (sc_is s) + 1\<rparr>\<rparr>
           in Inr (rw_of_bool result, count_wait start s))
      else Inr (rw_fail_locked, s))"

text \<open>The zero test of \<open>scsi::write\<close> at trim level 2, block by block.\<close>

fun is_zero_loop :: "nat \<Rightarrow> nat \<Rightarrow> nat \<Rightarrow> byte list \<Rightarrow> bool result" where
  "is_zero_loop i 0 bs data = Inr True"
| "is_zero_loop i (Suc left) bs data =
     (if length data < (i + 1) * bs then Inl Mem_oob
      else if slice (i * bs) bs data \<noteq> replicate bs 0 then Inr False
      else is_zero_loop (i + 1) left bs data)"

definition scsi_write :: "'b backend_ops \<Rightarrow> nat \<Rightarrow> u64 \<Rightarrow> u32 \<Rightarrow> byte list \<Rightarrow> 'b scsi_st
    \<Rightarrow> (scsi_rw_result \<times> 'b scsi_st) result" where
  "scsi_write ops tid block_nr n_blocks data s =
     (let ios = sc_is s;
          s = s\<lparr>sc_is := ios\<lparr>n_writes := n_writes ios + 1,
                 bytes_written := bytes_written ios + ucast n_blocks * be_get_block_size ops (sc_b s)\<rparr>\<rparr>
      in if locking_status tid s \<noteq> l_locked_other then
           let (start, s) = sc_micros s
           in bindR (if trim_level s = 2
                     then bindR (is_zero_loop 0 (unat n_blocks) (unat (be_get_block_size ops (sc_b s))) data)
                            (\<lambda>is_zero. if is_zero then be_trim ops block_nr n_blocks (sc_b s, sc_env s)
                               else be_write ops block_nr n_blocks data (sc_b s, sc_env s))
                     else be_write ops block_nr n_blocks data (sc_b s, sc_env s)) (\<lambda>(result, be).
              Inr (rw_of_bool result, count_wait start (put_dev be s)))
         else Inr (rw_fail_locked, s))"

text \<open>Trim level 0: the blocks are overwritten with zeros, one at a time.\<close>

fun trim_zero_loop :: "'b backend_ops \<Rightarrow> nat \<Rightarrow> u64 \<Rightarrow> nat \<Rightarrow> byte list \<Rightarrow> 'b scsi_st
    \<Rightarrow> (scsi_rw_result \<times> 'b scsi_st) result" where
  "trim_zero_loop ops tid block_nr 0 zero s = Inr (rw_ok, s)"
| "trim_zero_loop ops tid block_nr (Suc left) zero s =
     bindR (scsi_write ops tid block_nr 1 zero s) (\<lambda>(rc, s).
     if rc \<noteq> rw_ok then Inr (rc, s) else trim_zero_loop ops tid (block_nr + 1) left zero s)"

definition scsi_trim :: "'b backend_ops \<Rightarrow> nat \<Rightarrow> u64 \<Rightarrow> u32 \<Rightarrow> 'b scsi_st
    \<Rightarrow> (scsi_rw_result \<times> 'b scsi_st) result" where
  "scsi_trim ops tid block_nr n_blocks s =
     (if locking_status tid s \<noteq> l_locked_other then
        let s = s\<lparr>sc_is := (sc_is s)\<lparr>blocks_trimmed := blocks_trimmed (sc_is s) + ucast n_blocks\<rparr>\<rparr>;
            (start, s) = sc_micros s
        in if trim_level s = 0 then
             bindR (trim_zero_loop ops tid block_nr (unat n_blocks)
                      (replicate (unat (be_get_block_size ops (sc_b s))) 0) s) (\<lambda>(rc, s).
             Inr (rc, count_wait start s))
           else
             bindR (be_trim ops block_nr n_blocks (sc_b s, sc_env s)) (\<lambda>(result, be).
             Inr (rw_of_bool result, count_wait start (put_dev be s)))
      else Inr (rw_fail_locked, s))"

definition scsi_read :: "'b backend_ops \<Rightarrow> nat \<Rightarrow> u64 \<Rightarrow> u32 \<Rightarrow> byte list \<Rightarrow> 'b scsi_st
    \<Rightarrow> (scsi_rw_result \<times> byte list \<times> 'b scsi_st) result" where
  "scsi_read ops tid block_nr n_blocks data s =
     (let ios = sc_is s;
          s = s\<lparr>sc_is := ios\<lparr>n_reads := n_reads ios + 1,
                 bytes_read := bytes_read ios + ucast n_blocks * be_get_block_size ops (sc_b s)\<rparr>\<rparr>
      in if locking_status tid s \<noteq> l_locked_other then
           let (start, s) = sc_micros s
           in bindR (be_read ops block_nr n_blocks data (sc_b s, sc_env s)) (\<lambda>(result, data, be).
              Inr (rw_of_bool result, data, count_wait start (put_dev be s)))
         else Inr (rw_fail_locked, data, s))"

definition rw_of_cmpwrite :: "cmpwrite_result_t \<Rightarrow> scsi_rw_result" where
  "rw_of_cmpwrite r = (case r of CWR_OK \<Rightarrow> rw_ok | CWR_MISMATCH \<Rightarrow> rw_fail_mismatch
     | CWR_READ_ERROR \<Rightarrow> rw_fail_rw | CWR_WRITE_ERROR \<Rightarrow> rw_fail_rw)"

definition scsi_cmpwrite :: "'b backend_ops \<Rightarrow> nat \<Rightarrow> u64 \<Rightarrow> u32 \<Rightarrow> byte list \<Rightarrow> byte list \<Rightarrow> 'b scsi_st
    \<Rightarrow> (scsi_rw_result \<times> 'b scsi_st) result" where
  "scsi_cmpwrite ops tid block_nr n_blocks write_data compare_data s =
     (let ios = sc_is s; n = ucast n_blocks * be_get_block_size ops (sc_b s);
          s = s\<lparr>sc_is := ios\<lparr>n_reads := n_reads ios + 1, n_writes := n_writes ios + 1,
                 bytes_read := bytes_read ios + n, bytes_written := bytes_written ios + n\<rparr>\<rparr>
      in if locking_status tid s \<noteq> l_locked_other then
           let (start, s) = sc_micros s
           in bindR (be_cmpwrite ops block_nr n_blocks write_data compare_data (sc_b s, sc_env s)) (\<lambda>(result, be).
              Inr (rw_of_cmpwrite result, count_wait start (put_dev be s)))
         else Inr (rw_fail_locked, s))"

section \<open>Lemmas on the access functions\<close>

lemma sc_micros_eq: "sc_micros s = (fst (get_micros (sc_env s)), s\<lparr>sc_env := snd (get_micros (sc_env s))\<rparr>)"
  by (simp add: sc_micros_def split: prod.split)

lemma count_wait_sel [simp]:
  "sc_b (count_wait t s) = sc_b s" "locked_by (count_wait t s) = locked_by s"
  "trim_level (count_wait t s) = trim_level s" "serial (count_wait t s) = serial s"
  "quiet (sc_env (count_wait t s)) = quiet (sc_env s)"
  by (simp_all add: count_wait_def sc_micros_eq)

lemma put_dev_sel [simp]:
  "sc_b (put_dev be s) = fst be" "sc_env (put_dev be s) = snd be" "locked_by (put_dev be s) = locked_by s"
  "trim_level (put_dev be s) = trim_level s" "serial (put_dev be s) = serial s"
  by (simp_all add: put_dev_def)

lemma locking_status_cong [simp]:
  "locking_status tid (s\<lparr>sc_is := i\<rparr>) = locking_status tid s"
  "locking_status tid (s\<lparr>sc_env := e\<rparr>) = locking_status tid s"
  by (simp_all add: locking_status_def)

lemma locking_status_other:
  "locking_status tid s = l_locked_other \<longleftrightarrow> (\<exists>t. locked_by s = Some t \<and> t \<noteq> tid)"
  by (auto simp: locking_status_def split: option.splits)

text \<open>What no access function changes: who holds the reservation, the trim level, the serial.\<close>

definition same_cfg :: "'b scsi_st \<Rightarrow> 'b scsi_st \<Rightarrow> bool" where
  "same_cfg s s' \<longleftrightarrow> locked_by s' = locked_by s \<and> trim_level s' = trim_level s \<and> serial s' = serial s"

lemma same_cfg_refl [simp]: "same_cfg s s"
  by (simp add: same_cfg_def)

lemma same_cfg_trans: "same_cfg s t \<Longrightarrow> same_cfg t u \<Longrightarrow> same_cfg s u"
  by (simp add: same_cfg_def)

lemma same_cfg_locking: "same_cfg s s' \<Longrightarrow> locking_status tid s' = locking_status tid s"
  by (simp add: same_cfg_def locking_status_def)

lemma same_cfg_upd [simp]:
  "same_cfg s (s'\<lparr>sc_is := i\<rparr>) = same_cfg s s'" "same_cfg s (s'\<lparr>sc_env := e\<rparr>) = same_cfg s s'"
  "same_cfg s (count_wait t s') = same_cfg s s'" "same_cfg s (put_dev be s') = same_cfg s s'"
  "same_cfg (s\<lparr>sc_is := i\<rparr>) s' = same_cfg s s'" "same_cfg (s\<lparr>sc_env := e\<rparr>) s' = same_cfg s s'"
  by (simp_all add: same_cfg_def)

lemmas access_defs = scsi_sync_def scsi_write_def scsi_trim_def scsi_read_def scsi_cmpwrite_def

text \<open>A connection that does not hold the reservation gets \<open>rw_fail_locked\<close> and does not reach the backend.\<close>

lemma locked_out:
  assumes "locking_status tid s = l_locked_other"
  shows "scsi_sync ops tid s = Inr (rw_fail_locked, s)"
    and "scsi_trim ops tid nr n s = Inr (rw_fail_locked, s)"
    and "\<exists>i. scsi_write ops tid nr n data s = Inr (rw_fail_locked, s\<lparr>sc_is := i\<rparr>)"
    and "\<exists>i. scsi_read ops tid nr n data s = Inr (rw_fail_locked, data, s\<lparr>sc_is := i\<rparr>)"
    and "\<exists>i. scsi_cmpwrite ops tid nr n dw dc s = Inr (rw_fail_locked, s\<lparr>sc_is := i\<rparr>)"
  using assms by (simp_all add: access_defs Let_def) blast+

lemma access_cfg:
  "scsi_sync ops tid s = Inr (rc, s') \<Longrightarrow> same_cfg s s'"
  "scsi_write ops tid nr n data s = Inr (rc, s') \<Longrightarrow> same_cfg s s'"
  "scsi_read ops tid nr n data s = Inr (rc, data', s') \<Longrightarrow> same_cfg s s'"
  "scsi_cmpwrite ops tid nr n dw dc s = Inr (rc, s') \<Longrightarrow> same_cfg s s'"
  by (auto simp: access_defs Let_def sc_micros_eq bindR_Inr_iff split: if_splits)

lemma trim_zero_loop_cfg: "trim_zero_loop ops tid nr k zero s = Inr (rc, s') \<Longrightarrow> same_cfg s s'"
proof (induction k arbitrary: nr s)
  case (Suc k)
  then show ?case
    by (auto simp: bindR_Inr_iff split: if_splits dest!: access_cfg(2) intro: same_cfg_trans)
qed simp

lemma scsi_trim_cfg: "scsi_trim ops tid nr n s = Inr (rc, s') \<Longrightarrow> same_cfg s s'"
  by (auto simp: scsi_trim_def Let_def sc_micros_eq bindR_Inr_iff split: if_splits
      dest!: trim_zero_loop_cfg)

section \<open>Validation\<close>

lemma validate_range:
  assumes "unat n \<le> unat (be_get_size_in_blocks ops b)"
  shows "validate_request ops b lba n None =
    (if unat lba + unat n \<le> unat (be_get_size_in_blocks ops b) then None else Some error_out_of_range)"
proof -
  define sz where "sz = be_get_size_in_blocks ops b"
  have u: "unat (ucast n :: u64) = unat n" by simp
  have "unat (sz - ucast n) = unat sz - unat n"
    using assms by (simp add: sz_def unat_sub word_le_nat_alt)
  then have 1: "lba > sz - ucast n \<longleftrightarrow> unat sz < unat lba + unat n"
    using assms by (auto simp: word_less_nat_alt sz_def)
  have 2: "\<not> lba + ucast n < lba" if "unat lba + unat n \<le> unat sz"
  proof -
    have "unat sz < 2 ^ 64" using unsigned_less [of sz, where 'a = nat] by simp
    then have "unat (lba + ucast n) = unat lba + unat n"
      using that by (subst unat_add_u64) simp_all
    then show ?thesis by (simp add: word_less_nat_alt)
  qed
  show ?thesis using 1 2 by (auto simp: validate_request_def Let_def sz_def)
qed

lemma validate_range_cdb: "validate_request ops b lba n CDB = None \<Longrightarrow> validate_request ops b lba n None = None"
  by (auto simp: validate_request_def Let_def split: if_splits)

text \<open>
  For a request of at most as many blocks as the device has, \<open>validate_request\<close> accepts the
  range exactly when it lies on the device; an accepted range can be handed to the backend.
\<close>

theorem validate_request_range:
  assumes "unat n \<le> unat (be_get_size_in_blocks ops b)"
  shows "validate_request ops b lba n None =
    (if unat lba + unat n \<le> unat (be_get_size_in_blocks ops b) then None else Some error_out_of_range)"
  using assms by (rule validate_range)

lemma example_size: "file_get_size_in_blocks example_file = 2"
  using file_size_law [OF example_file_inv] by (simp add: example_file_def)

theorem validate_request_range_witness:
  "validate_request file_ops example_file 1 1 None =
     (if unat (1 :: u64) + unat (1 :: u32) \<le> unat (be_get_size_in_blocks file_ops example_file)
      then None else Some error_out_of_range) \<and>
   validate_request file_ops example_file 1 2 None =
     (if unat (1 :: u64) + unat (2 :: u32) \<le> unat (be_get_size_in_blocks file_ops example_file)
      then None else Some error_out_of_range)"
  by (intro conjI validate_request_range) (simp_all add: example_size)

text \<open>
  The subtraction \<open>size_in_blocks - n_blocks\<close> wraps when more blocks are requested than the
  device has. Every such request whose end does not wrap around 64 bits passes the range check,
  although no such range lies on the device.
\<close>

theorem validate_request_accepts_oversize:
  assumes "unat (be_get_size_in_blocks ops b) < unat n" and "unat lba + unat n < 2 ^ 64"
  shows "validate_request ops b lba n None = None"
proof -
  define sz where "sz = be_get_size_in_blocks ops b"
  have n: "unat (ucast n :: u64) = unat n" "unat n < 2 ^ 32"
    using unsigned_less [of n, where 'a = nat] by simp_all
  have "unat (sz - ucast n) = unat sz + 2 ^ 64 - unat n"
    using assms(1) n by (simp add: sz_def unat_sub_if_size word_size)
  then have "\<not> lba > sz - ucast n" using assms by (simp add: word_less_nat_alt)
  moreover have "unat (lba + ucast n) = unat lba + unat n"
    using assms(2) by (subst unat_add_u64) simp_all
  then have "\<not> lba + ucast n < lba" by (simp add: word_less_nat_alt)
  ultimately show ?thesis by (simp add: validate_request_def Let_def sz_def)
qed

theorem validate_request_accepts_oversize_witness:
  "validate_request file_ops example_file 100 4096 None = None"
  by (rule validate_request_accepts_oversize) (simp_all add: example_size)

section \<open>The access functions over a block device\<close>

lemma is_zero_loop_spec:
  "(i + left) * bs \<le> length data \<Longrightarrow>
   is_zero_loop i left bs data = Inr (slice (i * bs) (left * bs) data = replicate (left * bs) 0)"
proof (induction left arbitrary: i)
  case (Suc left)
  have l: "i * bs + bs \<le> length data" "(i + 1) * bs \<le> length data" "(i + 1 + left) * bs \<le> length data"
    using Suc.prems by (auto simp: algebra_simps)
  have z: "replicate (Suc left * bs) 0 = replicate bs 0 @ replicate (left * bs) (0 :: byte)"
    by (simp add: replicate_add)
  have "slice (i * bs) (Suc left * bs) data = slice (i * bs) bs data @ slice ((i + 1) * bs) (left * bs) data"
    by (simp add: slice_append_split algebra_simps)
  then have "slice (i * bs) (Suc left * bs) data = replicate (Suc left * bs) 0 \<longleftrightarrow>
      slice (i * bs) bs data = replicate bs 0 \<and> slice ((i + 1) * bs) (left * bs) data = replicate (left * bs) 0"
    unfolding z using l(1) by (simp add: append_eq_append_conv)
  then show ?case using Suc.IH [OF l(3)] l by auto
qed simp

context block_storage
begin

definition on_disk :: "u64 \<Rightarrow> u32 \<Rightarrow> 'b \<Rightarrow> bool" where
  "on_disk nr n b \<longleftrightarrow> unat nr * bsz + unat n * bsz \<le> length (disk b)"

lemma unat_block_size: "inv b \<Longrightarrow> unat (be_get_block_size ops b) = bsz"
  using bsz_lt by (simp add: block_size unat_of_nat)

lemma unat_size: "inv b \<Longrightarrow> unat (be_get_size_in_blocks ops b) = length (disk b) div bsz"
proof -
  assume i: "inv b"
  have "length (disk b) div bsz < 2 ^ 63"
    using div_le_dividend disk_lt [OF i] by (rule le_less_trans)
  then show ?thesis by (simp add: size_in_blocks [OF i] unat_of_nat)
qed

lemma on_disk_iff: "inv b \<Longrightarrow> on_disk nr n b \<longleftrightarrow> unat nr + unat n \<le> unat (be_get_size_in_blocks ops b)"
  using bsz_pos by (simp add: on_disk_def unat_size less_eq_div_iff_mult_less_eq algebra_simps)

lemma write_or_trim_law:
  assumes "inv b" and "unat n * bsz \<le> length data" and "on_disk nr n b"
    and "slice 0 (unat n * bsz) data = replicate (unat n * bsz) 0"
  shows "\<exists>k ok b' e'. be_trim ops nr n (b, e) = Inr (ok, b', e') \<and> inv b' \<and> k \<le> unat n * bsz \<and>
    disk b' = overwrite (unat nr * bsz) (take k data) (disk b) \<and> (ok \<longrightarrow> k = unat n * bsz) \<and>
    (quiet e \<longrightarrow> quiet e' \<and> (0 < n \<longrightarrow> ok))"
proof -
  obtain ok b' e' where t: "be_trim ops nr n (b, e) = Inr (ok, b', e')" "inv b'"
    "disk b' = (if ok then overwrite (unat nr * bsz) (replicate (unat n * bsz) 0) (disk b) else disk b)"
    "quiet e \<longrightarrow> quiet e' \<and> (0 < n \<longrightarrow> ok)"
    using trim_law [OF assms(1), of nr n e] assms(3) unfolding on_disk_def by blast
  have "take (unat n * bsz) data = replicate (unat n * bsz) 0" using assms(4) by (simp add: slice_def)
  then have "disk b' = overwrite (unat nr * bsz) (take (if ok then unat n * bsz else 0) data) (disk b)"
    using t(3) by simp
  then show ?thesis using t by (intro exI [of _ "if ok then unat n * bsz else 0"]) auto
qed

lemma scsi_write_law:
  assumes "inv (sc_b s)" and "unat n * bsz \<le> length data" and "on_disk nr n (sc_b s)"
    and "locking_status tid s \<noteq> l_locked_other"
  shows "\<exists>k ok s'. scsi_write ops tid nr n data s = Inr (rw_of_bool ok, s') \<and> inv (sc_b s') \<and> same_cfg s s' \<and>
    k \<le> unat n * bsz \<and> disk (sc_b s') = overwrite (unat nr * bsz) (take k data) (disk (sc_b s)) \<and>
    (ok \<longrightarrow> k = unat n * bsz) \<and>
    (quiet (sc_env s) \<longrightarrow> quiet (sc_env s') \<and> (0 < n \<and> unat n \<le> lim \<longrightarrow> ok))"
proof -
  define e where "e = snd (get_micros (sc_env s))"
  define run where "run = (if trim_level s = 2 \<and> slice 0 (unat n * bsz) data = replicate (unat n * bsz) 0
      then be_trim ops nr n (sc_b s, e) else be_write ops nr n data (sc_b s, e))"
  have z: "is_zero_loop 0 (unat n) bsz data = Inr (slice 0 (unat n * bsz) data = replicate (unat n * bsz) 0)"
    using is_zero_loop_spec [of 0 "unat n" bsz data] assms(2) by simp
  have "\<exists>k ok b' e'. run = Inr (ok, b', e') \<and> inv b' \<and> k \<le> unat n * bsz \<and>
    disk b' = overwrite (unat nr * bsz) (take k data) (disk (sc_b s)) \<and> (ok \<longrightarrow> k = unat n * bsz) \<and>
    (quiet e \<longrightarrow> quiet e' \<and> (0 < n \<and> unat n \<le> lim \<longrightarrow> ok))"
    using write_or_trim_law [OF assms(1-3), of e] write_law [OF assms(1,2) assms(3) [unfolded on_disk_def], of e]
    unfolding run_def by (cases "trim_level s = 2 \<and> slice 0 (unat n * bsz) data = replicate (unat n * bsz) 0") auto
  then obtain k ok b' e' where r: "run = Inr (ok, b', e')" "inv b'" "k \<le> unat n * bsz"
    "disk b' = overwrite (unat nr * bsz) (take k data) (disk (sc_b s))" "ok \<longrightarrow> k = unat n * bsz"
    "quiet e \<longrightarrow> quiet e' \<and> (0 < n \<and> unat n \<le> lim \<longrightarrow> ok)"
    by blast
  have "\<exists>i t. scsi_write ops tid nr n data s =
      bindR run (\<lambda>(result, be). Inr (rw_of_bool result, count_wait t (put_dev be (s\<lparr>sc_is := i, sc_env := e\<rparr>))))"
    using assms(4) by (auto simp: scsi_write_def Let_def sc_micros_eq unat_block_size [OF assms(1)] z run_def e_def)
  then obtain i t where w: "scsi_write ops tid nr n data s =
      Inr (rw_of_bool ok, count_wait t (put_dev (b', e') (s\<lparr>sc_is := i, sc_env := e\<rparr>)))"
    using r(1) by auto
  have "quiet e = quiet (sc_env s)" by (simp add: e_def)
  then show ?thesis
    using r w by (intro exI [of _ k] exI [of _ ok]
        exI [of _ "count_wait t (put_dev (b', e') (s\<lparr>sc_is := i, sc_env := e\<rparr>))"]) auto
qed

lemma validated_on_disk:
  assumes "inv b" and "validate_request ops b nr n CDB = None" and "unat n \<le> unat (be_get_size_in_blocks ops b)"
  shows "on_disk nr n b"
  using validate_range [OF assms(3), of nr] validate_range_cdb [OF assms(2)] on_disk_iff [OF assms(1)]
  by (auto split: if_splits)

lemma scsi_sync_law:
  assumes "inv (sc_b s)"
  shows "\<exists>rc s'. scsi_sync ops tid s = Inr (rc, s') \<and> inv (sc_b s') \<and> same_cfg s s' \<and>
    disk (sc_b s') = disk (sc_b s) \<and> (quiet (sc_env s) \<longrightarrow> quiet (sc_env s'))"
proof (cases "locking_status tid s = l_locked_other")
  case True
  then show ?thesis using assms by (simp add: scsi_sync_def)
next
  case False
  obtain ok b' e' where "be_sync ops (sc_b s, snd (get_micros (sc_env s))) = Inr (ok, b', e')" "inv b'"
    "disk b' = disk (sc_b s)" "quiet (snd (get_micros (sc_env s))) \<longrightarrow> ok \<and> quiet e'"
    using sync_law [OF assms] by blast
  then show ?thesis using False by (simp add: scsi_sync_def Let_def sc_micros_eq)
qed

lemma scsi_read_law:
  assumes "inv (sc_b s)" and "unat n * bsz \<le> length buf" and "on_disk nr n (sc_b s)"
    and "locking_status tid s \<noteq> l_locked_other"
  shows "\<exists>ok buf' s'. scsi_read ops tid nr n buf s = Inr (rw_of_bool ok, buf', s') \<and> inv (sc_b s') \<and>
    same_cfg s s' \<and> disk (sc_b s') = disk (sc_b s) \<and> length buf' = length buf \<and>
    (ok \<longrightarrow> buf' = overwrite 0 (slice (unat nr * bsz) (unat n * bsz) (disk (sc_b s))) buf) \<and>
    (quiet (sc_env s) \<longrightarrow> quiet (sc_env s') \<and> (unat n \<le> lim \<longrightarrow> ok))"
proof -
  define e where "e = snd (get_micros (sc_env s))"
  have q: "quiet e = quiet (sc_env s)" by (simp add: e_def)
  obtain ok buf' b' e' where r: "be_read ops nr n buf (sc_b s, e) = Inr (ok, buf', b', e')" "inv b'"
    "disk b' = disk (sc_b s)" "length buf' = length buf"
    "ok \<longrightarrow> buf' = overwrite 0 (slice (unat nr * bsz) (unat n * bsz) (disk (sc_b s))) buf"
    "quiet e \<longrightarrow> quiet e' \<and> (unat n \<le> lim \<longrightarrow> ok)"
    using read_law [OF assms(1,2) assms(3) [unfolded on_disk_def], of e] by blast
  have "\<exists>s'. scsi_read ops tid nr n buf s = Inr (rw_of_bool ok, buf', s') \<and> sc_b s' = b' \<and>
      same_cfg s s' \<and> quiet (sc_env s') = quiet e'"
    using assms(4) r(1) by (simp add: scsi_read_def Let_def sc_micros_eq e_def)
  then show ?thesis using r q by metis
qed

lemma trim_zero_loop_law:
  assumes "inv (sc_b s)" and "unat nr * bsz + k * bsz \<le> length (disk (sc_b s))"
    and "locking_status tid s \<noteq> l_locked_other"
  shows "\<exists>j ok s'. trim_zero_loop ops tid nr k (replicate bsz 0) s = Inr (rw_of_bool ok, s') \<and>
    inv (sc_b s') \<and> same_cfg s s' \<and> j \<le> k * bsz \<and>
    disk (sc_b s') = overwrite (unat nr * bsz) (replicate j 0) (disk (sc_b s)) \<and> (ok \<longrightarrow> j = k * bsz) \<and>
    (quiet (sc_env s) \<longrightarrow> quiet (sc_env s') \<and> ok)"
  using assms
proof (induction k arbitrary: nr s)
  case 0
  then show ?case by (intro exI [of _ 0] exI [of _ True] exI [of _ s]) (simp add: rw_of_bool_def)
next
  case (Suc k)
  have od: "on_disk nr 1 (sc_b s)" using Suc.prems(2) by (simp add: on_disk_def)
  obtain j ok s1 where w: "scsi_write ops tid nr 1 (replicate bsz 0) s = Inr (rw_of_bool ok, s1)" "inv (sc_b s1)"
    "same_cfg s s1" "j \<le> bsz" "disk (sc_b s1) = overwrite (unat nr * bsz) (replicate j 0) (disk (sc_b s))"
    "ok \<longrightarrow> j = bsz" "quiet (sc_env s) \<longrightarrow> quiet (sc_env s1) \<and> ok"
    using scsi_write_law [OF Suc.prems(1) _ od Suc.prems(3), of "replicate bsz 0"] lim_pos
    by (auto simp: min_def split: if_splits)
  show ?case
  proof (cases ok)
    case False
    then show ?thesis using w by (intro exI [of _ j] exI [of _ False] exI [of _ s1]) (auto simp: rw_of_bool_def)
  next
    case True
    have "length (disk (sc_b s)) < 2 ^ 63" by (rule disk_lt [OF Suc.prems(1)])
    moreover have "unat nr * 1 \<le> unat nr * bsz" using bsz_pos by (intro mult_le_mono) auto
    ultimately have "unat nr < 2 ^ 63" using Suc.prems(2) by linarith
    then have "unat (nr + 1) = unat nr + 1" by (subst unat_add_u64) simp_all
    then have off: "unat (nr + 1) * bsz = unat nr * bsz + bsz" by simp
    have len: "length (disk (sc_b s1)) = length (disk (sc_b s))" using w(4,5) Suc.prems(2) by simp
    have room: "unat (nr + 1) * bsz + k * bsz \<le> length (disk (sc_b s1))" using Suc.prems(2) off len by simp
    have lock: "locking_status tid s1 \<noteq> l_locked_other"
      using Suc.prems(3) same_cfg_locking [OF w(3)] by simp
    obtain j' ok' s2 where i: "trim_zero_loop ops tid (nr + 1) k (replicate bsz 0) s1 = Inr (rw_of_bool ok', s2)"
      "inv (sc_b s2)" "same_cfg s1 s2" "j' \<le> k * bsz"
      "disk (sc_b s2) = overwrite (unat (nr + 1) * bsz) (replicate j' 0) (disk (sc_b s1))"
      "ok' \<longrightarrow> j' = k * bsz" "quiet (sc_env s1) \<longrightarrow> quiet (sc_env s2) \<and> ok'"
      using Suc.IH [OF w(2) room lock] by blast
    have "disk (sc_b s2) = overwrite (unat nr * bsz) (replicate (bsz + j') 0) (disk (sc_b s))"
      unfolding i(5) off using w(5,6) True i(4) Suc.prems(2)
      by (simp add: replicate_add overwrite_split)
    moreover have "trim_zero_loop ops tid nr (Suc k) (replicate bsz 0) s = Inr (rw_of_bool ok', s2)"
      using w(1) i(1) True by (simp add: rw_of_bool_def)
    ultimately show ?thesis using i w True
      by (intro exI [of _ "bsz + j'"] exI [of _ ok'] exI [of _ s2]) (auto intro: same_cfg_trans)
  qed
qed

lemma scsi_trim_law:
  assumes "inv (sc_b s)" and "on_disk nr n (sc_b s)" and "locking_status tid s \<noteq> l_locked_other"
  shows "\<exists>j ok s'. scsi_trim ops tid nr n s = Inr (rw_of_bool ok, s') \<and> inv (sc_b s') \<and> same_cfg s s' \<and>
    j \<le> unat n * bsz \<and> disk (sc_b s') = overwrite (unat nr * bsz) (replicate j 0) (disk (sc_b s)) \<and>
    (ok \<longrightarrow> j = unat n * bsz) \<and> (quiet (sc_env s) \<longrightarrow> quiet (sc_env s') \<and> (0 < n \<longrightarrow> ok))"
proof -
  define e where "e = snd (get_micros (sc_env s))"
  define i where "i = (sc_is s)\<lparr>blocks_trimmed := blocks_trimmed (sc_is s) + ucast n\<rparr>"
  define s0 where "s0 = s\<lparr>sc_is := i, sc_env := e\<rparr>"
  have s0: "sc_b s0 = sc_b s" "same_cfg s s0" "quiet (sc_env s0) = quiet (sc_env s)" "quiet e = quiet (sc_env s)"
    by (simp_all add: s0_def e_def)
  show ?thesis
  proof (cases "trim_level s = 0")
    case True
    obtain j ok s1 where l: "trim_zero_loop ops tid nr (unat n) (replicate bsz 0) s0 = Inr (rw_of_bool ok, s1)"
      "inv (sc_b s1)" "same_cfg s0 s1" "j \<le> unat n * bsz"
      "disk (sc_b s1) = overwrite (unat nr * bsz) (replicate j 0) (disk (sc_b s))" "ok \<longrightarrow> j = unat n * bsz"
      "quiet (sc_env s) \<longrightarrow> quiet (sc_env s1) \<and> ok"
      using trim_zero_loop_law [of s0 nr "unat n" tid] assms s0 same_cfg_locking [OF s0(2)]
      by (auto simp: on_disk_def)
    have "\<exists>t. scsi_trim ops tid nr n s = Inr (rw_of_bool ok, count_wait t s1)"
      using l(1) assms True
      by (auto simp: scsi_trim_def Let_def sc_micros_eq unat_block_size s0_def e_def i_def)
    then obtain t where "scsi_trim ops tid nr n s = Inr (rw_of_bool ok, count_wait t s1)" ..
    then show ?thesis using l s0
      by (intro exI [of _ j] exI [of _ ok] exI [of _ "count_wait t s1"]) (auto intro: same_cfg_trans)
  next
    case False
    obtain ok b' e' where t: "be_trim ops nr n (sc_b s, e) = Inr (ok, b', e')" "inv b'"
      "disk b' = (if ok then overwrite (unat nr * bsz) (replicate (unat n * bsz) 0) (disk (sc_b s)) else disk (sc_b s))"
      "quiet e \<longrightarrow> quiet e' \<and> (0 < n \<longrightarrow> ok)"
      using trim_law [OF assms(1) assms(2) [unfolded on_disk_def], of e] by blast
    have "\<exists>t. scsi_trim ops tid nr n s = Inr (rw_of_bool ok, count_wait t (put_dev (b', e') s0))"
      using t(1) assms(3) False by (auto simp: scsi_trim_def Let_def sc_micros_eq s0_def e_def i_def)
    then obtain u where "scsi_trim ops tid nr n s = Inr (rw_of_bool ok, count_wait u (put_dev (b', e') s0))" ..
    then show ?thesis using t s0
      by (intro exI [of _ "if ok then unat n * bsz else 0"] exI [of _ ok]
          exI [of _ "count_wait u (put_dev (b', e') s0)"]) auto
  qed
qed

end

context block_device
begin

lemma scsi_cmpwrite_law:
  assumes "inv (sc_b s)" and "unat n * bsz \<le> length dw" and "unat n * bsz \<le> length dc"
    and "on_disk nr n (sc_b s)" and "locking_status tid s \<noteq> l_locked_other"
  shows "\<exists>k r s'. scsi_cmpwrite ops tid nr n dw dc s = Inr (rw_of_cmpwrite r, s') \<and> inv (sc_b s') \<and> same_cfg s s' \<and>
    disk (sc_b s') = overwrite (unat nr * bsz) (take k dw) (disk (sc_b s)) \<and> k \<le> unat n * bsz \<and>
    (r = CWR_OK \<longrightarrow> k = unat n * bsz) \<and> (r \<in> {CWR_MISMATCH, CWR_READ_ERROR} \<longrightarrow> k = 0) \<and>
    (r \<in> {CWR_OK, CWR_WRITE_ERROR} \<longrightarrow>
       slice (unat nr * bsz) (unat n * bsz) (disk (sc_b s)) = take (unat n * bsz) dc) \<and>
    (r = CWR_MISMATCH \<longrightarrow> slice (unat nr * bsz) (unat n * bsz) (disk (sc_b s)) \<noteq> take (unat n * bsz) dc) \<and>
    (quiet (sc_env s) \<longrightarrow> quiet (sc_env s') \<and> r \<noteq> CWR_READ_ERROR \<and> (unat n \<le> lim \<longrightarrow> r \<noteq> CWR_WRITE_ERROR))"
proof -
  define e where "e = snd (get_micros (sc_env s))"
  have q: "quiet e = quiet (sc_env s)" by (simp add: e_def)
  obtain k r b' e' where c: "be_cmpwrite ops nr n dw dc (sc_b s, e) = Inr (r, b', e')" "inv b'"
    "disk b' = overwrite (unat nr * bsz) (take k dw) (disk (sc_b s))" "k \<le> unat n * bsz"
    "r = CWR_OK \<longrightarrow> k = unat n * bsz" "r \<in> {CWR_MISMATCH, CWR_READ_ERROR} \<longrightarrow> k = 0"
    "r \<in> {CWR_OK, CWR_WRITE_ERROR} \<longrightarrow>
       slice (unat nr * bsz) (unat n * bsz) (disk (sc_b s)) = take (unat n * bsz) dc"
    "r = CWR_MISMATCH \<longrightarrow> slice (unat nr * bsz) (unat n * bsz) (disk (sc_b s)) \<noteq> take (unat n * bsz) dc"
    "quiet e \<longrightarrow> quiet e' \<and> r \<noteq> CWR_READ_ERROR \<and> (unat n \<le> lim \<longrightarrow> r \<noteq> CWR_WRITE_ERROR)"
    using cmpwrite_law [OF assms(1-3) assms(4) [unfolded on_disk_def], of e] by blast
  have "\<exists>s'. scsi_cmpwrite ops tid nr n dw dc s = Inr (rw_of_cmpwrite r, s') \<and> sc_b s' = b' \<and>
      same_cfg s s' \<and> quiet (sc_env s') = quiet e'"
    using assms(5) c(1) by (simp add: scsi_cmpwrite_def Let_def sc_micros_eq e_def)
  then obtain s' where s': "scsi_cmpwrite ops tid nr n dw dc s = Inr (rw_of_cmpwrite r, s')" "sc_b s' = b'"
      "same_cfg s s'" "quiet (sc_env s') = quiet e'"
    by blast
  show ?thesis
    by (rule exI [of _ k], rule exI [of _ r], rule exI [of _ s'], intro conjI)
      (use c(2-9) s' q in simp_all)
qed

end

end
