(* ===== verification/Scsi_Commands.thy ===== *)
theory Scsi_Commands
  imports Scsi
begin

text \<open>
  The SCSI commands of \<^verbatim>\<open>scsi.cpp\<close>, one definition per handler, and the dispatcher \<open>send\<close>. A CDB is
  the 16 bytes of the command PDU; the data that came with a command is \<open>None\<close> for a null pointer.
  Handlers that reach the backend return the new state; the others only a response.
\<close>

section \<open>Supported operation codes\<close>

record scsi_opcode_details =
  od_data :: "byte list"
  od_cdb_length :: byte

definition opd :: "byte list \<Rightarrow> byte \<Rightarrow> scsi_opcode_details" where
  "opd d l = \<lparr>od_data = d, od_cdb_length = l\<rparr>"

text \<open>The initialiser of \<open>scsi_a3_data\<close>, in the order of the source.\<close>

definition scsi_a3_init :: "(byte \<times> scsi_opcode_details) list" where
  "scsi_a3_init = [
    (o_test_unit_ready, opd [0xff, 0x00, 0x00, 0x00, 0x00, 0x07] 6),
    (o_request_sense, opd [0xff, 0x01, 0x00, 0x00, 0xff, 0x07] 6),
    (o_read_6, opd [0xff, 0x1f, 0xff, 0xff, 0xff, 0x07] 6),
    (o_write_6, opd [0xff, 0x1f, 0xff, 0xff, 0xff, 0x07] 6),
    (o_inquiry, opd [0xff, 0x01, 0xff, 0xff, 0xff, 0x07] 6),
    (o_reserve_6, opd [0xff, 0x00, 0x00, 0x00, 0x00, 0x07] 6),
    (o_release_6, opd [0xff, 0x00, 0x00, 0x00, 0x00, 0x07] 6),
    (o_mode_sense_6, opd [0xff, 0x08, 0xff, 0xff, 0xff, 0x07] 6),
    (o_read_capacity_10, opd [0xff, 0x00, 0x00, 0x00, 0x00, 0x00, 0x00, 0x00, 0x00, 0x07] 10),
    (o_read_10, opd [0xff, 0xfe, 0xff, 0xff, 0xff, 0xff, 0x00, 0xff, 0xff, 0x07] 10),
    (o_write_10, opd [0xff, 0xfa, 0xff, 0xff, 0xff, 0xff, 0x00, 0xff, 0xff, 0x07] 10),
    (o_write_same_10, opd [0xff, 0x08, 0xff, 0xff, 0xff, 0xff, 0x00, 0xff, 0xff, 0xff] 10),
    (o_write_same_16, opd [0xff, 0x08, 0xff, 0xff, 0xff, 0xff, 0xff, 0xff, 0xff, 0xff, 0xff, 0xff, 0xff, 0xff, 0x00, 0xff] 16),
    (o_write_verify_10, opd [0xff, 0xf2, 0xff, 0xff, 0xff, 0xff, 0x00, 0xff, 0xff, 0x07] 10),
    (o_sync_cache_10, opd [0xff, 0x06, 0xff, 0xff, 0xff, 0xff, 0x00, 0xff, 0xff, 0x07] 10),
    (o_unmap, opd [0xff, 0x01, 0x00, 0x00, 0x00, 0x00, 0x00, 0xff, 0xff, 0x07] 10),
    (o_read_12, opd [0xff, 0xfe, 0xff, 0xff, 0xff, 0xff, 0xff, 0xff, 0xff, 0xff, 0x00, 0x07] 12),
    (o_write_12, opd [0xff, 0xfa, 0xff, 0xff, 0xff, 0xff, 0xff, 0xff, 0xff, 0xff, 0x00, 0x07] 12),
    (o_read_16, opd [0xff, 0xfe, 0xff, 0xff, 0xff, 0xff, 0xff, 0xff, 0xff, 0xff, 0xff, 0xff, 0xff, 0xff, 0x00, 0x07] 16),
    (o_compare_and_write, opd [0xff, 0xfa, 0xff, 0xff, 0xff, 0xff, 0xff, 0xff, 0xff, 0xff, 0x00, 0x00, 0x00, 0xff, 0x00, 0x07] 16),
    (o_write_16, opd [0x8a, 0xfa, 0xff, 0xff, 0xff, 0xff, 0xff, 0xff, 0xff, 0xff, 0xff, 0xff, 0xff, 0xff, 0x00, 0x07] 16),
    (o_get_lba_status, opd [0xff, 0x1f, 0xff, 0xff, 0xff, 0xff, 0xff, 0xff, 0xff, 0xff, 0xff, 0xff, 0xff, 0xff, 0x00, 0x07] 16),
    (o_report_luns, opd [0xff, 0x00, 0xff, 0x00, 0x00, 0x00, 0xff, 0xff, 0xff, 0xff, 0x00, 0x07] 12),
    (o_rep_sup_oper, opd [0xff, 0x1f, 0x87, 0xff, 0xff, 0xff, 0xff, 0xff, 0xff, 0xff, 0x00, 0x07] 12)]"

text \<open>A \<open>std::map\<close> is iterated in ascending key order.\<close>

definition scsi_a3_data :: "(byte \<times> scsi_opcode_details) list" where
  "scsi_a3_data = sort_key fst scsi_a3_init"

section \<open>Commands that do not touch the medium\<close>

definition test_unit_ready :: scsi_response where
  "test_unit_ready = scsi_response_new ir_empty_sense"

text \<open>\<open>inline_reply\<close>: the three assignments \<open>is_inline = true\<close>, \<open>data.second = n\<close>, \<open>data.first = ...\<close>.\<close>

definition inline_reply :: "byte list \<Rightarrow> scsi_response \<Rightarrow> scsi_response" where
  "inline_reply d r = r\<lparr>is_inline := True, r_data := Some d\<rparr>"

definition mode_sense_6 :: "nat \<Rightarrow> byte list \<Rightarrow> 'b scsi_st \<Rightarrow> scsi_response" where
  "mode_sense_6 tid CDB s =
     (let response = scsi_response_new ir_as_is
      in if locking_status tid s = l_locked_other
         then response\<lparr>sense_data := error_reservation_conflict_1\<rparr>
         else inline_reply ((replicate 4 0)[0 := 3, 1 := 0, 2 := 16]) response)"

definition inquiry_standard :: "byte \<Rightarrow> string \<Rightarrow> byte list" where
  "inquiry_standard device_type serial_nr =
     (let d = replicate 68 0;
          d = d[0 := device_type, 1 := 0, 2 := 5, 3 := 2, 4 := 68 - 5, 5 := 0, 6 := 0, 7 := 0];
          d = overwrite 8 (c_str ''vnHeusdn'') d;
          d = overwrite 16 (c_str ''iESP'') d;
          d = overwrite 32 (c_str ''2.3'') d;
          d = overwrite 36 (replicate 8 (byte_of_char (CHR ''0''))) d;
          d = overwrite 36 (take (min (length serial_nr) 8) (c_str serial_nr)) d
      in d[58 := 0x06, 59 := 0x00, 60 := 0x09, 61 := 0x60, 62 := 0x01, 63 := 0xfb, 64 := 0x01,
           65 := 0x20, 66 := 0x04, 67 := 0xc0])"

text \<open>The vital product data pages; \<open>None\<close> is \<open>ok = false\<close>.\<close>

definition inquiry_vpd :: "byte \<Rightarrow> byte \<Rightarrow> string \<Rightarrow> byte list option" where
  "inquiry_vpd page device_type serial_nr =
     (if page = 0x00 then
        Some ((replicate 9 0)[0 := device_type, 1 := page, 2 := 0, 3 := 9 - 4, 4 := 0x00, 5 := 0x80,
               6 := 0x83, 7 := 0xb0, 8 := 0xb1])
      else if page = 0x80 then
        Some (overwrite 4 (c_str serial_nr)
               ((replicate (4 + length serial_nr) 0)[0 := device_type, 1 := page,
                 3 := of_nat (4 + length serial_nr - 4)]))
      else if page = 0x83 then
        Some (overwrite 8 (c_str serial_nr)
               ((replicate (8 + length serial_nr) 0)[0 := device_type, 1 := page,
                 3 := of_nat (8 + length serial_nr - 4), 4 := 2 OR push_bit 4 5, 5 := 128,
                 7 := of_nat (length serial_nr)]))
      else if page = 0xb0 then
        Some ((replicate 64 0)[0 := device_type, 1 := page, 2 := 0, 3 := 0x3c, 4 := 0,
               5 := ucast max_compare_and_write_block_count, 6 := 0, 7 := 0, 22 := 32, 23 := 0, 27 := 8, 31 := 8,
               40 := of_nat (MAX_WS_LEN div 2 ^ 24), 41 := of_nat (MAX_WS_LEN div 2 ^ 16),
               42 := of_nat (MAX_WS_LEN div 2 ^ 8), 43 := of_nat MAX_WS_LEN])
      else if page = 0xb1 then
        Some ((replicate 64 0)[0 := device_type, 1 := page, 2 := of_nat (60 div 2 ^ 8), 3 := 60,
               4 := 0x1c, 5 := 0x20, 8 := 0x02])
      else if page = 0xb2 then
        Some ((replicate 64 0)[0 := device_type, 1 := page, 2 := of_nat (60 div 2 ^ 8), 3 := 60,
               5 := 128 OR 64 OR 32 OR 2])
      else None)"

definition inquiry :: "u64 \<Rightarrow> byte list \<Rightarrow> 'b scsi_st \<Rightarrow> scsi_response" where
  "inquiry lun CDB s =
     (let response = scsi_response_new ir_as_is;
          allocation_length = (push_bit 8 (ucast (CDB ! 3)) OR ucast (CDB ! 4) :: u16);
          device_type = (if lun = 0 then 0x0c else 0x00);
          page = (if CDB ! 1 AND 1 = 0
                  then if CDB ! 2 \<noteq> 0 then None else Some (inquiry_standard device_type (serial s))
                  else inquiry_vpd (CDB ! 2) device_type (serial s))
      in case page of
           None \<Rightarrow> response\<lparr>sense_data := [0x72, 0x05, 0x24, 0x00, 0x00, 0x00, 0x00, 0x00]\<rparr>
         | Some d \<Rightarrow> inline_reply (take (unat allocation_length) d) response)"

text \<open>\<open>x >> k\<close> stored in a byte.\<close>

definition byte_shr :: "nat \<Rightarrow> u64 \<Rightarrow> byte" where
  "byte_shr k x = ucast (drop_bit k x)"

definition read_capacity_10 :: "'b backend_ops \<Rightarrow> 'b scsi_st \<Rightarrow> scsi_response" where
  "read_capacity_10 ops s =
     (let device_size = be_get_size_in_blocks ops (sc_b s) - 1;
          block_size = be_get_block_size ops (sc_b s)
      in inline_reply [byte_shr 24 device_size, byte_shr 16 device_size, byte_shr 8 device_size, byte_shr 0 device_size,
           byte_shr 24 block_size, byte_shr 16 block_size, byte_shr 8 block_size, byte_shr 0 block_size]
           (scsi_response_new ir_as_is))"

definition get_lba_status :: "'b backend_ops \<Rightarrow> byte list \<Rightarrow> 'b scsi_st \<Rightarrow> scsi_response" where
  "get_lba_status ops CDB s =
     (let response = scsi_response_new ir_as_is; service_action = CDB ! 1 AND 31
      in if service_action = 0x10 then
           let allocation_length = get_uint32_t CDB 10
           in if allocation_length = 0 then response\<lparr>r_type := ir_empty_sense\<rparr>
              else
                let device_size = be_get_size_in_blocks ops (sc_b s) - 1;
                    block_size = (ucast (ucast (be_get_block_size ops (sc_b s)) :: u32) :: u64);
                    d = map (\<lambda>k. byte_shr k device_size) [56, 48, 40, 32, 24, 16, 8, 0]
                        @ map (\<lambda>k. byte_shr k block_size) [24, 16, 8, 0] @ replicate 20 0;
                    d = d[12 := push_bit 4 1, 14 := 128 OR 64]
                in inline_reply (take (unat allocation_length) d) response
         else if service_action = 0x12 then
           (case validate_request_lba ops (sc_b s) (get_uint64_t CDB 2) of
              Some vr \<Rightarrow> response\<lparr>sense_data := vr\<rparr>
            | None \<Rightarrow> inline_reply (overwrite 16 (slice 10 4 CDB) (overwrite 8 (slice 2 8 CDB)
                        ((replicate 24 0)[0 := 0, 1 := 0, 2 := 0, 3 := 24 - 3]))) response)
         else response\<lparr>sense_data := error_not_implemented\<rparr>)"

definition report_luns :: scsi_response where
  "report_luns = inline_reply (overwrite 8 (encode_lun 1) ((replicate 16 0)[3 := 8])) (scsi_response_new ir_as_is)"

fun rep_sup_loop :: "(byte \<times> scsi_opcode_details) list \<Rightarrow> nat \<Rightarrow> byte list \<Rightarrow> byte list" where
  "rep_sup_loop [] add_offset d = d"
| "rep_sup_loop (it # its) add_offset d =
     rep_sup_loop its (add_offset + 8) (d[4 + add_offset := fst it, 4 + add_offset + 7 := od_cdb_length (snd it)])"

definition report_supported_operation_codes :: "byte list \<Rightarrow> scsi_response" where
  "report_supported_operation_codes CDB =
     (let response = scsi_response_new ir_as_is;
          service_action = CDB ! 1 AND 31; reporting_options = CDB ! 2 AND 7; req_operation_code = CDB ! 3
      in if service_action = 0x0c \<and> reporting_options = 0 then
           let total_size = length scsi_a3_data * 8;
               d = (replicate (4 + total_size) 0)[0 := of_nat (total_size div 2 ^ 24),
                     1 := of_nat (total_size div 2 ^ 16), 2 := of_nat (total_size div 2 ^ 8), 3 := of_nat total_size]
           in inline_reply (rep_sup_loop scsi_a3_data 0 d) response
         else if service_action = 0x0c \<and> reporting_options = 1 then
           (case map_of scsi_a3_data req_operation_code of
              Some it \<Rightarrow>
                let cdb_size = length (od_data it)
                in inline_reply (overwrite 4 (od_data it) ((replicate (4 + cdb_size) 0)[1 := 0x03,
                     2 := of_nat (cdb_size div 2 ^ 8), 3 := of_nat cdb_size])) response
            | None \<Rightarrow> response\<lparr>sense_data := error_not_implemented\<rparr>)
         else response\<lparr>sense_data := error_not_implemented\<rparr>)"

definition prefetch :: "'b backend_ops \<Rightarrow> byte list \<Rightarrow> byte \<Rightarrow> 'b scsi_st \<Rightarrow> scsi_response" where
  "prefetch ops CDB opcode s =
     (let response = scsi_response_new ir_as_is;
          (lba, transfer_length) = (if opcode = o_prefetch_16 then get_lba_len CDB cs_16
             else if opcode = o_prefetch_10 then get_lba_len CDB cs_10 else (0, 0))
      in case validate_request ops (sc_b s) lba transfer_length None of
           Some vr \<Rightarrow> response\<lparr>sense_data := vr\<rparr>
         | None \<Rightarrow> response\<lparr>r_type := ir_empty_sense\<rparr>)"

definition read_lba_len :: "byte list \<Rightarrow> byte \<Rightarrow> u64 \<times> u32" where
  "read_lba_len CDB opcode =
     (if opcode = o_read_16 then get_lba_len CDB cs_16
      else if opcode = o_read_12 then get_lba_len CDB cs_12
      else if opcode = o_read_10 then get_lba_len CDB cs_10
      else if opcode = o_read_6 then get_lba_len CDB cs_6 else (0, 0))"

definition read_cmd :: "'b backend_ops \<Rightarrow> byte list \<Rightarrow> byte \<Rightarrow> 'b scsi_st \<Rightarrow> scsi_response" where
  "read_cmd ops CDB opcode s =
     (let response = scsi_response_new ir_as_is;
          (lba, transfer_length) = read_lba_len CDB opcode;
          backend_block_size = be_get_block_size ops (sc_b s);
          response = response\<lparr>amount_of_data_expected := Some (ucast transfer_length * backend_block_size)\<rparr>
      in case validate_request ops (sc_b s) lba transfer_length (Some CDB) of
           Some vr \<Rightarrow> response\<lparr>sense_data := vr\<rparr>
         | None \<Rightarrow> if transfer_length = 0 then response\<lparr>r_type := ir_empty_sense\<rparr>
             else response\<lparr>is_inline := False, r_location := \<lparr>dd_lba = lba, dd_n_sectors = transfer_length\<rparr>,
                    r_data := None, data_is_meta := False\<rparr>)"

section \<open>Commands on the medium\<close>

text \<open>
  \<open>write_verify\<close>: the address by operation code, then the immediate data (whole blocks, then a
  partial block by read-modify-write), then either completion, R2T or an error.
\<close>

definition write_lba_len :: "byte list \<Rightarrow> byte \<Rightarrow> u64 \<times> u32" where
  "write_lba_len CDB opcode =
     (if opcode = o_write_6 then get_lba_len CDB cs_6
      else if opcode = o_write_10 \<or> opcode = o_write_verify_10 then get_lba_len CDB cs_10
      else if opcode = o_write_12 then get_lba_len CDB cs_12
      else if opcode = o_write_16 then get_lba_len CDB cs_16 else (0, 0))"

text \<open>
  The partial block: \<open>temp_buffer\<close> is read from the medium, its start replaced by the fragment, and
  written back. The buffer's initial contents are never looked at.
\<close>

definition write_fragment :: "'b backend_ops \<Rightarrow> nat \<Rightarrow> u64 \<Rightarrow> u32 \<Rightarrow> u64 \<Rightarrow> byte list \<Rightarrow> nat \<Rightarrow> 'b scsi_st
    \<Rightarrow> (scsi_rw_result \<times> 'b scsi_st) result" where
  "write_fragment ops tid lba work_n_blocks received_blocks data fragment_size s =
     (let bs = unat (be_get_block_size ops (sc_b s))
      in bindR (scsi_read ops tid (lba + ucast work_n_blocks) 1 (replicate bs 0) s) (\<lambda>(rc, temp_buffer, s).
         if rc = rw_ok
         then scsi_write ops tid (lba + received_blocks) 1
                (overwrite 0 (slice (unat work_n_blocks * bs) fragment_size data) temp_buffer) s
         else Inr (rc, s)))"

definition write_data :: "'b backend_ops \<Rightarrow> nat \<Rightarrow> u64 \<Rightarrow> u32 \<Rightarrow> byte list \<Rightarrow> 'b scsi_st
    \<Rightarrow> (scsi_rw_result \<times> 'b scsi_st) result" where
  "write_data ops tid lba transfer_length data s =
     (let backend_block_size = be_get_block_size ops (sc_b s);
          received_size = (of_nat (length data) :: u64);
          received_blocks = received_size div backend_block_size;
          work_n_blocks = min transfer_length (ucast received_blocks)
      in bindR (if received_blocks > 0 then scsi_write ops tid lba work_n_blocks data s else Inr (rw_ok, s)) (\<lambda>(rc, s).
         let fragment_size = received_size - ucast work_n_blocks * backend_block_size
         in if rc = rw_ok \<and> fragment_size > 0 \<and> fragment_size < backend_block_size
            then write_fragment ops tid lba work_n_blocks received_blocks data (unat fragment_size) s
            else Inr (rc, s)))"

definition write_verify :: "'b backend_ops \<Rightarrow> nat \<Rightarrow> byte list \<Rightarrow> byte list option \<Rightarrow> byte \<Rightarrow> 'b scsi_st
    \<Rightarrow> (scsi_response \<times> 'b scsi_st) result" where
  "write_verify ops tid CDB data opcode s =
     (let (lba, transfer_length) = write_lba_len CDB opcode;
          is_fua = (CDB ! 1 AND 8 \<noteq> 0);
          backend_block_size = be_get_block_size ops (sc_b s);
          expected_size = ucast transfer_length * backend_block_size;
          response = (scsi_response_new ir_as_is)\<lparr>amount_of_data_expected := Some expected_size\<rparr>
      in case validate_request ops (sc_b s) lba transfer_length (Some CDB) of
           Some vr \<Rightarrow> Inr (response\<lparr>sense_data := vr\<rparr>, s)
         | None \<Rightarrow>
             (case data of
                Some d \<Rightarrow>
                  bindR (write_data ops tid lba transfer_length d s) (\<lambda>(rc, s).
                  if rc = rw_ok then
                    let received_size = (of_nat (length d) :: u64);
                        received_blocks = received_size div backend_block_size
                    in if received_size = expected_size then
                         let response = response\<lparr>r_type := ir_empty_sense\<rparr>
                         in if is_fua then bindR (scsi_sync ops tid s) (\<lambda>(_, s). Inr (response, s))
                            else Inr (response, s)
                       else
                         Inr (response\<lparr>r_type := ir_r2t, r_r2t := r2t_zero\<lparr>buffer_lba := lba, fua := is_fua,
                           bytes_left := (if received_blocks \<le> ucast transfer_length
                             then ucast ((ucast transfer_length - received_blocks) * backend_block_size) else 0),
                           bytes_done := ucast (received_blocks * backend_block_size)\<rparr>\<rparr>, s)
                  else if rc = rw_fail_rw then Inr (response\<lparr>sense_data := error_write_error\<rparr>, s)
                  else if rc = rw_fail_locked then Inr (response\<lparr>sense_data := error_reservation_conflict_1\<rparr>, s)
                  else Inr (response, s))
              | None \<Rightarrow>
                  if transfer_length \<noteq> 0 then
                    Inr (response\<lparr>r_type := ir_r2t, r_r2t := r2t_zero\<lparr>buffer_lba := lba, fua := is_fua,
                           bytes_left := ucast (ucast transfer_length * backend_block_size)\<rparr>\<rparr>, s)
                  else Inr (response\<lparr>r_type := ir_empty_sense\<rparr>, s)))"

definition sync_cache :: "'b backend_ops \<Rightarrow> nat \<Rightarrow> 'b scsi_st \<Rightarrow> (scsi_response \<times> 'b scsi_st) result" where
  "sync_cache ops tid s = bindR (scsi_sync ops tid s) (\<lambda>(_, s). Inr (scsi_response_new ir_empty_sense, s))"

definition the_data :: "byte list option \<Rightarrow> byte list" where
  "the_data data = (case data of None \<Rightarrow> [] | Some d \<Rightarrow> d)"

definition compare_and_write :: "'b backend_ops \<Rightarrow> nat \<Rightarrow> byte list \<Rightarrow> byte list option \<Rightarrow> 'b scsi_st
    \<Rightarrow> (scsi_response \<times> 'b scsi_st) result" where
  "compare_and_write ops tid CDB data s =
     (let lba = get_uint64_t CDB 2;
          block_count = (ucast (CDB ! 13) :: u32);
          block_size = be_get_block_size ops (sc_b s);
          response = (scsi_response_new ir_as_is)\<lparr>amount_of_data_expected := Some (block_size * ucast block_count * 2)\<rparr>
      in case validate_request ops (sc_b s) lba block_count (Some CDB) of
           Some vr \<Rightarrow> Inr (response\<lparr>sense_data := vr\<rparr>, s)
         | None \<Rightarrow>
             if block_count > max_compare_and_write_block_count
             then Inr (response\<lparr>sense_data := error_compare_and_write_count\<rparr>, s)
             else bindR (scsi_cmpwrite ops tid lba block_count
                           (drop (unat block_count * unat block_size) (the_data data)) (the_data data) s) (\<lambda>(res, s).
               Inr (case res of
                      rw_ok \<Rightarrow> response\<lparr>r_type := ir_empty_sense\<rparr>
                    | rw_fail_locked \<Rightarrow> response\<lparr>sense_data := error_reservation_conflict_1\<rparr>
                    | rw_fail_mismatch \<Rightarrow> response\<lparr>sense_data := error_miscompare\<rparr>
                    | rw_fail_rw \<Rightarrow> response\<lparr>sense_data := error_write_error\<rparr>
                    | rw_fail_general \<Rightarrow> response, s)))"

definition reserve_cmd :: "nat \<Rightarrow> 'b scsi_st \<Rightarrow> scsi_response \<times> 'b scsi_st" where
  "reserve_cmd tid s =
     (let response = scsi_response_new ir_as_is; (st, s) = reserve_device tid s
      in (if st = l_locked then response\<lparr>r_type := ir_empty_sense\<rparr>
          else response\<lparr>sense_data := error_reservation_conflict_1\<rparr>, s))"

definition release_cmd :: "nat \<Rightarrow> 'b scsi_st \<Rightarrow> scsi_response \<times> 'b scsi_st" where
  "release_cmd tid s = ((scsi_response_new ir_as_is)\<lparr>r_type := ir_empty_sense\<rparr>, snd (unlock_device tid s))"

text \<open>
  The descriptor loop of \<open>unmap\<close>: position, last result, sense data so far. An invalid descriptor
  does not end the loop, a failing trim does. Reading a descriptor needs 12 bytes.
\<close>

function unmap_loop :: "'b backend_ops \<Rightarrow> nat \<Rightarrow> byte list \<Rightarrow> nat \<Rightarrow> scsi_rw_result \<Rightarrow> byte list \<Rightarrow> 'b scsi_st
    \<Rightarrow> (scsi_rw_result \<times> byte list \<times> 'b scsi_st) result" where
  "unmap_loop ops tid pd i rc sense s =
     (if i < length pd then
        if length pd < i + 12 then Inl Mem_oob
        else
          let lba = get_uint64_t pd i; transfer_length = get_uint32_t pd (i + 8)
          in case validate_request ops (sc_b s) lba transfer_length None of
               Some vr \<Rightarrow> unmap_loop ops tid pd (i + 16) rw_fail_general vr s
             | None \<Rightarrow>
                 if transfer_length > MAX_UNMAP_BLOCKS
                 then unmap_loop ops tid pd (i + 16) rw_fail_general error_out_of_range s
                 else if transfer_length > 0 then
                   bindR (scsi_trim ops tid lba transfer_length s) (\<lambda>(rc, s).
                   if rc \<noteq> rw_ok then Inr (rc, sense, s)
                   else unmap_loop ops tid pd (i + 16) rc sense s)
                 else unmap_loop ops tid pd (i + 16) rc sense s
      else Inr (rc, sense, s))"
  by pat_completeness auto
termination
  by (relation "measure (\<lambda>(_, _, pd, i, _). length pd - i)") auto

declare unmap_loop.simps [simp del]

definition unmap :: "'b backend_ops \<Rightarrow> nat \<Rightarrow> byte list option \<Rightarrow> 'b scsi_st \<Rightarrow> (scsi_response \<times> 'b scsi_st) result" where
  "unmap ops tid data s =
     bindR (unmap_loop ops tid (the_data data) 8 rw_ok [] s) (\<lambda>(rc, sense, s).
     let response = (scsi_response_new ir_as_is)\<lparr>sense_data := sense\<rparr>
     in Inr (if rc = rw_ok then response\<lparr>r_type := ir_empty_sense\<rparr>
             else if sense \<noteq> [] then response
             else if rc = rw_fail_locked then response\<lparr>sense_data := error_reservation_conflict_1\<rparr>
             else response\<lparr>sense_data := error_write_error\<rparr>, s))"

text \<open>The loops of \<open>write_same\<close>: \<open>left\<close> blocks from \<open>lba\<close> on, ending at the first failure.\<close>

fun write_same_loop :: "'b backend_ops \<Rightarrow> nat \<Rightarrow> bool \<Rightarrow> byte list \<Rightarrow> u64 \<Rightarrow> nat \<Rightarrow> 'b scsi_st
    \<Rightarrow> (scsi_rw_result \<times> 'b scsi_st) result" where
  "write_same_loop ops tid is_unmap d lba 0 s = Inr (rw_ok, s)"
| "write_same_loop ops tid is_unmap d lba (Suc left) s =
     bindR (if is_unmap then scsi_trim ops tid lba 1 s else scsi_write ops tid lba 1 d s) (\<lambda>(rc, s).
     if rc = rw_ok then write_same_loop ops tid is_unmap d (lba + 1) left s else Inr (rc, s))"

definition write_same :: "'b backend_ops \<Rightarrow> nat \<Rightarrow> byte list \<Rightarrow> byte list option \<Rightarrow> byte \<Rightarrow> 'b scsi_st
    \<Rightarrow> (scsi_response \<times> 'b scsi_st) result" where
  "write_same ops tid CDB data opcode s =
     (let is_unmap = (CDB ! 1 AND 8 \<noteq> 0);
          (lba, transfer_length) = (if opcode = o_write_same_16 then get_lba_len CDB cs_16
             else if opcode = o_write_same_10 then get_lba_len CDB cs_10 else (0, 0));
          backend_block_size = be_get_block_size ops (sc_b s);
          response = (scsi_response_new ir_as_is)\<lparr>r_r2t := r2t_zero\<lparr>write_same_is_unmap := is_unmap, is_write_same := True\<rparr>,
             amount_of_data_expected := Some (ucast transfer_length * backend_block_size)\<rparr>
      in case validate_request ops (sc_b s) lba transfer_length (Some CDB) of
           Some vr \<Rightarrow> Inr (response\<lparr>sense_data := vr\<rparr>, s)
         | None \<Rightarrow>
             (case data of
                Some d \<Rightarrow>
                  let received_blocks = of_nat (length d) div backend_block_size;
                      size_in_blocks = be_get_size_in_blocks ops (sc_b s)
                  in if received_blocks \<noteq> 1 then Inr (response, s)
                     else if transfer_length = 0 \<and> size_in_blocks - lba > of_nat MAX_WS_LEN
                     then Inr (response\<lparr>sense_data := error_invalid_field\<rparr>, s)
                     else
                       bindR (write_same_loop ops tid is_unmap d lba
                                (if transfer_length = 0 then unat size_in_blocks - unat lba else unat transfer_length) s)
                         (\<lambda>(rc, s).
                       Inr (if rc = rw_fail_rw then response\<lparr>sense_data := error_write_error\<rparr>
                            else if rc = rw_fail_locked then response\<lparr>sense_data := error_reservation_conflict_1\<rparr>
                            else response\<lparr>r_type := ir_empty_sense\<rparr>, s))
              | None \<Rightarrow>
                  Inr (if (ucast transfer_length :: u64) = backend_block_size then response\<lparr>r_type := ir_r2t\<rparr>
                       else response\<lparr>r_type := ir_empty_sense\<rparr>, s)))"

section \<open>Dispatch\<close>

definition send :: "'b backend_ops \<Rightarrow> nat \<Rightarrow> u64 \<Rightarrow> byte list \<Rightarrow> byte list option \<Rightarrow> 'b scsi_st
    \<Rightarrow> (scsi_response \<times> 'b scsi_st) result" where
  "send ops tid lun CDB data s =
     (let opcode = CDB ! 0
      in if opcode = o_test_unit_ready then Inr (test_unit_ready, s)
         else if opcode = o_mode_sense_6 then Inr (mode_sense_6 tid CDB s, s)
         else if opcode = o_inquiry then Inr (inquiry lun CDB s, s)
         else if opcode = o_read_capacity_10 then Inr (read_capacity_10 ops s, s)
         else if opcode = o_get_lba_status then Inr (get_lba_status ops CDB s, s)
         else if opcode \<in> {o_write_6, o_write_10, o_write_verify_10, o_write_12, o_write_16}
         then write_verify ops tid CDB data opcode s
         else if opcode \<in> {o_read_16, o_read_12, o_read_10, o_read_6} then Inr (read_cmd ops CDB opcode s, s)
         else if opcode = o_sync_cache_10 then sync_cache ops tid s
         else if opcode = o_report_luns then Inr (report_luns, s)
         else if opcode = o_rep_sup_oper then Inr (report_supported_operation_codes CDB, s)
         else if opcode = o_compare_and_write then compare_and_write ops tid CDB data s
         else if opcode = o_prefetch_10 \<or> opcode = o_prefetch_16 then Inr (prefetch ops CDB opcode s, s)
         else if opcode = o_reserve_6 then Inr (reserve_cmd tid s)
         else if opcode = o_release_6 then Inr (release_cmd tid s)
         else if opcode = o_unmap then unmap ops tid data s
         else if opcode = o_write_same_10 \<or> opcode = o_write_same_16 then write_same ops tid CDB data opcode s
         else Inr ((scsi_response_new ir_as_is)\<lparr>sense_data := error_not_implemented\<rparr>, s))"

section \<open>A connection without the reservation\<close>

text \<open>Only the caller's statistics may change.\<close>

definition only_stats :: "'b scsi_st \<Rightarrow> 'b scsi_st \<Rightarrow> bool" where
  "only_stats s s' \<longleftrightarrow> (\<exists>i. s' = s\<lparr>sc_is := i\<rparr>)"

lemma only_stats_refl [simp]: "only_stats s s"
  unfolding only_stats_def by (rule exI [of _ "sc_is s"]) simp

lemma only_stats_upd [simp]: "only_stats s (s\<lparr>sc_is := i\<rparr>)"
  unfolding only_stats_def by blast

lemma only_stats_trans: "only_stats s t \<Longrightarrow> only_stats t u \<Longrightarrow> only_stats s u"
  by (auto simp: only_stats_def)

lemma only_stats_locking: "only_stats s t \<Longrightarrow> locking_status tid t = locking_status tid s"
  by (auto simp: only_stats_def)

lemma locked_out_stats:
  assumes "locking_status tid s = l_locked_other"
  shows "scsi_sync ops tid s = Inr (rc, s') \<Longrightarrow> only_stats s s'"
    and "scsi_trim ops tid nr n s = Inr (rc, s') \<Longrightarrow> only_stats s s' \<and> rc = rw_fail_locked"
    and "scsi_write ops tid nr n data s = Inr (rc, s') \<Longrightarrow> only_stats s s' \<and> rc = rw_fail_locked"
    and "scsi_read ops tid nr n data s = Inr (rc, data', s') \<Longrightarrow> only_stats s s' \<and> rc = rw_fail_locked"
    and "scsi_cmpwrite ops tid nr n dw dc s = Inr (rc, s') \<Longrightarrow> only_stats s s' \<and> rc = rw_fail_locked"
  using assms by (auto simp: access_defs Let_def)

lemma sync_locked_after:
  assumes "locking_status tid s = l_locked_other" and "only_stats s t" and "scsi_sync ops tid t = Inr (rc, s')"
  shows "only_stats s s'"
proof -
  have "only_stats t s'"
    using assms only_stats_locking [OF assms(2), of tid] by (intro locked_out_stats(1)) simp_all
  then show ?thesis by (rule only_stats_trans [OF assms(2)])
qed

lemma write_data_locked:
  assumes "locking_status tid s = l_locked_other" and "write_data ops tid nr n d s = Inr (rc, s')"
  shows "only_stats s s'"
  using assms(2)
  by (auto simp: write_data_def write_fragment_def Let_def bindR_Inr_iff split: if_splits
      dest!: locked_out_stats(3,4) [OF assms(1)])

lemma unmap_loop_locked:
  assumes "locking_status tid s = l_locked_other"
  shows "unmap_loop ops tid pd i rc sense s = Inr (rc', sense', s') \<Longrightarrow> only_stats s s'"
proof (induction "length pd - i" arbitrary: i rc sense rule: less_induct)
  case less
  have IH: "only_stats s s'"
    if "unmap_loop ops tid pd (i + 16) rc sense s = Inr (rc', sense', s')" "i < length pd" for rc sense
    using that by (intro less.hyps [of "i + 16"]) simp_all
  show ?case
    using less.prems
    by (subst (asm) unmap_loop.simps)
      (auto simp: Let_def bindR_Inr_iff split: if_splits option.splits dest: IH dest!: locked_out_stats(2) [OF assms])
qed

lemma write_same_loop_locked:
  assumes "locking_status tid s = l_locked_other"
    and "write_same_loop ops tid u d nr k s = Inr (rc, s')"
  shows "only_stats s s'"
  using assms(2)
  by (cases k) (auto simp: bindR_Inr_iff split: if_splits dest!: locked_out_stats(2,3) [OF assms(1)])

lemma write_verify_locked:
  assumes "locking_status tid s = l_locked_other" and "write_verify ops tid CDB data opcode s = Inr (r, s')"
  shows "only_stats s s'"
  using assms(2)
  by (auto simp: write_verify_def Let_def bindR_Inr_iff split: if_splits option.splits prod.splits
      dest!: write_data_locked [OF assms(1)] intro: sync_locked_after [OF assms(1)])

lemma other_commands_locked:
  assumes "locking_status tid s = l_locked_other"
  shows "sync_cache ops tid s = Inr (r, s') \<Longrightarrow> only_stats s s'"
    and "compare_and_write ops tid CDB data s = Inr (r, s') \<Longrightarrow> only_stats s s'"
    and "unmap ops tid data s = Inr (r, s') \<Longrightarrow> only_stats s s'"
    and "write_same ops tid CDB data opcode s = Inr (r, s') \<Longrightarrow> only_stats s s'"
  by (auto simp: sync_cache_def compare_and_write_def unmap_def write_same_def Let_def bindR_Inr_iff
      split: if_splits option.splits prod.splits
      dest!: locked_out_stats [OF assms] unmap_loop_locked [OF assms] write_same_loop_locked [OF assms])

end
