(* ===== verification/Scsi_Write.thy ===== *)
theory Scsi_Write
  imports Scsi_Commands
begin

text \<open>
  Correctness of the WRITE path of \<^verbatim>\<open>scsi.cpp\<close>: the immediate data of a WRITE command over any block
  device, its composition with READ on the file backend, and the exclusion of connections that do not
  hold the reservation.
\<close>

section \<open>Immediate data of a WRITE\<close>

lemma read_modify_write:
  assumes "off + n \<le> length D" and "length f \<le> n"
  shows "overwrite off (overwrite 0 f (slice off n D)) D = overwrite off f D"
  using assms by (intro nth_equalityI) (auto simp: nth_overwrite nth_slice)

lemma overwrite_zero_all: "length d = length buf \<Longrightarrow> overwrite 0 d buf = d"
  by (simp add: overwrite_def)

context block_storage
begin

lemma received_blocks:
  assumes "inv b" and "length (data :: byte list) < 2 ^ 64"
  shows "unat (of_nat (length data) div be_get_block_size ops b) = length data div bsz"
  using assms bsz_lt by (simp add: unat_div_distrib block_size unat_of_nat)

lemma write_fragment_law:
  assumes "inv (sc_b s)" and "unat lba + q < unat (be_get_size_in_blocks ops (sc_b s))"
    and "locking_status tid s \<noteq> l_locked_other" and "quiet (sc_env s)"
    and "unat rb = q" "unat w = q" and "length (slice (q * bsz) f data) \<le> bsz"
  shows "\<exists>s'. write_fragment ops tid lba w rb data f s = Inr (rw_ok, s') \<and> inv (sc_b s') \<and> same_cfg s s' \<and>
    quiet (sc_env s') \<and>
    disk (sc_b s') = overwrite ((unat lba + q) * bsz) (slice (q * bsz) f data) (disk (sc_b s))"
proof -
  define sz where "sz = be_get_size_in_blocks ops (sc_b s)"
  have "unat sz < 2 ^ 64" using unsigned_less [of sz, where 'a = nat] by simp
  then have nr: "unat (lba + ucast w) = unat lba + q" "unat (lba + rb) = unat lba + q"
    using assms(2,5,6) by (subst unat_add_u64; simp add: sz_def)+
  have od: "on_disk (lba + ucast w) 1 (sc_b s)" "on_disk (lba + rb) 1 (sc_b s)"
    using assms(1,2) nr by (simp_all add: on_disk_iff)
  have room: "(unat lba + q) * bsz + bsz \<le> length (disk (sc_b s))"
    using od(1) nr by (simp add: on_disk_def)
  obtain buf s1 where r: "scsi_read ops tid (lba + ucast w) 1 (replicate bsz 0) s = Inr (rw_ok, buf, s1)"
    "inv (sc_b s1)" "same_cfg s s1" "disk (sc_b s1) = disk (sc_b s)" "quiet (sc_env s1)"
    "buf = overwrite 0 (slice ((unat lba + q) * bsz) bsz (disk (sc_b s))) (replicate bsz 0)"
    using scsi_read_law [OF assms(1) _ od(1) assms(3), of "replicate bsz 0"] assms(4) nr lim_pos
    by (auto simp: rw_of_bool_def)
  have buf: "buf = slice ((unat lba + q) * bsz) bsz (disk (sc_b s))"
    unfolding r(6) using room by (intro overwrite_zero_all) simp
  define d where "d = overwrite 0 (slice (q * bsz) f data) buf"
  have len: "length d = bsz" unfolding d_def buf using assms(7) room by simp
  have lock: "locking_status tid s1 \<noteq> l_locked_other"
    using assms(3) same_cfg_locking [OF r(3)] by simp
  have od1: "on_disk (lba + rb) 1 (sc_b s1)" using od(2) r(4) by (simp add: on_disk_def)
  obtain s2 where w: "scsi_write ops tid (lba + rb) 1 d s1 = Inr (rw_ok, s2)" "inv (sc_b s2)" "same_cfg s1 s2"
    "quiet (sc_env s2)" "disk (sc_b s2) = overwrite ((unat lba + q) * bsz) d (disk (sc_b s))"
    using scsi_write_law [OF r(2) _ od1 lock, of d] r(4,5) nr len lim_pos by (auto simp: rw_of_bool_def)
  have "disk (sc_b s2) = overwrite ((unat lba + q) * bsz) (slice (q * bsz) f data) (disk (sc_b s))"
    unfolding w(5) d_def buf by (rule read_modify_write [OF room assms(7)])
  moreover have "write_fragment ops tid lba w rb data f s = Inr (rw_ok, s2)"
    using r(1) w(1) assms(6) by (simp add: write_fragment_def Let_def unat_block_size [OF assms(1)] d_def)
  ultimately show ?thesis using w r(3) by (auto intro: same_cfg_trans)
qed

lemma write_data_law:
  assumes "inv (sc_b s)" and "length data \<le> unat n * bsz" and "on_disk lba n (sc_b s)"
    and "locking_status tid s \<noteq> l_locked_other" and "quiet (sc_env s)" and "unat n \<le> lim"
  shows "\<exists>s'. write_data ops tid lba n data s = Inr (rw_ok, s') \<and> inv (sc_b s') \<and> same_cfg s s' \<and>
    quiet (sc_env s') \<and> disk (sc_b s') = overwrite (unat lba * bsz) data (disk (sc_b s))"
proof -
  define q where "q = length data div bsz"
  define rb where "rb = (of_nat (length data) :: u64) div be_get_block_size ops (sc_b s)"
  define w where "w = (ucast rb :: u32)"
  have len: "length data < 2 ^ 64"
    using assms(2,3) disk_lt [OF assms(1)] by (simp add: on_disk_def)
  have n32: "unat n < 2 ^ 32" using unsigned_less [of n, where 'a = nat] by simp
  have q: "q \<le> unat n" "q * bsz \<le> length data"
    using assms(2) bsz_pos by (auto simp: q_def div_le_mono intro: order.trans [OF div_le_mono])
  have rb: "unat rb = q" using received_blocks [OF assms(1) len] by (simp add: rb_def q_def)
  have w: "unat w = q"
    unfolding w_def using q(1) n32 rb by (simp add: unsigned_ucast_eq take_bit_nat_eq_self)
  have "w \<le> n" using q(1) w by (simp add: word_le_nat_alt)
  then have min: "min n (ucast rb) = w" by (simp add: w_def min.absorb2)
  have od: "on_disk lba w (sc_b s)"
    using assms(3) mult_le_mono1 [OF q(1), of bsz] unfolding on_disk_def w by linarith
  have rem: "length data = q * bsz + length data mod bsz" by (simp add: q_def)
  have frag: "unat (of_nat (length data) - ucast w * be_get_block_size ops (sc_b s) :: u64) = length data mod bsz"
  proof -
    have "unat (ucast w * be_get_block_size ops (sc_b s) :: u64) = q * bsz"
      using w unat_block_size [OF assms(1)] q(2) len by (subst unat_mult_u64) simp_all
    then show ?thesis using len rem by (simp add: unat_sub word_le_nat_alt unat_of_nat)
  qed
  have first: "\<exists>s1. (if rb > 0 then scsi_write ops tid lba w data s else Inr (rw_ok, s)) = Inr (rw_ok, s1) \<and>
      inv (sc_b s1) \<and> same_cfg s s1 \<and> quiet (sc_env s1) \<and>
      disk (sc_b s1) = overwrite (unat lba * bsz) (take (q * bsz) data) (disk (sc_b s))"
  proof (cases "q = 0")
    case True
    then have "rb = 0" using rb by (simp add: unat_eq_0)
    then show ?thesis using True assms(1,5) by (intro exI [of _ s]) simp
  next
    case False
    then have "rb > 0" "w > 0" using rb w by (simp_all add: word_less_nat_alt)
    then show ?thesis
      using scsi_write_law [OF assms(1) _ od assms(4), of data] w q assms(5,6)
      by (auto simp: rw_of_bool_def)
  qed
  then obtain s1 where s1: "(if rb > 0 then scsi_write ops tid lba w data s else Inr (rw_ok, s)) = Inr (rw_ok, s1)"
      "inv (sc_b s1)" "same_cfg s s1" "quiet (sc_env s1)"
      "disk (sc_b s1) = overwrite (unat lba * bsz) (take (q * bsz) data) (disk (sc_b s))"
    by blast
  define frs where "frs = (of_nat (length data) - ucast w * be_get_block_size ops (sc_b s) :: u64)"
  have wd: "write_data ops tid lba n data s =
      (if frs > 0 \<and> frs < be_get_block_size ops (sc_b s) then write_fragment ops tid lba w rb data (unat frs) s1
       else Inr (rw_ok, s1))"
    unfolding write_data_def Let_def rb_def [symmetric] min s1(1) frs_def [symmetric] by simp
  show ?thesis
  proof (cases "length data mod bsz = 0")
    case True
    then have "\<not> frs > 0" using frag by (simp add: frs_def word_less_nat_alt)
    moreover have "take (q * bsz) data = data" using rem True by simp
    ultimately show ?thesis using s1 wd by auto
  next
    case False
    have go: "frs > 0 \<and> frs < be_get_block_size ops (sc_b s)"
      using frag False bsz_pos by (simp add: frs_def word_less_nat_alt unat_block_size [OF assms(1)])
    have qn: "q < unat n"
    proof (rule ccontr)
      assume "\<not> q < unat n"
      then have "unat n * bsz \<le> q * bsz" by (intro mult_le_mono1) simp
      then show False using assms(2) rem False by linarith
    qed
    have dlen: "length (disk (sc_b s1)) = length (disk (sc_b s))"
      unfolding s1(5) using assms(2,3) q(2) by (intro length_overwrite) (simp add: on_disk_def)
    have sz: "unat lba + q < unat (be_get_size_in_blocks ops (sc_b s1))"
      using assms(3) qn dlen by (simp add: on_disk_iff [OF assms(1)] unat_size [OF assms(1)] unat_size [OF s1(2)])
    have lock: "locking_status tid s1 \<noteq> l_locked_other"
      using assms(4) same_cfg_locking [OF s1(3)] by simp
    have tail: "slice (q * bsz) (unat frs) data = drop (q * bsz) data"
      using frag rem by (simp add: slice_def frs_def)
    have short: "length (slice (q * bsz) (unat frs) data) \<le> bsz"
    proof -
      have "length (drop (q * bsz) data) = length data mod bsz" using rem by simp
      then show ?thesis unfolding tail using mod_less_divisor [OF bsz_pos, of "length data"] by linarith
    qed
    obtain s2 where s2: "write_fragment ops tid lba w rb data (unat frs) s1 = Inr (rw_ok, s2)" "inv (sc_b s2)"
        "same_cfg s1 s2" "quiet (sc_env s2)"
        "disk (sc_b s2) = overwrite ((unat lba + q) * bsz) (drop (q * bsz) data) (disk (sc_b s1))"
      using write_fragment_law [OF s1(2) sz lock s1(4) rb w short] unfolding tail by blast
    have "disk (sc_b s2) = overwrite (unat lba * bsz) (take (q * bsz) data @ drop (q * bsz) data) (disk (sc_b s))"
      unfolding s2(5) s1(5) add_mult_distrib using assms(2,3) q(2)
      by (intro overwrite_split) (simp_all add: on_disk_def)
    then show ?thesis using s2 wd go s1(3) by (auto intro: same_cfg_trans)
  qed
qed

end

context block_storage
begin

lemma write_verify_law:
  assumes "inv (sc_b s)" and "locking_status tid s \<noteq> l_locked_other" and "quiet (sc_env s)"
    and "write_lba_len CDB opcode = (lba, n)"
    and "validate_request ops (sc_b s) lba n (Some CDB) = None" and "unat n \<le> unat (be_get_size_in_blocks ops (sc_b s))"
    and "unat n \<le> lim" and "unat n * bsz < 2 ^ 32" and "length data \<le> unat n * bsz"
  shows "\<exists>r s'. write_verify ops tid CDB (Some data) opcode s = Inr (r, s') \<and> sense_data r = [] \<and>
    inv (sc_b s') \<and> same_cfg s s' \<and> quiet (sc_env s') \<and>
    disk (sc_b s') = overwrite (unat lba * bsz) data (disk (sc_b s)) \<and>
    (if length data = unat n * bsz then r_type r = ir_empty_sense
     else r_type r = ir_r2t \<and> buffer_lba (r_r2t r) = lba \<and>
       unat (bytes_done (r_r2t r)) = length data div bsz * bsz \<and>
       unat (bytes_done (r_r2t r)) + unat (bytes_left (r_r2t r)) = unat n * bsz)"
proof -
  have od: "on_disk lba n (sc_b s)" by (rule validated_on_disk [OF assms(1,5,6)])
  obtain s1 where s1: "write_data ops tid lba n data s = Inr (rw_ok, s1)" "inv (sc_b s1)" "same_cfg s s1"
      "quiet (sc_env s1)" "disk (sc_b s1) = overwrite (unat lba * bsz) data (disk (sc_b s))"
    using write_data_law [OF assms(1,9) od assms(2,3,7)] by blast
  define bs where "bs = be_get_block_size ops (sc_b s)"
  define q where "q = length data div bsz"
  define rb where "rb = (of_nat (length data) :: u64) div bs"
  have bs: "unat bs = bsz" by (simp add: bs_def unat_block_size [OF assms(1)])
  have len: "length data < 2 ^ 32" using assms(8,9) by simp
  have rb: "unat rb = q" using received_blocks [OF assms(1), of data] len by (simp add: rb_def q_def bs_def)
  have q: "q * bsz \<le> length data" "q \<le> unat n"
    using assms(9) bsz_pos by (auto simp: q_def intro: order.trans [OF div_le_mono])
  have exp: "unat (ucast n * bs :: u64) = unat n * bsz"
    using bs assms(8) by (subst unat_mult_u64) simp_all
  have eq: "(of_nat (length data) :: u64) = ucast n * bs \<longleftrightarrow> length data = unat n * bsz"
    using len exp by (simp add: word_unat_eq_iff unat_of_nat)
  have bdone: "unat (ucast (rb * bs) :: u32) = q * bsz"
  proof -
    have "unat (rb * bs) = q * bsz" using rb bs q(1) len by (subst unat_mult_u64) simp_all
    then show ?thesis using q(1) len by (simp add: unsigned_ucast_eq take_bit_nat_eq_self)
  qed
  have bleft: "unat (ucast ((ucast n - rb) * bs) :: u32) = (unat n - q) * bsz"
  proof -
    have "unat (ucast n - rb :: u64) = unat n - q" using rb q(2) by (simp add: unat_sub word_le_nat_alt)
    moreover have "(unat n - q) * bsz < 2 ^ 32" using assms(8) by (simp add: diff_mult_distrib)
    ultimately show ?thesis
      using bs by (simp add: unsigned_ucast_eq unat_mult_u64 take_bit_nat_eq_self)
  qed
  have le: "rb \<le> ucast n" using rb q(2) by (simp add: word_le_nat_alt)
  show ?thesis
  proof (cases "length data = unat n * bsz")
    case True
    obtain rc s2 where "scsi_sync ops tid s1 = Inr (rc, s2)" "inv (sc_b s2)" "same_cfg s1 s2"
        "disk (sc_b s2) = disk (sc_b s1)" "quiet (sc_env s2)"
      using scsi_sync_law [OF s1(2), of tid] s1(4) by blast
    then show ?thesis
      using s1 assms(4,5) True eq
      by (simp add: write_verify_def Let_def bs_def [symmetric] scsi_response_new_def)
        (blast intro: same_cfg_trans)
  next
    case False
    have "q * bsz + (unat n - q) * bsz = unat n * bsz" using q(2) by (simp add: add_mult_distrib [symmetric])
    then show ?thesis
      using s1 assms(4,5) False eq bdone bleft le
      by (simp add: write_verify_def Let_def bs_def [symmetric] rb_def [symmetric] scsi_response_new_def q_def [symmetric])
  qed
qed

lemma validates:
  assumes "inv b" and "on_disk lba n b" and "drop_bit 5 (CDB ! 1) = 0"
    and "CDB ! 0 \<noteq> o_write_same_10" and "CDB ! 0 \<noteq> o_write_same_16"
  shows "validate_request ops b lba n (Some CDB) = None" and "unat n \<le> unat (be_get_size_in_blocks ops b)"
proof -
  have le: "unat lba + unat n \<le> unat (be_get_size_in_blocks ops b)" using assms(2) by (simp add: on_disk_iff [OF assms(1)])
  then show n: "unat n \<le> unat (be_get_size_in_blocks ops b)" by simp
  have "validate_request ops b lba n None = None" using validate_range [OF n, of lba] le by simp
  then show "validate_request ops b lba n (Some CDB) = None"
    using assms(3-5) by (auto simp: validate_request_def Let_def split: if_splits)
qed

end

lemma write_verify_reply:
  "write_verify ops tid CDB data opcode s = Inr (r, s') \<Longrightarrow> \<not> is_inline r \<and> dd_n_sectors (r_location r) = 0"
  by (auto simp: write_verify_def Let_def scsi_response_new_def bindR_Inr_iff split: prod.splits option.splits if_splits)

section \<open>WRITE and READ on the file backend\<close>

lemma file_lim_bytes: "unat (n :: u32) \<le> file_lim \<Longrightarrow> unat n * 4096 < 2 ^ 32"
  by (simp add: file_lim_def)

lemma send_write:
  "CDB ! 0 \<in> {o_write_6, o_write_10, o_write_verify_10, o_write_12, o_write_16} \<Longrightarrow>
   send ops tid lun CDB data s = write_verify ops tid CDB data (CDB ! 0) s"
  by (auto simp: send_def Let_def)

lemma send_read:
  "CDB ! 0 \<in> {o_read_16, o_read_12, o_read_10, o_read_6} \<Longrightarrow>
   send ops tid lun CDB data s = Inr (read_cmd ops CDB (CDB ! 0) s, s)"
  by (auto simp: send_def Let_def)

definition example_scsi :: "backend_file scsi_st" where
  "example_scsi = scsi_new file_ops example_file 1 example_env"

lemma example_scsi_sel [simp]:
  "sc_b example_scsi = example_file" "locked_by example_scsi = None" "sc_env example_scsi = example_env"
  "trim_level example_scsi = 1"
  by (simp_all add: example_scsi_def scsi_new_def)

lemma example_quiet [simp]: "quiet example_env"
  by (simp add: quiet_def example_env_def)

definition example_write_10 :: "byte list" where
  "example_write_10 = [0x2a, 0, 0, 0, 0, 1, 0, 0, 1, 0, 0, 0, 0, 0, 0, 0]"

definition example_read_10 :: "byte list" where
  "example_read_10 = [0x28, 0, 0, 0, 0, 1, 0, 0, 1, 0, 0, 0, 0, 0, 0, 0]"

lemma example_lba_len:
  "write_lba_len example_write_10 0x2a = (1, 1)" "read_lba_len example_read_10 0x28 = (1, 1)"
  by (simp_all add: write_lba_len_def read_lba_len_def get_lba_len_def get_uint32_t_def
      example_write_10_def example_read_10_def)

lemma example_valid:
  "validate_request file_ops example_file 1 1 (Some example_write_10) = None"
  "validate_request file_ops example_file 1 1 (Some example_read_10) = None"
  by (simp_all add: validate_request_def example_size example_write_10_def example_read_10_def Let_def)

text \<open>
  C6: immediate data of a WRITE command reaches the medium completely, whole blocks as well as a
  trailing partial block (which keeps the rest of that block). If it was all the data the command
  announced the command completes; otherwise an R2T session asks for exactly the rest, from the last
  block boundary on. The file outside the received bytes is unchanged.
\<close>

theorem write_immediate_data:
  assumes "file_inv (sc_b s)" and "locking_status tid s \<noteq> l_locked_other" and "quiet (sc_env s)"
    and "CDB ! 0 \<in> {o_write_6, o_write_10, o_write_verify_10, o_write_12, o_write_16}"
    and "write_lba_len CDB (CDB ! 0) = (lba, n)"
    and "validate_request file_ops (sc_b s) lba n (Some CDB) = None"
    and "unat n \<le> unat (file_get_size_in_blocks (sc_b s))" and "unat n \<le> file_lim"
    and "length data \<le> unat n * 4096"
  shows "\<exists>r s'. send file_ops tid lun CDB (Some data) s = Inr (r, s') \<and> sense_data r = [] \<and>
    bf_contents (sc_b s') = overwrite (unat lba * 4096) data (bf_contents (sc_b s)) \<and>
    (if length data = unat n * 4096 then r_type r = ir_empty_sense
     else r_type r = ir_r2t \<and> buffer_lba (r_r2t r) = lba \<and>
       unat (bytes_done (r_r2t r)) = length data div 4096 * 4096 \<and>
       unat (bytes_done (r_r2t r)) + unat (bytes_left (r_r2t r)) = unat n * 4096)"
  using file_dev.write_verify_law [OF assms(1-3,5,6) _ assms(8) _ assms(9)] assms(7) file_lim_bytes [OF assms(8)]
  unfolding send_write [OF assms(4)] by auto

theorem write_immediate_data_witness:
  "\<exists>r s'. send file_ops 0 1 example_write_10 (Some (replicate 100 9)) example_scsi = Inr (r, s') \<and> sense_data r = [] \<and>
    bf_contents (sc_b s') = overwrite 4096 (replicate 100 9) (bf_contents example_file) \<and>
    r_type r = ir_r2t \<and> buffer_lba (r_r2t r) = 1 \<and> unat (bytes_done (r_r2t r)) = 0 \<and>
    unat (bytes_done (r_r2t r)) + unat (bytes_left (r_r2t r)) = 4096"
proof -
  have op: "example_write_10 ! 0 = 0x2a" by (simp add: example_write_10_def)
  show ?thesis
    using write_immediate_data [of example_scsi 0 example_write_10 1 1 "replicate 100 9" 1]
    by (simp add: example_file_inv op example_lba_len example_valid example_size file_lim_def locking_status_def)
qed

text \<open>
  End to end over \<open>send\<close>: after a WRITE command of any size class whose data was all
  delivered, a READ command of any size class for the same blocks is answered with their location,
  and reading that location yields the written data.
\<close>

theorem write_then_read_command:
  assumes "file_inv (sc_b s)" and "locking_status tid s \<noteq> l_locked_other" and "quiet (sc_env s)"
    and "W ! 0 \<in> {o_write_6, o_write_10, o_write_verify_10, o_write_12, o_write_16}"
    and "R ! 0 \<in> {o_read_16, o_read_12, o_read_10, o_read_6}"
    and "write_lba_len W (W ! 0) = (lba, n)" and "read_lba_len R (R ! 0) = (lba, n)" and "n \<noteq> 0"
    and "validate_request file_ops (sc_b s) lba n (Some W) = None"
    and "validate_request file_ops (sc_b s) lba n (Some R) = None"
    and "unat n \<le> unat (file_get_size_in_blocks (sc_b s))" and "unat n \<le> file_lim"
    and "length data = unat n * 4096"
  shows "\<exists>r s' r' s''. send file_ops tid lun W (Some data) s = Inr (r, s') \<and> r_type r = ir_empty_sense \<and>
    send file_ops tid lun R None s' = Inr (r', s') \<and> sense_data r' = [] \<and> \<not> is_inline r' \<and>
    r_location r' = \<lparr>dd_lba = lba, dd_n_sectors = n\<rparr> \<and>
    scsi_read file_ops tid lba n (replicate (unat n * 4096) 0) s' = Inr (rw_ok, data, s'')"
proof -
  obtain r s' where w: "write_verify file_ops tid W (Some data) (W ! 0) s = Inr (r, s')" "file_inv (sc_b s')"
    "same_cfg s s'" "quiet (sc_env s')" "r_type r = ir_empty_sense"
    "bf_contents (sc_b s') = overwrite (unat lba * 4096) data (bf_contents (sc_b s))"
    using file_dev.write_verify_law [OF assms(1-3,6,9) _ assms(12), of data] assms(11,13) file_lim_bytes [OF assms(12)]
    by auto
  have od: "file_dev.on_disk lba n (sc_b s)"
    using file_dev.validated_on_disk [OF assms(1,9)] assms(11) by simp
  then have room: "unat lba * 4096 + unat n * 4096 \<le> length (bf_contents (sc_b s))"
    by (simp add: file_dev.on_disk_def)
  have len: "length (bf_contents (sc_b s')) = length (bf_contents (sc_b s))"
    unfolding w(6) using room assms(13) by simp
  then have size: "file_get_size_in_blocks (sc_b s') = file_get_size_in_blocks (sc_b s)"
    using assms(1) w(2) by (simp add: file_size_law)
  have v: "validate_request file_ops (sc_b s') lba n (Some R) = None"
    using assms(10) by (simp add: validate_request_def size)
  have lock: "locking_status tid s' \<noteq> l_locked_other" using assms(2) same_cfg_locking [OF w(3)] by simp
  have od': "file_dev.on_disk lba n (sc_b s')" using room len by (simp add: file_dev.on_disk_def)
  obtain s'' where "scsi_read file_ops tid lba n (replicate (unat n * 4096) 0) s' =
      Inr (rw_ok, overwrite 0 (slice (unat lba * 4096) (unat n * 4096) (bf_contents (sc_b s')))
        (replicate (unat n * 4096) 0), s'')"
    using file_dev.scsi_read_law [OF w(2) _ od' lock, of "replicate (unat n * 4096) 0"] w(4) assms(12)
    by (auto simp: rw_of_bool_def)
  moreover have "slice (unat lba * 4096) (unat n * 4096) (bf_contents (sc_b s')) = data"
    unfolding w(6) using room assms(13) by (intro slice_overwrite_same) simp_all
  moreover have "overwrite 0 data (replicate (unat n * 4096) 0) = data"
    using assms(13) by (intro overwrite_zero_all) simp
  ultimately have "scsi_read file_ops tid lba n (replicate (unat n * 4096) 0) s' = Inr (rw_ok, data, s'')"
    by simp
  moreover have "read_cmd file_ops R (R ! 0) s' = (scsi_response_new ir_as_is)\<lparr>amount_of_data_expected :=
      Some (ucast n * 4096), is_inline := False, r_location := \<lparr>dd_lba = lba, dd_n_sectors = n\<rparr>, r_data := None,
      data_is_meta := False\<rparr>"
    using assms(7,8) v by (simp add: read_cmd_def Let_def)
  ultimately show ?thesis
    using w(1,5) unfolding send_write [OF assms(4)] send_read [OF assms(5)]
    by (auto simp: scsi_response_new_def)
qed

theorem write_then_read_command_witness:
  "\<exists>r s' r' s''. send file_ops 0 1 example_write_10 (Some (replicate 4096 9)) example_scsi = Inr (r, s') \<and>
    r_type r = ir_empty_sense \<and>
    send file_ops 0 1 example_read_10 None s' = Inr (r', s') \<and> sense_data r' = [] \<and> \<not> is_inline r' \<and>
    r_location r' = \<lparr>dd_lba = 1, dd_n_sectors = 1\<rparr> \<and>
    scsi_read file_ops 0 1 1 (replicate (unat (1 :: u32) * 4096) 0) s' = Inr (rw_ok, replicate 4096 9, s'')"
proof -
  have op: "example_write_10 ! 0 = 0x2a" "example_read_10 ! 0 = 0x28"
    by (simp_all add: example_write_10_def example_read_10_def)
  show ?thesis
    by (rule write_then_read_command)
      (simp_all add: example_file_inv op example_lba_len example_valid example_size file_lim_def locking_status_def)
qed

text \<open>
  While another connection holds the reservation, no SCSI command, whatever its CDB and data,
  changes the backend, the reservation or the environment; only the statistics of the caller move.
\<close>

theorem send_locked_out:
  assumes "locked_by s = Some t" and "t \<noteq> tid" and "send ops tid lun CDB data s = Inr (r, s')"
  shows "sc_b s' = sc_b s \<and> locked_by s' = Some t \<and> sc_env s' = sc_env s"
proof -
  have l: "locking_status tid s = l_locked_other" using assms by (simp add: locking_status_other)
  have "only_stats s s'"
    using assms
    by (auto simp: send_def Let_def reserve_cmd_def reserve_device_def release_cmd_def unlock_device_def
        split: if_splits dest!: other_commands_locked [OF l] write_verify_locked [OF l])
  then show ?thesis using assms(1) by (auto simp: only_stats_def)
qed

theorem send_locked_out_witness:
  "\<exists>r s'. send file_ops 0 1 (0x17 # replicate 15 0) None (example_scsi\<lparr>locked_by := Some 1\<rparr>) = Inr (r, s') \<and>
     sc_b s' = example_file \<and> locked_by s' = Some 1 \<and> sc_env s' = example_env"
proof -
  define s where "s = example_scsi\<lparr>locked_by := Some 1\<rparr>"
  have s: "sc_b s = example_file" "sc_env s = example_env" "locked_by s = Some 1" by (simp_all add: s_def)
  have "send file_ops 0 1 (0x17 # replicate 15 0) None s = Inr (release_cmd 0 s)"
    by (simp add: send_def Let_def)
  then obtain r s' where "send file_ops 0 1 (0x17 # replicate 15 0) None s = Inr (r, s')"
    by (cases "release_cmd 0 s") simp
  then show ?thesis using send_locked_out [of s 1 0] s unfolding s_def [symmetric] by fastforce
qed

end
