(* ===== verification/Scsi_Errors.thy ===== *)
theory Scsi_Errors
  imports Scsi_Write
begin

text \<open>
  What the SCSI commands report when the medium fails or when the data does not come with the
  command, and the compare-and-swap of COMPARE AND WRITE.
\<close>

section \<open>Error reporting\<close>

lemma write_never_fail_rw:
  "scsi_write ops tid nr n data s = Inr (rc, s') \<Longrightarrow> rc \<noteq> rw_fail_rw"
  "scsi_read ops tid nr n data s = Inr (rc, data', s') \<Longrightarrow> rc \<noteq> rw_fail_rw"
  by (auto simp: access_defs Let_def sc_micros_eq bindR_Inr_iff rw_of_bool_def split: if_splits)

lemma trim_loop_never_fail_rw: "trim_zero_loop ops tid nr k z s = Inr (rc, s') \<Longrightarrow> rc \<noteq> rw_fail_rw"
proof (induction k arbitrary: nr s)
  case (Suc k)
  then show ?case by (auto simp: bindR_Inr_iff split: if_splits dest: write_never_fail_rw)
qed simp

lemma trim_never_fail_rw: "scsi_trim ops tid nr n s = Inr (rc, s') \<Longrightarrow> rc \<noteq> rw_fail_rw"
  by (auto simp: scsi_trim_def Let_def sc_micros_eq bindR_Inr_iff rw_of_bool_def split: if_splits
      dest: trim_loop_never_fail_rw)

lemma write_data_never_fail_rw: "write_data ops tid nr n d s = Inr (rc, s') \<Longrightarrow> rc \<noteq> rw_fail_rw"
  by (auto simp: write_data_def write_fragment_def Let_def bindR_Inr_iff split: if_splits
      dest: write_never_fail_rw)

lemma write_same_loop_never_fail_rw: "write_same_loop ops tid u d nr k s = Inr (rc, s') \<Longrightarrow> rc \<noteq> rw_fail_rw"
proof (induction k arbitrary: nr s)
  case (Suc k)
  then show ?case
    by (auto simp: bindR_Inr_iff split: if_splits dest: write_never_fail_rw trim_never_fail_rw)
qed simp

lemma validate_request_sense:
  "validate_request ops b nr n CDB = Some vr \<Longrightarrow> vr = error_out_of_range \<or> vr = error_invalid_field"
  by (auto simp: validate_request_def Let_def split: if_splits option.splits)

lemma sense_distinct [simp]:
  "error_write_error \<noteq> error_out_of_range" "error_write_error \<noteq> error_invalid_field"
  "error_write_error \<noteq> error_reservation_conflict_1" "error_write_error \<noteq> []" "[] \<noteq> error_write_error"
  "error_out_of_range \<noteq> error_write_error" "error_invalid_field \<noteq> error_write_error"
  "error_reservation_conflict_1 \<noteq> error_write_error"
  by (simp_all add: sense_defs)

text \<open>
  A WRITE or WRITE SAME command never reports the write-error sense data the handlers have a
  branch for: \<open>scsi::write\<close>, \<open>scsi::read\<close> and \<open>scsi::trim\<close> turn a failing backend into \<open>rw_fail_general\<close>,
  and the handlers only look for \<open>rw_fail_rw\<close>.
\<close>

theorem write_error_never_reported:
  assumes "CDB ! 0 \<in> {o_write_6, o_write_10, o_write_verify_10, o_write_12, o_write_16, o_write_same_10, o_write_same_16}"
    and "send ops tid lun CDB data s = Inr (r, s')"
  shows "sense_data r \<noteq> error_write_error"
proof (cases "CDB ! 0 \<in> {o_write_same_10, o_write_same_16}")
  case True
  then have "write_same ops tid CDB data (CDB ! 0) s = Inr (r, s')"
    using assms(2) by (auto simp: send_def Let_def)
  then show ?thesis
    by (auto simp: write_same_def Let_def bindR_Inr_iff scsi_response_new_def
        split: if_splits option.splits prod.splits
        dest!: write_same_loop_never_fail_rw validate_request_sense)
next
  case False
  then have "write_verify ops tid CDB data (CDB ! 0) s = Inr (r, s')"
    using assms send_write [of CDB ops tid lun data s] by auto
  then show ?thesis
    by (auto simp: write_verify_def Let_def bindR_Inr_iff scsi_response_new_def
        split: if_splits option.splits prod.splits
        dest!: write_data_never_fail_rw validate_request_sense)
qed

definition failing_env :: env where
  "failing_env = \<lparr>clock = [], sys = [Io_err], entropy = [], machine_id = None\<rparr>"

text \<open>
  A failing medium: the write is lost and the response carries neither sense data nor a status.
\<close>

lemma failing_pwrite:
  "sys_pwrite 3 (replicate 4096 9) 4096 4096 (replicate 8192 7) failing_env =
   Inr (-1, replicate 8192 7, failing_env\<lparr>sys := []\<rparr>)"
  by (simp add: sys_pwrite_def next_outcome_def failing_env_def io_limit_def)

lemma failing_write:
  "\<exists>s'. scsi_write file_ops 0 1 1 (replicate 4096 9) (example_scsi\<lparr>sc_env := failing_env\<rparr>) =
     Inr (rw_fail_general, s') \<and> bf_contents (sc_b s') = bf_contents example_file"
proof -
  obtain ls where "lock_range 1 1 no_locks = Inr (lock_indexes 1 1, ls)" by (rule lock_range_balanced)
  moreover have "get_micros failing_env = (0, failing_env)" by (simp add: get_micros_def failing_env_def)
  moreover have "get_micros (failing_env\<lparr>sys := []\<rparr>) = (0, failing_env\<lparr>sys := []\<rparr>)"
    by (simp add: get_micros_def failing_env_def)
  ultimately show ?thesis
    using failing_pwrite
    by (simp add: scsi_write_def Let_def sc_micros_eq locking_status_def file_write_def example_file_def
        rw_of_bool_def)
qed

theorem write_error_never_reported_witness:
  "\<exists>r s'. send file_ops 0 1 example_write_10 (Some (replicate 4096 9)) (example_scsi\<lparr>sc_env := failing_env\<rparr>) = Inr (r, s') \<and>
     sense_data r \<noteq> error_write_error \<and> sense_data r = [] \<and> r_type r = ir_as_is \<and> r_data r = None \<and>
     bf_contents (sc_b s') = bf_contents example_file"
proof -
  let ?s = "example_scsi\<lparr>sc_env := failing_env\<rparr>"
  have op: "example_write_10 ! 0 = 0x2a" by (simp add: example_write_10_def)
  obtain s' where w: "scsi_write file_ops 0 1 1 (replicate 4096 9) ?s = Inr (rw_fail_general, s')"
    "bf_contents (sc_b s') = bf_contents example_file"
    using failing_write by blast
  have "write_data file_ops 0 1 1 (replicate 4096 9) ?s = Inr (rw_fail_general, s')"
    using w by (simp add: write_data_def Let_def)
  then obtain r where r: "send file_ops 0 1 example_write_10 (Some (replicate 4096 9)) ?s = Inr (r, s')"
    "sense_data r = []" "r_type r = ir_as_is" "r_data r = None"
    using example_valid(1) example_lba_len(1)
    by (simp add: send_def op write_verify_def Let_def scsi_response_new_def)
  then show ?thesis using w write_error_never_reported [OF _ r(1)] op by auto
qed

text \<open>
  WRITE SAME that arrives without immediate data never writes: on every backend with blocks
  larger than \<open>MAX_WS_LEN\<close> bytes the branch that would open an R2T session is unreachable, and an
  accepted command is answered with success although the medium is untouched.
\<close>

theorem write_same_without_data:
  assumes "CDB ! 0 \<in> {o_write_same_10, o_write_same_16}" and "MAX_WS_LEN < unat (be_get_block_size ops (sc_b s))"
    and "send ops tid lun CDB None s = Inr (r, s')"
  shows "s' = s \<and> r_type r \<noteq> ir_r2t \<and> (sense_data r = [] \<longrightarrow> r_type r = ir_empty_sense)"
proof -
  have ws: "write_same ops tid CDB None (CDB ! 0) s = Inr (r, s')"
    using assms(1,3) by (auto simp: send_def Let_def)
  define lt where "lt = (if CDB ! 0 = o_write_same_16 then get_lba_len CDB cs_16 else get_lba_len CDB cs_10)"
  have short: "(ucast (snd lt) :: u64) \<noteq> be_get_block_size ops (sc_b s)"
    if "validate_request ops (sc_b s) (fst lt) (snd lt) (Some CDB) = None"
  proof
    assume "(ucast (snd lt) :: u64) = be_get_block_size ops (sc_b s)"
    then have "unat (snd lt) = unat (be_get_block_size ops (sc_b s))"
      by (metis unat_ucast_u32_u64)
    then show False using that assms(1,2) by (auto simp: validate_request_def Let_def split: if_splits)
  qed
  have ne: "vr \<noteq> []" if "validate_request ops (sc_b s) (fst lt) (snd lt) (Some CDB) = Some vr" for vr
    using validate_request_sense [OF that] by (auto simp: sense_defs)
  show ?thesis
    using ws assms(1) short ne unfolding lt_def
    by (auto simp: write_same_def Let_def scsi_response_new_def split: if_splits option.splits prod.splits)
qed

definition example_write_same_10 :: "byte list" where
  "example_write_same_10 = [0x41, 0, 0, 0, 0, 0, 0, 0, 2, 0, 0, 0, 0, 0, 0, 0]"

theorem write_same_without_data_witness:
  "\<exists>r s'. send file_ops 0 1 example_write_same_10 None example_scsi = Inr (r, s') \<and>
     s' = example_scsi \<and> r_type r \<noteq> ir_r2t \<and> (sense_data r = [] \<longrightarrow> r_type r = ir_empty_sense) \<and> sense_data r = []"
proof -
  have l: "get_lba_len example_write_same_10 cs_10 = (0, 2)"
    by (simp add: get_lba_len_def get_uint32_t_def example_write_same_10_def)
  have v: "validate_request file_ops example_file 0 2 (Some example_write_same_10) = None"
    by (simp add: validate_request_def example_size example_write_same_10_def Let_def MAX_WS_LEN_def)
  have op: "example_write_same_10 ! 0 = 0x41" by (simp add: example_write_same_10_def)
  obtain r s' where "send file_ops 0 1 example_write_same_10 None example_scsi = Inr (r, s')" "sense_data r = []"
    by (simp add: send_def op write_same_def l v Let_def scsi_response_new_def)
  then show ?thesis
    using write_same_without_data [of example_write_same_10 file_ops example_scsi 0 1 r s'] op
    by (simp add: MAX_WS_LEN_def)
qed

section \<open>COMPARE AND WRITE\<close>

definition caw_lba :: "byte list \<Rightarrow> u64" where
  "caw_lba CDB = get_uint64_t CDB 2"

text \<open>
  C35: a COMPARE AND WRITE of one block on the device with exactly two blocks of data compares the
  block with the first half and stores the second half, or changes nothing: success means the old
  contents equalled the verify data; a miscompare is reported with its own sense data and leaves the
  medium as it was.
\<close>

theorem compare_and_write_swaps:
  assumes "file_inv (sc_b s)" and "locking_status tid s \<noteq> l_locked_other" and "quiet (sc_env s)"
    and "CDB ! 0 = o_compare_and_write" and "CDB ! 13 = 1"
    and "unat (caw_lba CDB) < unat (file_get_size_in_blocks (sc_b s))"
    and "length old = 4096" and "length new = 4096"
  shows "\<exists>r s'. send file_ops tid lun CDB (Some (old @ new)) s = Inr (r, s') \<and>
    (if slice (unat (caw_lba CDB) * 4096) 4096 (bf_contents (sc_b s)) = old
     then r_type r = ir_empty_sense \<and> sense_data r = [] \<and>
       bf_contents (sc_b s') = overwrite (unat (caw_lba CDB) * 4096) new (bf_contents (sc_b s))
     else sense_data r = error_miscompare \<and> bf_contents (sc_b s') = bf_contents (sc_b s))"
proof -
  define lb where "lb = caw_lba CDB"
  have od: "file_dev.on_disk lb 1 (sc_b s)"
    using assms(6) by (simp add: file_dev.on_disk_iff [OF assms(1)] lb_def)
  have v: "validate_request file_ops (sc_b s) lb 1 (Some CDB) = None"
    using validate_range [of 1 file_ops "sc_b s" lb] assms(4,6)
    by (auto simp: validate_request_def Let_def lb_def split: if_splits)
  obtain k c s' where c: "scsi_cmpwrite file_ops tid lb 1 new (old @ new) s = Inr (rw_of_cmpwrite c, s')"
    "bf_contents (sc_b s') = overwrite (unat lb * 4096) (take k new) (bf_contents (sc_b s))" "k \<le> 4096"
    "c = CWR_OK \<longrightarrow> k = 4096" "c \<in> {CWR_MISMATCH, CWR_READ_ERROR} \<longrightarrow> k = 0"
    "c \<in> {CWR_OK, CWR_WRITE_ERROR} \<longrightarrow> slice (unat lb * 4096) 4096 (bf_contents (sc_b s)) = old"
    "c = CWR_MISMATCH \<longrightarrow> slice (unat lb * 4096) 4096 (bf_contents (sc_b s)) \<noteq> old"
    "c \<noteq> CWR_READ_ERROR" "c \<noteq> CWR_WRITE_ERROR"
    using file_dev.scsi_cmpwrite_law [OF assms(1) _ _ od assms(2), of new "old @ new"] assms(3,7,8)
    by (auto simp: file_lim_def)
  have "\<exists>r. send file_ops tid lun CDB (Some (old @ new)) s = Inr (r, s') \<and>
      (c = CWR_OK \<longrightarrow> r_type r = ir_empty_sense \<and> sense_data r = []) \<and>
      (c = CWR_MISMATCH \<longrightarrow> sense_data r = error_miscompare)"
    using c(1) v assms(4,5,7)
    by (cases c) (simp_all add: send_def compare_and_write_def Let_def lb_def caw_lba_def the_data_def
        max_compare_and_write_block_count_def rw_of_cmpwrite_def scsi_response_new_def)
  then obtain r where r: "send file_ops tid lun CDB (Some (old @ new)) s = Inr (r, s')"
      "c = CWR_OK \<longrightarrow> r_type r = ir_empty_sense \<and> sense_data r = []"
      "c = CWR_MISMATCH \<longrightarrow> sense_data r = error_miscompare" by blast
  show ?thesis
    using r c assms(8) unfolding lb_def [symmetric] by (cases c) (auto intro!: exI [of _ r] exI [of _ s'])
qed

definition example_caw :: "byte list" where
  "example_caw = [0x89, 0, 0, 0, 0, 0, 0, 0, 0, 1, 0, 0, 0, 1, 0, 0]"

theorem compare_and_write_swaps_witness:
  "\<exists>r s'. send file_ops 0 1 example_caw (Some (replicate 4096 7 @ replicate 4096 9)) example_scsi = Inr (r, s') \<and>
    (if slice (unat (caw_lba example_caw) * 4096) 4096 (bf_contents (sc_b example_scsi)) = replicate 4096 7
     then r_type r = ir_empty_sense \<and> sense_data r = [] \<and>
       bf_contents (sc_b s') = overwrite (unat (caw_lba example_caw) * 4096) (replicate 4096 9) (bf_contents (sc_b example_scsi))
     else sense_data r = error_miscompare \<and> bf_contents (sc_b s') = bf_contents (sc_b example_scsi))"
  by (rule compare_and_write_swaps)
    (simp_all add: example_file_inv locking_status_def example_caw_def caw_lba_def get_uint64_t_def example_size)

end
