(* ===== verification/Scsi_Inform.thy ===== *)
theory Scsi_Inform
  imports Scsi_Errors
begin

text \<open>
  Capacity, UNMAP and the self-description of the target (\<^verbatim>\<open>scsi.cpp\<close>).
\<close>

section \<open>Capacity\<close>

lemma get_uint64_t_bytes:
  "get_uint64_t (map (\<lambda>k. byte_shr k x) [56, 48, 40, 32, 24, 16, 8, 0] @ ys) 0 = x"
proof -
  have "get_uint64_t (map (\<lambda>k. byte_shr k x) [56, 48, 40, 32, 24, 16, 8, 0] @ ys) 0 =
     (push_bit 56 (ucast (byte_shr 56 x)) OR push_bit 48 (ucast (byte_shr 48 x))
     OR push_bit 40 (ucast (byte_shr 40 x)) OR push_bit 32 (ucast (byte_shr 32 x))
     OR push_bit 24 (ucast (byte_shr 24 x)) OR push_bit 16 (ucast (byte_shr 16 x))
     OR push_bit 8 (ucast (byte_shr 8 x)) OR ucast (byte_shr 0 x))"
    by (simp add: get_uint64_t_def)
  also have "\<dots> = x"
  proof (rule bit_word_eqI)
  fix n assume "n < LENGTH(64)"
  then consider "n < 8" | "8 \<le> n" "n < 16" | "16 \<le> n" "n < 24" | "24 \<le> n" "n < 32"
    | "32 \<le> n" "n < 40" | "40 \<le> n" "n < 48" | "48 \<le> n" "n < 56" | "56 \<le> n" "n < 64"
    by fastforce
  then show "bit (push_bit 56 (ucast (byte_shr 56 x)) OR push_bit 48 (ucast (byte_shr 48 x))
     OR push_bit 40 (ucast (byte_shr 40 x)) OR push_bit 32 (ucast (byte_shr 32 x))
     OR push_bit 24 (ucast (byte_shr 24 x)) OR push_bit 16 (ucast (byte_shr 16 x))
     OR push_bit 8 (ucast (byte_shr 8 x)) OR ucast (byte_shr 0 x) :: u64) n = bit x n"
    unfolding byte_shr_def bit_or_iff
    by cases (simp_all add: bit_simps less_diff_conv2)
qed
  finally show ?thesis .
qed
lemma get_uint32_t_bytes:
  assumes "p ! o' = byte_shr 24 x" "p ! (o' + 1) = byte_shr 16 x" "p ! (o' + 2) = byte_shr 8 x" "p ! (o' + 3) = byte_shr 0 x"
  shows "get_uint32_t p o' = ucast x"
proof (rule bit_word_eqI)
  fix n assume "n < LENGTH(32)"
  then consider "n < 8" | "8 \<le> n" "n < 16" | "16 \<le> n" "n < 24" | "24 \<le> n" "n < 32"
    by fastforce
  then show "bit (get_uint32_t p o') n = bit (ucast x :: u32) n"
    unfolding get_uint32_t_def assms byte_shr_def bit_or_iff
    by cases (simp_all add: bit_simps less_diff_conv2)
qed

lemma get_uint64_t_take: "8 \<le> k \<Longrightarrow> get_uint64_t (take k p) 0 = get_uint64_t p 0"
  by (simp add: get_uint64_t_def)

text \<open>
  READ CAPACITY(16) with an allocation length that covers its first two fields reports the last
  block address of the backend in 64 bits and the block size in 32; READ CAPACITY(10) reports both in
  32 bits, so a last block address that needs more is truncated.
\<close>

theorem capacity_reported:
  assumes "CDB ! 0 = o_get_lba_status" and "CDB ! 1 AND 31 = 0x10" and "12 \<le> unat (get_uint32_t CDB 10)"
    and "CDB' ! 0 = o_read_capacity_10"
  shows "\<exists>r d r' d'. send ops tid lun CDB data s = Inr (r, s) \<and> r_data r = Some d \<and>
    get_uint64_t d 0 = be_get_size_in_blocks ops (sc_b s) - 1 \<and>
    get_uint32_t d 8 = ucast (be_get_block_size ops (sc_b s)) \<and> length d \<le> 32 \<and>
    send ops tid lun CDB' data s = Inr (r', s) \<and> r_data r' = Some d' \<and>
    get_uint32_t d' 0 = ucast (be_get_size_in_blocks ops (sc_b s) - 1) \<and>
    get_uint32_t d' 4 = ucast (be_get_block_size ops (sc_b s)) \<and> length d' = 8"
proof -
  define x where "x = be_get_size_in_blocks ops (sc_b s) - 1"
  define bs where "bs = be_get_block_size ops (sc_b s)"
  define y where "y = (ucast (ucast bs :: u32) :: u64)"
  define d0 where "d0 = (map (\<lambda>k. byte_shr k x) [56, 48, 40, 32, 24, 16, 8, 0]
                        @ map (\<lambda>k. byte_shr k y) [24, 16, 8, 0] @ replicate 20 0)[12 := push_bit 4 1, 14 := 128 OR 64]"
  define d where "d = take (unat (get_uint32_t CDB 10)) d0"
  have nz: "get_uint32_t CDB 10 \<noteq> 0" using assms(3) by auto
  have "get_uint64_t d 0 = get_uint64_t d0 0" using assms(3) by (simp add: d_def get_uint64_t_take)
  also have "\<dots> = x"
    using get_uint64_t_bytes [of x] by (simp add: d0_def get_uint64_t_def)
  finally have 1: "get_uint64_t d 0 = x" .
  have "get_uint32_t d 8 = ucast y"
    using assms(3) by (intro get_uint32_t_bytes) (simp_all add: d_def d0_def)
  moreover have "(ucast y :: u32) = ucast bs"
    unfolding y_def by (rule bit_word_eqI) (simp add: bit_simps)
  ultimately have 2: "get_uint32_t d 8 = ucast bs" by simp
  have 3: "send ops tid lun CDB data s = Inr (inline_reply d (scsi_response_new ir_as_is), s)"
    using assms(1,2) nz
    by (simp add: send_def get_lba_status_def Let_def d_def d0_def x_def bs_def y_def)
  define d' where "d' = [byte_shr 24 x, byte_shr 16 x, byte_shr 8 x, byte_shr 0 x,
     byte_shr 24 bs, byte_shr 16 bs, byte_shr 8 bs, byte_shr 0 bs]"
  have 4: "send ops tid lun CDB' data s = Inr (inline_reply d' (scsi_response_new ir_as_is), s)"
    using assms(4) by (simp add: send_def read_capacity_10_def Let_def d'_def x_def bs_def)
  have 5: "get_uint32_t d' 0 = ucast x" "get_uint32_t d' 4 = ucast bs" "length d' = 8"
    by (auto simp: d'_def intro!: get_uint32_t_bytes)
  have 6: "length d \<le> 32" by (simp add: d_def d0_def)
  show ?thesis
    using 1 2 3 4 5 6 unfolding x_def [symmetric] bs_def [symmetric] by (simp add: inline_reply_def)
qed

theorem capacity_reported_witness:
  "\<exists>r d r' d'. send file_ops 0 1 [0x9e, 0x10, 0, 0, 0, 0, 0, 0, 0, 0, 0, 0, 0, 32, 0, 0] None example_scsi = Inr (r, example_scsi) \<and>
    r_data r = Some d \<and> get_uint64_t d 0 = be_get_size_in_blocks file_ops (sc_b example_scsi) - 1 \<and>
    get_uint32_t d 8 = ucast (be_get_block_size file_ops (sc_b example_scsi)) \<and> length d \<le> 32 \<and>
    send file_ops 0 1 (0x25 # replicate 15 0) None example_scsi = Inr (r', example_scsi) \<and> r_data r' = Some d' \<and>
    get_uint32_t d' 0 = ucast (be_get_size_in_blocks file_ops (sc_b example_scsi) - 1) \<and>
    get_uint32_t d' 4 = ucast (be_get_block_size file_ops (sc_b example_scsi)) \<and> length d' = 8"
  by (rule capacity_reported) (simp_all add: get_uint32_t_def)

section \<open>UNMAP\<close>

text \<open>A block descriptor of an UNMAP parameter list.\<close>

definition unmap_descriptor :: "u64 \<times> u32 \<Rightarrow> byte list" where
  "unmap_descriptor d = rev (le64_bytes (fst d)) @ rev (le32_bytes (snd d)) @ replicate 4 0"

definition unmap_parameters :: "(u64 \<times> u32) list \<Rightarrow> byte list" where
  "unmap_parameters ds = replicate 8 0 @ concat (map unmap_descriptor ds)"

lemma length_unmap_descriptor [simp]: "length (unmap_descriptor d) = 16"
  by (simp add: unmap_descriptor_def)

lemma le64_byte_shr: "rev (le64_bytes x) = map (\<lambda>k. byte_shr k x) [56, 48, 40, 32, 24, 16, 8, 0]"
  by (simp add: le64_bytes_def byte_shr_def)

lemma rev_le32: "rev (le32_bytes x) =
  [ucast (drop_bit 24 x), ucast (drop_bit 16 x), ucast (drop_bit 8 x), ucast x]"
  by (simp add: le32_bytes_def)

lemma get_uint64_t_append: "length pre = i \<Longrightarrow> get_uint64_t (pre @ p) i = get_uint64_t p 0"
  by (simp add: get_uint64_t_def nth_append numeral_2_eq_2)

lemma get_uint32_t_append: "length pre = i \<Longrightarrow> get_uint32_t (pre @ p) (i + k) = get_uint32_t p k"
  by (simp add: get_uint32_t_def nth_append)

lemma get_uint32_t_rev_le32: "get_uint32_t (rev (le32_bytes x) @ ys) 0 = x"
proof (rule bit_word_eqI)
  fix n assume "n < LENGTH(32)"
  then consider "n < 8" | "8 \<le> n" "n < 16" | "16 \<le> n" "n < 24" | "24 \<le> n" "n < 32"
    by fastforce
  then show "bit (get_uint32_t (rev (le32_bytes x) @ ys) 0) n = bit x n"
    unfolding rev_le32 get_uint32_t_def bit_or_iff by cases (simp_all add: bit_simps less_diff_conv2)
qed

lemma unmap_descriptor_fields:
  assumes "length pre = i"
  shows "get_uint64_t (pre @ unmap_descriptor d @ post) i = fst d"
    and "get_uint32_t (pre @ unmap_descriptor d @ post) (i + 8) = snd d"
proof -
  show "get_uint64_t (pre @ unmap_descriptor d @ post) i = fst d"
    using get_uint64_t_bytes [of "fst d"]
    by (simp add: get_uint64_t_append [OF assms] unmap_descriptor_def le64_byte_shr)
  have "get_uint32_t (rev (le64_bytes (fst d)) @ rev (le32_bytes (snd d)) @ replicate 4 0 @ post) (8 + 0) = snd d"
    by (subst get_uint32_t_append) (simp_all add: get_uint32_t_rev_le32)
  then show "get_uint32_t (pre @ unmap_descriptor d @ post) (i + 8) = snd d"
    by (simp add: get_uint32_t_append [OF assms] unmap_descriptor_def)
qed

text \<open>What a list of descriptors should do to the medium.\<close>

definition zero_blocks :: "nat \<Rightarrow> u64 \<times> u32 \<Rightarrow> byte list \<Rightarrow> byte list" where
  "zero_blocks bs d c = overwrite (unat (fst d) * bs) (replicate (unat (snd d) * bs) 0) c"

context block_storage
begin

lemma unmap_loop_law:
  assumes "inv (sc_b s)" and "locking_status tid s \<noteq> l_locked_other" and "quiet (sc_env s)"
    and "\<And>d. d \<in> set ds \<Longrightarrow> on_disk (fst d) (snd d) (sc_b s) \<and> snd d \<le> MAX_UNMAP_BLOCKS"
    and "pd = pre @ concat (map unmap_descriptor ds)" and "length pre = i"
  shows "\<exists>s'. unmap_loop ops tid pd i rw_ok [] s = Inr (rw_ok, [], s') \<and> inv (sc_b s') \<and> same_cfg s s' \<and>
    quiet (sc_env s') \<and> disk (sc_b s') = fold (zero_blocks bsz) ds (disk (sc_b s))"
  using assms
proof (induction ds arbitrary: s pre i)
  case Nil
  then show ?case by (subst unmap_loop.simps) simp
next
  case (Cons d ds)
  define s0 where "s0 = s"
  have od: "on_disk (fst d) (snd d) (sc_b s)" and mx: "\<not> snd d > MAX_UNMAP_BLOCKS"
    using Cons.prems(4) [of d] by auto
  have f: "get_uint64_t pd i = fst d" "get_uint32_t pd (i + 8) = snd d" and len: "i + 16 \<le> length pd"
    using unmap_descriptor_fields [OF Cons.prems(6)] Cons.prems(5,6) by simp_all
  have "unat (snd d) \<le> unat (be_get_size_in_blocks ops (sc_b s))"
    using od by (simp add: on_disk_iff [OF Cons.prems(1)])
  then have v: "validate_request ops (sc_b s) (fst d) (snd d) None = None"
    using od by (simp add: validate_range on_disk_iff [OF Cons.prems(1)])
  have "\<exists>s1. (if snd d > 0 then scsi_trim ops tid (fst d) (snd d) s else Inr (rw_ok, s)) = Inr (rw_ok, s1) \<and>
      inv (sc_b s1) \<and> same_cfg s s1 \<and> quiet (sc_env s1) \<and> disk (sc_b s1) = zero_blocks bsz d (disk (sc_b s))"
  proof (cases "snd d > 0")
    case True
    then show ?thesis
      using scsi_trim_law [OF Cons.prems(1) od Cons.prems(2)] Cons.prems(3)
      by (auto simp: rw_of_bool_def zero_blocks_def)
  next
    case False
    then have "snd d = 0" by (simp add: word_gt_0)
    then show ?thesis using Cons.prems(1,3) by (simp add: zero_blocks_def)
  qed
  then obtain s1 where s1: "(if snd d > 0 then scsi_trim ops tid (fst d) (snd d) s else Inr (rw_ok, s)) = Inr (rw_ok, s1)"
      "inv (sc_b s1)" "same_cfg s s1" "quiet (sc_env s1)" "disk (sc_b s1) = zero_blocks bsz d (disk (sc_b s))"
    by blast
  have "length (disk (sc_b s1)) = length (disk (sc_b s))"
    using od unfolding s1(5) zero_blocks_def on_disk_def by simp
  then have od1: "on_disk (fst x) (snd x) (sc_b s1) \<and> snd x \<le> MAX_UNMAP_BLOCKS" if "x \<in> set ds" for x
    using Cons.prems(4) [of x] that by (simp add: on_disk_def)
  have "\<exists>s'. unmap_loop ops tid pd (i + 16) rw_ok [] s1 = Inr (rw_ok, [], s') \<and> inv (sc_b s') \<and> same_cfg s1 s' \<and>
    quiet (sc_env s') \<and> disk (sc_b s') = fold (zero_blocks bsz) ds (disk (sc_b s1))"
    using Cons.prems(2,5,6) same_cfg_locking [OF s1(3)] od1
    by (intro Cons.IH [OF s1(2) _ s1(4), of "pre @ unmap_descriptor d"]) simp_all
  then obtain s' where s': "unmap_loop ops tid pd (i + 16) rw_ok [] s1 = Inr (rw_ok, [], s')" "inv (sc_b s')"
      "same_cfg s1 s'" "quiet (sc_env s')" "disk (sc_b s') = fold (zero_blocks bsz) ds (disk (sc_b s1))"
    by blast
  have "unmap_loop ops tid pd i rw_ok [] s = Inr (rw_ok, [], s')"
    using s1(1) s'(1) len mx v f by (subst unmap_loop.simps) (auto simp: Let_def split: if_splits)
  then show ?case using s' s1(3,5) by (auto intro: same_cfg_trans)
qed

end



section \<open>Self-description\<close>

lemma sort_key_keys: "fst ` set scsi_a3_data = fst ` set scsi_a3_init" "length scsi_a3_data = 24"
  by (simp_all add: scsi_a3_data_def) (simp add: scsi_a3_init_def)

definition dispatched :: "byte set" where
  "dispatched = {o_test_unit_ready, o_mode_sense_6, o_inquiry, o_read_capacity_10, o_write_6, o_write_10,
     o_write_verify_10, o_write_12, o_write_16, o_read_16, o_read_12, o_read_10, o_read_6, o_sync_cache_10,
     o_report_luns, o_compare_and_write, o_prefetch_10, o_prefetch_16, o_reserve_6, o_release_6, o_unmap,
     o_write_same_10, o_write_same_16}"

definition implemented :: "byte list \<Rightarrow> bool" where
  "implemented sense \<longleftrightarrow> sense \<noteq> error_not_implemented"

lemma implemented_simps [simp]:
  "implemented []" "implemented error_out_of_range" "implemented error_invalid_field"
  "implemented error_reservation_conflict_1" "implemented error_write_error" "implemented error_miscompare"
  "implemented error_compare_and_write_count" "implemented [0x72, 0x05, 0x24, 0, 0, 0, 0, 0]"
  by (simp_all add: implemented_def sense_defs)

lemma validate_request_implemented: "validate_request ops b nr n CDB = Some vr \<Longrightarrow> implemented vr"
  using validate_request_sense [of ops b nr n CDB vr] by auto

lemma unmap_loop_sense:
  "unmap_loop ops tid pd i rc sense s = Inr (rc', sense', s') \<Longrightarrow> implemented sense \<Longrightarrow> implemented sense'"
proof (induction "length pd - i" arbitrary: i rc sense s rule: less_induct)
  case less
  have IH: "implemented sense'"
    if "unmap_loop ops tid pd (i + 16) rc sense s = Inr (rc', sense', s')" "i < length pd" "implemented sense" for rc sense s
    using that by (intro less.hyps [of "i + 16" rc sense s]) simp_all
  show ?case
    using less.prems
    by (subst (asm) unmap_loop.simps)
      (auto simp: Let_def bindR_Inr_iff split: if_splits option.splits intro: IH validate_request_implemented)
qed

lemma write_verify_implemented:
  "write_verify ops tid CDB data op s = Inr (r, s') \<Longrightarrow> implemented (sense_data r)"
  by (auto simp: write_verify_def Let_def bindR_Inr_iff scsi_response_new_def
      split: if_splits option.splits prod.splits intro: validate_request_implemented)

lemma compare_and_write_implemented:
  "compare_and_write ops tid CDB data s = Inr (r, s') \<Longrightarrow> implemented (sense_data r)"
  by (auto simp: compare_and_write_def Let_def bindR_Inr_iff scsi_response_new_def
      split: if_splits option.splits prod.splits scsi_rw_result.split intro: validate_request_implemented)

lemma unmap_implemented: "unmap ops tid data s = Inr (r, s') \<Longrightarrow> implemented (sense_data r)"
  by (auto simp: unmap_def Let_def bindR_Inr_iff scsi_response_new_def
      split: if_splits prod.splits intro: unmap_loop_sense)

lemma write_same_implemented:
  "write_same ops tid CDB data op s = Inr (r, s') \<Longrightarrow> implemented (sense_data r)"
  by (auto simp: write_same_def Let_def bindR_Inr_iff scsi_response_new_def
      split: if_splits option.splits prod.splits intro: validate_request_implemented)

lemma replies_implemented:
  "implemented (sense_data (mode_sense_6 tid CDB s))" "implemented (sense_data (inquiry lun CDB s))"
  "implemented (sense_data (read_capacity_10 ops s))" "implemented (sense_data (read_cmd ops CDB op s))"
  "implemented (sense_data (prefetch ops CDB op s))" "implemented (sense_data report_luns)"
  "implemented (sense_data test_unit_ready)"
  by (auto simp: mode_sense_6_def inquiry_def read_capacity_10_def read_cmd_def prefetch_def
      report_luns_def test_unit_ready_def inline_reply_def scsi_response_new_def Let_def
      split: option.split prod.split if_split intro: validate_request_implemented)

lemma reservation_implemented:
  "reserve_cmd tid s = (r, s') \<Longrightarrow> implemented (sense_data r)"
  "release_cmd tid s = (r, s') \<Longrightarrow> implemented (sense_data r)"
  "sync_cache ops tid s = Inr (r, s') \<Longrightarrow> implemented (sense_data r)"
  by (auto simp: reserve_cmd_def release_cmd_def sync_cache_def Let_def bindR_Inr_iff scsi_response_new_def
      split: prod.splits if_splits)

lemma send_implemented:
  assumes "CDB ! 0 \<in> dispatched" and "send ops tid lun CDB data s = Inr (r, s')"
  shows "implemented (sense_data r)"
  using assms
  by (auto simp: send_def Let_def dispatched_def replies_implemented
      intro: write_verify_implemented compare_and_write_implemented unmap_implemented write_same_implemented
        reservation_implemented)

text \<open>
  Every operation code that REPORT SUPPORTED OPERATION CODES lists is really dispatched: apart
  from the two codes that dispatch further on a service action, no command with a listed code is
  rejected as not implemented. The one exception is the listed REQUEST SENSE entry, which is always
  rejected; its code in the enumeration is 0x02.
\<close>

theorem listed_opcodes_implemented:
  assumes "op \<in> fst ` set scsi_a3_data" and "CDB ! 0 = op" and "op \<notin> {o_get_lba_status, o_rep_sup_oper}"
    and "send ops tid lun CDB data s = Inr (r, s')"
  shows "sense_data r = error_not_implemented \<longleftrightarrow> op = o_request_sense"
proof -
  have "op \<in> dispatched \<or> op = o_request_sense"
    using assms(1,3) unfolding sort_key_keys by (auto simp: scsi_a3_init_def dispatched_def)
  then show ?thesis
  proof
    assume "op \<in> dispatched"
    moreover have "op \<noteq> o_request_sense" using calculation by (auto simp: dispatched_def)
    ultimately show ?thesis
      using send_implemented [of CDB ops tid lun data s r s'] assms(2,4) by (simp add: implemented_def)
  next
    assume "op = o_request_sense"
    then show ?thesis using assms(2,4) by (auto simp: send_def Let_def)
  qed
qed

theorem listed_opcodes_implemented_witness:
  "(sense_data (inquiry 1 (0x12 # replicate 15 0) example_scsi) = error_not_implemented \<longleftrightarrow> (0x12 :: byte) = o_request_sense)"
  by (rule listed_opcodes_implemented [of "0x12" "0x12 # replicate 15 0" file_ops 0 1 None example_scsi _ example_scsi])
    (unfold sort_key_keys, simp_all add: scsi_a3_init_def send_def)

text \<open>
  INQUIRY never sends more than the initiator's allocation length; a page it does not have is
  answered with sense data and no data, a page it has with data and no sense data; and the supported
  pages are the standard data and the pages 00, 80, 83, B0, B1 and B2.
\<close>

theorem inquiry_bounds:
  "(case r_data (inquiry lun CDB s) of
      None \<Rightarrow> sense_data (inquiry lun CDB s) \<noteq> [] \<and>
        (if CDB ! 1 AND 1 = 0 then CDB ! 2 \<noteq> 0 else CDB ! 2 \<notin> {0x00, 0x80, 0x83, 0xb0, 0xb1, 0xb2})
    | Some d \<Rightarrow> sense_data (inquiry lun CDB s) = [] \<and>
        length d \<le> unat (push_bit 8 (ucast (CDB ! 3)) OR ucast (CDB ! 4) :: u16) \<and>
        (if CDB ! 1 AND 1 = 0 then CDB ! 2 = 0 else CDB ! 2 \<in> {0x00, 0x80, 0x83, 0xb0, 0xb1, 0xb2}))"
  by (auto simp: inquiry_def inquiry_vpd_def Let_def inline_reply_def scsi_response_new_def)

end
