(* ===== verification/Scsi_Race.thy ===== *)
theory Scsi_Race
  imports Scsi_Write
begin

text \<open>
  How far a reservation protects when threads interleave inside an operation. \<open>scsi::write\<close> asks for the
  reservation under its lock, lets go of the lock, and then accesses the backend. Here the two parts are
  steps of their own; each of \<open>reserve_device\<close> and \<open>unlock_device\<close>, which hold the lock all the time, is one
  step. Shown: no write of another thread is stored during a reservation if none was between its two
  parts when the reservation was granted, and one that was is stored.
\<close>

section \<open>The two parts of a write\<close>

definition scsi_write_check :: "'b backend_ops \<Rightarrow> nat \<Rightarrow> u32 \<Rightarrow> 'b scsi_st \<Rightarrow> bool \<times> 'b scsi_st" where
  "scsi_write_check ops tid n_blocks s =
     (let ios = sc_is s;
          s = s\<lparr>sc_is := ios\<lparr>n_writes := n_writes ios + 1,
                 bytes_written := bytes_written ios + ucast n_blocks * be_get_block_size ops (sc_b s)\<rparr>\<rparr>
      in (locking_status tid s \<noteq> l_locked_other, s))"

definition scsi_write_access :: "'b backend_ops \<Rightarrow> u64 \<Rightarrow> u32 \<Rightarrow> byte list \<Rightarrow> 'b scsi_st
    \<Rightarrow> (scsi_rw_result \<times> 'b scsi_st) result" where
  "scsi_write_access ops block_nr n_blocks data s =
     (let (start, s) = sc_micros s
      in bindR (if trim_level s = 2
                then bindR (is_zero_loop 0 (unat n_blocks) (unat (be_get_block_size ops (sc_b s))) data)
                       (\<lambda>is_zero. if is_zero then be_trim ops block_nr n_blocks (sc_b s, sc_env s)
                          else be_write ops block_nr n_blocks data (sc_b s, sc_env s))
                else be_write ops block_nr n_blocks data (sc_b s, sc_env s)) (\<lambda>(result, be).
         Inr (rw_of_bool result, count_wait start (put_dev be s))))"

text \<open>One after the other they are the operation.\<close>

lemma scsi_write_split:
  "scsi_write ops tid nr n data s =
     (case scsi_write_check ops tid n s of (ok, s) \<Rightarrow>
        if ok then scsi_write_access ops nr n data s else Inr (rw_fail_locked, s))"
  by (simp add: scsi_write_def scsi_write_check_def scsi_write_access_def Let_def)

lemma scsi_write_check_sel:
  "scsi_write_check ops tid n s = (ok, s') \<Longrightarrow> sc_b s' = sc_b s \<and> locked_by s' = locked_by s \<and> sc_env s' = sc_env s \<and> trim_level s' = trim_level s"
  by (auto simp: scsi_write_check_def Let_def)

lemma scsi_write_check_ok: "fst (scsi_write_check ops tid n s) \<longleftrightarrow> locked_by s = None \<or> locked_by s = Some tid"
  by (auto simp: scsi_write_check_def Let_def locking_status_def split: option.splits)

text \<open>Any state is one that the check of the thread that may write leaves.\<close>

lemma scsi_write_check_onto:
  "\<exists>t s'. scsi_write_check ops t n s' = (True, s) \<and> sc_b s' = sc_b s \<and> sc_env s' = sc_env s \<and> locked_by s' = locked_by s
     \<and> locking_status t s' \<noteq> l_locked_other"
proof -
  define t where "t = (case locked_by s of None \<Rightarrow> 0 | Some t \<Rightarrow> t)"
  let ?i = "(sc_is s)\<lparr>n_writes := n_writes (sc_is s) - 1,
    bytes_written := bytes_written (sc_is s) - ucast n * be_get_block_size ops (sc_b s)\<rparr>"
  show ?thesis
    by (rule exI [of _ t], rule exI [of _ "s\<lparr>sc_is := ?i\<rparr>"])
      (auto simp: scsi_write_check_def Let_def locking_status_def t_def split: option.splits)
qed

context block_storage
begin

lemma scsi_write_access_law:
  assumes "inv (sc_b s)" and "unat n * bsz \<le> length data" and "on_disk nr n (sc_b s)"
    and "quiet (sc_env s)" and "0 < n" and "unat n \<le> lim"
  shows "\<exists>s'. scsi_write_access ops nr n data s = Inr (rw_ok, s') \<and> inv (sc_b s') \<and> locked_by s' = locked_by s \<and>
    disk (sc_b s') = overwrite (unat nr * bsz) (take (unat n * bsz) data) (disk (sc_b s))"
proof -
  obtain t s0 where s0: "scsi_write_check ops t n s0 = (True, s)" "sc_b s0 = sc_b s" "sc_env s0 = sc_env s"
    "locked_by s0 = locked_by s" "locking_status t s0 \<noteq> l_locked_other"
    using scsi_write_check_onto [of ops n s] by blast
  have "scsi_write_access ops nr n data s = scsi_write ops t nr n data s0" by (simp add: scsi_write_split s0(1))
  then show ?thesis
    using scsi_write_law [of s0 n data nr t] assms s0 by (auto simp: same_cfg_def rw_of_bool_def)
qed

end

section \<open>Threads\<close>

text \<open>Where a thread is: outside of a write, between its parts, or behind it with its result.\<close>

datatype write_pc = Idle | Checked u64 u32 "byte list" | Answered scsi_rw_result

record 'b racing =
  rc_scsi :: "'b scsi_st"
  rc_pc :: "nat \<Rightarrow> write_pc"

definition pc_to :: "nat \<Rightarrow> write_pc \<Rightarrow> 'b scsi_st \<Rightarrow> 'b racing \<Rightarrow> 'b racing" where
  "pc_to t pc s y = y\<lparr>rc_scsi := s, rc_pc := (rc_pc y)(t := pc)\<rparr>"

lemma pc_to_sel [simp]: "rc_scsi (pc_to t pc s y) = s" "rc_pc (pc_to t pc s y) = (rc_pc y)(t := pc)"
  by (simp_all add: pc_to_def)

text \<open>A step of thread \<open>t\<close>.\<close>

inductive race_step :: "'b backend_ops \<Rightarrow> nat \<Rightarrow> 'b racing \<Rightarrow> 'b racing \<Rightarrow> bool" for ops where
  check: "rc_pc y t = Idle \<Longrightarrow> scsi_write_check ops t n (rc_scsi y) = (ok, s) \<Longrightarrow>
    race_step ops t y (pc_to t (if ok then Checked nr n data else Answered rw_fail_locked) s y)"
| access: "rc_pc y t = Checked nr n data \<Longrightarrow> scsi_write_access ops nr n data (rc_scsi y) = Inr (rc, s) \<Longrightarrow>
    race_step ops t y (pc_to t (Answered rc) s y)"
| answer: "rc_pc y t = Answered rc \<Longrightarrow> race_step ops t y (pc_to t Idle (rc_scsi y) y)"
| reserve: "rc_pc y t = Idle \<Longrightarrow> reserve_device t (rc_scsi y) = (st, s) \<Longrightarrow> race_step ops t y (pc_to t Idle s y)"
| unlock: "rc_pc y t = Idle \<Longrightarrow> unlock_device t (rc_scsi y) = (ok, s) \<Longrightarrow> race_step ops t y (pc_to t Idle s y)"

inductive_cases race_stepE: "race_step ops t y y'"

text \<open>A run, with the threads whose steps it consists of.\<close>

inductive race_run :: "'b backend_ops \<Rightarrow> 'b racing \<Rightarrow> nat list \<Rightarrow> 'b racing \<Rightarrow> bool" for ops y where
  none: "race_run ops y [] y"
| more: "race_run ops y ts y' \<Longrightarrow> race_step ops t y' y'' \<Longrightarrow> race_run ops y (ts @ [t]) y''"

definition in_flight :: "nat \<Rightarrow> 'b racing \<Rightarrow> bool" where
  "in_flight t y \<longleftrightarrow> (case rc_pc y t of Checked _ _ _ \<Rightarrow> True | _ \<Rightarrow> False)"

text \<open>The invariant of a reservation of \<open>t\<close>: it lasts and no other thread is in the middle of a write.\<close>

definition reserved_quietly :: "nat \<Rightarrow> 'b racing \<Rightarrow> bool" where
  "reserved_quietly t y \<longleftrightarrow> locked_by (rc_scsi y) = Some t \<and> (\<forall>u. u \<noteq> t \<longrightarrow> \<not> in_flight u y)"

lemma reserved_quietly_step:
  assumes "race_step ops u y y'" and "reserved_quietly t y" and "u \<noteq> t"
  shows "reserved_quietly t y' \<and> sc_b (rc_scsi y') = sc_b (rc_scsi y)"
  using assms(1)
proof (cases rule: race_step.cases)
  case (check n ok s nr data)
  have s: "sc_b s = sc_b (rc_scsi y)" "locked_by s = locked_by (rc_scsi y)" using scsi_write_check_sel [OF check(3)] by simp_all
  have "\<not> ok" using scsi_write_check_ok [of ops u n "rc_scsi y"] assms(2,3) by (auto simp: check(3) reserved_quietly_def)
  then show ?thesis using assms(2) by (auto simp: check(1) s reserved_quietly_def in_flight_def)
next
  case (access nr n data rc s)
  then show ?thesis using assms(2,3) by (auto simp: reserved_quietly_def in_flight_def)
next
  case (answer rc)
  then show ?thesis using assms(2) by (auto simp: reserved_quietly_def in_flight_def)
next
  case (reserve st s)
  then show ?thesis using assms(2) by (auto simp: reserved_quietly_def in_flight_def reserve_device_def split: option.splits)
next
  case (unlock ok s)
  then show ?thesis using assms(2,3) by (auto simp: reserved_quietly_def in_flight_def unlock_device_def split: option.splits if_splits)
qed

lemma reserved_quietly_run:
  assumes "race_run ops y ts y'" and "reserved_quietly t y" and "t \<notin> set ts"
  shows "reserved_quietly t y' \<and> sc_b (rc_scsi y') = sc_b (rc_scsi y)"
  using assms(1,3)
proof induction
  case none
  then show ?case using assms(2) by simp
next
  case (more ts y' u y'')
  then have "reserved_quietly t y'" "sc_b (rc_scsi y') = sc_b (rc_scsi y)" "u \<noteq> t" by auto
  with reserved_quietly_step [OF more(2)] show ?case by simp
qed

text \<open>
  C8: a reservation protects only from writes that begin after it. When \<open>t\<close> holds the reservation and no other thread is
  between the check and the access of a write, then no steps of other threads, however they interleave,
  change the backend or end the reservation. But a thread \<open>u\<close> whose write of blocks on the device has passed the check
  is not held back: \<open>t\<close>'s RESERVE is granted, and in its presence \<open>u\<close>'s write is stored and answered as done.
\<close>

theorem reservation_and_writes_in_flight:
  assumes "block_storage ops disk dev_ok bsz lim"
  shows "(race_run ops z ts z' \<and> reserved_quietly t z \<and> t \<notin> set ts \<longrightarrow>
      reserved_quietly t z' \<and> sc_b (rc_scsi z') = sc_b (rc_scsi z)) \<and>
    (rc_pc y t = Idle \<and> rc_pc y u = Checked nr n data \<and> t \<noteq> u \<and> locked_by (rc_scsi y) = None \<and>
      dev_ok (sc_b (rc_scsi y)) \<and> quiet (sc_env (rc_scsi y)) \<and> 0 < n \<and> unat n \<le> lim \<and> unat n * bsz \<le> length data \<and>
      unat nr * bsz + unat n * bsz \<le> length (disk (sc_b (rc_scsi y))) \<longrightarrow>
      (\<exists>y1 y2. race_step ops t y y1 \<and> locked_by (rc_scsi y1) = Some t \<and> race_step ops u y1 y2 \<and>
        rc_pc y2 u = Answered rw_ok \<and> locked_by (rc_scsi y2) = Some t \<and>
        disk (sc_b (rc_scsi y2)) = overwrite (unat nr * bsz) (take (unat n * bsz) data) (disk (sc_b (rc_scsi y)))))"
proof (intro conjI impI)
  assume "race_run ops z ts z' \<and> reserved_quietly t z \<and> t \<notin> set ts"
  then show "reserved_quietly t z'" "sc_b (rc_scsi z') = sc_b (rc_scsi z)" using reserved_quietly_run by blast+
next
  assume a: "rc_pc y t = Idle \<and> rc_pc y u = Checked nr n data \<and> t \<noteq> u \<and> locked_by (rc_scsi y) = None \<and>
    dev_ok (sc_b (rc_scsi y)) \<and> quiet (sc_env (rc_scsi y)) \<and> 0 < n \<and> unat n \<le> lim \<and> unat n * bsz \<le> length data \<and>
    unat nr * bsz + unat n * bsz \<le> length (disk (sc_b (rc_scsi y)))"
  let ?s = "(rc_scsi y)\<lparr>locked_by := Some t\<rparr>"
  let ?y1 = "pc_to t Idle ?s y"
  have "reserve_device t (rc_scsi y) = (l_locked, ?s)" using a by (simp add: reserve_device_def)
  then have r: "race_step ops t y ?y1" using a race_step.reserve by blast
  have "block_storage.on_disk disk bsz nr n (sc_b ?s)"
    using a by (simp add: block_storage.on_disk_def [OF assms])
  then obtain s2 where s2: "scsi_write_access ops nr n data ?s = Inr (rw_ok, s2)" "locked_by s2 = Some t"
    "disk (sc_b s2) = overwrite (unat nr * bsz) (take (unat n * bsz) data) (disk (sc_b (rc_scsi y)))"
    using block_storage.scsi_write_access_law [OF assms, of ?s n data nr] a by auto
  have "race_step ops u ?y1 (pc_to u (Answered rw_ok) s2 ?y1)"
    using a s2(1) by (intro race_step.access) auto
  then show "\<exists>y1 y2. race_step ops t y y1 \<and> locked_by (rc_scsi y1) = Some t \<and> race_step ops u y1 y2 \<and>
      rc_pc y2 u = Answered rw_ok \<and> locked_by (rc_scsi y2) = Some t \<and>
      disk (sc_b (rc_scsi y2)) = overwrite (unat nr * bsz) (take (unat n * bsz) data) (disk (sc_b (rc_scsi y)))"
    using r s2 by (intro exI [of _ ?y1] exI [of _ "pc_to u (Answered rw_ok) s2 ?y1"]) simp
qed

text \<open>Thread 0 has checked a write of block 1 when thread 1 reserves; a thread that comes later is refused.\<close>

definition example_race :: "backend_file racing" where
  "example_race = \<lparr>rc_scsi = example_scsi, rc_pc = (\<lambda>_. Idle)(0 := Checked 1 1 (replicate 4096 9))\<rparr>"

definition example_reserved :: "backend_file racing" where
  "example_reserved = \<lparr>rc_scsi = example_scsi\<lparr>locked_by := Some 1\<rparr>, rc_pc = (\<lambda>_. Idle)\<rparr>"

theorem reservation_and_writes_in_flight_witness:
  "(\<exists>z'. race_run file_ops example_reserved [0] z' \<and> rc_pc z' 0 = Answered rw_fail_locked \<and> locked_by (rc_scsi z') = Some 1 \<and>
      sc_b (rc_scsi z') = example_file) \<and>
   (\<exists>y1 y2. race_step file_ops 1 example_race y1 \<and> locked_by (rc_scsi y1) = Some 1 \<and> race_step file_ops 0 y1 y2 \<and>
      rc_pc y2 0 = Answered rw_ok \<and>
      bf_contents (sc_b (rc_scsi y2)) = overwrite 4096 (replicate 4096 9) (bf_contents example_file))"
proof -
  let ?s = "snd (scsi_write_check file_ops 0 1 (rc_scsi example_reserved))"
  let ?z = "pc_to 0 (Answered rw_fail_locked) ?s example_reserved"
  have "scsi_write_check file_ops 0 1 (rc_scsi example_reserved) = (False, ?s)"
    using scsi_write_check_ok [of file_ops 0 1 "rc_scsi example_reserved"]
    by (cases "scsi_write_check file_ops 0 1 (rc_scsi example_reserved)") (auto simp: example_reserved_def)
  from race_step.check [OF _ this] have step: "race_step file_ops 0 example_reserved ?z" by (simp add: example_reserved_def)
  have run: "race_run file_ops example_reserved [0] ?z" using race_run.more [OF race_run.none step] by simp
  have q: "reserved_quietly 1 example_reserved" by (simp add: reserved_quietly_def in_flight_def example_reserved_def)
  have y: "rc_pc example_race 1 = Idle" "rc_pc example_race 0 = Checked 1 1 (replicate 4096 9)" "(1 :: nat) \<noteq> 0"
    "locked_by (rc_scsi example_race) = None" "file_inv (sc_b (rc_scsi example_race))" "quiet (sc_env (rc_scsi example_race))"
    "(0 :: u32) < 1" "unat (1 :: u32) \<le> file_lim" "unat (1 :: u32) * 4096 \<le> length (replicate 4096 (9 :: byte))"
    "unat (1 :: u64) * 4096 + unat (1 :: u32) * 4096 \<le> length (bf_contents (sc_b (rc_scsi example_race)))"
    using example_file_inv by (simp_all add: example_race_def file_lim_def example_file_def)
  note both = reservation_and_writes_in_flight [OF file_dev.block_storage_axioms, of example_reserved "[0]" ?z 1
    example_race 0 1 1 "replicate 4096 9"]
  have "reserved_quietly 1 ?z \<and> sc_b (rc_scsi ?z) = sc_b (rc_scsi example_reserved)"
    using both run q by simp
  then have 1: "\<exists>z'. race_run file_ops example_reserved [0] z' \<and> rc_pc z' 0 = Answered rw_fail_locked \<and>
      locked_by (rc_scsi z') = Some 1 \<and> sc_b (rc_scsi z') = example_file"
    using run by (intro exI [of _ ?z]) (simp add: reserved_quietly_def example_reserved_def)
  have "\<exists>y1 y2. race_step file_ops 1 example_race y1 \<and> locked_by (rc_scsi y1) = Some 1 \<and> race_step file_ops 0 y1 y2 \<and>
      rc_pc y2 0 = Answered rw_ok \<and> locked_by (rc_scsi y2) = Some 1 \<and>
      bf_contents (sc_b (rc_scsi y2)) = overwrite (unat (1 :: u64) * 4096) (take (unat (1 :: u32) * 4096) (replicate 4096 9))
        (bf_contents (sc_b (rc_scsi example_race)))"
    using both y by blast
  then show ?thesis using 1 by (auto simp: example_race_def)
qed

end
