(* ===== verification/Session.thy ===== *)
theory Session
  imports Scsi
begin

text \<open>
  The state of one connection (\<^verbatim>\<open>session.h\<close>, \<^verbatim>\<open>session.cpp\<close>): negotiated parameters, Data-In sequence
  numbers, byte counters and the table of R2T sessions. The object behind the \<open>com_client\<close> pointer is
  represented by the two strings the session asks it for. The SCSI statistics object lives in the
  state of the SCSI layer (\<open>sc_is\<close>).
\<close>

record session =
  target_name :: string
  local_address :: string
  endpoint_name :: string
  data_sn_itt :: u32
  data_sn :: u32
  ses_block_size :: u32
  bytes_rx :: u64
  bytes_tx :: u64
  error_count :: u32
  max_seg_len :: u32
  allow_digest :: bool
  header_digest :: bool
  data_digest :: bool
  ack_interval :: "u32 option"
  r2t_sessions :: "u32 \<Rightarrow> r2t_session option"

definition MAX_DATA_SEGMENT_SIZE :: u32 where
  "MAX_DATA_SEGMENT_SIZE = 256 * 1024 * 1024"

definition session_new :: "string \<Rightarrow> string \<Rightarrow> string \<Rightarrow> bool \<Rightarrow> session" where
  "session_new local_addr endpoint tname allow = \<lparr>target_name = tname, local_address = local_addr,
     endpoint_name = endpoint, data_sn_itt = 0, data_sn = 0, ses_block_size = 0, bytes_rx = 0, bytes_tx = 0,
     error_count = 0, max_seg_len = MAX_DATA_SEGMENT_SIZE, allow_digest = allow, header_digest = False,
     data_digest = False, ack_interval = None, r2t_sessions = (\<lambda>_. None)\<rparr>"

definition get_header_digest :: "session \<Rightarrow> bool" where
  "get_header_digest ses \<longleftrightarrow> header_digest ses \<and> allow_digest ses"

definition get_data_digest :: "session \<Rightarrow> bool" where
  "get_data_digest ses \<longleftrightarrow> data_digest ses \<and> allow_digest ses"

definition add_bytes_rx :: "nat \<Rightarrow> session \<Rightarrow> session" where
  "add_bytes_rx n ses = ses\<lparr>bytes_rx := bytes_rx ses + of_nat n\<rparr>"

definition add_bytes_tx :: "nat \<Rightarrow> session \<Rightarrow> session" where
  "add_bytes_tx n ses = ses\<lparr>bytes_tx := bytes_tx ses + of_nat n\<rparr>"

definition reset_bytes_rx :: "session \<Rightarrow> session" where
  "reset_bytes_rx ses = ses\<lparr>bytes_rx := 0\<rparr>"

definition reset_bytes_tx :: "session \<Rightarrow> session" where
  "reset_bytes_tx ses = ses\<lparr>bytes_tx := 0\<rparr>"

definition set_block_size :: "u32 \<Rightarrow> session \<Rightarrow> session" where
  "set_block_size block_size_in ses = ses\<lparr>ses_block_size := block_size_in\<rparr>"

definition inc_error_count :: "session \<Rightarrow> session" where
  "inc_error_count ses = ses\<lparr>error_count := error_count ses + 1\<rparr>"

definition get_inc_datasn :: "u32 \<Rightarrow> session \<Rightarrow> u32 \<times> session" where
  "get_inc_datasn itt ses =
     (if itt = data_sn_itt ses then (data_sn ses, ses\<lparr>data_sn := data_sn ses + 1\<rparr>)
      else (0, ses\<lparr>data_sn_itt := itt, data_sn := 1\<rparr>))"

text \<open>The table of R2T sessions; \<open>pdu\<close> is the raw initiating PDU (\<open>pdu->get_raw()\<close>).\<close>

definition init_r2t_session :: "r2t_session \<Rightarrow> bool \<Rightarrow> byte list \<Rightarrow> u32 \<Rightarrow> session \<Rightarrow> session" where
  "init_r2t_session rs is_fua pdu transfer_tag ses =
     (case r2t_sessions ses transfer_tag of
        Some _ \<Rightarrow> ses
      | None \<Rightarrow> ses\<lparr>r2t_sessions := (r2t_sessions ses)(transfer_tag \<mapsto>
                  rs\<lparr>fua := is_fua, PDU_initiator := Some pdu\<rparr>)\<rparr>)"

definition get_r2t_sesion :: "u32 \<Rightarrow> session \<Rightarrow> r2t_session option" where
  "get_r2t_sesion ttt ses = r2t_sessions ses ttt"

definition remove_r2t_session :: "u32 \<Rightarrow> session \<Rightarrow> session" where
  "remove_r2t_session ttt ses =
     (case r2t_sessions ses ttt of None \<Rightarrow> ses
      | Some _ \<Rightarrow> ses\<lparr>r2t_sessions := (r2t_sessions ses)(ttt := None)\<rparr>)"

text \<open>An update of the object that \<open>get_r2t_sesion\<close> returned a pointer to.\<close>

definition update_r2t_session :: "u32 \<Rightarrow> (r2t_session \<Rightarrow> r2t_session) \<Rightarrow> session \<Rightarrow> session" where
  "update_r2t_session ttt f ses = ses\<lparr>r2t_sessions := (r2t_sessions ses)(ttt := map_option f (r2t_sessions ses ttt))\<rparr>"

section \<open>The table as an interface\<close>

text \<open>
  What the rest of the target relies on: registering a free tag makes it visible and disturbs no
  other tag, a tag in use is not replaced, an update or removal concerns one tag only.
\<close>

locale r2t_table =
  fixes lookup :: "u32 \<Rightarrow> 's \<Rightarrow> r2t_session option"
    and register :: "r2t_session \<Rightarrow> bool \<Rightarrow> byte list \<Rightarrow> u32 \<Rightarrow> 's \<Rightarrow> 's"
    and update :: "u32 \<Rightarrow> (r2t_session \<Rightarrow> r2t_session) \<Rightarrow> 's \<Rightarrow> 's"
    and remove :: "u32 \<Rightarrow> 's \<Rightarrow> 's"
  assumes lookup_register: "lookup t (register rs f pdu t' s) =
      (if t = t' \<and> lookup t' s = None then Some (rs\<lparr>fua := f, PDU_initiator := Some pdu\<rparr>) else lookup t s)"
    and lookup_update: "lookup t (update t' g s) = (if t = t' then map_option g (lookup t s) else lookup t s)"
    and lookup_remove: "lookup t (remove t' s) = (if t = t' then None else lookup t s)"

context r2t_table
begin

lemma register_twice:
  "lookup t (register rs2 f2 pdu2 t (register rs f pdu t s)) = lookup t (register rs f pdu t s)"
  by (simp add: lookup_register)

lemma remove_register: "lookup t s = None \<Longrightarrow> lookup t' (remove t (register rs f pdu t s)) = lookup t' s"
  by (auto simp: lookup_register lookup_remove)

lemma fold_update: "lookup t (fold (update t) gs s) = map_option (fold id gs) (lookup t s)"
proof (induction gs arbitrary: s)
  case (Cons g gs)
  then show ?case by (simp add: lookup_update option.map_comp comp_def)
qed (simp add: option.map_id)

lemma fold_update_other: "t \<noteq> t' \<Longrightarrow> lookup t' (fold (update t) gs s) = lookup t' s"
  by (induction gs arbitrary: s) (auto simp: lookup_update)

end

interpretation tags: r2t_table get_r2t_sesion init_r2t_session update_r2t_session remove_r2t_session
  by unfold_locales
    (auto simp: get_r2t_sesion_def init_r2t_session_def update_r2t_session_def remove_r2t_session_def
      split: option.splits)

text \<open>
  A transfer tag keeps its R2T session from registration to removal: a second registration
  under the same tag changes nothing, progress updates of a transfer accumulate on that tag only, and
  removing the tag restores the table as it was before the registration.
\<close>

theorem r2t_session_lifecycle:
  assumes "get_r2t_sesion t ses = None"
  shows "get_r2t_sesion t (init_r2t_session rs2 f2 pdu2 t (init_r2t_session rs f pdu t ses)) =
      Some (rs\<lparr>fua := f, PDU_initiator := Some pdu\<rparr>) \<and>
    get_r2t_sesion t (fold (update_r2t_session t) gs (init_r2t_session rs f pdu t ses)) =
      Some (fold id gs (rs\<lparr>fua := f, PDU_initiator := Some pdu\<rparr>)) \<and>
    get_r2t_sesion t' (remove_r2t_session t (fold (update_r2t_session t) gs (init_r2t_session rs f pdu t ses))) =
      get_r2t_sesion t' ses"
proof -
  have reg: "get_r2t_sesion t (init_r2t_session rs f pdu t ses) = Some (rs\<lparr>fua := f, PDU_initiator := Some pdu\<rparr>)"
    using assms by (simp add: tags.lookup_register)
  moreover have "get_r2t_sesion t' (remove_r2t_session t (fold (update_r2t_session t) gs (init_r2t_session rs f pdu t ses))) =
      get_r2t_sesion t' ses"
    using assms by (cases "t' = t")
      (auto simp: tags.lookup_remove tags.fold_update_other tags.lookup_register)
  ultimately show ?thesis by (simp add: tags.register_twice tags.fold_update)
qed

theorem r2t_session_lifecycle_witness:
  "get_r2t_sesion 7 (init_r2t_session r2t_zero True [2] 7 (init_r2t_session r2t_zero False [1] 7 (session_new [] [] [] False))) =
      Some (r2t_zero\<lparr>fua := False, PDU_initiator := Some [1]\<rparr>) \<and>
    get_r2t_sesion 7 (fold (update_r2t_session 7) [\<lambda>r. r\<lparr>bytes_done := 512\<rparr>]
      (init_r2t_session r2t_zero False [1] 7 (session_new [] [] [] False))) =
      Some (fold id [\<lambda>r. r\<lparr>bytes_done := 512\<rparr>] (r2t_zero\<lparr>fua := False, PDU_initiator := Some [1]\<rparr>)) \<and>
    get_r2t_sesion 7 (remove_r2t_session 7 (fold (update_r2t_session 7) [\<lambda>r. r\<lparr>bytes_done := 512\<rparr>]
      (init_r2t_session r2t_zero False [1] 7 (session_new [] [] [] False)))) =
      get_r2t_sesion 7 (session_new [] [] [] False)"
  by (rule r2t_session_lifecycle) (simp add: get_r2t_sesion_def session_new_def)

section \<open>Data-In sequence numbers\<close>

fun datasns :: "u32 list \<Rightarrow> session \<Rightarrow> u32 list" where
  "datasns [] ses = []"
| "datasns (itt # itts) ses = (let (n, ses') = get_inc_datasn itt ses in n # datasns itts ses')"

lemma datasns_run:
  "datasns (replicate k itt) (ses\<lparr>data_sn_itt := itt, data_sn := n\<rparr>) = map (\<lambda>i. n + of_nat i) [0..<k]"
proof (induction k arbitrary: n)
  case (Suc k)
  have "datasns (replicate (Suc k) itt) (ses\<lparr>data_sn_itt := itt, data_sn := n\<rparr>) =
      n # datasns (replicate k itt) (ses\<lparr>data_sn_itt := itt, data_sn := n + 1\<rparr>)"
    by (simp add: get_inc_datasn_def)
  also have "\<dots> = map (\<lambda>i. n + of_nat i) (0 # map Suc [0..<k])"
    unfolding Suc by (simp add: add.assoc)
  also have "0 # map Suc [0..<k] = [0..<Suc k]" by (simp add: map_Suc_upt upt_conv_Cons)
  finally show ?case .
qed simp

text \<open>
  The Data-In PDUs of a command get the sequence numbers 0, 1, 2, ... provided the command's
  initiator task tag differs from the last one used.
\<close>

theorem datasn_sequence:
  assumes "itt \<noteq> data_sn_itt ses"
  shows "datasns (replicate k itt) ses = map of_nat [0..<k]"
proof (cases k)
  case (Suc j)
  have "datasns (replicate k itt) ses = 0 # datasns (replicate j itt) (ses\<lparr>data_sn_itt := itt, data_sn := 1\<rparr>)"
    using assms Suc by (simp add: get_inc_datasn_def)
  also have "\<dots> = map of_nat (0 # map Suc [0..<j])"
    unfolding datasns_run by simp
  also have "0 # map Suc [0..<j] = [0..<k]" using Suc by (simp add: map_Suc_upt upt_conv_Cons)
  finally show ?thesis .
qed simp

theorem datasn_sequence_witness:
  "datasns (replicate 3 5) (session_new [] [] [] False) = map of_nat [0..<3]"
  by (rule datasn_sequence) (simp add: session_new_def)

end
