(* ===== verification/Iscsi_Bhs.thy ===== *)
theory Iscsi_Bhs
  imports Session Crc32c
begin

text \<open>
  The common part of all iSCSI PDUs (\<^verbatim>\<open>iscsi-pdu.h\<close>, first part of \<^verbatim>\<open>iscsi-pdu.cpp\<close>): the packed structs
  of the 48-byte headers as tables of members, access to their members, the basic header segment, the
  additional header segments and \<open>get_helper\<close>, which puts header, digests, data and padding together.
\<close>

section \<open>Packed structs\<close>

text \<open>A packed struct is the list of its members with their sizes in bytes; \<open>off\<close> is \<open>offsetof\<close>.\<close>

type_synonym layout = "(string \<times> nat) list"

fun off :: "layout \<Rightarrow> string \<Rightarrow> nat" where
  "off [] f = 0"
| "off ((g, n) # l) f = (if f = g then 0 else n + off l f)"

definition struct_size :: "layout \<Rightarrow> nat" where
  "struct_size l = sum_list (map snd l)"

definition bhs_l :: layout where
  "bhs_l = [(''b1'', 1), (''ospecf'', 3), (''ahslen'', 1), (''datalenH'', 1), (''datalenM'', 1), (''datalenL'', 1),
    (''lunfields'', 8), (''Itasktag'', 4), (''ofields'', 28)]"

definition login_req_l :: layout where
  "login_req_l = [(''b1'', 1), (''b2'', 1), (''versionmax'', 1), (''versionmin'', 1), (''ahslen'', 1), (''datalenH'', 1),
    (''datalenM'', 1), (''datalenL'', 1), (''ISID'', 6), (''TSIH'', 2), (''Itasktag'', 4), (''CID'', 2), (''reserved'', 2),
    (''CmdSN'', 4), (''ExpStatSN'', 4), (''filler3'', 16)]"

definition login_reply_l :: layout where
  "login_reply_l = [(''b1'', 1), (''b2'', 1), (''versionmax'', 1), (''versionact'', 1), (''ahslen'', 1), (''datalenH'', 1),
    (''datalenM'', 1), (''datalenL'', 1), (''ISID'', 6), (''TSIH'', 2), (''Itasktag'', 4), (''reserved'', 4), (''StatSN'', 4),
    (''ExpCmdSN'', 4), (''MaxCmdSN'', 4), (''statuscls'', 1), (''statusdet'', 1), (''reserved2'', 2), (''filler3'', 8)]"

definition cdb_pdu_req_l :: layout where
  "cdb_pdu_req_l = [(''b1'', 1), (''b2'', 1), (''reserved'', 2), (''ahslen'', 1), (''datalenH'', 1), (''datalenM'', 1),
    (''datalenL'', 1), (''LUN'', 8), (''Itasktag'', 4), (''expdatlen'', 4), (''CmdSN'', 4), (''ExpStatSN'', 4), (''CDB'', 16)]"

definition pdu_data_in_l :: layout where
  "pdu_data_in_l = [(''b1'', 1), (''b2'', 1), (''reserved6'', 1), (''status'', 1), (''ahslen'', 1), (''datalenH'', 1),
    (''datalenM'', 1), (''datalenL'', 1), (''LUN'', 8), (''Itasktag'', 4), (''TTT'', 4), (''StatSN'', 4), (''ExpCmdSN'', 4),
    (''MaxCmdSN'', 4), (''DataSN'', 4), (''bufferoff'', 4), (''ResidualCt'', 4)]"

definition pdu_data_out_l :: layout where
  "pdu_data_out_l = [(''b1'', 1), (''b2'', 1), (''reserved2'', 2), (''ahslen'', 1), (''datalenH'', 1), (''datalenM'', 1),
    (''datalenL'', 1), (''LUN'', 8), (''Itasktag'', 4), (''TTT'', 4), (''reserved3'', 4), (''ExpStatSN'', 4), (''reserved4'', 4),
    (''DataSN'', 4), (''bufferoff'', 4), (''reserved5'', 4)]"

definition pdu_response_l :: layout where
  "pdu_response_l = [(''b1'', 1), (''b2'', 1), (''response'', 1), (''status'', 1), (''ahslen'', 1), (''datalenH'', 1),
    (''datalenM'', 1), (''datalenL'', 1), (''reserved5'', 8), (''Itasktag'', 4), (''snack_tag'', 4), (''StatSN'', 4),
    (''ExpCmdSN'', 4), (''MaxCmdSN'', 4), (''ExpDataSN'', 4), (''BidirResCt'', 4), (''ResidualCt'', 4)]"

definition nop_out_l :: layout where
  "nop_out_l = [(''b1'', 1), (''b2'', 1), (''filler3'', 2), (''ahslen'', 1), (''datalenH'', 1), (''datalenM'', 1),
    (''datalenL'', 1), (''LUN'', 8), (''Itasktag'', 4), (''TTT'', 4), (''CmdSN'', 4), (''ExpStatSN'', 4), (''filler4'', 16)]"

definition nop_in_l :: layout where
  "nop_in_l = [(''b1'', 1), (''b2'', 1), (''filler3'', 2), (''ahslen'', 1), (''datalenH'', 1), (''datalenM'', 1),
    (''datalenL'', 1), (''LUN'', 8), (''Itasktag'', 4), (''TTT'', 4), (''StatSN'', 4), (''ExpCmdSN'', 4), (''MaxCmdSN'', 4),
    (''filler4'', 12)]"

definition pdu_scsi_r2t_l :: layout where
  "pdu_scsi_r2t_l = [(''b1'', 1), (''b2'', 1), (''filler3'', 2), (''ahslen'', 1), (''datalenH'', 1), (''datalenM'', 1),
    (''datalenL'', 1), (''LUN'', 8), (''Itasktag'', 4), (''TTT'', 4), (''StatSN'', 4), (''ExpCmdSN'', 4), (''MaxCmdSN'', 4),
    (''R2TSN'', 4), (''bufferoff'', 4), (''DDTF'', 4)]"

definition text_req_l :: layout where
  "text_req_l = [(''b1'', 1), (''b2'', 1), (''filler2'', 2), (''ahslen'', 1), (''datalenH'', 1), (''datalenM'', 1),
    (''datalenL'', 1), (''LUN'', 8), (''Itasktag'', 4), (''TTT'', 4), (''CmdSN'', 4), (''ExpStatSN'', 4), (''filler3'', 16)]"

definition text_reply_l :: layout where
  "text_reply_l = [(''b1'', 1), (''b2'', 1), (''filler2'', 2), (''ahslen'', 1), (''datalenH'', 1), (''datalenM'', 1),
    (''datalenL'', 1), (''LUN'', 8), (''Itasktag'', 4), (''TTT'', 4), (''StatSN'', 4), (''ExpCmdSN'', 4), (''MaxCmdSN'', 4),
    (''filler3'', 12)]"

definition logout_req_l :: layout where
  "logout_req_l = [(''b1'', 1), (''b2'', 1), (''filler1_2'', 2), (''ahslen'', 1), (''datalenH'', 1), (''datalenM'', 1),
    (''datalenL'', 1), (''filler3'', 8), (''Itasktag'', 4), (''reserved'', 4), (''CmdSN'', 4), (''ExpStatSN'', 4), (''filler4'', 16)]"

definition logout_reply_l :: layout where
  "logout_reply_l = [(''b1'', 1), (''b2'', 1), (''response'', 1), (''filler2'', 1), (''ahslen'', 1), (''datalenH'', 1),
    (''datalenM'', 1), (''datalenL'', 1), (''filler3'', 8), (''Itasktag'', 4), (''filler4'', 4), (''StatSN'', 4), (''ExpCmdSN'', 4),
    (''MaxCmdSN'', 4), (''filler5'', 4), (''Time2Wait'', 2), (''Time2Ret'', 2), (''filler6'', 4)]"

definition taskman_req_l :: layout where
  "taskman_req_l = [(''b1'', 1), (''b2'', 1), (''filler1_2'', 2), (''ahslen'', 1), (''datalenH'', 1), (''datalenM'', 1),
    (''datalenL'', 1), (''LUN'', 8), (''Itasktag'', 4), (''RefTaskTag'', 4), (''CmdSN'', 4), (''ExpStatSN'', 4), (''RefCmdSN'', 4),
    (''ExpDatSN'', 4), (''filler3'', 8)]"

definition taskman_reply_l :: layout where
  "taskman_reply_l = [(''b1'', 1), (''b2'', 1), (''response'', 1), (''filler1'', 1), (''ahslen'', 1), (''datalenH'', 1),
    (''datalenM'', 1), (''datalenL'', 1), (''filler2'', 8), (''Itasktag'', 4), (''filler3'', 4), (''StatSN'', 4), (''ExpCmdSN'', 4),
    (''MaxCmdSN'', 4), (''filler4'', 12)]"

definition reject_l :: layout where
  "reject_l = [(''b1'', 1), (''b2'', 1), (''reason'', 1), (''reserved1'', 1), (''ahslen'', 1), (''datalenH'', 1), (''datalenM'', 1),
    (''datalenL'', 1), (''reserved2'', 8), (''ffffffff'', 4), (''reserved3'', 4), (''StatSN'', 4), (''ExpCmdSN'', 4),
    (''MaxCmdSN'', 4), (''DataSN'', 4), (''reserved4'', 4), (''reserved5'', 4), (''problem_pdu'', 48)]"

lemmas layout_defs = bhs_l_def login_req_l_def login_reply_l_def cdb_pdu_req_l_def pdu_data_in_l_def
  pdu_data_out_l_def pdu_response_l_def nop_out_l_def nop_in_l_def pdu_scsi_r2t_l_def text_req_l_def
  text_reply_l_def logout_req_l_def logout_reply_l_def taskman_req_l_def taskman_reply_l_def reject_l_def



section \<open>Members\<close>

definition get8 :: "layout \<Rightarrow> string \<Rightarrow> byte list \<Rightarrow> byte" where
  "get8 l f p = p ! off l f"

definition get32 :: "layout \<Rightarrow> string \<Rightarrow> byte list \<Rightarrow> u32" where
  "get32 l f p = ld32 (off l f) p"

definition set8 :: "layout \<Rightarrow> string \<Rightarrow> byte \<Rightarrow> byte list \<Rightarrow> byte list" where
  "set8 l f v p = st8 (off l f) v p"

definition set32 :: "layout \<Rightarrow> string \<Rightarrow> u32 \<Rightarrow> byte list \<Rightarrow> byte list" where
  "set32 l f v p = st32 (off l f) v p"

definition setmem :: "layout \<Rightarrow> string \<Rightarrow> byte list \<Rightarrow> byte list \<Rightarrow> byte list" where
  "setmem l f d p = overwrite (off l f) d p"

definition setbits :: "layout \<Rightarrow> string \<Rightarrow> nat \<Rightarrow> nat \<Rightarrow> byte \<Rightarrow> byte list \<Rightarrow> byte list" where
  "setbits l f b n v p = st8 (off l f) (set_bits (p ! off l f) b n v) p"

text \<open>The three assignments of the data segment length.\<close>

definition set_datalen :: "layout \<Rightarrow> nat \<Rightarrow> byte list \<Rightarrow> byte list" where
  "set_datalen l n p = set8 l ''datalenL'' (of_nat n) (set8 l ''datalenM'' (of_nat (n div 2 ^ 8))
     (set8 l ''datalenH'' (of_nat (n div 2 ^ 16)) p))"

lemmas member_defs = get8_def get32_def set8_def set32_def setmem_def setbits_def set_datalen_def

section \<open>Basic header segment\<close>

abbreviation (input) o_nop_out :: byte where "o_nop_out \<equiv> 0x00"
abbreviation (input) o_scsi_cmd :: byte where "o_scsi_cmd \<equiv> 0x01"
abbreviation (input) o_scsi_taskman :: byte where "o_scsi_taskman \<equiv> 0x02"
abbreviation (input) o_login_req :: byte where "o_login_req \<equiv> 0x03"
abbreviation (input) o_text_req :: byte where "o_text_req \<equiv> 0x04"
abbreviation (input) o_scsi_data_out :: byte where "o_scsi_data_out \<equiv> 0x05"
abbreviation (input) o_logout_req :: byte where "o_logout_req \<equiv> 0x06"
abbreviation (input) o_snack_req :: byte where "o_snack_req \<equiv> 0x10"
abbreviation (input) o_nop_in :: byte where "o_nop_in \<equiv> 0x20"
abbreviation (input) o_scsi_resp :: byte where "o_scsi_resp \<equiv> 0x21"
abbreviation (input) o_scsi_taskmanr :: byte where "o_scsi_taskmanr \<equiv> 0x22"
abbreviation (input) o_login_resp :: byte where "o_login_resp \<equiv> 0x23"
abbreviation (input) o_text_resp :: byte where "o_text_resp \<equiv> 0x24"
abbreviation (input) o_scsi_data_in :: byte where "o_scsi_data_in \<equiv> 0x25"
abbreviation (input) o_logout_resp :: byte where "o_logout_resp \<equiv> 0x26"
abbreviation (input) o_r2t :: byte where "o_r2t \<equiv> 0x31"
abbreviation (input) o_async_msg :: byte where "o_async_msg \<equiv> 0x32"
abbreviation (input) o_reject :: byte where "o_reject \<equiv> 0x3f"

definition pdu_opcode_to_string :: "byte \<Rightarrow> string option" where
  "pdu_opcode_to_string opcode = map_of [
     (o_nop_out, ''I: NOP-Out''),
     (o_scsi_cmd, ''I: SCSI Command (encapsulates a SCSI Command Descriptor Block)''),
     (o_scsi_taskman, ''I: SCSI Task Management function request''),
     (o_login_req, ''I: Login Request''),
     (o_text_req, ''I: Text Request''),
     (o_scsi_data_out, ''I: SCSI Data-Out (for WRITE operations)''),
     (o_logout_req, ''I: Logout Request''),
     (o_snack_req, ''I: SNACK Request''),
     (o_nop_in, ''T: NOP-In''),
     (o_scsi_resp, ''T: SCSI Response - contains SCSI status and possibly sense information or other response information.''),
     (o_scsi_taskmanr, ''T: SCSI Task Management function response''),
     (o_login_resp, ''T: Login Response''),
     (o_text_resp, ''T: Text Response''),
     (o_scsi_data_in, ''T: SCSI Data-In - for READ operations''),
     (o_logout_resp, ''T: Logout Response''),
     (o_r2t, ''T: Ready To Transfer (R2T) - sent by target when it is ready to receive data''),
     (o_async_msg, ''T: Asynchronous Message - sent by target to indicate certain special conditions''),
     (o_reject, ''T: Reject'')] opcode"

text \<open>
  A received PDU: its 48 header bytes and its data segment (\<open>None\<close> while \<open>data.second\<close> is 0). An
  object of class \<open>iscsi_pdu_bhs\<close> starts with all bytes zero. AHS objects are never stored (see
  \<open>set_ahs_segment\<close>).
\<close>

record pdu =
  pdu_bytes :: "byte list"
  pdu_data :: "byte list option"

definition pdu_new :: pdu where
  "pdu_new = \<lparr>pdu_bytes = replicate 48 0, pdu_data = None\<rparr>"

definition bhs_set :: "byte list \<Rightarrow> pdu \<Rightarrow> pdu option" where
  "bhs_set inp p = (if length inp \<noteq> 48 then None else Some (p\<lparr>pdu_bytes := inp\<rparr>))"

definition get_opcode :: "pdu \<Rightarrow> byte" where
  "get_opcode p = get_bits (get8 bhs_l ''b1'' (pdu_bytes p)) 0 6"

definition get_I_flag :: "pdu \<Rightarrow> bool" where
  "get_I_flag p \<longleftrightarrow> get_bits (get8 bhs_l ''b1'' (pdu_bytes p)) 6 1 \<noteq> 0"

definition get_ahs_length :: "pdu \<Rightarrow> nat" where
  "get_ahs_length p = unat (get8 bhs_l ''ahslen'' (pdu_bytes p)) * 4"

definition get_data_length :: "pdu \<Rightarrow> nat" where
  "get_data_length p = unat (push_bit 16 (ucast (get8 bhs_l ''datalenH'' (pdu_bytes p)))
     OR push_bit 8 (ucast (get8 bhs_l ''datalenM'' (pdu_bytes p)))
     OR ucast (get8 bhs_l ''datalenL'' (pdu_bytes p)) :: u32)"

definition get_LUN_nr :: "pdu \<Rightarrow> u64" where
  "get_LUN_nr p = ld64 (off bhs_l ''lunfields'') (pdu_bytes p)"

definition get_raw :: "pdu \<Rightarrow> byte list" where
  "get_raw p = pdu_bytes p"

definition bhs_set_data :: "byte list \<Rightarrow> pdu \<Rightarrow> pdu option" where
  "bhs_set_data d p = (if length d = 0 \<or> length d > 16777215 then None else Some (p\<lparr>pdu_data := Some d\<rparr>))"

definition get_data :: "pdu \<Rightarrow> byte list option" where
  "get_data p = pdu_data p"

section \<open>Additional header segments\<close>

text \<open>
  \<open>iscsi_pdu_ahs::set\<close>: the \<open>n\<close> bytes at \<open>inp\<close>; the length field is big endian and does not count
  the three header bytes.
\<close>

definition ahs_set :: "byte list \<Rightarrow> nat \<Rightarrow> byte list option" where
  "ahs_set inp n =
     (if n < 3 then None
      else let expected_size = unat (my_NTOHS (ld16 0 inp))
           in if expected_size + 3 \<noteq> n then None else Some (take n inp))"

text \<open>
  The loop of \<open>set_ahs_segment\<close>. \<open>offset\<close> is never advanced, so a further round starts from the same
  state: \<open>None\<close> stands for a loop that never ends. The result is the returned flag and the list of
  stored segments.
\<close>

partial_function (option) set_ahs_loop :: "nat \<Rightarrow> byte list \<Rightarrow> byte list list \<Rightarrow> (bool \<times> byte list list) option" where
  "set_ahs_loop offset ahs_in ahs_list =
     (if offset + 3 < length ahs_in then
        let ahs_length = unat (push_bit 8 (ucast (ahs_in ! offset)) OR ucast (ahs_in ! (offset + 1)) :: u32)
        in if offset + 3 + ahs_length > length ahs_in then Some (offset = length ahs_in, ahs_list)
           else if ahs_length > 0 then
             (case ahs_set (drop offset ahs_in) ahs_length of
                None \<Rightarrow> Some (offset = length ahs_in, ahs_list)
              | Some a \<Rightarrow> set_ahs_loop offset ahs_in (ahs_list @ [a]))
           else set_ahs_loop offset ahs_in ahs_list
      else Some (offset = length ahs_in, ahs_list))"

definition set_ahs_segment :: "byte list \<Rightarrow> (bool \<times> byte list list) option" where
  "set_ahs_segment ahs_in = set_ahs_loop 0 ahs_in []"

section \<open>Assembling a PDU\<close>

text \<open>
  \<open>get_helper\<close>: \<open>out\<close> is allocated without initialisation, \<open>fill\<close> being whatever the heap holds.
\<close>

definition get_helper_fill :: "(nat \<Rightarrow> byte list) \<Rightarrow> session \<Rightarrow> byte list \<Rightarrow> byte list \<Rightarrow> bool \<Rightarrow> byte list" where
  "get_helper_fill fill ses header data allow =
     (let data_len = length data;
          out_size = 48;
          hd = (get_header_digest ses \<and> allow);
          crc32 = fst (crc32_0x11EDC6F41 header None);
          out_size = (if hd then out_size + 4 else out_size);
          data_offset = out_size;
          data_padded_length = pad4 data_len;
          out_size = out_size + data_padded_length;
          data_digest_offset = out_size;
          dd = (get_data_digest ses \<and> allow);
          out_size = (if dd \<and> data_len > 0 then out_size + 4 else out_size);
          out = fill out_size;
          out = overwrite 0 header out;
          out = (if hd then overwrite 48 (le32_bytes crc32) out else out)
      in if data_len > 0 then
           if dd then
             let out = overwrite (out_size - (4 + 4)) (replicate 4 0) out;
                 out = overwrite data_offset data out;
                 digest = fst (crc32_0x11EDC6F41 (slice data_offset data_padded_length out) None)
             in overwrite data_digest_offset (le32_bytes digest) out
           else overwrite data_offset data (overwrite (out_size - 4) (replicate 4 0) out)
         else out)"

definition get_helper :: "session \<Rightarrow> byte list \<Rightarrow> byte list \<Rightarrow> bool \<Rightarrow> byte list" where
  "get_helper = get_helper_fill (\<lambda>n. replicate n 0)"

text \<open>What \<open>get_helper\<close> should produce.\<close>

definition padded :: "byte list \<Rightarrow> byte list" where
  "padded d = d @ replicate (pad4 (length d) - length d) 0"

definition digest :: "byte list \<Rightarrow> byte list" where
  "digest d = le32_bytes (fst (crc32_0x11EDC6F41 d None))"

definition assembled :: "session \<Rightarrow> byte list \<Rightarrow> byte list \<Rightarrow> bool \<Rightarrow> byte list" where
  "assembled ses header data allow =
     header @ (if get_header_digest ses \<and> allow then digest header else [])
     @ padded data @ (if get_data_digest ses \<and> allow \<and> data \<noteq> [] then digest (padded data) else [])"

lemma length_padded: "length (padded d) = pad4 (length d)"
  using pad4_bounds(1) [of "length d"] by (simp add: padded_def)

lemma length_digest [simp]: "length (digest d) = 4"
  by (simp add: digest_def)

lemma overwrite_append:
  "length pre = o' \<Longrightarrow> length d = length mid \<Longrightarrow> overwrite o' d (pre @ mid @ post) = pre @ d @ post"
  by (simp add: overwrite_def)

lemma pad_fill:
  assumes "data \<noteq> []" and "length buf = pad4 (length data)"
  shows "overwrite 0 data (overwrite (pad4 (length data) - 4) (replicate 4 0) buf) = padded data"
proof -
  have b: "4 \<le> pad4 (length data)" "length data \<le> pad4 (length data)" "pad4 (length data) < length data + 4"
    using assms(1) pad4_pos [of "length data"] pad4_bounds [of "length data"] by auto
  show ?thesis
  proof (rule nth_equalityI)
    show "length (overwrite 0 data (overwrite (pad4 (length data) - 4) (replicate 4 0) buf)) = length (padded data)"
      using b assms(2) by (simp add: length_padded)
  next
    fix i assume "i < length (overwrite 0 data (overwrite (pad4 (length data) - 4) (replicate 4 0) buf))"
    then have "i < pad4 (length data)" using b assms(2) by simp
    then show "overwrite 0 data (overwrite (pad4 (length data) - 4) (replicate 4 0) buf) ! i = padded data ! i"
      using b assms(2) by (auto simp: nth_overwrite padded_def nth_append)
  qed
qed

lemma overwrite_inside:
  assumes "length pre = p" and "k + length d \<le> length mid"
  shows "overwrite (p + k) d (pre @ mid @ post) = pre @ overwrite k d mid @ post"
  using assms by (simp add: overwrite_def)

lemma overwrite_twice_inside:
  assumes "length pre = p" and "data \<noteq> []" and "length mid = pad4 (length data)"
  shows "overwrite p data (overwrite (p + (pad4 (length data) - 4)) (replicate 4 0) (pre @ mid @ post)) =
    pre @ padded data @ post"
proof -
  have b: "4 \<le> pad4 (length data)" "length data \<le> pad4 (length data)"
    using assms(2) pad4_pos [of "length data"] pad4_bounds [of "length data"] by auto
  have "overwrite (p + (pad4 (length data) - 4)) (replicate 4 0) (pre @ mid @ post) =
      pre @ overwrite (pad4 (length data) - 4) (replicate 4 0) mid @ post"
    using b assms by (intro overwrite_inside) simp_all
  moreover have "overwrite (p + 0) data (pre @ overwrite (pad4 (length data) - 4) (replicate 4 0) mid @ post) =
      pre @ overwrite 0 data (overwrite (pad4 (length data) - 4) (replicate 4 0) mid) @ post"
    using b assms by (intro overwrite_inside) simp_all
  ultimately show ?thesis using pad_fill [OF assms(2,3)] by simp
qed

lemma get_helper_fill_spec:
  assumes "\<And>n. length (fill n) = n" and "length header = 48"
  shows "get_helper_fill fill ses header data allow = assembled ses header data allow"
proof -
  define hd' where "hd' = (if get_header_digest ses \<and> allow then digest header else [])"
  define dd where "dd \<longleftrightarrow> get_data_digest ses \<and> allow \<and> data \<noteq> []"
  define n1 where "n1 = length hd'"
  define n3 where "n3 = (if dd then 4 else 0 :: nat)"
  define total where "total = 48 + n1 + pad4 (length data) + n3"
  define F where "F = fill total"
  define c d where "c = take (pad4 (length data)) (drop (48 + n1) F)" and "d = drop (48 + n1 + pad4 (length data)) F"
  have lF: "length F = total" by (simp add: F_def assms(1))
  have n1: "n1 = (if get_header_digest ses \<and> allow then 4 else 0)" by (simp add: n1_def hd'_def)
  have lens: "length c = pad4 (length data)" "length d = n3" by (simp_all add: c_def d_def lF total_def)
  have "drop (48 + n1) F = c @ d"
    unfolding c_def d_def using append_take_drop_id [of "pad4 (length data)" "drop (48 + n1) F"]
    by (simp add: add.commute)
  moreover have "drop 48 F = take n1 (drop 48 F) @ drop (48 + n1) F"
    using append_take_drop_id [of n1 "drop 48 F"] by (simp add: add.commute)
  ultimately have split: "F = take 48 F @ take n1 (drop 48 F) @ c @ d"
    using append_take_drop_id [of 48 F] by simp
  have h: "overwrite 0 header F = header @ take n1 (drop 48 F) @ c @ d"
    by (subst split, subst overwrite_append [of "[]", simplified]) (simp_all add: assms(2) lF total_def)
  define G where "G = (if get_header_digest ses \<and> allow then overwrite 48 (digest header) (overwrite 0 header F)
      else overwrite 0 header F)"
  have G: "G = (header @ hd') @ c @ d"
    unfolding G_def h using n1 lF
    by (auto simp: hd'_def assms(2) total_def overwrite_append)
  have pre: "length (header @ hd') = 48 + n1" by (simp add: assms(2) n1_def)
  have eq: "get_helper_fill fill ses header data allow =
      (if data \<noteq> [] then
         if get_data_digest ses \<and> allow then
           let out = overwrite (48 + n1) data (overwrite (total - 8) (replicate 4 0) G)
           in overwrite (48 + n1 + pad4 (length data)) (digest (slice (48 + n1) (pad4 (length data)) out)) out
         else overwrite (48 + n1) data (overwrite (total - 4) (replicate 4 0) G)
       else G)"
    by (simp add: get_helper_fill_def Let_def F_def G_def total_def n1 n3_def dd_def digest_def)
  show ?thesis
  proof (cases "data = []")
    case True
    then have "c = []" "d = []" using lens by (simp_all add: n3_def dd_def)
    then show ?thesis unfolding eq G assembled_def using True by (simp add: hd'_def padded_def)
  next
    case False
    have p4: "4 \<le> pad4 (length data)" using False pad4_pos [of "length data"] by simp
    have w: "overwrite (48 + n1) data (overwrite (48 + n1 + (pad4 (length data) - 4)) (replicate 4 0) G) =
        (header @ hd') @ padded data @ d"
      unfolding G by (rule overwrite_twice_inside [OF pre False lens(1)])
    show ?thesis
    proof (cases "get_data_digest ses \<and> allow")
      case True
      then have n3: "n3 = 4" by (simp add: n3_def dd_def False)
      have t: "total - 8 = 48 + n1 + (pad4 (length data) - 4)" using p4 by (simp add: total_def n3)
      have s: "slice (48 + n1) (pad4 (length data)) ((header @ hd') @ padded data @ d) = padded data"
        using pre by (simp add: slice_def length_padded)
      have "overwrite (48 + n1 + pad4 (length data)) (digest (padded data)) (((header @ hd') @ padded data) @ d @ []) =
          ((header @ hd') @ padded data) @ digest (padded data) @ []"
        using pre lens(2) n3 by (intro overwrite_append) (simp_all add: length_padded)
      then show ?thesis
        unfolding eq t using True False w s by (simp add: Let_def assembled_def hd'_def)
    next
      case nodd: False
      then have n3: "n3 = 0" "d = []" using lens(2) by (auto simp: n3_def dd_def)
      have "total - 4 = 48 + n1 + (pad4 (length data) - 4)" using p4 by (simp add: total_def n3)
      then show ?thesis unfolding eq using nodd False w n3 by (auto simp: assembled_def hd'_def)
    qed
  qed
qed

lemma get_helper_spec: "length header = 48 \<Longrightarrow> get_helper ses header data allow = assembled ses header data allow"
  unfolding get_helper_def by (rule get_helper_fill_spec) simp_all

lemma length_assembled: "length header = 48 \<Longrightarrow> length (assembled ses header data allow) mod 4 = 0"
proof -
  assume h: "length header = 48"
  obtain k where "pad4 (length data) = 4 * k" using pad4_bounds(3) [of "length data"] by auto
  then show ?thesis using h by (auto simp: assembled_def length_padded)
qed

text \<open>
  C32: whatever the uninitialised output buffer of \<open>get_helper\<close> holds, the PDU is exactly the header,
  the header digest if negotiated, the data padded with zeros to a multiple of four, and the data
  digest over data and padding if negotiated: no byte of the heap leaks into the PDU.
\<close>

theorem get_helper_assembles:
  assumes "\<And>n. length (fill n) = n" and "length header = 48"
  shows "get_helper_fill fill ses header data allow = assembled ses header data allow \<and>
    length (get_helper_fill fill ses header data allow) mod 4 = 0"
  using get_helper_fill_spec [OF assms] length_assembled [OF assms(2)] by simp

theorem get_helper_assembles_witness:
  "get_helper_fill (\<lambda>n. replicate n 0xAA) (session_new [] [] [] True\<lparr>header_digest := True, data_digest := True\<rparr>)
     (replicate 48 1) [1, 2, 3, 4, 5] True =
   assembled (session_new [] [] [] True\<lparr>header_digest := True, data_digest := True\<rparr>) (replicate 48 1) [1, 2, 3, 4, 5] True \<and>
   length (get_helper_fill (\<lambda>n. replicate n 0xAA) (session_new [] [] [] True\<lparr>header_digest := True, data_digest := True\<rparr>)
     (replicate 48 1) [1, 2, 3, 4, 5] True) mod 4 = 0"
  by (rule get_helper_assembles) simp_all

section \<open>The AHS loop\<close>

definition ahs_field :: "byte list \<Rightarrow> nat" where
  "ahs_field ahs_in = unat (push_bit 8 (ucast (ahs_in ! 0)) OR ucast (ahs_in ! 1) :: u32)"

lemma unat_be16: "unat (push_bit 8 (ucast (a :: byte)) OR ucast (b :: byte) :: u32) = unat (my_NTOHS (ucast a OR push_bit 8 (ucast b)))"
proof -
  have "(push_bit 8 (ucast a) OR ucast b :: u32) = ucast (my_NTOHS (ucast a OR push_bit 8 (ucast b)))"
  proof (rule bit_word_eqI)
    fix n assume "n < LENGTH(32)"
    then consider "n < 8" | "8 \<le> n" "n < 16" | "16 \<le> n" "n < 32" by fastforce
    then show "bit (push_bit 8 (ucast a) OR ucast b :: u32) n = bit (ucast (my_NTOHS (ucast a OR push_bit 8 (ucast b))) :: u32) n"
      unfolding my_NTOHS_def bit_unsigned_iff bit_my_HTONS bit_or_iff
      by cases (simp_all add: bit_simps bit_byte_high le_diff_conv2 less_diff_conv2)
  qed
  moreover have "unat (ucast (x :: u16) :: u32) = unat x" for x
  proof -
    have "unat x < 2 ^ 16" using unsigned_less [of x, where 'a = nat] by simp
    then show ?thesis by (simp add: unsigned_ucast_eq take_bit_nat_eq_self)
  qed
  ultimately show ?thesis by metis
qed

lemma ahs_set_fails: "2 \<le> length ahs_in \<Longrightarrow> ahs_set ahs_in (ahs_field ahs_in) = None"
  by (simp add: ahs_set_def Let_def ahs_field_def ld16_def unat_be16)

lemma set_ahs_diverges:
  assumes "set_ahs_loop offset ahs_in acc = Some y"
  shows "\<not> (offset = 0 \<and> 3 < length ahs_in \<and> ahs_field ahs_in = 0)"
proof (rule set_ahs_loop.raw_induct [where P = "\<lambda>offset ahs_in acc y.
    \<not> (offset = 0 \<and> 3 < length ahs_in \<and> ahs_field ahs_in = 0)", OF _ assms], rule notI)
  fix f offset ahs_in acc and y :: "bool \<times> byte list list"
  assume IH: "\<And>offset ahs_in acc y. f offset ahs_in acc = Some y \<Longrightarrow>
      \<not> (offset = 0 \<and> 3 < length ahs_in \<and> ahs_field ahs_in = 0)"
    and body: "(if offset + 3 < length ahs_in then
        let ahs_length = unat (push_bit 8 (ucast (ahs_in ! offset)) OR ucast (ahs_in ! (offset + 1)) :: u32)
        in if offset + 3 + ahs_length > length ahs_in then Some (offset = length ahs_in, acc)
           else if ahs_length > 0 then
             (case ahs_set (drop offset ahs_in) ahs_length of
                None \<Rightarrow> Some (offset = length ahs_in, acc)
              | Some a \<Rightarrow> f offset ahs_in (acc @ [a]))
           else f offset ahs_in acc
      else Some (offset = length ahs_in, acc)) = Some y"
    and a: "offset = 0 \<and> 3 < length ahs_in \<and> ahs_field ahs_in = 0"
  have "f offset ahs_in acc = Some y" using body a by (simp add: ahs_field_def Let_def)
  then show False using IH a by blast
qed

text \<open>
  \<open>set_ahs_segment\<close> never stores an additional header segment. It accepts only an empty segment;
  a segment of at least four bytes whose length field is 0 makes the loop run for ever, because the
  offset is not advanced; every other segment is refused.
\<close>

theorem set_ahs_segment_behaviour:
  "set_ahs_segment ahs_in =
     (if ahs_in = [] then Some (True, [])
      else if length ahs_in \<le> 3 then Some (False, [])
      else if ahs_field ahs_in = 0 then None
      else Some (False, []))"
proof (cases "3 < length ahs_in \<and> ahs_field ahs_in = 0")
  case True
  then have "set_ahs_segment ahs_in = None"
    using set_ahs_diverges [of 0 ahs_in "[]"] by (cases "set_ahs_segment ahs_in") (auto simp: set_ahs_segment_def)
  then show ?thesis using True by auto
next
  case False
  then show ?thesis
    using ahs_set_fails [of ahs_in] unfolding set_ahs_segment_def
    by (subst set_ahs_loop.simps) (auto simp: ahs_field_def Let_def)
qed

end
