(* ===== verification/Iscsi_Pdu.thy ===== *)
theory Iscsi_Pdu
  imports Iscsi_Bhs Scsi_Commands
begin

text \<open>
  The PDU classes of \<^verbatim>\<open>iscsi-pdu.h\<close> / \<^verbatim>\<open>iscsi-pdu.cpp\<close>: what each request PDU exposes, how each reply
  PDU is filled in, and how it is serialised. A request is a \<open>pdu\<close>; its class is given by the layout
  its members are read with. A reply is the data the C++ object holds until \<open>get()\<close> is called.
\<close>

section \<open>Members of requests\<close>

definition get_Itasktag :: "layout \<Rightarrow> pdu \<Rightarrow> u32" where
  "get_Itasktag l p = get32 l ''Itasktag'' (pdu_bytes p)"

definition get_CmdSN :: "layout \<Rightarrow> pdu \<Rightarrow> u32" where
  "get_CmdSN l p = my_NTOHL (get32 l ''CmdSN'' (pdu_bytes p))"

definition get_ExpStatSN :: "layout \<Rightarrow> pdu \<Rightarrow> u32" where
  "get_ExpStatSN l p = my_NTOHL (get32 l ''ExpStatSN'' (pdu_bytes p))"

definition get_LUN :: "layout \<Rightarrow> pdu \<Rightarrow> byte list" where
  "get_LUN l p = slice (off l ''LUN'') 8 (pdu_bytes p)"

definition get_TTT :: "layout \<Rightarrow> pdu \<Rightarrow> u32" where
  "get_TTT l p = get32 l ''TTT'' (pdu_bytes p)"

definition get_CSG :: "pdu \<Rightarrow> byte" where
  "get_CSG p = get_bits (get8 login_req_l ''b2'' (pdu_bytes p)) 2 2"

definition get_NSG :: "pdu \<Rightarrow> byte" where
  "get_NSG p = get_bits (get8 login_req_l ''b2'' (pdu_bytes p)) 0 2"

definition get_versionmin :: "pdu \<Rightarrow> byte" where
  "get_versionmin p = get8 login_req_l ''versionmin'' (pdu_bytes p)"

definition get_ISID :: "pdu \<Rightarrow> byte list" where
  "get_ISID p = slice (off login_req_l ''ISID'') 6 (pdu_bytes p)"

definition get_CDB :: "pdu \<Rightarrow> byte list" where
  "get_CDB p = slice (off cdb_pdu_req_l ''CDB'') 16 (pdu_bytes p)"

definition get_ExpDatLen :: "pdu \<Rightarrow> u32" where
  "get_ExpDatLen p = my_NTOHL (get32 cdb_pdu_req_l ''expdatlen'' (pdu_bytes p))"

definition get_BufferOffset :: "pdu \<Rightarrow> u32" where
  "get_BufferOffset p = my_NTOHL (get32 pdu_data_out_l ''bufferoff'' (pdu_bytes p))"

definition get_F :: "pdu \<Rightarrow> bool" where
  "get_F p \<longleftrightarrow> get8 pdu_data_out_l ''b2'' (pdu_bytes p) AND 128 \<noteq> 0"

definition get_task_func :: "pdu \<Rightarrow> byte" where
  "get_task_func p = get_bits (get8 taskman_req_l ''b2'' (pdu_bytes p)) 0 7"

definition max_msg_depth :: u32 where "max_msg_depth = 128"

section \<open>Login request\<close>

definition has_CRC32C :: "string \<Rightarrow> bool" where
  "has_CRC32C v = (case split_str v '','' of None \<Rightarrow> False | Some parts \<Rightarrow> ''CRC32C'' \<in> set parts)"

text \<open>\<open>std::stoi\<close>: white space, a sign, decimal digits; no digits or a value beyond \<open>int\<close> throw.\<close>

definition is_space :: "char \<Rightarrow> bool" where
  "is_space c \<longleftrightarrow> c \<in> set [CHR '' '', CHR 0x09, CHR 0x0A, CHR 0x0B, CHR 0x0C, CHR 0x0D]"

definition is_digit :: "char \<Rightarrow> bool" where
  "is_digit c \<longleftrightarrow> 48 \<le> (of_char c :: nat) \<and> (of_char c :: nat) \<le> 57"

definition digits_value :: "string \<Rightarrow> int" where
  "digits_value ds = foldl (\<lambda>v c. v * 10 + (of_char c - 48)) 0 ds"

definition stoi :: "string \<Rightarrow> int result" where
  "stoi str =
     (let r = dropWhile is_space str;
          neg = (case r of c # _ \<Rightarrow> c = CHR ''-'' | [] \<Rightarrow> False);
          r = (case r of c # cs \<Rightarrow> if c = CHR ''-'' \<or> c = CHR ''+'' then cs else r | [] \<Rightarrow> []);
          ds = takeWhile is_digit r;
          v = (if neg then - digits_value ds else digits_value ds)
      in if ds = [] then Inl (Uncaught ''std::invalid_argument'')
         else if v < - (2 ^ 31) \<or> 2 ^ 31 \<le> v then Inl (Uncaught ''std::out_of_range'')
         else Inr v)"

text \<open>
  One key/value pair of a login request; the state is \<open>max_burst\<close>, \<open>max_seg_len\<close>, the initiator name
  and the session.
\<close>

type_synonym login_st = "u32 \<times> u32 \<times> string option \<times> session"

definition login_kv :: "string \<Rightarrow> login_st \<Rightarrow> login_st result" where
  "login_kv kv = (\<lambda>(max_burst, max_seg, ini, ses).
     (case split_str kv ''='' of
        None \<Rightarrow> Inl No_return
      | Some parts \<Rightarrow>
          if length parts < 2 then Inr (max_burst, max_seg, ini, ses)
          else if parts ! 0 = ''MaxBurstLength'' \<or> parts ! 0 = ''FirstBurstLength''
          then bindR (stoi (parts ! 1)) (\<lambda>v. Inr (min max_burst (of_int v), max_seg, ini, ses))
          else if parts ! 0 = ''MaxRecvDataSegmentLength''
          then bindR (stoi (parts ! 1)) (\<lambda>v. Inr (max_burst, min max_seg (of_int v), ini, ses))
          else if parts ! 0 = ''InitiatorName'' then Inr (max_burst, max_seg, Some (parts ! 1), ses)
          else if parts ! 0 = ''HeaderDigest''
          then Inr (max_burst, max_seg, ini, ses\<lparr>header_digest := has_CRC32C (parts ! 1)\<rparr>)
          else if parts ! 0 = ''DataDigest''
          then Inr (max_burst, max_seg, ini, ses\<lparr>data_digest := has_CRC32C (parts ! 1)\<rparr>)
          else Inr (max_burst, max_seg, ini, ses)))"

fun login_kvs :: "string list \<Rightarrow> login_st \<Rightarrow> login_st result" where
  "login_kvs [] st = Inr st"
| "login_kvs (kv # kvs) st = bindR (login_kv kv st) (login_kvs kvs)"

definition login_set_data :: "byte list \<Rightarrow> pdu \<Rightarrow> session \<Rightarrow> (pdu option \<times> string option \<times> session) result" where
  "login_set_data d p ses =
     (case bhs_set_data d p of
        None \<Rightarrow> Inr (None, None, ses)
      | Some p \<Rightarrow>
          bindR (login_kvs (data_to_text_array d) (0xffffffff, max_seg_len ses, None, ses))
            (\<lambda>(max_burst, max_seg, ini, ses).
             let ses = ses\<lparr>max_seg_len := max_seg\<rparr>;
                 ses = (if max_burst < 0xffffffff then ses\<lparr>ack_interval := Some max_burst\<rparr> else ses)
             in Inr (Some p, ini, ses)))"

section \<open>Replies\<close>

text \<open>
  A reply object: the header bytes and the reply data for the classes that serialise with
  \<open>get_helper\<close>; a Data-In object keeps the command's header bytes and the data.
\<close>

datatype reply =
    Login_reply "byte list" "byte list"
  | Scsi_response "byte list" "byte list"
  | Data_in pdu "byte list"
  | Nop_in "byte list" "byte list"
  | R2t "byte list"
  | Text_reply "byte list" "byte list"
  | Logout_reply "byte list"
  | Taskman_reply "byte list"

definition zero48 :: "byte list" where "zero48 = replicate 48 0"

fun random_tsih :: "nat \<Rightarrow> u16 \<Rightarrow> env \<Rightarrow> u16 option \<times> env" where
  "random_tsih 0 v e = (None, e)"
| "random_tsih (Suc n) v e =
     (if v = 0 then
        (case my_getrandom 2 e of
           (None, e) \<Rightarrow> (None, e)
         | (Some b, e) \<Rightarrow> random_tsih n (ld16 0 b) e)
      else (Some v, e))"

definition login_reply_kvs :: "session \<Rightarrow> pdu \<Rightarrow> string list" where
  "login_reply_kvs ses reply_to =
     (if get_NSG reply_to = 1
      then [''TargetPortalGroupTag=1'', ''AuthMethod=None'', ''ErrorRecoveryLevel=0'']
      else [if get_header_digest ses then ''HeaderDigest=CRC32C'' else ''HeaderDigest=None'',
            if get_data_digest ses then ''DataDigest=CRC32C'' else ''DataDigest=None'',
            ''DefaultTime2Wait=2'', ''DefaultTime2Retain=20'', ''InitialR2T=Yes'',
            ''FirstBurstLength=268435456'', ''MaxBurstLength=268435456'', ''MaxRecvDataSegmentLength=268435456''])"

definition login_reply_set :: "session \<Rightarrow> pdu \<Rightarrow> env \<Rightarrow> reply option \<times> env" where
  "login_reply_set ses reply_to e =
     (let l = login_reply_l;
          (buf, n) = text_array_to_data (login_reply_kvs ses reply_to);
          p = zero48;
          p = setbits l ''b1'' 0 6 o_login_resp (setbits l ''b1'' 6 1 0 (setbits l ''b1'' 7 1 0 p));
          p = setbits l ''b2'' 6 1 0 (setbits l ''b2'' 7 1 1 p);
          p = setbits l ''b2'' 0 2 (get_NSG reply_to) (setbits l ''b2'' 2 2 (get_CSG reply_to) p);
          p = set8 l ''versionact'' (get_versionmin reply_to) (set8 l ''versionmax'' (get_versionmin reply_to) p);
          p = set_datalen l n p;
          p = setmem l ''ISID'' (get_ISID reply_to) p;
          (tsih, e) = (if get_NSG reply_to = 3
                       then random_tsih (length (entropy e) + 2) 0 e else (Some 0, e))
      in case tsih of
           None \<Rightarrow> (None, e)
         | Some v \<Rightarrow>
             let p = st16 (off l ''TSIH'') v p;
                 p = set32 l ''Itasktag'' (get_Itasktag login_req_l reply_to) p;
                 p = set32 l ''StatSN'' (my_HTONL (if get_CSG reply_to = 0 then 0 else 1)) p;
                 p = set32 l ''ExpCmdSN'' (my_HTONL (get_CmdSN login_req_l reply_to)) p;
                 p = set32 l ''MaxCmdSN'' (my_HTONL (get_CmdSN login_req_l reply_to + 1)) p
             in (Some (Login_reply p (take n buf)), e))"

datatype residual = iSR_OVERFLOW | iSR_UNDERFLOW | iSR_OK

definition scsi_response_set :: "pdu \<Rightarrow> byte list \<Rightarrow> (residual \<times> u32) option \<Rightarrow> byte option \<Rightarrow> reply option" where
  "scsi_response_set reply_to sense has_residual iscsi_status =
     (let l = pdu_response_l;
          n = (if sense \<noteq> [] then 2 + length sense else 0);
          p = zero48;
          p = setbits l ''b1'' 7 1 0 (setbits l ''b1'' 6 1 0 (setbits l ''b1'' 0 6 o_scsi_resp p));
          p = setbits l ''b2'' 7 1 1 p;
          p = set_datalen l n p;
          p = set32 l ''Itasktag'' (get_Itasktag cdb_pdu_req_l reply_to) p;
          p = set32 l ''StatSN'' (my_HTONL (get_ExpStatSN cdb_pdu_req_l reply_to)) p;
          p = set32 l ''ExpCmdSN'' (my_HTONL (get_CmdSN cdb_pdu_req_l reply_to + 1)) p;
          p = set32 l ''MaxCmdSN'' (my_HTONL (get_CmdSN cdb_pdu_req_l reply_to + max_msg_depth)) p;
          p = set32 l ''ExpDataSN'' (my_HTONL 0) p;
          residual_p = (case has_residual of
              None \<Rightarrow> Some p
            | Some (iSR_UNDERFLOW, v) \<Rightarrow> Some (set32 l ''ResidualCt'' (my_HTONL v) (setbits l ''b2'' 1 1 1 p))
            | Some (iSR_OVERFLOW, v) \<Rightarrow> Some (set32 l ''ResidualCt'' (my_HTONL v) (setbits l ''b2'' 2 1 1 p))
            | Some (iSR_OK, v) \<Rightarrow> None)
      in case residual_p of
           None \<Rightarrow> None
         | Some p \<Rightarrow>
             if n \<noteq> 0 then
               let p = set8 l ''status'' (case iscsi_status of Some st \<Rightarrow> st | None \<Rightarrow> 0x02) p;
                   p = set8 l ''response'' 0x01 p;
                   p = set32 l ''ExpDataSN'' 0 p
               in Some (Scsi_response p ([of_nat (length sense div 2 ^ 8), of_nat (length sense)] @ sense))
             else Some (Scsi_response p []))"

definition nop_in_set :: "pdu \<Rightarrow> reply" where
  "nop_in_set reply_to =
     (let l = nop_in_l; ping_data = get_data reply_to;
          p = setbits l ''b2'' 7 1 1 (setbits l ''b1'' 0 6 o_nop_in zero48);
          p = (case ping_data of None \<Rightarrow> p | Some d \<Rightarrow> set_datalen l (length d) p);
          d = (case ping_data of None \<Rightarrow> [] | Some d \<Rightarrow> if length d > 16777215 then [] else d);
          p = setmem l ''LUN'' (get_LUN nop_out_l reply_to) p;
          p = set32 l ''Itasktag'' (get_Itasktag nop_out_l reply_to) p;
          p = set32 l ''TTT'' (get_TTT nop_out_l reply_to) p;
          p = set32 l ''StatSN'' (my_HTONL (get_ExpStatSN nop_out_l reply_to)) p;
          p = set32 l ''ExpCmdSN'' (my_HTONL (get_CmdSN nop_out_l reply_to + 1)) p;
          p = set32 l ''MaxCmdSN'' (my_HTONL (get_CmdSN nop_out_l reply_to + max_msg_depth)) p
      in Nop_in p d)"

definition r2t_set :: "pdu \<Rightarrow> u32 \<Rightarrow> u32 \<Rightarrow> u32 \<Rightarrow> reply" where
  "r2t_set reply_to ttt buffer_offset data_length =
     (let l = pdu_scsi_r2t_l;
          p = setbits l ''b2'' 7 1 1 (setbits l ''b1'' 0 6 o_r2t zero48);
          p = setmem l ''LUN'' (get_LUN cdb_pdu_req_l reply_to) p;
          p = set32 l ''Itasktag'' (get_Itasktag cdb_pdu_req_l reply_to) p;
          p = set32 l ''TTT'' ttt p;
          p = set32 l ''StatSN'' (my_HTONL (get_ExpStatSN cdb_pdu_req_l reply_to)) p;
          p = set32 l ''ExpCmdSN'' (my_HTONL (get_CmdSN cdb_pdu_req_l reply_to + 1)) p;
          p = set32 l ''MaxCmdSN'' (my_HTONL (get_CmdSN cdb_pdu_req_l reply_to + max_msg_depth)) p;
          p = set32 l ''bufferoff'' (my_HTONL buffer_offset) p;
          p = set32 l ''DDTF'' (my_HTONL data_length) p
      in R2t p)"

text \<open>The loop over the keys of a text request: \<open>None\<close> is the early \<open>return false\<close>.\<close>

fun text_kvs :: "string list \<Rightarrow> bool \<Rightarrow> bool option" where
  "text_kvs [] send_targets = Some send_targets"
| "text_kvs (kv # kvs) send_targets =
     (case split_str kv ''='' of
        None \<Rightarrow> None
      | Some parts \<Rightarrow>
          if length parts < 2 then None
          else text_kvs kvs (send_targets \<or> (parts ! 0 = ''SendTargets'' \<and> parts ! 1 = ''All'')))"

definition text_reply_set :: "session \<Rightarrow> pdu \<Rightarrow> reply option" where
  "text_reply_set ses reply_to =
     (case get_data reply_to of
        None \<Rightarrow> None
      | Some data \<Rightarrow>
          (case text_kvs (data_to_text_array data) False of
             None \<Rightarrow> None
           | Some send_targets \<Rightarrow>
               let l = text_reply_l;
                   (buf, n) = (if send_targets
                     then text_array_to_data [''TargetName='' @ target_name ses,
                            ''TargetAddress='' @ local_address ses @ '',1'']
                     else ([], 0));
                   p = setbits l ''b2'' 7 1 1 (setbits l ''b1'' 0 6 o_text_resp zero48);
                   p = set_datalen l n (set8 l ''ahslen'' 0 p);
                   p = setmem l ''LUN'' (get_LUN text_req_l reply_to) p;
                   p = set32 l ''TTT'' (get_TTT text_req_l reply_to) p;
                   p = set32 l ''Itasktag'' (get_Itasktag text_req_l reply_to) p;
                   p = set32 l ''StatSN'' (my_HTONL (get_ExpStatSN text_req_l reply_to)) p;
                   p = set32 l ''ExpCmdSN'' (my_HTONL (get_CmdSN text_req_l reply_to + 1)) p;
                   p = set32 l ''MaxCmdSN'' (my_HTONL (get_CmdSN text_req_l reply_to + max_msg_depth)) p
               in Some (Text_reply p (take n buf))))"

definition logout_reply_set :: "pdu \<Rightarrow> reply" where
  "logout_reply_set reply_to =
     (let l = logout_reply_l;
          p = setbits l ''b2'' 7 1 1 (setbits l ''b1'' 0 6 o_logout_resp zero48);
          p = set32 l ''Itasktag'' (get_Itasktag logout_req_l reply_to) p;
          p = set32 l ''StatSN'' (my_HTONL (get_ExpStatSN logout_req_l reply_to)) p;
          p = set32 l ''ExpCmdSN'' (my_HTONL (get_CmdSN logout_req_l reply_to)) p;
          p = set32 l ''MaxCmdSN'' (my_HTONL (get_CmdSN logout_req_l reply_to)) p
      in Logout_reply p)"

definition taskman_reply_set :: "pdu \<Rightarrow> reply" where
  "taskman_reply_set reply_to =
     (let l = taskman_reply_l;
          p = setbits l ''b2'' 7 1 1 (setbits l ''b1'' 0 6 o_scsi_taskmanr zero48);
          p = set32 l ''Itasktag'' (get_Itasktag taskman_req_l reply_to) p;
          p = set32 l ''StatSN'' (my_HTONL (get_ExpStatSN taskman_req_l reply_to)) p;
          p = set32 l ''ExpCmdSN'' (my_HTONL (get_CmdSN taskman_req_l reply_to + 1)) p;
          p = set32 l ''MaxCmdSN'' (my_HTONL (get_CmdSN taskman_req_l reply_to + max_msg_depth)) p
      in Taskman_reply p)"

section \<open>Serialising replies\<close>

text \<open>
  The header of one Data-In PDU of \<open>iscsi_pdu_scsi_data_in::get\<close>: \<open>avail\<close> is \<open>pdu_data_in_data.second\<close>,
  \<open>use\<close> the part of it that is sent, \<open>i\<close> the offset of this PDU.
\<close>

definition data_in_header :: "pdu \<Rightarrow> nat \<Rightarrow> nat \<Rightarrow> nat \<Rightarrow> nat \<Rightarrow> bool \<Rightarrow> u32 \<Rightarrow> byte list" where
  "data_in_header reply_to avail use i cur_len last_block datasn =
     (let l = pdu_data_in_l; exp = unat (get_ExpDatLen reply_to);
          p = setbits l ''b1'' 0 6 o_scsi_data_in zero48;
          p = (if last_block then
                 let p = setbits l ''b2'' 7 1 1 p;
                     p = (if avail < exp
                          then set32 l ''ResidualCt'' (my_HTONL (of_nat (exp - avail))) (setbits l ''b2'' 1 1 1 p)
                          else if avail > exp
                          then set32 l ''ResidualCt'' (my_HTONL (of_nat (avail - exp))) (setbits l ''b2'' 2 1 1 p)
                          else p)
                 in setbits l ''b2'' 0 1 1 p
               else p);
          p = set_datalen l cur_len p;
          p = setmem l ''LUN'' (get_LUN cdb_pdu_req_l reply_to) p;
          p = set32 l ''Itasktag'' (get_Itasktag cdb_pdu_req_l reply_to) p;
          p = set32 l ''StatSN'' (my_HTONL (get_ExpStatSN cdb_pdu_req_l reply_to)) p;
          p = set32 l ''ExpCmdSN'' (my_HTONL (get_CmdSN cdb_pdu_req_l reply_to + 1)) p;
          p = set32 l ''MaxCmdSN'' (my_HTONL (get_CmdSN cdb_pdu_req_l reply_to + max_msg_depth)) p;
          p = set32 l ''DataSN'' (my_HTONL datasn) p;
          p = set32 l ''bufferoff'' (my_HTONL (of_nat i)) p
      in set32 l ''ResidualCt'' (my_HTONL (of_nat (use - i))) p)"

function data_in_loop :: "pdu \<Rightarrow> byte list \<Rightarrow> nat \<Rightarrow> nat \<Rightarrow> nat \<Rightarrow> nat \<Rightarrow> nat \<Rightarrow> session \<Rightarrow> byte list list \<times> session" where
  "data_in_loop reply_to data use block_size n_to_do i count ses =
     (if i < use \<and> 0 < block_size then
        let last_block = (count = n_to_do - 1);
            cur_len = min (use - i) block_size;
            (datasn, ses) = get_inc_datasn (get_Itasktag cdb_pdu_req_l reply_to) ses;
            header = data_in_header reply_to (length data) use i cur_len last_block datasn;
            blob = get_helper ses header (slice i cur_len data) True;
            (blobs, ses) = data_in_loop reply_to data use block_size n_to_do (i + block_size) (count + 1) ses
        in (blob # blobs, ses)
      else ([], ses))"
  by pat_completeness auto
termination
  by (relation "measure (\<lambda>(_, _, use, _, _, i, _, _). use - i)") auto

declare data_in_loop.simps [simp del]

text \<open>\<open>use_pdu_data_size + block_size - 1) / block_size\<close> traps when the session has no block size.\<close>

definition data_in_get :: "pdu \<Rightarrow> byte list \<Rightarrow> session \<Rightarrow> (byte list list \<times> session) result" where
  "data_in_get reply_to data ses =
     (let use = min (length data) (unat (get_ExpDatLen reply_to));
          block_size = unat (ses_block_size ses)
      in if block_size = 0 then Inl (Uncaught ''division by zero'')
         else Inr (data_in_loop reply_to data use block_size ((use + block_size - 1) div block_size) 0 0 ses))"

definition reply_get :: "reply \<Rightarrow> session \<Rightarrow> (byte list list \<times> session) result" where
  "reply_get r ses = (case r of
     Login_reply h d \<Rightarrow> Inr ([get_helper ses h d False], ses)
   | Scsi_response h d \<Rightarrow> Inr ([get_helper ses h d True], ses)
   | Data_in c d \<Rightarrow> data_in_get c d ses
   | Nop_in h d \<Rightarrow> Inr ([get_helper ses h d True], ses)
   | R2t h \<Rightarrow> Inr ([get_helper ses h [] True], ses)
   | Text_reply h d \<Rightarrow> Inr ([get_helper ses h d True], ses)
   | Logout_reply h \<Rightarrow> Inr ([get_helper ses h [] True], ses)
   | Taskman_reply h \<Rightarrow> Inr ([get_helper ses h [] True], ses))"

text \<open>
  \<open>gen_data_in_pdu\<close> for streamed reads: a zeroed buffer with header and header digest, and the
  offset at which the caller puts the data. The allocation is taken to succeed.
\<close>

definition gen_data_in_header :: "pdu \<Rightarrow> (residual \<times> u32) option \<Rightarrow> u32 \<Rightarrow> u32 \<Rightarrow> bool \<Rightarrow> u32 \<Rightarrow> byte list" where
  "gen_data_in_header reply_to has_residual offset_in_data data_is_n_bytes is_last_block datasn =
     (let l = pdu_data_in_l;
          p = setbits l ''b1'' 0 6 o_scsi_data_in zero48;
          p = (if is_last_block then setbits l ''b2'' 0 1 1 (setbits l ''b2'' 7 1 1 p) else p);
          p = set_datalen l (unat data_is_n_bytes) p;
          p = setmem l ''LUN'' (get_LUN cdb_pdu_req_l reply_to) p;
          p = set32 l ''Itasktag'' (get_Itasktag cdb_pdu_req_l reply_to) p;
          p = set32 l ''StatSN'' (my_HTONL (get_ExpStatSN cdb_pdu_req_l reply_to)) p;
          p = set32 l ''ExpCmdSN'' (my_HTONL (get_CmdSN cdb_pdu_req_l reply_to + 1)) p;
          p = set32 l ''MaxCmdSN'' (my_HTONL (get_CmdSN cdb_pdu_req_l reply_to + max_msg_depth)) p;
          p = set32 l ''DataSN'' (my_HTONL datasn) p;
          p = set32 l ''bufferoff'' (my_HTONL offset_in_data) p
      in case has_residual of
           None \<Rightarrow> p
         | Some (r, v) \<Rightarrow>
             let p = set32 l ''ResidualCt'' (my_HTONL v) p
             in (case r of iSR_UNDERFLOW \<Rightarrow> setbits l ''b2'' 1 1 1 p
                 | iSR_OVERFLOW \<Rightarrow> setbits l ''b2'' 2 1 1 p | iSR_OK \<Rightarrow> p))"

definition gen_data_in_pdu :: "session \<Rightarrow> pdu \<Rightarrow> (residual \<times> u32) option \<Rightarrow> u32 \<Rightarrow> u32 \<Rightarrow> bool
    \<Rightarrow> byte list \<times> nat \<times> session" where
  "gen_data_in_pdu ses reply_to has_residual offset_in_data data_is_n_bytes is_last_block =
     (let (datasn, ses) = get_inc_datasn (get_Itasktag cdb_pdu_req_l reply_to) ses;
          header = gen_data_in_header reply_to has_residual offset_in_data data_is_n_bytes is_last_block datasn;
          out_size = pad4 (48 + unat data_is_n_bytes);
          out_size = (if get_header_digest ses then out_size + 4 else out_size);
          out_size = (if get_data_digest ses then out_size + 4 else out_size);
          out = overwrite 0 header (replicate out_size 0)
      in if get_header_digest ses
         then (overwrite 48 (le32_bytes (fst (crc32_0x11EDC6F41 header None))) out, 52, ses)
         else (out, 48, ses))"

section \<open>Reject\<close>

text \<open>
  \<open>about.get()\<close> for the class of the PDU that is rejected: a Data-Out object returns no blobs, a
  login request is serialised without digests.
\<close>

definition request_get :: "session \<Rightarrow> pdu \<Rightarrow> byte list list" where
  "request_get ses p =
     (if get_opcode p = o_scsi_data_out then []
      else [get_helper ses (pdu_bytes p) [] (get_opcode p \<noteq> o_login_req)])"

definition generate_reject_pdu :: "session \<Rightarrow> pdu \<Rightarrow> byte option \<Rightarrow> byte list option" where
  "generate_reject_pdu ses about reason =
     (case request_get ses about of
        [] \<Rightarrow> None
      | raw # _ \<Rightarrow>
          let l = reject_l;
              p = setmem l ''problem_pdu'' (slice 0 48 raw) (replicate 96 0);
              p = set8 l ''datalenL'' 48 p;
              p = setbits l ''b2'' 7 1 1 (setbits l ''b1'' 0 6 o_reject p)
          in Some (set8 l ''reason'' (case reason of Some r \<Rightarrow> r | None \<Rightarrow> 0x09) p))"

section \<open>Responses to requests\<close>

record iscsi_response_set =
  responses :: "reply list"
  to_stream :: "data_descriptor option"

definition one_reply :: "reply \<Rightarrow> iscsi_response_set" where
  "one_reply r = \<lparr>responses = [r], to_stream = None\<rparr>"

definition login_get_response :: "session \<Rightarrow> pdu \<Rightarrow> env \<Rightarrow> iscsi_response_set option \<times> env" where
  "login_get_response ses p e =
     (case login_reply_set ses p e of (None, e) \<Rightarrow> (None, e) | (Some r, e) \<Rightarrow> (Some (one_reply r), e))"

definition nop_get_response :: "pdu \<Rightarrow> iscsi_response_set option" where
  "nop_get_response p = Some (one_reply (nop_in_set p))"

definition text_get_response :: "session \<Rightarrow> pdu \<Rightarrow> iscsi_response_set option" where
  "text_get_response ses p = map_option one_reply (text_reply_set ses p)"

definition logout_get_response :: "pdu \<Rightarrow> iscsi_response_set option" where
  "logout_get_response p = Some (one_reply (logout_reply_set p))"

definition taskman_get_response :: "nat \<Rightarrow> pdu \<Rightarrow> 'b scsi_st \<Rightarrow> iscsi_response_set option \<times> 'b scsi_st" where
  "taskman_get_response tid p s =
     (let s = (if get_task_func p \<in> {5, 6, 7} then snd (unlock_device tid s) else s)
      in (Some (one_reply (taskman_reply_set p)), s))"

text \<open>The response after the last Data-Out PDU of a WRITE; the status argument is not used.\<close>

definition cmd_get_response_after :: "pdu \<Rightarrow> iscsi_response_set option" where
  "cmd_get_response_after p = map_option one_reply (scsi_response_set p [] None None)"

text \<open>
  The R2T answer of a WRITE: the target transfer tag is the initiator task tag, or random when that is
  the reserved value.
\<close>

definition cmd_r2t :: "pdu \<Rightarrow> r2t_session \<Rightarrow> session \<Rightarrow> env \<Rightarrow> bool \<times> reply \<times> session \<times> env" where
  "cmd_r2t p r2t ses e =
     (let itt = get_Itasktag cdb_pdu_req_l p;
          (ok, ttt, e) = (if itt \<noteq> 0xffffffff then (True, itt, e)
             else case my_getrandom 4 e of (None, e) \<Rightarrow> (False, 0, e) | (Some b, e) \<Rightarrow> (True, ld32 0 b, e));
          ses = init_r2t_session r2t (fua r2t) (get_raw p) ttt ses
      in (ok, r2t_set p ttt (bytes_done r2t) (bytes_left r2t), ses, e))"

text \<open>
  The part of \<open>get_response\<close> after \<open>scsi::send\<close>. Every handler that answers \<open>ir_r2t\<close> sets
  \<open>amount_of_data_expected\<close>, so the branch without it is not taken.
\<close>

definition cmd_respond :: "pdu \<Rightarrow> scsi_response \<Rightarrow> session \<Rightarrow> env \<Rightarrow> iscsi_response_set option \<times> session \<times> env" where
  "cmd_respond p r ses e =
     (let iscsi_expected = (ucast (get_ExpDatLen p) :: u64);
          data_pdu = (if is_inline r then [Data_in p (case r_data r of None \<Rightarrow> [] | Some d \<Rightarrow> d)] else []);
          (ok, extra, ses, e) =
            (if r_type r \<noteq> ir_r2t then
               if sense_data r \<noteq> [] \<or> r_type r = ir_empty_sense then
                 (case scsi_response_set p (sense_data r) None
                         (if sense_data r = error_reservation_conflict_1 then Some 0x18 else None) of
                    None \<Rightarrow> (False, [], ses, e)
                  | Some x \<Rightarrow> (True, [x], ses, e))
               else (True, [], ses, e)
             else
               (case amount_of_data_expected r of
                  None \<Rightarrow> (False, [], ses, e)
                | Some scsi_expected \<Rightarrow>
                    if scsi_expected \<noteq> iscsi_expected then
                      (case scsi_response_set p []
                              (Some (if scsi_expected < iscsi_expected
                                 then (iSR_UNDERFLOW, ucast (iscsi_expected - scsi_expected))
                                 else (iSR_OVERFLOW, ucast (scsi_expected - iscsi_expected)))) None of
                         None \<Rightarrow> (False, [], ses, e)
                       | Some x \<Rightarrow> (True, [x], ses, e))
                    else (let (ok, x, ses, e) = cmd_r2t p (r_r2t r) ses e in (ok, [x], ses, e))))
      in if \<not> ok then (None, ses, e)
         else (Some \<lparr>responses = data_pdu @ extra,
                 to_stream = (if \<not> is_inline r \<and> dd_n_sectors (r_location r) > 0 then Some (r_location r) else None)\<rparr>,
               ses, e))"

definition cmd_get_response :: "'b backend_ops \<Rightarrow> nat \<Rightarrow> pdu \<Rightarrow> session \<Rightarrow> 'b scsi_st
    \<Rightarrow> (iscsi_response_set option \<times> session \<times> 'b scsi_st) result" where
  "cmd_get_response ops tid p ses s =
     bindR (send ops tid (get_LUN_nr p) (get_CDB p) (pdu_data p) s) (\<lambda>(r, s).
     let (resp, ses, e) = cmd_respond p r ses (sc_env s)
     in Inr (resp, ses, s\<lparr>sc_env := e\<rparr>))"

end
