(* ===== verification/Server.thy ===== *)
theory Server
  imports Iscsi_Pdu
begin

text \<open>
  The connection handler of \<^verbatim>\<open>server.cpp\<close>: receiving one PDU with its additional header, data and
  digests (\<open>receive_pdu\<close>), answering it (\<open>push_response\<close>: SCSI Data-Out, all other requests, streamed
  reads), and the loop of one connection (\<open>handler\<close>). The model follows one connection; other
  connections show only through the reservation in the state of the SCSI layer.
\<close>

section \<open>State\<close>

datatype iscsi_fail_reason = IFR_OK | IFR_CONNECTION | IFR_INVALID_FIELD | IFR_DIGEST | IFR_IO_ERROR
  | IFR_MISC | IFR_INVALID_COMMAND

text \<open>
  A \<open>com_client\<close>: the bytes the peer will still send, the buffers sent so far, and how the next
  \<open>send\<close> calls end (all succeed once the list is exhausted). \<open>recv\<close> is all or nothing: when the peer
  closes the connection early it fails, and so does every later call.
\<close>

record com_client =
  cc_rx :: "byte list"
  cc_tx :: "byte list list"
  cc_send_ok :: "bool list"
  cc_local_address :: string
  cc_endpoint_name :: string

definition cc_recv :: "nat \<Rightarrow> com_client \<Rightarrow> byte list option \<times> com_client" where
  "cc_recv n cc =
     (if n \<le> length (cc_rx cc) then (Some (take n (cc_rx cc)), cc\<lparr>cc_rx := drop n (cc_rx cc)\<rparr>)
      else (None, cc\<lparr>cc_rx := []\<rparr>))"

definition cc_send :: "byte list \<Rightarrow> com_client \<Rightarrow> bool \<times> com_client" where
  "cc_send d cc =
     (case cc_send_ok cc of
        [] \<Rightarrow> (True, cc\<lparr>cc_tx := cc_tx cc @ [d]\<rparr>)
      | ok # oks \<Rightarrow> (ok, cc\<lparr>cc_tx := (if ok then cc_tx cc @ [d] else cc_tx cc), cc_send_ok := oks\<rparr>))"

record iscsi_stats_t =
  iscsiSsnCmdPDUs :: u64
  iscsiInstSsnFailures :: u64
  iscsiInstSsnFormatErrors :: u64
  iscsiInstSsnDigestErrors :: u64
  iscsiSsnTxDataOctets :: u64
  iscsiSsnRxDataOctets :: u64
  iscsiTgtLoginAccepts :: u64
  iscsiTgtLogoutNormals :: u64

definition count_rx :: "nat \<Rightarrow> iscsi_stats_t \<Rightarrow> iscsi_stats_t" where
  "count_rx n is = is\<lparr>iscsiSsnRxDataOctets := iscsiSsnRxDataOctets is + of_nat n\<rparr>"

definition count_tx :: "nat \<Rightarrow> iscsi_stats_t \<Rightarrow> iscsi_stats_t" where
  "count_tx n is = is\<lparr>iscsiSsnTxDataOctets := iscsiSsnTxDataOctets is + of_nat n\<rparr>"

text \<open>\<open>class server\<close> together with the connection, and the session once it exists.\<close>

record 'b server =
  sv_s :: "'b scsi_st"
  sv_cc :: com_client
  sv_is :: iscsi_stats_t
  sv_target_name :: string
  digest_chk :: bool
  sv_ses :: "session option"

definition get_millis :: "'b scsi_st \<Rightarrow> u64 \<times> 'b scsi_st" where
  "get_millis s = (let (t, s) = sc_micros s in (t div 1000, s))"

section \<open>Receiving a PDU\<close>

text \<open>The variables of \<open>receive_pdu\<close> after the header is in: \<open>pdu_obj\<close>, \<open>ok\<close>, \<open>pdu_error\<close>, \<open>*ses\<close>, \<open>cc\<close>, \<open>is\<close>.\<close>

record rx_st =
  rx_pdu :: pdu
  rx_ok :: bool
  rx_err :: iscsi_fail_reason
  rx_ses :: session
  rx_cc :: com_client
  rx_is :: iscsi_stats_t

definition known_opcodes :: "byte list" where
  "known_opcodes = [o_login_req, o_scsi_cmd, o_nop_out, o_text_req, o_logout_req, o_r2t, o_scsi_taskman, o_scsi_data_out]"

definition start_session :: "'b backend_ops \<Rightarrow> 'b server \<Rightarrow> session" where
  "start_session ops sv =
     (case sv_ses sv of Some ses \<Rightarrow> ses
      | None \<Rightarrow> set_block_size (ucast (be_get_block_size ops (sc_b (sv_s sv))))
          (session_new (cc_local_address (sv_cc sv)) (cc_endpoint_name (sv_cc sv)) (sv_target_name sv) (digest_chk sv)))"

definition rx_ahs :: "rx_st \<Rightarrow> (rx_st \<times> u32) result" where
  "rx_ahs r =
     (let incoming_crc32c = crc32_0x11EDC6F41 (pdu_bytes (rx_pdu r)) None;
          ahs_len = get_ahs_length (rx_pdu r)
      in if ahs_len = 0 then Inr (r, fst incoming_crc32c)
         else
           let (got, cc) = cc_recv ahs_len (rx_cc r);
               ahs_temp = (case got of None \<Rightarrow> replicate ahs_len 0 | Some d \<Rightarrow> d);
               r = r\<lparr>rx_cc := cc\<rparr>;
               r = (if got = None then r\<lparr>rx_ok := False, rx_err := IFR_CONNECTION\<rparr> else r);
               incoming_crc32c = crc32_0x11EDC6F41 ahs_temp (Some (snd incoming_crc32c));
               r = r\<lparr>rx_ses := add_bytes_rx ahs_len (rx_ses r), rx_is := count_rx ahs_len (rx_is r)\<rparr>
           in if got \<noteq> None \<and> set_ahs_segment ahs_temp = None then Inl No_return
              else Inr (r, fst incoming_crc32c))"

text \<open>A digest that follows header or data; \<open>crc32c\<close> is the digest of what was received.\<close>

definition rx_digest :: "bool \<Rightarrow> u32 \<Rightarrow> rx_st \<Rightarrow> rx_st" where
  "rx_digest chk crc32c r =
     (case cc_recv 4 (rx_cc r) of
        (None, cc) \<Rightarrow> r\<lparr>rx_cc := cc, rx_ok := False, rx_err := IFR_CONNECTION\<rparr>
      | (Some d, cc) \<Rightarrow>
          let r = r\<lparr>rx_cc := cc\<rparr>;
              r = (if ld32 0 d \<noteq> crc32c \<and> chk then r\<lparr>rx_ok := False, rx_err := IFR_DIGEST\<rparr> else r)
          in r\<lparr>rx_is := count_rx 4 (rx_is r)\<rparr>)"

text \<open>\<open>set_data\<close> is virtual; only a login request overrides it.\<close>

definition pdu_set_data :: "byte list \<Rightarrow> rx_st \<Rightarrow> rx_st result" where
  "pdu_set_data d r =
     (if get_opcode (rx_pdu r) = o_login_req then
        bindR (login_set_data d (rx_pdu r) (rx_ses r)) (\<lambda>(p, _, ses).
        Inr (r\<lparr>rx_ses := ses, rx_pdu := (case p of Some p \<Rightarrow> p | None \<Rightarrow> rx_pdu r)\<rparr>))
      else Inr (r\<lparr>rx_pdu := (case bhs_set_data d (rx_pdu r) of Some p \<Rightarrow> p | None \<Rightarrow> rx_pdu r)\<rparr>))"

text \<open>
  A 24-bit length never exceeds \<open>MAX_DATA_SEGMENT_SIZE\<close> here; the loop that would discard too much
  data never reduces its counter and ends only when the connection does.
\<close>

definition rx_data :: "bool \<Rightarrow> bool \<Rightarrow> rx_st \<Rightarrow> rx_st result" where
  "rx_data chk has_digest r =
     (let data_length = get_data_length (rx_pdu r)
      in if data_length > unat MAX_DATA_SEGMENT_SIZE then
           Inr (r\<lparr>rx_ok := False, rx_err := IFR_CONNECTION, rx_cc := (rx_cc r)\<lparr>cc_rx := []\<rparr>\<rparr>)
         else if data_length = 0 then Inr r
         else
           let padded_data_length = pad4 data_length;
               (got, cc) = cc_recv padded_data_length (rx_cc r);
               data_temp = (case got of None \<Rightarrow> replicate padded_data_length 0 | Some d \<Rightarrow> d);
               r = r\<lparr>rx_cc := cc\<rparr>
           in bindR (if got = None then Inr (r\<lparr>rx_ok := False, rx_err := IFR_CONNECTION\<rparr>)
                     else pdu_set_data (take data_length data_temp) r) (\<lambda>r.
              let incoming_crc32c = (if chk then fst (crc32_0x11EDC6F41 data_temp None) else 0);
                  r = r\<lparr>rx_ses := add_bytes_rx padded_data_length (rx_ses r),
                        rx_is := count_rx padded_data_length (rx_is r)\<rparr>
              in Inr (if get_data_digest (rx_ses r) \<and> has_digest then rx_digest chk incoming_crc32c r else r)))"

definition receive_body :: "bool \<Rightarrow> rx_st \<Rightarrow> rx_st result" where
  "receive_body chk r =
     (let opcode = get_opcode (rx_pdu r);
          has_digest = (opcode \<noteq> o_login_req);
          r = (if opcode = o_login_req
               then r\<lparr>rx_is := (rx_is r)\<lparr>iscsiTgtLoginAccepts := iscsiTgtLoginAccepts (rx_is r) + 1\<rparr>\<rparr> else r);
          r = (if opcode = o_logout_req
               then r\<lparr>rx_is := (rx_is r)\<lparr>iscsiTgtLogoutNormals := iscsiTgtLogoutNormals (rx_is r) + 1\<rparr>\<rparr> else r)
      in bindR (rx_ahs r) (\<lambda>(r, crc32c).
         rx_data chk has_digest
           (if get_header_digest (rx_ses r) \<and> has_digest then rx_digest chk crc32c r else r)))"

definition receive_pdu :: "'b backend_ops \<Rightarrow> 'b server \<Rightarrow> (pdu option \<times> iscsi_fail_reason \<times> u64 \<times> 'b server) result" where
  "receive_pdu ops sv =
     (let ses = start_session ops sv
      in case cc_recv 48 (sv_cc sv) of
           (None, cc) \<Rightarrow> Inr (None, IFR_CONNECTION, 0, sv\<lparr>sv_ses := Some ses, sv_cc := cc\<rparr>)
         | (Some hdr, cc) \<Rightarrow>
             let (tx_start, s) = sc_micros (sv_s sv);
                 ses = add_bytes_rx 48 ses;
                 is = count_rx 48 (sv_is sv)
             in (case bhs_set hdr pdu_new of
                   None \<Rightarrow> Inr (None, IFR_INVALID_FIELD, tx_start,
                             sv\<lparr>sv_s := s, sv_ses := Some ses, sv_cc := cc, sv_is := is\<rparr>)
                 | Some p \<Rightarrow>
                     bindR (receive_body (digest_chk sv)
                              \<lparr>rx_pdu = p, rx_ok = True,
                               rx_err = (if get_opcode p \<in> set known_opcodes then IFR_OK else IFR_INVALID_COMMAND),
                               rx_ses = ses, rx_cc = cc, rx_is = is\<rparr>) (\<lambda>r.
                     Inr (if rx_ok r then Some (rx_pdu r) else None, rx_err r, tx_start,
                          sv\<lparr>sv_s := s, sv_ses := Some (rx_ses r), sv_cc := rx_cc r, sv_is := rx_is r\<rparr>))))"

section \<open>Data-Out\<close>

text \<open>The loop of a WRITE SAME whose data arrives by Data-Out.\<close>

fun data_out_same_loop :: "'b backend_ops \<Rightarrow> nat \<Rightarrow> u64 \<Rightarrow> nat \<Rightarrow> byte list \<Rightarrow> 'b scsi_st
    \<Rightarrow> (scsi_rw_result \<times> 'b scsi_st) result" where
  "data_out_same_loop ops tid lba 0 data s = Inr (rw_ok, s)"
| "data_out_same_loop ops tid lba (Suc left) data s =
     bindR (scsi_write ops tid lba 1 data s) (\<lambda>(rc, s).
     if rc \<noteq> rw_ok then Inr (rc, s) else data_out_same_loop ops tid (lba + 1) left data s)"

text \<open>Storing the data of one Data-Out PDU that belongs to the R2T session \<open>rs\<close>.\<close>

definition data_out_store :: "'b backend_ops \<Rightarrow> nat \<Rightarrow> r2t_session \<Rightarrow> u32 \<Rightarrow> byte list \<Rightarrow> 'b scsi_st
    \<Rightarrow> (scsi_rw_result \<times> 'b scsi_st) result" where
  "data_out_store ops tid rs offset data s =
     (let block_size = be_get_block_size ops (sc_b s);
          lba = buffer_lba rs + ucast offset div block_size
      in if is_write_same rs then
           let n_blocks = (ucast (ucast (bytes_left rs) div block_size) :: u32)
           in if write_same_is_unmap rs then scsi_trim ops tid (buffer_lba rs) n_blocks s
              else data_out_same_loop ops tid lba (unat n_blocks) data s
         else scsi_write ops tid lba (of_nat (length data div unat block_size)) data s)"

text \<open>
  The checks around it. \<open>scsi::sync\<close> returns an enumeration whose \<open>rw_ok\<close> is 0, so the test
  \<open>== false\<close> of the code holds exactly when the sync succeeded.
\<close>

definition data_out_write :: "'b backend_ops \<Rightarrow> nat \<Rightarrow> r2t_session \<Rightarrow> u32 \<Rightarrow> byte list \<Rightarrow> 'b scsi_st
    \<Rightarrow> (iscsi_fail_reason \<times> 'b scsi_st) result" where
  "data_out_write ops tid rs offset data s =
     (let block_size = be_get_block_size ops (sc_b s)
      in if block_size = 0 then Inl (Uncaught ''division by zero'')
         else if ucast offset mod block_size \<noteq> 0 then Inr (IFR_INVALID_FIELD, s)
         else if of_nat (length data) mod block_size \<noteq> 0 then Inr (IFR_INVALID_FIELD, s)
         else bindR (data_out_store ops tid rs offset data s) (\<lambda>(rc, s).
              if rc \<noteq> rw_ok then Inr (IFR_IO_ERROR, s)
              else if fua rs then bindR (scsi_sync ops tid s) (\<lambda>(rc, s).
                     Inr (if rc = rw_ok then IFR_IO_ERROR else IFR_OK, s))
              else Inr (IFR_OK, s)))"

text \<open>What is sent when the F bit ends a batch: \<open>Inl\<close> is an early return of \<open>push_response\<close>.\<close>

definition data_out_reply :: "u32 \<Rightarrow> r2t_session \<Rightarrow> session
    \<Rightarrow> ((iscsi_fail_reason + iscsi_response_set option) \<times> session) result" where
  "data_out_reply transfer_tag rs ses =
     (case bhs_set (case PDU_initiator rs of None \<Rightarrow> [] | Some raw \<Rightarrow> raw) pdu_new of
        None \<Rightarrow> Inr (Inl IFR_MISC, ses)
      | Some cmd \<Rightarrow>
          let response_set = cmd_get_response_after cmd
          in if bytes_left rs = 0 then Inr (Inr response_set, remove_r2t_session transfer_tag ses)
             else (case response_set of
                     None \<Rightarrow> Inl (Uncaught ''std::bad_optional_access'')
                   | Some rset \<Rightarrow> Inr (Inr (Some (rset\<lparr>responses :=
                        responses rset @ [r2t_set cmd transfer_tag (bytes_done rs) (bytes_left rs)]\<rparr>)), ses)))"

definition push_data_out :: "'b backend_ops \<Rightarrow> nat \<Rightarrow> pdu \<Rightarrow> session \<Rightarrow> 'b scsi_st
    \<Rightarrow> ((iscsi_fail_reason + iscsi_response_set option) \<times> session \<times> 'b scsi_st) result" where
  "push_data_out ops tid p ses s =
     (let offset = get_BufferOffset p;
          F = get_F p;
          ttt = get_TTT pdu_data_out_l p;
          transfer_tag = (if ttt = 0xffffffff then get_Itasktag pdu_data_out_l p else ttt)
      in case get_r2t_sesion transfer_tag ses of
           None \<Rightarrow> Inr (Inl IFR_INVALID_FIELD, ses, s)
         | Some rs \<Rightarrow>
             (case get_data p of
                Some data \<Rightarrow>
                  bindR (data_out_write ops tid rs offset data s) (\<lambda>(ifr, s).
                  if ifr \<noteq> IFR_OK then Inr (Inl ifr, ses, s)
                  else
                    let rs = rs\<lparr>bytes_done := bytes_done rs + of_nat (length data),
                                bytes_left := bytes_left rs - of_nat (length data)\<rparr>;
                        ses = update_r2t_session transfer_tag (\<lambda>_. rs) ses
                    in if F then bindR (data_out_reply transfer_tag rs ses) (\<lambda>(r, ses). Inr (r, ses, s))
                       else Inr (Inr None, ses, s))
              | None \<Rightarrow>
                  if F then bindR (data_out_reply transfer_tag rs ses) (\<lambda>(r, ses). Inr (r, ses, s))
                  else Inr (Inl IFR_INVALID_FIELD, ses, s)))"

section \<open>Sending responses\<close>

text \<open>One \<open>get_response\<close> per request class; a base class object and an R2T have none.\<close>

definition get_response :: "'b backend_ops \<Rightarrow> nat \<Rightarrow> pdu \<Rightarrow> session \<Rightarrow> 'b scsi_st
    \<Rightarrow> (iscsi_response_set option \<times> session \<times> 'b scsi_st) result" where
  "get_response ops tid p ses s =
     (let opcode = get_opcode p
      in if opcode = o_login_req then
           let (r, e) = login_get_response ses p (sc_env s) in Inr (r, ses, s\<lparr>sc_env := e\<rparr>)
         else if opcode = o_scsi_cmd then cmd_get_response ops tid p ses s
         else if opcode = o_nop_out then Inr (nop_get_response p, ses, s)
         else if opcode = o_text_req then Inr (text_get_response ses p, ses, s)
         else if opcode = o_logout_req then Inr (logout_get_response p, ses, s)
         else if opcode = o_scsi_taskman then
           let (r, s) = taskman_get_response tid p s in Inr (r, ses, s)
         else Inr (None, ses, s))"

text \<open>The blobs of one response: once a send has failed nothing more is sent.\<close>

fun send_blobs :: "byte list list \<Rightarrow> iscsi_fail_reason \<Rightarrow> session \<Rightarrow> com_client \<Rightarrow> iscsi_stats_t
    \<Rightarrow> iscsi_fail_reason \<times> session \<times> com_client \<times> iscsi_stats_t" where
  "send_blobs [] ifr ses cc is = (ifr, ses, cc, is)"
| "send_blobs (b # bs) ifr ses cc is =
     (if ifr = IFR_OK then
        let (ok, cc) = cc_send b cc
        in send_blobs bs (if ok then ifr else IFR_CONNECTION) (add_bytes_tx (length b) ses) cc (count_tx (length b) is)
      else send_blobs bs ifr ses cc is)"

fun emit_responses :: "reply list \<Rightarrow> iscsi_fail_reason \<Rightarrow> session \<Rightarrow> com_client \<Rightarrow> iscsi_stats_t
    \<Rightarrow> (iscsi_fail_reason \<times> session \<times> com_client \<times> iscsi_stats_t) result" where
  "emit_responses [] ifr ses cc is = Inr (ifr, ses, cc, is)"
| "emit_responses (r # rs) ifr ses cc is =
     bindR (reply_get r ses) (\<lambda>(blobs, ses).
     let (ifr, ses, cc, is) = send_blobs blobs ifr ses cc is
     in emit_responses rs ifr ses cc is)"

section \<open>Streamed reads\<close>

text \<open>
  The variables of the loop that sends Data-In PDUs straight from the backend, and the objects it
  works on.
\<close>

record 'b stream =
  st_offset :: u32
  st_lba :: u64
  st_ses :: session
  st_cc :: com_client
  st_is :: iscsi_stats_t
  st_s :: "'b scsi_st"

definition stream_residual :: "u32 \<Rightarrow> u32 \<Rightarrow> (residual \<times> u32) option" where
  "stream_residual scsi_has iscsi_wants =
     (if scsi_has > iscsi_wants then Some (iSR_OVERFLOW, scsi_has - iscsi_wants)
      else if scsi_has < iscsi_wants then Some (iSR_UNDERFLOW, iscsi_wants - scsi_has)
      else None)"

text \<open>Reading the data of one PDU: less than a block goes through a temporary buffer.\<close>

definition stream_fill :: "'b backend_ops \<Rightarrow> nat \<Rightarrow> u64 \<Rightarrow> u32 \<Rightarrow> u64 \<Rightarrow> byte list \<Rightarrow> nat \<Rightarrow> 'b scsi_st
    \<Rightarrow> (scsi_rw_result \<times> byte list \<times> 'b scsi_st) result" where
  "stream_fill ops tid current_lba current_n block_size out data_offset s =
     (if ucast current_n < block_size then
        bindR (scsi_read ops tid current_lba 1 (replicate (unat block_size) 0) s) (\<lambda>(rc, temp_buffer, s).
        Inr (rc, if rc = rw_ok then overwrite data_offset (take (unat current_n) temp_buffer) out else out, s))
      else
        bindR (scsi_read ops tid current_lba (ucast (ucast current_n div block_size)) (drop data_offset out) s)
          (\<lambda>(rc, data, s). Inr (rc, overwrite data_offset data out, s)))"

text \<open>
  One round of the loop; the flag is \<open>IFR_OK\<close> when the loop goes on. The data digest is put right
  behind the data, without regard to padding.
\<close>

definition stream_step :: "'b backend_ops \<Rightarrow> nat \<Rightarrow> pdu \<Rightarrow> u32 \<Rightarrow> u32 \<Rightarrow> u32 \<Rightarrow> 'b stream
    \<Rightarrow> (iscsi_fail_reason \<times> 'b stream) result" where
  "stream_step ops tid reply_to scsi_has iscsi_wants offset_end st =
     (let bytes_left = (ucast (offset_end - st_offset st) :: u64);
          buffer_n = (ucast MAX_DATA_SEGMENT_SIZE :: u64);
          current_n = (ucast (min (ucast (max_seg_len (st_ses st))) (min bytes_left buffer_n)) :: u32);
          block_size = be_get_block_size ops (sc_b (st_s st));
          is_n_blocks = (ucast (ucast current_n div block_size) :: u32);
          last_block = (st_offset st + current_n = offset_end);
          has_residual = (if last_block then stream_residual scsi_has iscsi_wants else None);
          (out, data_offset, ses) = gen_data_in_pdu (st_ses st) reply_to has_residual (st_offset st) current_n last_block
      in if block_size = 0 then Inl (Uncaught ''division by zero'')
         else bindR (stream_fill ops tid (st_lba st) current_n block_size out data_offset (st_s st)) (\<lambda>(rc, out, s).
           let st = st\<lparr>st_ses := ses, st_s := s\<rparr>
           in if rc \<noteq> rw_ok then Inr (IFR_IO_ERROR, st)
              else
                let crc32 = fst (crc32_0x11EDC6F41 (slice data_offset (unat current_n) out) None);
                    out = (if get_data_digest ses
                           then overwrite (data_offset + unat current_n) (le32_bytes crc32) out else out);
                    (rc_tx, cc) = cc_send out (st_cc st);
                    st = st\<lparr>st_cc := cc\<rparr>
                in if \<not> rc_tx then Inr (IFR_CONNECTION, st)
                   else Inr (IFR_OK, st\<lparr>st_offset := st_offset st + current_n,
                          st_lba := st_lba st + ucast is_n_blocks,
                          st_ses := add_bytes_tx (length out) ses,
                          st_is := count_tx (length out) (st_is st)\<rparr>)))"

text \<open>
  The loop. Every round moves the offset by at least one byte unless the initiator announced a
  maximum segment length of 0; then it does not end, and no fuel is enough.
\<close>

fun stream_loop :: "nat \<Rightarrow> 'b backend_ops \<Rightarrow> nat \<Rightarrow> pdu \<Rightarrow> u32 \<Rightarrow> u32 \<Rightarrow> u32 \<Rightarrow> iscsi_fail_reason \<Rightarrow> 'b stream
    \<Rightarrow> (iscsi_fail_reason \<times> 'b stream) result" where
  "stream_loop fuel ops tid reply_to scsi_has iscsi_wants offset_end ifr st =
     (if \<not> st_offset st < offset_end then Inr (ifr, st)
      else case fuel of
        0 \<Rightarrow> Inl No_return
      | Suc fuel \<Rightarrow>
          bindR (stream_step ops tid reply_to scsi_has iscsi_wants offset_end st) (\<lambda>(r, st).
          if r \<noteq> IFR_OK then Inr (r, st)
          else stream_loop fuel ops tid reply_to scsi_has iscsi_wants offset_end ifr st))"

declare stream_loop.simps [simp del]

text \<open>
  No data to send at all: a SCSI response with the residual count. \<open>set\<close> fails only for a residual of
  kind \<open>iSR_OK\<close>, which is never passed, so what the code would send after a failure does not matter.
\<close>

definition stream_nothing :: "pdu \<Rightarrow> u32 \<Rightarrow> u32 \<Rightarrow> iscsi_fail_reason \<Rightarrow> 'b stream
    \<Rightarrow> (iscsi_fail_reason \<times> 'b stream) result" where
  "stream_nothing reply_to scsi_has iscsi_wants ifr st =
     (case scsi_response_set reply_to [] (stream_residual scsi_has iscsi_wants) None of
        None \<Rightarrow> Inr (IFR_MISC, st)
      | Some temp \<Rightarrow>
          bindR (reply_get temp (st_ses st)) (\<lambda>(blobs, ses).
          let out = hd blobs; (rc_tx, cc) = cc_send out (st_cc st); st = st\<lparr>st_ses := ses, st_cc := cc\<rparr>
          in if \<not> rc_tx then Inr (IFR_CONNECTION, st)
             else Inr (ifr, st\<lparr>st_ses := add_bytes_tx (length out) (st_ses st),
                    st_is := count_tx (length out) (st_is st)\<rparr>)))"

definition stream_data :: "nat \<Rightarrow> 'b backend_ops \<Rightarrow> nat \<Rightarrow> pdu \<Rightarrow> data_descriptor \<Rightarrow> iscsi_fail_reason \<Rightarrow> session
    \<Rightarrow> com_client \<Rightarrow> iscsi_stats_t \<Rightarrow> 'b scsi_st \<Rightarrow> (iscsi_fail_reason \<times> 'b stream) result" where
  "stream_data fuel ops tid p stream_parameters ifr ses cc is s =
     (let reply_to = p\<lparr>pdu_data := None\<rparr>;
          scsi_has = (ucast (ucast (dd_n_sectors stream_parameters) * be_get_block_size ops (sc_b s)) :: u32);
          iscsi_wants = get_ExpDatLen reply_to;
          offset_end = min scsi_has iscsi_wants;
          st = \<lparr>st_offset = 0, st_lba = dd_lba stream_parameters, st_ses = ses, st_cc = cc, st_is = is, st_s = s\<rparr>
      in bindR (if offset_end = 0 then stream_nothing reply_to scsi_has iscsi_wants ifr st else Inr (ifr, st)) (\<lambda>(ifr, st).
         stream_loop fuel ops tid reply_to scsi_has iscsi_wants offset_end ifr st))"

section \<open>Answering a request\<close>

definition push_response :: "nat \<Rightarrow> 'b backend_ops \<Rightarrow> nat \<Rightarrow> session \<Rightarrow> pdu \<Rightarrow> 'b server
    \<Rightarrow> (iscsi_fail_reason \<times> 'b server) result" where
  "push_response fuel ops tid ses p sv =
     bindR (if get_opcode p = o_scsi_data_out then push_data_out ops tid p ses (sv_s sv)
            else bindR (get_response ops tid p ses (sv_s sv)) (\<lambda>(r, ses, s). Inr (Inr r, ses, s)))
       (\<lambda>(r, ses, s).
        let sv = sv\<lparr>sv_s := s, sv_ses := Some ses\<rparr>
        in case r of
             Inl ifr \<Rightarrow> Inr (ifr, sv)
           | Inr None \<Rightarrow> Inr (IFR_OK, sv)
           | Inr (Some response_set) \<Rightarrow>
               bindR (emit_responses (responses response_set) IFR_OK ses (sv_cc sv) (sv_is sv)) (\<lambda>(ifr, ses, cc, is).
               case to_stream response_set of
                 None \<Rightarrow> Inr (ifr, sv\<lparr>sv_ses := Some ses, sv_cc := cc, sv_is := is\<rparr>)
               | Some stream_parameters \<Rightarrow>
                   bindR (stream_data fuel ops tid p stream_parameters ifr ses cc is s) (\<lambda>(ifr, st).
                   Inr (ifr, sv\<lparr>sv_s := st_s st, sv_ses := Some (st_ses st), sv_cc := st_cc st, sv_is := st_is st\<rparr>))))"

section \<open>The loop of a connection\<close>

text \<open>The variables of the thread that serves a connection.\<close>

record 'b handler_st =
  h_sv :: "'b server"
  h_ok :: bool
  h_fail_counter :: nat
  h_busy :: u64
  h_prev_output :: u64

definition reject_reason :: "iscsi_fail_reason \<Rightarrow> byte option" where
  "reject_reason ifr = (case ifr of
     IFR_INVALID_FIELD \<Rightarrow> Some 0x09 | IFR_MISC \<Rightarrow> Some 0x09 | IFR_DIGEST \<Rightarrow> Some 0x02
   | IFR_INVALID_COMMAND \<Rightarrow> Some 0x05 | _ \<Rightarrow> None)"

definition count_reject :: "iscsi_fail_reason \<Rightarrow> iscsi_stats_t \<Rightarrow> iscsi_stats_t" where
  "count_reject ifr is =
     (if ifr = IFR_INVALID_FIELD \<or> ifr = IFR_MISC
      then is\<lparr>iscsiInstSsnFormatErrors := iscsiInstSsnFormatErrors is + 1\<rparr>
      else if ifr = IFR_DIGEST then is\<lparr>iscsiInstSsnDigestErrors := iscsiInstSsnDigestErrors is + 1\<rparr>
      else is)"

text \<open>
  What is sent for a failed request. An I/O error is answered with a SCSI response built from the
  request as if it were a SCSI command; everything else with a reject PDU, when there is a PDU.
\<close>

definition reject_blob :: "iscsi_fail_reason \<Rightarrow> pdu option \<Rightarrow> session \<Rightarrow> byte list option" where
  "reject_blob ifr pdu ses =
     (case pdu of
        None \<Rightarrow> None
      | Some p \<Rightarrow>
          if ifr = IFR_IO_ERROR then
            (case scsi_response_set p error_read_error None (Some 0x09) of
               None \<Rightarrow> None
             | Some r \<Rightarrow> (case reply_get r ses of Inr (b # _, _) \<Rightarrow> Some b | _ \<Rightarrow> None))
          else generate_reject_pdu ses p (reject_reason ifr))"

text \<open>
  The block that handles a failure other than a lost connection. The flag is true when \<open>continue\<close>
  skips the rest of the round. Without a PDU, \<open>reject\<close> has no value and \<open>reject.value()\<close> throws.
\<close>

definition handler_reject :: "iscsi_fail_reason \<Rightarrow> pdu option \<Rightarrow> 'b handler_st \<Rightarrow> (bool \<times> 'b handler_st) result" where
  "handler_reject ifr pdu h =
     (let sv = h_sv h; sv = sv\<lparr>sv_is := count_reject ifr (sv_is sv)\<rparr>
      in case sv_ses sv of
           None \<Rightarrow> Inl Mem_oob
         | Some ses \<Rightarrow>
             (case reject_blob ifr pdu ses of
                None \<Rightarrow> if pdu = None then Inl (Uncaught ''std::bad_optional_access'') else Inr (True, h\<lparr>h_sv := sv\<rparr>)
              | Some reject \<Rightarrow>
                  let (rc, cc) = cc_send reject (sv_cc sv); sv = sv\<lparr>sv_cc := cc\<rparr>
                  in if \<not> rc then Inr (False, h\<lparr>h_sv := sv, h_ok := False\<rparr>)
                     else Inr (False, h\<lparr>h_sv := sv\<lparr>sv_is := count_tx (length reject) (sv_is sv)\<rparr>\<rparr>)))"

definition handler_errors :: "iscsi_fail_reason \<Rightarrow> 'b handler_st \<Rightarrow> 'b handler_st" where
  "handler_errors ifr h =
     (let h = (if ifr = IFR_OK then h\<lparr>h_fail_counter := 0\<rparr>
               else
                 let sv = h_sv h; n = h_fail_counter h + 1
                 in h\<lparr>h_sv := sv\<lparr>sv_ses := map_option inc_error_count (sv_ses sv)\<rparr>, h_fail_counter := n,
                      h_ok := (h_ok h \<and> \<not> n \<ge> 16)\<rparr>)
      in if ifr = IFR_CONNECTION then h\<lparr>h_ok := False\<rparr> else h)"

text \<open>Every five seconds the counters are logged (not modelled) and reset.\<close>

definition handler_clock :: "u64 \<Rightarrow> 'b handler_st \<Rightarrow> 'b handler_st" where
  "handler_clock tx_start h =
     (let sv = h_sv h;
          (tx_end, s) = sc_micros (sv_s sv);
          busy = h_busy h + (tx_end - tx_start);
          (now, s) = get_millis s;
          took = now - h_prev_output h
      in if took \<ge> 5000 then
           h\<lparr>h_sv := sv\<lparr>sv_s := s\<lparr>sc_is := io_stats_reset\<rparr>,
                sv_ses := map_option (\<lambda>ses. reset_bytes_tx (reset_bytes_rx ses)) (sv_ses sv)\<rparr>,
             h_busy := 0, h_prev_output := now\<rparr>
         else h\<lparr>h_sv := sv\<lparr>sv_s := s\<rparr>, h_busy := busy\<rparr>)"

definition handler_round :: "nat \<Rightarrow> 'b backend_ops \<Rightarrow> nat \<Rightarrow> 'b handler_st \<Rightarrow> 'b handler_st result" where
  "handler_round fuel ops tid h =
     bindR (receive_pdu ops (h_sv h)) (\<lambda>(pdu, ifr, tx_start, sv).
     let sv = sv\<lparr>sv_is := (sv_is sv)\<lparr>iscsiSsnCmdPDUs := iscsiSsnCmdPDUs (sv_is sv) + 1\<rparr>\<rparr>
     in bindR (if ifr = IFR_OK then
                 (case (pdu, sv_ses sv) of
                    (Some p, Some ses) \<Rightarrow>
                      bindR (push_response fuel ops tid ses p sv) (\<lambda>(ifr, sv).
                      Inr (ifr, if ifr \<noteq> IFR_OK
                        then sv\<lparr>sv_is := (sv_is sv)\<lparr>iscsiInstSsnFailures := iscsiInstSsnFailures (sv_is sv) + 1\<rparr>\<rparr> else sv))
                  | _ \<Rightarrow> Inl Mem_oob)
               else Inr (ifr, sv)) (\<lambda>(ifr, sv).
        let h = h\<lparr>h_sv := sv\<rparr>
        in bindR (if ifr \<noteq> IFR_OK \<and> ifr \<noteq> IFR_CONNECTION then handler_reject ifr pdu h else Inr (False, h))
             (\<lambda>(skip, h). Inr (if skip then h else handler_clock tx_start (handler_errors ifr h)))))"

text \<open>The \<open>do ... while(ok)\<close> loop; every round takes a header from the connection or is the last one.\<close>

fun handler_loop :: "nat \<Rightarrow> 'b backend_ops \<Rightarrow> nat \<Rightarrow> nat \<Rightarrow> 'b handler_st \<Rightarrow> 'b handler_st result" where
  "handler_loop fuel ops tid 0 h = Inl No_return"
| "handler_loop fuel ops tid (Suc rounds) h =
     bindR (handler_round fuel ops tid h) (\<lambda>h. if h_ok h then handler_loop fuel ops tid rounds h else Inr h)"

definition handler_finish :: "'b backend_ops \<Rightarrow> nat \<Rightarrow> 'b server \<Rightarrow> 'b server result" where
  "handler_finish ops tid sv =
     bindR (scsi_sync ops tid (sv_s sv)) (\<lambda>(_, s).
     Inr (sv\<lparr>sv_s := (if locking_status tid s = l_locked then snd (unlock_device tid s) else s), sv_ses := None\<rparr>))"

definition handler :: "nat \<Rightarrow> 'b backend_ops \<Rightarrow> nat \<Rightarrow> 'b server \<Rightarrow> 'b server result" where
  "handler fuel ops tid sv =
     (let (now, s) = get_millis (sv_s sv)
      in bindR (handler_loop fuel ops tid (length (cc_rx (sv_cc sv)) div 48 + 1)
            \<lparr>h_sv = sv\<lparr>sv_s := s\<rparr>, h_ok = True, h_fail_counter = 0, h_busy = 0, h_prev_output = now\<rparr>)
           (\<lambda>h. handler_finish ops tid (h_sv h)))"

text \<open>The threads of a server: their completion flags.\<close>

definition is_active :: "bool list \<Rightarrow> bool" where
  "is_active flags = foldl (\<lambda>active flag. active \<or> \<not> flag) False flags"

end
