(* ===== verification/Server_Connection.thy ===== *)
theory Server_Connection
  imports Server Scsi_Write
begin

text \<open>
  What holds over whole connections, whatever their initiators send. Every request reaches the device
  and the reservation through a few functions of the SCSI layer only; what those keep, all requests, the
  loop of a connection and its end keep (locale \<open>access_invariant\<close>). Two such invariants: a device that
  another connection has reserved stays as it is, and a connection leaves the reservation free, its own,
  or as it was.
\<close>

section \<open>What the accesses keep, everything keeps\<close>

locale access_invariant =
  fixes P :: "'b scsi_st \<Rightarrow> bool" and ops :: "'b backend_ops" and tid :: nat
  assumes keep_is: "P (s\<lparr>sc_is := i\<rparr>) = P s" and keep_env: "P (s\<lparr>sc_env := e\<rparr>) = P s"
    and keep_sync: "P s \<Longrightarrow> scsi_sync ops tid s = Inr (rc, s') \<Longrightarrow> P s'"
    and keep_trim: "P s \<Longrightarrow> scsi_trim ops tid nr n s = Inr (rc, s') \<Longrightarrow> P s'"
    and keep_write: "P s \<Longrightarrow> scsi_write ops tid nr n data s = Inr (rc, s') \<Longrightarrow> P s'"
    and keep_read: "P s \<Longrightarrow> scsi_read ops tid nr n data s = Inr (rc, data', s') \<Longrightarrow> P s'"
    and keep_cmpwrite: "P s \<Longrightarrow> scsi_cmpwrite ops tid nr n dw dc s = Inr (rc, s') \<Longrightarrow> P s'"
    and keep_reserve: "P s \<Longrightarrow> P (snd (reserve_device tid s))"
    and keep_unlock: "P s \<Longrightarrow> P (snd (unlock_device tid s))"
begin

lemma keep_micros: "sc_micros s = (t, s') \<Longrightarrow> P s' = P s"
  by (auto simp: sc_micros_def keep_env split: prod.splits)

lemma keep_millis: "get_millis s = (t, s') \<Longrightarrow> P s' = P s"
  by (auto simp: get_millis_def Let_def keep_micros split: prod.splits)

subsection \<open>SCSI commands\<close>

lemma keep_write_fragment: "P s \<Longrightarrow> write_fragment ops tid lba w rb data f s = Inr (rc, s') \<Longrightarrow> P s'"
  by (auto simp: write_fragment_def Let_def bindR_Inr_iff split: if_splits dest: keep_read keep_write)

lemma keep_write_data: "P s \<Longrightarrow> write_data ops tid nr n d s = Inr (rc, s') \<Longrightarrow> P s'"
  by (auto simp: write_data_def Let_def bindR_Inr_iff split: if_splits dest: keep_write keep_write_fragment)

lemma keep_unmap_loop: "P s \<Longrightarrow> unmap_loop ops tid pd i rc sense s = Inr (rc', sense', s') \<Longrightarrow> P s'"
proof (induction "length pd - i" arbitrary: i rc sense s rule: less_induct)
  case less
  have IH: "P s'" if "unmap_loop ops tid pd (i + 16) rc sense s = Inr (rc', sense', s')" "i < length pd" "P s" for rc sense s
    using that by (intro less.hyps [of "i + 16"]) simp_all
  show ?case
    using less.prems
    by (subst (asm) unmap_loop.simps)
      (auto simp: Let_def bindR_Inr_iff split: if_splits option.splits dest: IH keep_trim)
qed

lemma keep_write_same_loop: "P s \<Longrightarrow> write_same_loop ops tid u d nr k s = Inr (rc, s') \<Longrightarrow> P s'"
proof (induction k arbitrary: nr s)
  case (Suc k)
  then show ?case by (auto simp: bindR_Inr_iff split: if_splits dest: keep_trim keep_write)
qed simp

lemma keep_write_verify: "P s \<Longrightarrow> write_verify ops tid CDB data opcode s = Inr (r, s') \<Longrightarrow> P s'"
  by (auto simp: write_verify_def Let_def bindR_Inr_iff split: if_splits option.splits prod.splits
      dest: keep_write_data keep_sync)

lemma keep_commands:
  "P s \<Longrightarrow> sync_cache ops tid s = Inr (r, s') \<Longrightarrow> P s'"
  "P s \<Longrightarrow> compare_and_write ops tid CDB data s = Inr (r, s') \<Longrightarrow> P s'"
  "P s \<Longrightarrow> unmap ops tid data s = Inr (r, s') \<Longrightarrow> P s'"
  "P s \<Longrightarrow> write_same ops tid CDB data opcode s = Inr (r, s') \<Longrightarrow> P s'"
  by (auto simp: sync_cache_def compare_and_write_def unmap_def write_same_def Let_def bindR_Inr_iff
      split: if_splits option.splits prod.splits
      dest: keep_sync keep_trim keep_write keep_read keep_cmpwrite keep_unmap_loop keep_write_same_loop)

lemma keep_send: "P s \<Longrightarrow> send ops tid lun CDB data s = Inr (r, s') \<Longrightarrow> P s'"
  using keep_reserve [of s] keep_unlock [of s]
  by (auto simp: send_def Let_def reserve_cmd_def release_cmd_def split: if_splits prod.splits
      dest: keep_write_verify keep_commands)

subsection \<open>Requests\<close>

lemma keep_data_out_same_loop: "P s \<Longrightarrow> data_out_same_loop ops tid lba k data s = Inr (rc, s') \<Longrightarrow> P s'"
proof (induction k arbitrary: lba s)
  case (Suc k)
  then show ?case by (auto simp: bindR_Inr_iff split: if_splits dest: keep_write)
qed simp

lemma keep_data_out_write: "P s \<Longrightarrow> data_out_write ops tid rs offset data s = Inr (ifr, s') \<Longrightarrow> P s'"
  by (auto simp: data_out_write_def data_out_store_def Let_def bindR_Inr_iff split: if_splits
      dest: keep_data_out_same_loop keep_trim keep_write keep_sync)

lemma keep_push_data_out: "P s \<Longrightarrow> push_data_out ops tid p ses s = Inr (r, ses', s') \<Longrightarrow> P s'"
  by (auto simp: push_data_out_def Let_def bindR_Inr_iff split: option.splits if_splits dest: keep_data_out_write)

lemma keep_get_response: "P s \<Longrightarrow> get_response ops tid p ses s = Inr (r, ses', s') \<Longrightarrow> P s'"
  by (auto simp: get_response_def cmd_get_response_def taskman_get_response_def Let_def bindR_Inr_iff keep_env keep_unlock
      split_beta split: if_splits dest: keep_send)

lemma keep_stream_step:
  "P (st_s st) \<Longrightarrow> stream_step ops tid c has wants offset_end st = Inr (ifr, st') \<Longrightarrow> P (st_s st')"
  by (auto simp: stream_step_def stream_fill_def Let_def bindR_Inr_iff split: prod.splits if_splits dest: keep_read)

lemma keep_stream_loop:
  "P (st_s st) \<Longrightarrow> stream_loop fuel ops tid c has wants offset_end ifr st = Inr (ifr', st') \<Longrightarrow> P (st_s st')"
proof (induction fuel arbitrary: st)
  case (Suc fuel)
  then show ?case
    by (auto simp: stream_loop.simps [of "Suc fuel"] bindR_Inr_iff split: if_splits dest: keep_stream_step)
qed (simp add: stream_loop.simps split: if_splits)

lemma keep_stream_data:
  assumes "P s" and "stream_data fuel ops tid p dd ifr ses cc is s = Inr (ifr', st)"
  shows "P (st_s st)"
proof -
  have n: "st_s st' = st_s st0" if "stream_nothing c has wants ifr0 st0 = Inr (ifr1, st')" for c has wants ifr0 st0 ifr1 and st' :: "'b stream"
    using that by (auto simp: stream_nothing_def bindR_Inr_iff Let_def split_beta split: option.splits if_splits)
  show ?thesis
    using assms by (auto simp: stream_data_def Let_def bindR_Inr_iff split: if_splits dest!: n keep_stream_loop [rotated])
qed

lemma keep_push_response:
  assumes "P (sv_s sv)" and "push_response fuel ops tid ses p sv = Inr (ifr, sv')"
  shows "P (sv_s sv')"
proof -
  obtain r ses' s' where r: "(if get_opcode p = o_scsi_data_out then push_data_out ops tid p ses (sv_s sv)
      else bindR (get_response ops tid p ses (sv_s sv)) (\<lambda>(r, ses, s). Inr (Inr r, ses, s))) = Inr (r, ses', s')"
    using assms(2) by (auto simp: push_response_def bindR_Inr_iff)
  then have h: "P s'"
    using assms(1) by (auto simp: bindR_Inr_iff split: if_splits dest: keep_push_data_out keep_get_response)
  show ?thesis
    using assms(2) h unfolding push_response_def r bindR_simps prod.case Let_def
    by (cases r; force simp: bindR_Inr_iff split: option.splits dest: keep_stream_data [OF h])
qed

subsection \<open>The loop of a connection\<close>

lemma keep_receive_pdu: "P (sv_s sv) \<Longrightarrow> receive_pdu ops sv = Inr (p, ifr, t, sv') \<Longrightarrow> P (sv_s sv')"
  by (auto simp: receive_pdu_def Let_def bindR_Inr_iff keep_micros split: option.splits prod.splits)

lemma keep_handler_reject: "P (sv_s (h_sv h)) \<Longrightarrow> handler_reject ifr p h = Inr (skip, h') \<Longrightarrow> P (sv_s (h_sv h'))"
  by (auto simp: handler_reject_def Let_def split: option.splits if_splits prod.splits)

lemma keep_handler_clock: "P (sv_s (h_sv h)) \<Longrightarrow> P (sv_s (h_sv (handler_clock t (handler_errors ifr h))))"
  by (auto simp: handler_clock_def handler_errors_def Let_def keep_is keep_millis keep_micros split: prod.splits)

lemma keep_handler_round:
  assumes "P (sv_s (h_sv h))" and "handler_round fuel ops tid h = Inr h'"
  shows "P (sv_s (h_sv h'))"
proof -
  obtain p ifr t sv where r: "receive_pdu ops (h_sv h) = Inr (p, ifr, t, sv)"
    using assms(2) by (auto simp: handler_round_def bindR_Inr_iff)
  have "P (sv_s sv)" using keep_receive_pdu [OF assms(1) r] .
  then show ?thesis
    using assms(2) unfolding handler_round_def r bindR_simps prod.case Let_def
    by (auto simp: bindR_Inr_iff split: if_splits option.splits intro!: keep_handler_clock
        dest!: keep_push_response [rotated] keep_handler_reject [rotated])
qed

lemma keep_handler_loop:
  "P (sv_s (h_sv h)) \<Longrightarrow> handler_loop fuel ops tid rounds h = Inr h' \<Longrightarrow> P (sv_s (h_sv h'))"
proof (induction rounds arbitrary: h)
  case (Suc rounds)
  then show ?case by (auto simp: bindR_Inr_iff split: if_splits dest: keep_handler_round)
qed simp

lemma keep_handler_finish: "P (sv_s sv) \<Longrightarrow> handler_finish ops tid sv = Inr sv' \<Longrightarrow> P (sv_s sv')"
  by (auto simp: handler_finish_def bindR_Inr_iff split: if_splits intro!: keep_unlock dest!: keep_sync [rotated])

end

section \<open>Two invariants\<close>

text \<open>Seen from connection \<open>tid\<close>: the reservation of another connection \<open>t\<close> and the device in state \<open>b\<close>.\<close>

definition held_by_other :: "nat \<Rightarrow> 'b \<Rightarrow> nat \<Rightarrow> 'b scsi_st \<Rightarrow> bool" where
  "held_by_other t b tid s \<longleftrightarrow> (t \<noteq> tid \<longrightarrow> locked_by s = Some t \<and> sc_b s = b)"

lemma only_stats_held: "only_stats s s' \<Longrightarrow> held_by_other t b tid s \<Longrightarrow> held_by_other t b tid s'"
  by (auto simp: only_stats_def held_by_other_def)

lemma held_access:
  assumes "held_by_other t b tid s"
  shows "scsi_sync ops tid s = Inr (rc, s') \<Longrightarrow> held_by_other t b tid s'"
    and "scsi_trim ops tid nr n s = Inr (rc, s') \<Longrightarrow> held_by_other t b tid s'"
    and "scsi_write ops tid nr n data s = Inr (rc, s') \<Longrightarrow> held_by_other t b tid s'"
    and "scsi_read ops tid nr n data s = Inr (rc, data', s') \<Longrightarrow> held_by_other t b tid s'"
    and "scsi_cmpwrite ops tid nr n dw dc s = Inr (rc, s') \<Longrightarrow> held_by_other t b tid s'"
proof -
  have l: "locking_status tid s = l_locked_other" if "t \<noteq> tid"
    using assms that by (simp add: held_by_other_def locking_status_def)
  have k: "held_by_other t b tid s'" if "t \<noteq> tid \<Longrightarrow> only_stats s s'"
    using only_stats_held [OF _ assms] that by (cases "t = tid") (auto simp: held_by_other_def)
  show "scsi_sync ops tid s = Inr (rc, s') \<Longrightarrow> held_by_other t b tid s'"
    by (rule k) (use locked_out_stats(1) [OF l] in blast)
  show "scsi_trim ops tid nr n s = Inr (rc, s') \<Longrightarrow> held_by_other t b tid s'"
    by (rule k) (use locked_out_stats(2) [OF l] in blast)
  show "scsi_write ops tid nr n data s = Inr (rc, s') \<Longrightarrow> held_by_other t b tid s'"
    by (rule k) (use locked_out_stats(3) [OF l] in blast)
  show "scsi_read ops tid nr n data s = Inr (rc, data', s') \<Longrightarrow> held_by_other t b tid s'"
    by (rule k) (use locked_out_stats(4) [OF l] in blast)
  show "scsi_cmpwrite ops tid nr n dw dc s = Inr (rc, s') \<Longrightarrow> held_by_other t b tid s'"
    by (rule k) (use locked_out_stats(5) [OF l] in blast)
qed

interpretation held: access_invariant "held_by_other t b tid" ops tid for t b tid ops
proof
  fix s :: "'a scsi_st" assume h: "held_by_other t b tid s"
  then show "held_by_other t b tid (snd (reserve_device tid s))" "held_by_other t b tid (snd (unlock_device tid s))"
    by (auto simp: held_by_other_def reserve_device_def unlock_device_def split: option.splits)
qed (simp add: held_by_other_def, simp add: held_by_other_def, erule (1) held_access(1), erule (1) held_access(2),
     erule (1) held_access(3), erule (1) held_access(4), erule (1) held_access(5))

text \<open>What a connection can make of a reservation that was \<open>l\<close>.\<close>

definition own_reservation :: "nat option \<Rightarrow> nat \<Rightarrow> 'b scsi_st \<Rightarrow> bool" where
  "own_reservation l tid s \<longleftrightarrow> locked_by s \<in> {l, None, Some tid}"

lemma own_cfg: "same_cfg s s' \<Longrightarrow> own_reservation l tid s \<Longrightarrow> own_reservation l tid s'"
  by (simp add: same_cfg_def own_reservation_def)

interpretation own: access_invariant "own_reservation l tid" ops tid for l tid ops
proof
  fix s :: "'a scsi_st" assume h: "own_reservation l tid s"
  then show "own_reservation l tid (snd (reserve_device tid s))" "own_reservation l tid (snd (unlock_device tid s))"
    by (auto simp: own_reservation_def reserve_device_def unlock_device_def split: option.splits)
qed (simp add: own_reservation_def, simp add: own_reservation_def,
     blast dest: access_cfg(1) own_cfg, blast dest: scsi_trim_cfg own_cfg, blast dest: access_cfg(2) own_cfg,
     blast dest: access_cfg(3) own_cfg, blast dest: access_cfg(4) own_cfg)

section \<open>The loop ends with the bytes of the connection\<close>

text \<open>Sending does not touch what is still to be received.\<close>

lemma rx_send: "cc_send d cc = (ok, cc') \<Longrightarrow> cc_rx cc' = cc_rx cc"
  by (auto simp: cc_send_def split: list.splits)

lemma rx_send_blobs: "send_blobs bs ifr ses cc is = (ifr', ses', cc', is') \<Longrightarrow> cc_rx cc' = cc_rx cc"
  by (induction bs ifr ses cc "is" rule: send_blobs.induct) (auto split: prod.splits if_splits dest: rx_send)

lemma rx_emit_responses: "emit_responses rs ifr ses cc is = Inr (ifr', ses', cc', is') \<Longrightarrow> cc_rx cc' = cc_rx cc"
proof (induction rs arbitrary: ifr ses cc "is")
  case (Cons r rs)
  obtain blobs ses1 where b: "reply_get r ses = Inr (blobs, ses1)" using Cons.prems by (auto simp: bindR_Inr_iff)
  obtain ifr2 ses2 cc2 is2 where sb: "send_blobs blobs ifr ses1 cc is = (ifr2, ses2, cc2, is2)" by (metis prod_cases4)
  then have "emit_responses rs ifr2 ses2 cc2 is2 = Inr (ifr', ses', cc', is')" using Cons.prems b by simp
  from Cons.IH [OF this] show ?case using rx_send_blobs [OF sb] by simp
qed simp

lemma rx_stream_step:
  "stream_step ops tid c has wants offset_end st = Inr (ifr, st') \<Longrightarrow> cc_rx (st_cc st') = cc_rx (st_cc st)"
  by (auto simp: stream_step_def Let_def bindR_Inr_iff split: prod.splits if_splits dest: rx_send)

lemma rx_stream_loop:
  "stream_loop fuel ops tid c has wants offset_end ifr st = Inr (ifr', st') \<Longrightarrow> cc_rx (st_cc st') = cc_rx (st_cc st)"
proof (induction fuel arbitrary: st)
  case (Suc fuel)
  show ?case
  proof (cases "st_offset st < offset_end")
    case True
    then obtain r st1 where s1: "stream_step ops tid c has wants offset_end st = Inr (r, st1)"
      using Suc.prems by (auto simp: stream_loop.simps [of "Suc fuel"] bindR_Inr_iff)
    then have "(if r \<noteq> IFR_OK then Inr (r, st1) else stream_loop fuel ops tid c has wants offset_end ifr st1) = Inr (ifr', st')"
      using Suc.prems True by (simp add: stream_loop.simps [of "Suc fuel"])
    then show ?thesis using Suc.IH [of st1] rx_stream_step [OF s1] by (simp split: if_splits)
  next
    case False
    then show ?thesis using Suc.prems by (simp add: stream_loop.simps [of "Suc fuel"])
  qed
qed (simp add: stream_loop.simps split: if_splits)

lemma rx_stream_data:
  assumes "stream_data fuel ops tid p dd ifr ses cc is s = Inr (ifr', st)"
  shows "cc_rx (st_cc st) = cc_rx cc"
proof -
  have n: "cc_rx (st_cc st') = cc_rx (st_cc st0)" if "stream_nothing c has wants ifr0 st0 = Inr (ifr1, st')"
    for c has wants ifr0 st0 ifr1 and st' :: "'a stream"
    using that by (auto simp: stream_nothing_def bindR_Inr_iff Let_def split_beta split: option.splits if_splits
        intro: rx_send [OF surjective_pairing])
  show ?thesis
    using assms by (auto simp: stream_data_def Let_def bindR_Inr_iff split: if_splits dest!: n rx_stream_loop)
qed

lemma rx_push_response:
  assumes "push_response fuel ops tid ses p sv = Inr (ifr, sv')"
  shows "cc_rx (sv_cc sv') = cc_rx (sv_cc sv)"
proof -
  obtain r ses' s' where r: "(if get_opcode p = o_scsi_data_out then push_data_out ops tid p ses (sv_s sv)
      else bindR (get_response ops tid p ses (sv_s sv)) (\<lambda>(r, ses, s). Inr (Inr r, ses, s))) = Inr (r, ses', s')"
    using assms by (auto simp: push_response_def bindR_Inr_iff)
  show ?thesis
    using assms unfolding push_response_def r bindR_simps prod.case Let_def
    by (cases r; fastforce simp: bindR_Inr_iff split: option.splits dest: rx_emit_responses rx_stream_data)
qed

text \<open>Receiving only shortens it, and every round that goes on has taken a header.\<close>

lemma rx_recv: "cc_recv n cc = (d, cc') \<Longrightarrow> length (cc_rx cc') \<le> length (cc_rx cc)"
  by (auto simp: cc_recv_def split: if_splits)

lemma rx_receive_ahs: "rx_ahs r = Inr (r', c) \<Longrightarrow> length (cc_rx (rx_cc r')) \<le> length (cc_rx (rx_cc r))"
  by (auto simp: rx_ahs_def Let_def split: prod.splits if_splits dest: rx_recv)

lemma rx_receive_digest: "length (cc_rx (rx_cc (rx_digest chk c r))) \<le> length (cc_rx (rx_cc r))"
  by (auto simp: rx_digest_def Let_def split: prod.splits option.splits dest: rx_recv)

lemma rx_set_data: "pdu_set_data d r = Inr r' \<Longrightarrow> rx_cc r' = rx_cc r"
  by (auto simp: pdu_set_data_def bindR_Inr_iff split: if_splits)

lemma rx_receive_data:
  assumes "rx_data chk has r = Inr r'"
  shows "length (cc_rx (rx_cc r')) \<le> length (cc_rx (rx_cc r))"
proof -
  obtain got cc where g: "cc_recv (pad4 (get_data_length (rx_pdu r))) (rx_cc r) = (got, cc)" by fastforce
  note le = rx_recv [OF g]
  show ?thesis
    using assms le order.trans [OF rx_receive_digest]
    by (auto simp: rx_data_def Let_def g bindR_Inr_iff split: if_splits dest!: rx_set_data
        intro!: order.trans [OF rx_receive_digest])
qed

lemma rx_receive_body:
  assumes "receive_body chk r = Inr r'"
  shows "length (cc_rx (rx_cc r')) \<le> length (cc_rx (rx_cc r))"
proof -
  define b where "b \<longleftrightarrow> get_opcode (rx_pdu r) \<noteq> o_login_req"
  define ra where "ra = (if get_opcode (rx_pdu r) = o_login_req
    then r\<lparr>rx_is := (rx_is r)\<lparr>iscsiTgtLoginAccepts := iscsiTgtLoginAccepts (rx_is r) + 1\<rparr>\<rparr> else r)"
  define r0 where "r0 = (if get_opcode (rx_pdu r) = o_logout_req
    then ra\<lparr>rx_is := (rx_is ra)\<lparr>iscsiTgtLogoutNormals := iscsiTgtLogoutNormals (rx_is ra) + 1\<rparr>\<rparr> else ra)"
  have r0: "rx_cc r0 = rx_cc r" by (simp add: r0_def ra_def)
  obtain r1 c where r1: "rx_ahs r0 = Inr (r1, c)"
    "rx_data chk b (if get_header_digest (rx_ses r1) \<and> b then rx_digest chk c r1 else r1) = Inr r'"
    using assms unfolding receive_body_def Let_def bindR_Inr_iff b_def r0_def ra_def by (auto simp: bindR_Inr_iff)
  have "length (cc_rx (rx_cc r')) \<le>
      length (cc_rx (rx_cc (if get_header_digest (rx_ses r1) \<and> b then rx_digest chk c r1 else r1)))"
    by (rule rx_receive_data [OF r1(2)])
  also have "\<dots> \<le> length (cc_rx (rx_cc r1))" using rx_receive_digest by simp
  also have "\<dots> \<le> length (cc_rx (rx_cc r))" using rx_receive_ahs [OF r1(1)] r0 by simp
  finally show ?thesis .
qed

lemma rx_receive_pdu:
  assumes "receive_pdu ops sv = Inr (p, ifr, t, sv')"
  shows "ifr = IFR_CONNECTION \<or> length (cc_rx (sv_cc sv')) + 48 \<le> length (cc_rx (sv_cc sv))"
proof (cases "48 \<le> length (cc_rx (sv_cc sv))")
  case True
  then show ?thesis
    using assms by (auto simp: receive_pdu_def Let_def cc_recv_def bindR_Inr_iff split: option.splits prod.splits
        dest!: rx_receive_body)
qed (use assms in \<open>simp add: receive_pdu_def Let_def cc_recv_def\<close>)

lemma rx_handler_reject:
  "handler_reject ifr p h = Inr (skip, h') \<Longrightarrow> cc_rx (sv_cc (h_sv h')) = cc_rx (sv_cc (h_sv h))"
  by (auto simp: handler_reject_def Let_def split: option.splits if_splits prod.splits dest: rx_send)

lemma handler_errors_connection: "\<not> h_ok (handler_clock t (handler_errors IFR_CONNECTION h))"
  by (simp add: handler_clock_def handler_errors_def Let_def split: prod.split)

lemma rx_handler_clock: "sv_cc (h_sv (handler_clock t (handler_errors ifr h))) = sv_cc (h_sv h)"
  by (simp add: handler_clock_def handler_errors_def Let_def split: prod.split)

lemma handler_round_takes_header:
  assumes "handler_round fuel ops tid h = Inr h'" and "h_ok h'"
  shows "length (cc_rx (sv_cc (h_sv h'))) + 48 \<le> length (cc_rx (sv_cc (h_sv h)))"
proof -
  obtain p ifr t sv where r: "receive_pdu ops (h_sv h) = Inr (p, ifr, t, sv)"
    using assms(1) by (auto simp: handler_round_def bindR_Inr_iff)
  define sv0 where "sv0 = sv\<lparr>sv_is := (sv_is sv)\<lparr>iscsiSsnCmdPDUs := iscsiSsnCmdPDUs (sv_is sv) + 1\<rparr>\<rparr>"
  define answer where "answer = (if ifr = IFR_OK then
      (case (p, sv_ses sv0) of
         (Some p, Some ses) \<Rightarrow>
           bindR (push_response fuel ops tid ses p sv0) (\<lambda>(ifr, sv).
           Inr (ifr, if ifr \<noteq> IFR_OK
             then sv\<lparr>sv_is := (sv_is sv)\<lparr>iscsiInstSsnFailures := iscsiInstSsnFailures (sv_is sv) + 1\<rparr>\<rparr> else sv))
       | _ \<Rightarrow> Inl Mem_oob)
    else Inr (ifr, sv0))"
  have "bindR answer (\<lambda>(ifr, sv).
      let h = h\<lparr>h_sv := sv\<rparr>
      in bindR (if ifr \<noteq> IFR_OK \<and> ifr \<noteq> IFR_CONNECTION then handler_reject ifr p h else Inr (False, h))
           (\<lambda>(skip, h). Inr (if skip then h else handler_clock t (handler_errors ifr h)))) = Inr h'"
    using assms(1) unfolding handler_round_def r bindR_simps prod.case answer_def sv0_def by (simp only: Let_def)
  then obtain ifr2 sv2 where a: "answer = Inr (ifr2, sv2)"
    and m: "bindR (if ifr2 \<noteq> IFR_OK \<and> ifr2 \<noteq> IFR_CONNECTION then handler_reject ifr2 p (h\<lparr>h_sv := sv2\<rparr>) else Inr (False, h\<lparr>h_sv := sv2\<rparr>))
       (\<lambda>(skip, h). Inr (if skip then h else handler_clock t (handler_errors ifr2 h))) = Inr h'"
    unfolding bindR_Inr_iff [of answer] Let_def by (auto simp del: bindR_simps)
  have a2: "cc_rx (sv_cc sv2) = cc_rx (sv_cc sv)" "ifr \<noteq> IFR_OK \<Longrightarrow> ifr2 = ifr"
    using a unfolding answer_def sv0_def by (auto simp: bindR_Inr_iff split: if_splits option.splits dest: rx_push_response)
  have "ifr2 \<noteq> IFR_CONNECTION" using m assms(2) by (auto simp: handler_errors_connection)
  then have "ifr \<noteq> IFR_CONNECTION" using a2(2) by auto
  then have "length (cc_rx (sv_cc sv)) + 48 \<le> length (cc_rx (sv_cc (h_sv h)))" using rx_receive_pdu [OF r] by simp
  moreover have "cc_rx (sv_cc (h_sv h')) = cc_rx (sv_cc sv)"
    using m a2(1) by (auto simp: bindR_Inr_iff rx_handler_clock split: if_splits dest!: rx_handler_reject)
  ultimately show ?thesis by simp
qed

lemma handler_loop_rounds:
  assumes "length (cc_rx (sv_cc (h_sv h))) div 48 < rounds" and "length (cc_rx (sv_cc (h_sv h))) div 48 < rounds'"
  shows "handler_loop fuel ops tid rounds h = handler_loop fuel ops tid rounds' h"
  using assms
proof (induction rounds arbitrary: rounds' h)
  case (Suc rounds)
  then obtain k where k: "rounds' = Suc k" by (cases rounds') simp_all
  show ?case
  proof (cases "handler_round fuel ops tid h")
    case (Inr h')
    have "handler_loop fuel ops tid rounds h' = handler_loop fuel ops tid k h'" if "h_ok h'"
    proof (rule Suc.IH)
      have "length (cc_rx (sv_cc (h_sv h'))) div 48 + 1 \<le> length (cc_rx (sv_cc (h_sv h))) div 48"
        using div_le_mono [OF handler_round_takes_header [OF Inr that], of 48] by simp
      then show "length (cc_rx (sv_cc (h_sv h'))) div 48 < rounds" "length (cc_rx (sv_cc (h_sv h'))) div 48 < k"
        using Suc.prems k by simp_all
    qed
    then show ?thesis by (simp add: k Inr)
  qed (simp add: k)
qed simp


definition example_client :: "byte list \<Rightarrow> com_client" where
  "example_client rx = \<lparr>cc_rx = rx, cc_tx = [], cc_send_ok = [], cc_local_address = [], cc_endpoint_name = []\<rparr>"

definition example_is :: iscsi_stats_t where
  "example_is = \<lparr>iscsiSsnCmdPDUs = 0, iscsiInstSsnFailures = 0, iscsiInstSsnFormatErrors = 0, iscsiInstSsnDigestErrors = 0,
     iscsiSsnTxDataOctets = 0, iscsiSsnRxDataOctets = 0, iscsiTgtLoginAccepts = 0, iscsiTgtLogoutNormals = 0\<rparr>"

definition example_thread :: "byte list \<Rightarrow> backend_file handler_st" where
  "example_thread rx = \<lparr>h_sv = \<lparr>sv_s = example_scsi, sv_cc = example_client rx, sv_is = example_is, sv_target_name = [],
     digest_chk = True, sv_ses = None\<rparr>, h_ok = True, h_fail_counter = 0, h_busy = 0, h_prev_output = 0\<rparr>"


end
