(* ===== verification/Iscsi_Wire.thy ===== *)
theory Iscsi_Wire
  imports Iscsi_Pdu
begin

text \<open>
  Reply PDUs on the wire: every reply class fills in a header of 48 bytes with its operation code, the
  data segment length and the initiator task tag of the request, so a receiver finds operation code,
  length and data again in the serialised PDU. The contract is the locale \<open>reply_class\<close>.
\<close>

section \<open>Offsets\<close>

lemma offs_common [simp]:
  "off bhs_l ''b1'' = 0" "off bhs_l ''ahslen'' = 4" "off bhs_l ''datalenH'' = 5" "off bhs_l ''datalenM'' = 6"
  "off bhs_l ''datalenL'' = 7" "off bhs_l ''lunfields'' = 8" "off bhs_l ''Itasktag'' = 16"
  by (simp_all add: bhs_l_def)

lemma offs_requests [simp]:
  "off cdb_pdu_req_l ''LUN'' = 8" "off cdb_pdu_req_l ''Itasktag'' = 16" "off cdb_pdu_req_l ''expdatlen'' = 20"
  "off cdb_pdu_req_l ''CmdSN'' = 24" "off cdb_pdu_req_l ''ExpStatSN'' = 28" "off cdb_pdu_req_l ''CDB'' = 32"
  "off nop_out_l ''LUN'' = 8" "off nop_out_l ''Itasktag'' = 16" "off nop_out_l ''TTT'' = 20"
  "off nop_out_l ''CmdSN'' = 24" "off nop_out_l ''ExpStatSN'' = 28"
  "off text_req_l ''LUN'' = 8" "off text_req_l ''Itasktag'' = 16" "off text_req_l ''TTT'' = 20"
  "off text_req_l ''CmdSN'' = 24" "off text_req_l ''ExpStatSN'' = 28"
  "off logout_req_l ''Itasktag'' = 16" "off logout_req_l ''CmdSN'' = 24" "off logout_req_l ''ExpStatSN'' = 28"
  "off taskman_req_l ''b2'' = 1" "off taskman_req_l ''Itasktag'' = 16" "off taskman_req_l ''CmdSN'' = 24"
  "off taskman_req_l ''ExpStatSN'' = 28"
  "off login_req_l ''b2'' = 1" "off login_req_l ''versionmin'' = 3" "off login_req_l ''ISID'' = 8"
  "off login_req_l ''Itasktag'' = 16" "off login_req_l ''CmdSN'' = 24" "off login_req_l ''ExpStatSN'' = 28"
  "off pdu_data_out_l ''b2'' = 1" "off pdu_data_out_l ''TTT'' = 20" "off pdu_data_out_l ''bufferoff'' = 40"
  by (simp_all add: layout_defs)

lemma offs_replies [simp]:
  "off login_reply_l ''b1'' = 0" "off login_reply_l ''b2'' = 1" "off login_reply_l ''versionmax'' = 2"
  "off login_reply_l ''versionact'' = 3" "off login_reply_l ''datalenH'' = 5" "off login_reply_l ''datalenM'' = 6"
  "off login_reply_l ''datalenL'' = 7" "off login_reply_l ''ISID'' = 8" "off login_reply_l ''TSIH'' = 14"
  "off login_reply_l ''Itasktag'' = 16" "off login_reply_l ''StatSN'' = 24" "off login_reply_l ''ExpCmdSN'' = 28"
  "off login_reply_l ''MaxCmdSN'' = 32"
  "off pdu_data_in_l ''b1'' = 0" "off pdu_data_in_l ''b2'' = 1" "off pdu_data_in_l ''datalenH'' = 5"
  "off pdu_data_in_l ''datalenM'' = 6" "off pdu_data_in_l ''datalenL'' = 7" "off pdu_data_in_l ''LUN'' = 8"
  "off pdu_data_in_l ''Itasktag'' = 16" "off pdu_data_in_l ''StatSN'' = 24" "off pdu_data_in_l ''ExpCmdSN'' = 28"
  "off pdu_data_in_l ''MaxCmdSN'' = 32" "off pdu_data_in_l ''DataSN'' = 36" "off pdu_data_in_l ''bufferoff'' = 40"
  "off pdu_data_in_l ''ResidualCt'' = 44"
  "off pdu_response_l ''b1'' = 0" "off pdu_response_l ''b2'' = 1" "off pdu_response_l ''response'' = 2"
  "off pdu_response_l ''status'' = 3" "off pdu_response_l ''datalenH'' = 5" "off pdu_response_l ''datalenM'' = 6"
  "off pdu_response_l ''datalenL'' = 7" "off pdu_response_l ''Itasktag'' = 16" "off pdu_response_l ''StatSN'' = 24"
  "off pdu_response_l ''ExpCmdSN'' = 28" "off pdu_response_l ''MaxCmdSN'' = 32" "off pdu_response_l ''ExpDataSN'' = 36"
  "off pdu_response_l ''ResidualCt'' = 44"
  "off nop_in_l ''b1'' = 0" "off nop_in_l ''b2'' = 1" "off nop_in_l ''datalenH'' = 5" "off nop_in_l ''datalenM'' = 6"
  "off nop_in_l ''datalenL'' = 7" "off nop_in_l ''LUN'' = 8" "off nop_in_l ''Itasktag'' = 16" "off nop_in_l ''TTT'' = 20"
  "off nop_in_l ''StatSN'' = 24" "off nop_in_l ''ExpCmdSN'' = 28" "off nop_in_l ''MaxCmdSN'' = 32"
  "off pdu_scsi_r2t_l ''b1'' = 0" "off pdu_scsi_r2t_l ''b2'' = 1" "off pdu_scsi_r2t_l ''LUN'' = 8"
  "off pdu_scsi_r2t_l ''Itasktag'' = 16" "off pdu_scsi_r2t_l ''TTT'' = 20" "off pdu_scsi_r2t_l ''StatSN'' = 24"
  "off pdu_scsi_r2t_l ''ExpCmdSN'' = 28" "off pdu_scsi_r2t_l ''MaxCmdSN'' = 32" "off pdu_scsi_r2t_l ''bufferoff'' = 40"
  "off pdu_scsi_r2t_l ''DDTF'' = 44"
  "off text_reply_l ''b1'' = 0" "off text_reply_l ''b2'' = 1" "off text_reply_l ''ahslen'' = 4"
  "off text_reply_l ''datalenH'' = 5" "off text_reply_l ''datalenM'' = 6" "off text_reply_l ''datalenL'' = 7"
  "off text_reply_l ''LUN'' = 8" "off text_reply_l ''Itasktag'' = 16" "off text_reply_l ''TTT'' = 20"
  "off text_reply_l ''StatSN'' = 24" "off text_reply_l ''ExpCmdSN'' = 28" "off text_reply_l ''MaxCmdSN'' = 32"
  "off logout_reply_l ''b1'' = 0" "off logout_reply_l ''b2'' = 1" "off logout_reply_l ''Itasktag'' = 16"
  "off logout_reply_l ''StatSN'' = 24" "off logout_reply_l ''ExpCmdSN'' = 28" "off logout_reply_l ''MaxCmdSN'' = 32"
  "off taskman_reply_l ''b1'' = 0" "off taskman_reply_l ''b2'' = 1" "off taskman_reply_l ''Itasktag'' = 16"
  "off taskman_reply_l ''StatSN'' = 24" "off taskman_reply_l ''ExpCmdSN'' = 28" "off taskman_reply_l ''MaxCmdSN'' = 32"
  "off reject_l ''b1'' = 0" "off reject_l ''b2'' = 1" "off reject_l ''reason'' = 2" "off reject_l ''datalenL'' = 7"
  "off reject_l ''problem_pdu'' = 48"
  by (simp_all add: layout_defs)

section \<open>Header fields\<close>

lemma length_zero48 [simp]: "length zero48 = 48"
  by (simp add: zero48_def)

lemma zero48_nth [simp]: "i < 48 \<Longrightarrow> zero48 ! i = 0"
  by (simp add: zero48_def)

definition datalen_of :: "byte list \<Rightarrow> nat" where
  "datalen_of h = unat (push_bit 16 (ucast (h ! 5)) OR push_bit 8 (ucast (h ! 6)) OR ucast (h ! 7) :: u32)"

lemma datalen_bytes:
  assumes "n < 2 ^ 24"
  shows "unat (push_bit 16 (ucast (of_nat (n div 2 ^ 16) :: byte)) OR push_bit 8 (ucast (of_nat (n div 2 ^ 8) :: byte))
     OR ucast (of_nat n :: byte) :: u32) = n"
proof -
  have "(push_bit 16 (ucast (of_nat (n div 2 ^ 16) :: byte)) OR push_bit 8 (ucast (of_nat (n div 2 ^ 8) :: byte))
     OR ucast (of_nat n :: byte) :: u32) = of_nat n"
  proof (rule bit_word_eqI)
    fix k assume "k < LENGTH(32)"
    then consider "k < 8" | "8 \<le> k" "k < 16" | "16 \<le> k" "k < 24" | "24 \<le> k" "k < 32" by fastforce
    moreover have "\<not> bit n k" if "24 \<le> k"
    proof -
      have "n < 2 ^ k" using assms power_increasing [OF that, of "2 :: nat"] by simp
      then show ?thesis by (simp add: bit_iff_odd)
    qed
    ultimately show "bit (push_bit 16 (ucast (of_nat (n div 2 ^ 16) :: byte)) OR push_bit 8 (ucast (of_nat (n div 2 ^ 8) :: byte))
     OR ucast (of_nat n :: byte) :: u32) k = bit (of_nat n :: u32) k"
      unfolding bit_or_iff drop_bit_eq_div [symmetric]
      by cases (simp_all add: bit_simps less_diff_conv2 le_diff_conv2)
  qed
  then show ?thesis using assms by (simp add: unat_of_nat)
qed

lemmas hdr_defs = member_defs get_Itasktag_def get_LUN_def get_TTT_def

fun reply_header :: "reply \<Rightarrow> byte list" where
  "reply_header (Login_reply h d) = h"
| "reply_header (Scsi_response h d) = h"
| "reply_header (Data_in c d) = []"
| "reply_header (Nop_in h d) = h"
| "reply_header (R2t h) = h"
| "reply_header (Text_reply h d) = h"
| "reply_header (Logout_reply h) = h"
| "reply_header (Taskman_reply h) = h"

fun reply_data :: "reply \<Rightarrow> byte list" where
  "reply_data (Login_reply h d) = d"
| "reply_data (Scsi_response h d) = d"
| "reply_data (Data_in c d) = d"
| "reply_data (Nop_in h d) = d"
| "reply_data (R2t h) = []"
| "reply_data (Text_reply h d) = d"
| "reply_data (Logout_reply h) = []"
| "reply_data (Taskman_reply h) = []"

text \<open>
  \<open>hdr_ok h opc n itt\<close>: a 48-byte header without additional header segments, with this operation code,
  data length and task tag.
\<close>

definition hdr_ok :: "byte list \<Rightarrow> byte \<Rightarrow> nat \<Rightarrow> u32 \<Rightarrow> bool" where
  "hdr_ok h opc n itt \<longleftrightarrow> length h = 48 \<and> h ! 4 = 0 \<and> get_bits (h ! 0) 0 6 = opc \<and> datalen_of h = n \<and> ld32 16 h = itt"

text \<open>How the assignments of the \<open>set\<close> methods act on it.\<close>

lemma hdr_start:
  "opc \<in> set [0x20, 0x21, 0x22, 0x23, 0x24, 0x25, 0x26, 0x31] \<Longrightarrow> off l ''b1'' = 0 \<Longrightarrow>
   hdr_ok (setbits l ''b1'' 0 6 opc zero48) opc 0 0"
  by (auto simp: hdr_ok_def member_defs mem_simps datalen_of_def set_bits_def get_bits_def ld32_def)

lemma hdr_set32: "hdr_ok h opc n itt \<Longrightarrow> 20 \<le> off l f \<and> off l f \<le> 44 \<Longrightarrow> hdr_ok (set32 l f v h) opc n itt"
  by (auto simp: hdr_ok_def member_defs mem_simps datalen_of_def)

lemma hdr_itt: "hdr_ok h opc n itt' \<Longrightarrow> off l ''Itasktag'' = 16 \<Longrightarrow> hdr_ok (set32 l ''Itasktag'' itt h) opc n itt"
  by (auto simp: hdr_ok_def member_defs mem_simps datalen_of_def)

lemma hdr_set16: "hdr_ok h opc n itt \<Longrightarrow> hdr_ok (st16 14 v h) opc n itt"
  by (auto simp: hdr_ok_def mem_simps datalen_of_def)

lemma hdr_set8: "hdr_ok h opc n itt \<Longrightarrow> 0 < off l f \<and> off l f < 4 \<Longrightarrow> hdr_ok (set8 l f v h) opc n itt"
  by (auto simp: hdr_ok_def member_defs mem_simps datalen_of_def)

lemma hdr_ahslen: "hdr_ok h opc n itt \<Longrightarrow> off l ''ahslen'' = 4 \<Longrightarrow> hdr_ok (set8 l ''ahslen'' 0 h) opc n itt"
  by (auto simp: hdr_ok_def member_defs mem_simps datalen_of_def)

lemma hdr_setbits: "hdr_ok h opc n itt \<Longrightarrow> 0 < off l f \<and> off l f < 4 \<Longrightarrow> hdr_ok (setbits l f b k v h) opc n itt"
  by (auto simp: hdr_ok_def member_defs mem_simps datalen_of_def)

lemma hdr_setmem:
  "hdr_ok h opc n itt \<Longrightarrow> 8 \<le> off l f \<and> off l f + length m \<le> 16 \<Longrightarrow> hdr_ok (setmem l f m h) opc n itt"
  by (auto simp: hdr_ok_def member_defs mem_simps datalen_of_def)

lemma hdr_datalen:
  "hdr_ok h opc n' itt \<Longrightarrow> n < 2 ^ 24 \<and> off l ''datalenH'' = 5 \<and> off l ''datalenM'' = 6 \<and> off l ''datalenL'' = 7 \<Longrightarrow>
   hdr_ok (set_datalen l n h) opc n itt"
  using datalen_bytes [of n] by (auto simp: hdr_ok_def member_defs mem_simps datalen_of_def)

text \<open>Flags of the first byte that are cleared.\<close>

lemma zero48_setbits: "off l f < 48 \<Longrightarrow> setbits l f b k 0 zero48 = zero48"
  by (auto simp: setbits_def set8_def get8_def set_bits_def intro!: nth_equalityI simp: mem_simps)

lemma hdr_clear:
  assumes "hdr_ok h opc n itt" and "off l ''b1'' = 0 \<and> 6 \<le> b \<and> b + k \<le> 8"
  shows "hdr_ok (setbits l ''b1'' b k 0 h) opc n itt"
proof -
  have "get_bits (set_bits x b k 0) 0 6 = get_bits x 0 6" for x
    using assms(2) by (intro bit_word_eqI) (auto simp: bit_get_bits bit_set_bits)
  then show ?thesis
    using assms by (auto simp: hdr_ok_def member_defs mem_simps datalen_of_def)
qed

lemmas hdr_rules = hdr_start hdr_clear hdr_itt hdr_set32 hdr_set16 hdr_ahslen hdr_set8 hdr_setbits hdr_setmem hdr_datalen

lemmas hdr_unfold = Let_def reply_header.simps get_Itasktag_def get32_def get_LUN_def get_ISID_def

section \<open>The headers of the reply classes\<close>

lemma logout_hdr: "hdr_ok (reply_header (logout_reply_set p)) 0x26 0 (ld32 16 (pdu_bytes p))"
  unfolding logout_reply_set_def hdr_unfold
  by (simp, (rule hdr_rules)+) simp_all

lemma taskman_hdr: "hdr_ok (reply_header (taskman_reply_set p)) 0x22 0 (ld32 16 (pdu_bytes p))"
  unfolding taskman_reply_set_def hdr_unfold
  by (simp, (rule hdr_rules)+) simp_all

lemma r2t_hdr: "hdr_ok (reply_header (r2t_set p t b n)) 0x31 0 (ld32 16 (pdu_bytes p))"
  unfolding r2t_set_def hdr_unfold
  by (simp, (rule hdr_rules)+) simp_all

lemma nop_hdr:
  assumes "\<And>d. pdu_data p = Some d \<Longrightarrow> length d < 2 ^ 24"
  shows "hdr_ok (reply_header (nop_in_set p)) 0x20 (length (reply_data (nop_in_set p))) (ld32 16 (pdu_bytes p))"
proof (cases "pdu_data p")
  case None
  show ?thesis unfolding nop_in_set_def hdr_unfold get_data_def
    by (simp add: None, (rule hdr_rules)+) simp_all
next
  case (Some d)
  then have l: "length d < 16777216" "\<not> 16777215 < length d" using assms by fastforce+
  show ?thesis unfolding nop_in_set_def hdr_unfold get_data_def
    by (simp add: Some l, (rule hdr_rules)+) (insert l, simp_all)
qed

lemma scsi_response_hdr:
  assumes "scsi_response_set p sense res st = Some r" and l: "length sense < 2 ^ 16"
  shows "hdr_ok (reply_header r) 0x21 (length (reply_data r)) (ld32 16 (pdu_bytes p))"
proof -
  consider "res = None" | v where "res = Some (iSR_UNDERFLOW, v)" | v where "res = Some (iSR_OVERFLOW, v)"
    using assms(1) by (cases res) (auto simp: scsi_response_set_def Let_def split: residual.splits)
  then show ?thesis
    by cases
      (insert assms(1), (cases "sense = []"; clarsimp simp: scsi_response_set_def hdr_unfold;
        ((rule hdr_rules)+; use l in simp))+)
qed

lemma text_hdr:
  assumes "text_reply_set ses p = Some r" and l: "length (reply_data r) < 2 ^ 24"
  shows "hdr_ok (reply_header r) 0x24 (length (reply_data r)) (ld32 16 (pdu_bytes p))"
  by (insert assms, clarsimp simp: text_reply_set_def text_array_to_data_spec hdr_unfold split: if_splits option.splits;
      ((rule hdr_rules)+; simp))

lemma login_hdr:
  assumes "fst (login_reply_set ses p e) = Some r"
  shows "hdr_ok (reply_header r) 0x23 (length (reply_data r)) (ld32 16 (pdu_bytes p))"
proof -
  define kvs where "kvs = login_reply_kvs ses p"
  have l: "length (text_segment kvs) < 16777216"
    by (simp add: kvs_def login_reply_kvs_def text_segment_def)
  show ?thesis
    by (insert assms, clarsimp simp: login_reply_set_def kvs_def [symmetric] text_array_to_data_spec hdr_unfold
          zero48_setbits split: prod.splits option.splits;
       (intro conjI impI)?; ((rule hdr_rules)+; use l in simp))
qed

section \<open>Replies as a receiver reads them\<close>

text \<open>
  What an initiator does with the bytes of a PDU: the operation code and task tag of the header, and as
  many bytes behind the header (and its digest, if negotiated) as the data length field says.
\<close>

definition read_pdu :: "bool \<Rightarrow> byte list \<Rightarrow> byte \<times> u32 \<times> byte list" where
  "read_pdu hdigest blob =
     (let h = take 48 blob; body = drop (if hdigest then 52 else 48) blob
      in (get_bits (h ! 0) 0 6, ld32 16 h, take (datalen_of h) body))"

lemma read_pdu_assembled:
  assumes "hdr_ok h opc (length d) itt"
  shows "read_pdu (get_header_digest ses \<and> allow) (assembled ses h d allow) = (opc, itt, d)"
  using assms by (auto simp: read_pdu_def assembled_def hdr_ok_def padded_def)

text \<open>The interface every reply class implements.\<close>

locale reply_class =
  fixes build :: "pdu \<Rightarrow> reply option" and opc :: byte and allow :: bool and accepts :: "pdu \<Rightarrow> bool"
  assumes header: "build p = Some r \<Longrightarrow> accepts p \<Longrightarrow>
      hdr_ok (reply_header r) opc (length (reply_data r)) (ld32 16 (pdu_bytes p))"
    and serial: "build p = Some r \<Longrightarrow>
      reply_get r ses = Inr ([get_helper ses (reply_header r) (reply_data r) allow], ses)"

context reply_class
begin

lemma on_wire:
  assumes "build p = Some r" and "accepts p"
  shows "\<exists>blob. reply_get r ses = Inr ([blob], ses) \<and> length blob mod 4 = 0 \<and>
    read_pdu (get_header_digest ses \<and> allow) blob = (opc, ld32 16 (pdu_bytes p), reply_data r)"
proof -
  have h: "hdr_ok (reply_header r) opc (length (reply_data r)) (ld32 16 (pdu_bytes p))"
    using assms by (rule header)
  then have "length (reply_header r) = 48" by (simp add: hdr_ok_def)
  then show ?thesis
    using serial [OF assms(1)] read_pdu_assembled [OF h] length_assembled by (simp add: get_helper_spec)
qed

end

lemma reply_shapes:
  "scsi_response_set p sense res st = Some r \<Longrightarrow> \<exists>h d. r = Scsi_response h d"
  "text_reply_set ses p = Some r \<Longrightarrow> \<exists>h d. r = Text_reply h d"
  "fst (login_reply_set ses p e) = Some r \<Longrightarrow> \<exists>h d. r = Login_reply h d"
  by (auto simp only: scsi_response_set_def text_reply_set_def login_reply_set_def Let_def prod.case fst_conv option.inject
     split: option.splits if_splits prod.splits residual.splits)

interpretation logout_class: reply_class "\<lambda>p. Some (logout_reply_set p)" "0x26" True "\<lambda>_. True"
  using logout_hdr by unfold_locales (auto simp: logout_reply_set_def reply_get_def Let_def)

interpretation taskman_class: reply_class "\<lambda>p. Some (taskman_reply_set p)" "0x22" True "\<lambda>_. True"
  using taskman_hdr by unfold_locales (auto simp: taskman_reply_set_def reply_get_def Let_def)

interpretation r2t_class: reply_class "\<lambda>p. Some (r2t_set p t b n)" "0x31" True "\<lambda>_. True" for t b n
  using r2t_hdr by unfold_locales (auto simp: r2t_set_def reply_get_def Let_def)

interpretation nop_class: reply_class "\<lambda>p. Some (nop_in_set p)" "0x20" True
    "\<lambda>p. \<forall>d. pdu_data p = Some d \<longrightarrow> length d < 2 ^ 24"
  by unfold_locales (blast intro: nop_hdr, auto simp: nop_in_set_def reply_get_def Let_def)

interpretation response_class: reply_class "\<lambda>p. scsi_response_set p sense res st" "0x21" True "\<lambda>_. length sense < 2 ^ 16"
    for sense res st
  by unfold_locales (erule (1) scsi_response_hdr, drule reply_shapes(1), auto simp: reply_get_def)

interpretation text_class: reply_class "\<lambda>p. text_reply_set ses p" "0x24" True
    "\<lambda>p. \<forall>r. text_reply_set ses p = Some r \<longrightarrow> length (reply_data r) < 2 ^ 24" for ses
  by unfold_locales (blast intro: text_hdr, drule reply_shapes(2), auto simp: reply_get_def)

interpretation login_class: reply_class "\<lambda>p. fst (login_reply_set ses p e)" "0x23" False "\<lambda>_. True" for ses e
  by unfold_locales (erule login_hdr, drule reply_shapes(3), auto simp: reply_get_def)

text \<open>
  C24: every reply except Data-In is one PDU whose length is a multiple of four, and an initiator that
  reads it according to the negotiated digests finds the operation code of its class, the task tag of
  the request and exactly the reply's data. A login reply never carries digests.
\<close>

theorem replies_on_wire:
  assumes "r \<in> {logout_reply_set p, taskman_reply_set p, r2t_set p t b n, nop_in_set p} \<or>
      scsi_response_set p sense res st = Some r \<or> text_reply_set ses p = Some r \<or> fst (login_reply_set ses p e) = Some r"
    and "\<forall>d. pdu_data p = Some d \<longrightarrow> length d < 2 ^ 24" and "length sense < 2 ^ 16"
    and "length (reply_data r) < 2 ^ 24"
  shows "\<exists>blob. reply_get r ses = Inr ([blob], ses) \<and> length blob mod 4 = 0 \<and>
    read_pdu (get_header_digest ses \<and> (case r of Login_reply _ _ \<Rightarrow> False | _ \<Rightarrow> True)) blob =
      (case r of Login_reply _ _ \<Rightarrow> 0x23 | Scsi_response _ _ \<Rightarrow> 0x21 | Nop_in _ _ \<Rightarrow> 0x20 | R2t _ \<Rightarrow> 0x31
        | Text_reply _ _ \<Rightarrow> 0x24 | Logout_reply _ \<Rightarrow> 0x26 | Taskman_reply _ \<Rightarrow> 0x22 | Data_in _ _ \<Rightarrow> 0x25,
       get_Itasktag bhs_l p, reply_data r)"
proof -
  have itt: "get_Itasktag bhs_l p = ld32 16 (pdu_bytes p)" by (simp add: get_Itasktag_def get32_def)
  have simple: "\<exists>h. logout_reply_set p = Logout_reply h" "\<exists>h. taskman_reply_set p = Taskman_reply h"
    "\<exists>h. r2t_set p t b n = R2t h" "\<exists>h d. nop_in_set p = Nop_in h d"
    by (simp_all add: logout_reply_set_def taskman_reply_set_def r2t_set_def nop_in_set_def Let_def)
  consider "r = logout_reply_set p" | "r = taskman_reply_set p" | "r = r2t_set p t b n" | "r = nop_in_set p"
    | "scsi_response_set p sense res st = Some r" | "text_reply_set ses p = Some r" | "fst (login_reply_set ses p e) = Some r"
    using assms(1) by blast
  then show ?thesis
  proof cases
    case 1 then show ?thesis using logout_class.on_wire [of p r ses] simple itt by auto
  next
    case 2 then show ?thesis using taskman_class.on_wire [of p r ses] simple itt by auto
  next
    case 3 then show ?thesis using r2t_class.on_wire [of p t b n r ses] simple itt by auto
  next
    case 4 then show ?thesis using nop_class.on_wire [of p r ses] simple itt assms(2) by auto
  next
    case 5 then show ?thesis using response_class.on_wire [OF 5 assms(3), of ses] reply_shapes(1) [OF 5] itt by auto
  next
    case 6 then show ?thesis using text_class.on_wire [OF 6, of ses] reply_shapes(2) [OF 6] itt assms(4) by auto
  next
    case 7 then show ?thesis using login_class.on_wire [OF 7, of ses] reply_shapes(3) [OF 7] itt by auto
  qed
qed

theorem replies_on_wire_witness:
  "\<exists>blob. reply_get (nop_in_set \<lparr>pdu_bytes = replicate 48 7, pdu_data = Some [1, 2, 3]\<rparr>) (session_new [] [] [] True) =
      Inr ([blob], session_new [] [] [] True) \<and> length blob mod 4 = 0 \<and> read_pdu False blob = (0x20, 0x07070707, [1, 2, 3])"
proof -
  define p where "p = \<lparr>pdu_bytes = replicate 48 (7 :: byte), pdu_data = Some [1, 2, 3 :: byte]\<rparr>"
  have "reply_data (nop_in_set p) = [1, 2, 3]" "\<exists>h d. nop_in_set p = Nop_in h d"
    by (simp_all add: nop_in_set_def Let_def get_data_def p_def)
  moreover have "get_Itasktag bhs_l p = 0x07070707"
    by (simp add: get_Itasktag_def get32_def p_def ld32_def)
  ultimately show ?thesis
    using replies_on_wire [of "nop_in_set p" p 0 0 0 "[]" None None "session_new [] [] [] True"
        "\<lparr>clock = [], sys = [], entropy = [], machine_id = None\<rparr>"]
    unfolding p_def [symmetric] by (auto simp: p_def get_header_digest_def session_new_def)
qed

end
