(* ===== verification/Server_Receive.thy ===== *)
theory Server_Receive
  imports Server Iscsi_Wire Scsi_Write
begin

text \<open>
  Receiving requests: \<open>receive_pdu\<close> takes exactly one PDU from the connection, for every combination of
  negotiated digests, and what becomes of a PDU whose digest is wrong.
\<close>

section \<open>Parts of a PDU\<close>

lemma cc_recv_append: "cc_rx cc = d @ rest \<Longrightarrow> length d = n \<Longrightarrow> cc_recv n cc = (Some d, cc\<lparr>cc_rx := rest\<rparr>)"
  by (auto simp: cc_recv_def)

lemma get_data_length_lt: "get_data_length p < 2 ^ 24"
proof -
  define w where "w = (push_bit 16 (ucast (get8 bhs_l ''datalenH'' (pdu_bytes p)))
     OR push_bit 8 (ucast (get8 bhs_l ''datalenM'' (pdu_bytes p)))
     OR ucast (get8 bhs_l ''datalenL'' (pdu_bytes p)) :: u32)"
  have "take_bit 24 w = w"
    unfolding w_def
    by (rule bit_word_eqI) (auto simp: bit_simps dest: bit_imp_le_length)
  then have "unat w = take_bit 24 (unat w)"
    by (metis unsigned_take_bit_eq)
  then have "unat w < 2 ^ 24" by (metis take_bit_nat_less_exp)
  then show ?thesis by (simp add: get_data_length_def w_def)
qed

lemma rx_digest_good:
  assumes "cc_rx (rx_cc r) = digest d @ rest"
  shows "rx_digest chk (fst (crc32_0x11EDC6F41 d None)) r =
    r\<lparr>rx_cc := (rx_cc r)\<lparr>cc_rx := rest\<rparr>, rx_is := count_rx 4 (rx_is r)\<rparr>"
  using assms by (simp add: rx_digest_def cc_recv_append digest_def ld32_le32_bytes)

text \<open>What a successful step of \<open>receive_pdu\<close> leaves as it was, and what it consumed.\<close>

definition rx_goes_on :: "pdu \<Rightarrow> byte list \<Rightarrow> rx_st \<Rightarrow> rx_st \<Rightarrow> bool" where
  "rx_goes_on p rest r r' \<longleftrightarrow> rx_pdu r' = p \<and> rx_ok r' = rx_ok r \<and> rx_err r' = rx_err r \<and>
     rx_cc r' = (rx_cc r)\<lparr>cc_rx := rest\<rparr> \<and> (\<exists>n. rx_ses r' = (rx_ses r)\<lparr>bytes_rx := n\<rparr>)"

lemma rx_data_good:
  assumes "get_opcode (rx_pdu r) \<noteq> o_login_req" and len: "get_data_length (rx_pdu r) = length d"
    and rx: "cc_rx (rx_cc r) = padded d @ (if get_data_digest (rx_ses r) \<and> d \<noteq> [] then digest (padded d) else []) @ rest"
  shows "\<exists>r'. rx_data chk True r = Inr r' \<and>
    rx_goes_on (if d = [] then rx_pdu r else (rx_pdu r)\<lparr>pdu_data := Some d\<rparr>) rest r r'"
proof (cases "d = []")
  case True
  then show ?thesis using rx len
    by (auto simp: rx_data_def rx_goes_on_def padded_def MAX_DATA_SEGMENT_SIZE_def intro: exI [of _ "bytes_rx (rx_ses r)"])
next
  case False
  have l: "length d < 2 ^ 24" using get_data_length_lt [of "rx_pdu r"] len by simp
  then have n: "\<not> length d > unat MAX_DATA_SEGMENT_SIZE" "\<not> length d > 16777215"
    by (simp_all add: MAX_DATA_SEGMENT_SIZE_def)
  define tail where "tail = (if get_data_digest (rx_ses r) then digest (padded d) else []) @ rest"
  have recv: "cc_recv (pad4 (length d)) (rx_cc r) = (Some (padded d), (rx_cc r)\<lparr>cc_rx := tail\<rparr>)"
    by (rule cc_recv_append) (use rx False in \<open>simp_all add: tail_def length_padded\<close>)
  have take: "take (length d) (padded d) = d" by (simp add: padded_def)
  define r1 where "r1 = r\<lparr>rx_cc := (rx_cc r)\<lparr>cc_rx := tail\<rparr>, rx_pdu := (rx_pdu r)\<lparr>pdu_data := Some d\<rparr>,
    rx_ses := add_bytes_rx (pad4 (length d)) (rx_ses r), rx_is := count_rx (pad4 (length d)) (rx_is r)\<rparr>"
  have step: "rx_data chk True r = Inr (if get_data_digest (rx_ses r)
      then rx_digest chk (if chk then fst (crc32_0x11EDC6F41 (padded d) None) else 0) r1 else r1)"
    using assms(1) False n take
    by (simp add: rx_data_def len recv pdu_set_data_def bhs_set_data_def r1_def add_bytes_rx_def get_data_digest_def Let_def)
  show ?thesis
  proof (cases "get_data_digest (rx_ses r)")
    case True
    have "cc_recv 4 (rx_cc r1) = (Some (digest (padded d)), (rx_cc r1)\<lparr>cc_rx := rest\<rparr>)"
      by (rule cc_recv_append) (simp_all add: r1_def tail_def True)
    then show ?thesis unfolding step using True False
      by (auto simp: rx_digest_def rx_goes_on_def r1_def add_bytes_rx_def digest_def ld32_le32_bytes)
  next
    case no: False
    then show ?thesis unfolding step using False
      by (auto simp: rx_goes_on_def r1_def add_bytes_rx_def tail_def)
  qed
qed

lemma receive_body_good:
  assumes "get_opcode (rx_pdu r) \<noteq> o_login_req" and "get_ahs_length (rx_pdu r) = 0"
    and len: "get_data_length (rx_pdu r) = length d" and "pdu_bytes (rx_pdu r) = h"
    and rx: "h @ cc_rx (rx_cc r) = assembled (rx_ses r) h d True @ rest"
  shows "\<exists>r'. receive_body chk r = Inr r' \<and>
    rx_goes_on (if d = [] then rx_pdu r else (rx_pdu r)\<lparr>pdu_data := Some d\<rparr>) rest r r'"
proof -
  define tail where "tail = padded d @ (if get_data_digest (rx_ses r) \<and> d \<noteq> [] then digest (padded d) else []) @ rest"
  have tl: "cc_rx (rx_cc r) = (if get_header_digest (rx_ses r) then digest h else []) @ tail"
    using rx by (auto simp: assembled_def tail_def)
  define is1 where "is1 = (if get_opcode (rx_pdu r) = o_logout_req
     then (rx_is r)\<lparr>iscsiTgtLogoutNormals := iscsiTgtLogoutNormals (rx_is r) + 1\<rparr> else rx_is r)"
  define r1 where "r1 = r\<lparr>rx_is := (if get_header_digest (rx_ses r) then count_rx 4 is1 else is1),
    rx_cc := (rx_cc r)\<lparr>cc_rx := tail\<rparr>\<rparr>"
  have "receive_body chk r = rx_data chk True r1"
  proof (cases "get_header_digest (rx_ses r)")
    case True
    then have "rx_digest chk (fst (crc32_0x11EDC6F41 h None)) (r\<lparr>rx_is := is1\<rparr>) = r1"
      using tl by (simp add: rx_digest_good r1_def)
    then show ?thesis using assms(1,2,4) True
      by (auto simp: receive_body_def rx_ahs_def is1_def Let_def)
  next
    case False
    then have "r\<lparr>rx_is := is1\<rparr> = r1" using tl by (simp add: r1_def)
    then show ?thesis using assms(1,2,4) False
      by (auto simp: receive_body_def rx_ahs_def is1_def Let_def)
  qed
  moreover have "\<exists>r'. rx_data chk True r1 = Inr r' \<and>
      rx_goes_on (if d = [] then rx_pdu r1 else (rx_pdu r1)\<lparr>pdu_data := Some d\<rparr>) rest r1 r'"
    by (rule rx_data_good) (use assms(1) len in \<open>simp_all add: r1_def tail_def\<close>)
  ultimately show ?thesis by (auto simp: rx_goes_on_def r1_def)
qed

section \<open>A whole PDU\<close>

text \<open>A request as it was sent: 48 header bytes and the data segment.\<close>

definition request :: "byte list \<Rightarrow> byte list \<Rightarrow> pdu" where
  "request h d = \<lparr>pdu_bytes = h, pdu_data = (if d = [] then None else Some d)\<rparr>"

lemma request_sel [simp]:
  "pdu_bytes (request h d) = h" "get_opcode (request h d) = get_bits (h ! 0) 0 6"
  "get_ahs_length (request h d) = unat (h ! 4) * 4" "get_data_length (request h d) = datalen_of h"
  by (simp_all add: request_def get_opcode_def get_ahs_length_def get_data_length_def datalen_of_def get8_def)

lemma request_data: "d \<noteq> [] \<Longrightarrow> (request h [])\<lparr>pdu_data := Some d\<rparr> = request h d"
  by (simp add: request_def)

lemma receive_framed:
  assumes "start_session ops sv = ses" and "length h = 48" and "get_opcode (request h d) \<noteq> o_login_req"
    and "get_ahs_length (request h d) = 0" and "get_data_length (request h d) = length d"
    and "cc_rx (sv_cc sv) = assembled ses h d True @ rest"
  shows "\<exists>t sv' n. receive_pdu ops sv =
      Inr (Some (request h d), if get_opcode (request h d) \<in> set known_opcodes then IFR_OK else IFR_INVALID_COMMAND, t, sv') \<and>
    sv_cc sv' = (sv_cc sv)\<lparr>cc_rx := rest\<rparr> \<and> sv_ses sv' = Some (ses\<lparr>bytes_rx := n\<rparr>) \<and>
    sv_s sv' = snd (sc_micros (sv_s sv))"
proof -
  define body where "body = drop 48 (cc_rx (sv_cc sv))"
  have split: "cc_rx (sv_cc sv) = h @ body"
    using assms(2,6) by (simp add: body_def assembled_def)
  then have recv: "cc_recv 48 (sv_cc sv) = (Some h, (sv_cc sv)\<lparr>cc_rx := body\<rparr>)"
    using assms(2) by (intro cc_recv_append) simp_all
  define r where "r = \<lparr>rx_pdu = request h [], rx_ok = True,
    rx_err = (if get_opcode (request h []) \<in> set known_opcodes then IFR_OK else IFR_INVALID_COMMAND),
    rx_ses = add_bytes_rx 48 ses, rx_cc = (sv_cc sv)\<lparr>cc_rx := body\<rparr>, rx_is = count_rx 48 (sv_is sv)\<rparr>"
  have "assembled (add_bytes_rx 48 ses) h d True = assembled ses h d True"
    by (simp add: assembled_def add_bytes_rx_def get_header_digest_def get_data_digest_def)
  then obtain r' where r': "receive_body (digest_chk sv) r = Inr r'"
      "rx_goes_on (if d = [] then rx_pdu r else (rx_pdu r)\<lparr>pdu_data := Some d\<rparr>) rest r r'"
    using receive_body_good [of r d h rest "digest_chk sv"] assms(2-6) split by (auto simp: r_def)
  have bs: "bhs_set h pdu_new = Some (request h [])" using assms(2) by (simp add: bhs_set_def pdu_new_def request_def)
  obtain t s where t: "sc_micros (sv_s sv) = (t, s)" by (cases "sc_micros (sv_s sv)")
  have "receive_pdu ops sv = Inr (Some (rx_pdu r'), rx_err r', t,
      sv\<lparr>sv_s := s, sv_ses := Some (rx_ses r'), sv_cc := rx_cc r', sv_is := rx_is r'\<rparr>)"
    using r' unfolding receive_pdu_def assms(1) Let_def recv option.case prod.case t bs r_def [symmetric]
    by (simp add: rx_goes_on_def r_def)
  then show ?thesis
    using r'(2) t by (cases "d = []") (auto simp: rx_goes_on_def r_def request_data add_bytes_rx_def)
qed

text \<open>
  C5: a request without additional header segments that the initiator put on the connection with the
  negotiated digests is received as exactly its header and data, whether or not digests are checked;
  exactly its bytes are consumed, so the next PDU starts where it should; nothing else changes but the
  counters and the clock. An operation code the target does not know is reported as such, with the PDU.
\<close>

theorem receive_pdu_framing:
  assumes "sv_ses sv = Some ses" and "length h = 48" and "get_opcode (request h d) \<noteq> o_login_req"
    and "get_ahs_length (request h d) = 0" and "get_data_length (request h d) = length d"
    and "cc_rx (sv_cc sv) = assembled ses h d True @ rest"
  shows "\<exists>t sv' n. receive_pdu ops sv =
      Inr (Some (request h d), if get_opcode (request h d) \<in> set known_opcodes then IFR_OK else IFR_INVALID_COMMAND, t, sv') \<and>
    sv_cc sv' = (sv_cc sv)\<lparr>cc_rx := rest\<rparr> \<and> sv_ses sv' = Some (ses\<lparr>bytes_rx := n\<rparr>) \<and>
    sv_s sv' = snd (sc_micros (sv_s sv))"
  by (rule receive_framed) (use assms in \<open>simp_all add: start_session_def\<close>)

text \<open>A server on the example file, with a session that negotiated both digests.\<close>

definition example_session :: session where
  "example_session = (set_block_size 4096 (session_new [] [] [] True))\<lparr>header_digest := True, data_digest := True\<rparr>"

definition example_server :: "byte list \<Rightarrow> backend_file server" where
  "example_server rx = \<lparr>sv_s = example_scsi,
     sv_cc = \<lparr>cc_rx = rx, cc_tx = [], cc_send_ok = [], cc_local_address = [], cc_endpoint_name = []\<rparr>,
     sv_is = \<lparr>iscsiSsnCmdPDUs = 0, iscsiInstSsnFailures = 0, iscsiInstSsnFormatErrors = 0, iscsiInstSsnDigestErrors = 0,
       iscsiSsnTxDataOctets = 0, iscsiSsnRxDataOctets = 0, iscsiTgtLoginAccepts = 0, iscsiTgtLogoutNormals = 0\<rparr>,
     sv_target_name = [], digest_chk = True, sv_ses = Some example_session\<rparr>"

lemma example_server_sel [simp]:
  "sv_s (example_server rx) = example_scsi" "sv_ses (example_server rx) = Some example_session"
  "cc_rx (sv_cc (example_server rx)) = rx" "digest_chk (example_server rx)"
  "cc_send_ok (sv_cc (example_server rx)) = []" "cc_tx (sv_cc (example_server rx)) = []"
  by (simp_all add: example_server_def)

lemma example_session_sel [simp]:
  "get_header_digest example_session" "get_data_digest example_session"
  "ses_block_size example_session = 4096" "max_seg_len example_session = MAX_DATA_SEGMENT_SIZE"
  "r2t_sessions example_session = (\<lambda>_. None)"
  by (simp_all add: example_session_def session_new_def set_block_size_def get_header_digest_def get_data_digest_def)

definition example_nop_out :: "byte list" where
  "example_nop_out = [0x40, 0x80, 0, 0, 0, 0, 0, 5] @ replicate 40 0"

theorem receive_pdu_framing_witness:
  "\<exists>t sv' n. receive_pdu file_ops (example_server (assembled example_session example_nop_out [1, 2, 3, 4, 5] True @ [9])) =
      Inr (Some (request example_nop_out [1, 2, 3, 4, 5]), IFR_OK, t, sv') \<and> cc_rx (sv_cc sv') = [9] \<and>
    sv_ses sv' = Some (example_session\<lparr>bytes_rx := n\<rparr>)"
proof -
  let ?sv = "example_server (assembled example_session example_nop_out [1, 2, 3, 4, 5] True @ [9])"
  have "get_opcode (request example_nop_out [1, 2, 3, 4, 5]) = 0"
    "get_ahs_length (request example_nop_out [1, 2, 3, 4, 5]) = 0"
    "get_data_length (request example_nop_out [1, 2, 3, 4, 5]) = 5" "length example_nop_out = 48"
    by (simp_all add: example_nop_out_def get_bits_def datalen_of_def)
  then show ?thesis
    using receive_pdu_framing [of ?sv example_session example_nop_out "[1, 2, 3, 4, 5]" "[9]" file_ops]
    by (auto simp: known_opcodes_def)
qed

section \<open>Wrong digests\<close>

lemma le32_bytes_ld32: "length d = 4 \<Longrightarrow> le32_bytes (ld32 0 d) = d"
proof -
  assume "length d = 4"
  then obtain a b c e where d: "d = [a, b, c, e]" by (auto simp: length_Suc_conv numeral_eq_Suc)
  show ?thesis unfolding d le32_bytes_def ld32_def
    by (simp, intro conjI; rule bit_word_eqI) (auto simp: bit_simps bit_byte_high)
qed

lemma receive_bad_digest:
  assumes "sv_ses sv = Some ses" and "get_header_digest ses" and "digest_chk sv" and "length h = 48"
    and "get_opcode (request h []) \<noteq> o_login_req" and "get_ahs_length (request h []) = 0"
    and "get_data_length (request h []) = 0"
    and "cc_rx (sv_cc sv) = h @ dg @ rest" and "length dg = 4" and "dg \<noteq> digest h"
  shows "\<exists>t sv'. receive_pdu ops sv = Inr (None, IFR_DIGEST, t, sv') \<and> sv_ses sv' \<noteq> None"
proof -
  have recv: "cc_recv 48 (sv_cc sv) = (Some h, (sv_cc sv)\<lparr>cc_rx := dg @ rest\<rparr>)"
    using assms(4,8) by (intro cc_recv_append) simp_all
  have recv4: "cc_recv 4 ((sv_cc sv)\<lparr>cc_rx := dg @ rest\<rparr>) = (Some dg, (sv_cc sv)\<lparr>cc_rx := rest\<rparr>)"
    using cc_recv_append [of "(sv_cc sv)\<lparr>cc_rx := dg @ rest\<rparr>" dg rest 4] assms(9) by simp
  have crc: "ld32 0 dg \<noteq> fst (crc32_0x11EDC6F41 h None)"
    using le32_bytes_ld32 [OF assms(9)] assms(10) by (auto simp: digest_def)
  have bs: "bhs_set h pdu_new = Some (request h [])" using assms(4) by (simp add: bhs_set_def pdu_new_def request_def)
  have gd: "get_header_digest (add_bytes_rx 48 ses)"
    using assms(2) by (simp add: add_bytes_rx_def get_header_digest_def)
  obtain t s where t: "sc_micros (sv_s sv) = (t, s)" by (cases "sc_micros (sv_s sv)")
  show ?thesis
    using assms(3,5,6,7) crc unfolding receive_pdu_def start_session_def assms(1) option.case Let_def recv prod.case t bs
    by (auto simp: receive_body_def rx_ahs_def Let_def gd rx_digest_def recv4 rx_data_def)
qed

text \<open>
  A request whose header digest does not match what was received is never processed, and the
  failure takes the whole target down: there is no PDU to reject, so the handler asks an empty
  optional for its value and the exception ends the process.
\<close>

theorem digest_mismatch_terminates:
  assumes "sv_ses (h_sv st) = Some ses" and "get_header_digest ses" and "digest_chk (h_sv st)" and "length h = 48"
    and "get_opcode (request h []) \<noteq> o_login_req" and "get_ahs_length (request h []) = 0"
    and "get_data_length (request h []) = 0"
    and "cc_rx (sv_cc (h_sv st)) = h @ dg @ rest" and "length dg = 4" and "dg \<noteq> digest h"
  shows "(\<exists>t sv'. receive_pdu ops (h_sv st) = Inr (None, IFR_DIGEST, t, sv')) \<and>
    handler_round fuel ops tid st = Inl (Uncaught ''std::bad_optional_access'')"
proof -
  obtain t sv' ses' where r: "receive_pdu ops (h_sv st) = Inr (None, IFR_DIGEST, t, sv')" "sv_ses sv' = Some ses'"
    using receive_bad_digest [OF assms, of ops] by auto
  then show ?thesis by (simp add: handler_round_def handler_reject_def reject_blob_def Let_def)
qed

theorem digest_mismatch_terminates_witness:
  "handler_round 0 file_ops 0 \<lparr>h_sv = example_server (replicate 48 0 @ [0, 0, 0, 0]), h_ok = True, h_fail_counter = 0,
     h_busy = 0, h_prev_output = 0\<rparr> = Inl (Uncaught ''std::bad_optional_access'')"
proof -
  define st where "st = \<lparr>h_sv = example_server (replicate 48 0 @ [0, 0, 0, 0]), h_ok = True, h_fail_counter = 0,
     h_busy = 0, h_prev_output = 0\<rparr>"
  have "fst (crc32_0x11EDC6F41 (replicate 48 0) None) \<noteq> 0"
    by code_simp
  moreover have "ld32 0 [0, 0, 0, 0] = 0" by (simp add: ld32_def)
  ultimately have "[0, 0, 0, 0] \<noteq> digest (replicate 48 0)"
    unfolding digest_def by (metis ld32_le32_bytes)
  then show ?thesis
    using digest_mismatch_terminates [of st example_session "replicate 48 0" "[0, 0, 0, 0]" "[]" file_ops 0 0]
    unfolding st_def [symmetric] by (simp add: st_def get_bits_def datalen_of_def)
qed

end
