(* ===== verification/Server_System.thy ===== *)
theory Server_System
  imports Server_Connection Server_Receive
begin

text \<open>
  Several connections at once: each has a thread of its own, and all share the SCSI layer with its
  reservation and backend. A step is one round of one connection's loop, the start of a connection or its
  end, in any order; the requests of different connections interleave between rounds.
\<close>

section \<open>Connections that share a device\<close>

text \<open>
  The shared objects, and the loop of every thread that is running, by thread id. In \<open>sy_s\<close> only the
  statistics belong to the connection that used it last.
\<close>

record 'b system =
  sy_s :: "'b scsi_st"
  sy_is :: iscsi_stats_t
  sy_target_name :: string
  sy_digest_chk :: bool
  sy_conns :: "nat \<Rightarrow> 'b handler_st option"

definition system_start :: "'b scsi_st \<Rightarrow> iscsi_stats_t \<Rightarrow> string \<Rightarrow> bool \<Rightarrow> 'b system" where
  "system_start s is tname chk =
     \<lparr>sy_s = s, sy_is = is, sy_target_name = tname, sy_digest_chk = chk, sy_conns = (\<lambda>_. None)\<rparr>"

text \<open>What a thread sees when it runs: the shared objects as they are now, and its own statistics.\<close>

definition attach :: "'b system \<Rightarrow> 'b handler_st \<Rightarrow> 'b handler_st" where
  "attach y h = h\<lparr>h_sv := (h_sv h)\<lparr>sv_s := (sy_s y)\<lparr>sc_is := sc_is (sv_s (h_sv h))\<rparr>, sv_is := sy_is y\<rparr>\<rparr>"

definition publish :: "nat \<Rightarrow> 'b handler_st \<Rightarrow> 'b system \<Rightarrow> 'b system" where
  "publish tid h y = y\<lparr>sy_s := sv_s (h_sv h), sy_is := sv_is (h_sv h), sy_conns := (sy_conns y)(tid \<mapsto> h)\<rparr>"

text \<open>The variables of a new thread, for the connection \<open>cc\<close>.\<close>

definition new_thread :: "com_client \<Rightarrow> 'b system \<Rightarrow> 'b handler_st" where
  "new_thread cc y =
     (let (now, s) = get_millis ((sy_s y)\<lparr>sc_is := io_stats_reset\<rparr>)
      in \<lparr>h_sv = \<lparr>sv_s = s, sv_cc = cc, sv_is = sy_is y, sv_target_name = sy_target_name y,
             digest_chk = sy_digest_chk y, sv_ses = None\<rparr>,
           h_ok = True, h_fail_counter = 0, h_busy = 0, h_prev_output = now\<rparr>)"

inductive sys_step :: "'b backend_ops \<Rightarrow> nat \<Rightarrow> 'b system \<Rightarrow> 'b system \<Rightarrow> bool" for ops where
  connect: "sy_conns y tid = None \<Longrightarrow> sys_step ops tid y (publish tid (new_thread cc y) y)"
| serve: "sy_conns y tid = Some h \<Longrightarrow> h_ok h \<Longrightarrow> handler_round fuel ops tid (attach y h) = Inr h' \<Longrightarrow>
    sys_step ops tid y (publish tid h' y)"
| finish: "sy_conns y tid = Some h \<Longrightarrow> \<not> h_ok h \<Longrightarrow> handler_finish ops tid (h_sv (attach y h)) = Inr sv \<Longrightarrow>
    sys_step ops tid y (y\<lparr>sy_s := sv_s sv, sy_is := sv_is sv, sy_conns := (sy_conns y)(tid := None)\<rparr>)"

text \<open>Any number of steps of the threads in \<open>T\<close>.\<close>

inductive sys_run :: "'b backend_ops \<Rightarrow> nat set \<Rightarrow> 'b system \<Rightarrow> 'b system \<Rightarrow> bool" for ops T y where
  none: "sys_run ops T y y"
| more: "sys_run ops T y z \<Longrightarrow> tid \<in> T \<Longrightarrow> sys_step ops tid z z' \<Longrightarrow> sys_run ops T y z'"

inductive_cases sys_stepE: "sys_step ops tid y y'"

section \<open>Every step keeps what the accesses keep\<close>

context access_invariant
begin

lemma keep_sys_step:
  assumes "sys_step ops tid y y'" and "P (sy_s y)"
  shows "P (sy_s y')"
  using assms(1)
proof (cases rule: sys_step.cases)
  case (connect cc)
  then show ?thesis
    using assms(2) keep_millis [of "(sy_s y)\<lparr>sc_is := io_stats_reset\<rparr>"]
    by (auto simp: publish_def new_thread_def keep_is split: prod.split)
next
  case (serve h fuel h')
  have "P (sv_s (h_sv (attach y h)))" using assms(2) by (simp add: attach_def keep_is)
  then show ?thesis using keep_handler_round [OF _ serve(4)] serve(1) by (simp add: publish_def)
next
  case (finish h sv)
  have "P (sv_s (h_sv (attach y h)))" using assms(2) by (simp add: attach_def keep_is)
  then show ?thesis using keep_handler_finish [OF _ finish(4)] finish(1) by simp
qed

end

section \<open>A RESERVE command\<close>

text \<open>The round that serves a RESERVE(6) when the device is free or already reserved by this connection.\<close>

lemma reserve_round:
  assumes "start_session ops (h_sv h) = ses" and "length head = 48" and "get_bits (head ! 0) 0 6 = 1"
    and "head ! 4 = 0" and "datalen_of head = 0" and "get_CDB (request head []) ! 0 = 0x16"
    and "cc_rx (sv_cc (h_sv h)) = assembled ses head [] True @ rest" and "cc_send_ok (sv_cc (h_sv h)) = []"
    and "locked_by (sv_s (h_sv h)) \<in> {None, Some tid}"
  shows "\<exists>h'. handler_round fuel ops tid h = Inr h' \<and> locked_by (sv_s (h_sv h')) = Some tid \<and>
    sc_b (sv_s (h_sv h')) = sc_b (sv_s (h_sv h)) \<and> h_ok h' = h_ok h"
proof -
  let ?p = "request head []"
  obtain t sv n where r: "receive_pdu ops (h_sv h) = Inr (Some ?p, IFR_OK, t, sv)"
    "sv_cc sv = (sv_cc (h_sv h))\<lparr>cc_rx := rest\<rparr>" "sv_ses sv = Some (ses\<lparr>bytes_rx := n\<rparr>)"
    "sv_s sv = snd (sc_micros (sv_s (h_sv h)))"
    using receive_framed [OF assms(1,2), of "[]" rest] assms(3-5,7) by (auto simp: known_opcodes_def)
  have s: "locked_by (sv_s sv) \<in> {None, Some tid}" "sc_b (sv_s sv) = sc_b (sv_s (h_sv h))"
    using assms(9) r(4) by (simp_all add: sc_micros_def split: prod.split)
  define resp where "resp = (scsi_response_new ir_as_is)\<lparr>r_type := ir_empty_sense\<rparr>"
  have send: "send ops tid lun (get_CDB ?p) d (sv_s sv) = Inr (resp, (sv_s sv)\<lparr>locked_by := Some tid\<rparr>)" for lun d
    using s(1) by (auto simp: send_def assms(6) reserve_cmd_def reserve_device_def resp_def Let_def)
  obtain hdr where hdr: "scsi_response_set ?p [] None None = Some (Scsi_response hdr [])"
    by (simp add: scsi_response_set_def Let_def)
  have respond: "cmd_respond ?p resp (ses\<lparr>bytes_rx := n\<rparr>) e = (Some \<lparr>responses = [Scsi_response hdr []], to_stream = None\<rparr>, ses\<lparr>bytes_rx := n\<rparr>, e)" for e
    by (simp add: cmd_respond_def resp_def scsi_response_new_def hdr Let_def error_reservation_conflict_1_def)
  define s1 where "s1 = (sv_s sv)\<lparr>locked_by := Some tid\<rparr>"
  have gr: "get_response ops tid ?p (ses\<lparr>bytes_rx := n\<rparr>) (sv_s sv) =
      Inr (Some \<lparr>responses = [Scsi_response hdr []], to_stream = None\<rparr>, ses\<lparr>bytes_rx := n\<rparr>, s1)"
    using assms(3) by (simp add: get_response_def cmd_get_response_def send respond s1_def Let_def)
  define sv1 where "sv1 = sv\<lparr>sv_is := (sv_is sv)\<lparr>iscsiSsnCmdPDUs := iscsiSsnCmdPDUs (sv_is sv) + 1\<rparr>\<rparr>"
  have "\<exists>sv2. push_response fuel ops tid (ses\<lparr>bytes_rx := n\<rparr>) ?p sv1 = Inr (IFR_OK, sv2) \<and> sv_s sv2 = s1"
    using assms(3,8) by (simp add: push_response_def sv1_def gr reply_get_def cc_send_def r(2) Let_def)
  then obtain sv2 where push: "push_response fuel ops tid (ses\<lparr>bytes_rx := n\<rparr>) ?p sv1 = Inr (IFR_OK, sv2)" "sv_s sv2 = s1"
    by blast
  have ses1: "sv_ses sv1 = Some (ses\<lparr>bytes_rx := n\<rparr>)" using r(3) by (simp add: sv1_def)
  have round: "handler_round fuel ops tid h = Inr (handler_clock t (handler_errors IFR_OK (h\<lparr>h_sv := sv2\<rparr>)))"
    using push(1) ses1 unfolding handler_round_def r(1) bindR_simps prod.case sv1_def [symmetric] Let_def by simp
  have clock: "locked_by (sv_s (h_sv (handler_clock t h0))) = locked_by (sv_s (h_sv h0))"
    "sc_b (sv_s (h_sv (handler_clock t h0))) = sc_b (sv_s (h_sv h0))" "h_ok (handler_clock t h0) = h_ok h0" for h0 :: "'a handler_st"
    by (simp_all add: handler_clock_def get_millis_def sc_micros_def Let_def split: prod.split)
  show ?thesis
    unfolding round using push(2) s(2) by (simp add: clock handler_errors_def s1_def)
qed

section \<open>The reservation\<close>

lemma finish_releases:
  assumes "handler_finish ops tid sv = Inr sv'"
  shows "locked_by (sv_s sv') \<noteq> Some tid"
  using assms
  by (auto simp: handler_finish_def bindR_Inr_iff locking_status_def unlock_device_def split: if_splits option.splits)

text \<open>The holder of the reservation is a thread that is running.\<close>

definition owner_served :: "'b system \<Rightarrow> bool" where
  "owner_served y \<longleftrightarrow> (case locked_by (sy_s y) of None \<Rightarrow> True | Some t \<Rightarrow> sy_conns y t \<noteq> None)"

lemma owner_served_step:
  assumes "sys_step ops tid y y'" and "owner_served y"
  shows "owner_served y'"
proof -
  have "own_reservation (locked_by (sy_s y)) tid (sy_s y')"
    using own.keep_sys_step [OF assms(1)] by (simp add: own_reservation_def)
  then have l: "locked_by (sy_s y') \<in> {locked_by (sy_s y), None, Some tid}" by (simp add: own_reservation_def)
  show ?thesis
    using assms(1)
  proof (cases rule: sys_step.cases)
    case (finish h sv)
    then have "locked_by (sy_s y') \<noteq> Some tid" using finish_releases [OF finish(4)] by simp
    then show ?thesis using l assms(2) finish(1) by (auto simp: owner_served_def split: option.splits)
  qed (use l assms(2) in \<open>auto simp: owner_served_def publish_def split: option.splits\<close>)
qed

text \<open>
  C9: at any moment, however the connections interleave, the reservation is free or belongs to a thread
  that still serves its connection: a connection that ends, for whatever reason, does not leave the
  device reserved.
\<close>

theorem reservation_owner_served:
  assumes "sys_run ops T (system_start s is tname chk) y" and "locked_by s = None"
  shows "case locked_by (sy_s y) of None \<Rightarrow> True | Some t \<Rightarrow> sy_conns y t \<noteq> None"
proof -
  have "owner_served y"
    using assms(1)
  proof induction
    case none
    then show ?case using assms(2) by (simp add: owner_served_def system_start_def)
  next
    case (more z tid z')
    then show ?case by (blast intro: owner_served_step)
  qed
  then show ?thesis by (simp add: owner_served_def)
qed


section \<open>An example\<close>

definition example_system :: "backend_file system" where
  "example_system = system_start example_scsi example_is [] True"

definition example_reserve :: "byte list" where
  "example_reserve = [1, 0x80] @ replicate 30 0 @ 0x16 # replicate 15 0"

text \<open>Thread 1 serves a connection that reserves the device.\<close>

lemma example_reserved:
  "\<exists>y. sys_run file_ops {1} example_system y \<and> locked_by (sy_s y) = Some 1 \<and> sy_conns y 0 = None"
proof -
  define h where "h = new_thread (example_client example_reserve) example_system"
  define y1 where "y1 = publish 1 h example_system"
  have y1: "sys_run file_ops {1} example_system y1"
    unfolding y1_def h_def by (rule sys_run.more [OF sys_run.none, where tid = 1], simp, rule connect) (simp add: example_system_def system_start_def)
  have c: "sy_conns y1 1 = Some h" "h_ok h" "sy_conns y1 0 = None"
    by (simp_all add: y1_def publish_def h_def new_thread_def get_millis_def sc_micros_def get_micros_def example_system_def
        system_start_def example_env_def Let_def)
  let ?h = "attach y1 h"
  have h: "sv_cc (h_sv ?h) = example_client example_reserve" "locked_by (sv_s (h_sv ?h)) = None" "sv_ses (h_sv ?h) = None"
    by (simp_all add: attach_def y1_def publish_def h_def new_thread_def get_millis_def sc_micros_def get_micros_def
        example_system_def system_start_def example_env_def Let_def)
  have "get_header_digest (start_session file_ops (h_sv ?h)) = False"
    by (simp add: start_session_def h session_new_def set_block_size_def get_header_digest_def)
  then have a: "assembled (start_session file_ops (h_sv ?h)) example_reserve [] True @ [] = example_reserve"
    by (simp add: assembled_def padded_def)
  have e: "length example_reserve = 48" "get_bits (example_reserve ! 0) 0 6 = 1" "example_reserve ! 4 = 0"
    "datalen_of example_reserve = 0" "get_CDB (request example_reserve []) ! 0 = 0x16"
    by code_simp+
  have "\<exists>h'. handler_round 0 file_ops 1 ?h = Inr h' \<and> locked_by (sv_s (h_sv h')) = Some 1 \<and>
      sc_b (sv_s (h_sv h')) = sc_b (sv_s (h_sv ?h)) \<and> h_ok h' = h_ok ?h"
    by (rule reserve_round [OF refl, where head = example_reserve and rest = "[]"])
      (simp_all only: a e h, simp_all add: example_client_def)
  then obtain h' where h': "handler_round 0 file_ops 1 ?h = Inr h'" "locked_by (sv_s (h_sv h')) = Some 1" by blast
  have "sys_run file_ops {1} example_system (publish 1 h' y1)"
    by (rule sys_run.more [OF y1, where tid = 1]) (simp, rule serve [OF c(1,2) h'(1)])
  then show ?thesis using h'(2) c(3) by (intro exI [of _ "publish 1 h' y1"]) (simp add: publish_def)
qed

theorem reservation_owner_served_witness:
  "\<exists>y. sys_run file_ops {1} example_system y \<and> locked_by (sy_s y) = Some 1 \<and> sy_conns y 1 \<noteq> None"
proof -
  obtain y where y: "sys_run file_ops {1} example_system y" "locked_by (sy_s y) = Some 1"
    using example_reserved by blast
  have "case locked_by (sy_s y) of None \<Rightarrow> True | Some t \<Rightarrow> sy_conns y t \<noteq> None"
    by (rule reservation_owner_served [OF y(1) [unfolded example_system_def] example_scsi_sel(2)])
  then show ?thesis using y by auto
qed


end
