(* ===== verification/Com_Sockets.thy ===== *)
theory Com_Sockets
  imports Server Backend_Nbd "HOL-Library.Multiset"
begin

text \<open>
  The sockets of \<^verbatim>\<open>com-sockets.cpp\<close>: listening (\<open>com_sockets\<close>), one connection
  (\<open>com_client_sockets\<close>), and the loop of \<open>server::handler\<close> that accepts connections and keeps track of
  their threads. The system calls are parameters of the model. The connection that the rest of the
  development works with, \<open>cc_recv\<close> and \<open>cc_send\<close>, is the specification that the socket loops are
  shown to implement.
\<close>

section \<open>System calls\<close>

text \<open>
  The calls over a state \<open>'w\<close> of the outside world, besides those of \<open>nbd_net\<close>. \<open>poll\<close> waits up to
  100 ms for one descriptor to become readable. \<open>stop\<close> is the flag that the signal handler sets.
  Socket addresses are opaque bytes; \<open>getnameinfo\<close> gives host and service.
\<close>

record 'w sock_net =
  sk_io :: "'w nbd_net"
  sk_reuse_addr :: "int \<Rightarrow> 'w \<Rightarrow> bool \<times> 'w"
  sk_fastopen :: "int \<Rightarrow> 'w \<Rightarrow> bool \<times> 'w"
  sk_nodelay :: "int \<Rightarrow> 'w \<Rightarrow> bool \<times> 'w"
  sk_inet_aton :: "string \<Rightarrow> u32 option"
  sk_bind :: "int \<Rightarrow> u32 \<Rightarrow> u16 \<Rightarrow> 'w \<Rightarrow> bool \<times> 'w"
  sk_listen :: "int \<Rightarrow> nat \<Rightarrow> 'w \<Rightarrow> bool \<times> 'w"
  sk_accept :: "int \<Rightarrow> 'w \<Rightarrow> int \<times> 'w"
  sk_poll :: "int \<Rightarrow> 'w \<Rightarrow> int \<times> 'w"
  sk_stop :: "'w \<Rightarrow> bool"
  sk_getpeername :: "int \<Rightarrow> 'w \<Rightarrow> byte list option"
  sk_getsockname :: "int \<Rightarrow> 'w \<Rightarrow> byte list option"
  sk_getnameinfo :: "byte list \<Rightarrow> string \<times> string"

section \<open>Listening\<close>

record com_sockets =
  listen_ip :: string
  listen_port :: int
  listen_fd :: int

definition com_sockets_new :: "string \<Rightarrow> int \<Rightarrow> com_sockets" where
  "com_sockets_new ip port = \<lparr>listen_ip = ip, listen_port = port, listen_fd = -1\<rparr>"

text \<open>\<open>sin_port\<close> has 16 bits, in network order. A failure leaves the socket open, for the destructor.\<close>

definition com_sockets_begin :: "'w sock_net \<Rightarrow> com_sockets \<Rightarrow> 'w \<Rightarrow> bool \<times> com_sockets \<times> 'w" where
  "com_sockets_begin net c w =
     (let (fd, w) = net_socket (sk_io net) w;
          c = c\<lparr>listen_fd := fd\<rparr>
      in if fd = -1 then (False, c, w)
         else case sk_reuse_addr net fd w of (ok, w) \<Rightarrow>
           if \<not> ok then (False, c, w)
           else case sk_fastopen net fd w of (ok, w) \<Rightarrow>
             if \<not> ok then (False, c, w)
             else case sk_inet_aton net (listen_ip c) of
               None \<Rightarrow> (False, c, w)
             | Some addr \<Rightarrow>
                 (case sk_bind net fd addr (my_HTONS (word_of_int (listen_port c))) w of (ok, w) \<Rightarrow>
                    if \<not> ok then (False, c, w)
                    else case sk_listen net fd 4 w of (ok, w) \<Rightarrow> (ok, c, w)))"

definition com_sockets_delete :: "'w sock_net \<Rightarrow> com_sockets \<Rightarrow> 'w \<Rightarrow> 'w" where
  "com_sockets_delete net c w = net_close (sk_io net) (listen_fd c) w"

text \<open>
  Waiting for a connection, \<open>fuel\<close> polls at most. The descriptor of the new connection, for which the
  constructor of \<open>com_client_sockets\<close> turns Nagle's algorithm off; a failure of that is only logged.
\<close>

definition socket_set_nodelay :: "'w sock_net \<Rightarrow> int \<Rightarrow> 'w \<Rightarrow> 'w" where
  "socket_set_nodelay net fd w = snd (sk_nodelay net fd w)"

definition com_client_sockets_new :: "'w sock_net \<Rightarrow> int \<Rightarrow> 'w \<Rightarrow> 'w" where
  "com_client_sockets_new net fd w = socket_set_nodelay net fd w"

fun com_sockets_accept :: "nat \<Rightarrow> 'w sock_net \<Rightarrow> com_sockets \<Rightarrow> 'w \<Rightarrow> (int option \<times> 'w) result" where
  "com_sockets_accept 0 net c w = Inl No_return"
| "com_sockets_accept (Suc fuel) net c w =
     (case sk_poll net (listen_fd c) w of (rc, w) \<Rightarrow>
        if rc = -1 then Inr (None, w)
        else if rc \<ge> 1 then
          (case sk_accept net (listen_fd c) w of (fd, w) \<Rightarrow>
             if fd = -1 then Inr (None, w) else Inr (Some fd, com_client_sockets_new net fd w))
        else if sk_stop net w then Inr (None, w)
        else com_sockets_accept fuel net c w)"

section \<open>One connection\<close>

definition sock_send :: "'w sock_net \<Rightarrow> int \<Rightarrow> byte list \<Rightarrow> 'w \<Rightarrow> bool \<times> 'w" where
  "sock_send net fd d w = WRITE (sk_io net) fd d w"

text \<open>
  \<open>recv\<close>: whether all of \<open>todo\<close> bytes came in, and the bytes put into the buffer; \<open>fuel\<close> polls at most.
  A \<open>read\<close> never gives more than it was asked for.
\<close>

fun sock_recv :: "nat \<Rightarrow> 'w sock_net \<Rightarrow> int \<Rightarrow> nat \<Rightarrow> 'w \<Rightarrow> (bool \<times> byte list \<times> 'w) result" where
  "sock_recv fuel net fd todo w =
     (if todo = 0 then Inr (True, [], w)
      else case fuel of
        0 \<Rightarrow> Inl No_return
      | Suc fuel \<Rightarrow>
          (case sk_poll net fd w of (rc, w) \<Rightarrow>
             if rc = -1 then Inr (False, [], w)
             else if sk_stop net w then Inr (False, [], w)
             else if rc \<ge> 1 then
               (case net_read (sk_io net) fd todo w of
                  (None, w) \<Rightarrow> Inr (False, [], w)
                | (Some d, w) \<Rightarrow>
                    if d = [] then Inr (False, [], w)
                    else
                      let d = take todo d
                      in bindR (sock_recv fuel net fd (todo - length d) w) (\<lambda>(ok, ds, w). Inr (ok, d @ ds, w)))
             else sock_recv fuel net fd todo w))"

declare sock_recv.simps [simp del]

text \<open>The textual form of an address; \<open>getnameinfo\<close> is taken to succeed.\<close>

definition convert_sockaddr_to_name :: "'w sock_net \<Rightarrow> byte list \<Rightarrow> string" where
  "convert_sockaddr_to_name net addr =
     (let (host, serv) = sk_getnameinfo net addr in ''['' @ host @ '']:'' @ serv)"

definition sock_get_endpoint_name :: "'w sock_net \<Rightarrow> int \<Rightarrow> 'w \<Rightarrow> string" where
  "sock_get_endpoint_name net fd w =
     (case sk_getpeername net fd w of None \<Rightarrow> ''?:?'' | Some addr \<Rightarrow> convert_sockaddr_to_name net addr)"

definition sock_get_local_address :: "'w sock_net \<Rightarrow> int \<Rightarrow> 'w \<Rightarrow> string" where
  "sock_get_local_address net fd w =
     (case sk_getsockname net fd w of None \<Rightarrow> ''?:?'' | Some addr \<Rightarrow> convert_sockaddr_to_name net addr)"

section \<open>The loop that accepts connections\<close>

text \<open>
  The threads of the server: a number for each, in the order of \<open>threads\<close>. Whether a thread has set
  its completion flag is part of the outside world: \<open>flag n w\<close>. \<open>th_started\<close> records the connection
  that each thread serves, the newest last; \<open>th_joined\<close> the threads that were joined and deleted.
\<close>

record threads_st =
  th_list :: "nat list"
  th_started :: "int list"
  th_joined :: "nat list"

text \<open>The finished threads are taken out in order, by index as in the code.\<close>

fun erase_finished :: "(nat \<Rightarrow> bool) \<Rightarrow> nat list \<Rightarrow> nat list \<times> nat list" where
  "erase_finished flag [] = ([], [])"
| "erase_finished flag (t # ts) =
     (let (keep, joined) = erase_finished flag ts
      in if flag t then (keep, t # joined) else (t # keep, joined))"

definition accept_round :: "nat \<Rightarrow> 'w sock_net \<Rightarrow> (nat \<Rightarrow> 'w \<Rightarrow> bool) \<Rightarrow> com_sockets \<Rightarrow> threads_st \<Rightarrow> 'w
    \<Rightarrow> (threads_st \<times> 'w) result" where
  "accept_round fuel net flag c ts w =
     bindR (com_sockets_accept fuel net c w) (\<lambda>(cc, w).
     case cc of
       None \<Rightarrow> Inr (ts, w)
     | Some fd \<Rightarrow>
         let (keep, joined) = erase_finished (\<lambda>t. flag t w) (th_list ts);
             t = length (th_started ts)
         in Inr (\<lparr>th_list = keep @ [t], th_started = th_started ts @ [fd], th_joined = th_joined ts @ joined\<rparr>, w))"

text \<open>
  \<open>while(!stop)\<close>, \<open>rounds\<close> connections or failures at most, and the final loop that joins every thread
  that is left: \<open>e.second\<close> is a pointer, and not null.
\<close>

fun accept_loop :: "nat \<Rightarrow> nat \<Rightarrow> 'w sock_net \<Rightarrow> (nat \<Rightarrow> 'w \<Rightarrow> bool) \<Rightarrow> com_sockets \<Rightarrow> threads_st \<Rightarrow> 'w
    \<Rightarrow> (threads_st \<times> 'w) result" where
  "accept_loop rounds fuel net flag c ts w =
     (if sk_stop net w then Inr (ts\<lparr>th_joined := th_joined ts @ th_list ts\<rparr>, w)
      else case rounds of
        0 \<Rightarrow> Inl No_return
      | Suc rounds \<Rightarrow> bindR (accept_round fuel net flag c ts w) (\<lambda>(ts, w). accept_loop rounds fuel net flag c ts w))"

declare accept_loop.simps [simp del]

section \<open>The sockets implement the connection\<close>

text \<open>
  The hypothesis on the outside world while a connection is up: \<open>rx w\<close> are the bytes the peer will still
  send, \<open>tx w\<close> those handed to the network so far. Data arrives and is taken in pieces of any size, the
  stop flag is not set, and at most \<open>k\<close> polls in a row time out.
\<close>

definition peer_delivers :: "'w sock_net \<Rightarrow> int \<Rightarrow> nat \<Rightarrow> ('w \<Rightarrow> bool) \<Rightarrow> ('w \<Rightarrow> byte list) \<Rightarrow> ('w \<Rightarrow> byte list) \<Rightarrow> ('w \<Rightarrow> nat) \<Rightarrow> bool" where
  "peer_delivers net fd k live rx tx wait \<longleftrightarrow>
     (\<forall>w. wait w \<le> k) \<and>
     (\<forall>w. live w \<longrightarrow> (\<exists>rc w'. sk_poll net fd w = (rc, w') \<and> 0 \<le> rc \<and> \<not> sk_stop net w' \<and> live w' \<and>
        rx w' = rx w \<and> tx w' = tx w \<and> (rc = 0 \<longrightarrow> wait w' < wait w))) \<and>
     (\<forall>w n. live w \<and> 0 < n \<longrightarrow> (\<exists>j w'. net_read (sk_io net) fd n w = (Some (take j (rx w)), w') \<and> 0 < j \<and> j \<le> n \<and>
        live w' \<and> rx w' = drop j (rx w) \<and> tx w' = tx w)) \<and>
     (\<forall>w d. live w \<and> d \<noteq> [] \<longrightarrow> (\<exists>j w'. net_write (sk_io net) fd d w = (int j, w') \<and> 0 < j \<and> j \<le> length d \<and>
        live w' \<and> rx w' = rx w \<and> tx w' = tx w @ take j d))"

text \<open>The connection \<open>cc\<close> of the specification stands for the state \<open>w\<close> of the world.\<close>

definition sock_rel :: "('w \<Rightarrow> bool) \<Rightarrow> ('w \<Rightarrow> byte list) \<Rightarrow> ('w \<Rightarrow> byte list) \<Rightarrow> 'w \<Rightarrow> com_client \<Rightarrow> bool" where
  "sock_rel live rx tx w cc \<longleftrightarrow> live w \<and> cc_rx cc = rx w \<and> concat (cc_tx cc) = tx w \<and> cc_send_ok cc = []"

lemma sock_recv_zero [simp]: "sock_recv fuel net fd 0 w = Inr (True, [], w)"
  by (simp add: sock_recv.simps)

lemma sock_recv_delivers:
  assumes "peer_delivers net fd k live rx tx wait" and "live w" and "n * (k + 1) + wait w \<le> fuel"
  shows "\<exists>w'. sock_recv fuel net fd n w = Inr (n \<le> length (rx w), take n (rx w), w') \<and>
    live w' \<and> rx w' = drop n (rx w) \<and> tx w' = tx w"
  using assms(2,3)
proof (induction fuel arbitrary: n w)
  case 0
  then have "n = 0" by simp
  then show ?case using 0 by simp
next
  case (Suc fuel)
  show ?case
  proof (cases "n = 0")
    case True
    then show ?thesis using Suc.prems by simp
  next
    case False
    obtain rc w1 where p: "sk_poll net fd w = (rc, w1)" "0 \<le> rc" "\<not> sk_stop net w1" "live w1" "rx w1 = rx w" "tx w1 = tx w"
      "rc = 0 \<longrightarrow> wait w1 < wait w"
      using assms(1) Suc.prems(1) unfolding peer_delivers_def by metis
    show ?thesis
    proof (cases "rc = 0")
      case True
      then have "n * (k + 1) + wait w1 \<le> fuel" using p(7) Suc.prems(2) by simp
      from Suc.IH [OF p(4) this] show ?thesis using False True p by (simp add: sock_recv.simps [of "Suc fuel"])
    next
      case rc: False
      obtain j w2 where r: "net_read (sk_io net) fd n w1 = (Some (take j (rx w)), w2)" "0 < j" "j \<le> n" "live w2"
        "rx w2 = drop j (rx w)" "tx w2 = tx w"
        using assms(1) p(4-6) False unfolding peer_delivers_def by (metis gr0I)
      show ?thesis
      proof (cases "rx w = []")
        case True
        then show ?thesis using False rc p r by (simp add: sock_recv.simps [of "Suc fuel"])
      next
        case rx: False
        define l where "l = length (take j (rx w))"
        have l: "0 < l" "l \<le> n" "l = min (length (rx w)) j" using rx r(2,3) by (auto simp: l_def)
        have "(n - l) * (k + 1) + (k + 1) \<le> n * (k + 1)"
        proof -
          have "(n - l) + 1 \<le> n" using l(1,2) by simp
          then have "((n - l) + 1) * (k + 1) \<le> n * (k + 1)" by (rule mult_le_mono1)
          then show ?thesis by (simp add: add_mult_distrib)
        qed
        moreover have "wait w2 \<le> k" using assms(1) by (simp add: peer_delivers_def)
        ultimately have "(n - l) * (k + 1) + wait w2 \<le> fuel" using Suc.prems(2) by linarith
        from Suc.IH [OF r(4) this] obtain w3 where w3: "sock_recv fuel net fd (n - l) w2 =
            Inr (n - l \<le> length (rx w2), take (n - l) (rx w2), w3)" "live w3" "rx w3 = drop (n - l) (rx w2)" "tx w3 = tx w2"
          by blast
        have dj: "drop j (rx w) = drop l (rx w)" "take j (rx w) = take l (rx w)" using l(3) by (auto simp: min_def)
        have ll: "l \<le> length (rx w)" using l(3) by simp
        then have len: "length (take l (rx w)) = l" "take l (rx w) \<noteq> []" using l(1) rx by auto
        have le: "n - l \<le> length (rx w) - l \<longleftrightarrow> n \<le> length (rx w)" using l(2) ll by linarith
        have "take l (rx w) @ take (n - l) (drop l (rx w)) = take n (rx w)"
          using l(2) by (simp add: take_add [symmetric])
        moreover have "take n (take l (rx w)) = take l (rx w)" using l(2) by (simp add: min_absorb2)
        ultimately have "sock_recv (Suc fuel) net fd n w = Inr (n \<le> length (rx w), take n (rx w), w3)"
          using False rc p(1-3) r(1) len w3(1) le
          by (simp add: sock_recv.simps [of "Suc fuel"] dj r(5) Let_def del: take_take)
        then show ?thesis using w3 r(5,6) dj l(2) by simp
      qed
    qed
  qed
qed

lemma WRITE_delivers:
  assumes "peer_delivers net fd k live rx tx wait" and "live w"
  shows "\<exists>w'. WRITE (sk_io net) fd d w = (True, w') \<and> live w' \<and> rx w' = rx w \<and> tx w' = tx w @ d"
  using assms(2)
proof (induction "length d" arbitrary: d w rule: less_induct)
  case less
  show ?case
  proof (cases "d = []")
    case True
    then show ?thesis using less.prems by (simp add: WRITE.simps)
  next
    case False
    obtain j w1 where j: "net_write (sk_io net) fd d w = (int j, w1)" "0 < j" "j \<le> length d" "live w1" "rx w1 = rx w"
      "tx w1 = tx w @ take j d"
      using assms(1) [unfolded peer_delivers_def, THEN conjunct2, THEN conjunct2, THEN conjunct2] less.prems False by blast
    have "length (drop j d) < length d" using j(2) False by simp
    from less.hyps [OF this j(4)] obtain w2 where w2: "WRITE (sk_io net) fd (drop j d) w1 = (True, w2)" "live w2"
      "rx w2 = rx w" "tx w2 = (tx w @ take j d) @ drop j d"
      unfolding j(5,6) by blast
    have "WRITE (sk_io net) fd d w = (True, w2)"
      using False j(1,2) w2(1) by (subst WRITE.simps) simp
    then show ?thesis using w2(2-4) by simp
  qed
qed

text \<open>
  C11: a connection made of sockets is the connection of the specification: whatever pieces the peer's
  bytes arrive in and however little a \<open>write\<close> takes at once, \<open>recv\<close> and \<open>send\<close> end, with the outcome and
  the bytes of \<open>cc_recv\<close> and \<open>cc_send\<close>, in a state that the connection they leave stands for.
\<close>

theorem sockets_refine_connection:
  assumes "peer_delivers net fd k live rx tx wait" and "sock_rel live rx tx w cc" and "n * (k + 1) + k \<le> fuel"
  shows "(\<exists>w'. sock_recv fuel net fd n w = Inr (fst (cc_recv n cc) \<noteq> None, take n (cc_rx cc), w') \<and>
      (fst (cc_recv n cc) \<noteq> None \<longrightarrow> fst (cc_recv n cc) = Some (take n (cc_rx cc))) \<and>
      sock_rel live rx tx w' (snd (cc_recv n cc))) \<and>
    (\<exists>w'. sock_send net fd d w = (fst (cc_send d cc), w') \<and> sock_rel live rx tx w' (snd (cc_send d cc)))"
proof -
  have w: "live w" "cc_rx cc = rx w" "concat (cc_tx cc) = tx w" "cc_send_ok cc = []" "wait w \<le> k"
    using assms(1,2) by (simp_all add: sock_rel_def peer_delivers_def)
  then obtain w' where "sock_recv fuel net fd n w = Inr (n \<le> length (rx w), take n (rx w), w')"
    "live w'" "rx w' = drop n (rx w)" "tx w' = tx w"
    using sock_recv_delivers [OF assms(1), of w n fuel] assms(3) by auto
  then have recv: "\<exists>w'. sock_recv fuel net fd n w = Inr (fst (cc_recv n cc) \<noteq> None, take n (cc_rx cc), w') \<and>
      (fst (cc_recv n cc) \<noteq> None \<longrightarrow> fst (cc_recv n cc) = Some (take n (cc_rx cc))) \<and>
      sock_rel live rx tx w' (snd (cc_recv n cc))"
    using w by (auto simp: cc_recv_def sock_rel_def)
  obtain w' where "WRITE (sk_io net) fd d w = (True, w')" "live w'" "rx w' = rx w" "tx w' = tx w @ d"
    using WRITE_delivers [OF assms(1) w(1)] by blast
  then have "\<exists>w'. sock_send net fd d w = (fst (cc_send d cc), w') \<and> sock_rel live rx tx w' (snd (cc_send d cc))"
    using w by (simp add: sock_send_def cc_send_def sock_rel_def)
  with recv show ?thesis by (rule conjI)
qed

text \<open>A peer whose bytes come in pairs, every pair after one poll that times out; a \<open>write\<close> takes three bytes.\<close>

record example_world =
  ew_rx :: "byte list"
  ew_tx :: "byte list"
  ew_wait :: nat
  ew_until :: nat

definition example_io :: "example_world nbd_net" where
  "example_io = \<lparr>net_getaddrinfo = (\<lambda>_ _ w. (Some 1, w)), net_socket = (\<lambda>w. (3, w)), net_connect = (\<lambda>_ _ w. (True, w)),
     net_read = (\<lambda>fd n w. (Some (take (min 2 n) (ew_rx w)), w\<lparr>ew_rx := drop (min 2 n) (ew_rx w), ew_wait := 1\<rparr>)),
     net_write = (\<lambda>fd d w. (int (min 3 (length d)), w\<lparr>ew_tx := ew_tx w @ take 3 d\<rparr>)), net_close = (\<lambda>_ w. w)\<rparr>"

definition example_sockets :: "example_world sock_net" where
  "example_sockets = \<lparr>sk_io = example_io, sk_reuse_addr = (\<lambda>_ w. (True, w)), sk_fastopen = (\<lambda>_ w. (True, w)),
     sk_nodelay = (\<lambda>_ w. (True, w)), sk_inet_aton = (\<lambda>_. Some 0), sk_bind = (\<lambda>_ _ _ w. (True, w)),
     sk_listen = (\<lambda>_ _ w. (True, w)), sk_accept = (\<lambda>_ w. (7, w)),
     sk_poll = (\<lambda>_ w. (if 0 < ew_wait w then 0 else 1, w\<lparr>ew_wait := 0, ew_until := ew_until w - 1\<rparr>)),
     sk_stop = (\<lambda>w. ew_until w = 0),
     sk_getpeername = (\<lambda>_ _. None), sk_getsockname = (\<lambda>_ _. None), sk_getnameinfo = (\<lambda>_. ([], []))\<rparr>"

lemmas example_net_defs = example_sockets_def example_io_def

definition example_connection :: "com_client" where
  "example_connection = \<lparr>cc_rx = [1, 2, 3, 4, 5, 6, 7], cc_tx = [], cc_send_ok = [], cc_local_address = ''?:?'', cc_endpoint_name = ''?:?''\<rparr>"

lemma example_delivers:
  "peer_delivers (example_sockets\<lparr>sk_stop := \<lambda>_. False\<rparr>) 7 1 (\<lambda>_. True) ew_rx ew_tx (\<lambda>w. min 1 (ew_wait w))"
  (is "peer_delivers ?net _ _ _ _ _ _")
proof -
  have 1: "\<exists>rc w'. sk_poll ?net 7 w = (rc, w') \<and> 0 \<le> rc \<and> \<not> sk_stop ?net w' \<and> True \<and> ew_rx w' = ew_rx w \<and> ew_tx w' = ew_tx w \<and>
      (rc = 0 \<longrightarrow> min 1 (ew_wait w') < min 1 (ew_wait w))" for w
    by (cases "ew_wait w"; simp add: example_net_defs)
  have 2: "\<exists>j w'. net_read (sk_io ?net) 7 n w = (Some (take j (ew_rx w)), w') \<and> 0 < j \<and> j \<le> n \<and> True \<and>
      ew_rx w' = drop j (ew_rx w) \<and> ew_tx w' = ew_tx w" if "0 < n" for w n
    using that by (intro exI [of _ "min 2 n"] exI [of _ "w\<lparr>ew_rx := drop (min 2 n) (ew_rx w), ew_wait := 1\<rparr>"])
      (simp add: example_net_defs)
  have 3: "\<exists>j w'. net_write (sk_io ?net) 7 d w = (int j, w') \<and> 0 < j \<and> j \<le> length d \<and> True \<and>
      ew_rx w' = ew_rx w \<and> ew_tx w' = ew_tx w @ take j d" if "d \<noteq> []" for w d
    using that by (intro exI [of _ "min 3 (length d)"] exI [of _ "w\<lparr>ew_tx := ew_tx w @ take 3 d\<rparr>"])
      (simp add: example_net_defs min_def)
  show ?thesis unfolding peer_delivers_def using 1 2 3 by simp
qed

theorem sockets_refine_connection_witness:
  "(\<exists>w'. sock_recv 11 (example_sockets\<lparr>sk_stop := \<lambda>_. False\<rparr>) 7 5
      \<lparr>ew_rx = [1, 2, 3, 4, 5, 6, 7], ew_tx = [], ew_wait = 1, ew_until = 0\<rparr> = Inr (True, [1, 2, 3, 4, 5], w') \<and> ew_rx w' = [6, 7]) \<and>
   (\<exists>w'. sock_send (example_sockets\<lparr>sk_stop := \<lambda>_. False\<rparr>) 7 [1, 2, 3, 4, 5]
      \<lparr>ew_rx = [1, 2, 3, 4, 5, 6, 7], ew_tx = [], ew_wait = 1, ew_until = 0\<rparr> = (True, w') \<and> ew_tx w' = [1, 2, 3, 4, 5])"
proof -
  let ?w = "\<lparr>ew_rx = [1, 2, 3, 4, 5, 6, 7], ew_tx = [], ew_wait = 1, ew_until = 0\<rparr>"
  have "sock_rel (\<lambda>_. True) ew_rx ew_tx ?w example_connection" by (simp add: sock_rel_def example_connection_def)
  from sockets_refine_connection [OF example_delivers this, of 5 11 "[1, 2, 3, 4, 5]"]
  show ?thesis by (auto simp: cc_recv_def cc_send_def example_connection_def sock_rel_def)
qed

section \<open>The end of the server\<close>

text \<open>
  The hypothesis that the stop flag gets set and stays set: \<open>until w\<close> polls at most are still made before
  that, on whatever descriptors. Nothing is said of what the peers do.
\<close>

definition stops_within :: "'w sock_net \<Rightarrow> ('w \<Rightarrow> nat) \<Rightarrow> bool" where
  "stops_within net until \<longleftrightarrow>
     (\<forall>w. sk_stop net w \<longleftrightarrow> until w = 0) \<and>
     (\<forall>fd w. until (snd (sk_poll net fd w)) \<le> until w - 1) \<and>
     (\<forall>fd w. until (snd (sk_accept net fd w)) \<le> until w) \<and>
     (\<forall>fd w. until (snd (sk_nodelay net fd w)) \<le> until w) \<and>
     (\<forall>fd n w. until (snd (net_read (sk_io net) fd n w)) \<le> until w)"

lemma stops_withinD:
  assumes "stops_within net until"
  shows "sk_stop net w \<longleftrightarrow> until w = 0" and "sk_poll net fd w = (rc, w') \<Longrightarrow> until w' \<le> until w - 1"
    and "sk_accept net fd w = (fd', w') \<Longrightarrow> until w' \<le> until w"
    and "until (com_client_sockets_new net fd w) \<le> until w"
    and "net_read (sk_io net) fd n w = (d, w') \<Longrightarrow> until w' \<le> until w"
  using assms unfolding stops_within_def com_client_sockets_new_def socket_set_nodelay_def by (metis snd_conv)+

lemma accept_returns:
  assumes "stops_within net until" and "until w < fuel"
  shows "\<exists>r w'. com_sockets_accept fuel net c w = Inr (r, w') \<and> until w' \<le> until w - 1"
  using assms(2)
proof (induction fuel arbitrary: w)
  case (Suc fuel)
  obtain rc w1 where p: "sk_poll net (listen_fd c) w = (rc, w1)" by fastforce
  have u: "until w1 \<le> until w - 1" using stops_withinD(2) [OF assms(1) p] .
  obtain fd w2 where a: "sk_accept net (listen_fd c) w1 = (fd, w2)" by fastforce
  have u2: "until w2 \<le> until w - 1" using stops_withinD(3) [OF assms(1) a] u by simp
  then have u3: "until (com_client_sockets_new net fd w2) \<le> until w - 1"
    using stops_withinD(4) [OF assms(1), of fd w2] by simp
  show ?case
  proof (cases "rc = -1 \<or> rc \<ge> 1 \<or> sk_stop net w1")
    case True
    then show ?thesis using p a u u2 u3 by auto
  next
    case False
    then have "until w1 \<noteq> 0" using stops_withinD(1) [OF assms(1)] by simp
    then have lt: "until w1 < fuel" using u Suc.prems by simp
    from Suc.IH [OF lt] obtain r w' where "com_sockets_accept fuel net c w1 = Inr (r, w')" "until w' \<le> until w1 - 1" by blast
    then show ?thesis using False p u by simp
  qed
qed simp

lemma recv_returns:
  assumes "stops_within net until" and "until w < fuel"
  shows "\<exists>r. sock_recv fuel net fd n w = Inr r"
  using assms(2)
proof (induction fuel arbitrary: n w)
  case (Suc fuel)
  obtain rc w1 where p: "sk_poll net fd w = (rc, w1)" by fastforce
  have u: "until w1 \<le> until w - 1" using stops_withinD(2) [OF assms(1) p] .
  obtain d w2 where r: "net_read (sk_io net) fd n w1 = (d, w2)" by fastforce
  have u2: "until w2 \<le> until w1" using stops_withinD(5) [OF assms(1) r] .
  show ?case
  proof (cases "n = 0 \<or> rc = -1 \<or> sk_stop net w1")
    case True
    then show ?thesis using p by (auto simp: sock_recv.simps [of "Suc fuel"])
  next
    case False
    then have "until w1 \<noteq> 0" using stops_withinD(1) [OF assms(1)] by simp
    then have "until w1 < fuel" "until w2 < fuel" using u u2 Suc.prems by simp_all
    then obtain a b where ab: "sock_recv fuel net fd n w1 = Inr a" "sock_recv fuel net fd (n - length (take n (the d))) w2 = Inr b"
      using Suc.IH by meson
    show ?thesis
    proof (cases "rc \<ge> 1 \<and> d \<noteq> None \<and> d \<noteq> Some []")
      case True
      then show ?thesis using False p r ab(2) by (cases b) (auto simp: sock_recv.simps [of "Suc fuel"] Let_def)
    next
      case other: False
      then show ?thesis using False p r ab(1) by (cases a) (auto simp: sock_recv.simps [of "Suc fuel"])
    qed
  qed
qed simp

text \<open>The books of the server: every thread that was started is either in the list or was joined, once.\<close>

definition threads_inv :: "threads_st \<Rightarrow> bool" where
  "threads_inv ts \<longleftrightarrow> mset (th_list ts) + mset (th_joined ts) = mset [0..<length (th_started ts)]"

lemma erase_finished_eq: "erase_finished flag ts = (filter (\<lambda>t. \<not> flag t) ts, filter flag ts)"
  by (induction ts) (simp_all add: Let_def)

lemma mset_filter_split: "mset (filter (\<lambda>t. \<not> f t) ts) + mset (filter f ts) = mset ts"
  by (induction ts) simp_all

lemma accept_round_inv:
  assumes "accept_round fuel net flag c ts w = Inr (ts', w')" and "threads_inv ts"
  shows "threads_inv ts'"
proof -
  have m: "mset (filter (\<lambda>t. \<not> f t) l) + (mset j + mset (filter f l)) = mset l + mset j" for f :: "nat \<Rightarrow> bool" and l j
    using mset_filter_split [of f l] by (metis add.commute add.left_commute)
  show ?thesis
    using assms m [of _ "th_list ts" "th_joined ts"]
    by (auto simp: accept_round_def bindR_Inr_iff erase_finished_eq threads_inv_def simp del: mset_upt split: option.splits)
qed

lemma accept_loop_returns:
  assumes "stops_within net until" and "until w \<le> rounds" and "until w < fuel" and "threads_inv ts"
  shows "\<exists>ts' w'. accept_loop rounds fuel net flag c ts w = Inr (ts', w') \<and>
    mset (th_joined ts') = mset [0..<length (th_started ts')]"
  using assms(2-4)
proof (induction rounds arbitrary: ts w)
  case 0
  then show ?case using stops_withinD(1) [OF assms(1)]
    by (simp add: accept_loop.simps threads_inv_def add.commute)
next
  case (Suc rounds)
  show ?case
  proof (cases "sk_stop net w")
    case True
    then show ?thesis using Suc.prems by (simp add: accept_loop.simps threads_inv_def add.commute)
  next
    case False
    then have u: "until w \<noteq> 0" using stops_withinD(1) [OF assms(1)] by simp
    obtain r w1 where a: "com_sockets_accept fuel net c w = Inr (r, w1)" "until w1 \<le> until w - 1"
      using accept_returns [OF assms(1) Suc.prems(2)] by blast
    then obtain ts1 where ts1: "accept_round fuel net flag c ts w = Inr (ts1, w1)"
      by (cases r) (simp_all add: accept_round_def erase_finished_eq)
    have "until w1 \<le> rounds" "until w1 < fuel" using a(2) u Suc.prems(1,2) by simp_all
    from Suc.IH [OF this accept_round_inv [OF ts1 Suc.prems(3)]]
    show ?thesis using False ts1 by (simp add: accept_loop.simps [of "Suc rounds"])
  qed
qed



end
