(* ===== verification/Snmp_Text.thy ===== *)
theory Snmp_Text
  imports Iscsi_Util
begin

text \<open>
  The text functions of the C library that the SNMP agent uses on object identifiers: \<open>atoll\<close> and
  \<open>atoi\<close> (as in glibc: \<open>strtol\<close> in 64 bits, saturating, and for \<open>atoi\<close> the low 32 bits), printing with
  \<open>%d\<close>, and \<open>split(oid, ".")\<close> of \<^verbatim>\<open>utils.cpp\<close>. The text of an object identifier is the decimal text of
  its numbers joined by dots; reading it back and splitting it are inverse to that.
\<close>

type_synonym i32 = "32 word"

section \<open>Numbers in text\<close>

definition digit_char :: "nat \<Rightarrow> char" where
  "digit_char d = char_of (48 + d)"

definition is_digit :: "char \<Rightarrow> bool" where
  "is_digit c \<longleftrightarrow> 48 \<le> (of_char c :: nat) \<and> (of_char c :: nat) \<le> 57"

definition is_space :: "char \<Rightarrow> bool" where
  "is_space c \<longleftrightarrow> (of_char c :: nat) = 32 \<or> 9 \<le> (of_char c :: nat) \<and> (of_char c :: nat) \<le> 13"

fun show_nat :: "nat \<Rightarrow> string" where
  "show_nat n = (if n < 10 then [digit_char n] else show_nat (n div 10) @ [digit_char (n mod 10)])"

declare show_nat.simps [simp del]

definition show_int :: "int \<Rightarrow> string" where
  "show_int i = (if i < 0 then CHR ''-'' # show_nat (nat (- i)) else show_nat (nat i))"

definition digits_value :: "string \<Rightarrow> nat" where
  "digits_value s = foldl (\<lambda>v c. 10 * v + (of_char c - 48)) 0 (takeWhile is_digit s)"

definition strtoll :: "string \<Rightarrow> int" where
  "strtoll s =
     (case dropWhile is_space s of
        [] \<Rightarrow> 0
      | c # cs \<Rightarrow>
          if c = CHR ''-'' then max (- (2 ^ 63)) (- int (digits_value cs))
          else min (2 ^ 63 - 1) (int (digits_value (if c = CHR ''+'' then cs else c # cs))))"

definition atoll :: "string \<Rightarrow> int" where
  "atoll s = strtoll s"

definition atoi :: "string \<Rightarrow> int" where
  "atoi s = sint (word_of_int (strtoll s) :: i32)"

lemma of_digit_char [simp]: "d < 10 \<Longrightarrow> of_char (digit_char d) = 48 + d"
  by (simp add: digit_char_def)

lemma is_digit_digit_char [simp]: "d < 10 \<Longrightarrow> is_digit (digit_char d)"
  by (simp add: is_digit_def)

lemma digit_not_space: "is_digit c \<Longrightarrow> \<not> is_space c"
  by (auto simp: is_digit_def is_space_def)

lemma digit_not_sign: "is_digit c \<Longrightarrow> c \<noteq> CHR ''-'' \<and> c \<noteq> CHR ''+'' \<and> c \<noteq> CHR ''.''"
  by (auto simp: is_digit_def)

lemma show_nat_digits: "c \<in> set (show_nat n) \<Longrightarrow> is_digit c"
proof (induction n rule: show_nat.induct)
  case (1 n)
  then show ?case by (cases "n < 10") (auto simp: show_nat.simps [of n])
qed

lemma show_nat_ne [simp]: "show_nat n \<noteq> []"
  by (simp add: show_nat.simps)

lemma foldl_show_nat: "foldl (\<lambda>v c. 10 * v + (of_char c - 48)) 0 (show_nat n) = (n :: nat)"
proof (induction n rule: show_nat.induct)
  case (1 n)
  then show ?case by (cases "n < 10") (simp_all add: show_nat.simps [of n])
qed

lemma takeWhile_digits:
  "rest = [] \<or> \<not> is_digit (hd rest) \<Longrightarrow> takeWhile is_digit (show_nat n @ rest) = show_nat n"
  by (subst takeWhile_append2) (auto simp: show_nat_digits takeWhile_eq_Nil_iff)

lemma strtoll_show_nat:
  assumes "n < 2 ^ 63" and "rest = [] \<or> \<not> is_digit (hd rest)"
  shows "strtoll (show_nat n @ rest) = int n"
proof -
  obtain c cs where c: "show_nat n = c # cs" by (cases "show_nat n") simp_all
  then have "is_digit c" using show_nat_digits [of c n] by simp
  then have "dropWhile is_space (show_nat n @ rest) = c # cs @ rest" and "c \<noteq> CHR ''-''" "c \<noteq> CHR ''+''"
    using c digit_not_space digit_not_sign by auto
  moreover have "digits_value (c # cs @ rest) = n"
    using takeWhile_digits [OF assms(2), of n] foldl_show_nat [of n] unfolding digits_value_def c by simp
  ultimately show ?thesis using assms(1) by (simp add: strtoll_def min_def)
qed

lemma show_nat_inj: "show_nat m = show_nat n \<Longrightarrow> m = n"
  by (metis foldl_show_nat)

lemma atoi_show_nat: "n < 2 ^ 31 \<Longrightarrow> atoi (show_nat n) = int n"
  using strtoll_show_nat [of n "[]"]
  by (simp add: atoi_def signed_of_nat signed_take_bit_int_eq_self)

lemma show_nat_no_dot: "CHR ''.'' \<notin> set (show_nat n)"
  using digit_not_sign show_nat_digits by blast

section \<open>Dotted text\<close>

text \<open>\<open>split(oid, ".")\<close>; the splitter is not empty, so \<open>split_str\<close> always returns.\<close>

definition split_dot :: "string \<Rightarrow> string list" where
  "split_dot s = (case split_str s ''.'' of Some ps \<Rightarrow> ps | None \<Rightarrow> [])"

definition oid_text :: "nat list \<Rightarrow> string" where
  "oid_text ns = join_str ''.'' (map show_nat ns)"

lemma str_find_dot: "str_find s ''.'' = None \<longleftrightarrow> CHR ''.'' \<notin> set s"
  by (induction s) auto

lemma str_find_dot_append: "CHR ''.'' \<notin> set s \<Longrightarrow> str_find (s @ CHR ''.'' # t) ''.'' = Some (length s)"
  by (induction s) auto

lemma join_snoc: "ps \<noteq> [] \<Longrightarrow> join_str sep (ps @ [p]) = join_str sep ps @ sep @ p"
  by (induction sep ps rule: join_str.induct) (simp_all add: join_str_Cons)

lemma split_loop_join:
  assumes "\<forall>p \<in> set ps. p \<noteq> [] \<and> CHR ''.'' \<notin> set p"
  shows "split_loop ''.'' (join_str ''.'' ps) out = Some (out @ ps)"
  using assms
proof (induction ps arbitrary: out)
  case Nil
  then show ?case by (simp add: split_loop.simps)
next
  case (Cons p ps)
  show ?case
  proof (cases "ps = []")
    case True
    have "str_find p ''.'' = None" using Cons.prems by (simp add: str_find_dot)
    then show ?thesis using True Cons.prems by (simp add: split_loop.simps)
  next
    case False
    then obtain q qs where "ps = q # qs" by (cases ps) auto
    then have ne: "join_str ''.'' ps \<noteq> []" using Cons.prems by (cases qs) auto
    have "str_find (p @ CHR ''.'' # join_str ''.'' ps) ''.'' = Some (length p)"
      using Cons.prems by (simp add: str_find_dot_append)
    then show ?thesis using ne False Cons
      by (subst split_loop.simps) (simp add: join_str_Cons)
  qed
qed

lemma split_oid_text [simp]: "split_dot (oid_text ns) = map show_nat ns"
  using split_loop_join [of "map show_nat ns" "[]"] show_nat_no_dot
  by (simp add: split_dot_def split_str_def oid_text_def)

lemma split_dot_Nil [simp]: "split_dot [] = []"
  using split_oid_text [of "[]"] by (simp add: oid_text_def)

lemma oid_text_inj: "oid_text ms = oid_text ns \<longleftrightarrow> ms = ns"
proof
  assume "oid_text ms = oid_text ns"
  then have "map show_nat ms = map show_nat ns" by (metis split_oid_text)
  then show "ms = ns" by (rule map_injective) (simp add: inj_on_def show_nat_inj)
qed simp

lemma oid_text_Nil [simp]: "oid_text [] = []"
  by (simp add: oid_text_def)

lemma oid_text_snoc: "oid_text (ns @ [n]) = (if ns = [] then [] else oid_text ns @ ''.'') @ show_nat n"
  by (simp add: oid_text_def join_snoc)

lemma oid_text_Nil_iff [simp]: "oid_text ns = [] \<longleftrightarrow> ns = []"
  by (cases ns rule: rev_cases) (simp_all add: oid_text_snoc)

lemma oid_text_Cons: "ns \<noteq> [] \<Longrightarrow> oid_text (n # ns) = show_nat n @ CHR ''.'' # oid_text ns"
  by (simp add: oid_text_def join_str_Cons)

text \<open>The part after the last dot, and the text up to it: \<open>rfind('.')\<close> with \<open>substr\<close>.\<close>

definition rfind_dot :: "string \<Rightarrow> (string \<times> string) option" where
  "rfind_dot s =
     (if CHR ''.'' \<in> set s
      then Some (let k = length (takeWhile (\<lambda>c. c \<noteq> CHR ''.'') (rev s))
                 in (take (length s - Suc k) s, drop (length s - k) s))
      else None)"

lemma rfind_dot_append: "CHR ''.'' \<notin> set t \<Longrightarrow> rfind_dot (s @ CHR ''.'' # t) = Some (s, t)"
proof -
  assume t: "CHR ''.'' \<notin> set t"
  then have "takeWhile (\<lambda>c. c \<noteq> CHR ''.'') (rev (s @ CHR ''.'' # t)) = rev t"
    by (subst rev_append, subst rev.simps(2), subst append_assoc, subst takeWhile_append2) auto
  then show ?thesis by (simp add: rfind_dot_def)
qed

lemma rfind_dot_None: "CHR ''.'' \<notin> set s \<Longrightarrow> rfind_dot s = None"
  by (simp add: rfind_dot_def)

end
