(* ===== verification/Com_Arduino.thy ===== *)
theory Com_Arduino
  imports Com_Sockets Snmp_Text
begin

text \<open>
  The connections of the boards without sockets (\<^verbatim>\<open>microcontrollers/com-arduino.cpp\<close>, the RP2040W build): a
  client object of the WiFi library, polled until all bytes are there. The library is a parameter. Shown:
  its loops too implement the connection \<open>cc_recv\<close>, \<open>cc_send\<close> that the rest of the development works with.
  The watchdog, which \<open>watchdog_update\<close> feeds, is left out.
\<close>

section \<open>The library\<close>

text \<open>
  \<open>wl_bool\<close> is the client as a truth value: it can still be used. \<open>wl_read\<close> gives the bytes that are there, or
  an error; \<open>wl_write\<close> the number of bytes taken, negative for an error. \<open>wl_idle\<close> is the work done while
  waiting. Starting WiFi takes \<open>wl_status\<close>, asked until it is connected.
\<close>

record 'w wifi_lib =
  wl_start :: "'w \<Rightarrow> 'w"
  wl_status :: "'w \<Rightarrow> bool \<times> 'w"
  wl_listen :: "int \<Rightarrow> 'w \<Rightarrow> 'w"
  wl_has_client :: "'w \<Rightarrow> bool \<times> 'w"
  wl_accept :: "'w \<Rightarrow> 'w"
  wl_no_delay :: "'w \<Rightarrow> 'w"
  wl_stop :: "'w \<Rightarrow> 'w"
  wl_bool :: "'w \<Rightarrow> bool \<times> 'w"
  wl_read :: "nat \<Rightarrow> 'w \<Rightarrow> byte list option \<times> 'w"
  wl_write :: "byte list \<Rightarrow> 'w \<Rightarrow> int \<times> 'w"
  wl_flush :: "'w \<Rightarrow> 'w"
  wl_idle :: "'w \<Rightarrow> 'w"
  wl_local_ip :: "'w \<Rightarrow> byte list"
  wl_client_local_ip :: "'w \<Rightarrow> byte list"
  wl_client_remote_ip :: "'w \<Rightarrow> byte list"

section \<open>Listening\<close>

fun wait_for_wifi :: "nat \<Rightarrow> 'w wifi_lib \<Rightarrow> 'w \<Rightarrow> 'w result" where
  "wait_for_wifi 0 lib w = Inl No_return"
| "wait_for_wifi (Suc fuel) lib w =
     (case wl_status lib w of (up, w) \<Rightarrow> if up then Inr w else wait_for_wifi fuel lib w)"

definition com_arduino_begin :: "nat \<Rightarrow> 'w wifi_lib \<Rightarrow> int \<Rightarrow> 'w \<Rightarrow> (bool \<times> 'w) result" where
  "com_arduino_begin fuel lib port w =
     bindR (wait_for_wifi fuel lib (wl_start lib w)) (\<lambda>w. Inr (True, wl_listen lib port w))"

text \<open>The loop does not look at the stop flag.\<close>

fun com_arduino_accept :: "nat \<Rightarrow> 'w wifi_lib \<Rightarrow> 'w \<Rightarrow> 'w result" where
  "com_arduino_accept 0 lib w = Inl No_return"
| "com_arduino_accept (Suc fuel) lib w =
     (case wl_has_client lib w of (there, w) \<Rightarrow>
        if there then Inr (wl_no_delay lib (wl_accept lib w)) else com_arduino_accept fuel lib w)"

section \<open>One connection\<close>

definition com_client_arduino_delete :: "'w wifi_lib \<Rightarrow> 'w \<Rightarrow> 'w" where
  "com_client_arduino_delete lib w = wl_stop lib w"

text \<open>\<open>%d.%d.%d.%d\<close>\<close>

definition ip_text :: "byte list \<Rightarrow> string" where
  "ip_text ip = join_str ''.'' (map (\<lambda>i. show_nat (unat (ip ! i))) [0, 1, 2, 3])"

definition com_arduino_get_local_address :: "'w wifi_lib \<Rightarrow> 'w \<Rightarrow> string" where
  "com_arduino_get_local_address lib w = ip_text (wl_local_ip lib w)"

definition arduino_get_local_address :: "'w wifi_lib \<Rightarrow> 'w \<Rightarrow> string" where
  "arduino_get_local_address lib w = ip_text (wl_client_local_ip lib w)"

definition arduino_get_endpoint_name :: "'w wifi_lib \<Rightarrow> 'w \<Rightarrow> string" where
  "arduino_get_endpoint_name lib w = ip_text (wl_client_remote_ip lib w)"

text \<open>
  The loops take \<open>fuel\<close> rounds at most. \<open>recv\<close> gives whether all of \<open>todo\<close> bytes came in, and the bytes put
  into the buffer; \<open>send_loop\<close> the bytes that are left.
\<close>

fun arduino_recv :: "nat \<Rightarrow> 'w wifi_lib \<Rightarrow> nat \<Rightarrow> 'w \<Rightarrow> (bool \<times> byte list \<times> 'w) result" where
  "arduino_recv fuel lib todo w =
     (if todo = 0 then Inr (True, [], w)
      else case wl_bool lib w of (usable, w) \<Rightarrow>
        if \<not> usable then Inr (False, [], w)
        else case fuel of
          0 \<Rightarrow> Inl No_return
        | Suc fuel \<Rightarrow>
            (case wl_read lib todo w of
               (None, w) \<Rightarrow> Inr (False, [], w)
             | (Some d, w) \<Rightarrow>
                 let d = take todo d
                 in bindR (arduino_recv fuel lib (todo - length d) (wl_idle lib w)) (\<lambda>(ok, ds, w). Inr (ok, d @ ds, w))))"

declare arduino_recv.simps [simp del]

fun arduino_send_loop :: "nat \<Rightarrow> 'w wifi_lib \<Rightarrow> byte list \<Rightarrow> 'w \<Rightarrow> (byte list \<times> 'w) result" where
  "arduino_send_loop fuel lib d w =
     (if d = [] then Inr ([], w)
      else case wl_bool lib w of (usable, w) \<Rightarrow>
        if \<not> usable then Inr (d, w)
        else case fuel of
          0 \<Rightarrow> Inl No_return
        | Suc fuel \<Rightarrow>
            (case wl_write lib d w of (cur_n, w) \<Rightarrow>
               if cur_n < 0 then Inr (d, w) else arduino_send_loop fuel lib (drop (nat cur_n) d) w))"

declare arduino_send_loop.simps [simp del]

definition arduino_send :: "nat \<Rightarrow> 'w wifi_lib \<Rightarrow> byte list \<Rightarrow> 'w \<Rightarrow> (bool \<times> 'w) result" where
  "arduino_send fuel lib d w =
     bindR (arduino_send_loop fuel lib d w) (\<lambda>(left, w).
     case wl_bool lib w of (usable, w) \<Rightarrow> Inr (left = [], if usable then wl_flush lib w else w))"

section \<open>The client implements the connection\<close>

text \<open>
  The hypothesis on library and peer while bytes are received: \<open>rx w\<close> are the bytes the peer will still
  send, \<open>tx w\<close> those handed over so far. The client is usable while bytes are to come, and
  when it is usable a read gives what has arrived; reads that give nothing are at most \<open>k\<close> in a row.
\<close>

definition client_delivers :: "'w wifi_lib \<Rightarrow> nat \<Rightarrow> ('w \<Rightarrow> bool) \<Rightarrow> ('w \<Rightarrow> byte list) \<Rightarrow> ('w \<Rightarrow> byte list) \<Rightarrow> ('w \<Rightarrow> nat) \<Rightarrow> bool" where
  "client_delivers lib k live rx tx wait \<longleftrightarrow>
     (\<forall>w. wait w \<le> k) \<and>
     (\<forall>w. live w \<longrightarrow> (\<exists>usable w'. wl_bool lib w = (usable, w') \<and> live w' \<and> rx w' = rx w \<and> tx w' = tx w \<and> wait w' = wait w \<and>
        (rx w \<noteq> [] \<longrightarrow> usable) \<and> (wait w = 0 \<and> rx w = [] \<longrightarrow> \<not> usable))) \<and>
     (\<forall>w n. live w \<and> 0 < n \<and> (rx w \<noteq> [] \<or> 0 < wait w) \<longrightarrow> (\<exists>j w'. wl_read lib n w = (Some (take j (rx w)), w') \<and> j \<le> n \<and>
        live w' \<and> rx w' = drop j (rx w) \<and> tx w' = tx w \<and> (take j (rx w) = [] \<longrightarrow> wait w' < wait w))) \<and>
     (\<forall>w. live w \<longrightarrow> live (wl_idle lib w) \<and> rx (wl_idle lib w) = rx w \<and> tx (wl_idle lib w) = tx w \<and> wait (wl_idle lib w) = wait w)"

lemma client_deliversD:
  assumes "client_delivers lib k live rx tx wait" and "live w"
  shows "wait w \<le> k"
    and "\<exists>usable w'. wl_bool lib w = (usable, w') \<and> live w' \<and> rx w' = rx w \<and> tx w' = tx w \<and> wait w' = wait w \<and>
        (rx w \<noteq> [] \<longrightarrow> usable) \<and> (wait w = 0 \<and> rx w = [] \<longrightarrow> \<not> usable)"
    and "0 < n \<Longrightarrow> rx w \<noteq> [] \<or> 0 < wait w \<Longrightarrow> \<exists>j w'. wl_read lib n w = (Some (take j (rx w)), w') \<and> j \<le> n \<and>
        live w' \<and> rx w' = drop j (rx w) \<and> tx w' = tx w \<and> (take j (rx w) = [] \<longrightarrow> wait w' < wait w)"
    and "live (wl_idle lib w)" and "rx (wl_idle lib w) = rx w" and "tx (wl_idle lib w) = tx w" and "wait (wl_idle lib w) = wait w"
  using assms unfolding client_delivers_def by blast+

lemma take_pieces:
  assumes "l \<le> n" and "l \<le> length xs"
  shows "take l xs @ take (n - l) (drop l xs) = take n xs" and "drop (n - l) (drop l xs) = drop n xs"
    and "n - l \<le> length (drop l xs) \<longleftrightarrow> n \<le> length xs"
  using assms by (auto simp flip: take_add)

lemma left_after_piece:
  fixes n k l v fuel :: nat
  assumes "n * (k + 1) + w \<le> Suc fuel" and "l \<le> n" and "if l = 0 then v < w else v \<le> k"
  shows "(n - l) * (k + 1) + v \<le> fuel"
proof (cases "l = 0")
  case True
  then show ?thesis using assms by simp
next
  case False
  then have "((n - l) + 1) * (k + 1) \<le> n * (k + 1)" using assms(2) by (intro mult_le_mono1) simp
  then show ?thesis using assms(1,3) False by (simp add: add_mult_distrib)
qed

lemma arduino_recv_zero [simp]: "arduino_recv fuel lib 0 w = Inr (True, [], w)"
  by (simp add: arduino_recv.simps)

lemma arduino_recv_delivers:
  assumes "client_delivers lib k live rx tx wait" and "live w" and "n * (k + 1) + wait w \<le> fuel"
  shows "\<exists>w'. arduino_recv fuel lib n w = Inr (n \<le> length (rx w), take n (rx w), w') \<and>
    live w' \<and> rx w' = drop n (rx w) \<and> tx w' = tx w"
  using assms(2,3)
proof (induction fuel arbitrary: n w)
  case 0
  then show ?case by (intro exI [of _ w]) simp
next
  case (Suc fuel)
  obtain usable w1 where b: "wl_bool lib w = (usable, w1)" "live w1" "rx w1 = rx w" "tx w1 = tx w" "wait w1 = wait w"
    "rx w \<noteq> [] \<longrightarrow> usable" "wait w = 0 \<and> rx w = [] \<longrightarrow> \<not> usable"
    using client_deliversD(2) [OF assms(1) Suc.prems(1)] by blast
  show ?case
  proof (cases "n = 0 \<or> \<not> usable")
    case True
    then show ?thesis using Suc.prems(1) b by (auto simp: arduino_recv.simps [of "Suc fuel" lib n])
  next
    case False
    then have "rx w1 \<noteq> [] \<or> 0 < wait w1" "0 < n" using b by auto
    then obtain j w2 where r: "wl_read lib n w1 = (Some (take j (rx w)), w2)" "j \<le> n" "live w2" "rx w2 = drop j (rx w)"
      "tx w2 = tx w" "take j (rx w) = [] \<longrightarrow> wait w2 < wait w"
      using client_deliversD(3) [OF assms(1) b(2)] unfolding b(3-5) by blast
    have i: "live (wl_idle lib w2)" "rx (wl_idle lib w2) = rx w2" "tx (wl_idle lib w2) = tx w2" "wait (wl_idle lib w2) = wait w2"
      by (rule client_deliversD [OF assms(1) r(3)])+
    define l where "l = length (take j (rx w))"
    have l: "l \<le> n" "l \<le> length (rx w)" using r(2) by (auto simp: l_def)
    have dj: "take j (rx w) = take l (rx w)" "drop j (rx w) = drop l (rx w)" by (auto simp: l_def min_def)
    have "l = 0 \<longrightarrow> wait w2 < wait w" using r(6) unfolding l_def by (simp only: length_0_conv)
    then have "(n - l) * (k + 1) + wait (wl_idle lib w2) \<le> fuel"
      unfolding i(4) using client_deliversD(1) [OF assms(1) r(3)]
      by (intro left_after_piece [OF Suc.prems(2) l(1)]) simp
    from Suc.IH [OF i(1) this] obtain w3 where w3: "arduino_recv fuel lib (n - l) (wl_idle lib w2) =
        Inr (n \<le> length (rx w), take (n - l) (drop l (rx w)), w3)" "live w3" "rx w3 = drop n (rx w)" "tx w3 = tx w"
      using take_pieces [OF l] unfolding i(2,3) r(4,5) dj by auto
    have "take n (take j (rx w)) = take l (rx w)" unfolding dj using l(1) by (simp add: min_absorb2)
    then have "arduino_recv (Suc fuel) lib n w = Inr (n \<le> length (rx w), take n (rx w), w3)"
      using False b(1) r(1) w3(1) take_pieces(1) [OF l] l(2)
      by (simp add: arduino_recv.simps [of "Suc fuel" lib n] Let_def min_absorb2)
    then show ?thesis using w3(2-4) by blast
  qed
qed

text \<open>The same for sending: the client stays usable, and at most \<open>k\<close> writes in a row take nothing.\<close>

definition client_accepts :: "'w wifi_lib \<Rightarrow> nat \<Rightarrow> ('w \<Rightarrow> bool) \<Rightarrow> ('w \<Rightarrow> byte list) \<Rightarrow> ('w \<Rightarrow> byte list) \<Rightarrow> ('w \<Rightarrow> nat) \<Rightarrow> bool" where
  "client_accepts lib k live rx tx wait \<longleftrightarrow>
     (\<forall>w. wait w \<le> k) \<and>
     (\<forall>w. live w \<longrightarrow> (\<exists>w'. wl_bool lib w = (True, w') \<and> live w' \<and> rx w' = rx w \<and> tx w' = tx w \<and> wait w' = wait w)) \<and>
     (\<forall>w d. live w \<and> d \<noteq> [] \<longrightarrow> (\<exists>j w'. wl_write lib d w = (int j, w') \<and> j \<le> length d \<and> live w' \<and> rx w' = rx w \<and>
        tx w' = tx w @ take j d \<and> (j = 0 \<longrightarrow> wait w' < wait w))) \<and>
     (\<forall>w. live w \<longrightarrow> live (wl_flush lib w) \<and> rx (wl_flush lib w) = rx w \<and> tx (wl_flush lib w) = tx w)"

lemma client_acceptsD:
  assumes "client_accepts lib k live rx tx wait" and "live w"
  shows "wait w \<le> k"
    and "\<exists>w'. wl_bool lib w = (True, w') \<and> live w' \<and> rx w' = rx w \<and> tx w' = tx w \<and> wait w' = wait w"
    and "d \<noteq> [] \<Longrightarrow> \<exists>j w'. wl_write lib d w = (int j, w') \<and> j \<le> length d \<and> live w' \<and> rx w' = rx w \<and>
        tx w' = tx w @ take j d \<and> (j = 0 \<longrightarrow> wait w' < wait w)"
    and "live (wl_flush lib w)" and "rx (wl_flush lib w) = rx w" and "tx (wl_flush lib w) = tx w"
  using assms unfolding client_accepts_def by blast+

lemma arduino_send_loop_accepts:
  assumes "client_accepts lib k live rx tx wait" and "live w" and "length d * (k + 1) + wait w \<le> fuel"
  shows "\<exists>w'. arduino_send_loop fuel lib d w = Inr ([], w') \<and> live w' \<and> rx w' = rx w \<and> tx w' = tx w @ d"
  using assms(2,3)
proof (induction fuel arbitrary: d w)
  case 0
  then show ?case by (intro exI [of _ w]) (simp add: arduino_send_loop.simps)
next
  case (Suc fuel)
  show ?case
  proof (cases "d = []")
    case True
    then show ?thesis using Suc.prems(1) by (simp add: arduino_send_loop.simps)
  next
    case False
    obtain w1 where b: "wl_bool lib w = (True, w1)" "live w1" "rx w1 = rx w" "tx w1 = tx w" "wait w1 = wait w"
      using client_acceptsD(2) [OF assms(1) Suc.prems(1)] by blast
    obtain j w2 where j: "wl_write lib d w1 = (int j, w2)" "j \<le> length d" "live w2" "rx w2 = rx w" "tx w2 = tx w @ take j d"
      "j = 0 \<longrightarrow> wait w2 < wait w"
      using client_acceptsD(3) [OF assms(1) b(2) False] unfolding b(3-5) by blast
    have "length (drop j d) * (k + 1) + wait w2 \<le> fuel"
      using left_after_piece [OF Suc.prems(2) j(2)] j(6) client_acceptsD(1) [OF assms(1) j(3)] by simp
    from Suc.IH [OF j(3) this] obtain w3 where "arduino_send_loop fuel lib (drop j d) w2 = Inr ([], w3)" "live w3" "rx w3 = rx w"
      "tx w3 = tx w @ d" unfolding j(4,5) by auto
    then show ?thesis using False b(1) j(1) by (simp add: arduino_send_loop.simps [of "Suc fuel" lib d])
  qed
qed

text \<open>
  C12: a client of the WiFi library is the connection of the specification too: whatever pieces its
  bytes arrive and leave in, and whether the peer closes early, \<open>recv\<close> and \<open>send\<close> end within the rounds given,
  with the outcome and the bytes of \<open>cc_recv\<close> and \<open>cc_send\<close>, in a state that the connection they leave stands for.
\<close>

theorem arduino_refines_connection:
  assumes "client_delivers lib k live rx tx wait" and "sock_rel live rx tx w cc" and "n * (k + 1) + k \<le> fuel"
    and "client_accepts lib k' live' rx tx wait'" and "sock_rel live' rx tx v cc'" and "length d * (k' + 1) + k' \<le> fuel'"
  shows "(\<exists>w'. arduino_recv fuel lib n w = Inr (fst (cc_recv n cc) \<noteq> None, take n (cc_rx cc), w') \<and>
      (fst (cc_recv n cc) \<noteq> None \<longrightarrow> fst (cc_recv n cc) = Some (take n (cc_rx cc))) \<and>
      sock_rel live rx tx w' (snd (cc_recv n cc))) \<and>
    (\<exists>v'. arduino_send fuel' lib d v = Inr (fst (cc_send d cc'), v') \<and> sock_rel live' rx tx v' (snd (cc_send d cc')))"
proof
  have w: "live w" "cc_rx cc = rx w" "concat (cc_tx cc) = tx w" "cc_send_ok cc = []" using assms(2) by (simp_all add: sock_rel_def)
  then have "n * (k + 1) + wait w \<le> fuel" using client_deliversD(1) [OF assms(1) w(1)] assms(3) by simp
  from arduino_recv_delivers [OF assms(1) w(1) this]
  show "\<exists>w'. arduino_recv fuel lib n w = Inr (fst (cc_recv n cc) \<noteq> None, take n (cc_rx cc), w') \<and>
      (fst (cc_recv n cc) \<noteq> None \<longrightarrow> fst (cc_recv n cc) = Some (take n (cc_rx cc))) \<and>
      sock_rel live rx tx w' (snd (cc_recv n cc))"
    using w by (auto simp: cc_recv_def sock_rel_def)
  have v: "live' v" "cc_rx cc' = rx v" "concat (cc_tx cc') = tx v" "cc_send_ok cc' = []" using assms(5) by (simp_all add: sock_rel_def)
  then have "length d * (k' + 1) + wait' v \<le> fuel'" using client_acceptsD(1) [OF assms(4) v(1)] assms(6) by simp
  from arduino_send_loop_accepts [OF assms(4) v(1) this] obtain v1 where
    s: "arduino_send_loop fuel' lib d v = Inr ([], v1)" "live' v1" "rx v1 = rx v" "tx v1 = tx v @ d" by blast
  obtain v2 where b: "wl_bool lib v1 = (True, v2)" "live' v2" "rx v2 = rx v1" "tx v2 = tx v1"
    using client_acceptsD(2) [OF assms(4) s(2)] by blast
  show "\<exists>v'. arduino_send fuel' lib d v = Inr (fst (cc_send d cc'), v') \<and> sock_rel live' rx tx v' (snd (cc_send d cc'))"
    using s b v client_acceptsD(4-6) [OF assms(4) b(2)] by (simp add: arduino_send_def cc_send_def sock_rel_def)
qed

text \<open>A client that gives two bytes at a time, each pair after one empty read, and takes three.\<close>

record wifi_world =
  ww_rx :: "byte list"
  ww_tx :: "byte list"
  ww_wait :: bool
  ww_open :: bool

definition example_wifi :: "wifi_world wifi_lib" where
  "example_wifi = \<lparr>wl_start = (\<lambda>w. w), wl_status = (\<lambda>w. (True, w)), wl_listen = (\<lambda>_ w. w), wl_has_client = (\<lambda>w. (True, w)),
     wl_accept = (\<lambda>w. w), wl_no_delay = (\<lambda>w. w), wl_stop = (\<lambda>w. w),
     wl_bool = (\<lambda>w. (ww_open w \<or> ww_rx w \<noteq> [] \<or> ww_wait w, w)),
     wl_read = (\<lambda>n w. if ww_wait w then (Some [], w\<lparr>ww_wait := False\<rparr>)
                  else (Some (take (min 2 n) (ww_rx w)), w\<lparr>ww_rx := drop (min 2 n) (ww_rx w), ww_wait := True\<rparr>)),
     wl_write = (\<lambda>d w. (int (min 3 (length d)), w\<lparr>ww_tx := ww_tx w @ take 3 d\<rparr>)), wl_flush = (\<lambda>w. w), wl_idle = (\<lambda>w. w),
     wl_local_ip = (\<lambda>_. [10, 0, 0, 2]), wl_client_local_ip = (\<lambda>_. [10, 0, 0, 2]), wl_client_remote_ip = (\<lambda>_. [10, 0, 0, 9])\<rparr>"

lemma example_wifi_delivers:
  "client_delivers example_wifi 1 (\<lambda>w. \<not> ww_open w) ww_rx ww_tx (\<lambda>w. if ww_wait w then 1 else 0)"
proof -
  have 1: "\<exists>usable w'. wl_bool example_wifi w = (usable, w') \<and> \<not> ww_open w' \<and> ww_rx w' = ww_rx w \<and> ww_tx w' = ww_tx w \<and>
      (if ww_wait w' then 1 else 0) = (if ww_wait w then 1 else (0 :: nat)) \<and>
      (ww_rx w \<noteq> [] \<longrightarrow> usable) \<and> ((if ww_wait w then 1 else (0 :: nat)) = 0 \<and> ww_rx w = [] \<longrightarrow> \<not> usable)" if "\<not> ww_open w" for w
    using that by (intro exI [of _ "ww_rx w \<noteq> [] \<or> ww_wait w"] exI [of _ w]) (auto simp: example_wifi_def)
  have 2: "\<exists>j w'. wl_read example_wifi n w = (Some (take j (ww_rx w)), w') \<and> j \<le> n \<and> \<not> ww_open w' \<and>
      ww_rx w' = drop j (ww_rx w) \<and> ww_tx w' = ww_tx w \<and>
      (take j (ww_rx w) = [] \<longrightarrow> (if ww_wait w' then 1 else 0) < (if ww_wait w then 1 else (0 :: nat)))"
    if w: "\<not> ww_open w" "0 < n" "ww_rx w \<noteq> [] \<or> 0 < (if ww_wait w then 1 else (0 :: nat))" for w n
  proof (cases "ww_wait w")
    case True
    then show ?thesis
      using w by (intro exI [of _ 0] exI [of _ "w\<lparr>ww_wait := False\<rparr>"]) (simp add: example_wifi_def)
  next
    case False
    then show ?thesis
      using w by (intro exI [of _ "min 2 n"] exI [of _ "w\<lparr>ww_rx := drop (min 2 n) (ww_rx w), ww_wait := True\<rparr>"])
        (simp add: example_wifi_def)
  qed
  show ?thesis unfolding client_delivers_def using 1 2 by (simp add: example_wifi_def)
qed

lemma example_wifi_accepts: "client_accepts example_wifi 0 ww_open ww_rx ww_tx (\<lambda>_. 0)"
proof -
  have "\<exists>j w'. wl_write example_wifi d w = (int j, w') \<and> j \<le> length d \<and> ww_open w' \<and> ww_rx w' = ww_rx w \<and>
      ww_tx w' = ww_tx w @ take j d \<and> (j = 0 \<longrightarrow> (0 :: nat) < 0)" if "ww_open w" "d \<noteq> []" for w d
    using that by (intro exI [of _ "min 3 (length d)"] exI [of _ "w\<lparr>ww_tx := ww_tx w @ take 3 d\<rparr>"])
      (simp add: example_wifi_def min_def)
  then show ?thesis unfolding client_accepts_def by simp (simp add: example_wifi_def)
qed

theorem arduino_refines_connection_witness:
  "(\<exists>w'. arduino_recv 11 example_wifi 5 \<lparr>ww_rx = [1, 2, 3, 4, 5, 6, 7], ww_tx = [], ww_wait = True, ww_open = False\<rparr> =
      Inr (True, [1, 2, 3, 4, 5], w') \<and> ww_rx w' = [6, 7]) \<and>
   (\<exists>v'. arduino_send 5 example_wifi [1, 2, 3, 4, 5] \<lparr>ww_rx = [], ww_tx = [], ww_wait = False, ww_open = True\<rparr> = (Inr (True, v')) \<and>
      ww_tx v' = [1, 2, 3, 4, 5])"
proof -
  let ?w = "\<lparr>ww_rx = [1, 2, 3, 4, 5, 6, 7], ww_tx = [], ww_wait = True, ww_open = False\<rparr>"
  let ?v = "\<lparr>ww_rx = [], ww_tx = [], ww_wait = False, ww_open = True\<rparr>"
  let ?cc = "\<lparr>cc_rx = [], cc_tx = [], cc_send_ok = [], cc_local_address = [], cc_endpoint_name = []\<rparr>"
  have r: "sock_rel (\<lambda>w. \<not> ww_open w) ww_rx ww_tx ?w example_connection" "sock_rel ww_open ww_rx ww_tx ?v ?cc"
    by (simp_all add: sock_rel_def example_connection_def)
  from arduino_refines_connection [OF example_wifi_delivers r(1) _ example_wifi_accepts r(2), of 5 11 "[1, 2, 3, 4, 5]" 5]
  show ?thesis by (auto simp: cc_recv_def cc_send_def example_connection_def sock_rel_def)
qed

end
