(* ===== verification/Wifi_Connect.thy ===== *)
theory Wifi_Connect
  imports Iesp_Prelude
begin

text \<open>
  The WiFi set-up of the ESP32 boards (\<^verbatim>\<open>microcontrollers/wifi.cpp\<close>, \<^verbatim>\<open>microcontrollers/wifi-management.cpp\<close>):
  scanning for access points, and the state machine that tries the configured ones in the order of
  their signal strength. The WiFi library and the clock are a parameter over a state \<open>'w\<close> of the radio;
  what is relied on are the hypotheses \<open>wifi_clock\<close> and \<open>wifi_joins\<close>. LEDs, the display and console output
  are left out. \<open>std::sort\<close> leaves the order of equal elements open, so the sorting function is a parameter
  too, of which \<open>sorts\<close> says what the standard promises.
\<close>

section \<open>The library\<close>

datatype wl_status = WL_NO_SHIELD | WL_IDLE_STATUS | WL_NO_SSID_AVAIL | WL_SCAN_COMPLETED | WL_CONNECTED
  | WL_CONNECT_FAILED | WL_CONNECTION_LOST | WL_DISCONNECTED

datatype wifi_mode = WIFI_STA | WIFI_AP_STA

text \<open>\<open>wf_network i\<close>: name, signal strength, encryption and channel of network \<open>i\<close> of the last scan.\<close>

record 'w wifi_lib =
  wf_hostname :: "string \<Rightarrow> 'w \<Rightarrow> 'w"
  wf_persistent :: "bool \<Rightarrow> 'w \<Rightarrow> 'w"
  wf_mode :: "wifi_mode \<Rightarrow> 'w \<Rightarrow> 'w"
  wf_softAP :: "string \<Rightarrow> 'w \<Rightarrow> 'w"
  wf_scanNetworks :: "bool \<Rightarrow> 'w \<Rightarrow> 'w"
  wf_scanComplete :: "'w \<Rightarrow> int \<times> 'w"
  wf_scanDelete :: "'w \<Rightarrow> 'w"
  wf_network :: "nat \<Rightarrow> 'w \<Rightarrow> string \<times> int \<times> byte \<times> int"
  wf_begin :: "string \<Rightarrow> string \<Rightarrow> 'w \<Rightarrow> wl_status \<times> 'w"
  wf_status :: "'w \<Rightarrow> wl_status \<times> 'w"
  wf_disconnect :: "'w \<Rightarrow> 'w"
  wf_set_ps :: "bool \<Rightarrow> 'w \<Rightarrow> 'w"
  ar_millis :: "'w \<Rightarrow> u32 \<times> 'w"
  ar_delay :: "nat \<Rightarrow> 'w \<Rightarrow> 'w"

section \<open>Scanning\<close>

definition set_hostname :: "'w wifi_lib \<Rightarrow> string \<Rightarrow> 'w \<Rightarrow> bool \<times> 'w" where
  "set_hostname lib hostname w = (True, wf_hostname lib hostname w)"

definition start_wifi :: "'w wifi_lib \<Rightarrow> string option \<Rightarrow> 'w \<Rightarrow> 'w" where
  "start_wifi lib listen_ssid w =
     (let w = wf_persistent lib False w
      in case listen_ssid of
           Some ssid \<Rightarrow> wf_softAP lib ssid (wf_mode lib WIFI_AP_STA w)
         | None \<Rightarrow> wf_mode lib WIFI_STA w)"

definition scan_access_points_start :: "'w wifi_lib \<Rightarrow> 'w \<Rightarrow> 'w" where
  "scan_access_points_start lib w = wf_scanNetworks lib True w"

definition scan_access_points_cleanup :: "'w wifi_lib \<Rightarrow> 'w \<Rightarrow> 'w" where
  "scan_access_points_cleanup lib w = wf_scanDelete lib w"

definition scan_access_points_wait :: "'w wifi_lib \<Rightarrow> 'w \<Rightarrow> bool \<times> 'w" where
  "scan_access_points_wait lib w = (case wf_scanComplete lib w of (n, w) \<Rightarrow> (n \<ge> 0, w))"

type_synonym scan_results = "string \<rightharpoonup> int \<times> byte \<times> int"

text \<open>\<open>std::map::insert\<close> keeps the entry that is there.\<close>

definition scan_insert :: "string \<times> int \<times> byte \<times> int \<Rightarrow> scan_results \<Rightarrow> scan_results" where
  "scan_insert n out = (case out (fst n) of None \<Rightarrow> out(fst n \<mapsto> snd n) | Some _ \<Rightarrow> out)"

definition scan_access_points_get :: "'w wifi_lib \<Rightarrow> 'w \<Rightarrow> scan_results \<times> 'w" where
  "scan_access_points_get lib w =
     (let (n_networks, w) = wf_scanComplete lib w;
          out = fold (\<lambda>i. scan_insert (wf_network lib i w)) [0..<nat n_networks] Map.empty
      in (out, scan_access_points_cleanup lib w))"

section \<open>Connecting\<close>

datatype connect_status_t = CS_IDLE | CS_CONNECTED | CS_FAILURE

definition connect_to_access_point :: "'w wifi_lib \<Rightarrow> string \<Rightarrow> string \<Rightarrow> 'w \<Rightarrow> bool \<times> 'w" where
  "connect_to_access_point lib ssid password w =
     (let (status, w) = wf_begin lib ssid password w
      in (status \<noteq> WL_NO_SHIELD \<and> status \<noteq> WL_NO_SSID_AVAIL \<and> status \<noteq> WL_CONNECT_FAILED \<and> status \<noteq> WL_CONNECTION_LOST, w))"

definition check_wifi_connection_status :: "'w wifi_lib \<Rightarrow> 'w \<Rightarrow> connect_status_t \<times> 'w" where
  "check_wifi_connection_status lib w =
     (let (status, w) = wf_status lib w
      in (if status = WL_CONNECTED then CS_CONNECTED
          else if status = WL_IDLE_STATUS \<or> status = WL_DISCONNECTED then CS_IDLE else CS_FAILURE, w))"

text \<open>The argument is a \<open>std::map\<close>, which is run through in the order of its keys.\<close>

definition select_best_access_point :: "(string \<times> int) list \<Rightarrow> string option" where
  "select_best_access_point list =
     (let (best_ssid, best_ss) = fold (\<lambda>(ssid, ss) (best_ssid, best_ss).
            if ss > best_ss then (ssid, ss) else (best_ssid, best_ss)) list ([], - 32767)
      in if best_ssid = [] then None else Some best_ssid)"

type_synonym access_point = "string \<times> string \<times> int"

record 'w connect_state_t =
  cs_use :: "access_point list"
  cs_timeout :: int
  cs_nr :: nat
  cs_waiting_nr :: int
  connecting_state :: bool
  cs_last_tick :: u32
  cs_progress :: "(int \<Rightarrow> int \<Rightarrow> string \<Rightarrow> 'w \<Rightarrow> bool \<times> 'w) option"

definition candidates :: "(string \<times> string) list \<Rightarrow> scan_results \<Rightarrow> access_point list" where
  "candidates targets scan = concat (map (\<lambda>(ssid, psk).
     case scan ssid of None \<Rightarrow> [] | Some (rssi, _, _) \<Rightarrow> [(ssid, psk, rssi)]) targets)"

definition try_connect_init :: "(access_point list \<Rightarrow> access_point list) \<Rightarrow> (string \<times> string) list \<Rightarrow> scan_results \<Rightarrow> int
    \<Rightarrow> (int \<Rightarrow> int \<Rightarrow> string \<Rightarrow> 'w \<Rightarrow> bool \<times> 'w) option \<Rightarrow> 'w connect_state_t" where
  "try_connect_init std_sort targets scan timeout progress =
     \<lparr>cs_use = std_sort (candidates targets scan), cs_timeout = timeout, cs_nr = 0, cs_waiting_nr = 0,
      connecting_state = False, cs_last_tick = 0, cs_progress = progress\<rparr>"

definition wifi_disconnect :: "'w wifi_lib \<Rightarrow> 'w \<Rightarrow> bool \<times> 'w" where
  "wifi_disconnect lib w = (True, wf_disconnect lib w)"

definition notify :: "'w connect_state_t \<Rightarrow> int \<Rightarrow> int \<Rightarrow> string \<Rightarrow> 'w \<Rightarrow> bool \<times> 'w" where
  "notify cs nr mx which w = (case cs_progress cs of None \<Rightarrow> (True, w) | Some f \<Rightarrow> f nr mx which w)"

text \<open>The part of a tick that talks to the radio; \<open>Some rc\<close> is an early return.\<close>

definition tick_radio :: "'w wifi_lib \<Rightarrow> 'w connect_state_t \<Rightarrow> 'w \<Rightarrow> connect_status_t option \<times> 'w connect_state_t \<times> 'w" where
  "tick_radio lib cs w =
     (let (ssid, psk, _) = cs_use cs ! cs_nr cs
      in if \<not> connecting_state cs then
           (case connect_to_access_point lib ssid psk w of (ok, w) \<Rightarrow>
             (None, if ok then cs\<lparr>connecting_state := True, cs_waiting_nr := 0\<rparr> else cs\<lparr>cs_nr := cs_nr cs + 1\<rparr>, w))
         else
           (case check_wifi_connection_status lib w of (status, w) \<Rightarrow>
             if status = CS_CONNECTED then (Some CS_CONNECTED, cs, snd (notify cs 100 100 ssid w))
             else if cs_waiting_nr cs \<ge> cs_timeout cs then
               (Some CS_IDLE, cs\<lparr>cs_nr := cs_nr cs + 1, connecting_state := False\<rparr>, w)
             else if status = CS_FAILURE then
               (None, cs\<lparr>cs_nr := cs_nr cs + 1, connecting_state := False\<rparr>, snd (wifi_disconnect lib w))
             else (None, cs, w)))"

text \<open>\<open>size_t\<close> has 32 bits on these boards; the numbers for the indicator are computed in it.\<close>

definition tick_progress :: "'w connect_state_t \<Rightarrow> 'w \<Rightarrow> bool \<times> 'w" where
  "tick_progress cs w =
     (if cs_nr cs < length (cs_use cs) then
        notify cs (sint (of_nat (cs_nr cs) * of_int (cs_timeout cs) + of_int (cs_waiting_nr cs) :: u32))
          (sint (of_nat (length (cs_use cs)) * of_int (cs_timeout cs) :: u32)) (fst (cs_use cs ! cs_nr cs)) w
      else (True, w))"

definition tick_time :: "'w wifi_lib \<Rightarrow> 'w connect_state_t \<Rightarrow> 'w \<Rightarrow> 'w connect_state_t \<times> 'w" where
  "tick_time lib cs w =
     (let (now, w) = ar_millis lib w
      in if now - cs_last_tick cs \<ge> 100
         then (cs\<lparr>cs_last_tick := now, cs_waiting_nr := cs_waiting_nr cs + 1\<rparr>, w) else (cs, w))"

definition try_connect_tick :: "'w wifi_lib \<Rightarrow> 'w connect_state_t \<Rightarrow> 'w \<Rightarrow> connect_status_t \<times> 'w connect_state_t \<times> 'w" where
  "try_connect_tick lib cs w =
     (if cs_nr cs < length (cs_use cs) then
        (case tick_radio lib cs w of
           (Some rc, cs, w) \<Rightarrow> (rc, cs, w)
         | (None, cs, w) \<Rightarrow>
             (case tick_progress cs w of (go_on, w) \<Rightarrow>
               if go_on then (case tick_time lib cs w of (cs, w) \<Rightarrow> (CS_IDLE, cs, w))
               else (CS_FAILURE, cs, snd (notify cs 0 100 [] w))))
      else (CS_FAILURE, cs, snd (notify cs 0 100 [] w)))"

section \<open>Set-up\<close>

text \<open>
  Both loops end only when the radio lets them. The indicator of the set-up prints and returns true.
\<close>

partial_function (option) scan_loop :: "'w wifi_lib \<Rightarrow> 'w \<Rightarrow> 'w option" where
  "scan_loop lib w = (case scan_access_points_wait lib w of (ready, w) \<Rightarrow>
     if ready then Some w else scan_loop lib (ar_delay lib 100 w))"

partial_function (option) connect_loop :: "'w wifi_lib \<Rightarrow> 'w connect_state_t \<Rightarrow> 'w
    \<Rightarrow> (connect_status_t \<times> 'w connect_state_t \<times> 'w) option" where
  "connect_loop lib cs w = (case try_connect_tick lib cs w of (rc, cs, w) \<Rightarrow>
     if rc \<noteq> CS_IDLE then Some (rc, cs, w) else connect_loop lib cs (ar_delay lib 100 w))"

definition progress_indicator :: "int \<Rightarrow> int \<Rightarrow> string \<Rightarrow> 'w \<Rightarrow> bool \<times> 'w" where
  "progress_indicator nr mx which w = (True, w)"

definition setup_wifi :: "'w wifi_lib \<Rightarrow> (access_point list \<Rightarrow> access_point list) \<Rightarrow> (string \<times> string) list \<Rightarrow> 'w
    \<Rightarrow> (bool \<times> 'w) option" where
  "setup_wifi lib std_sort wifi_targets w =
     (case scan_loop lib (scan_access_points_start lib (start_wifi lib None w)) of
        None \<Rightarrow> None
      | Some w \<Rightarrow>
          (let (available, w) = scan_access_points_get lib w
           in case connect_loop lib (try_connect_init std_sort wifi_targets available 300 (Some progress_indicator)) w of
                None \<Rightarrow> None
              | Some (cs, state, w) \<Rightarrow> Some (cs = CS_CONNECTED, wf_set_ps lib False w)))"


section \<open>What is relied on\<close>

definition strength :: "access_point \<Rightarrow> int" where
  "strength ap = snd (snd ap)"

definition ap_key :: "access_point \<Rightarrow> string \<times> string" where
  "ap_key ap = (fst ap, fst (snd ap))"

definition sorts :: "(access_point list \<Rightarrow> access_point list) \<Rightarrow> bool" where
  "sorts std_sort \<longleftrightarrow> (\<forall>xs. set (std_sort xs) = set xs \<and> sorted_wrt (\<lambda>a b. strength b \<le> strength a) (std_sort xs))"

text \<open>
  The clock: \<open>clk w\<close> is the time in milliseconds, \<open>millis\<close> its lower 32 bits, \<open>delay\<close> waits as long as it
  says, and no call takes more than \<open>2 ^ 24\<close> ms (over four hours).
\<close>

definition takes :: "('w \<Rightarrow> nat) \<Rightarrow> nat \<Rightarrow> 'w \<Rightarrow> 'w \<Rightarrow> bool" where
  "takes clk n w w' \<longleftrightarrow> clk w + n \<le> clk w' \<and> clk w' \<le> clk w + n + 2 ^ 24"

definition wifi_clock :: "'w wifi_lib \<Rightarrow> ('w \<Rightarrow> nat) \<Rightarrow> bool" where
  "wifi_clock lib clk \<longleftrightarrow> (\<forall>w. fst (ar_millis lib w) = of_nat (clk w) \<and> takes clk 0 w (snd (ar_millis lib w)) \<and>
     (\<forall>n. takes clk n w (ar_delay lib n w)) \<and> (\<forall>ssid psk. takes clk 0 w (snd (wf_begin lib ssid psk w))) \<and>
     takes clk 0 w (snd (wf_status lib w)) \<and> takes clk 0 w (wf_disconnect lib w))"

text \<open>
  The radio: \<open>radio w\<close> is the access point it was last told to join and an upper limit of the questions
  after which it has joined, at most \<open>k\<close>. One that can be joined (\<open>good\<close>) is not refused, and until the
  radio has joined its status says that it is not connected yet; any other is never reported as connected.
\<close>

definition wifi_joins :: "'w wifi_lib \<Rightarrow> (string \<times> string \<Rightarrow> bool) \<Rightarrow> nat \<Rightarrow> ('w \<Rightarrow> (string \<times> string) \<times> nat) \<Rightarrow> bool" where
  "wifi_joins lib good k radio \<longleftrightarrow>
     (\<forall>w ssid psk. let (st, w') = wf_begin lib ssid psk w in fst (radio w') = (ssid, psk) \<and> snd (radio w') \<le> k \<and>
        (good (ssid, psk) \<longrightarrow> st \<notin> {WL_NO_SHIELD, WL_NO_SSID_AVAIL, WL_CONNECT_FAILED, WL_CONNECTION_LOST})) \<and>
     (\<forall>w. let (st, w') = wf_status lib w in fst (radio w') = fst (radio w) \<and>
        (if good (fst (radio w)) then st = WL_CONNECTED \<or>
            st \<in> {WL_IDLE_STATUS, WL_DISCONNECTED} \<and> snd (radio w') < snd (radio w)
         else st \<noteq> WL_CONNECTED)) \<and>
     (\<forall>w. radio (snd (ar_millis lib w)) = radio w) \<and> (\<forall>w n. radio (ar_delay lib n w) = radio w)"

section \<open>One tick\<close>

definition time_inv :: "('w \<Rightarrow> nat) \<Rightarrow> bool \<Rightarrow> u32 \<Rightarrow> 'w \<Rightarrow> bool" where
  "time_inv clk soon last_tick w \<longleftrightarrow> (\<exists>r. last_tick = of_nat r \<and> r + 100 \<le> clk w \<and> clk w \<le> r + (if soon then 2 ^ 30 else 2 ^ 31))"

definition join_inv :: "(string \<times> string \<Rightarrow> bool) \<Rightarrow> nat \<Rightarrow> ('w \<Rightarrow> (string \<times> string) \<times> nat) \<Rightarrow> 'w connect_state_t \<Rightarrow> 'w \<Rightarrow> bool" where
  "join_inv good k radio cs w \<longleftrightarrow> cs_nr cs < length (cs_use cs) \<and> fst (radio w) = ap_key (cs_use cs ! cs_nr cs) \<and>
     0 \<le> cs_waiting_nr cs \<and> cs_waiting_nr cs \<le> cs_timeout cs + 1 \<and>
     (good (fst (radio w)) \<longrightarrow> cs_waiting_nr cs + int (snd (radio w)) \<le> int k + 1)"

definition connect_inv :: "(string \<times> string \<Rightarrow> bool) \<Rightarrow> nat \<Rightarrow> ('w \<Rightarrow> nat) \<Rightarrow> ('w \<Rightarrow> (string \<times> string) \<times> nat)
    \<Rightarrow> 'w connect_state_t \<Rightarrow> 'w \<Rightarrow> bool" where
  "connect_inv good k clk radio cs w \<longleftrightarrow> cs_progress cs = Some progress_indicator \<and> int k < cs_timeout cs \<and>
     cs_nr cs \<le> length (cs_use cs) \<and> (\<forall>i < cs_nr cs. \<not> good (ap_key (cs_use cs ! i))) \<and>
     time_inv clk (connecting_state cs) (cs_last_tick cs) w \<and>
     (connecting_state cs \<longrightarrow> join_inv good k radio cs w)"

definition connect_left :: "'w connect_state_t \<Rightarrow> nat \<times> nat" where
  "connect_left cs = (length (cs_use cs) - cs_nr cs,
     if connecting_state cs then nat (cs_timeout cs + 1 - cs_waiting_nr cs) else nat (cs_timeout cs) + 2)"

abbreviation less_left :: "((nat \<times> nat) \<times> (nat \<times> nat)) set" where
  "less_left \<equiv> less_than <*lex*> less_than"

lemma takes_trans: "takes clk 0 a b \<Longrightarrow> clk b \<le> clk c \<Longrightarrow> clk a \<le> clk c"
  by (simp add: takes_def)

text \<open>Enough time has passed since the last count, so every tick that comes to it counts.\<close>

lemma tick_time_counts:
  assumes "wifi_clock lib clk" and "time_inv clk soon (cs_last_tick cs) w0" and "clk w0 \<le> clk w" and "clk w \<le> clk w0 + 2 ^ 26"
  shows "\<exists>w'. tick_time lib cs w = (cs\<lparr>cs_last_tick := of_nat (clk w), cs_waiting_nr := cs_waiting_nr cs + 1\<rparr>, w') \<and>
    w' = snd (ar_millis lib w) \<and> time_inv clk True (of_nat (clk w)) (ar_delay lib 100 w')"
proof -
  obtain r where r: "cs_last_tick cs = of_nat r" "r + 100 \<le> clk w0" "clk w0 \<le> r + 2 ^ 31"
    using assms(2) by (auto simp: time_inv_def split: if_splits)
  have n: "100 \<le> clk w - r" "clk w - r < 2 ^ 32" using r(2,3) assms(3,4) by simp_all
  then have u: "unat (of_nat (clk w - r) :: u32) = clk w - r" by (subst unat_of_nat) simp
  have diff: "of_nat (clk w) - cs_last_tick cs = of_nat (clk w - r)"
    unfolding r(1) using r(2) assms(3) by (intro of_nat_diff [symmetric]) simp
  have "100 \<le> of_nat (clk w) - cs_last_tick cs"
    unfolding diff word_le_nat_alt u using n(1) by simp
  moreover have t: "fst (ar_millis lib w) = of_nat (clk w)" "takes clk 0 w (snd (ar_millis lib w))"
    "takes clk 100 (snd (ar_millis lib w)) (ar_delay lib 100 (snd (ar_millis lib w)))"
    using assms(1) by (simp_all add: wifi_clock_def)
  moreover have "time_inv clk True (of_nat (clk w)) (ar_delay lib 100 (snd (ar_millis lib w)))"
    unfolding time_inv_def using t(2,3) by (intro exI [of _ "clk w"]) (simp add: takes_def)
  ultimately show ?thesis by (simp add: tick_time_def case_prod_unfold)
qed


lemma progress_goes_on: "cs_progress cs = Some progress_indicator \<Longrightarrow> tick_progress cs w = (True, w)"
  by (simp add: tick_progress_def notify_def progress_indicator_def)

lemma tick_counts:
  assumes "wifi_clock lib clk" and "time_inv clk soon (cs_last_tick cs) w0" and "cs_nr cs < length (cs_use cs)"
    and "tick_radio lib cs w0 = (None, cs1, w1)" and "clk w0 \<le> clk w1" and "clk w1 \<le> clk w0 + 2 ^ 26"
    and "cs_progress cs1 = Some progress_indicator" and "cs_last_tick cs1 = cs_last_tick cs"
  shows "\<exists>t w'. try_connect_tick lib cs w0 = (CS_IDLE, cs1\<lparr>cs_last_tick := t, cs_waiting_nr := cs_waiting_nr cs1 + 1\<rparr>, w') \<and>
    w' = snd (ar_millis lib w1) \<and> time_inv clk True t (ar_delay lib 100 w')"
  using tick_time_counts [OF assms(1) _ assms(5,6), of soon cs1] assms(2-4,8) progress_goes_on [OF assms(7)]
  by (auto simp: try_connect_tick_def)

lemma time_inv_mono: "time_inv clk True t w \<Longrightarrow> time_inv clk soon t w"
  by (fastforce simp: time_inv_def)

lemma tick_begin:
  assumes lib: "wifi_clock lib clk" "wifi_joins lib good k radio" and i: "connect_inv good k clk radio cs w"
    and nr: "cs_nr cs < length (cs_use cs)" and c: "\<not> connecting_state cs"
  shows "\<exists>cs' w'. try_connect_tick lib cs w = (CS_IDLE, cs', w') \<and> cs_use cs' = cs_use cs \<and>
    connect_inv good k clk radio cs' (ar_delay lib 100 w') \<and> (connect_left cs', connect_left cs) \<in> less_left"
proof -
  note i = i [unfolded connect_inv_def]
  obtain ssid psk rssi where ap: "cs_use cs ! cs_nr cs = (ssid, psk, rssi)" by (metis prod_cases3)
  obtain st w1 where b: "wf_begin lib ssid psk w = (st, w1)" by fastforce
  define ok where "ok \<longleftrightarrow> st \<noteq> WL_NO_SHIELD \<and> st \<noteq> WL_NO_SSID_AVAIL \<and> st \<noteq> WL_CONNECT_FAILED \<and> st \<noteq> WL_CONNECTION_LOST"
  have r: "fst (radio w1) = (ssid, psk)" "snd (radio w1) \<le> k" "good (ssid, psk) \<longrightarrow> ok"
    using lib(2) [unfolded wifi_joins_def, THEN conjunct1, rule_format, of ssid psk w] by (auto simp: b ok_def)
  have "takes clk 0 w w1" using lib(1) b unfolding wifi_clock_def by (metis snd_conv)
  then have t: "clk w \<le> clk w1" "clk w1 \<le> clk w + 2 ^ 26" by (simp_all add: takes_def)
  define cs1 where "cs1 = (if ok then cs\<lparr>connecting_state := True, cs_waiting_nr := 0\<rparr> else cs\<lparr>cs_nr := cs_nr cs + 1\<rparr>)"
  have rd: "tick_radio lib cs w = (None, cs1, w1)"
    using c by (simp add: tick_radio_def ap connect_to_access_point_def b cs1_def ok_def)
  have "cs_progress cs1 = Some progress_indicator" "cs_last_tick cs1 = cs_last_tick cs" using i by (simp_all add: cs1_def)
  then obtain now w2 where k: "try_connect_tick lib cs w = (CS_IDLE, cs1\<lparr>cs_last_tick := now, cs_waiting_nr := cs_waiting_nr cs1 + 1\<rparr>, w2)"
    "w2 = snd (ar_millis lib w1)" "time_inv clk True now (ar_delay lib 100 w2)"
    using tick_counts [OF lib(1) _ nr rd t, of "connecting_state cs"] i by blast
  have rad: "radio (ar_delay lib 100 w2) = radio w1" using lib(2) unfolding k(2) wifi_joins_def by simp
  show ?thesis
  proof (cases ok)
    case True
    then show ?thesis using k(1,3) rad r i nr ap
      by (auto simp: cs1_def connect_inv_def join_inv_def ap_key_def connect_left_def c)
  next
    case False
    then have "\<forall>j < cs_nr cs + 1. \<not> good (ap_key (cs_use cs ! j))"
      using i r(3) ap by (auto simp: less_Suc_eq ap_key_def)
    then show ?thesis using False k(1) time_inv_mono [OF k(3), of False] i nr c
      by (auto simp: cs1_def connect_inv_def connect_left_def)
  qed
qed

lemma tick_wait:
  assumes lib: "wifi_clock lib clk" "wifi_joins lib good k radio" and i: "connect_inv good k clk radio cs w"
    and c: "connecting_state cs"
  shows "\<exists>rc cs' w'. try_connect_tick lib cs w = (rc, cs', w') \<and> cs_use cs' = cs_use cs \<and>
    (rc = CS_CONNECTED \<and> cs_nr cs' = cs_nr cs \<and> good (ap_key (cs_use cs ! cs_nr cs)) \<or>
     rc = CS_IDLE \<and> connect_inv good k clk radio cs' (ar_delay lib 100 w') \<and> (connect_left cs', connect_left cs) \<in> less_left)"
proof -
  note i = i [unfolded connect_inv_def]
  note j = i [THEN conjunct2, THEN conjunct2, THEN conjunct2, THEN conjunct2, THEN conjunct2, rule_format, OF c, unfolded join_inv_def]
  obtain ssid psk rssi where ap: "cs_use cs ! cs_nr cs = (ssid, psk, rssi)" by (metis prod_cases3)
  obtain st w1 where b: "wf_status lib w = (st, w1)" by fastforce
  let ?g = "good (ap_key (cs_use cs ! cs_nr cs))"
  have r: "fst (radio w1) = fst (radio w)" "?g \<Longrightarrow> st = WL_CONNECTED \<or> st \<in> {WL_IDLE_STATUS, WL_DISCONNECTED} \<and>
      snd (radio w1) < snd (radio w)" "st = WL_CONNECTED \<Longrightarrow> ?g"
    using lib(2) [unfolded wifi_joins_def, THEN conjunct2, THEN conjunct1, rule_format, of w] j by (auto simp: b split: if_splits)
  have t1: "takes clk 0 w w1" using lib(1) b unfolding wifi_clock_def by (metis snd_conv)
  have next_bad: "\<forall>m < cs_nr cs + 1. \<not> good (ap_key (cs_use cs ! m))" if "\<not> ?g"
    using i that by (auto simp: less_Suc_eq)
  consider "st = WL_CONNECTED" | "st \<noteq> WL_CONNECTED" "cs_timeout cs \<le> cs_waiting_nr cs"
    | "st \<noteq> WL_CONNECTED" "cs_waiting_nr cs < cs_timeout cs" "st \<notin> {WL_IDLE_STATUS, WL_DISCONNECTED}"
    | "cs_waiting_nr cs < cs_timeout cs" "st \<in> {WL_IDLE_STATUS, WL_DISCONNECTED}" by linarith
  then show ?thesis
  proof cases
    case 1
    then show ?thesis using c r(3) j by (simp add: try_connect_tick_def tick_radio_def ap check_wifi_connection_status_def b)
  next
    case 2
    have bad: "\<not> ?g"
    proof
      assume g: ?g
      then have "snd (radio w1) < snd (radio w)" using r(2) 2(1) by blast
      moreover have "cs_waiting_nr cs + int (snd (radio w)) \<le> int k + 1" using g j by simp
      ultimately show False using i 2(2) by linarith
    qed
    obtain now where now: "cs_last_tick cs = of_nat now" "now + 100 \<le> clk w" "clk w \<le> now + 2 ^ 30"
      using i c by (auto simp: time_inv_def)
    have "takes clk 100 w1 (ar_delay lib 100 w1)" using lib(1) by (simp add: wifi_clock_def)
    then have "time_inv clk False (cs_last_tick cs) (ar_delay lib 100 w1)"
      using t1 now by (auto simp: time_inv_def takes_def intro!: exI [of _ now])
    moreover have "try_connect_tick lib cs w = (CS_IDLE, cs\<lparr>cs_nr := cs_nr cs + 1, connecting_state := False\<rparr>, w1)"
      using 2 c j by (simp add: try_connect_tick_def tick_radio_def ap check_wifi_connection_status_def b)
    ultimately show ?thesis using next_bad [OF bad] i j by (auto simp: connect_inv_def connect_left_def)
  next
    case 3
    have bad: "\<not> ?g" using r(2) 3 by blast
    define w2 where "w2 = wf_disconnect lib w1"
    have "takes clk 0 w1 w2" using lib(1) by (simp add: wifi_clock_def w2_def)
    then have t: "clk w \<le> clk w2" "clk w2 \<le> clk w + 2 ^ 26" using t1 by (simp_all add: takes_def)
    define cs1 where "cs1 = cs\<lparr>cs_nr := cs_nr cs + 1, connecting_state := False\<rparr>"
    have "tick_radio lib cs w = (None, cs1, w2)"
      using 3 c j by (simp add: tick_radio_def ap check_wifi_connection_status_def b cs1_def wifi_disconnect_def w2_def)
    then obtain now w3 where k: "try_connect_tick lib cs w = (CS_IDLE, cs1\<lparr>cs_last_tick := now, cs_waiting_nr := cs_waiting_nr cs1 + 1\<rparr>, w3)"
      "time_inv clk True now (ar_delay lib 100 w3)"
      using tick_counts [OF lib(1) _ _ _ t, of "connecting_state cs" cs cs1] i j by (auto simp: cs1_def)
    then show ?thesis using next_bad [OF bad] time_inv_mono [OF k(2), of False] i j
      by (auto simp: cs1_def connect_inv_def connect_left_def)
  next
    case 4
    have t: "clk w \<le> clk w1" "clk w1 \<le> clk w + 2 ^ 26" using t1 by (simp_all add: takes_def)
    have "tick_radio lib cs w = (None, cs, w1)"
      using 4 c j by (auto simp: tick_radio_def ap check_wifi_connection_status_def b)
    then obtain now w2 where k: "try_connect_tick lib cs w = (CS_IDLE, cs\<lparr>cs_last_tick := now, cs_waiting_nr := cs_waiting_nr cs + 1\<rparr>, w2)"
      "w2 = snd (ar_millis lib w1)" "time_inv clk True now (ar_delay lib 100 w2)"
      using tick_counts [OF lib(1) _ _ _ t, of "connecting_state cs" cs cs] i j by auto
    have rad: "radio (ar_delay lib 100 w2) = radio w1" using lib(2) unfolding k(2) wifi_joins_def by simp
    have dec: "?g \<Longrightarrow> snd (radio w1) < snd (radio w)" using r(2) 4 by auto
    have "join_inv good k radio (cs\<lparr>cs_last_tick := now, cs_waiting_nr := cs_waiting_nr cs + 1\<rparr>) (ar_delay lib 100 w2)"
      using j r(1) dec 4 by (auto simp: join_inv_def rad)
    then show ?thesis using k(1,3) i c 4 j by (auto simp: connect_inv_def connect_left_def)
  qed
qed


section \<open>Connecting as a whole\<close>

lemma connect_loop_law:
  assumes lib: "wifi_clock lib clk" "wifi_joins lib good k radio" and i: "connect_inv good k clk radio cs w"
  shows "\<exists>rc cs' w'. connect_loop lib cs w = Some (rc, cs', w') \<and> cs_use cs' = cs_use cs \<and>
    (if \<exists>ap \<in> set (cs_use cs). good (ap_key ap)
     then rc = CS_CONNECTED \<and> cs_nr cs' < length (cs_use cs) \<and> good (ap_key (cs_use cs ! cs_nr cs')) \<and>
       (\<forall>j < cs_nr cs'. \<not> good (ap_key (cs_use cs ! j)))
     else rc = CS_FAILURE)"
  using i
proof (induction "connect_left cs" arbitrary: cs w rule: wf_induct_rule [OF wf_lex_prod [OF wf_less_than wf_less_than]])
  case (1 cs w)
  note i = 1(2) [unfolded connect_inv_def]
  show ?case
  proof (cases "cs_nr cs < length (cs_use cs)")
    case False
    then have "\<forall>ap \<in> set (cs_use cs). \<not> good (ap_key ap)" using i by (metis in_set_conv_nth order_le_less)
    moreover have "try_connect_tick lib cs w = (CS_FAILURE, cs, w)"
      using False i by (simp add: try_connect_tick_def notify_def progress_indicator_def)
    ultimately show ?thesis by (subst connect_loop.simps) auto
  next
    case True
    obtain rc cs1 w1 where t: "try_connect_tick lib cs w = (rc, cs1, w1)" "cs_use cs1 = cs_use cs"
      "rc = CS_CONNECTED \<and> cs_nr cs1 = cs_nr cs \<and> good (ap_key (cs_use cs ! cs_nr cs)) \<or>
       rc = CS_IDLE \<and> connect_inv good k clk radio cs1 (ar_delay lib 100 w1) \<and> (connect_left cs1, connect_left cs) \<in> less_left"
      using tick_begin [OF lib 1(2) True] tick_wait [OF lib 1(2)] by metis
    show ?thesis
    proof (cases "rc = CS_CONNECTED")
      case con: True
      then have g: "good (ap_key (cs_use cs ! cs_nr cs))" "cs_nr cs1 = cs_nr cs" using t(3) by auto
      moreover have "\<exists>ap \<in> set (cs_use cs). good (ap_key ap)" using g(1) True nth_mem by blast
      ultimately show ?thesis using con t(1,2) True i by (subst connect_loop.simps) auto
    next
      case False
      then have s: "rc = CS_IDLE" "connect_inv good k clk radio cs1 (ar_delay lib 100 w1)" "(connect_left cs1, connect_left cs) \<in> less_left"
        using t(3) by auto
      have "connect_loop lib cs w = connect_loop lib cs1 (ar_delay lib 100 w1)"
        by (subst connect_loop.simps) (simp add: t(1) s(1))
      then show ?thesis using 1(1) [OF s(3,2)] unfolding t(2) by simp
    qed
  qed
qed

lemma candidates_set: "ap \<in> set (candidates targets scan) \<longleftrightarrow>
    ap_key ap \<in> set targets \<and> (\<exists>rest. scan (fst ap) = Some (strength ap, rest))"
proof (induction targets)
  case (Cons t targets)
  then show ?case
    by (cases t; cases ap; cases "scan (fst t)") (auto simp: candidates_def ap_key_def strength_def)
qed (simp add: candidates_def)

text \<open>
  C22: once the scan is complete, the WiFi set-up ends, and it joins the strongest of the access points that
  are configured, were found and can be joined, whatever the others do (refuse at once, fail after a while,
  never answer); it reports failure exactly when there is none. This needs an access point that can be joined
  to do so within the time-out.
\<close>

theorem wifi_joins_strongest:
  assumes "wifi_clock lib clk" and "wifi_joins lib good k radio" and "sorts std_sort" and "k < 300"
    and "scan_loop lib (scan_access_points_start lib (start_wifi lib None w)) = Some w1"
    and "scan_access_points_get lib w1 = (scan, w2)" and "100 \<le> clk w2" and "clk w2 \<le> 2 ^ 31"
    and "usable = {ap. ap_key ap \<in> set targets \<and> (\<exists>rest. scan (fst ap) = Some (strength ap, rest)) \<and> good (ap_key ap)}"
  shows "\<exists>rc cs w3. connect_loop lib (try_connect_init std_sort targets scan 300 (Some progress_indicator)) w2 = Some (rc, cs, w3) \<and>
    setup_wifi lib std_sort targets w = Some (usable \<noteq> {}, wf_set_ps lib False w3) \<and>
    (usable \<noteq> {} \<longrightarrow> cs_use cs ! cs_nr cs \<in> usable \<and> (\<forall>ap \<in> usable. strength ap \<le> strength (cs_use cs ! cs_nr cs)))"
proof -
  define cs0 :: "'a connect_state_t" where "cs0 = try_connect_init std_sort targets scan 300 (Some progress_indicator)"
  have use: "set (cs_use cs0) = set (candidates targets scan)" "sorted_wrt (\<lambda>a b. strength b \<le> strength a) (cs_use cs0)"
    using assms(3) by (simp_all add: cs0_def try_connect_init_def sorts_def)
  have "connect_inv good k clk radio cs0 w2"
    using assms(4,7,8) by (simp add: connect_inv_def cs0_def try_connect_init_def time_inv_def exI [of _ 0])
  then obtain rc cs w3 where l: "connect_loop lib cs0 w2 = Some (rc, cs, w3)" "cs_use cs = cs_use cs0"
    "if \<exists>ap \<in> set (cs_use cs0). good (ap_key ap)
     then rc = CS_CONNECTED \<and> cs_nr cs < length (cs_use cs0) \<and> good (ap_key (cs_use cs0 ! cs_nr cs)) \<and>
       (\<forall>j < cs_nr cs. \<not> good (ap_key (cs_use cs0 ! j)))
     else rc = CS_FAILURE"
    using connect_loop_law [OF assms(1,2)] by blast
  have "usable = {ap \<in> set (cs_use cs0). good (ap_key ap)}" unfolding assms(9) use(1) candidates_set by blast
  then have u: "usable \<noteq> {} \<longleftrightarrow> (\<exists>ap \<in> set (cs_use cs0). good (ap_key ap))" by blast
  have "strength ap \<le> strength (cs_use cs0 ! cs_nr cs)" if "ap \<in> usable" for ap
  proof -
    have "ap \<in> set (cs_use cs0)" "good (ap_key ap)" using that assms(9) use(1) candidates_set by auto
    then obtain j where j: "j < length (cs_use cs0)" "cs_use cs0 ! j = ap" "good (ap_key ap)" by (meson in_set_conv_nth)
    then have n: "cs_nr cs < length (cs_use cs0)" "\<not> j < cs_nr cs" using l(3) that u by (auto split: if_splits)
    show ?thesis using sorted_wrt_nth_less [OF use(2), of "cs_nr cs" j] j(1,2) n by (cases "cs_nr cs = j") auto
  qed
  moreover have "cs_use cs0 ! cs_nr cs \<in> usable" if "usable \<noteq> {}" 
    using l(3) u that use(1) assms(9) nth_mem [of "cs_nr cs" "cs_use cs0"] candidates_set by auto
  moreover have "rc = CS_CONNECTED \<longleftrightarrow> usable \<noteq> {}" using l(3) u by (auto split: if_splits)
  ultimately show ?thesis
    using l(1,2) assms(5,6) unfolding cs0_def by (simp add: setup_wifi_def)
qed

text \<open>
  A scan that fails, which \<open>scanComplete\<close> reports as a negative number, is waited for without end: the set-up
  never returns, although an access point could be joined.
\<close>

theorem failed_scan_hangs:
  assumes "\<And>w. fst (wf_scanComplete lib w) < 0"
  shows "setup_wifi lib std_sort targets w = None"
proof -
  have "\<exists>w. fst (wf_scanComplete lib w) \<ge> 0" if "scan_loop lib w = Some r" for w r
  proof (rule scan_loop.raw_induct [where P = "\<lambda>lib w r. \<exists>w. fst (wf_scanComplete lib w) \<ge> 0", OF _ that])
    fix f and lib :: "'a wifi_lib" and w r
    assume IH: "\<And>lib w r. f lib w = Some r \<Longrightarrow> \<exists>w. fst (wf_scanComplete lib w) \<ge> 0"
      and body: "(case scan_access_points_wait lib w of (ready, w) \<Rightarrow>
        if ready then Some w else f lib (ar_delay lib 100 w)) = Some r"
    obtain n w' where n: "wf_scanComplete lib w = (n, w')" by fastforce
    show "\<exists>w. fst (wf_scanComplete lib w) \<ge> 0"
    proof (cases "0 \<le> n")
      case True
      then show ?thesis using n by (intro exI [of _ w]) simp
    next
      case False
      then have "f lib (ar_delay lib 100 w') = Some r" using body by (simp add: scan_access_points_wait_def n)
      then show ?thesis by (rule IH)
    qed
  qed
  then have "scan_loop lib w = None" for w using assms by (cases "scan_loop lib w") (simp, meson leD)
  then show ?thesis by (simp add: setup_wifi_def)
qed

text \<open>
  Two networks are in range, and the stronger one never answers: the state is the time, the access point
  to be joined and the questions left.
\<close>

type_synonym example_radio = "nat \<times> (string \<times> string) \<times> nat"

definition example_wifi :: "example_radio wifi_lib" where
  "example_wifi = \<lparr>wf_hostname = (\<lambda>n w. w), wf_persistent = (\<lambda>b w. w), wf_mode = (\<lambda>m w. w), wf_softAP = (\<lambda>s w. w),
     wf_scanNetworks = (\<lambda>b w. w), wf_scanComplete = (\<lambda>w. (2, w)), wf_scanDelete = (\<lambda>w. w),
     wf_network = (\<lambda>i w. if i = 0 then (''home'', - 70, 0, 1) else (''guest'', - 40, 0, 6)),
     wf_begin = (\<lambda>ssid psk (t, _). (WL_DISCONNECTED, t, (ssid, psk), 2)),
     wf_status = (\<lambda>(t, ap, n). (if fst ap = ''home'' \<and> n = 0 then WL_CONNECTED else WL_DISCONNECTED, t, ap, n - 1)),
     wf_disconnect = (\<lambda>w. w), wf_set_ps = (\<lambda>b w. w),
     ar_millis = (\<lambda>(t, r). (of_nat t, t, r)), ar_delay = (\<lambda>n (t, r). (t + n, r))\<rparr>"

definition example_targets :: "(string \<times> string) list" where
  "example_targets = [(''guest'', []), (''home'', ''secret''), (''office'', ''x'')]"

lemma example_wifi_relied:
  "wifi_clock example_wifi fst" "wifi_joins example_wifi (\<lambda>ap. fst ap = ''home'') 2 snd"
  by (auto simp: wifi_clock_def wifi_joins_def takes_def example_wifi_def)

definition example_found :: scan_results where
  "example_found = [''home'' \<mapsto> (- 70, 0, 1), ''guest'' \<mapsto> (- 40, 0, 6)]"

lemma example_scan:
  "scan_loop example_wifi (scan_access_points_start example_wifi (start_wifi example_wifi None (1000, ([], []), 0))) =
     Some (1000, ([], []), 0)"
  "scan_access_points_get example_wifi (1000, ([], []), 0) = (example_found, 1000, ([], []), 0)"
  by (subst scan_loop.simps)
    (simp_all add: example_wifi_def scan_access_points_start_def start_wifi_def scan_access_points_wait_def Let_def
      scan_access_points_get_def scan_access_points_cleanup_def scan_insert_def upt_rec example_found_def)

lemma sorts_sort_key: "sorts (sort_key (\<lambda>ap. - strength ap))"
proof -
  have "sorted_wrt (\<lambda>a b. strength b \<le> strength a) (sort_key (\<lambda>ap. - strength ap) xs)" for xs
    using sorted_sort_key [of "\<lambda>ap. - strength ap" xs] by (simp add: sorted_map)
  then show ?thesis by (simp add: sorts_def)
qed

theorem wifi_joins_strongest_witness:
  "\<exists>rc cs w3. connect_loop example_wifi (try_connect_init (sort_key (\<lambda>ap. - strength ap)) example_targets example_found 300
      (Some progress_indicator)) (1000, ([], []), 0) = Some (rc, cs, w3) \<and>
    setup_wifi example_wifi (sort_key (\<lambda>ap. - strength ap)) example_targets (1000, ([], []), 0) = Some (True, w3) \<and>
    cs_use cs ! cs_nr cs = (''home'', ''secret'', - 70)"
proof -
  have u: "{(''home'', ''secret'', - 70)} = {ap. ap_key ap \<in> set example_targets \<and>
      (\<exists>rest. example_found (fst ap) = Some (strength ap, rest)) \<and> fst (ap_key ap) = ''home''}"
    by (auto simp: example_targets_def ap_key_def strength_def example_found_def)
  have ps: "wf_set_ps example_wifi b w = w" for b w by (simp add: example_wifi_def)
  have t: "100 \<le> fst (1000 :: nat, ([] :: string, [] :: string), 0 :: nat)" "fst (1000 :: nat, ([] :: string, [] :: string), 0 :: nat) \<le> 2 ^ 31"
    by simp_all
  show ?thesis
    using wifi_joins_strongest [OF example_wifi_relied sorts_sort_key _ example_scan t u] unfolding ps by simp blast
qed

end
