(* ===== verification/Backend_Sdcard.thy ===== *)
theory Backend_Sdcard
  imports Backend
begin

text \<open>
  The SD-card backend of the ESP32 builds (\<^verbatim>\<open>microcontrollers/backend-sdcard.cpp\<close>): one large file on a
  card, accessed through the SdFat library. The library is a parameter of the model; that it behaves as
  a file is the hypothesis \<open>sd_serves\<close>. LEDs, log lines and the listing of the card are left
  out; \<open>size_t\<close> has 32 bits there. An operation is one step: the lock that serialises the accesses is held
  through each of them (\<open>cmpwrite\<close> holds the range locks instead).
\<close>

section \<open>The library\<close>

text \<open>
  The calls of SdFat over a state \<open>'w\<close> of card and library. \<open>read\<close> gives the bytes read, or an error;
  \<open>write\<close> the number of bytes written.
\<close>

record 'w sd_lib =
  sd_begin :: "nat \<Rightarrow> 'w \<Rightarrow> bool \<times> 'w"
  sd_end :: "'w \<Rightarrow> 'w"
  sd_is_busy :: "'w \<Rightarrow> bool \<times> 'w"
  sd_readCID :: "'w \<Rightarrow> u32 option"
  fs_open :: "string \<Rightarrow> 'w \<Rightarrow> bool \<times> 'w"
  fs_close :: "'w \<Rightarrow> 'w"
  fs_fileSize :: "'w \<Rightarrow> u64"
  fs_sync :: "'w \<Rightarrow> bool \<times> 'w"
  fs_seekSet :: "u64 \<Rightarrow> 'w \<Rightarrow> bool \<times> 'w"
  fs_read :: "nat \<Rightarrow> 'w \<Rightarrow> byte list option \<times> 'w"
  fs_write :: "byte list \<Rightarrow> 'w \<Rightarrow> nat \<times> 'w"

section \<open>State\<close>

record 'w backend_sdcard =
  sd_disk_name :: string
  sd_spi_speed :: "nat option"
  sd_card_size :: u64
  sd_bs :: backend_stats_t
  sd_ts_last_acces :: u64
  sd_locks :: "bool list"
  sd_world :: 'w

definition sdcard_new :: "string \<Rightarrow> nat option \<Rightarrow> 'w \<Rightarrow> env \<Rightarrow> 'w backend_sdcard \<times> env" where
  "sdcard_new disk_name spi_speed w e =
     (let (t, e) = get_micros e
      in (\<lparr>sd_disk_name = disk_name, sd_spi_speed = spi_speed, sd_card_size = 0, sd_bs = zero_stats,
           sd_ts_last_acces = t, sd_locks = no_locks, sd_world = w\<rparr>, e))"

section \<open>Starting the card\<close>

text \<open>The speeds that are tried when none is configured, in MHz: from 50 down to 14 in steps of 4.\<close>

definition sd_speeds :: "nat list" where
  "sd_speeds = map (\<lambda>i. 50 - 4 * i) [0..<10]"

fun sd_try_speeds :: "'w sd_lib \<Rightarrow> nat list \<Rightarrow> 'w \<Rightarrow> bool \<times> 'w" where
  "sd_try_speeds lib [] w = (False, w)"
| "sd_try_speeds lib (sp # sps) w =
     (case sd_begin lib sp w of (ok, w) \<Rightarrow> if ok then (True, w) else sd_try_speeds lib sps w)"

definition sdcard_reinit :: "'w sd_lib \<Rightarrow> bool \<Rightarrow> 'w backend_sdcard \<Rightarrow> bool \<times> 'w backend_sdcard" where
  "sdcard_reinit lib close_first b =
     (let w = (if close_first then sd_end lib (fs_close lib (sd_world b)) else sd_world b);
          (ok, w) = (case sd_spi_speed b of Some sp \<Rightarrow> sd_begin lib sp w | None \<Rightarrow> sd_try_speeds lib sd_speeds w)
      in if \<not> ok then (False, b\<lparr>sd_world := w\<rparr>)
         else case fs_open lib (sd_disk_name b) w of (ok, w) \<Rightarrow>
           if \<not> ok then (False, b\<lparr>sd_world := w\<rparr>)
           else (True, b\<lparr>sd_world := w, sd_card_size := fs_fileSize lib w\<rparr>))"

fun sdcard_begin_loop :: "'w sd_lib \<Rightarrow> nat list \<Rightarrow> 'w backend_sdcard \<Rightarrow> bool \<times> 'w backend_sdcard" where
  "sdcard_begin_loop lib [] b = (False, b)"
| "sdcard_begin_loop lib (i # is) b =
     (case sdcard_reinit lib (i \<noteq> 0) b of (ok, b) \<Rightarrow> if ok then (True, b) else sdcard_begin_loop lib is b)"

definition sdcard_begin :: "'w sd_lib \<Rightarrow> 'w backend_sdcard \<Rightarrow> bool \<times> 'w backend_sdcard" where
  "sdcard_begin lib b = sdcard_begin_loop lib [0, 1, 2] b"

definition sdcard_delete :: "'w sd_lib \<Rightarrow> 'w backend_sdcard \<Rightarrow> 'w" where
  "sdcard_delete lib b = sd_end lib (fs_close lib (sd_world b))"

section \<open>Operations\<close>

definition sdcard_get_block_size :: "'w backend_sdcard \<Rightarrow> u64" where
  "sdcard_get_block_size b = 512"

definition sdcard_get_size_in_blocks :: "'w backend_sdcard \<Rightarrow> u64" where
  "sdcard_get_size_in_blocks b = sd_card_size b div sdcard_get_block_size b"

text \<open>A failing \<open>sync\<close> of the file is only logged.\<close>

definition sdcard_sync :: "'w sd_lib \<Rightarrow> 'w backend_sdcard \<times> env \<Rightarrow> (bool \<times> 'w backend_sdcard \<times> env) result" where
  "sdcard_sync lib = (\<lambda>(b, e).
     let (start, e) = get_micros e;
         (_, w) = fs_sync lib (sd_world b);
         (end_ts, e) = get_micros e;
         bs = add_io_wait start end_ts ((sd_bs b)\<lparr>bs_n_syncs := bs_n_syncs (sd_bs b) + 1\<rparr>);
         (now, e) = get_micros e
     in Inr (True, b\<lparr>sd_world := w, sd_bs := bs, sd_ts_last_acces := now\<rparr>, e))"

text \<open>Waiting until the card can take a write; \<open>fuel\<close> questions at most.\<close>

fun wait_for_card :: "nat \<Rightarrow> 'w sd_lib \<Rightarrow> 'w \<Rightarrow> 'w result" where
  "wait_for_card 0 lib w = Inl No_return"
| "wait_for_card (Suc fuel) lib w =
     (case sd_is_busy lib w of (busy, w) \<Rightarrow> if busy then wait_for_card fuel lib w else Inr w)"

definition sdcard_write :: "nat \<Rightarrow> 'w sd_lib \<Rightarrow> u64 \<Rightarrow> u32 \<Rightarrow> byte list \<Rightarrow> 'w backend_sdcard \<times> env
    \<Rightarrow> (bool \<times> 'w backend_sdcard \<times> env) result" where
  "sdcard_write fuel lib block_nr n_blocks data = (\<lambda>(b, e).
     let iscsi_block_size = sdcard_get_block_size b;
         byte_address = block_nr * iscsi_block_size;
         (start, e) = get_micros e;
         (ok, w) = fs_seekSet lib byte_address (sd_world b)
     in if \<not> ok then Inr (False, b\<lparr>sd_world := w\<rparr>, e)
        else
          let n_bytes_to_write = (ucast (ucast n_blocks * iscsi_block_size) :: u32);
              bs = (sd_bs b)\<lparr>bs_bytes_written := bs_bytes_written (sd_bs b) + ucast n_bytes_to_write\<rparr>
          in bindR (wait_for_card fuel lib w) (\<lambda>w.
             if length data < unat n_bytes_to_write then Inl Mem_oob
             else
               let (bytes_written, w) = fs_write lib (take (unat n_bytes_to_write) data) w;
                   rc = (bytes_written = unat n_bytes_to_write);
                   (end_ts, e) = get_micros e;
                   bs = add_io_wait start end_ts bs
               in Inr (rc, b\<lparr>sd_world := w, sd_bs := bs\<lparr>bs_n_writes := bs_n_writes bs + 1\<rparr>,
                        sd_ts_last_acces := end_ts\<rparr>, e)))"

fun sdcard_trim_loop :: "nat \<Rightarrow> 'w sd_lib \<Rightarrow> u64 \<Rightarrow> nat \<Rightarrow> byte list \<Rightarrow> 'w backend_sdcard \<times> env
    \<Rightarrow> (bool \<times> 'w backend_sdcard \<times> env) result" where
  "sdcard_trim_loop fuel lib nr 0 data st = Inr (True, st)"
| "sdcard_trim_loop fuel lib nr (Suc left) data st =
     bindR (sdcard_write fuel lib nr 1 data st) (\<lambda>(ok, st).
     if \<not> ok then Inr (False, st) else sdcard_trim_loop fuel lib (nr + 1) left data st)"

definition sdcard_trim :: "nat \<Rightarrow> 'w sd_lib \<Rightarrow> u64 \<Rightarrow> u32 \<Rightarrow> 'w backend_sdcard \<times> env
    \<Rightarrow> (bool \<times> 'w backend_sdcard \<times> env) result" where
  "sdcard_trim fuel lib block_nr n_blocks st =
     sdcard_trim_loop fuel lib block_nr (unat n_blocks) (replicate (unat (sdcard_get_block_size (fst st))) 0) st"

definition sdcard_read :: "'w sd_lib \<Rightarrow> u64 \<Rightarrow> u32 \<Rightarrow> byte list \<Rightarrow> 'w backend_sdcard \<times> env
    \<Rightarrow> (bool \<times> byte list \<times> 'w backend_sdcard \<times> env) result" where
  "sdcard_read lib block_nr n_blocks data = (\<lambda>(b, e).
     let iscsi_block_size = sdcard_get_block_size b;
         byte_address = block_nr * iscsi_block_size;
         (start, e) = get_micros e;
         (ok, w) = fs_seekSet lib byte_address (sd_world b)
     in if \<not> ok then Inr (False, data, b\<lparr>sd_world := w\<rparr>, e)
        else
          let n_bytes_to_read = (ucast (ucast n_blocks * iscsi_block_size) :: u32);
              bs = (sd_bs b)\<lparr>bs_bytes_read := bs_bytes_read (sd_bs b) + ucast n_bytes_to_read\<rparr>
          in if length data < unat n_bytes_to_read then Inl Mem_oob
             else
               let (got, w) = fs_read lib (unat n_bytes_to_read) w;
                   rc = (case got of None \<Rightarrow> False | Some d \<Rightarrow> length d = unat n_bytes_to_read);
                   data = (case got of None \<Rightarrow> data | Some d \<Rightarrow> overwrite 0 d data);
                   (end_ts, e) = get_micros e;
                   bs = add_io_wait start end_ts bs
               in Inr (rc, data, b\<lparr>sd_world := w, sd_bs := bs\<lparr>bs_n_reads := bs_n_reads bs + 1\<rparr>,
                        sd_ts_last_acces := end_ts\<rparr>, e))"

text \<open>
  The loop of \<open>cmpwrite\<close>: every block is read, compared and, when it is equal, written, before the next
  block is looked at.
\<close>

fun sdcard_cmpwrite_loop :: "nat \<Rightarrow> 'w sd_lib \<Rightarrow> u64 \<Rightarrow> nat \<Rightarrow> nat \<Rightarrow> byte list \<Rightarrow> byte list \<Rightarrow> byte list
    \<Rightarrow> 'w backend_sdcard \<times> env \<Rightarrow> (cmpwrite_result_t \<times> 'w backend_sdcard \<times> env) result" where
  "sdcard_cmpwrite_loop fuel lib block_nr i 0 data_write data_compare buffer st = Inr (CWR_OK, st)"
| "sdcard_cmpwrite_loop fuel lib block_nr i (Suc left) data_write data_compare buffer (b, e) =
     (let block_size = sdcard_get_block_size b; k = unat block_size;
          offset = (block_nr + of_nat i) * block_size;
          (ok, w) = fs_seekSet lib offset (sd_world b); b = b\<lparr>sd_world := w\<rparr>
      in if \<not> ok then Inr (CWR_READ_ERROR, b, e)
         else
           let (got, w) = fs_read lib k w; b = b\<lparr>sd_world := w\<rparr>
           in case got of
                None \<Rightarrow> Inr (CWR_READ_ERROR, b, e)
              | Some d \<Rightarrow>
                  let buffer = overwrite 0 d buffer
                  in if length d \<noteq> k then Inr (CWR_READ_ERROR, b, e)
                     else
                       let b = b\<lparr>sd_bs := (sd_bs b)\<lparr>bs_bytes_read := bs_bytes_read (sd_bs b) + block_size\<rparr>\<rparr>
                       in if length data_compare < (i + 1) * k then Inl Mem_oob
                          else if buffer \<noteq> slice (i * k) k data_compare then Inr (CWR_MISMATCH, b, e)
                          else
                            let (ok, w) = fs_seekSet lib offset (sd_world b); b = b\<lparr>sd_world := w\<rparr>
                            in if \<not> ok then Inr (CWR_READ_ERROR, b, e)
                               else bindR (wait_for_card fuel lib w) (\<lambda>w.
                                 if length data_write < (i + 1) * k then Inl Mem_oob
                                 else
                                   let (written, w) = fs_write lib (slice (i * k) k data_write) w; b = b\<lparr>sd_world := w\<rparr>
                                   in if written \<noteq> k then Inr (CWR_WRITE_ERROR, b, e)
                                      else
                                        let b = b\<lparr>sd_bs := (sd_bs b)\<lparr>bs_bytes_written := bs_bytes_written (sd_bs b) + block_size\<rparr>\<rparr>;
                                            (now, e) = get_micros e
                                        in sdcard_cmpwrite_loop fuel lib block_nr (i + 1) left data_write data_compare buffer
                                             (b\<lparr>sd_ts_last_acces := now\<rparr>, e)))"

definition sdcard_cmpwrite :: "nat \<Rightarrow> 'w sd_lib \<Rightarrow> u64 \<Rightarrow> u32 \<Rightarrow> byte list \<Rightarrow> byte list \<Rightarrow> 'w backend_sdcard \<times> env
    \<Rightarrow> (cmpwrite_result_t \<times> 'w backend_sdcard \<times> env) result" where
  "sdcard_cmpwrite fuel lib block_nr n_blocks data_write data_compare = (\<lambda>(b, e).
     bindR (lock_range block_nr n_blocks (sd_locks b)) (\<lambda>(lock_list, ls).
     let (start, e) = get_micros e
     in bindR (sdcard_cmpwrite_loop fuel lib block_nr 0 (unat n_blocks) data_write data_compare
                 (replicate (unat (sdcard_get_block_size b)) 0) (b, e)) (\<lambda>(result, b, e).
        let (end_ts, e) = get_micros e;
            bs = add_io_wait start end_ts (sd_bs b);
            bs = bs\<lparr>bs_n_reads := bs_n_reads bs + 1, bs_n_writes := bs_n_writes bs + 1\<rparr>
        in Inr (result, b\<lparr>sd_bs := bs, sd_locks := unlock_range lock_list ls\<rparr>, e))))"

text \<open>The serial number of the card, eight hexadecimal digits.\<close>

definition show_hex8 :: "u32 \<Rightarrow> string" where
  "show_hex8 v = map (\<lambda>i. ''0123456789abcdef'' ! unat (drop_bit (28 - 4 * i) v AND 15)) [0..<8]"

definition sdcard_get_serial :: "'w sd_lib \<Rightarrow> 'w backend_sdcard \<Rightarrow> string" where
  "sdcard_get_serial lib b = (case sd_readCID lib (sd_world b) of None \<Rightarrow> ''12345678'' | Some psn \<Rightarrow> show_hex8 psn)"

definition sdcard_ops :: "nat \<Rightarrow> 'w sd_lib \<Rightarrow> 'w backend_sdcard backend_ops" where
  "sdcard_ops fuel lib = \<lparr>be_get_serial = (\<lambda>b e. sdcard_get_serial lib b), be_get_size_in_blocks = sdcard_get_size_in_blocks,
     be_get_block_size = sdcard_get_block_size, be_sync = sdcard_sync lib, be_write = sdcard_write fuel lib,
     be_trim = sdcard_trim fuel lib, be_read = sdcard_read lib, be_cmpwrite = sdcard_cmpwrite fuel lib\<rparr>"

section \<open>What the library promises\<close>

text \<open>
  While the card works: \<open>file w\<close> is the file, \<open>pos w\<close> the position in it; a position inside the file can be
  sought, a read takes what is there, a write inside the file replaces bytes, and the card is busy
  \<open>wait w\<close> questions at most, never more than \<open>k\<close>.
\<close>

definition sd_serves :: "'w sd_lib \<Rightarrow> nat \<Rightarrow> ('w \<Rightarrow> bool) \<Rightarrow> ('w \<Rightarrow> byte list) \<Rightarrow> ('w \<Rightarrow> nat) \<Rightarrow> ('w \<Rightarrow> nat) \<Rightarrow> bool" where
  "sd_serves lib k live file pos wait \<longleftrightarrow>
     (\<forall>w. wait w \<le> k) \<and>
     (\<forall>w p. live w \<and> unat p \<le> length (file w) \<longrightarrow>
        (\<exists>w'. fs_seekSet lib p w = (True, w') \<and> live w' \<and> file w' = file w \<and> pos w' = unat p)) \<and>
     (\<forall>w n. live w \<longrightarrow> (\<exists>w'. fs_read lib n w = (Some (slice (pos w) n (file w)), w') \<and> live w' \<and> file w' = file w)) \<and>
     (\<forall>w d. live w \<and> pos w + length d \<le> length (file w) \<longrightarrow>
        (\<exists>w'. fs_write lib d w = (length d, w') \<and> live w' \<and> file w' = overwrite (pos w) d (file w))) \<and>
     (\<forall>w. live w \<longrightarrow> (\<exists>busy w'. sd_is_busy lib w = (busy, w') \<and> live w' \<and> file w' = file w \<and> pos w' = pos w \<and>
        (busy \<longrightarrow> wait w' < wait w))) \<and>
     (\<forall>w. live w \<longrightarrow> (\<exists>ok w'. fs_sync lib w = (ok, w') \<and> live w' \<and> file w' = file w))"

lemma sd_servesD:
  assumes "sd_serves lib k live file pos wait" and "live w"
  shows "unat p \<le> length (file w) \<Longrightarrow>
      \<exists>w'. fs_seekSet lib p w = (True, w') \<and> live w' \<and> file w' = file w \<and> pos w' = unat p"
    and "\<exists>w'. fs_read lib n w = (Some (slice (pos w) n (file w)), w') \<and> live w' \<and> file w' = file w"
    and "pos w + length d \<le> length (file w) \<Longrightarrow>
      \<exists>w'. fs_write lib d w = (length d, w') \<and> live w' \<and> file w' = overwrite (pos w) d (file w)"
    and "\<exists>ok w'. fs_sync lib w = (ok, w') \<and> live w' \<and> file w' = file w"
  using assms unfolding sd_serves_def by blast+

lemma wait_for_card_returns:
  assumes "sd_serves lib k live file pos wait" and "live w" and "wait w < fuel"
  shows "\<exists>w'. wait_for_card fuel lib w = Inr w' \<and> live w' \<and> file w' = file w \<and> pos w' = pos w"
  using assms(2,3)
proof (induction fuel arbitrary: w)
  case (Suc fuel)
  obtain busy w1 where b: "sd_is_busy lib w = (busy, w1)" "live w1" "file w1 = file w" "pos w1 = pos w" "busy \<longrightarrow> wait w1 < wait w"
    using assms(1) Suc.prems(1) unfolding sd_serves_def by blast
  then show ?case
    using Suc.IH [of w1] Suc.prems(2) by (cases busy) auto
qed simp

text \<open>The backend in good state; the file is below 4 GiB, so the 32-bit lengths do not overflow.\<close>

definition sdcard_disk :: "('w \<Rightarrow> byte list) \<Rightarrow> 'w backend_sdcard \<Rightarrow> byte list" where
  "sdcard_disk file b = file (sd_world b)"

definition sdcard_inv :: "('w \<Rightarrow> bool) \<Rightarrow> ('w \<Rightarrow> byte list) \<Rightarrow> 'w backend_sdcard \<Rightarrow> bool" where
  "sdcard_inv live file b \<longleftrightarrow> live (sd_world b) \<and> length (file (sd_world b)) < 2 ^ 32 \<and>
     sd_card_size b = of_nat (length (file (sd_world b))) \<and> sd_locks b = no_locks"

lemma sdcard_address:
  assumes "unat nr * 512 + n * 512 \<le> m" and "m < 2 ^ 32"
  shows "unat (nr * 512 :: u64) = unat nr * 512"
  using assms by (subst unat_mult_u64) simp_all

lemma sdcard_length:
  assumes "unat n * 512 < 2 ^ 32"
  shows "unat (ucast (ucast (n :: u32) * 512 :: u64) :: u32) = unat n * 512"
proof -
  have "unat (ucast n * 512 :: u64) = unat n * 512" using assms by (subst unat_mult_u64) simp_all
  then show ?thesis using assms by (simp add: unsigned_ucast_eq take_bit_nat_eq_self)
qed

lemma micros_quiet: "get_micros e = (t, e') \<Longrightarrow> quiet e' = quiet e"
  using quiet_get_micros [of e] by simp

lemma sdcard_write_law:
  assumes "sd_serves lib k live file pos wait" and "sdcard_inv live file b" and "k < fuel"
    and "unat n * 512 \<le> length data" and "unat nr * 512 + unat n * 512 \<le> length (sdcard_disk file b)"
  shows "\<exists>b' e'. sdcard_write fuel lib nr n data (b, e) = Inr (True, b', e') \<and> sdcard_inv live file b' \<and>
    sdcard_disk file b' = overwrite (unat nr * 512) (take (unat n * 512) data) (sdcard_disk file b) \<and> quiet e' = quiet e"
proof -
  let ?w = "sd_world b" and ?d = "take (unat n * 512) data"
  have i: "live ?w" "length (file ?w) < 2 ^ 32" using assms(2) by (simp_all add: sdcard_inv_def)
  have r: "unat nr * 512 + unat n * 512 \<le> length (file ?w)" using assms(5) by (simp add: sdcard_disk_def)
  have addr: "unat (nr * 512 :: u64) = unat nr * 512" using sdcard_address [OF r i(2)] .
  have len: "unat (ucast (ucast n * 512 :: u64) :: u32) = unat n * 512" using r i(2) by (intro sdcard_length) simp
  obtain w1 where w1: "fs_seekSet lib (nr * 512) ?w = (True, w1)" "live w1" "file w1 = file ?w" "pos w1 = unat nr * 512"
    using sd_servesD(1) [OF assms(1) i(1), of "nr * 512"] addr r by auto
  have "wait w1 < fuel" using assms(1,3) by (auto simp: sd_serves_def intro: le_less_trans)
  then obtain w2 where w2: "wait_for_card fuel lib w1 = Inr w2" "live w2" "file w2 = file ?w" "pos w2 = unat nr * 512"
    using wait_for_card_returns [OF assms(1) w1(2)] w1(3,4) by auto
  have ld: "length ?d = unat n * 512" using assms(4) by simp
  obtain w3 where w3: "fs_write lib ?d w2 = (unat n * 512, w3)" "live w3" "file w3 = overwrite (unat nr * 512) ?d (file ?w)"
    using sd_servesD(3) [OF assms(1) w2(2), of ?d] w2(3,4) r ld by auto
  obtain t e1 where e1: "get_micros e = (t, e1)" by fastforce
  obtain u e2 where e2: "get_micros e1 = (u, e2)" by fastforce
  have "length (overwrite (unat nr * 512) ?d (file ?w)) = length (file ?w)" using r ld by (intro length_overwrite) simp
  then show ?thesis
    using w1(1) w2(1) w3 assms(2,4) micros_quiet [OF e1] micros_quiet [OF e2]
    by (simp add: sdcard_write_def sdcard_get_block_size_def e1 e2 len Let_def sdcard_inv_def sdcard_disk_def not_less)
qed

lemma sdcard_read_law:
  assumes "sd_serves lib k live file pos wait" and "sdcard_inv live file b"
    and "unat n * 512 \<le> length buf" and "unat nr * 512 + unat n * 512 \<le> length (sdcard_disk file b)"
  shows "\<exists>b' e'. sdcard_read lib nr n buf (b, e) =
      Inr (True, overwrite 0 (slice (unat nr * 512) (unat n * 512) (sdcard_disk file b)) buf, b', e') \<and>
    sdcard_inv live file b' \<and> sdcard_disk file b' = sdcard_disk file b \<and> quiet e' = quiet e"
proof -
  let ?w = "sd_world b"
  have i: "live ?w" "length (file ?w) < 2 ^ 32" using assms(2) by (simp_all add: sdcard_inv_def)
  have r: "unat nr * 512 + unat n * 512 \<le> length (file ?w)" using assms(4) by (simp add: sdcard_disk_def)
  have addr: "unat (nr * 512 :: u64) = unat nr * 512" using sdcard_address [OF r i(2)] .
  have len: "unat (ucast (ucast n * 512 :: u64) :: u32) = unat n * 512" using r i(2) by (intro sdcard_length) simp
  obtain w1 where w1: "fs_seekSet lib (nr * 512) ?w = (True, w1)" "live w1" "file w1 = file ?w" "pos w1 = unat nr * 512"
    using sd_servesD(1) [OF assms(1) i(1), of "nr * 512"] addr r by auto
  obtain w2 where w2: "fs_read lib (unat n * 512) w1 = (Some (slice (unat nr * 512) (unat n * 512) (file ?w)), w2)"
    "live w2" "file w2 = file ?w"
    using sd_servesD(2) [OF assms(1) w1(2), of "unat n * 512"] w1(3,4) by auto
  obtain t e1 where e1: "get_micros e = (t, e1)" by fastforce
  obtain u e2 where e2: "get_micros e1 = (u, e2)" by fastforce
  show ?thesis
    using w1(1) w2 assms(2,3) r micros_quiet [OF e1] micros_quiet [OF e2]
    by (simp add: sdcard_read_def sdcard_get_block_size_def e1 e2 len Let_def sdcard_inv_def sdcard_disk_def not_less)
qed

lemma sdcard_trim_loop_law:
  assumes "sd_serves lib k live file pos wait" and "k < fuel" and "sdcard_inv live file b"
    and "unat nr * 512 + left * 512 \<le> length (sdcard_disk file b)"
  shows "\<exists>b' e'. sdcard_trim_loop fuel lib nr left (replicate 512 0) (b, e) = Inr (True, b', e') \<and> sdcard_inv live file b' \<and>
    sdcard_disk file b' = overwrite (unat nr * 512) (replicate (left * 512) 0) (sdcard_disk file b) \<and> quiet e' = quiet e"
  using assms(3,4)
proof (induction left arbitrary: nr b e)
  case (Suc left)
  let ?disk = "sdcard_disk file b"
  have lt: "length ?disk < 2 ^ 32" using Suc.prems(1) by (simp add: sdcard_inv_def sdcard_disk_def)
  obtain b1 e1 where w: "sdcard_write fuel lib nr 1 (replicate 512 0) (b, e) = Inr (True, b1, e1)" "sdcard_inv live file b1"
    "sdcard_disk file b1 = overwrite (unat nr * 512) (replicate 512 0) ?disk" "quiet e1 = quiet e"
    using sdcard_write_law [OF assms(1) Suc.prems(1) assms(2), of 1 "replicate 512 0" nr e] Suc.prems(2) by auto
  show ?case
  proof (cases "left = 0")
    case True
    then show ?thesis using w by simp
  next
    case False
    have "unat nr + 1 < 2 ^ 64" using Suc.prems(2) lt by simp
    then have nr: "unat (nr + 1) = unat nr + 1" by (subst unat_add_u64) simp_all
    have l1: "length (sdcard_disk file b1) = length ?disk" unfolding w(3) using Suc.prems(2) by simp
    then have "unat (nr + 1) * 512 + left * 512 \<le> length (sdcard_disk file b1)" using Suc.prems(2) nr by simp
    from Suc.IH [OF w(2) this, of e1] obtain b2 e2 where
      2: "sdcard_trim_loop fuel lib (nr + 1) left (replicate 512 0) (b1, e1) = Inr (True, b2, e2)" "sdcard_inv live file b2"
      "sdcard_disk file b2 = overwrite (unat (nr + 1) * 512) (replicate (left * 512) 0) (sdcard_disk file b1)" "quiet e2 = quiet e1"
      by blast
    have "sdcard_disk file b2 = overwrite (unat nr * 512 + 512) (replicate (left * 512) 0) (overwrite (unat nr * 512) (replicate 512 0) ?disk)"
      using 2(3) nr by (simp add: w(3) algebra_simps)
    also have "\<dots> = overwrite (unat nr * 512) (replicate 512 0 @ replicate (left * 512) 0) ?disk"
      using Suc.prems(2) by (intro overwrite_split) simp_all
    also have "replicate 512 0 @ replicate (left * 512) (0 :: byte) = replicate (Suc left * 512) 0"
      by (simp only: replicate_add [symmetric] mult_Suc)
    finally show ?thesis using w(1,4) 2(1,2,4) by simp
  qed
qed simp

section \<open>Comparing and writing\<close>

text \<open>How many blocks, from the first on, are equal on the medium (from \<open>a\<close>) and in the data (from \<open>c\<close>).\<close>

fun same_blocks :: "nat \<Rightarrow> nat \<Rightarrow> nat \<Rightarrow> byte list \<Rightarrow> byte list \<Rightarrow> nat" where
  "same_blocks 0 a c disk dc = 0"
| "same_blocks (Suc left) a c disk dc =
     (if slice a 512 disk = slice c 512 dc then Suc (same_blocks left (a + 512) (c + 512) disk dc) else 0)"

lemma same_blocks_le: "same_blocks left a c disk dc \<le> left"
  by (induction left arbitrary: a c) simp_all

lemma same_blocks_cong:
  "(\<And>i. i < left \<Longrightarrow> slice (a + i * 512) 512 disk' = slice (a + i * 512) 512 disk) \<Longrightarrow>
    same_blocks left a c disk' dc = same_blocks left a c disk dc"
proof (induction left arbitrary: a c)
  case (Suc left)
  have "same_blocks left (a + 512) (c + 512) disk' dc = same_blocks left (a + 512) (c + 512) disk dc"
    using Suc.prems [of "Suc _"] by (intro Suc.IH) (simp add: algebra_simps)
  then show ?case using Suc.prems [of 0] by simp
qed simp

lemma sdcard_cmpwrite_loop_law:
  assumes "sd_serves lib k live file pos wait" and "k < fuel" and "sdcard_inv live file b"
    and "unat nr * 512 + (i + left) * 512 \<le> length (sdcard_disk file b)"
    and "(i + left) * 512 \<le> length dw" and "(i + left) * 512 \<le> length dc" and "length buffer = 512"
    and "j = same_blocks left (unat nr * 512 + i * 512) (i * 512) (sdcard_disk file b) dc"
  shows "\<exists>b' e'. sdcard_cmpwrite_loop fuel lib nr i left dw dc buffer (b, e) =
      Inr (if j = left then CWR_OK else CWR_MISMATCH, b', e') \<and> sdcard_inv live file b' \<and> quiet e' = quiet e \<and>
    sdcard_disk file b' = overwrite (unat nr * 512 + i * 512) (slice (i * 512) (j * 512) dw) (sdcard_disk file b)"
  using assms(3-8)
proof (induction left arbitrary: i b buffer e j)
  case (Suc left)
  let ?w = "sd_world b" and ?disk = "sdcard_disk file b" and ?a = "unat nr * 512 + i * 512"
  have inv: "live ?w" "length (file ?w) < 2 ^ 32" using Suc.prems(1) by (simp_all add: sdcard_inv_def)
  have dk: "?disk = file ?w" by (simp add: sdcard_disk_def)
  have r: "?a + 512 \<le> length (file ?w)" "?a + 512 + left * 512 \<le> length (file ?w)" using Suc.prems(2) by (simp_all add: dk)
  have "unat (of_nat i :: u64) = i" using r inv by (simp add: unat_of_nat)
  moreover have "unat nr + i < 2 ^ 64" using r inv by simp
  ultimately have ni: "unat (nr + of_nat i) = unat nr + i" by (subst unat_add_u64) simp_all
  have addr: "unat ((nr + of_nat i) * 512 :: u64) = ?a"
    using sdcard_address [of "nr + of_nat i" 1 "length (file ?w)"] ni r(1) inv(2) by (simp add: add_mult_distrib)
  obtain w1 where w1: "fs_seekSet lib ((nr + of_nat i) * 512) ?w = (True, w1)" "live w1" "file w1 = file ?w" "pos w1 = ?a"
    using sd_servesD(1) [OF assms(1) inv(1), of "(nr + of_nat i) * 512"] addr r by auto
  obtain w2 where w2: "fs_read lib 512 w1 = (Some (slice ?a 512 (file ?w)), w2)" "live w2" "file w2 = file ?w"
    using sd_servesD(2) [OF assms(1) w1(2), of 512] w1(3,4) by auto
  have ls: "length (slice ?a 512 (file ?w)) = 512" using r(1) by simp
  then have buf: "overwrite 0 (slice ?a 512 (file ?w)) buffer = slice ?a 512 (file ?w)"
    using Suc.prems(5) by (simp add: overwrite_def)
  have small: "\<not> length dc < (i + 1) * 512" "\<not> length dw < (i + 1) * 512" using Suc.prems(3,4) by simp_all
  show ?case
  proof (cases "slice ?a 512 (file ?w) = slice (i * 512) 512 dc")
    case False
    then have j: "j = 0" using Suc.prems(6) by (simp add: dk)
    show ?thesis
      using w1(1) w2 ls buf small False Suc.prems(1)
      by (simp add: j sdcard_get_block_size_def Let_def sdcard_inv_def sdcard_disk_def)
  next
    case True
    obtain w3 where w3: "fs_seekSet lib ((nr + of_nat i) * 512) w2 = (True, w3)" "live w3" "file w3 = file ?w" "pos w3 = ?a"
      using sd_servesD(1) [OF assms(1) w2(2), of "(nr + of_nat i) * 512"] addr r w2(3) by auto
    have "wait w3 < fuel" using assms(1,2) by (auto simp: sd_serves_def intro: le_less_trans)
    then obtain w4 where w4: "wait_for_card fuel lib w3 = Inr w4" "live w4" "file w4 = file ?w" "pos w4 = ?a"
      using wait_for_card_returns [OF assms(1) w3(2)] w3(3,4) by auto
    let ?d = "slice (i * 512) 512 dw"
    have ld: "length ?d = 512" using small(2) by simp
    obtain w5 where w5: "fs_write lib ?d w4 = (512, w5)" "live w5" "file w5 = overwrite ?a ?d (file ?w)"
      using sd_servesD(3) [OF assms(1) w4(2), of ?d] w4(3,4) r ld by auto
    obtain t e1 where e1: "get_micros e = (t, e1)" by fastforce
    define b1 where "b1 = b\<lparr>sd_world := w5, sd_bs := (sd_bs b)\<lparr>bs_bytes_read := bs_bytes_read (sd_bs b) + 512,
      bs_bytes_written := bs_bytes_written (sd_bs b) + 512\<rparr>, sd_ts_last_acces := t\<rparr>"
    have lo: "length (overwrite ?a ?d (file ?w)) = length (file ?w)" using r ld by (intro length_overwrite) simp
    have b1: "sdcard_inv live file b1" "sdcard_disk file b1 = overwrite ?a ?d ?disk"
      using Suc.prems(1) w5 lo by (simp_all add: b1_def sdcard_inv_def sdcard_disk_def)
    have step: "sdcard_cmpwrite_loop fuel lib nr i (Suc left) dw dc buffer (b, e) =
        sdcard_cmpwrite_loop fuel lib nr (i + 1) left dw dc (slice ?a 512 (file ?w)) (b1, e1)"
      using w1(1) w2(1) ls buf small True w3(1) w4(1) w5(1) ld e1
      by (simp add: sdcard_get_block_size_def Let_def b1_def)
    define j1 where "j1 = same_blocks left (unat nr * 512 + (i + 1) * 512) ((i + 1) * 512) (sdcard_disk file b1) dc"
    have "same_blocks left (?a + 512) (i * 512 + 512) (sdcard_disk file b1) dc = same_blocks left (?a + 512) (i * 512 + 512) ?disk dc"
      unfolding b1(2) using r ld by (intro same_blocks_cong slice_overwrite_other) (simp_all add: dk)
    then have j: "j = Suc j1" using Suc.prems(6) True by (simp add: dk j1_def algebra_simps)
    have "unat nr * 512 + ((i + 1) + left) * 512 \<le> length (sdcard_disk file b1)" using Suc.prems(2) lo by (simp add: b1(2) dk)
    from Suc.IH [OF b1(1) this _ _ ls j1_def, of e1] Suc.prems(3,4)
    obtain b2 e2 where 2: "sdcard_cmpwrite_loop fuel lib nr (i + 1) left dw dc (slice ?a 512 (file ?w)) (b1, e1) =
        Inr (if j1 = left then CWR_OK else CWR_MISMATCH, b2, e2)" "sdcard_inv live file b2" "quiet e2 = quiet e1"
      "sdcard_disk file b2 = overwrite (unat nr * 512 + (i + 1) * 512) (slice ((i + 1) * 512) (j1 * 512) dw) (sdcard_disk file b1)"
      by auto
    have "j1 \<le> left" unfolding j1_def by (rule same_blocks_le)
    have "sdcard_disk file b2 = overwrite (?a + 512) (slice (i * 512 + 512) (j1 * 512) dw) (overwrite ?a ?d ?disk)"
      using 2(4) by (simp add: b1(2) algebra_simps)
    also have "\<dots> = overwrite ?a (?d @ slice (i * 512 + 512) (j1 * 512) dw) ?disk"
      using ld r \<open>j1 \<le> left\<close> Suc.prems(3) by (intro overwrite_split) (simp_all add: dk)
    also have "?d @ slice (i * 512 + 512) (j1 * 512) dw = slice (i * 512) (j * 512) dw"
      using slice_append_split [of "i * 512" 512 "j1 * 512" dw] by (simp add: j)
    finally show ?thesis using step 2(1-3) j micros_quiet [OF e1] by simp
  qed
qed simp

lemma sdcard_cmpwrite_law:
  assumes "sd_serves lib k live file pos wait" and "k < fuel" and "sdcard_inv live file b"
    and "unat n * 512 \<le> length dw" and "unat n * 512 \<le> length dc"
    and "unat nr * 512 + unat n * 512 \<le> length (sdcard_disk file b)"
    and "j = same_blocks (unat n) (unat nr * 512) 0 (sdcard_disk file b) dc"
  shows "\<exists>b' e'. sdcard_cmpwrite fuel lib nr n dw dc (b, e) =
      Inr (if j = unat n then CWR_OK else CWR_MISMATCH, b', e') \<and> sdcard_inv live file b' \<and> quiet e' = quiet e \<and>
    sdcard_disk file b' = overwrite (unat nr * 512) (take (j * 512) dw) (sdcard_disk file b)"
proof -
  obtain ls where ls: "lock_range nr n no_locks = Inr (lock_indexes nr n, ls)" "unlock_range (lock_indexes nr n) ls = no_locks"
    by (rule lock_range_balanced)
  have locks: "sd_locks b = no_locks" using assms(3) by (simp add: sdcard_inv_def)
  obtain t e1 where e1: "get_micros e = (t, e1)" by fastforce
  obtain b1 e2 where l: "sdcard_cmpwrite_loop fuel lib nr 0 (unat n) dw dc (replicate 512 0) (b, e1) =
      Inr (if j = unat n then CWR_OK else CWR_MISMATCH, b1, e2)" "sdcard_inv live file b1" "quiet e2 = quiet e1"
    "sdcard_disk file b1 = overwrite (unat nr * 512) (slice 0 (j * 512) dw) (sdcard_disk file b)"
    using sdcard_cmpwrite_loop_law [OF assms(1-3), of nr 0 "unat n" dw dc "replicate 512 0" j e1] assms(4-7) by auto
  obtain u e3 where e3: "get_micros e2 = (u, e3)" by fastforce
  have "slice 0 (j * 512) dw = take (j * 512) dw" by (simp add: slice_def)
  then show ?thesis
    using l micros_quiet [OF e1] micros_quiet [OF e3] ls
    by (simp add: sdcard_cmpwrite_def locks sdcard_get_block_size_def e1 e3 Let_def sdcard_inv_def sdcard_disk_def)
qed

text \<open>
  COMPARE AND WRITE on the SD card is not atomic over several blocks: exactly the blocks before the
  first difference are written, and still a mismatch is reported. For a single block it is: the block
  is written if and only if it was equal. So the contract the file backend keeps for any number of blocks
  holds here only because the SCSI layer never asks for more than one.
\<close>

theorem sdcard_cmpwrite_partial:
  assumes "sd_serves lib k live file pos wait" and "k < fuel" and "sdcard_inv live file b"
    and "unat n * 512 \<le> length dw" and "unat n * 512 \<le> length dc"
    and "unat nr * 512 + unat n * 512 \<le> length (sdcard_disk file b)"
    and "j = same_blocks (unat n) (unat nr * 512) 0 (sdcard_disk file b) dc"
  shows "\<exists>b' e'. sdcard_cmpwrite fuel lib nr n dw dc (b, e) =
      Inr (if j = unat n then CWR_OK else CWR_MISMATCH, b', e') \<and> sdcard_inv live file b' \<and>
    sdcard_disk file b' = overwrite (unat nr * 512) (take (j * 512) dw) (sdcard_disk file b)"
  using sdcard_cmpwrite_law [OF assms] by blast

section \<open>The card as a block device\<close>

lemma sdcard_storage:
  assumes "sd_serves lib k live file pos wait" and "k < fuel"
  shows "block_storage (sdcard_ops fuel lib) (sdcard_disk file) (sdcard_inv live file) 512 (2 ^ 22)"
proof (unfold_locales, goal_cases)
  case (5 b)
  have "unat (sd_card_size b) = length (file (sd_world b))"
    using 5 by (simp add: sdcard_inv_def unat_of_nat)
  then have "unat (sdcard_get_size_in_blocks b) = length (sdcard_disk file b) div 512"
    by (simp add: sdcard_get_size_in_blocks_def sdcard_get_block_size_def sdcard_disk_def unat_div)
  then have "(of_nat (unat (sdcard_get_size_in_blocks b)) :: u64) = of_nat (length (sdcard_disk file b) div 512)" by simp
  then show ?case by (simp add: sdcard_ops_def)
next
  case (7 b e)
  obtain ok w where w: "fs_sync lib (sd_world b) = (ok, w)" "live w" "file w = file (sd_world b)"
    using sd_servesD(4) [OF assms(1), of "sd_world b"] 7 unfolding sdcard_inv_def by blast
  obtain t e1 where e1: "get_micros e = (t, e1)" by fastforce
  obtain u e2 where e2: "get_micros e1 = (u, e2)" by fastforce
  obtain v e3 where e3: "get_micros e2 = (v, e3)" by fastforce
  show ?case
    using 7 w micros_quiet [OF e1] micros_quiet [OF e2] micros_quiet [OF e3]
    by (intro exI [of _ True]) (simp add: sdcard_ops_def sdcard_sync_def e1 e2 e3 sdcard_inv_def sdcard_disk_def)
next
  case (8 b n buf nr e)
  then show ?case using sdcard_read_law [OF assms(1) 8] by (fastforce simp: sdcard_ops_def sdcard_inv_def sdcard_disk_def)
next
  case (9 b n data nr e)
  then show ?case using sdcard_write_law [OF assms(1) 9(1) assms(2) 9(2,3), of e]
    by (intro exI [of _ "unat n * 512"] exI [of _ True]) (auto simp: sdcard_ops_def)
next
  case (10 b nr n e)
  then show ?case using sdcard_trim_loop_law [OF assms 10, of e]
    by (auto simp: sdcard_ops_def sdcard_trim_def sdcard_get_block_size_def)
qed (simp_all add: sdcard_ops_def sdcard_get_block_size_def sdcard_inv_def sdcard_disk_def)

text \<open>
  C18: while the library serves the file as documented, the SD-card backend meets the contract of a
  backend (\<open>block_storage\<close>) with blocks of 512 bytes: reads, writes and trims of any blocks on the device
  succeed, transfer or zero exactly those, and size and synchronisation are as the SCSI layer expects.
\<close>

theorem sdcard_refines_block_storage:
  assumes "sd_serves lib k live file pos wait" and "k < fuel"
  shows "block_storage (sdcard_ops fuel lib) (sdcard_disk file) (sdcard_inv live file) 512 (2 ^ 22)"
  using assms by (rule sdcard_storage)

text \<open>A card in memory: the file, the position, and the questions it stays busy for.\<close>

definition ram_card :: "(byte list \<times> nat \<times> nat) sd_lib" where
  "ram_card = \<lparr>sd_begin = (\<lambda>mhz w. (mhz \<le> 20, w)), sd_end = (\<lambda>w. w),
     sd_is_busy = (\<lambda>(f, p, k). (0 < k, f, p, k - 1)), sd_readCID = (\<lambda>_. Some 0xcafe), fs_open = (\<lambda>_ w. (True, w)),
     fs_close = (\<lambda>w. w), fs_fileSize = (\<lambda>(f, p, k). of_nat (length f)), fs_sync = (\<lambda>w. (False, w)),
     fs_seekSet = (\<lambda>q (f, p, k). (unat q \<le> length f, f, unat q, k)),
     fs_read = (\<lambda>n (f, p, k). (Some (slice p n f), f, p + n, k)),
     fs_write = (\<lambda>d (f, p, k). (length d, overwrite p d f, p + length d, 2))\<rparr>"

lemma ram_card_serves: "sd_serves ram_card 2 (\<lambda>(f, p, k). k \<le> 2) fst (\<lambda>w. fst (snd w)) (\<lambda>w. min 2 (snd (snd w)))"
  by (auto simp: sd_serves_def ram_card_def)

theorem sdcard_refines_block_storage_witness:
  "sd_serves ram_card 2 (\<lambda>(f, p, k). k \<le> 2) fst (\<lambda>w. fst (snd w)) (\<lambda>w. min 2 (snd (snd w))) \<and>
   block_storage (sdcard_ops 3 ram_card) (sdcard_disk fst) (sdcard_inv (\<lambda>(f, p, k). k \<le> 2) fst) 512 (2 ^ 22)"
  using sdcard_refines_block_storage [OF ram_card_serves, of 3] ram_card_serves by simp

definition example_card :: "(byte list \<times> nat \<times> nat) backend_sdcard" where
  "example_card = \<lparr>sd_disk_name = ''disk.img'', sd_spi_speed = None, sd_card_size = 1024, sd_bs = zero_stats,
     sd_ts_last_acces = 0, sd_locks = no_locks, sd_world = (replicate 512 1 @ replicate 512 2, 0, 0)\<rparr>"

text \<open>Two blocks of which only the first is equal: it is overwritten although the answer is a mismatch.\<close>

theorem sdcard_cmpwrite_partial_witness:
  "\<forall>e. \<exists>b' e'. sdcard_cmpwrite 3 ram_card 0 2 (replicate 1024 9) (replicate 1024 1) (example_card, e) = Inr (CWR_MISMATCH, b', e') \<and>
    sdcard_disk fst b' = overwrite 0 (replicate 512 9) (replicate 512 1 @ replicate 512 2)"
proof
  fix e
  have i: "sdcard_inv (\<lambda>(f, p, k). k \<le> 2) fst example_card" by (simp add: sdcard_inv_def example_card_def)
  have d: "sdcard_disk fst example_card = replicate 512 1 @ replicate 512 2" by (simp add: sdcard_disk_def example_card_def)
  have s: "slice 0 512 (replicate 512 (1 :: byte) @ replicate 512 2) = replicate 512 1"
    "slice 512 512 (replicate 512 (1 :: byte) @ replicate 512 2) = replicate 512 2"
    "slice 0 512 (replicate 1024 (1 :: byte)) = replicate 512 1" "slice 512 512 (replicate 1024 (1 :: byte)) = replicate 512 1"
    by (simp_all add: slice_def)
  have u: "unat (2 :: u32) = Suc (Suc 0)" by simp
  have "replicate 512 (2 :: byte) \<noteq> replicate 512 1" by (simp add: replicate_eq_replicate)
  then have j: "1 = same_blocks (unat (2 :: u32)) (unat (0 :: u64) * 512) 0 (sdcard_disk fst example_card) (replicate 1024 1)"
    unfolding u same_blocks.simps by (simp add: d s)
  show "\<exists>b' e'. sdcard_cmpwrite 3 ram_card 0 2 (replicate 1024 9) (replicate 1024 1) (example_card, e) = Inr (CWR_MISMATCH, b', e') \<and>
    sdcard_disk fst b' = overwrite 0 (replicate 512 9) (replicate 512 1 @ replicate 512 2)"
    using sdcard_cmpwrite_partial [OF ram_card_serves _ i _ _ _ j, of 3 "replicate 1024 9" e] by (auto simp: d)
qed

end
