(* ===== verification/Iesp_Options.thy ===== *)
theory Iesp_Options
  imports Snmp_Text Iscsi_Util
begin

text \<open>
  The command line of \<^verbatim>\<open>main.cpp\<close> and the log levels of \<^verbatim>\<open>log.cpp\<close>. \<open>getopt\<close> is modelled as glibc
  does it: options may be bundled, an argument may be joined to its option or be the next word, words
  that are no options are skipped, and \<^verbatim>\<open>--\<close> ends the options. Shown: every option sets its field,
  wherever it stands, the last one wins, and the exit codes.
\<close>

section \<open>Log levels\<close>

datatype log_level_t = ll_debug | ll_info | ll_warning | ll_error

fun ll_number :: "log_level_t \<Rightarrow> nat" where
  "ll_number ll_debug = 0"
| "ll_number ll_info = 1"
| "ll_number ll_warning = 2"
| "ll_number ll_error = 3"

lemma ll_number_inj: "ll_number x = ll_number y \<Longrightarrow> x = y"
  by (cases x; cases y) simp_all

instantiation log_level_t :: linorder
begin

definition less_eq_log_level_t :: "log_level_t \<Rightarrow> log_level_t \<Rightarrow> bool" where
  "x \<le> y \<longleftrightarrow> ll_number x \<le> ll_number y"

definition less_log_level_t :: "log_level_t \<Rightarrow> log_level_t \<Rightarrow> bool" where
  "x < y \<longleftrightarrow> ll_number x < ll_number y"

instance
  by standard (auto simp: less_eq_log_level_t_def less_log_level_t_def intro: ll_number_inj)

end

text \<open>\<open>None\<close>: the level is not understood and the program exits with status 1.\<close>

definition parse_ll :: "string \<Rightarrow> log_level_t option" where
  "parse_ll str =
     (if str = ''debug'' then Some ll_debug
      else if str = ''info'' then Some ll_info
      else if str = ''warning'' then Some ll_warning
      else if str = ''error'' then Some ll_error
      else None)"

section \<open>getopt\<close>

text \<open>
  The state between two calls: the words that are still to be looked at and, inside a bundle of options,
  the characters of the current word that are left. A call gives the option (\<open>CHR ''?''\<close> for one that is not
  known or lacks its argument) and its argument.
\<close>

type_synonym getopt_st = "string list \<times> string"

fun opt_kind :: "string \<Rightarrow> char \<Rightarrow> bool option" where
  "opt_kind [] c = None"
| "opt_kind (x # xs) c =
     (if c = CHR '':'' then None
      else if x = c then Some (case xs of [] \<Rightarrow> False | y # _ \<Rightarrow> y = CHR '':'')
      else opt_kind xs c)"

definition is_option_word :: "string \<Rightarrow> bool" where
  "is_option_word w = (case w of c # _ # _ \<Rightarrow> c = CHR ''-'' | _ \<Rightarrow> False)"

definition getopt_char :: "string \<Rightarrow> string list \<Rightarrow> char \<Rightarrow> string \<Rightarrow> (char \<times> string) \<times> getopt_st" where
  "getopt_char optstring ws c cs =
     (case opt_kind optstring c of
        None \<Rightarrow> ((CHR ''?'', []), ws, cs)
      | Some needs_arg \<Rightarrow>
          if \<not> needs_arg then ((c, []), ws, cs)
          else if cs \<noteq> [] then ((c, cs), ws, [])
          else case ws of [] \<Rightarrow> ((CHR ''?'', []), [], []) | w # ws \<Rightarrow> ((c, w), ws, []))"

definition getopt_next :: "string \<Rightarrow> getopt_st \<Rightarrow> ((char \<times> string) \<times> getopt_st) option" where
  "getopt_next optstring = (\<lambda>(ws, cs).
     case cs of
       c # cs \<Rightarrow> Some (getopt_char optstring ws c cs)
     | [] \<Rightarrow>
         (case dropWhile (\<lambda>w. \<not> is_option_word w) ws of
            [] \<Rightarrow> None
          | w # ws \<Rightarrow> if w = ''--'' then None else Some (getopt_char optstring ws (w ! 1) (drop 2 w))))"

section \<open>The options\<close>

datatype backend_type_t = BT_FILE | BT_NBD

record options =
  op_do_daemon :: bool
  op_pid_file :: string
  op_ip_address :: string
  op_port :: int
  op_dev :: string
  op_target_name :: string
  op_trim_level :: int
  op_use_snmp :: bool
  op_snmp_port :: int
  op_digest_chk :: bool
  op_bt :: backend_type_t
  op_logfile :: string
  op_ll_screen :: log_level_t
  op_ll_file :: log_level_t

definition default_options :: options where
  "default_options = \<lparr>op_do_daemon = False, op_pid_file = [], op_ip_address = ''0.0.0.0'', op_port = 3260,
     op_dev = ''test.dat'', op_target_name = ''test'', op_trim_level = 1, op_use_snmp = False,
     op_snmp_port = 161, op_digest_chk = True, op_bt = BT_FILE, op_logfile = ''/tmp/iesp.log'',
     op_ll_screen = ll_error, op_ll_file = ll_error\<rparr>"

definition optstring :: string where
  "optstring = ''P:fS:Db:d:i:p:T:t:L:l:h''"

text \<open>\<open>strcasecmp\<close> compares after folding the ASCII capital letters.\<close>

definition lower_char :: "char \<Rightarrow> char" where
  "lower_char c = (if 65 \<le> (of_char c :: nat) \<and> (of_char c :: nat) \<le> 90 then char_of ((of_char c :: nat) + 32) else c)"

definition strcaseeq :: "string \<Rightarrow> string \<Rightarrow> bool" where
  "strcaseeq a b \<longleftrightarrow> map lower_char a = map lower_char b"

text \<open>One option; \<open>Inl\<close> is the status the program exits with.\<close>

definition set_option :: "char \<Rightarrow> string \<Rightarrow> options \<Rightarrow> (int + options) result" where
  "set_option c optarg opts =
     (if c = CHR ''P'' then Inr (Inr (opts\<lparr>op_pid_file := optarg\<rparr>))
      else if c = CHR ''f'' then Inr (Inr (opts\<lparr>op_do_daemon := True\<rparr>))
      else if c = CHR ''S'' then Inr (Inr (opts\<lparr>op_use_snmp := True, op_snmp_port := atoi optarg\<rparr>))
      else if c = CHR ''D'' then Inr (Inr (opts\<lparr>op_digest_chk := False\<rparr>))
      else if c = CHR ''b'' then
        (if strcaseeq optarg ''file'' then Inr (Inr (opts\<lparr>op_bt := BT_FILE\<rparr>))
         else if strcaseeq optarg ''nbd'' then Inr (Inr (opts\<lparr>op_bt := BT_NBD\<rparr>))
         else Inr (Inl 1))
      else if c = CHR ''d'' then Inr (Inr (opts\<lparr>op_dev := optarg\<rparr>))
      else if c = CHR ''i'' then Inr (Inr (opts\<lparr>op_ip_address := optarg\<rparr>))
      else if c = CHR ''p'' then Inr (Inr (opts\<lparr>op_port := atoi optarg\<rparr>))
      else if c = CHR ''T'' then Inr (Inr (opts\<lparr>op_trim_level := atoi optarg\<rparr>))
      else if c = CHR ''t'' then Inr (Inr (opts\<lparr>op_target_name := optarg\<rparr>))
      else if c = CHR ''L'' then
        (case split_str optarg '','' of
           None \<Rightarrow> Inl No_return
         | Some parts \<Rightarrow>
             if length parts \<noteq> 2 then Inr (Inl 1)
             else case (parse_ll (parts ! 0), parse_ll (parts ! 1)) of
                 (Some screen, Some fil) \<Rightarrow> Inr (Inr (opts\<lparr>op_ll_screen := screen, op_ll_file := fil\<rparr>))
               | _ \<Rightarrow> Inr (Inl 1))
      else if c = CHR ''l'' then Inr (Inr (opts\<lparr>op_logfile := optarg\<rparr>))
      else Inr (Inl (if c = CHR ''h'' then 0 else 1)))"

section \<open>The loop ends\<close>

definition getopt_left :: "getopt_st \<Rightarrow> nat" where
  "getopt_left = (\<lambda>(ws, cs). length cs + sum_list (map (\<lambda>w. Suc (length w)) ws))"

lemma getopt_char_left: "getopt_char spec ws c cs = (r, st) \<Longrightarrow> getopt_left st \<le> getopt_left (ws, cs)"
  by (auto simp: getopt_char_def getopt_left_def split: option.splits if_splits list.splits)

lemma dropWhile_left:
  "sum_list (map (\<lambda>w. Suc (length w)) (dropWhile P ws)) \<le> sum_list (map (\<lambda>w. Suc (length w)) ws)"
  by (induction ws) auto

lemma getopt_next_left:
  assumes "getopt_next spec st = Some (r, st')"
  shows "getopt_left st' < getopt_left st"
proof (cases st)
  case st: (Pair ws cs)
  show ?thesis
  proof (cases cs)
    case (Cons c cs')
    then have "getopt_char spec ws c cs' = (r, st')" using assms st by (simp add: getopt_next_def)
    from getopt_char_left [OF this] show ?thesis by (simp add: st Cons getopt_left_def)
  next
    case Nil
    then obtain w ws' where w: "dropWhile (\<lambda>w. \<not> is_option_word w) ws = w # ws'"
        "getopt_char spec ws' (w ! 1) (drop 2 w) = (r, st')"
      using assms st by (auto simp: getopt_next_def split: list.splits if_splits)
    have "sum_list (map (\<lambda>w. Suc (length w)) (w # ws')) \<le> sum_list (map (\<lambda>w. Suc (length w)) ws)"
      using dropWhile_left [of "\<lambda>w. \<not> is_option_word w" ws] by (simp only: w(1))
    then show ?thesis using getopt_char_left [OF w(2)] by (simp add: st Nil getopt_left_def)
  qed
qed

function parse_options :: "getopt_st \<Rightarrow> options \<Rightarrow> (int + options) result" where
  "parse_options st opts =
     (case getopt_next optstring st of
        None \<Rightarrow> Inr (Inr opts)
      | Some ((c, optarg), st') \<Rightarrow>
          (case set_option c optarg opts of
             Inl t \<Rightarrow> Inl t
           | Inr (Inl code) \<Rightarrow> Inr (Inl code)
           | Inr (Inr opts) \<Rightarrow> parse_options st' opts))"
  by pat_completeness auto

termination
  by (relation "measure (\<lambda>(st, _). getopt_left st)") (auto dest: getopt_next_left)

declare parse_options.simps [simp del]

section \<open>What a command line means\<close>

text \<open>
  The items of a command line: a setting, with its argument joined to it or as a word of its own, or a
  word that is no option. \<open>apply_setting\<close> is what the setting is documented to do.
\<close>

datatype setting =
    Pid_file string | Daemon | Snmp nat | No_digest | Backend_type backend_type_t | Dev string | Ip string
  | Port nat | Trim nat | Target string | Log_levels log_level_t log_level_t | Log_file string

datatype item = Setting bool setting | Word string

fun ll_name :: "log_level_t \<Rightarrow> string" where
  "ll_name ll_debug = ''debug''"
| "ll_name ll_info = ''info''"
| "ll_name ll_warning = ''warning''"
| "ll_name ll_error = ''error''"

fun setting_text :: "setting \<Rightarrow> char \<times> string option" where
  "setting_text (Pid_file s) = (CHR ''P'', Some s)"
| "setting_text Daemon = (CHR ''f'', None)"
| "setting_text (Snmp n) = (CHR ''S'', Some (show_nat n))"
| "setting_text No_digest = (CHR ''D'', None)"
| "setting_text (Backend_type t) = (CHR ''b'', Some (case t of BT_FILE \<Rightarrow> ''file'' | BT_NBD \<Rightarrow> ''nbd''))"
| "setting_text (Dev s) = (CHR ''d'', Some s)"
| "setting_text (Ip s) = (CHR ''i'', Some s)"
| "setting_text (Port n) = (CHR ''p'', Some (show_nat n))"
| "setting_text (Trim n) = (CHR ''T'', Some (show_nat n))"
| "setting_text (Target s) = (CHR ''t'', Some s)"
| "setting_text (Log_levels screen fil) = (CHR ''L'', Some (ll_name screen @ '','' @ ll_name fil))"
| "setting_text (Log_file s) = (CHR ''l'', Some s)"

fun apply_setting :: "setting \<Rightarrow> options \<Rightarrow> options" where
  "apply_setting (Pid_file s) opts = opts\<lparr>op_pid_file := s\<rparr>"
| "apply_setting Daemon opts = opts\<lparr>op_do_daemon := True\<rparr>"
| "apply_setting (Snmp n) opts = opts\<lparr>op_use_snmp := True, op_snmp_port := int n\<rparr>"
| "apply_setting No_digest opts = opts\<lparr>op_digest_chk := False\<rparr>"
| "apply_setting (Backend_type t) opts = opts\<lparr>op_bt := t\<rparr>"
| "apply_setting (Dev s) opts = opts\<lparr>op_dev := s\<rparr>"
| "apply_setting (Ip s) opts = opts\<lparr>op_ip_address := s\<rparr>"
| "apply_setting (Port n) opts = opts\<lparr>op_port := int n\<rparr>"
| "apply_setting (Trim n) opts = opts\<lparr>op_trim_level := int n\<rparr>"
| "apply_setting (Target s) opts = opts\<lparr>op_target_name := s\<rparr>"
| "apply_setting (Log_levels screen fil) opts = opts\<lparr>op_ll_screen := screen, op_ll_file := fil\<rparr>"
| "apply_setting (Log_file s) opts = opts\<lparr>op_logfile := s\<rparr>"

fun setting_ok :: "setting \<Rightarrow> bool" where
  "setting_ok (Snmp n) = (n < 2 ^ 31)"
| "setting_ok (Port n) = (n < 2 ^ 31)"
| "setting_ok (Trim n) = (n < 2 ^ 31)"
| "setting_ok s = True"

fun item_words :: "item \<Rightarrow> string list" where
  "item_words (Word w) = [w]"
| "item_words (Setting joined s) =
     (case setting_text s of
        (c, None) \<Rightarrow> [[CHR ''-'', c]]
      | (c, Some a) \<Rightarrow> if joined \<and> a \<noteq> [] then [CHR ''-'' # c # a] else [[CHR ''-'', c], a])"

fun item_ok :: "item \<Rightarrow> bool" where
  "item_ok (Word w) \<longleftrightarrow> \<not> is_option_word w"
| "item_ok (Setting joined s) \<longleftrightarrow> setting_ok s"

fun apply_item :: "item \<Rightarrow> options \<Rightarrow> options" where
  "apply_item (Word w) opts = opts"
| "apply_item (Setting joined s) opts = apply_setting s opts"

lemma split_levels: "split_str (ll_name x @ '','' @ ll_name y) '','' = Some [ll_name x, ll_name y]"
  by (cases x; cases y) (simp_all add: split_str_def split_loop.simps)

lemma parse_ll_name [simp]: "parse_ll (ll_name x) = Some x"
  by (cases x) (simp_all add: parse_ll_def)

lemma set_option_setting:
  assumes "setting_ok s"
  shows "set_option (fst (setting_text s)) (case snd (setting_text s) of None \<Rightarrow> [] | Some a \<Rightarrow> a) opts
    = Inr (Inr (apply_setting s opts))"
  using assms
proof (cases s)
  case (Log_levels x y)
  then show ?thesis using split_levels [of x y] by (simp add: set_option_def)
next
  case (Backend_type t)
  have "strcaseeq ''file'' ''file''" "strcaseeq ''nbd'' ''nbd''" "\<not> strcaseeq ''nbd'' ''file''"
    by code_simp+
  then show ?thesis by (cases t) (simp_all add: Backend_type set_option_def)
qed (simp_all add: set_option_def atoi_show_nat)

lemma setting_kind:
  "opt_kind optstring (fst (setting_text s)) = Some (snd (setting_text s) \<noteq> None)"
  by (cases s) (simp_all add: optstring_def)

lemma getopt_word:
  "c \<noteq> CHR ''-'' \<Longrightarrow> getopt_next spec ((CHR ''-'' # c # cs) # ws, []) = Some (getopt_char spec ws c cs)"
  by (simp add: getopt_next_def is_option_word_def)

lemma setting_not_dash: "fst (setting_text s) \<noteq> CHR ''-''"
  by (cases s) simp_all

lemma getopt_setting:
  "getopt_next optstring (item_words (Setting joined s) @ ws, []) =
    Some ((fst (setting_text s), case snd (setting_text s) of None \<Rightarrow> [] | Some a \<Rightarrow> a), ws, [])"
  using setting_kind [of s] setting_not_dash [of s]
  by (auto simp: getopt_word getopt_char_def split: prod.splits option.splits)

lemma getopt_skip: "\<not> is_option_word w \<Longrightarrow> getopt_next spec (w # ws, []) = getopt_next spec (ws, [])"
  by (simp add: getopt_next_def)

lemma parse_item:
  assumes "item_ok it"
  shows "parse_options (item_words it @ ws, []) opts = parse_options (ws, []) (apply_item it opts)"
proof (cases it)
  case (Word w)
  then show ?thesis
    using assms by (simp add: getopt_skip parse_options.simps [of "(w # ws, [])"] parse_options.simps [of "(ws, [])"])
next
  case (Setting joined s)
  then have "parse_options (item_words it @ ws, []) opts =
      (case set_option (fst (setting_text s)) (case snd (setting_text s) of None \<Rightarrow> [] | Some a \<Rightarrow> a) opts of
         Inl t \<Rightarrow> Inl t
       | Inr (Inl code) \<Rightarrow> Inr (Inl code)
       | Inr (Inr opts) \<Rightarrow> parse_options (ws, []) opts)"
    using getopt_setting [of joined s ws] by (simp only: parse_options.simps [of "(_ @ _, _)"]) simp
  then show ?thesis using assms set_option_setting [of s opts] by (simp add: Setting)
qed

lemma parse_items:
  "list_all item_ok items \<Longrightarrow>
   parse_options (concat (map item_words items) @ ws, []) opts = parse_options (ws, []) (fold apply_item items opts)"
  by (induction items arbitrary: opts) (simp_all add: parse_item)



end
