(* ===== verification/Board_Setup.thy ===== *)
theory Board_Setup
  imports Wifi_Connect Backend_Sdcard Scsi Iesp_Options
begin

text \<open>
  The ESP32 boards around the parts that all builds share: log lines sent to a syslog host (the \<^verbatim>\<open>ARDUINO\<close>
  half of \<^verbatim>\<open>log.cpp\<close>), the configuration file and the set-up (\<^verbatim>\<open>microcontrollers/main.ino\<close>). The JSON library
  and what \<open>IPAddress\<close> can parse are parameters. LEDs other than the red one, the display, time server,
  over-the-air updates and console output are left out.
\<close>

section \<open>Log lines on a board\<close>

text \<open>\<open>parse_ll\<close> does not stop the program here.\<close>

definition board_parse_ll :: "string \<Rightarrow> log_level_t" where
  "board_parse_ll str = (case parse_ll str of Some ll \<Rightarrow> ll | None \<Rightarrow> ll_debug)"

definition err_log_buf_len :: nat where
  "err_log_buf_len = 256"

record syslog_st =
  sy_host :: "string option"
  sy_level :: log_level_t
  sy_failed :: bool
  sy_packets :: "string list"
  sy_serial :: "string list"

definition syslog_nr :: "log_level_t \<Rightarrow> nat" where
  "syslog_nr ll = 3 * 8 + (if ll = ll_info then 6 else if ll = ll_warning then 4 else if ll = ll_error then 3 else 2)"

definition syslog_header :: "log_level_t \<Rightarrow> string \<Rightarrow> string \<Rightarrow> string" where
  "syslog_header ll component context_str = ''<'' @ show_nat (syslog_nr ll) @ ''>'' @ component @ ''|'' @ context_str @ ''] ''"

text \<open>\<open>printf\<close> without arguments: \<^verbatim>\<open>%%\<close> is a percent sign, any other conversion reads an argument that is not there.\<close>

fun c_printf :: "string \<Rightarrow> string result" where
  "c_printf [] = Inr []"
| "c_printf (c # cs) =
     (if c = CHR ''%'' then
        (case cs of
           [] \<Rightarrow> Inl Mem_oob
         | d # ds \<Rightarrow> if d = CHR ''%'' then bindR (c_printf ds) (\<lambda>r. Inr (CHR ''%'' # r)) else Inl Mem_oob)
      else bindR (c_printf cs) (\<lambda>r. Inr (c # r)))"

text \<open>
  The header and the message, already formatted, share a buffer: when the header alone is longer than it,
  the room that is left wraps around to almost the whole address space.
\<close>

definition syslog_text :: "string \<Rightarrow> string \<Rightarrow> string result" where
  "syslog_text header str =
     (if length header > err_log_buf_len then Inl Mem_oob else Inr (take (err_log_buf_len - 1) (header @ str)))"

definition sendsyslog :: "(string \<Rightarrow> bool) \<Rightarrow> bool \<Rightarrow> log_level_t \<Rightarrow> string \<Rightarrow> string \<Rightarrow> string \<Rightarrow> syslog_st \<Rightarrow> syslog_st result" where
  "sendsyslog fromString network_up ll component context_str str st =
     bindR (syslog_text (syslog_header ll component context_str) str) (\<lambda>err_log_buf.
     case sy_host st of
       Some host \<Rightarrow>
         if network_up then
           let st = (if \<not> fromString host \<and> \<not> sy_failed st
                then st\<lparr>sy_failed := True, sy_serial := sy_serial st @ [''Problem converting'']\<rparr> else st)
           in if \<not> sy_failed st then bindR (c_printf err_log_buf) (\<lambda>packet. Inr (st\<lparr>sy_packets := sy_packets st @ [packet]\<rparr>))
              else Inr st
         else Inr (st\<lparr>sy_serial := sy_serial st @ [err_log_buf]\<rparr>)
     | None \<Rightarrow> Inr (st\<lparr>sy_serial := sy_serial st @ [err_log_buf]\<rparr>))"

definition board_DOLOG :: "(string \<Rightarrow> bool) \<Rightarrow> bool \<Rightarrow> log_level_t \<Rightarrow> string \<Rightarrow> string \<Rightarrow> string \<Rightarrow> syslog_st \<Rightarrow> syslog_st result" where
  "board_DOLOG fromString network_up ll component context_str str st =
     (if sy_level st \<le> ll then sendsyslog fromString network_up ll component context_str str st else Inr st)"

section \<open>Configuration\<close>

text \<open>
  A parsed JSON document, as the library presents it: the keys it has, and a value read as a number, as a
  C string (which is missing when it is none) or as a text. \<open>js_wifi\<close>: name and key of the entries of \<^verbatim>\<open>wifi\<close>.
\<close>

record json_doc =
  js_containsKey :: "string \<Rightarrow> bool"
  js_int :: "string \<Rightarrow> int"
  js_str :: "string \<Rightarrow> string option"
  js_text :: "string \<Rightarrow> string"
  js_wifi :: "(string \<times> string) list"

record board_cfg =
  wifi_targets :: "(string \<times> string) list"
  cfg_syslog_host :: "string option"
  cfg_trim_level :: int
  eth_wait_seconds :: int
  update_df_interval :: int
  led_green :: int
  led_yellow :: int
  led_red :: int
  pin_SD_MISO :: int
  pin_SD_MOSI :: int
  pin_SD_SCLK :: int
  pin_SD_CS :: int
  log_level_syslog :: log_level_t
  spi_speed :: "int option"
  disk_name :: string

text \<open>The values before the file is read, for a board of the usual kind.\<close>

definition board_cfg_default :: board_cfg where
  "board_cfg_default = \<lparr>wifi_targets = [], cfg_syslog_host = None, cfg_trim_level = 1, eth_wait_seconds = 10,
     update_df_interval = 0, led_green = - 1, led_yellow = - 1, led_red = - 1, pin_SD_MISO = 19, pin_SD_MOSI = 23,
     pin_SD_SCLK = 18, pin_SD_CS = 5, log_level_syslog = ll_info, spi_speed = None, disk_name = ''test.dat''\<rparr>"

definition cfg_int :: "json_doc \<Rightarrow> string \<Rightarrow> int \<Rightarrow> int" where
  "cfg_int cfg key old = (if js_containsKey cfg key then js_int cfg key else old)"

text \<open>
  A missing host name makes a \<open>std::string\<close> of a null pointer, which throws. An empty one means that there is
  no host. Assigning an \<open>int\<close> to a \<open>std::string\<close> makes it a string of one character. \<open>fail_flash\<close> never returns.
\<close>

definition load_configuration :: "json_doc option option \<Rightarrow> board_cfg \<Rightarrow> (bool \<times> board_cfg) result" where
  "load_configuration data_file c =
     (case data_file of
        None \<Rightarrow> Inr (False, c)
      | Some None \<Rightarrow> Inr (False, c)
      | Some (Some cfg) \<Rightarrow>
          let c = c\<lparr>wifi_targets := wifi_targets c @ js_wifi cfg\<rparr>
          in case js_str cfg ''syslog-host'' of
               None \<Rightarrow> Inl (Uncaught ''std::logic_error'')
             | Some host \<Rightarrow>
                 let c = c\<lparr>cfg_syslog_host := (if host = [] then None else Some host)\<rparr>;
                     c = c\<lparr>cfg_trim_level := cfg_int cfg ''trim-level'' (cfg_trim_level c)\<rparr>;
                     c = c\<lparr>eth_wait_seconds := cfg_int cfg ''eth-wait-time'' (eth_wait_seconds c)\<rparr>;
                     c = c\<lparr>update_df_interval := cfg_int cfg ''update-df-interval'' (update_df_interval c)\<rparr>;
                     c = c\<lparr>led_green := cfg_int cfg ''led-green'' (led_green c)\<rparr>;
                     c = c\<lparr>led_yellow := cfg_int cfg ''led-yellow'' (led_yellow c)\<rparr>;
                     c = c\<lparr>led_red := cfg_int cfg ''led-red'' (led_red c)\<rparr>;
                     c = c\<lparr>pin_SD_MISO := cfg_int cfg ''SD-MISO'' (pin_SD_MISO c)\<rparr>;
                     c = c\<lparr>pin_SD_MOSI := cfg_int cfg ''SD-MOSI'' (pin_SD_MOSI c)\<rparr>;
                     c = c\<lparr>pin_SD_SCLK := cfg_int cfg ''SD-SCLK'' (pin_SD_SCLK c)\<rparr>;
                     c = c\<lparr>pin_SD_CS := cfg_int cfg ''SD-CS'' (pin_SD_CS c)\<rparr>;
                     c = (if js_containsKey cfg ''log-level''
                          then c\<lparr>log_level_syslog := board_parse_ll (js_text cfg ''log-level'')\<rparr> else c);
                     c = (if js_containsKey cfg ''spi-speed'' then c\<lparr>spi_speed := Some (js_int cfg ''spi-speed'')\<rparr> else c);
                     c = (if js_containsKey cfg ''disk-name''
                          then c\<lparr>disk_name := [char_of (nat (js_int cfg ''disk-name'' mod 256))]\<rparr> else c)
                 in if wifi_targets c = [] then Inl No_return else Inr (True, c))"


section \<open>Set-up\<close>

text \<open>
  Waiting for Ethernet, which an event reports; seconds are compared as unsigned numbers.
\<close>

partial_function (option) eth_wait :: "'w wifi_lib \<Rightarrow> ('w \<Rightarrow> bool) \<Rightarrow> int \<Rightarrow> u32 \<Rightarrow> 'w \<Rightarrow> 'w option" where
  "eth_wait lib eth_connected secs start w =
     (if eth_connected w then Some w
      else case ar_millis lib w of (now, w) \<Rightarrow>
        if (now - start) div 1000 < word_of_int secs then eth_wait lib eth_connected secs start (ar_delay lib 200 w) else Some w)"

definition returns :: "'a option \<Rightarrow> 'a result" where
  "returns r = (case r of None \<Rightarrow> Inl No_return | Some a \<Rightarrow> Inr a)"

text \<open>
  \<open>setup\<close> from the configuration to the device that \<open>loop\<close> serves; radio, clock and card share the state
  \<open>'w\<close>. A backend that cannot be started ends in \<open>fail_flash\<close>.
\<close>

definition board_setup :: "nat \<Rightarrow> 'w wifi_lib \<Rightarrow> 'w sd_lib \<Rightarrow> (access_point list \<Rightarrow> access_point list) \<Rightarrow> json_doc option option
    \<Rightarrow> ('w \<Rightarrow> bool) \<Rightarrow> string \<Rightarrow> 'w \<Rightarrow> env \<Rightarrow> (bool \<times> board_cfg \<times> 'w backend_sdcard scsi_st) result" where
  "board_setup fuel lib sd std_sort data_file eth_connected host w e =
     bindR (load_configuration data_file board_cfg_default) (\<lambda>(_, c).
     bindR (returns (setup_wifi lib std_sort (wifi_targets c) w)) (\<lambda>(wifi_connected, w).
     let (_, w) = set_hostname lib host w;
         (bs, e) = sdcard_new (disk_name c) (map_option nat (spi_speed c)) w e;
         (began, bs) = sdcard_begin sd bs
     in if \<not> began then Inl No_return
        else
          let scsi_dev = scsi_new (sdcard_ops fuel sd) bs (cfg_trim_level c) e;
              (start, w) = ar_millis lib (sd_world bs)
          in bindR (returns (eth_wait lib eth_connected (eth_wait_seconds c) start w)) (\<lambda>w.
             Inr (wifi_connected, c, scsi_dev\<lparr>sc_b := bs\<lparr>sd_world := w\<rparr>\<rparr>))))"

section \<open>What reaches the syslog host\<close>

lemma c_printf_plain: "CHR ''%'' \<notin> set s \<Longrightarrow> c_printf s = Inr s"
  by (induction s) auto

lemma c_printf_conversion: "CHR ''%'' \<notin> set a \<Longrightarrow> d \<noteq> CHR ''%'' \<Longrightarrow> c_printf (a @ CHR ''%'' # d # b) = Inl Mem_oob"
  by (induction a) auto

text \<open>
  C39: a log line of at least the configured level reaches the syslog host as one datagram with its
  priority, component, context and text, cut to 255 characters, if it holds no percent sign. But the line is
  handed to \<open>printf\<close> as the format: a line in which a percent sign is followed by anything else, say from a
  name that an initiator chose, makes it read arguments that are not there.
\<close>

theorem syslog_line_is_format:
  assumes "sy_host st = Some host" and "fromString host" and "\<not> sy_failed st" and "sy_level st \<le> ll"
    and "line = take 255 (syslog_header ll component context_str @ str)" and "length (syslog_header ll component context_str) \<le> 256"
  shows "(CHR ''%'' \<notin> set line \<longrightarrow> board_DOLOG fromString True ll component context_str str st =
      Inr (st\<lparr>sy_packets := sy_packets st @ [line]\<rparr>)) \<and>
    (\<forall>a d b. line = a @ CHR ''%'' # d # b \<and> CHR ''%'' \<notin> set a \<and> d \<noteq> CHR ''%'' \<longrightarrow>
      board_DOLOG fromString True ll component context_str str st = Inl Mem_oob)"
proof -
  have "\<not> err_log_buf_len < length (syslog_header ll component context_str)" "err_log_buf_len - 1 = 255"
    using assms(6) unfolding err_log_buf_len_def by linarith+
  then have t: "syslog_text (syslog_header ll component context_str) str = Inr line"
    unfolding syslog_text_def assms(5) by (simp only: if_False)
  have "board_DOLOG fromString True ll component context_str str st =
      bindR (c_printf line) (\<lambda>packet. Inr (st\<lparr>sy_packets := sy_packets st @ [packet]\<rparr>))"
    using assms(1-4) unfolding board_DOLOG_def sendsyslog_def t by simp
  then show ?thesis using c_printf_plain [of line] c_printf_conversion by auto
qed

definition cfg_ints :: "(string \<times> (board_cfg \<Rightarrow> int)) list" where
  "cfg_ints = [(''trim-level'', cfg_trim_level), (''eth-wait-time'', eth_wait_seconds), (''update-df-interval'', update_df_interval),
     (''led-green'', led_green), (''led-yellow'', led_yellow), (''led-red'', led_red), (''SD-MISO'', pin_SD_MISO),
     (''SD-MOSI'', pin_SD_MOSI), (''SD-SCLK'', pin_SD_SCLK), (''SD-CS'', pin_SD_CS)]"

lemma load_configuration_law:
  assumes "js_str cfg ''syslog-host'' = Some host" and "js_wifi cfg \<noteq> []"
  shows "\<exists>c'. load_configuration (Some (Some cfg)) c = Inr (True, c') \<and> wifi_targets c' = wifi_targets c @ js_wifi cfg \<and>
    cfg_syslog_host c' = (if host = [] then None else Some host) \<and>
    (\<forall>(key, field) \<in> set cfg_ints. field c' = cfg_int cfg key (field c)) \<and>
    spi_speed c' = (if js_containsKey cfg ''spi-speed'' then Some (js_int cfg ''spi-speed'') else spi_speed c) \<and>
    log_level_syslog c' = (if js_containsKey cfg ''log-level'' then board_parse_ll (js_text cfg ''log-level'') else log_level_syslog c) \<and>
    (if js_containsKey cfg ''disk-name'' then length (disk_name c') = 1 else disk_name c' = disk_name c)"
  using assms by (cases c) (simp add: load_configuration_def cfg_ints_def Let_def cong: let_weak_cong)

section \<open>A board that starts\<close>

text \<open>Waiting for Ethernet ends, for up to 4000000 seconds.\<close>

lemma eth_wait_law:
  assumes "wifi_clock lib clk" and "0 \<le> secs" and "secs \<le> 4000000" and "start = of_nat r" and "r \<le> clk w" and "clk w \<le> r + 2 ^ 32 - 2 ^ 25"
    and P: "P w" "\<And>w. P w \<Longrightarrow> P (snd (ar_millis lib w))" "\<And>w n. P w \<Longrightarrow> P (ar_delay lib n w)"
  shows "\<exists>w'. eth_wait lib eth_connected secs start w = Some w' \<and> P w'"
  using assms(5,6) P(1)
proof (induction "r + 2 ^ 32 - clk w" arbitrary: w rule: less_induct)
  case less
  obtain now w1 where m: "ar_millis lib w = (now, w1)" by fastforce
  have t: "now = of_nat (clk w)" "takes clk 0 w w1" "takes clk 200 w1 (ar_delay lib 200 w1)"
    using assms(1) m unfolding wifi_clock_def by (metis fst_conv, metis snd_conv, blast)
  have n: "clk w - r < 2 ^ 32" using less.prems(2) by simp
  have "now - start = of_nat (clk w - r)" unfolding t(1) assms(4) using less.prems(1) by (simp add: of_nat_diff)
  then have "unat (now - start) = clk w - r" using n by (simp only:) (subst unat_of_nat, simp)
  moreover have "unat (word_of_int secs :: u32) = nat secs" using assms(2,3) by (simp add: unsigned_of_int take_bit_int_eq_self)
  ultimately have cmp: "(now - start) div 1000 < word_of_int secs \<longleftrightarrow> (clk w - r) div 1000 < nat secs"
    by (simp add: word_less_nat_alt unat_div)
  show ?case
  proof (cases "\<not> eth_connected w \<and> (clk w - r) div 1000 < nat secs")
    case False
    then show ?thesis using less.prems(3) P(2) [of w] cmp
      by (subst eth_wait.simps) (auto simp: m)
  next
    case True
    have "nat secs \<le> 4000000" using assms(3) by linarith
    then have "(clk w - r) div 1000 < 4000000" using True by linarith
    then have "clk w \<le> r + 4000000000" by linarith
    then have c: "r \<le> clk (ar_delay lib 200 w1)" "clk (ar_delay lib 200 w1) \<le> r + 2 ^ 32 - 2 ^ 25"
      "clk w < clk (ar_delay lib 200 w1)" "clk w < r + 2 ^ 32"
      using less.prems(1) t(2,3) by (simp_all add: takes_def)
    then have "r + 2 ^ 32 - clk (ar_delay lib 200 w1) < r + 2 ^ 32 - clk w" by linarith
    moreover have "P (ar_delay lib 200 w1)" using P(2) [of w] P(3) less.prems(3) by (simp add: m)
    moreover have "eth_wait lib eth_connected secs start w = eth_wait lib eth_connected secs start (ar_delay lib 200 w1)"
      using True cmp by (subst eth_wait.simps) (simp add: m)
    ultimately show ?thesis using less.hyps c(1,2) by simp
  qed
qed

text \<open>
  What is relied on when a card is started: it takes clock speeds up to \<open>m\<close> MHz, and \<open>name\<close> is a file on it.
  Radio and clock leave the card alone.
\<close>

definition sd_starts :: "'w sd_lib \<Rightarrow> nat \<Rightarrow> ('w \<Rightarrow> bool) \<Rightarrow> ('w \<Rightarrow> byte list) \<Rightarrow> string \<Rightarrow> bool" where
  "sd_starts lib m live cont name \<longleftrightarrow> (\<forall>w. live w \<longrightarrow>
     (\<forall>mhz. \<exists>w'. sd_begin lib mhz w = (mhz \<le> m, w') \<and> live w' \<and> cont w' = cont w) \<and>
     (\<exists>w'. fs_open lib name w = (True, w') \<and> live w' \<and> cont w' = cont w) \<and> fs_fileSize lib w = of_nat (length (cont w)))"

definition card_apart :: "'w wifi_lib \<Rightarrow> ('w \<Rightarrow> bool) \<Rightarrow> ('w \<Rightarrow> byte list) \<Rightarrow> bool" where
  "card_apart lib live cont \<longleftrightarrow> (\<forall>w. live w \<longrightarrow> (\<forall>h. live (wf_hostname lib h w) \<and> cont (wf_hostname lib h w) = cont w) \<and>
     live (snd (ar_millis lib w)) \<and> cont (snd (ar_millis lib w)) = cont w \<and>
     (\<forall>n. live (ar_delay lib n w) \<and> cont (ar_delay lib n w) = cont w))"

lemma sd_try_speeds_law:
  assumes "sd_starts lib m live cont name" and "live w" and "\<exists>sp \<in> set speeds. sp \<le> m"
  shows "\<exists>w'. sd_try_speeds lib speeds w = (True, w') \<and> live w' \<and> cont w' = cont w"
  using assms(2,3)
proof (induction speeds arbitrary: w)
  case (Cons sp speeds)
  obtain w1 where w1: "sd_begin lib sp w = (sp \<le> m, w1)" "live w1" "cont w1 = cont w"
    using assms(1) Cons.prems(1) unfolding sd_starts_def by blast
  then show ?case using Cons.IH [of w1] Cons.prems(2) by (cases "sp \<le> m") auto
qed simp

lemma sdcard_begin_law:
  assumes "sd_starts lib m live cont (sd_disk_name b)" and "live (sd_world b)" and "length (cont (sd_world b)) < 2 ^ 32"
    and "sd_locks b = no_locks" and "14 \<le> m" and "\<And>sp. sd_spi_speed b = Some sp \<Longrightarrow> sp \<le> m"
  shows "\<exists>b'. sdcard_begin lib b = (True, b') \<and> sdcard_inv live cont b' \<and> cont (sd_world b') = cont (sd_world b)"
proof -
  have sp: "\<exists>w'. (case sd_spi_speed b of Some sp \<Rightarrow> sd_begin lib sp (sd_world b) | None \<Rightarrow> sd_try_speeds lib sd_speeds (sd_world b)) =
      (True, w') \<and> live w' \<and> cont w' = cont (sd_world b)"
  proof (cases "sd_spi_speed b")
    case None
    have "14 \<in> set sd_speeds" by (simp add: sd_speeds_def upt_conv_Cons)
    then show ?thesis using sd_try_speeds_law [OF assms(1,2)] assms(5) by (simp add: None) blast
  next
    case (Some sp)
    obtain w' where "sd_begin lib sp (sd_world b) = (sp \<le> m, w')" "live w'" "cont w' = cont (sd_world b)"
      using assms(1,2) unfolding sd_starts_def by blast
    then show ?thesis using assms(6) [OF Some] by (simp add: Some)
  qed
  then obtain w1 where w1: "(case sd_spi_speed b of Some sp \<Rightarrow> sd_begin lib sp (sd_world b) | None \<Rightarrow> sd_try_speeds lib sd_speeds (sd_world b)) =
      (True, w1)" "live w1" "cont w1 = cont (sd_world b)" by blast
  obtain w2 where w2: "fs_open lib (sd_disk_name b) w1 = (True, w2)" "live w2" "cont w2 = cont (sd_world b)"
    using assms(1) w1(2,3) unfolding sd_starts_def by metis
  then have "fs_fileSize lib w2 = of_nat (length (cont w2))" using assms(1) unfolding sd_starts_def by blast
  then show ?thesis using w1(1) w2 assms(3,4)
    by (simp add: sdcard_begin_def sdcard_reinit_def sdcard_inv_def Let_def)
qed


text \<open>
  A board whose configuration names its disk file does not start unless the name has one character: the name
  is read as a number.
\<close>

theorem disk_name_lost:
  assumes "js_str cfg ''syslog-host'' = Some host" and "js_wifi cfg \<noteq> []" and "js_containsKey cfg ''disk-name''"
    and "\<And>name w. length name = 1 \<Longrightarrow> \<not> fst (fs_open sd name w)"
  shows "board_setup fuel lib sd std_sort (Some (Some cfg)) eth_connected host w e = Inl No_return"
proof -
  obtain c where c: "load_configuration (Some (Some cfg)) board_cfg_default = Inr (True, c)" "length (disk_name c) = 1"
    using load_configuration_law [OF assms(1,2), of board_cfg_default] assms(3) by auto
  have re: "\<not> fst (sdcard_reinit sd cl b) \<and> sd_disk_name (snd (sdcard_reinit sd cl b)) = sd_disk_name b"
    if "length (sd_disk_name b) = 1" for cl b
  proof -
    define wc where "wc = (if cl then sd_end sd (fs_close sd (sd_world b)) else sd_world b)"
    obtain ok w1 where o: "(case sd_spi_speed b of Some sp \<Rightarrow> sd_begin sd sp wc | None \<Rightarrow> sd_try_speeds sd sd_speeds wc) = (ok, w1)"
      by fastforce
    obtain r w2 where f: "fs_open sd (sd_disk_name b) w1 = (r, w2)" by fastforce
    have "\<not> r" using assms(4) [OF that, of w1] f by simp
    then show ?thesis unfolding sdcard_reinit_def Let_def wc_def [symmetric] o by (simp add: f)
  qed
  have loop: "\<not> fst (sdcard_begin_loop sd is b)" if "length (sd_disk_name b) = 1" for "is" b
    using that
  proof (induction "is" arbitrary: b)
    case (Cons i "is")
    obtain ok b1 where r: "sdcard_reinit sd (i \<noteq> 0) b = (ok, b1)" by fastforce
    then show ?case using re [OF Cons.prems, of "i \<noteq> 0"] Cons.IH [of b1] Cons.prems by simp
  qed simp
  show ?thesis
  proof (cases "setup_wifi lib std_sort (wifi_targets c) w")
    case None
    then show ?thesis by (simp add: board_setup_def c(1) returns_def)
  next
    case (Some r)
    obtain up w1 where r: "r = (up, w1)" by fastforce
    obtain b e1 where b: "sdcard_new (disk_name c) (map_option nat (spi_speed c)) (wf_hostname lib host w1) e = (b, e1)" by fastforce
    have "sd_disk_name b = disk_name c" using b by (auto simp: sdcard_new_def split: prod.splits)
    then have "\<not> fst (sdcard_begin sd b)" using loop c(2) unfolding sdcard_begin_def by metis
    then obtain b1 where "sdcard_begin sd b = (False, b1)" by (cases "sdcard_begin sd b") simp
    then show ?thesis using Some b by (simp add: board_setup_def c(1) returns_def set_hostname_def r)
  qed
qed

section \<open>Examples\<close>

definition example_log :: syslog_st where
  "example_log = \<lparr>sy_host = Some ''10.0.0.1'', sy_level = ll_info, sy_failed = False, sy_packets = [], sy_serial = []\<rparr>"

theorem syslog_line_is_format_witness:
  "board_DOLOG (\<lambda>_. True) True ll_warning ''server'' ''-'' ''name 100% sure'' example_log = Inl Mem_oob \<and>
   board_DOLOG (\<lambda>_. True) True ll_warning ''server'' ''-'' ''ok'' example_log =
     Inr (example_log\<lparr>sy_packets := [''<28>server|-] ok'']\<rparr>)"
proof -
  have h: "syslog_header ll_warning ''server'' ''-'' = ''<28>server|-] ''" by code_simp
  have a: "sy_host example_log = Some ''10.0.0.1''" "\<not> sy_failed example_log" "sy_level example_log \<le> ll_warning"
    "sy_packets example_log = []" by (simp_all add: example_log_def) code_simp
  note law = syslog_line_is_format [where fromString = "\<lambda>_. True", OF a(1) TrueI a(2,3) refl, of "''server''" "''-''",
      unfolded h a(4), simplified]
  have "board_DOLOG (\<lambda>_. True) True ll_warning ''server'' ''-'' ''name 100% sure'' example_log = Inl Mem_oob"
  proof -
    have "''<28>server|-] name 100% sure'' = ''<28>server|-] name 100'' @ CHR ''%'' # CHR '' '' # ''sure'' \<and>
        CHR ''%'' \<notin> set ''<28>server|-] name 100'' \<and> CHR '' '' \<noteq> CHR ''%''" by simp
    then have "\<exists>a d. (\<exists>b. ''<28>server|-] name 100% sure'' = a @ CHR ''%'' # d # b) \<and> CHR ''%'' \<notin> set a \<and> d \<noteq> CHR ''%''"
      by blast
    then show ?thesis using law [of "''name 100% sure''"] by simp
  qed
  moreover have "board_DOLOG (\<lambda>_. True) True ll_warning ''server'' ''-'' ''ok'' example_log =
     Inr (example_log\<lparr>sy_packets := [''<28>server|-] ok'']\<rparr>)"
    using law [of "''ok''"] by simp
  ultimately show ?thesis by blast
qed

text \<open>Clock, and a card with its contents, position and busy polls; no network is in range.\<close>

type_synonym example_board = "nat \<times> byte list \<times> nat \<times> nat"

definition board_radio :: "example_board wifi_lib" where
  "board_radio = \<lparr>wf_hostname = (\<lambda>n w. w), wf_persistent = (\<lambda>b w. w), wf_mode = (\<lambda>m w. w), wf_softAP = (\<lambda>s w. w),
     wf_scanNetworks = (\<lambda>b w. w), wf_scanComplete = (\<lambda>w. (0, w)), wf_scanDelete = (\<lambda>w. w),
     wf_network = (\<lambda>i w. ([], 0, 0, 0)), wf_begin = (\<lambda>ssid psk w. (WL_NO_SSID_AVAIL, w)),
     wf_status = (\<lambda>w. (WL_DISCONNECTED, w)), wf_disconnect = (\<lambda>w. w), wf_set_ps = (\<lambda>b w. w),
     ar_millis = (\<lambda>(t, r). (of_nat t, t, r)), ar_delay = (\<lambda>n (t, r). (t + n, r))\<rparr>"

definition board_card :: "example_board sd_lib" where
  "board_card = \<lparr>sd_begin = (\<lambda>mhz w. (mhz \<le> 20, w)), sd_end = (\<lambda>w. w),
     sd_is_busy = (\<lambda>(t, f, p, k). (0 < k, t, f, p, k - 1)), sd_readCID = (\<lambda>_. Some 0xcafe), fs_open = (\<lambda>n w. (n = ''test.dat'', w)),
     fs_close = (\<lambda>w. w), fs_fileSize = (\<lambda>(t, f, p, k). of_nat (length f)), fs_sync = (\<lambda>w. (True, w)),
     fs_seekSet = (\<lambda>q (t, f, p, k). (unat q \<le> length f, t, f, unat q, k)),
     fs_read = (\<lambda>n (t, f, p, k). (Some (slice p n f), t, f, p + n, k)),
     fs_write = (\<lambda>d (t, f, p, k). (length d, t, overwrite p d f, p + length d, 2))\<rparr>"

definition board_live :: "example_board \<Rightarrow> bool" where
  "board_live = (\<lambda>(t, f, p, k). k \<le> 2)"

definition board_file :: "example_board \<Rightarrow> byte list" where
  "board_file = (\<lambda>(t, f, p, k). f)"

lemma board_relied:
  "wifi_clock board_radio fst" "card_apart board_radio board_live board_file"
  "sd_serves board_card 2 board_live board_file (\<lambda>(t, f, p, k). p) (\<lambda>(t, f, p, k). min 2 k)"
  "sd_starts board_card 20 board_live board_file ''test.dat''"
  by (auto simp: wifi_clock_def takes_def board_radio_def card_apart_def board_live_def board_file_def
      sd_serves_def sd_starts_def board_card_def)

lemma board_radio_setup: "setup_wifi board_radio id (wifi_targets c) w = Some (False, w)"
proof -
  have "candidates t Map.empty = []" for t by (induction t) (auto simp: candidates_def)
  then have c: "try_connect_init id t Map.empty 300 p =
      \<lparr>cs_use = [], cs_timeout = 300, cs_nr = 0, cs_waiting_nr = 0, connecting_state = False, cs_last_tick = 0, cs_progress = p\<rparr>" for t p
    by (simp add: try_connect_init_def)
  have l: "connect_loop board_radio (try_connect_init id t Map.empty 300 (Some progress_indicator)) w =
      Some (CS_FAILURE, try_connect_init id t Map.empty 300 (Some progress_indicator), w)" for t
    unfolding c by (subst connect_loop.simps) (simp add: try_connect_tick_def notify_def progress_indicator_def)
  have r: "scan_access_points_wait board_radio w = (True, w)" "start_wifi board_radio None w = w"
    "scan_access_points_start board_radio w = w" "scan_access_points_get board_radio w = (Map.empty, w)" "wf_set_ps board_radio b w = w"
    for b w by (simp_all add: board_radio_def scan_access_points_wait_def start_wifi_def scan_access_points_start_def
        scan_access_points_get_def scan_access_points_cleanup_def Let_def)
  have "scan_loop board_radio w = Some w" by (subst scan_loop.simps) (simp add: r)
  then show ?thesis by (simp add: setup_wifi_def r l)
qed


end
