(* ===== verification/Board_Loop.thy ===== *)
theory Board_Loop
  imports Com_Arduino Board_Setup Com_Sockets Iscsi_Util
begin

text \<open>
  The ESP32 sketch after its set-up (\<^verbatim>\<open>microcontrollers/main.ino\<close>, and the network events of
  \<^verbatim>\<open>microcontrollers/wifi-management.cpp\<close>): the events that say whether Ethernet is up, over-the-air updates,
  the task that measures the load, and \<open>loop\<close>, which serves the device. Constants of the platform, the
  addresses and the update library are parameters; the display is left out.
\<close>

section \<open>Variables of the sketch\<close>

text \<open>
  \<open>bd_gpio\<close> holds the writes to pins, \<open>bd_log\<close> the log lines, \<open>bd_serial\<close> the console lines, oldest first.
\<close>

record board_st =
  bd_name :: string
  eth_connected :: bool
  wifi_connected :: bool
  eth_hostname :: "string option"
  bd_gpio :: "(int \<times> bool) list"
  bd_log :: "(log_level_t \<times> string \<times> string) list"
  bd_serial :: "string list"

definition board_st_new :: board_st where
  "board_st_new = \<lparr>bd_name = [], eth_connected = False, wifi_connected = False, eth_hostname = None, bd_gpio = [], bd_log = [],
     bd_serial = []\<rparr>"

definition write_led :: "int \<Rightarrow> bool \<Rightarrow> board_st \<Rightarrow> board_st" where
  "write_led gpio state st = (if gpio \<noteq> -1 then st\<lparr>bd_gpio := bd_gpio st @ [(gpio, state)]\<rparr> else st)"

definition is_network_up :: "board_st \<Rightarrow> bool" where
  "is_network_up st \<longleftrightarrow> eth_connected st \<or> wifi_connected st"

text \<open>One round of the endless loop of \<open>fail_flash\<close>; \<open>millis\<close> is the time, \<open>builtin\<close> the LED on the board.\<close>

definition fail_flash_round :: "int option \<Rightarrow> int \<Rightarrow> u64 \<Rightarrow> board_st \<Rightarrow> board_st" where
  "fail_flash_round builtin red millis st =
     (let state = (millis AND 1024 \<noteq> 0);
          st = (case builtin of Some pin \<Rightarrow> st\<lparr>bd_gpio := bd_gpio st @ [(pin, state)]\<rparr> | None \<Rightarrow> st);
          st = write_led red state st;
          st = (case builtin of Some pin \<Rightarrow> st\<lparr>bd_gpio := bd_gpio st @ [(pin, state)]\<rparr> | None \<Rightarrow> st)
      in write_led red (\<not> state) st)"

text \<open>\<open>%02x\<close> of an octet, and the name made of octets 2 to 5 of the identifier of the chip, in a buffer of 24 characters.\<close>

definition hex2 :: "byte \<Rightarrow> string" where
  "hex2 v = [hex_digit (drop_bit 4 v), hex_digit (v AND 15)]"

definition board_name :: "u64 \<Rightarrow> string" where
  "board_name mac = take 23 (''iESP-'' @ concat (map (\<lambda>i. hex2 (ucast (drop_bit (8 * i) mac))) [2, 3, 4, 5]))"

text \<open>The pins \<open>setup\<close> makes outputs.\<close>

definition output_pins :: "int option \<Rightarrow> board_cfg \<Rightarrow> int list" where
  "output_pins builtin c =
     (case builtin of Some pin \<Rightarrow> [pin] | None \<Rightarrow> []) @ filter (\<lambda>pin. pin \<noteq> -1) [led_green c, led_yellow c, led_red c]"

datatype esp_reset_reason_t = ESP_RST_UNKNOWN | ESP_RST_POWERON | ESP_RST_EXT | ESP_RST_SW | ESP_RST_PANIC | ESP_RST_INT_WDT
  | ESP_RST_TASK_WDT | ESP_RST_WDT | ESP_RST_DEEPSLEEP | ESP_RST_BROWNOUT | ESP_RST_SDIO | ESP_RST_OTHER

fun reset_name :: "esp_reset_reason_t \<Rightarrow> string" where
  "reset_name ESP_RST_UNKNOWN = ''Reset reason can not be determined''"
| "reset_name ESP_RST_POWERON = ''Reset due to power-on event''"
| "reset_name ESP_RST_EXT = ''Reset by external pin (not applicable for ESP32)''"
| "reset_name ESP_RST_SW = ''Software reset via esp_restart''"
| "reset_name ESP_RST_PANIC = ''Software reset due to exception/panic''"
| "reset_name ESP_RST_INT_WDT = ''Reset (software or hardware) due to interrupt watchdog''"
| "reset_name ESP_RST_TASK_WDT = ''Reset due to task watchdog''"
| "reset_name ESP_RST_WDT = ''Reset due to other watchdogs''"
| "reset_name ESP_RST_DEEPSLEEP = ''Reset after exiting deep sleep mode''"
| "reset_name ESP_RST_BROWNOUT = ''Brownout reset (software or hardware)''"
| "reset_name ESP_RST_SDIO = ''Reset over SDIO''"
| "reset_name ESP_RST_OTHER = ''?''"

text \<open>The log line of a restart; \<open>number\<close> gives the value of the platform's constant.\<close>

definition restart_report :: "(esp_reset_reason_t \<Rightarrow> nat) \<Rightarrow> esp_reset_reason_t \<Rightarrow> string \<Rightarrow> string \<Rightarrow> log_level_t \<times> string \<times> string" where
  "restart_report number reset_reason version_str name =
     (if reset_reason \<noteq> ESP_RST_POWERON
      then (ll_error, ''setup'', ''Reset reason: '' @ reset_name reset_reason @ '' ('' @ show_nat (number reset_reason) @
              ''), software version '' @ version_str @ '', name: '' @ name)
      else (ll_info, ''setup'', ''System (re-)started, software version '' @ version_str @ '', name: '' @ name))"

section \<open>Network events\<close>

definition wifi_reasons :: "string list" where
  "wifi_reasons = [''WIFI_REASON_UNSPECIFIED'', ''WIFI_REASON_AUTH_EXPIRE'', ''WIFI_REASON_AUTH_LEAVE'',
     ''WIFI_REASON_ASSOC_EXPIRE'', ''WIFI_REASON_ASSOC_TOOMANY'', ''WIFI_REASON_NOT_AUTHED'', ''WIFI_REASON_NOT_ASSOCED'',
     ''WIFI_REASON_ASSOC_LEAVE'', ''WIFI_REASON_ASSOC_NOT_AUTHED'', ''WIFI_REASON_DISASSOC_PWRCAP_BAD'',
     ''WIFI_REASON_DISASSOC_SUPCHAN_BAD'', ''WIFI_REASON_IE_INVALID'', ''WIFI_REASON_MIC_FAILURE'',
     ''WIFI_REASON_4WAY_HANDSHAKE_TIMEOUT'', ''WIFI_REASON_GROUP_KEY_UPDATE_TIMEOUT'', ''WIFI_REASON_IE_IN_4WAY_DIFFERS'',
     ''WIFI_REASON_802_1X_AUTH_FAILED'', ''WIFI_REASON_CIPHER_SUITE_REJECTED'', ''WIFI_REASON_BEACON_TIMEOUT'',
     ''WIFI_REASON_NO_AP_FOUND'', ''WIFI_REASON_AUTH_FAIL'', ''WIFI_REASON_ASSOC_FAIL'', ''WIFI_REASON_HANDSHAKE_TIMEOUT'']"

text \<open>What the Ethernet driver says when it has an address.\<close>

record eth_info =
  ei_localIP :: "byte list"
  ei_fullDuplex :: bool
  ei_linkSpeed :: nat

text \<open>
  \<open>k\<close> gives the value of a constant of the platform by its name; \<open>has_eth\<close>: not the build for the WEMOS32.
  The labels of a \<open>switch\<close> are distinct, so the order in which they are tried does not matter.
\<close>

definition event_text :: "(string \<Rightarrow> int) \<Rightarrow> bool \<Rightarrow> eth_info \<Rightarrow> int \<Rightarrow> board_st \<Rightarrow> string \<times> board_st" where
  "event_text k has_eth eth event st =
     (case find (\<lambda>reason. k reason = event) wifi_reasons of
        Some reason \<Rightarrow> (reason, st)
      | None \<Rightarrow>
          if has_eth \<and> event = k ''ARDUINO_EVENT_ETH_START'' then (''ETH Started'', st\<lparr>eth_hostname := Some (bd_name st)\<rparr>)
          else if has_eth \<and> event = k ''ARDUINO_EVENT_ETH_CONNECTED'' then (''ETH Connected'', st)
          else if has_eth \<and> event = k ''ARDUINO_EVENT_ETH_GOT_IP'' then
            (''ETH IPv4: '' @ ip_text (ei_localIP eth) @ (if ei_fullDuplex eth then '', FULL_DUPLEX'' else []) @ '', '' @
               show_nat (ei_linkSpeed eth) @ ''Mb'', st\<lparr>eth_connected := True\<rparr>)
          else if has_eth \<and> event = k ''ARDUINO_EVENT_ETH_DISCONNECTED'' then (''ETH Disconnected'', st\<lparr>eth_connected := False\<rparr>)
          else if has_eth \<and> event = k ''ARDUINO_EVENT_ETH_STOP'' then (''ETH Stopped'', st\<lparr>eth_connected := False\<rparr>)
          else ([], st\<lparr>bd_serial := bd_serial st @ [''Unknown/unexpected ETH event '' @ show_int event]\<rparr>))"

definition WiFiEvent :: "(string \<Rightarrow> int) \<Rightarrow> bool \<Rightarrow> int \<Rightarrow> eth_info \<Rightarrow> int \<Rightarrow> board_st \<Rightarrow> board_st" where
  "WiFiEvent k has_eth red eth event st =
     (let st = write_led red True st;
          (msg, st) = event_text k has_eth eth event st;
          st = st\<lparr>bd_serial := bd_serial st @ [''WiFiEvent: WiFi event: '' @ msg]\<rparr>
      in write_led red False st)"

section \<open>Over-the-air updates\<close>

text \<open>
  The flags \<open>ota_update\<close> and \<open>stop\<close> are shared by tasks that run side by side: they are part of the state
  \<open>'w\<close> of the outside world, as is the file system that \<open>LittleFS.end\<close> unmounts.
\<close>

record 'w board_os =
  bo_net :: "'w sock_net"
  bo_ota_update :: "'w \<Rightarrow> bool"
  bo_set_ota_update :: "'w \<Rightarrow> 'w"
  bo_set_stop :: "'w \<Rightarrow> 'w"
  bo_fs_end :: "'w \<Rightarrow> 'w"
  bo_eth_ip :: "'w \<Rightarrow> byte list"
  bo_wifi_ip :: "'w \<Rightarrow> byte list"

datatype ota_error_t = OTA_AUTH_ERROR | OTA_BEGIN_ERROR | OTA_CONNECT_ERROR | OTA_RECEIVE_ERROR | OTA_END_ERROR

text \<open>The functions that \<open>enable_OTA\<close> registers.\<close>

definition ota_start :: "'w board_os \<Rightarrow> board_st \<times> 'w \<Rightarrow> board_st \<times> 'w" where
  "ota_start os = (\<lambda>(st, w).
     let st = st\<lparr>bd_log := bd_log st @ [(ll_info, ''enable_OTA'', ''OTA start'' @ [CHR 0x0A])]\<rparr>
     in (st, bo_fs_end os (bo_set_stop os (bo_set_ota_update os w))))"

definition ota_end :: "board_st \<times> 'w \<Rightarrow> board_st \<times> 'w" where
  "ota_end = (\<lambda>(st, w). (st\<lparr>bd_log := bd_log st @ [(ll_info, ''enable_OTA'', ''OTA end'')]\<rparr>, w))"

text \<open>Products of unsigned numbers wrap; a division by zero traps.\<close>

definition ota_progress :: "u32 \<Rightarrow> u32 \<Rightarrow> board_st \<times> 'w \<Rightarrow> (board_st \<times> 'w) result" where
  "ota_progress progress whole = (\<lambda>(st, w).
     if whole = 0 then Inl (Uncaught ''IntegerDivideByZero'')
     else Inr (st\<lparr>bd_serial := bd_serial st @ [''OTA progress: '' @ show_nat (unat (progress * 100 div whole)) @ ''%'']\<rparr>, w))"

fun ota_error_text :: "ota_error_t \<Rightarrow> string" where
  "ota_error_text OTA_AUTH_ERROR = ''auth failed''"
| "ota_error_text OTA_BEGIN_ERROR = ''begin failed''"
| "ota_error_text OTA_CONNECT_ERROR = ''connect failed''"
| "ota_error_text OTA_RECEIVE_ERROR = ''receive failed''"
| "ota_error_text OTA_END_ERROR = ''end failed''"

definition ota_error :: "(ota_error_t \<Rightarrow> nat) \<Rightarrow> int \<Rightarrow> ota_error_t \<Rightarrow> board_st \<times> 'w \<Rightarrow> board_st \<times> 'w" where
  "ota_error number red error = (\<lambda>(st, w).
     let st = write_led red True st
     in (st\<lparr>bd_log := bd_log st @ [(ll_info, ''enable_OTA'', ''OTA error['' @ show_nat (number error) @ '']: ''),
           (ll_info, ''enable_OTA'', ota_error_text error)]\<rparr>, w))"

section \<open>The load\<close>

text \<open>
  The task \<open>loopw\<close> and the idle task beside it. \<open>lw_idle_cnt\<close> is the time in microseconds that nothing was to be done.
  The percentage is computed in floating point: \<open>pct\<close>. The blinking of the LED on the board is left out.
\<close>

record load_st =
  lw_cu_count :: nat
  lw_draw_status_ts :: u32
  lw_hundredsofasecond :: u32
  lw_idle_cnt :: u32
  lw_cpu_usage :: i32
  lw_ram_free_kb :: i32
  lw_bs :: backend_stats_t
  lw_bstats :: backend_stats_t

definition idle_round :: "u64 \<Rightarrow> u64 \<Rightarrow> load_st \<Rightarrow> load_st" where
  "idle_round start now st = st\<lparr>lw_idle_cnt := lw_idle_cnt st + ucast (now - start)\<rparr>"

definition loopw_round :: "(u32 \<Rightarrow> i32) \<Rightarrow> u32 \<Rightarrow> u32 \<Rightarrow> load_st \<Rightarrow> load_st" where
  "loopw_round pct now free_heap st =
     (let st = (if 5000 < now - lw_draw_status_ts st then st\<lparr>lw_draw_status_ts := now\<rparr> else st);
          st = st\<lparr>lw_hundredsofasecond := now div 10\<rparr>;
          st = st\<lparr>lw_cu_count := lw_cu_count st + 1\<rparr>
      in if 40 \<le> lw_cu_count st then
           let st = st\<lparr>lw_cpu_usage := pct (lw_idle_cnt st), lw_idle_cnt := 0\<rparr>;
               st = st\<lparr>lw_ram_free_kb := ucast (free_heap div 1024)\<rparr>;
               (bstats, bs) = get_and_reset_stats (lw_bs st)
           in st\<lparr>lw_bs := bs, lw_bstats := bstats\<lparr>bs_io_wait_ticks := bs_io_wait bstats * 10000\<rparr>, lw_cu_count := 0\<rparr>
         else st)"

text \<open>The memory ran out: a log line between two writes to the LED.\<close>

definition heap_caps_alloc_failed_hook :: "int \<Rightarrow> string \<Rightarrow> board_st \<Rightarrow> board_st" where
  "heap_caps_alloc_failed_hook red line st =
     (let st = write_led red True st;
          st = st\<lparr>bd_log := bd_log st @ [(ll_error, ''heap_caps_alloc_failed_hook'', line)]\<rparr>
      in write_led red False st)"

section \<open>Serving\<close>

text \<open>The address to listen on, in a buffer of 16 characters, and how the board is connected.\<close>

definition listen_address :: "bool \<Rightarrow> byte list \<Rightarrow> byte list \<Rightarrow> string \<times> string" where
  "listen_address has_eth ipe ipw =
     (if \<not> has_eth then (take 15 (ip_text ipw), ''WiFi'')
      else if ipe = [0, 0, 0, 0] then (take 15 (ip_text ipw), ''WiFi'')
      else (take 15 (ip_text ipe), ''Ethernet''))"

text \<open>The block of \<open>loop\<close>; the listening socket is closed at its end. \<open>fail_flash\<close> does not return.\<close>

definition board_serve :: "nat \<Rightarrow> nat \<Rightarrow> 'w board_os \<Rightarrow> bool \<Rightarrow> (nat \<Rightarrow> 'w \<Rightarrow> bool) \<Rightarrow> 'w \<Rightarrow> (threads_st \<times> 'w) result" where
  "board_serve rounds fuel os has_eth flag w =
     (let (buffer, connection) = listen_address has_eth (bo_eth_ip os w) (bo_wifi_ip os w);
          (ok, c, w) = com_sockets_begin (bo_net os) (com_sockets_new buffer 3260) w
      in if \<not> ok then Inl No_return
         else bindR (accept_loop rounds fuel (bo_net os) flag c \<lparr>th_list = [], th_started = [], th_joined = []\<rparr> w) (\<lambda>(ts, w).
              Inr (ts, com_sockets_delete (bo_net os) c w)))"

text \<open>When an update began, \<open>loop\<close> waits for ever after that.\<close>

definition board_loop :: "nat \<Rightarrow> nat \<Rightarrow> 'w board_os \<Rightarrow> bool \<Rightarrow> (nat \<Rightarrow> 'w \<Rightarrow> bool) \<Rightarrow> 'w \<Rightarrow> (threads_st \<times> 'w) result" where
  "board_loop rounds fuel os has_eth flag w =
     bindR (board_serve rounds fuel os has_eth flag w) (\<lambda>(ts, w).
     if bo_ota_update os w then Inl No_return else Inr (ts, w))"

section \<open>Laws\<close>

definition ETH_LABELS :: "string list" where
  "ETH_LABELS = [''ARDUINO_EVENT_ETH_START'', ''ARDUINO_EVENT_ETH_CONNECTED'', ''ARDUINO_EVENT_ETH_GOT_IP'',
     ''ARDUINO_EVENT_ETH_DISCONNECTED'', ''ARDUINO_EVENT_ETH_STOP'']"

text \<open>The labels of the \<open>switch\<close> have different values, without which it does not compile.\<close>

definition labels_distinct :: "(string \<Rightarrow> int) \<Rightarrow> bool" where
  "labels_distinct k \<longleftrightarrow> distinct (map k (wifi_reasons @ ETH_LABELS))"

definition eth_events :: "(string \<Rightarrow> int) \<Rightarrow> int list" where
  "eth_events k = map k [''ARDUINO_EVENT_ETH_GOT_IP'', ''ARDUINO_EVENT_ETH_DISCONNECTED'', ''ARDUINO_EVENT_ETH_STOP'']"

lemma eth_label_no_reason:
  assumes "labels_distinct k" and "label \<in> set ETH_LABELS"
  shows "find (\<lambda>reason. k reason = k label) wifi_reasons = None"
proof -
  have "k label \<in> k ` set ETH_LABELS" using assms(2) by blast
  then have "k label \<notin> k ` set wifi_reasons"
    using assms(1) unfolding labels_distinct_def map_append distinct_append set_map by blast
  then show ?thesis unfolding find_None_iff by (metis imageI)
qed

lemma write_led_eth [simp]: "eth_connected (write_led pin s st) = eth_connected st" "wifi_connected (write_led pin s st) = wifi_connected st"
  by (simp_all add: write_led_def)

lemma WiFiEvent_flags:
  "eth_connected (WiFiEvent k has_eth red eth ev st) = eth_connected (snd (event_text k has_eth eth ev (write_led red True st)))"
  "wifi_connected (WiFiEvent k has_eth red eth ev st) = wifi_connected (snd (event_text k has_eth eth ev (write_led red True st)))"
  by (cases "event_text k has_eth eth ev (write_led red True st)"; simp add: WiFiEvent_def Let_def)+

lemma event_text_wifi: "wifi_connected (snd (event_text k has_eth eth ev st)) = wifi_connected st"
  by (simp add: event_text_def split: option.split)

lemma WiFiEvent_wifi: "wifi_connected (WiFiEvent k has_eth red eth ev st) = wifi_connected st"
  by (simp add: WiFiEvent_flags event_text_wifi)

lemma eth_labels_differ:
  assumes "labels_distinct k"
  shows "distinct (map k ETH_LABELS)"
  using assms unfolding labels_distinct_def map_append distinct_append by blast

lemma event_text_eth:
  assumes "labels_distinct k"
  shows "eth_connected (snd (event_text k True eth ev st)) =
    (if ev \<in> set (eth_events k) then ev = k ''ARDUINO_EVENT_ETH_GOT_IP'' else eth_connected st)"
proof -
  define s c g d t where e: "s = k ''ARDUINO_EVENT_ETH_START''" "c = k ''ARDUINO_EVENT_ETH_CONNECTED''"
    "g = k ''ARDUINO_EVENT_ETH_GOT_IP''" "d = k ''ARDUINO_EVENT_ETH_DISCONNECTED''" "t = k ''ARDUINO_EVENT_ETH_STOP''"
  note e = e [symmetric]
  have dist: "distinct [s, c, g, d, t]" using eth_labels_differ [OF assms] unfolding ETH_LABELS_def list.map e .
  have ev: "eth_events k = [g, d, t]" unfolding eth_events_def list.map e ..
  have none: "find (\<lambda>reason. k reason = ev) wifi_reasons = None" if "ev \<in> set [g, d, t]"
    using that eth_label_no_reason [OF assms] unfolding ETH_LABELS_def e [symmetric] by auto
  show ?thesis
  proof (cases "ev \<in> set [g, d, t]")
    case True
    show ?thesis using True dist unfolding event_text_def none [OF True] option.case e ev by auto
  next
    case False
    then show ?thesis unfolding event_text_def e ev by (simp split: option.split)
  qed
qed

lemma WiFiEvent_eth:
  assumes "labels_distinct k"
  shows "eth_connected (WiFiEvent k True red eth ev st) =
    (if ev \<in> set (eth_events k) then ev = k ''ARDUINO_EVENT_ETH_GOT_IP'' else eth_connected st)"
  by (simp add: WiFiEvent_flags event_text_eth [OF assms])

lemma fold_keeps:
  assumes "\<And>x st. P (f x st) = P st"
  shows "P (fold f xs st) = P st"
  by (induction xs arbitrary: st) (simp_all add: assms)

lemma fold_last_event:
  assumes "\<And>x st. P (f x st) = (if E x then G x else P st)"
  shows "P (fold f xs st) = (case filter E (rev xs) of [] \<Rightarrow> P st | x # _ \<Rightarrow> G x)"
proof (induction xs rule: rev_induct)
  case (snoc x xs)
  have "fold f (xs @ [x]) st = f x (fold f xs st)" by simp
  then show ?case unfolding rev_append rev.simps append_Nil append_Cons filter.simps
    by (simp only: assms snoc.IH list.case split: if_split) simp
qed simp

text \<open>
  What the board takes for the state of the network after any events: Ethernet is up if the last event that
  reports an address or its loss reports an address, and WiFi is what it was at the set-up. So a board that
  once had WiFi takes the network for up for ever.
\<close>

theorem network_follows_events:
  assumes "labels_distinct k" and st': "st' = fold (\<lambda>(ev, eth). WiFiEvent k True red eth ev) infos st"
  shows "eth_connected st' = (case filter (\<lambda>(ev, _). ev \<in> set (eth_events k)) (rev infos) of
      [] \<Rightarrow> eth_connected st | x # _ \<Rightarrow> fst x = k ''ARDUINO_EVENT_ETH_GOT_IP'')"
    and "wifi_connected st' = wifi_connected st" and "wifi_connected st \<Longrightarrow> is_network_up st'"
proof -
  show w: "wifi_connected st' = wifi_connected st"
    unfolding st' by (rule fold_keeps [where P = wifi_connected]) (simp only: case_prod_beta WiFiEvent_wifi)
  show "eth_connected st' = (case filter (\<lambda>(ev, _). ev \<in> set (eth_events k)) (rev infos) of
      [] \<Rightarrow> eth_connected st | x # _ \<Rightarrow> fst x = k ''ARDUINO_EVENT_ETH_GOT_IP'')"
    unfolding st'
    by (rule fold_last_event [where P = eth_connected and E = "\<lambda>(ev, _). ev \<in> set (eth_events k)"])
      (simp only: case_prod_beta WiFiEvent_eth [OF assms(1)])
  show "is_network_up st'" if "wifi_connected st" using that w by (simp add: is_network_up_def)
qed

section \<open>The measured load\<close>

lemma loopw_rounds_before:
  fixes pct :: "u32 \<Rightarrow> i32"
  assumes "lw_cu_count st + length xs < 40"
  defines "st' \<equiv> fold (\<lambda>(now, heap). loopw_round pct now heap) xs st"
  shows "lw_cu_count st' = lw_cu_count st + length xs" and "lw_idle_cnt st' = lw_idle_cnt st" and "lw_bs st' = lw_bs st"
    and "lw_bstats st' = lw_bstats st" and "lw_cpu_usage st' = lw_cpu_usage st"
proof -
  have "lw_cu_count st' = lw_cu_count st + length xs \<and> lw_idle_cnt st' = lw_idle_cnt st \<and> lw_bs st' = lw_bs st \<and>
      lw_bstats st' = lw_bstats st \<and> lw_cpu_usage st' = lw_cpu_usage st"
    unfolding st'_def using assms(1)
  proof (induction xs arbitrary: st)
    case (Cons x xs)
    have "lw_cu_count (loopw_round pct (fst x) (snd x) st) = lw_cu_count st + 1 \<and>
        lw_idle_cnt (loopw_round pct (fst x) (snd x) st) = lw_idle_cnt st \<and> lw_bs (loopw_round pct (fst x) (snd x) st) = lw_bs st \<and>
        lw_bstats (loopw_round pct (fst x) (snd x) st) = lw_bstats st \<and> lw_cpu_usage (loopw_round pct (fst x) (snd x) st) = lw_cpu_usage st"
      using Cons.prems by (simp add: loopw_round_def Let_def)
    then show ?case using Cons.IH [of "loopw_round pct (fst x) (snd x) st"] Cons.prems by (simp add: case_prod_beta)
  qed simp
  then show "lw_cu_count st' = lw_cu_count st + length xs" "lw_idle_cnt st' = lw_idle_cnt st" "lw_bs st' = lw_bs st"
    "lw_bstats st' = lw_bstats st" "lw_cpu_usage st' = lw_cpu_usage st" by simp_all
qed

text \<open>
  Forty rounds, a second, after the last time publish the counters of the backend, with the waiting time in the
  agent's unit, and the load, and start both anew; before that nothing is published.
\<close>

theorem load_period:
  fixes pct :: "u32 \<Rightarrow> i32"
  assumes "lw_cu_count st = 0" and "length xs = 39"
  defines "run \<equiv> fold (\<lambda>(now, heap). loopw_round pct now heap)"
  shows "lw_bstats (run xs st) = lw_bstats st" and "lw_cu_count (run (xs @ [x]) st) = 0"
    and "lw_bs (run (xs @ [x]) st) = snd (get_and_reset_stats (lw_bs st))"
    and "lw_bstats (run (xs @ [x]) st) = (lw_bs st)\<lparr>bs_io_wait_ticks := bs_io_wait (lw_bs st) * 10000\<rparr>"
    and "lw_cpu_usage (run (xs @ [x]) st) = pct (lw_idle_cnt st)" and "lw_idle_cnt (run (xs @ [x]) st) = 0"
proof -
  define st1 where "st1 = run xs st"
  have st1: "lw_cu_count st1 = 39" "lw_idle_cnt st1 = lw_idle_cnt st" "lw_bs st1 = lw_bs st" "lw_bstats st1 = lw_bstats st"
    using loopw_rounds_before [of st xs pct] assms(1,2) by (simp_all add: st1_def run_def)
  have r: "run (xs @ [x]) st = loopw_round pct (fst x) (snd x) st1" by (simp add: run_def st1_def case_prod_beta)
  show "lw_bstats (run xs st) = lw_bstats st" using st1(4) by (simp add: st1_def)
  show "lw_cu_count (run (xs @ [x]) st) = 0" "lw_bs (run (xs @ [x]) st) = snd (get_and_reset_stats (lw_bs st))"
    "lw_bstats (run (xs @ [x]) st) = (lw_bs st)\<lparr>bs_io_wait_ticks := bs_io_wait (lw_bs st) * 10000\<rparr>"
    "lw_cpu_usage (run (xs @ [x]) st) = pct (lw_idle_cnt st)" "lw_idle_cnt (run (xs @ [x]) st) = 0"
    unfolding r using st1 by (simp_all add: loopw_round_def Let_def get_and_reset_stats_def)
qed

section \<open>An update ends the service\<close>

text \<open>
  The hypotheses on the flags: \<open>stop\<close> is only set after \<open>ota_update\<close> (on the boards nothing else sets it), the calls of \<open>ota_start\<close>
  set what they are to set, and closing a socket leaves \<open>ota_update\<close> alone.
\<close>

definition flags_work :: "'w board_os \<Rightarrow> ('w \<Rightarrow> nat) \<Rightarrow> bool" where
  "flags_work os until \<longleftrightarrow> stops_within (bo_net os) until \<and>
     (\<forall>w. sk_stop (bo_net os) w \<longrightarrow> bo_ota_update os w) \<and>
     (\<forall>w. sk_stop (bo_net os) (bo_fs_end os (bo_set_stop os (bo_set_ota_update os w)))) \<and>
     (\<forall>fd w. bo_ota_update os w \<longrightarrow> bo_ota_update os (net_close (sk_io (bo_net os)) fd w))"

lemma accept_loop_at_stop:
  "accept_loop rounds fuel net flag c ts w = Inr (ts', w') \<Longrightarrow> sk_stop net w'"
proof (induction rounds arbitrary: ts w)
  case 0
  then show ?case by (simp add: accept_loop.simps split: if_splits)
next
  case (Suc rounds)
  show ?case
  proof (cases "sk_stop net w")
    case True
    then show ?thesis using Suc.prems by (simp add: accept_loop.simps)
  next
    case False
    then obtain a where "accept_round fuel net flag c ts w = Inr a" "accept_loop rounds fuel net flag c (fst a) (snd a) = Inr (ts', w')"
      using Suc.prems by (cases "accept_round fuel net flag c ts w") (auto simp: accept_loop.simps [of "Suc rounds"] case_prod_beta)
    then show ?thesis using Suc.IH by blast
  qed
qed

text \<open>
  An update that begins ends the service for good, also one that fails: after \<open>ota_start\<close>, and whatever
  \<open>ota_progress\<close> and \<open>ota_error\<close> report then, the server stops accepting, every connection's thread is joined, the listening socket is closed, and
  \<open>loop\<close> does not return, so that it is not called again. A server is built at most once: \<open>loop\<close> never returns.
\<close>

theorem update_ends_service:
  assumes os: "flags_work os until"
    and "com_sockets_begin (bo_net os) (com_sockets_new (fst (listen_address has_eth (bo_eth_ip os w) (bo_wifi_ip os w))) 3260) w = (True, c, w1)"
    and "until w1 \<le> rounds" and "until w1 < fuel"
  shows "\<exists>ts w2 w3. board_serve rounds fuel os has_eth flag w = Inr (ts, w3) \<and>
      mset (th_joined ts) = mset [0..<length (th_started ts)] \<and>
      w3 = com_sockets_delete (bo_net os) c w2 \<and> sk_stop (bo_net os) w2 \<and> bo_ota_update os w3"
    and "board_loop rounds' fuel' os has_eth flag w \<noteq> Inr r"
    and "sk_stop (bo_net os) (snd (ota_error number red e (ota_start os (st, w))))"
proof -
  have st: "stops_within (bo_net os) until" and ota: "\<And>w. sk_stop (bo_net os) w \<Longrightarrow> bo_ota_update os w"
    and set: "\<And>w. sk_stop (bo_net os) (bo_fs_end os (bo_set_stop os (bo_set_ota_update os w)))"
    and cl: "\<And>fd w. bo_ota_update os w \<Longrightarrow> bo_ota_update os (net_close (sk_io (bo_net os)) fd w)"
    using os unfolding flags_work_def by blast+
  have del: "bo_ota_update os (com_sockets_delete (bo_net os) c w)" if "sk_stop (bo_net os) w" for c w
    using ota [OF that] cl by (simp add: com_sockets_delete_def)
  obtain ts w2 where a: "accept_loop rounds fuel (bo_net os) flag c \<lparr>th_list = [], th_started = [], th_joined = []\<rparr> w1 = Inr (ts, w2)"
    "mset (th_joined ts) = mset [0..<length (th_started ts)]"
    using accept_loop_returns [OF st assms(3,4), of "\<lparr>th_list = [], th_started = [], th_joined = []\<rparr>" flag c]
    by (auto simp: threads_inv_def)
  show "\<exists>ts w2 w3. board_serve rounds fuel os has_eth flag w = Inr (ts, w3) \<and>
      mset (th_joined ts) = mset [0..<length (th_started ts)] \<and>
      w3 = com_sockets_delete (bo_net os) c w2 \<and> sk_stop (bo_net os) w2 \<and> bo_ota_update os w3"
    using a accept_loop_at_stop [OF a(1)] del assms(2) by (auto simp: board_serve_def case_prod_beta)
  show "board_loop rounds' fuel' os has_eth flag w \<noteq> Inr r"
  proof
    assume "board_loop rounds' fuel' os has_eth flag w = Inr r"
    then obtain ts w3 where b: "board_serve rounds' fuel' os has_eth flag w = Inr (ts, w3)" "\<not> bo_ota_update os w3"
      unfolding board_loop_def by (cases "board_serve rounds' fuel' os has_eth flag w") (auto split: if_splits)
    then obtain c w1 w2 where "accept_loop rounds' fuel' (bo_net os) flag c \<lparr>th_list = [], th_started = [], th_joined = []\<rparr> w1 = Inr (ts, w2)"
      "w3 = com_sockets_delete (bo_net os) c w2"
      unfolding board_serve_def Let_def case_prod_beta
      by (auto simp: bindR_def split: if_splits sum.splits)
    then show False using del [OF accept_loop_at_stop] b(2) by simp
  qed
  show "sk_stop (bo_net os) (snd (ota_error number red e (ota_start os (st, w))))"
    using set by (simp add: ota_error_def ota_start_def Let_def)
qed

end
