(* ===== verification/Iscsi_Data_In.thy ===== *)
theory Iscsi_Data_In
  imports Iscsi_Wire
begin

text \<open>
  Data-In PDUs that carry a reply inline (\<open>iscsi_pdu_scsi_data_in::get\<close>): how the data is cut into
  PDUs, and what the headers of those PDUs say about their place in the whole.
\<close>

section \<open>The final bit\<close>

definition final_ok :: "byte list \<Rightarrow> bool \<Rightarrow> bool" where
  "final_ok h f \<longleftrightarrow> length h = 48 \<and> (bit (h ! 1) 7 \<longleftrightarrow> f)"

lemma final_start: "off l ''b1'' = 0 \<Longrightarrow> final_ok (setbits l ''b1'' b k v zero48) False"
  by (simp add: final_ok_def member_defs mem_simps)

lemma final_set: "final_ok h f' \<Longrightarrow> off l ''b2'' = 1 \<Longrightarrow> final_ok (setbits l ''b2'' 7 k 1 h) True"
  by (auto simp: final_ok_def member_defs mem_simps set_bits_def bit_simps)

lemma final_keep:
  "final_ok h f \<Longrightarrow> off l ''b2'' = 1 \<and> b < 3 \<Longrightarrow> final_ok (setbits l ''b2'' b (Suc 0) 1 h) f"
  "final_ok h f \<Longrightarrow> 8 \<le> off l g \<and> off l g \<le> 44 \<Longrightarrow> final_ok (set32 l g v h) f"
  "final_ok h f \<Longrightarrow> 8 \<le> off l g \<and> off l g + length m \<le> 48 \<Longrightarrow> final_ok (setmem l g m h) f"
  "final_ok h f \<Longrightarrow> off l ''datalenH'' = 5 \<and> off l ''datalenM'' = 6 \<and> off l ''datalenL'' = 7 \<Longrightarrow>
   final_ok (set_datalen l n h) f"
  by (auto simp: final_ok_def member_defs mem_simps bit_set_bits bit_1_iff)

lemmas final_rules = final_start final_set final_keep

section \<open>One header\<close>

text \<open>What the header says about this PDU: sequence number, offset, final bit.\<close>

definition pdu_DataSN :: "byte list \<Rightarrow> u32" where
  "pdu_DataSN blob = my_NTOHL (get32 pdu_data_in_l ''DataSN'' blob)"

definition pdu_bufferoff :: "byte list \<Rightarrow> u32" where
  "pdu_bufferoff blob = my_NTOHL (get32 pdu_data_in_l ''bufferoff'' blob)"

definition pdu_final :: "byte list \<Rightarrow> bool" where
  "pdu_final blob \<longleftrightarrow> bit (get8 pdu_data_in_l ''b2'' blob) 7"

lemma data_in_header_ok:
  assumes "n < 2 ^ 24"
  shows "hdr_ok (data_in_header c avail use i n lst sn) 0x25 n (ld32 16 (pdu_bytes c))"
  unfolding data_in_header_def hdr_unfold
  by (cases lst; simp; (intro conjI impI)?; ((rule hdr_rules)+; use assms in simp))

lemma data_in_header_final: "final_ok (data_in_header c avail use i n lst sn) lst"
  unfolding data_in_header_def hdr_unfold
  by (cases lst; simp; (intro conjI impI)?; ((rule final_rules)+; simp))

text \<open>A 32-bit member of the header.\<close>

definition member_ok :: "byte list \<Rightarrow> nat \<Rightarrow> u32 \<Rightarrow> bool" where
  "member_ok h k v \<longleftrightarrow> length h = 48 \<and> ld32 k h = v"

lemma member_set: "off l f = k \<Longrightarrow> final_ok h b \<Longrightarrow> k \<le> 44 \<Longrightarrow> member_ok (set32 l f v h) k v"
  by (auto simp: member_ok_def final_ok_def set32_def mem_simps)

lemma member_keep: "member_ok h k v \<Longrightarrow> k \<le> 44 \<and> off l f \<le> 44 \<and> (off l f + 4 \<le> k \<or> k + 4 \<le> off l f) \<Longrightarrow>
   member_ok (set32 l f w h) k v"
  by (auto simp: member_ok_def set32_def mem_simps)

lemma data_in_header_datasn: "member_ok (data_in_header c avail use i n lst sn) 36 (my_HTONL sn)"
  unfolding data_in_header_def hdr_unfold
  by (cases lst; simp; (intro conjI impI)?;
      (rule member_keep, rule member_keep, rule member_set, simp, (rule final_rules)+; simp))

lemma data_in_header_bufferoff: "member_ok (data_in_header c avail use i n lst sn) 40 (my_HTONL (of_nat i))"
  unfolding data_in_header_def hdr_unfold
  by (cases lst; simp; (intro conjI impI)?;
      (rule member_keep, rule member_set, simp, (rule final_rules)+; simp))

lemma ld32_append: "k + 4 \<le> length h \<Longrightarrow> ld32 k (h @ rest) = ld32 k h"
  by (simp add: ld32_def nth_append)

lemma data_in_header_place:
  "pdu_DataSN (data_in_header c avail use i n lst sn @ rest) = sn"
  "pdu_bufferoff (data_in_header c avail use i n lst sn @ rest) = of_nat i"
  "pdu_final (data_in_header c avail use i n lst sn @ rest) = lst"
  using data_in_header_final [of c avail use i n lst sn] data_in_header_datasn [of c avail use i n lst sn]
    data_in_header_bufferoff [of c avail use i n lst sn]
  by (simp_all add: pdu_final_def pdu_DataSN_def pdu_bufferoff_def get8_def get32_def final_ok_def member_ok_def
      nth_append ld32_append my_NTOHL_def)

section \<open>All PDUs\<close>

text \<open>The PDU with number \<open>k\<close>, when the sequence numbers start at \<open>sn\<close>.\<close>

definition data_in_blob :: "session \<Rightarrow> pdu \<Rightarrow> byte list \<Rightarrow> nat \<Rightarrow> nat \<Rightarrow> u32 \<Rightarrow> nat \<Rightarrow> byte list" where
  "data_in_blob ses c data use bs sn k =
     assembled ses (data_in_header c (length data) use (k * bs) (min (use - k * bs) bs)
         (k = (use + bs - 1) div bs - 1) sn) (slice (k * bs) (min (use - k * bs) bs) data) True"

definition first_datasn :: "u32 \<Rightarrow> session \<Rightarrow> u32" where
  "first_datasn itt ses = (if itt = data_sn_itt ses then data_sn ses else 0)"

lemma get_inc_datasn_first:
  obtains ses' where "get_inc_datasn itt ses = (first_datasn itt ses, ses')" "first_datasn itt ses' = first_datasn itt ses + 1"
    "get_header_digest ses' = get_header_digest ses" "get_data_digest ses' = get_data_digest ses"
  by (rule that [of "snd (get_inc_datasn itt ses)"])
    (auto simp: get_inc_datasn_def first_datasn_def get_header_digest_def get_data_digest_def)

lemma assembled_cong:
  "get_header_digest ses' = get_header_digest ses \<Longrightarrow> get_data_digest ses' = get_data_digest ses \<Longrightarrow>
   assembled ses' h d a = assembled ses h d a"
  by (simp add: assembled_def)

lemma data_in_loop_eq:
  assumes "0 < bs"
  shows "fst (data_in_loop c data use bs ((use + bs - 1) div bs) (k * bs) k ses) =
    map (\<lambda>j. data_in_blob ses c data use bs (first_datasn (get_Itasktag cdb_pdu_req_l c) ses + of_nat (j - k)) j)
      [k..<(use + bs - 1) div bs]"
proof (induction "use - k * bs" arbitrary: k ses rule: less_induct)
  case less
  let ?itt = "get_Itasktag cdb_pdu_req_l c" and ?n = "(use + bs - 1) div bs"
  show ?case
  proof (cases "k * bs < use")
    case False
    then have "\<not> Suc k \<le> ?n" using assms unfolding less_eq_div_iff_mult_less_eq [OF assms] by simp
    then show ?thesis using False by (simp add: data_in_loop.simps [of c data use bs])
  next
    case True
    have "Suc k \<le> ?n" unfolding less_eq_div_iff_mult_less_eq [OF assms] using True by simp
    then have kn: "[k..<?n] = k # [Suc k..<?n]" by (simp add: upt_conv_Cons)
    obtain ses' where s': "get_inc_datasn ?itt ses = (first_datasn ?itt ses, ses')"
      "first_datasn ?itt ses' = first_datasn ?itt ses + 1"
      "get_header_digest ses' = get_header_digest ses" "get_data_digest ses' = get_data_digest ses"
      by (rule get_inc_datasn_first)
    have IH: "fst (data_in_loop c data use bs ?n (Suc k * bs) (Suc k) ses') =
        map (\<lambda>j. data_in_blob ses' c data use bs (first_datasn ?itt ses' + of_nat (j - Suc k)) j) [Suc k..<?n]"
      by (rule less) (use True assms in simp)
    have tail: "data_in_blob ses' c data use bs (first_datasn ?itt ses' + of_nat (j - Suc k)) j =
        data_in_blob ses c data use bs (first_datasn ?itt ses + of_nat (j - k)) j" if "j \<in> set [Suc k..<?n]" for j
    proof -
      have "j - k = Suc (j - Suc k)" using that by (simp only: set_upt atLeastLessThan_iff) arith
      then show ?thesis by (simp add: data_in_blob_def assembled_cong [OF s'(3,4)] s'(2) add.assoc)
    qed
    have hd: "fst (data_in_loop c data use bs ?n (k * bs) k ses) =
        get_helper ses' (data_in_header c (length data) use (k * bs) (min (use - k * bs) bs) (k = ?n - 1) (first_datasn ?itt ses))
          (slice (k * bs) (min (use - k * bs) bs) data) True
        # fst (data_in_loop c data use bs ?n (Suc k * bs) (Suc k) ses')"
      using True assms
      by (subst data_in_loop.simps) (simp add: s'(1) Let_def add.commute split: prod.split)
    have "length (data_in_header c (length data) use (k * bs) (min (use - k * bs) bs) (k = ?n - 1) (first_datasn ?itt ses)) = 48"
      using data_in_header_final by (simp add: final_ok_def)
    then have "get_helper ses' (data_in_header c (length data) use (k * bs) (min (use - k * bs) bs) (k = ?n - 1)
          (first_datasn ?itt ses)) (slice (k * bs) (min (use - k * bs) bs) data) True =
        data_in_blob ses c data use bs (first_datasn ?itt ses + of_nat (k - k)) k"
      by (simp add: get_helper_spec assembled_cong [OF s'(3,4)] data_in_blob_def)
    then show ?thesis
      unfolding hd IH kn list.map by (rule arg_cong2 [where f = Cons]) (rule map_cong [OF refl tail])
  qed
qed

lemma concat_slices:
  assumes "0 < bs" and "use \<le> length data"
  shows "concat (map (\<lambda>k. slice (k * bs) (min (use - k * bs) bs) data) [0..<m]) = take (min use (m * bs)) data"
proof (induction m)
  case (Suc m)
  have "min use (Suc m * bs) = min use (m * bs) + min (use - m * bs) bs" by auto
  moreover have "take (a + b) data = take a data @ slice a b data" for a b
    by (simp add: slice_def take_add)
  moreover have "slice (m * bs) (min (use - m * bs) bs) data = slice (min use (m * bs)) (min (use - m * bs) bs) data"
    by (cases "m * bs \<le> use") (auto simp: min_def)
  ultimately show ?case using Suc by simp
qed simp

lemma read_data_in_blob:
  assumes "0 < bs" and "bs < 2 ^ 24" and "use \<le> length data"
  shows "read_pdu (get_header_digest ses) (data_in_blob ses c data use bs sn k) =
    (0x25, get_Itasktag cdb_pdu_req_l c, slice (k * bs) (min (use - k * bs) bs) data)"
proof -
  define n where "n = min (use - k * bs) bs"
  have n: "n < 2 ^ 24" "length (slice (k * bs) n data) = n" using assms by (auto simp: n_def)
  have "read_pdu (get_header_digest ses \<and> True) (data_in_blob ses c data use bs sn k) =
      (0x25, ld32 16 (pdu_bytes c), slice (k * bs) n data)"
    unfolding data_in_blob_def n_def [symmetric]
    by (rule read_pdu_assembled) (use data_in_header_ok [OF n(1)] n(2) in simp)
  then show ?thesis by (simp add: n_def get_Itasktag_def get32_def)
qed

text \<open>
  C23: a reply with data is cut into Data-In PDUs of the session's block size, the last one possibly
  shorter. PDU number \<open>k\<close> says that its data starts at offset \<open>k\<close> times the block size and has the
  \<open>k\<close>-th sequence number after the first; exactly the last one has the final bit. An initiator that
  puts the data segments together gets the reply cut off at the length it expected.
\<close>

theorem data_in_pdus:
  assumes "ses_block_size ses \<noteq> 0" and "unat (ses_block_size ses) < 2 ^ 24"
    and bs_def: "bs = unat (ses_block_size ses)" and itt_def: "itt = get_Itasktag cdb_pdu_req_l c"
    and use_def: "use = min (length data) (unat (get_ExpDatLen c))"
  shows "\<exists>blobs ses'. data_in_get c data ses = Inr (blobs, ses') \<and> length blobs = (use + bs - 1) div bs \<and>
    (\<forall>k < length blobs. fst (read_pdu (get_header_digest ses) (blobs ! k)) = 0x25 \<and>
       pdu_bufferoff (blobs ! k) = of_nat (k * bs) \<and> pdu_DataSN (blobs ! k) = first_datasn itt ses + of_nat k \<and>
       (pdu_final (blobs ! k) \<longleftrightarrow> k = length blobs - 1)) \<and>
    concat (map (\<lambda>b. snd (snd (read_pdu (get_header_digest ses) b))) blobs) = take use data"
proof -
  have bs: "0 < bs" "bs < 2 ^ 24" using assms(1,2) by (auto simp: bs_def word_neq_0_conv unat_gt_0)
  have le: "use \<le> length data" by (simp add: use_def)
  define n where "n = (use + bs - 1) div bs"
  define f where "f k = data_in_blob ses c data use bs (first_datasn itt ses + of_nat k) k" for k
  obtain ses' where get: "data_in_get c data ses = Inr (map f [0..<n], ses')"
    using data_in_loop_eq [OF bs(1), of c data use 0 ses] bs(1)
    by (cases "data_in_loop c data use bs n 0 0 ses")
      (auto simp: data_in_get_def Let_def use_def bs_def n_def f_def itt_def)
  have place: "pdu_bufferoff (f k) = of_nat (k * bs)" "pdu_DataSN (f k) = first_datasn itt ses + of_nat k"
    "pdu_final (f k) \<longleftrightarrow> k = n - 1" for k
    by (simp_all add: f_def data_in_blob_def assembled_def data_in_header_place n_def)
  have "\<not> Suc n \<le> (use + bs - 1) div bs" by (simp add: n_def)
  then have "use \<le> n * bs" unfolding less_eq_div_iff_mult_less_eq [OF bs(1)] using bs(1) by simp
  then have "concat (map (\<lambda>k. snd (snd (read_pdu (get_header_digest ses) (f k)))) [0..<n]) = take use data"
    using concat_slices [OF bs(1) le, of n] by (simp add: f_def read_data_in_blob [OF bs le])
  moreover have "fst (read_pdu (get_header_digest ses) (f k)) = 0x25" for k
    by (simp add: f_def read_data_in_blob [OF bs le])
  moreover have "length (map f [0..<n]) = (use + bs - 1) div bs" by (simp add: n_def)
  ultimately show ?thesis
    using get place by (intro exI [of _ "map f [0..<n]"] exI [of _ ses']) (simp add: comp_def)
qed

theorem data_in_pdus_witness:
  "\<exists>blobs ses'. data_in_get \<lparr>pdu_bytes = replicate 23 0 @ [5] @ replicate 24 0, pdu_data = None\<rparr> [1, 2, 3, 4, 5, 6]
      (set_block_size 4 (session_new [] [] [] False)) = Inr (blobs, ses') \<and> length blobs = 2 \<and>
    concat (map (\<lambda>b. snd (snd (read_pdu False b))) blobs) = [1, 2, 3, 4, 5]"
proof -
  define c where "c = \<lparr>pdu_bytes = replicate 23 0 @ [5 :: byte] @ replicate 24 0, pdu_data = None\<rparr>"
  define ses where "ses = set_block_size 4 (session_new [] [] [] False)"
  have e: "get_ExpDatLen c = 5"
    by (simp add: get_ExpDatLen_def get32_def my_NTOHL_ld32 get_uint32_t_def c_def nth_append)
  have s: "ses_block_size ses = 4" "get_header_digest ses = False"
    by (simp_all add: ses_def set_block_size_def session_new_def get_header_digest_def)
  have h: "ses_block_size ses \<noteq> 0" "unat (ses_block_size ses) < 2 ^ 24" "4 = unat (ses_block_size ses)"
    "5 = min (length [1, 2, 3, 4, 5, 6 :: byte]) (unat (get_ExpDatLen c))"
    by (simp_all add: s e)
  obtain blobs ses' where "data_in_get c [1, 2, 3, 4, 5, 6] ses = Inr (blobs, ses')" "length blobs = (5 + 4 - 1) div 4"
    "concat (map (\<lambda>b. snd (snd (read_pdu (get_header_digest ses) b))) blobs) = take 5 [1, 2, 3, 4, 5, 6]"
    using data_in_pdus [OF h(1-3) refl h(4)] by blast
  then show ?thesis unfolding c_def [symmetric] ses_def [symmetric] s by simp
qed

end
