(* ===== verification/Server_Stream.thy ===== *)
theory Server_Stream
  imports Server_Receive Iscsi_Data_In
begin

text \<open>
  Reads that are streamed from the backend: the PDUs built by \<open>gen_data_in_pdu\<close> and filled by the loop
  of \<open>push_response\<close> carry exactly the blocks that were asked for.
\<close>

section \<open>The PDUs of a stream\<close>

lemma member_keep_bits:
  "member_ok h k v \<Longrightarrow> k \<le> 44 \<and> 4 \<le> k \<and> off l f < 4 \<Longrightarrow> member_ok (setbits l f b m w h) k v"
  by (auto simp: member_ok_def member_defs mem_simps)

lemma gen_header_ok:
  assumes "n < 2 ^ 24"
  shows "hdr_ok (gen_data_in_header c res i n lst sn) 0x25 (unat n) (ld32 16 (pdu_bytes c))"
proof -
  have n: "unat n < 16777216" using assms by (simp add: word_less_nat_alt)
  show ?thesis
    unfolding gen_data_in_header_def hdr_unfold
    by (cases lst; cases res; simp split: prod.split residual.split;
        (intro conjI impI allI)?; ((rule hdr_rules)+; use n in simp))
qed

lemma gen_header_final: "final_ok (gen_data_in_header c res i n lst sn) lst"
  unfolding gen_data_in_header_def hdr_unfold
  by (cases lst; cases res; simp split: prod.split residual.split;
      (intro conjI impI allI)?; ((rule final_rules)+; simp))

lemma set_bufferoff: "final_ok h b \<Longrightarrow> member_ok (set32 pdu_data_in_l ''bufferoff'' v h) 40 v"
  by (rule member_set) simp_all

lemma gen_header_bufferoff: "member_ok (gen_data_in_header c res i n lst sn) 40 (my_HTONL i)"
  unfolding gen_data_in_header_def hdr_unfold
  by (cases lst; cases res; simp split: prod.split residual.split; (intro conjI impI allI)?;
      ((rule set_bufferoff member_keep_bits member_keep final_rules)+; simp))

text \<open>
  \<open>gen_data_in_pdu\<close>, the data put behind the header, and the data digest if negotiated: for a whole
  number of words this is the PDU that \<open>get_helper\<close> would build.
\<close>

lemma gen_data_in_pdu_eq:
  assumes "length header = 48"
    and "header = gen_data_in_header c res i n lst (first_datasn (get_Itasktag cdb_pdu_req_l c) ses)"
  obtains ses' where "gen_data_in_pdu ses c res i n lst =
      (header @ (if get_header_digest ses then digest header else []) @
         replicate (pad4 (unat n) + (if get_data_digest ses then 4 else 0)) 0,
       if get_header_digest ses then 52 else 48, ses')"
    and "get_header_digest ses' = get_header_digest ses" "get_data_digest ses' = get_data_digest ses"
    and "max_seg_len ses' = max_seg_len ses"
proof -
  obtain ses' where s': "get_inc_datasn (get_Itasktag cdb_pdu_req_l c) ses = (first_datasn (get_Itasktag cdb_pdu_req_l c) ses, ses')"
    "get_header_digest ses' = get_header_digest ses" "get_data_digest ses' = get_data_digest ses"
    by (rule get_inc_datasn_first)
  have m: "max_seg_len ses' = max_seg_len ses"
    using s'(1) by (auto simp: get_inc_datasn_def split: if_splits)
  have pad: "pad4 (48 + k) = 48 + pad4 k" for k unfolding pad4_def by presburger
  have "48 \<le> m \<Longrightarrow> overwrite 0 header (replicate m 0) = header @ replicate (m - 48) 0" for m
    using assms(1) by (simp add: overwrite_def)
  moreover have "4 \<le> k \<Longrightarrow> length d = 4 \<Longrightarrow> overwrite 48 d (header @ replicate k 0) = header @ d @ replicate (k - 4) 0" for d k
    using assms(1) by (simp add: overwrite_def)
  ultimately have "gen_data_in_pdu ses c res i n lst =
      (header @ (if get_header_digest ses then digest header else []) @
         replicate (pad4 (unat n) + (if get_data_digest ses then 4 else 0)) 0,
       if get_header_digest ses then 52 else 48, ses')"
    unfolding gen_data_in_pdu_def s'(1) Let_def prod.case assms(2) [symmetric] s'(2,3) pad
    by (cases "get_header_digest ses"; cases "get_data_digest ses") (simp_all add: digest_def)
  then show ?thesis using s' m by (intro that [of ses'])
qed

text \<open>What an initiator can rely on in one PDU: its data, where it belongs, and whether it is the last one.\<close>

definition data_in_ok :: "bool \<Rightarrow> u32 \<Rightarrow> nat \<Rightarrow> byte list \<Rightarrow> bool \<Rightarrow> byte list \<Rightarrow> bool" where
  "data_in_ok hdigest itt pos d final blob \<longleftrightarrow> read_pdu hdigest blob = (0x25, itt, d) \<and>
     unat (pdu_bufferoff blob) = pos \<and> (pdu_final blob \<longleftrightarrow> final)"

fun data_ins :: "bool \<Rightarrow> u32 \<Rightarrow> nat \<Rightarrow> byte list list \<Rightarrow> byte list \<Rightarrow> bool" where
  "data_ins hdigest itt pos [] data \<longleftrightarrow> data = []"
| "data_ins hdigest itt pos (b # bs) data \<longleftrightarrow>
     (let d = snd (snd (read_pdu hdigest b))
      in d \<noteq> [] \<and> data_in_ok hdigest itt pos d (bs = []) b \<and> take (length d) data = d \<and>
         data_ins hdigest itt (pos + length d) bs (drop (length d) data))"

lemma data_ins_Cons:
  assumes "data_in_ok hdigest itt pos (slice a n mem) (pos + n = l) blob" and "0 < n" and "pos + n \<le> l \<and> a + (l - pos) \<le> length mem"
    and "data_ins hdigest itt (pos + n) blobs (slice (a' + (pos + n)) (l - (pos + n)) mem)" and "a = a' + pos"
  shows "data_ins hdigest itt pos (blob # blobs) (slice a (l - pos) mem)"
proof -
  have d: "snd (snd (read_pdu hdigest blob)) = slice a n mem" using assms(1) by (simp add: data_in_ok_def)
  have len: "length (slice a n mem) = n" using assms(3) by auto
  have "slice (a' + (pos + n)) (l - (pos + n)) mem = [] \<longleftrightarrow> pos + n = l"
    using assms(3,5) by (auto simp flip: length_0_conv)
  then have "blobs = [] \<longleftrightarrow> pos + n = l" using assms(4) by (cases blobs) (auto simp: Let_def)
  moreover have "take n (slice a (l - pos) mem) = slice a n mem"
  proof -
    have "min n (l - pos) = n" using assms(3) by linarith
    then show ?thesis by (simp add: slice_def)
  qed
  moreover have "drop n (slice a (l - pos) mem) = slice (a' + (pos + n)) (l - (pos + n)) mem"
  proof -
    have "n + a = a' + (pos + n)" "l - pos - n = l - (pos + n)" using assms(5) by simp_all
    then show ?thesis unfolding slice_def drop_take drop_drop by (simp only:)
  qed
  moreover have "slice a n mem \<noteq> []" using len assms(2) by (auto simp flip: length_0_conv)
  ultimately show ?thesis using assms(1,4) by (simp only: data_ins.simps d Let_def len simp_thms)
qed

lemma data_in_ok_assembled:
  assumes "n < 2 ^ 24" and "length d = unat n"
  shows "data_in_ok (get_header_digest ses) (get_Itasktag cdb_pdu_req_l c) (unat i) d lst
    (assembled ses (gen_data_in_header c res i n lst sn) d True)"
proof -
  let ?h = "gen_data_in_header c res i n lst sn"
  have "read_pdu (get_header_digest ses \<and> True) (assembled ses ?h d True) = (0x25, ld32 16 (pdu_bytes c), d)"
    by (rule read_pdu_assembled) (use gen_header_ok [OF assms(1)] assms(2) in simp)
  moreover have "length ?h = 48" "bit (?h ! 1) 7 = lst" "ld32 40 ?h = my_HTONL i"
    using gen_header_final [of c res i n lst sn] gen_header_bufferoff [of c res i n lst sn]
    by (simp_all add: final_ok_def member_ok_def)
  ultimately show ?thesis
    by (simp add: data_in_ok_def get_Itasktag_def get32_def get8_def pdu_bufferoff_def pdu_final_def my_NTOHL_def
        assembled_def nth_append ld32_append)
qed

section \<open>One round of the loop\<close>

lemma current_n_eq:
  assumes "a \<le> MAX_DATA_SEGMENT_SIZE"
  shows "ucast (min (ucast a :: u64) (min (ucast b) (ucast MAX_DATA_SEGMENT_SIZE))) = min (a :: u32) b"
proof -
  have "unat (min (ucast a :: u64) (min (ucast b) (ucast MAX_DATA_SEGMENT_SIZE))) = min (unat a) (unat b)"
    using assms by (auto simp: min_def word_le_nat_alt)
  moreover have "min (unat a) (unat b) < 2 ^ 32" using unsigned_less [of a, where 'a = nat] by (simp add: min_less_iff_disj)
  ultimately have "unat (ucast (min (ucast a :: u64) (min (ucast b) (ucast MAX_DATA_SEGMENT_SIZE))) :: u32) = min (unat a) (unat b)"
    by (simp add: unsigned_ucast_eq take_bit_nat_eq_self)
  then show ?thesis by (auto simp: word_unat_eq_iff min_def word_le_nat_alt)
qed

text \<open>Reading whole blocks into the buffer of a PDU, behind its first \<open>k\<close> bytes.\<close>

context block_storage
begin

lemma unat_blocks:
  assumes "inv b" and "bsz dvd unat n"
  shows "unat (ucast (ucast (n :: u32) div be_get_block_size ops b) :: u32) * bsz = unat n"
proof -
  have u: "unat (ucast n div be_get_block_size ops b :: u64) = unat n div bsz"
    by (simp add: unat_div unat_block_size [OF assms(1)])
  have "unat n div bsz < 2 ^ 32" using unsigned_less [of n, where 'a = nat] by (auto intro: le_less_trans [OF div_le_dividend])
  then show ?thesis using assms(2) by (simp add: unsigned_ucast_eq take_bit_nat_eq_self u)
qed

lemma next_lba:
  assumes "inv b" and "bsz dvd unat n" and "unat nr * bsz + unat n \<le> length (disk b)"
  shows "unat ((nr :: u64) + ucast (ucast (ucast (n :: u32) div be_get_block_size ops b) :: u32)) * bsz = unat nr * bsz + unat n"
proof -
  let ?k = "ucast (ucast n div be_get_block_size ops b) :: u32"
  have k: "unat ?k * bsz = unat n" by (rule unat_blocks [OF assms(1,2)])
  have "(unat nr + unat ?k) * bsz \<le> length (disk b)" using k assms(3) by (simp add: add_mult_distrib)
  moreover have "unat nr + unat ?k \<le> (unat nr + unat ?k) * bsz" using bsz_pos by simp
  ultimately have "unat nr + unat ?k < 2 ^ 63" using disk_lt [OF assms(1)] by linarith
  then have "unat nr + unat ?k < 2 ^ 64" by simp
  then have "unat (nr + ucast ?k) = unat nr + unat ?k" by (subst unat_add_u64) simp_all
  then show ?thesis using k by (simp add: add_mult_distrib)
qed

lemma stream_fill_law:
  assumes "inv (sc_b s)" and "locking_status tid s \<noteq> l_locked_other" and "quiet (sc_env s)"
    and "n \<noteq> 0" and "bsz dvd unat n" and "unat n \<le> lim * bsz" and "unat nr * bsz + unat n \<le> length (disk (sc_b s))"
    and "length pre = k" and "unat n \<le> r"
  shows "\<exists>s'. stream_fill ops tid nr n (be_get_block_size ops (sc_b s)) (pre @ replicate r 0) k s =
      Inr (rw_ok, pre @ slice (unat nr * bsz) (unat n) (disk (sc_b s)) @ replicate (r - unat n) 0, s') \<and>
    inv (sc_b s') \<and> same_cfg s s' \<and> quiet (sc_env s') \<and> disk (sc_b s') = disk (sc_b s)"
proof -
  define blocks where "blocks = (ucast (ucast n div be_get_block_size ops (sc_b s)) :: u32)"
  have b: "unat blocks * bsz = unat n" unfolding blocks_def by (rule unat_blocks [OF assms(1,5)])
  then have "unat blocks * bsz \<le> lim * bsz" using assms(6) by simp
  then have lim: "unat blocks \<le> lim" using bsz_pos by simp
  have big: "\<not> (ucast n :: u64) < be_get_block_size ops (sc_b s)"
    using assms(4,5) by (auto simp: word_less_nat_alt unat_block_size [OF assms(1)] unat_eq_zero dest: dvd_imp_le)
  have od: "on_disk nr blocks (sc_b s)" using assms(7) b by (simp add: on_disk_def)
  obtain s' where "scsi_read ops tid nr blocks (replicate r 0) s = Inr (rw_ok,
      overwrite 0 (slice (unat nr * bsz) (unat n) (disk (sc_b s))) (replicate r 0), s')"
    "inv (sc_b s')" "same_cfg s s'" "quiet (sc_env s')" "disk (sc_b s') = disk (sc_b s)"
    using scsi_read_law [OF assms(1) _ od assms(2), of "replicate r 0"] assms(3,9) b lim
    by (auto simp: rw_of_bool_def)
  moreover have "overwrite 0 (slice (unat nr * bsz) (unat n) (disk (sc_b s))) (replicate r 0) =
      slice (unat nr * bsz) (unat n) (disk (sc_b s)) @ replicate (r - unat n) 0"
    using assms(7) by (simp add: overwrite_def)
  moreover have "overwrite k d (pre @ replicate r 0) = pre @ d" if "length d = r" for d
    using that assms(8) by (simp add: overwrite_def)
  ultimately show ?thesis
    using big assms(7-9) by (simp add: stream_fill_def blocks_def)
qed

end

text \<open>
  What holds between two rounds: the session and the connection are fit for sending, the offset is on a
  block boundary, and the current block is the one at that offset of the medium from \<open>base\<close> on.
\<close>

definition stream_inv :: "('b \<Rightarrow> bool) \<Rightarrow> nat \<Rightarrow> nat \<Rightarrow> nat \<Rightarrow> nat \<Rightarrow> session \<Rightarrow> 'b stream \<Rightarrow> bool" where
  "stream_inv dinv bsz tid base m ses0 st \<longleftrightarrow> dinv (sc_b (st_s st)) \<and> locking_status tid (st_s st) \<noteq> l_locked_other \<and>
     quiet (sc_env (st_s st)) \<and> cc_send_ok (st_cc st) = [] \<and> unat (max_seg_len (st_ses st)) = m \<and>
     get_header_digest (st_ses st) = get_header_digest ses0 \<and> get_data_digest (st_ses st) = get_data_digest ses0 \<and>
     bsz dvd unat (st_offset st) \<and> unat (st_lba st) * bsz = base + unat (st_offset st)"

context block_storage
begin

lemma stream_step_law:
  assumes "stream_inv inv bsz tid base m ses0 st" and "0 < m" and "m \<le> unat MAX_DATA_SEGMENT_SIZE" and "bsz dvd m"
    and "min m (unat offset_end) < 2 ^ 24" and "min m (unat offset_end) \<le> lim * bsz"
    and "4 dvd bsz" and "bsz dvd unat offset_end" and "st_offset st < offset_end"
    and "base + unat offset_end \<le> length (disk (sc_b (st_s st)))"
    and n_def: "n = min m (unat offset_end - unat (st_offset st))"
  shows "\<exists>blob st'. stream_step ops tid c scsi_has iscsi_wants offset_end st = Inr (IFR_OK, st') \<and>
    stream_inv inv bsz tid base m ses0 st' \<and> disk (sc_b (st_s st')) = disk (sc_b (st_s st)) \<and>
    unat (st_offset st') = unat (st_offset st) + n \<and> cc_tx (st_cc st') = cc_tx (st_cc st) @ [blob] \<and>
    data_in_ok (get_header_digest ses0) (get_Itasktag cdb_pdu_req_l c) (unat (st_offset st))
      (slice (base + unat (st_offset st)) n (disk (sc_b (st_s st)))) (unat (st_offset st) + n = unat offset_end) blob"
proof -
  let ?ses = "st_ses st" and ?s = "st_s st" and ?o = "st_offset st"
  note i = assms(1) [unfolded stream_inv_def]
  define cn where "cn = min (max_seg_len ?ses) (offset_end - ?o)"
  have le: "unat ?o < unat offset_end" using assms(9) by (simp add: word_less_nat_alt)
  then have sub: "unat (offset_end - ?o) = unat offset_end - unat ?o" by (simp add: unat_sub word_le_nat_alt)
  have cn: "unat cn = n" using i sub by (auto simp: cn_def n_def min_def word_le_nat_alt)
  have dvd: "bsz dvd unat offset_end - unat ?o" using assms(8) i by (simp add: dvd_diff_nat)
  then have n: "bsz dvd n" "0 < n" "n < 2 ^ 24" "n \<le> lim * bsz" "unat ?o + n \<le> unat offset_end"
    using assms(2,4-6) le by (auto simp: n_def min_def split: if_splits)
  have cur: "ucast (min (ucast (max_seg_len ?ses) :: u64) (min (ucast (offset_end - ?o)) (ucast MAX_DATA_SEGMENT_SIZE))) = cn"
    unfolding cn_def by (rule current_n_eq) (use i assms(3) in \<open>simp add: word_le_nat_alt\<close>)
  have bs0: "be_get_block_size ops (sc_b ?s) \<noteq> 0" using unat_block_size [of "sc_b ?s"] bsz_pos i by auto
  have off': "unat (?o + cn) = unat ?o + n"
    using cn n(5) unsigned_less [of offset_end, where 'a = nat] by (simp add: unat_word_ariths)
  then have lst: "?o + cn = offset_end \<longleftrightarrow> unat ?o + n = unat offset_end" by (simp add: word_unat_eq_iff)
  define h where "h = gen_data_in_header c (if ?o + cn = offset_end then stream_residual scsi_has iscsi_wants else None) ?o cn
    (?o + cn = offset_end) (first_datasn (get_Itasktag cdb_pdu_req_l c) ?ses)"
  have h48: "length h = 48" using gen_header_final by (simp add: h_def final_ok_def)
  define pre where "pre = h @ (if get_header_digest ?ses then digest h else [])"
  define k where "k = (if get_header_digest ?ses then 52 else 48 :: nat)"
  define dd where "dd = (if get_data_digest ?ses then 4 else 0 :: nat)"
  have pad: "pad4 n = n" using n(1) assms(7) by (auto simp: pad4_def elim!: dvdE)
  obtain ses' where g: "gen_data_in_pdu ?ses c (if ?o + cn = offset_end then stream_residual scsi_has iscsi_wants else None) ?o cn
      (?o + cn = offset_end) = (pre @ replicate (n + dd) 0, k, ses')"
    "get_header_digest ses' = get_header_digest ?ses" "get_data_digest ses' = get_data_digest ?ses"
    "max_seg_len ses' = max_seg_len ?ses"
    using gen_data_in_pdu_eq [OF h48 h_def] unfolding pre_def k_def dd_def cn pad append_assoc by metis
  define d where "d = slice (base + unat ?o) n (disk (sc_b ?s))"
  have ld: "length d = n" using n(5) assms(10) by (simp add: d_def)
  have cn0: "cn \<noteq> 0" using cn n(2) by auto
  obtain s' where f: "stream_fill ops tid (st_lba st) cn (be_get_block_size ops (sc_b ?s)) (pre @ replicate (n + dd) 0) k ?s =
      Inr (rw_ok, pre @ d @ replicate dd 0, s')" "inv (sc_b s')" "same_cfg ?s s'" "quiet (sc_env s')"
      "disk (sc_b s') = disk (sc_b ?s)"
    using stream_fill_law [of ?s tid cn "st_lba st" pre k "n + dd"] i n cn assms(10) h48
    cn0 by (auto simp: d_def pre_def k_def)
  define blob where "blob = assembled ?ses h d True"
  have lk: "length pre = k" using h48 by (simp add: pre_def k_def)
  have sl: "slice k n (pre @ d @ replicate dd 0) = d" using lk ld by (simp add: slice_def)
  have pd: "padded d = d" using ld pad by (simp add: padded_def)
  have blob: "blob = pre @ d @ (if get_data_digest ?ses then digest d else [])"
    using n(2) ld by (auto simp: blob_def assembled_def pre_def pd)
  have out: "(if get_data_digest ?ses then overwrite (k + n) (le32_bytes (fst (crc32_0x11EDC6F41 d None))) (pre @ d @ replicate dd 0)
      else pre @ d @ replicate dd 0) = blob"
    unfolding blob using lk ld by (simp add: dd_def overwrite_def digest_def)
  define cc where "cc = (st_cc st)\<lparr>cc_tx := cc_tx (st_cc st) @ [blob]\<rparr>"
  have send: "cc_send blob (st_cc st) = (True, cc)" using i by (simp add: cc_send_def cc_def)
  define st' where "st' = st\<lparr>st_ses := add_bytes_tx (length blob) ses', st_s := s', st_cc := cc, st_offset := ?o + cn,
    st_lba := st_lba st + ucast (ucast (ucast cn div be_get_block_size ops (sc_b ?s)) :: u32),
    st_is := count_tx (length blob) (st_is st)\<rparr>"
  have step: "stream_step ops tid c scsi_has iscsi_wants offset_end st = Inr (IFR_OK, st')"
    using bs0 unfolding stream_step_def Let_def cur g(1) prod.case f(1) bindR_simps cn sl g(3) out
    by (simp add: st'_def send)
  have "unat (st_lba st) * bsz + unat cn \<le> length (disk (sc_b ?s))" using i cn n(5) assms(10) by simp
  then have "unat (st_lba st') * bsz = base + unat ?o + n"
    using next_lba [of "sc_b ?s" cn "st_lba st"] i n(1) cn by (simp add: st'_def)
  then have "stream_inv inv bsz tid base m ses0 st'"
    using i f(2,4) g(2-4) off' n(1) same_cfg_locking [OF f(3)]
    by (simp add: stream_inv_def st'_def cc_def add_bytes_tx_def get_header_digest_def get_data_digest_def)
  moreover have "data_in_ok (get_header_digest ses0) (get_Itasktag cdb_pdu_req_l c) (unat ?o) d (unat ?o + n = unat offset_end) blob"
    using data_in_ok_assembled [of cn d ?ses c ?o "?o + cn = offset_end"] ld cn n(3) i
    unfolding blob_def h_def lst by (simp add: word_less_nat_alt)
  ultimately show ?thesis
    using step f(5) off' unfolding d_def by (intro exI [of _ blob] exI [of _ st']) (simp add: st'_def cc_def)
qed

lemma stream_loop_law:
  assumes "stream_inv inv bsz tid base m ses0 st" and "0 < m" and "m \<le> unat MAX_DATA_SEGMENT_SIZE" and "bsz dvd m"
    and "min m (unat offset_end) < 2 ^ 24" and "min m (unat offset_end) \<le> lim * bsz"
    and "4 dvd bsz" and "bsz dvd unat offset_end" and "st_offset st \<le> offset_end"
    and "base + unat offset_end \<le> length (disk (sc_b (st_s st)))" and "unat offset_end - unat (st_offset st) \<le> fuel"
  shows "\<exists>blobs st'. stream_loop fuel ops tid c scsi_has iscsi_wants offset_end ifr st = Inr (ifr, st') \<and>
    stream_inv inv bsz tid base m ses0 st' \<and> disk (sc_b (st_s st')) = disk (sc_b (st_s st)) \<and> cc_tx (st_cc st') = cc_tx (st_cc st) @ blobs \<and>
    data_ins (get_header_digest ses0) (get_Itasktag cdb_pdu_req_l c) (unat (st_offset st)) blobs
      (slice (base + unat (st_offset st)) (unat offset_end - unat (st_offset st)) (disk (sc_b (st_s st))))"
  using assms
proof (induction fuel arbitrary: st)
  case 0
  then have "\<not> st_offset st < offset_end" by (simp add: word_less_nat_alt)
  then show ?case using 0 by (simp add: stream_loop.simps)
next
  case (Suc fuel)
  show ?case
  proof (cases "st_offset st < offset_end")
    case False
    then show ?thesis using Suc.prems(1) by (simp add: stream_loop.simps word_less_nat_alt)
  next
    case True
    define n where "n = min m (unat offset_end - unat (st_offset st))"
    have lt: "unat (st_offset st) < unat offset_end" using True by (simp add: word_less_nat_alt)
    obtain blob st1 where s1: "stream_step ops tid c scsi_has iscsi_wants offset_end st = Inr (IFR_OK, st1)"
      "stream_inv inv bsz tid base m ses0 st1" "disk (sc_b (st_s st1)) = disk (sc_b (st_s st))"
      "unat (st_offset st1) = unat (st_offset st) + n" "cc_tx (st_cc st1) = cc_tx (st_cc st) @ [blob]"
      "data_in_ok (get_header_digest ses0) (get_Itasktag cdb_pdu_req_l c) (unat (st_offset st))
        (slice (base + unat (st_offset st)) n (disk (sc_b (st_s st)))) (unat (st_offset st) + n = unat offset_end) blob"
      using stream_step_law [OF Suc.prems(1-8) True Suc.prems(10) n_def] by blast
    have n: "0 < n" "unat (st_offset st) + n \<le> unat offset_end" using Suc.prems(2) lt by (auto simp: n_def)
    have "st_offset st1 \<le> offset_end" "unat offset_end - unat (st_offset st1) \<le> fuel"
      using n s1(4) Suc.prems(11) by (simp_all add: word_le_nat_alt)
    then obtain blobs st' where r: "stream_loop fuel ops tid c scsi_has iscsi_wants offset_end ifr st1 = Inr (ifr, st')"
      "stream_inv inv bsz tid base m ses0 st'" "disk (sc_b (st_s st')) = disk (sc_b (st_s st1))" "cc_tx (st_cc st') = cc_tx (st_cc st1) @ blobs"
      "data_ins (get_header_digest ses0) (get_Itasktag cdb_pdu_req_l c) (unat (st_offset st1)) blobs
        (slice (base + unat (st_offset st1)) (unat offset_end - unat (st_offset st1)) (disk (sc_b (st_s st1))))"
      using Suc.IH [OF s1(2) Suc.prems(2-8)] Suc.prems(10) unfolding s1(3) by blast
    have "stream_loop (Suc fuel) ops tid c scsi_has iscsi_wants offset_end ifr st = Inr (ifr, st')"
      using True s1(1) r(1) by (simp add: stream_loop.simps [of "Suc fuel"])
    moreover have "data_ins (get_header_digest ses0) (get_Itasktag cdb_pdu_req_l c) (unat (st_offset st)) (blob # blobs)
        (slice (base + unat (st_offset st)) (unat offset_end - unat (st_offset st)) (disk (sc_b (st_s st))))"
      by (rule data_ins_Cons [OF s1(6) _ _ r(5) [unfolded s1(3,4)]]) (use n Suc.prems(10) in simp_all)
    ultimately show ?thesis using r(2-4) s1(3,5) by (intro exI [of _ "blob # blobs"] exI [of _ st']) simp
  qed
qed

end

section \<open>A streamed READ\<close>

context block_storage
begin

lemma stream_data_law:
  assumes "inv (sc_b s)" and "locking_status tid s \<noteq> l_locked_other" and "quiet (sc_env s)" and "cc_send_ok cc = []"
    and "m = unat (max_seg_len ses)" and "0 < m" and "m \<le> unat MAX_DATA_SEGMENT_SIZE" and "bsz dvd m" and "4 dvd bsz"
    and "0 < n" and "unat n * bsz < 2 ^ 32" and "(unat nr + unat n) * bsz \<le> length (disk (sc_b s))"
    and "0 < get_ExpDatLen p" and "bsz dvd unat (get_ExpDatLen p)" and "unat n * bsz \<le> fuel"
    and "len = min (unat n * bsz) (unat (get_ExpDatLen p))" and "min m len < 2 ^ 24" and "min m len \<le> lim * bsz"
  shows "\<exists>st blobs. stream_data fuel ops tid p \<lparr>dd_lba = nr, dd_n_sectors = n\<rparr> IFR_OK ses cc is s = Inr (IFR_OK, st) \<and>
    stream_inv inv bsz tid (unat nr * bsz) m ses st \<and> disk (sc_b (st_s st)) = disk (sc_b s) \<and>
    cc_tx (st_cc st) = cc_tx cc @ blobs \<and>
    data_ins (get_header_digest ses) (get_Itasktag cdb_pdu_req_l p) 0 blobs (slice (unat nr * bsz) len (disk (sc_b s)))"
proof -
  define c where "c = p\<lparr>pdu_data := None\<rparr>"
  have c: "get_ExpDatLen c = get_ExpDatLen p" "get_Itasktag cdb_pdu_req_l c = get_Itasktag cdb_pdu_req_l p"
    by (simp_all add: c_def get_ExpDatLen_def get_Itasktag_def)
  define has where "has = (ucast (ucast n * be_get_block_size ops (sc_b s)) :: u32)"
  have "unat (ucast n * be_get_block_size ops (sc_b s) :: u64) = unat n * bsz"
    using assms(11) unat_block_size [OF assms(1)] by (subst unat_mult_u64) simp_all
  then have has: "unat has = unat n * bsz" using assms(11) by (simp add: has_def unsigned_ucast_eq take_bit_nat_eq_self)
  define oe where "oe = min has (get_ExpDatLen p)"
  have oe: "unat oe = len"
    using has by (auto simp: oe_def assms(16) min_def word_le_nat_alt)
  have "0 < unat n * bsz" "0 < unat (get_ExpDatLen p)" using assms(10,13) bsz_pos by (simp_all add: word_less_nat_alt)
  then have "0 < unat oe" unfolding oe assms(16) by simp
  then have oe0: "oe \<noteq> 0" by auto
  define st where "st = \<lparr>st_offset = 0, st_lba = nr, st_ses = ses, st_cc = cc, st_is = is, st_s = s\<rparr>"
  have i: "stream_inv inv bsz tid (unat nr * bsz) m ses st"
    using assms(1-5) by (simp add: stream_inv_def st_def)
  have dvd: "bsz dvd unat oe" using assms(14) by (simp add: oe assms(16) min_def)
  have le: "unat nr * bsz + unat oe \<le> length (disk (sc_b s))" "unat oe \<le> fuel"
    using assms(12,15) by (simp_all add: oe assms(16) min_le_iff_disj add_mult_distrib)
  obtain blobs st' where "stream_loop fuel ops tid c has (get_ExpDatLen p) oe IFR_OK st = Inr (IFR_OK, st')"
    "stream_inv inv bsz tid (unat nr * bsz) m ses st'"
    "disk (sc_b (st_s st')) = disk (sc_b s)" "cc_tx (st_cc st') = cc_tx cc @ blobs"
    "data_ins (get_header_digest ses) (get_Itasktag cdb_pdu_req_l c) 0 blobs (slice (unat nr * bsz) (unat oe) (disk (sc_b s)))"
    using stream_loop_law [OF i assms(6-8) assms(17,18) [folded oe] assms(9) dvd, of fuel c has "get_ExpDatLen p" IFR_OK] le
    by (simp add: st_def) blast
  then show ?thesis
    using oe0 unfolding stream_data_def Let_def c_def [symmetric]
    by (simp add: c oe_def [symmetric] st_def [symmetric] has_def [symmetric] oe)
qed

end


definition example_read_pdu :: pdu where
  "example_read_pdu = \<lparr>pdu_bytes = [1, 0xc0] @ replicate 14 0 @ [0, 0, 0, 7] @ [0, 0, 0x20, 0] @ replicate 24 0, pdu_data = None\<rparr>"


end
