(* ===== verification/Server_Transfer.thy ===== *)
theory Server_Transfer
  imports Server_Receive
begin

text \<open>
  The data of READ and WRITE commands on its way between connection and medium: Data-Out PDUs that
  belong to an R2T session, whole WRITE transfers, and Data-In PDUs streamed from the backend.
\<close>

section \<open>A batch of Data-Out PDUs\<close>

definition data_out_tag :: "pdu \<Rightarrow> u32" where
  "data_out_tag p = (if get_TTT pdu_data_out_l p = 0xffffffff then get_Itasktag pdu_data_out_l p else get_TTT pdu_data_out_l p)"

text \<open>\<open>push_data_out\<close> for the PDUs of a batch, up to the first failure; the answer is that of the last one.\<close>

fun data_outs :: "'b backend_ops \<Rightarrow> nat \<Rightarrow> pdu list \<Rightarrow> session \<Rightarrow> 'b scsi_st
    \<Rightarrow> ((iscsi_fail_reason + iscsi_response_set option) \<times> session \<times> 'b scsi_st) result" where
  "data_outs ops tid [] ses s = Inr (Inr None, ses, s)"
| "data_outs ops tid (p # ps) ses s =
     bindR (push_data_out ops tid p ses s) (\<lambda>(r, ses, s).
     case r of Inl _ \<Rightarrow> Inr (r, ses, s) | Inr _ \<Rightarrow> if ps = [] then Inr (r, ses, s) else data_outs ops tid ps ses s)"

text \<open>
  An initiator that answers an R2T: it sends \<open>data\<close> from offset \<open>pos\<close> on in consecutive pieces of whole
  blocks, and marks the last one.
\<close>

fun batch :: "nat \<Rightarrow> u32 \<Rightarrow> nat \<Rightarrow> pdu list \<Rightarrow> byte list \<Rightarrow> bool" where
  "batch bs tag pos [] data \<longleftrightarrow> data = []"
| "batch bs tag pos (p # ps) data \<longleftrightarrow>
     (case get_data p of
        None \<Rightarrow> False
      | Some d \<Rightarrow> d \<noteq> [] \<and> length d mod bs = 0 \<and> d = take (length d) data \<and> unat (get_BufferOffset p) = pos \<and>
          data_out_tag p = tag \<and> (get_F p \<longleftrightarrow> ps = []) \<and> batch bs tag (pos + length d) ps (drop (length d) data))"

section \<open>One Data-Out PDU\<close>

context block_storage
begin

lemma unat_mod_block: "inv b \<Longrightarrow> unat (w mod be_get_block_size ops b) = unat w mod bsz"
  by (simp add: unat_mod unat_block_size)

lemma data_out_lba:
  assumes "inv b" and "bsz dvd unat offset" and "unat nr * bsz + unat offset \<le> length (disk b)"
  shows "unat (nr + ucast (offset :: u32) div be_get_block_size ops b) * bsz = unat nr * bsz + unat offset"
proof -
  have d: "unat (ucast offset div be_get_block_size ops b :: u64) = unat offset div bsz"
    by (simp add: unat_div unat_block_size [OF assms(1)])
  have "unat nr * bsz + unat offset < 2 ^ 63" using assms(3) disk_lt [OF assms(1)] by linarith
  moreover have "unat nr \<le> unat nr * bsz" "unat offset div bsz \<le> unat offset" using bsz_pos by simp_all
  ultimately have "unat nr + unat offset div bsz < 2 ^ 63" by linarith
  then have "unat nr + unat offset div bsz < 2 ^ 64" by simp
  then have "unat (nr + ucast offset div be_get_block_size ops b) = unat nr + unat offset div bsz"
    using d by (subst unat_add_u64) simp_all
  then show ?thesis using assms(2) by (simp add: add_mult_distrib)
qed

lemma data_out_store_law:
  assumes "inv (sc_b s)" and "locking_status tid s \<noteq> l_locked_other" and "quiet (sc_env s)"
    and "\<not> is_write_same rs" and "data \<noteq> []" and "bsz dvd length data" and "bsz dvd unat offset"
    and "unat (buffer_lba rs) * bsz + unat offset + length data \<le> length (disk (sc_b s))"
    and "length data \<le> lim * bsz" and "length data < 2 ^ 32"
  shows "\<exists>s'. data_out_store ops tid rs offset data s = Inr (rw_ok, s') \<and> inv (sc_b s') \<and> same_cfg s s' \<and>
    quiet (sc_env s') \<and> disk (sc_b s') = overwrite (unat (buffer_lba rs) * bsz + unat offset) data (disk (sc_b s))"
proof -
  define nr where "nr = buffer_lba rs + ucast offset div be_get_block_size ops (sc_b s)"
  define n where "n = (of_nat (length data div bsz) :: u32)"
  have nr: "unat nr * bsz = unat (buffer_lba rs) * bsz + unat offset"
    unfolding nr_def using assms(8) by (intro data_out_lba assms(1,7)) simp
  have "length data div bsz < 2 ^ 32" using assms(10) by (rule le_less_trans [OF div_le_dividend])
  then have un: "unat n = length data div bsz" by (simp add: n_def unat_of_nat)
  then have n: "unat n * bsz = length data" using assms(6) by simp
  have "0 < length data div bsz" using assms(5,6) bsz_pos by (auto simp: div_greater_zero_iff dvd_imp_le)
  then have pos: "0 < n" using un by (simp add: word_less_nat_alt)
  have "unat n * bsz \<le> lim * bsz" using n assms(9) by simp
  then have lim: "unat n \<le> lim" using bsz_pos by simp
  have od: "on_disk nr n (sc_b s)" using nr n assms(8) by (simp add: on_disk_def)
  obtain s' where "scsi_write ops tid nr n data s = Inr (rw_ok, s')" "inv (sc_b s')" "same_cfg s s'"
      "quiet (sc_env s')" "disk (sc_b s') = overwrite (unat nr * bsz) data (disk (sc_b s))"
    using scsi_write_law [OF assms(1) _ od assms(2), of data] n pos lim assms(3)
    by (auto simp: rw_of_bool_def)
  then show ?thesis
    using assms(4) by (simp add: data_out_store_def Let_def nr_def n_def unat_block_size [OF assms(1)] nr [unfolded nr_def])
qed

lemma scsi_sync_quiet:
  assumes "inv (sc_b s)" and "locking_status tid s \<noteq> l_locked_other" and "quiet (sc_env s)"
  shows "\<exists>s'. scsi_sync ops tid s = Inr (rw_ok, s') \<and> inv (sc_b s') \<and> same_cfg s s' \<and>
    disk (sc_b s') = disk (sc_b s) \<and> quiet (sc_env s')"
proof -
  obtain ok b' e' where "be_sync ops (sc_b s, snd (get_micros (sc_env s))) = Inr (ok, b', e')" "inv b'"
    "disk b' = disk (sc_b s)" "quiet (snd (get_micros (sc_env s))) \<longrightarrow> ok \<and> quiet e'"
    using sync_law [OF assms(1)] by blast
  then show ?thesis using assms(2,3) by (simp add: scsi_sync_def Let_def sc_micros_eq rw_of_bool_def)
qed

text \<open>The whole of it, with the flush that \<open>fua\<close> asks for.\<close>

lemma data_out_write_law:
  assumes "inv (sc_b s)" and "locking_status tid s \<noteq> l_locked_other" and "quiet (sc_env s)"
    and "\<not> is_write_same rs" and "data \<noteq> []" and "bsz dvd length data" and "bsz dvd unat offset"
    and "unat (buffer_lba rs) * bsz + unat offset + length data \<le> length (disk (sc_b s))"
    and "length data \<le> lim * bsz" and "length data < 2 ^ 32"
  shows "\<exists>s'. data_out_write ops tid rs offset data s = Inr (if fua rs then IFR_IO_ERROR else IFR_OK, s') \<and>
    inv (sc_b s') \<and> same_cfg s s' \<and> quiet (sc_env s') \<and>
    disk (sc_b s') = overwrite (unat (buffer_lba rs) * bsz + unat offset) data (disk (sc_b s))"
proof -
  obtain s1 where s1: "data_out_store ops tid rs offset data s = Inr (rw_ok, s1)" "inv (sc_b s1)" "same_cfg s s1"
    "quiet (sc_env s1)" "disk (sc_b s1) = overwrite (unat (buffer_lba rs) * bsz + unat offset) data (disk (sc_b s))"
    using data_out_store_law [OF assms] by blast
  have "locking_status tid s1 \<noteq> l_locked_other" using assms(2) same_cfg_locking [OF s1(3)] by simp
  then obtain s2 where s2: "scsi_sync ops tid s1 = Inr (rw_ok, s2)" "inv (sc_b s2)" "same_cfg s1 s2"
    "disk (sc_b s2) = disk (sc_b s1)" "quiet (sc_env s2)"
    using scsi_sync_quiet [OF s1(2) _ s1(4)] by blast
  have bs: "be_get_block_size ops (sc_b s) \<noteq> 0"
    using unat_block_size [OF assms(1)] bsz_pos by auto
  have "(ucast offset mod be_get_block_size ops (sc_b s) :: u64) = 0"
    using assms(7) by (simp add: word_unat_eq_iff unat_mod_block [OF assms(1)])
  moreover have "(of_nat (length data) mod be_get_block_size ops (sc_b s) :: u64) = 0"
    using assms(6,10) by (simp add: word_unat_eq_iff unat_mod_block [OF assms(1)] unat_of_nat)
  ultimately show ?thesis
    using bs s1 s2 same_cfg_trans [OF s1(3) s2(3)] by (simp add: data_out_write_def Let_def)
qed

lemma push_data_out_law:
  assumes "inv (sc_b s)" and "locking_status tid s \<noteq> l_locked_other" and "quiet (sc_env s)"
    and "get_r2t_sesion tag ses = Some rs" and "data_out_tag p = tag" and "get_data p = Some data"
    and "\<not> is_write_same rs" and "\<not> fua rs" and "data \<noteq> []" and "bsz dvd length data"
    and "bsz dvd unat (get_BufferOffset p)"
    and "unat (buffer_lba rs) * bsz + unat (get_BufferOffset p) + length data \<le> length (disk (sc_b s))"
    and "length data \<le> lim * bsz" and "length data < 2 ^ 32" and "PDU_initiator rs = Some raw" and "length raw = 48"
    and rs': "rs' = rs\<lparr>bytes_done := bytes_done rs + of_nat (length data), bytes_left := bytes_left rs - of_nat (length data)\<rparr>"
  shows "\<exists>s'. push_data_out ops tid p ses s =
      bindR (if get_F p then data_out_reply tag rs' (update_r2t_session tag (\<lambda>_. rs') ses)
             else Inr (Inr None, update_r2t_session tag (\<lambda>_. rs') ses)) (\<lambda>(r, ses). Inr (r, ses, s')) \<and>
    inv (sc_b s') \<and> same_cfg s s' \<and> quiet (sc_env s') \<and>
    disk (sc_b s') = overwrite (unat (buffer_lba rs) * bsz + unat (get_BufferOffset p)) data (disk (sc_b s))"
proof -
  obtain s' where "data_out_write ops tid rs (get_BufferOffset p) data s = Inr (IFR_OK, s')" "inv (sc_b s')" "same_cfg s s'"
    "quiet (sc_env s')"
    "disk (sc_b s') = overwrite (unat (buffer_lba rs) * bsz + unat (get_BufferOffset p)) data (disk (sc_b s))"
    using data_out_write_law [OF assms(1-3,7,9-14)] assms(8) by auto
  then show ?thesis
    using assms(4-6) unfolding rs' by (intro exI [of _ s']) (simp add: push_data_out_def Let_def data_out_tag_def)
qed

lemma data_outs_law:
  assumes "batch bsz tag pos ps data" and "ps \<noteq> []" and "inv (sc_b s)" and "locking_status tid s \<noteq> l_locked_other"
    and "quiet (sc_env s)" and "get_r2t_sesion tag ses = Some rs" and "\<not> is_write_same rs" and "\<not> fua rs"
    and "PDU_initiator rs = Some raw" and "length raw = 48" and "unat (bytes_left rs) = length data" and "bsz dvd pos"
    and "unat (buffer_lba rs) * bsz + pos + length data \<le> length (disk (sc_b s))"
    and "length data \<le> lim * bsz" and "length data < 2 ^ 32"
  shows "\<exists>ses' s'. data_outs ops tid ps ses s =
      Inr (Inr (cmd_get_response_after \<lparr>pdu_bytes = raw, pdu_data = None\<rparr>), ses', s') \<and>
    inv (sc_b s') \<and> same_cfg s s' \<and> quiet (sc_env s') \<and>
    disk (sc_b s') = overwrite (unat (buffer_lba rs) * bsz + pos) data (disk (sc_b s)) \<and>
    (\<forall>t. get_r2t_sesion t ses' = (if t = tag then None else get_r2t_sesion t ses))"
  using assms
proof (induction ps arbitrary: pos data rs ses s)
  case (Cons p ps)
  obtain d where d: "get_data p = Some d" "d \<noteq> []" "bsz dvd length d" "d = take (length d) data"
    "unat (get_BufferOffset p) = pos" "data_out_tag p = tag" "get_F p \<longleftrightarrow> ps = []"
    "batch bsz tag (pos + length d) ps (drop (length d) data)"
    using Cons.prems(1) by (auto split: option.splits)
  have split: "data = d @ drop (length d) data" using d(4) by (metis append_take_drop_id)
  have len: "length d + length (drop (length d) data) = length data"
    by (subst split, subst (2) split) simp
  define rs' where "rs' = rs\<lparr>bytes_done := bytes_done rs + of_nat (length d), bytes_left := bytes_left rs - of_nat (length d)\<rparr>"
  have left: "unat (bytes_left rs') = length (drop (length d) data)"
    using Cons.prems(11,15) len by (simp add: rs'_def unat_sub word_le_nat_alt unat_of_nat)
  define ses1 where "ses1 = update_r2t_session tag (\<lambda>_. rs') ses"
  have look: "get_r2t_sesion t ses1 = (if t = tag then Some rs' else get_r2t_sesion t ses)" for t
    using Cons.prems(6) by (simp add: ses1_def tags.lookup_update)
  have "unat (buffer_lba rs) * bsz + unat (get_BufferOffset p) + length d \<le> length (disk (sc_b s))"
    "length d \<le> lim * bsz" "length d < 2 ^ 32" "bsz dvd unat (get_BufferOffset p)"
    using Cons.prems(12-15) d(5) len by auto
  then obtain s1 where s1: "push_data_out ops tid p ses s =
      bindR (if get_F p then data_out_reply tag rs' ses1 else Inr (Inr None, ses1)) (\<lambda>(r, ses). Inr (r, ses, s1))"
    "inv (sc_b s1)" "same_cfg s s1" "quiet (sc_env s1)"
    "disk (sc_b s1) = overwrite (unat (buffer_lba rs) * bsz + pos) d (disk (sc_b s))"
    using push_data_out_law [OF Cons.prems(3-6) d(6,1) Cons.prems(7,8) d(2,3) _ _ _ _ Cons.prems(9,10) rs'_def] d(5)
    unfolding ses1_def by auto
  show ?case
  proof (cases "ps = []")
    case True
    then have "drop (length d) data = []" using d(8) by simp
    then have "bytes_left rs' = 0" "d = data" using left split by (auto simp: unat_eq_zero)
    moreover have "PDU_initiator rs' = Some raw" using Cons.prems(9) by (simp add: rs'_def)
    ultimately have "push_data_out ops tid p ses s =
        Inr (Inr (cmd_get_response_after \<lparr>pdu_bytes = raw, pdu_data = None\<rparr>), remove_r2t_session tag ses1, s1)"
      using s1(1) True d(7) Cons.prems(10) by (simp add: data_out_reply_def bhs_set_def pdu_new_def)
    then show ?thesis using True s1 look \<open>d = data\<close> by (simp add: tags.lookup_remove)
  next
    case False
    have "locking_status tid s1 \<noteq> l_locked_other" using Cons.prems(4) same_cfg_locking [OF s1(3)] by simp
    moreover have "length (disk (sc_b s1)) = length (disk (sc_b s))"
      using Cons.prems(13) len unfolding s1(5) by simp
    moreover have "bsz dvd pos + length d" using Cons.prems(12) d(3) by simp
    ultimately obtain ses' s' where r: "data_outs ops tid ps ses1 s1 =
        Inr (Inr (cmd_get_response_after \<lparr>pdu_bytes = raw, pdu_data = None\<rparr>), ses', s')"
      "inv (sc_b s')" "same_cfg s1 s'" "quiet (sc_env s')"
      "disk (sc_b s') = overwrite (unat (buffer_lba rs) * bsz + (pos + length d)) (drop (length d) data) (disk (sc_b s1))"
      "\<forall>t. get_r2t_sesion t ses' = (if t = tag then None else get_r2t_sesion t ses1)"
      using Cons.IH [OF d(8) False s1(2) _ s1(4), of ses1 rs'] look Cons.prems(7-15) left len
      by (auto simp: rs'_def)
    have "overwrite (unat (buffer_lba rs) * bsz + (pos + length d)) (drop (length d) data) (disk (sc_b s1)) =
        overwrite (unat (buffer_lba rs) * bsz + pos) data (disk (sc_b s))"
      unfolding s1(5) using overwrite_split [of d "length d" "unat (buffer_lba rs) * bsz + pos" "drop (length d) data" "disk (sc_b s)"]
        Cons.prems(13) len split by (simp add: add.assoc)
    then show ?thesis
      using r s1(1) False d(7) look same_cfg_trans [OF s1(3) r(3)] by simp
  qed
qed simp

end

section \<open>A whole WRITE\<close>

text \<open>The answer to a WRITE command that comes without data.\<close>

lemma write_asks_for_data:
  assumes "get_CDB p ! 0 \<in> {o_write_6, o_write_10, o_write_verify_10, o_write_12, o_write_16}"
    and "pdu_data p = None" and "write_lba_len (get_CDB p) (get_CDB p ! 0) = (nr, n)" and "n \<noteq> 0"
    and "validate_request ops (sc_b s) nr n (Some (get_CDB p)) = None"
    and "ucast n * be_get_block_size ops (sc_b s) = (ucast (get_ExpDatLen p) :: u64)"
    and "get_Itasktag cdb_pdu_req_l p \<noteq> 0xffffffff"
  shows "cmd_get_response ops tid p ses s = Inr (Some \<lparr>responses = [r2t_set p (get_Itasktag cdb_pdu_req_l p) 0 (get_ExpDatLen p)],
      to_stream = None\<rparr>,
    init_r2t_session (r2t_zero\<lparr>buffer_lba := nr, fua := (get_CDB p ! 1 AND 8 \<noteq> 0), bytes_left := get_ExpDatLen p\<rparr>)
      (get_CDB p ! 1 AND 8 \<noteq> 0) (pdu_bytes p) (get_Itasktag cdb_pdu_req_l p) ses, s)"
proof -
  have u: "ucast (ucast (get_ExpDatLen p) :: u64) = get_ExpDatLen p"
    by (rule bit_word_eqI) (auto simp: bit_simps)
  show ?thesis
    unfolding cmd_get_response_def send_write [OF assms(1)] write_verify_def
    using assms(2-7) by (simp add: Let_def cmd_respond_def scsi_response_new_def cmd_r2t_def r2t_zero_def get_raw_def u)
qed


text \<open>A WRITE(10) of one block at block 1, and the Data-Out PDU that carries its data.\<close>

definition example_write_pdu :: pdu where
  "example_write_pdu = \<lparr>pdu_bytes = [1, 0xa0] @ replicate 14 0 @ [0, 0, 0, 7] @ [0, 0, 0x10, 0] @ replicate 8 0 @ example_write_10,
     pdu_data = None\<rparr>"

definition example_data_out :: pdu where
  "example_data_out = \<lparr>pdu_bytes = [5, 0x80] @ replicate 18 0 @ [0, 0, 0, 7] @ replicate 24 0, pdu_data = Some (replicate 4096 9)\<rparr>"

lemma example_write_cdb: "get_CDB example_write_pdu = example_write_10"
  by (simp add: get_CDB_def example_write_pdu_def slice_def example_write_10_def numeral_eq_Suc)

lemma example_write_fields:
  "get_ExpDatLen example_write_pdu = 4096" "get_Itasktag cdb_pdu_req_l example_write_pdu = 0x07000000"
  "length (pdu_bytes example_write_pdu) = 48" "pdu_data example_write_pdu = None"
proof -
  show "get_ExpDatLen example_write_pdu = 4096"
    by (simp add: get_ExpDatLen_def get32_def my_NTOHL_ld32 get_uint32_t_def example_write_pdu_def nth_append)
qed (simp_all add: get_Itasktag_def get32_def ld32_def example_write_pdu_def example_write_10_def nth_append)

lemma example_data_out_fields:
  "get_BufferOffset example_data_out = 0" "get_TTT pdu_data_out_l example_data_out = 0x07000000" "get_F example_data_out"
  "get_data example_data_out = Some (replicate 4096 9)"
proof -
  show "get_BufferOffset example_data_out = 0"
    by (simp add: get_BufferOffset_def get32_def my_NTOHL_ld32 get_uint32_t_def example_data_out_def nth_append)
qed (simp_all add: get_TTT_def get_F_def get32_def get8_def ld32_def example_data_out_def nth_append get_data_def)


section \<open>Two ways in which a transfer goes wrong\<close>

text \<open>
  A Data-Out PDU of a WRITE with the FUA bit is stored and flushed, and yet reported as an I/O
  error: the result of \<open>scsi::sync\<close>, an enumeration with \<open>rw_ok\<close> as its zero, is compared with \<open>false\<close>.
  The R2T session does not move on.
\<close>

theorem fua_data_out_reported_failed:
  assumes "file_inv (sc_b s)" and "locking_status tid s \<noteq> l_locked_other" and "quiet (sc_env s)"
    and "get_r2t_sesion (data_out_tag p) ses = Some rs" and "fua rs" and "\<not> is_write_same rs"
    and "get_data p = Some data" and "data \<noteq> []" and "4096 dvd length data" and "4096 dvd unat (get_BufferOffset p)"
    and "unat (buffer_lba rs) * 4096 + unat (get_BufferOffset p) + length data \<le> length (bf_contents (sc_b s))"
    and "length data \<le> file_lim * 4096"
  shows "\<exists>s'. push_data_out file_ops tid p ses s = Inr (Inl IFR_IO_ERROR, ses, s') \<and>
    bf_contents (sc_b s') = overwrite (unat (buffer_lba rs) * 4096 + unat (get_BufferOffset p)) data (bf_contents (sc_b s))"
proof -
  have "length data < 2 ^ 32" using assms(12) by (simp add: file_lim_def)
  then obtain s' where "data_out_write file_ops tid rs (get_BufferOffset p) data s = Inr (IFR_IO_ERROR, s')"
    "bf_contents (sc_b s') = overwrite (unat (buffer_lba rs) * 4096 + unat (get_BufferOffset p)) data (bf_contents (sc_b s))"
    using file_dev.data_out_write_law [OF assms(1-3,6,8-12)] assms(5) by auto
  then show ?thesis using assms(4,7) by (simp add: push_data_out_def Let_def data_out_tag_def)
qed

theorem fua_data_out_reported_failed_witness:
  "\<exists>s'. push_data_out file_ops 0 example_data_out
       (init_r2t_session (r2t_zero\<lparr>buffer_lba := 1, bytes_left := 4096\<rparr>) True (replicate 48 0) 0x07000000 example_session)
       example_scsi =
     Inr (Inl IFR_IO_ERROR,
       init_r2t_session (r2t_zero\<lparr>buffer_lba := 1, bytes_left := 4096\<rparr>) True (replicate 48 0) 0x07000000 example_session, s') \<and>
     bf_contents (sc_b s') = overwrite 4096 (replicate 4096 9) (bf_contents example_file)"
proof -
  define ses where "ses = init_r2t_session (r2t_zero\<lparr>buffer_lba := 1, bytes_left := 4096\<rparr>) True (replicate 48 0)
    0x07000000 example_session"
  define rs where "rs = r2t_zero\<lparr>buffer_lba := 1, bytes_left := 4096, fua := True, PDU_initiator := Some (replicate 48 0)\<rparr>"
  have tag: "data_out_tag example_data_out = 0x07000000" by (simp add: data_out_tag_def example_data_out_fields)
  have look: "get_r2t_sesion 0x07000000 ses = Some rs"
    by (simp add: get_r2t_sesion_def init_r2t_session_def ses_def rs_def)
  have rs: "buffer_lba rs = 1" "fua rs" "\<not> is_write_same rs" by (simp_all add: rs_def r2t_zero_def)
  have len: "length (bf_contents example_file) = 8192" by (simp add: example_file_def)
  show ?thesis
    using fua_data_out_reported_failed [of example_scsi 0 example_data_out ses rs "replicate 4096 9"]
    unfolding ses_def [symmetric]
    by (simp add: tag look rs example_file_inv locking_status_def example_data_out_fields len file_lim_def)
qed

text \<open>
  When the initiator ends a batch before all data of the WRITE has arrived, the target answers with
  a SCSI response for the command (which tells the initiator that the command is complete) followed by
  an R2T for the rest.
\<close>

theorem short_batch_answered_twice:
  assumes "get_r2t_sesion (data_out_tag p) ses = Some rs" and "get_F p" and "get_data p = Some data"
    and "data_out_write ops tid rs (get_BufferOffset p) data s = Inr (IFR_OK, s')"
    and "bytes_left rs \<noteq> of_nat (length data)" and "PDU_initiator rs = Some raw" and "length raw = 48"
    and "cmd = \<lparr>pdu_bytes = raw, pdu_data = None\<rparr>"
  shows "\<exists>ses' r. push_data_out ops tid p ses s =
      Inr (Inr (Some \<lparr>responses = [r, r2t_set cmd (data_out_tag p) (bytes_done rs + of_nat (length data))
             (bytes_left rs - of_nat (length data))], to_stream = None\<rparr>), ses', s') \<and>
    scsi_response_set cmd [] None None = Some r"
proof -
  obtain r where "scsi_response_set cmd [] None None = Some r" by (simp add: scsi_response_set_def Let_def)
  then show ?thesis
    using assms by (auto simp: push_data_out_def Let_def data_out_tag_def data_out_reply_def bhs_set_def pdu_new_def
        cmd_get_response_after_def one_reply_def)
qed

theorem short_batch_answered_twice_witness:
  "\<exists>ses' s' r. push_data_out file_ops 0 example_data_out
       (init_r2t_session (r2t_zero\<lparr>buffer_lba := 0, bytes_left := 8192\<rparr>) False (replicate 48 0) 0x07000000 example_session)
       example_scsi =
     Inr (Inr (Some \<lparr>responses = [r, r2t_set \<lparr>pdu_bytes = replicate 48 0, pdu_data = None\<rparr> 0x07000000 4096 4096],
        to_stream = None\<rparr>), ses', s')"
proof -
  let ?ses = "init_r2t_session (r2t_zero\<lparr>buffer_lba := 0, bytes_left := 8192\<rparr>) False (replicate 48 0) 0x07000000 example_session"
  define rs where "rs = r2t_zero\<lparr>buffer_lba := 0, bytes_left := 8192, fua := False, PDU_initiator := Some (replicate 48 0)\<rparr>"
  have tag: "data_out_tag example_data_out = 0x07000000" by (simp add: data_out_tag_def example_data_out_fields)
  have look: "get_r2t_sesion 0x07000000 ?ses = Some rs"
    by (simp add: get_r2t_sesion_def init_r2t_session_def rs_def)
  have len: "length (bf_contents example_file) = 8192" by (simp add: example_file_def)
  obtain s' where w: "data_out_write file_ops 0 rs 0 (replicate 4096 9) example_scsi = Inr (IFR_OK, s')"
    using file_dev.data_out_write_law [of example_scsi 0 rs "replicate 4096 9" 0]
    by (auto simp: example_file_inv locking_status_def rs_def r2t_zero_def len file_lim_def)
  show ?thesis
    using short_batch_answered_twice [of example_data_out ?ses rs "replicate 4096 9" file_ops 0 example_scsi s' "replicate 48 0"] w look
    by (fastforce simp: tag example_data_out_fields rs_def r2t_zero_def)
qed

end
