(* ===== verification/Server_Disk.thy ===== *)
theory Server_Disk
  imports Server_Stream Server_Transfer Server_Connection
begin

text \<open>
  A connection as its initiator sees it: a disk. For any sequence of pings, writes with immediate data
  and reads that the initiator puts on the connection, the thread that serves it answers each request in
  turn, as an array of bytes that executes the same sequence would, and then ends with that array on the
  medium. The specification (\<open>io_store\<close>, \<open>io_answered\<close>) knows bytes and replies only; the proof composes the
  lemmas on receiving, answering and streaming, one round of the loop at a time.
\<close>

section \<open>One round that goes well\<close>

text \<open>Sessions that differ in counters and transfers only.\<close>

definition same_limits :: "session \<Rightarrow> session \<Rightarrow> bool" where
  "same_limits ses ses' \<longleftrightarrow> get_header_digest ses' = get_header_digest ses \<and>
     get_data_digest ses' = get_data_digest ses \<and> max_seg_len ses' = max_seg_len ses"

lemma same_limits_refl [simp]: "same_limits ses ses"
  by (simp add: same_limits_def)

lemma same_limits_trans: "same_limits a b \<Longrightarrow> same_limits b c \<Longrightarrow> same_limits a c"
  by (simp add: same_limits_def)

lemma same_limits_upd [simp]:
  "same_limits ses (ses'\<lparr>bytes_rx := n\<rparr>) = same_limits ses ses'" "same_limits ses (add_bytes_tx k ses') = same_limits ses ses'"
  "same_limits ses (reset_bytes_tx ses') = same_limits ses ses'" "same_limits ses (reset_bytes_rx ses') = same_limits ses ses'"
  by (simp_all add: same_limits_def get_header_digest_def get_data_digest_def add_bytes_tx_def reset_bytes_tx_def
      reset_bytes_rx_def)

lemma same_limits_assembled: "same_limits ses ses' \<Longrightarrow> assembled ses' h d a = assembled ses h d a"
  by (simp add: same_limits_def assembled_def)

text \<open>The clock and the statistics at the end of a round.\<close>

definition settled :: "'b server \<Rightarrow> 'b server \<Rightarrow> bool" where
  "settled sv sv' \<longleftrightarrow> sv_cc sv' = sv_cc sv \<and> sc_b (sv_s sv') = sc_b (sv_s sv) \<and> same_cfg (sv_s sv) (sv_s sv') \<and>
     quiet (sc_env (sv_s sv')) = quiet (sc_env (sv_s sv)) \<and>
     rel_option same_limits (sv_ses sv) (sv_ses sv')"

lemma sc_micros_keeps:
  "sc_micros s = (t, s') \<Longrightarrow> sc_b s' = sc_b s \<and> same_cfg s s' \<and> quiet (sc_env s') = quiet (sc_env s)"
  by (auto simp: sc_micros_def split: prod.splits dest: get_micros_quiet)

lemma get_millis_keeps:
  "get_millis s = (t, s') \<Longrightarrow> sc_b s' = sc_b s \<and> same_cfg s s' \<and> quiet (sc_env s') = quiet (sc_env s)"
  by (auto simp: get_millis_def Let_def split: prod.splits dest: sc_micros_keeps)

lemma handler_clock_keeps:
  "h_ok (handler_clock t h) = h_ok h \<and> settled (h_sv h) (h_sv (handler_clock t h))"
proof -
  obtain e s1 where e: "sc_micros (sv_s (h_sv h)) = (e, s1)" by (cases "sc_micros (sv_s (h_sv h))")
  obtain n s2 where n: "get_millis s1 = (n, s2)" by (cases "get_millis s1")
  have r: "rel_option same_limits x x" "rel_option same_limits x (map_option (\<lambda>ses. reset_bytes_tx (reset_bytes_rx ses)) x)" for x
    by (cases x; simp)+
  show ?thesis
    using sc_micros_keeps [OF e] get_millis_keeps [OF n]
    by (auto simp: handler_clock_def Let_def e n settled_def r intro: same_cfg_trans)
qed

lemma handler_round_ok:
  assumes "receive_pdu ops (h_sv h) = Inr (Some p, IFR_OK, t, sv)" and "sv_ses sv = Some ses"
    and "push_response fuel ops tid ses p (sv\<lparr>sv_is := (sv_is sv)\<lparr>iscsiSsnCmdPDUs := iscsiSsnCmdPDUs (sv_is sv) + 1\<rparr>\<rparr>) =
      Inr (IFR_OK, sv')" and "h_ok h"
  shows "\<exists>h'. handler_round fuel ops tid h = Inr h' \<and> h_ok h' \<and> settled sv' (h_sv h')"
proof -
  have "handler_round fuel ops tid h = Inr (handler_clock t (h\<lparr>h_sv := sv', h_fail_counter := 0\<rparr>))"
    using assms(2,3) by (simp add: handler_round_def assms(1) Let_def handler_errors_def)
  then show ?thesis using handler_clock_keeps [of t "h\<lparr>h_sv := sv', h_fail_counter := 0\<rparr>"] assms(4) by simp
qed

text \<open>An answer of one PDU.\<close>

lemma push_response_one:
  assumes "get_opcode p \<noteq> o_scsi_data_out" and "get_response ops tid p ses (sv_s sv) = Inr (Some (one_reply r), ses', s')"
    and "reply_get r ses' = Inr ([blob], ses')" and "cc_send_ok (sv_cc sv) = []"
  shows "\<exists>is. push_response fuel ops tid ses p sv = Inr (IFR_OK, sv\<lparr>sv_s := s', sv_ses := Some (add_bytes_tx (length blob) ses'),
    sv_cc := (sv_cc sv)\<lparr>cc_tx := cc_tx (sv_cc sv) @ [blob]\<rparr>, sv_is := is\<rparr>)"
  by (rule exI [of _ "count_tx (length blob) (sv_is sv)"]) (use assms in \<open>simp add: push_response_def one_reply_def cc_send_def\<close>)


section \<open>Requests and their answers\<close>

text \<open>The state in which a connection can use the device: no I/O errors to come, no foreign reservation.\<close>

definition usable :: "('b \<Rightarrow> bool) \<Rightarrow> nat \<Rightarrow> 'b scsi_st \<Rightarrow> bool" where
  "usable dinv tid s \<longleftrightarrow> dinv (sc_b s) \<and> locking_status tid s \<noteq> l_locked_other \<and> quiet (sc_env s)"

lemma usable_cfg:
  "same_cfg s s' \<Longrightarrow> sc_b s' = sc_b s \<Longrightarrow> quiet (sc_env s') = quiet (sc_env s) \<Longrightarrow> usable dinv tid s' = usable dinv tid s"
  using same_cfg_locking [of s s' tid] by (simp add: usable_def)

text \<open>
  What \<open>push_response\<close> makes of a request on a device in state \<open>b\<close>: the reply PDUs \<open>blobs\<close> and the new
  state of the device satisfy \<open>Q\<close>, whatever the counters of the session and the other connections say.
\<close>

definition answers :: "nat \<Rightarrow> 'b backend_ops \<Rightarrow> ('b \<Rightarrow> bool) \<Rightarrow> nat \<Rightarrow> session \<Rightarrow> pdu \<Rightarrow> 'b
    \<Rightarrow> (byte list list \<Rightarrow> 'b \<Rightarrow> bool) \<Rightarrow> bool" where
  "answers fuel ops dinv tid ses p b Q \<longleftrightarrow>
     (\<forall>ses' sv. same_limits ses ses' \<and> usable dinv tid (sv_s sv) \<and> sc_b (sv_s sv) = b \<and> cc_send_ok (sv_cc sv) = [] \<longrightarrow>
       (\<exists>sv' ses'' blobs. push_response fuel ops tid ses' p sv = Inr (IFR_OK, sv') \<and> sv_ses sv' = Some ses'' \<and>
          same_limits ses ses'' \<and> usable dinv tid (sv_s sv') \<and> cc_send_ok (sv_cc sv') = [] \<and>
          cc_tx (sv_cc sv') = cc_tx (sv_cc sv) @ blobs \<and> Q blobs (sc_b (sv_s sv'))))"

lemma answers_one:
  assumes "get_opcode p \<noteq> o_scsi_data_out"
    and "\<And>ses' s. same_limits ses ses' \<Longrightarrow> usable dinv tid s \<Longrightarrow> sc_b s = b \<Longrightarrow>
      \<exists>r blob s'. get_response ops tid p ses' s = Inr (Some (one_reply r), ses', s') \<and> reply_get r ses' = Inr ([blob], ses') \<and>
        usable dinv tid s' \<and> Q [blob] (sc_b s')"
  shows "answers fuel ops dinv tid ses p b Q"
  unfolding answers_def
proof (intro allI impI)
  fix ses' and sv :: "'a server" assume a: "same_limits ses ses' \<and> usable dinv tid (sv_s sv) \<and> sc_b (sv_s sv) = b \<and> cc_send_ok (sv_cc sv) = []"
  then obtain r blob s' where r: "get_response ops tid p ses' (sv_s sv) = Inr (Some (one_reply r), ses', s')"
    "reply_get r ses' = Inr ([blob], ses')" "usable dinv tid s'" "Q [blob] (sc_b s')"
    using assms(2) by blast
  with push_response_one [of p ops tid ses' sv r ses' s' blob fuel] a assms(1)
  show "\<exists>sv' ses'' blobs. push_response fuel ops tid ses' p sv = Inr (IFR_OK, sv') \<and> sv_ses sv' = Some ses'' \<and>
      same_limits ses ses'' \<and> usable dinv tid (sv_s sv') \<and> cc_send_ok (sv_cc sv') = [] \<and>
      cc_tx (sv_cc sv') = cc_tx (sv_cc sv) @ blobs \<and> Q blobs (sc_b (sv_s sv'))"
    by fastforce
qed

text \<open>A connection between two requests.\<close>

definition ready :: "'b backend_ops \<Rightarrow> ('b \<Rightarrow> bool) \<Rightarrow> nat \<Rightarrow> session \<Rightarrow> 'b handler_st \<Rightarrow> bool" where
  "ready ops dinv tid ses h \<longleftrightarrow> usable dinv tid (sv_s (h_sv h)) \<and> cc_send_ok (sv_cc (h_sv h)) = [] \<and> h_ok h \<and>
     same_limits ses (start_session ops (h_sv h))"

lemma round_answers:
  assumes "ready ops dinv tid ses h" and "length hdr = 48" and "get_opcode (request hdr d) \<in> set known_opcodes - {o_login_req}"
    and "get_ahs_length (request hdr d) = 0" and "get_data_length (request hdr d) = length d"
    and "cc_rx (sv_cc (h_sv h)) = assembled ses hdr d True @ rest"
    and ans: "answers fuel ops dinv tid ses (request hdr d) (sc_b (sv_s (h_sv h))) Q"
  shows "\<exists>h' blobs. handler_round fuel ops tid h = Inr h' \<and> ready ops dinv tid ses h' \<and> cc_rx (sv_cc (h_sv h')) = rest \<and>
    cc_tx (sv_cc (h_sv h')) = cc_tx (sv_cc (h_sv h)) @ blobs \<and> Q blobs (sc_b (sv_s (h_sv h')))"
proof -
  define ses0 where "ses0 = start_session ops (h_sv h)"
  have lim: "same_limits ses ses0" using assms(1) by (simp add: ready_def ses0_def)
  obtain t sv n where rx: "receive_pdu ops (h_sv h) = Inr (Some (request hdr d), IFR_OK, t, sv)"
    "sv_cc sv = (sv_cc (h_sv h))\<lparr>cc_rx := rest\<rparr>" "sv_ses sv = Some (ses0\<lparr>bytes_rx := n\<rparr>)"
    "sv_s sv = snd (sc_micros (sv_s (h_sv h)))"
    using receive_framed [OF ses0_def [symmetric] assms(2) _ assms(4,5), of rest] assms(3,6) same_limits_assembled [OF lim]
    by auto
  have us: "usable dinv tid (sv_s sv)" "sc_b (sv_s sv) = sc_b (sv_s (h_sv h))"
    using assms(1) sc_micros_keeps [OF surjective_pairing, of "sv_s (h_sv h)"] usable_cfg
    by (auto simp: ready_def rx(4))
  define sv1 where "sv1 = sv\<lparr>sv_is := (sv_is sv)\<lparr>iscsiSsnCmdPDUs := iscsiSsnCmdPDUs (sv_is sv) + 1\<rparr>\<rparr>"
  have sv1: "sv_s sv1 = sv_s sv" "sv_cc sv1 = sv_cc sv" by (simp_all add: sv1_def)
  have "same_limits ses (ses0\<lparr>bytes_rx := n\<rparr>)" "cc_send_ok (sv_cc sv1) = []"
    using lim assms(1) by (simp_all add: sv1 rx(2) ready_def)
  then obtain sv' ses'' blobs where p: "push_response fuel ops tid (ses0\<lparr>bytes_rx := n\<rparr>) (request hdr d) sv1 = Inr (IFR_OK, sv')"
    "sv_ses sv' = Some ses''" "same_limits ses ses''" "usable dinv tid (sv_s sv')" "cc_send_ok (sv_cc sv') = []"
    "cc_tx (sv_cc sv') = cc_tx (sv_cc sv1) @ blobs" "Q blobs (sc_b (sv_s sv'))"
    using ans [unfolded answers_def, rule_format, of "ses0\<lparr>bytes_rx := n\<rparr>" sv1] us by (auto simp: sv1)
  obtain h' where h': "handler_round fuel ops tid h = Inr h'" "h_ok h'" "settled sv' (h_sv h')"
    using handler_round_ok [OF rx(1,3) p(1) [unfolded sv1_def]] assms(1) by (auto simp: ready_def)
  obtain ses3 where s3: "sv_ses (h_sv h') = Some ses3" "same_limits ses'' ses3"
    using h'(3) p(2) by (auto simp: settled_def option_rel_Some1)
  have "ready ops dinv tid ses h'"
    using h'(2,3) p(4,5) s3 same_limits_trans [OF p(3) s3(2)] usable_cfg
    by (auto simp: ready_def settled_def start_session_def)
  moreover have "cc_rx (sv_cc sv') = rest" using rx_push_response [OF p(1)] by (simp add: sv1 rx(2))
  ultimately show ?thesis using h'(1,3) p(6,7) by (auto simp: settled_def sv1 rx(2))
qed


section \<open>Pings, writes and reads\<close>

text \<open>A SCSI response that reports success: its response and status fields are zero.\<close>

definition good_response :: "bool \<Rightarrow> u32 \<Rightarrow> byte list \<Rightarrow> bool" where
  "good_response hdigest itt blob \<longleftrightarrow> read_pdu hdigest blob = (o_scsi_resp, itt, []) \<and>
     get8 pdu_response_l ''response'' blob = 0 \<and> get8 pdu_response_l ''status'' blob = 0"

lemma success_response:
  obtains r blob where "scsi_response_set p [] None None = Some r" "reply_get r ses = Inr ([blob], ses)"
    "good_response (get_header_digest ses) (get_Itasktag bhs_l p) blob"
proof -
  obtain h where r: "scsi_response_set p [] None None = Some (Scsi_response h [])"
    by (simp add: scsi_response_set_def Let_def)
  have z: "h ! 2 = 0" "h ! 3 = 0" "length h = 48"
    using r by (auto simp: scsi_response_set_def Let_def member_defs mem_simps setmem_def)
  obtain blob where b: "reply_get (Scsi_response h []) ses = Inr ([blob], ses)"
    "read_pdu (get_header_digest ses) blob = (0x21, ld32 16 (pdu_bytes p), [])"
    using response_class.on_wire [OF r, of ses] by auto
  have "blob = assembled ses h [] True"
    using b(1) by (simp add: reply_get_def get_helper_spec z)
  then have "blob ! 2 = 0" "blob ! 3 = 0" using z by (simp_all add: assembled_def nth_append)
  then have "good_response (get_header_digest ses) (get_Itasktag bhs_l p) blob"
    using b(2) by (simp add: good_response_def get8_def get_Itasktag_def get32_def)
  then show ?thesis by (rule that [OF r b(1)])
qed

lemma ping_answers:
  assumes "get_opcode p = o_nop_out" and "\<And>d. pdu_data p = Some d \<Longrightarrow> length d < 2 ^ 24"
  shows "answers fuel ops dinv tid ses p b (\<lambda>blobs b'. b' = b \<and>
    (\<exists>blob. blobs = [blob] \<and> read_pdu (get_header_digest ses) blob = (o_nop_in, get_Itasktag bhs_l p, reply_data (nop_in_set p))))"
proof (rule answers_one, use assms(1) in simp)
  fix ses' s assume a: "same_limits ses ses'" "usable dinv tid s" "sc_b s = b"
  obtain blob where "reply_get (nop_in_set p) ses' = Inr ([blob], ses')"
    "read_pdu (get_header_digest ses') blob = (0x20, ld32 16 (pdu_bytes p), reply_data (nop_in_set p))"
    using nop_class.on_wire [of p "nop_in_set p" ses'] assms(2) by auto
  moreover have "get_response ops tid p ses' s = Inr (Some (one_reply (nop_in_set p)), ses', s)"
    using assms(1) by (simp add: get_response_def nop_get_response_def)
  ultimately show "\<exists>r blob s'. get_response ops tid p ses' s = Inr (Some (one_reply r), ses', s') \<and>
      reply_get r ses' = Inr ([blob], ses') \<and> usable dinv tid s' \<and> sc_b s' = b \<and>
      (\<exists>blob'. [blob] = [blob'] \<and> read_pdu (get_header_digest ses) blob' = (o_nop_in, get_Itasktag bhs_l p, reply_data (nop_in_set p)))"
    using a by (auto simp: same_limits_def get_Itasktag_def get32_def)
qed


context block_storage
begin

lemma write_answers:
  assumes "inv b" and "get_opcode p = o_scsi_cmd" and "pdu_data p = Some d"
    and "get_CDB p ! 0 \<in> {o_write_6, o_write_10, o_write_verify_10, o_write_12, o_write_16}" and "drop_bit 5 (get_CDB p ! 1) = 0"
    and "write_lba_len (get_CDB p) (get_CDB p ! 0) = (lba, n)" and "length d = unat n * bsz"
    and "on_disk lba n b" and "unat n \<le> lim" and "unat n * bsz < 2 ^ 32"
  shows "answers fuel ops inv tid ses p b (\<lambda>blobs b'. disk b' = overwrite (unat lba * bsz) d (disk b) \<and>
    (\<exists>blob. blobs = [blob] \<and> good_response (get_header_digest ses) (get_Itasktag bhs_l p) blob))"
proof (rule answers_one, use assms(2) in simp)
  fix ses' s assume a: "same_limits ses ses'" "usable inv tid s" "sc_b s = b"
  note u = a(2) [unfolded usable_def a(3)]
  have v: "validate_request ops b lba n (Some (get_CDB p)) = None" "unat n \<le> unat (be_get_size_in_blocks ops b)"
    using validates [OF assms(1,8,5)] assms(4) by auto
  obtain r s' where w: "write_verify ops tid (get_CDB p) (Some d) (get_CDB p ! 0) s = Inr (r, s')" "sense_data r = []"
    "inv (sc_b s')" "same_cfg s s'" "quiet (sc_env s')" "disk (sc_b s') = overwrite (unat lba * bsz) d (disk b)"
    "r_type r = ir_empty_sense"
    using write_verify_law [of s tid "get_CDB p" "get_CDB p ! 0" lba n d] u v assms(6,7,9,10) a(3) by auto
  obtain x blob where x: "scsi_response_set p [] None None = Some x" "reply_get x ses' = Inr ([blob], ses')"
    "good_response (get_header_digest ses') (get_Itasktag bhs_l p) blob"
    by (rule success_response)
  have "get_response ops tid p ses' s = Inr (Some (one_reply x), ses', s')"
    using w(2,7) x(1) write_verify_reply [OF w(1)] assms(2)
    unfolding get_response_def cmd_get_response_def send_write [OF assms(4)] assms(3) w(1)
    by (simp add: cmd_respond_def Let_def one_reply_def error_reservation_conflict_1_def)
  then show "\<exists>r blob s'. get_response ops tid p ses' s = Inr (Some (one_reply r), ses', s') \<and>
      reply_get r ses' = Inr ([blob], ses') \<and> usable inv tid s' \<and> disk (sc_b s') = overwrite (unat lba * bsz) d (disk b) \<and>
      (\<exists>blob'. [blob] = [blob'] \<and> good_response (get_header_digest ses) (get_Itasktag bhs_l p) blob')"
    using x(2,3) w(3,5,6) same_cfg_locking [OF w(4), of tid] a(1) u by (auto simp: usable_def same_limits_def)
qed

lemma read_answers:
  assumes "inv b" and "get_opcode p = o_scsi_cmd" and "pdu_data p = None"
    and "get_CDB p ! 0 \<in> {o_read_16, o_read_12, o_read_10, o_read_6}" and "drop_bit 5 (get_CDB p ! 1) = 0"
    and "read_lba_len (get_CDB p) (get_CDB p ! 0) = (lba, n)" and "0 < n" and "unat n * bsz < 2 ^ 32" and "on_disk lba n b"
    and "m = unat (max_seg_len ses)" and "0 < m" and "m \<le> unat MAX_DATA_SEGMENT_SIZE" and "bsz dvd m" and "4 dvd bsz"
    and "0 < get_ExpDatLen p" and "bsz dvd unat (get_ExpDatLen p)" and "unat n * bsz \<le> fuel"
    and "len = min (unat n * bsz) (unat (get_ExpDatLen p))" and "min m len < 2 ^ 24" and "min m len \<le> lim * bsz"
  shows "answers fuel ops inv tid ses p b (\<lambda>blobs b'. disk b' = disk b \<and>
    data_ins (get_header_digest ses) (get_Itasktag cdb_pdu_req_l p) 0 blobs (slice (unat lba * bsz) len (disk b)))"
  unfolding answers_def
proof (intro allI impI)
  fix ses' and sv :: "'b server" assume a: "same_limits ses ses' \<and> usable inv tid (sv_s sv) \<and> sc_b (sv_s sv) = b \<and> cc_send_ok (sv_cc sv) = []"
  then have u: "inv (sc_b (sv_s sv))" "locking_status tid (sv_s sv) \<noteq> l_locked_other" "quiet (sc_env (sv_s sv))"
    "cc_send_ok (sv_cc sv) = []" "sc_b (sv_s sv) = b" "m = unat (max_seg_len ses')"
    using assms(1) by (simp_all add: usable_def same_limits_def assms(10))
  have v: "validate_request ops b lba n (Some (get_CDB p)) = None"
    using validates [OF assms(1,9,5)] assms(4) by auto
  have rd: "read_cmd ops (get_CDB p) (get_CDB p ! 0) (sv_s sv) = (scsi_response_new ir_as_is)\<lparr>amount_of_data_expected :=
      Some (ucast n * be_get_block_size ops b), is_inline := False, r_location := \<lparr>dd_lba = lba, dd_n_sectors = n\<rparr>,
      r_data := None, data_is_meta := False\<rparr>"
    using assms(6,7) v u(5) by (simp add: read_cmd_def Let_def)
  have g: "get_response ops tid p ses' (sv_s sv) = Inr (Some \<lparr>responses = [], to_stream = Some \<lparr>dd_lba = lba, dd_n_sectors = n\<rparr>\<rparr>,
      ses', sv_s sv)"
    using assms(2,7) unfolding get_response_def cmd_get_response_def send_read [OF assms(4)] rd
    by (simp add: cmd_respond_def Let_def scsi_response_new_def)
  have room: "(unat lba + unat n) * bsz \<le> length (disk (sc_b (sv_s sv)))"
    using assms(9) by (simp add: on_disk_def u(5) add_mult_distrib)
  obtain st blobs where st: "stream_data fuel ops tid p \<lparr>dd_lba = lba, dd_n_sectors = n\<rparr> IFR_OK ses' (sv_cc sv) (sv_is sv) (sv_s sv) =
      Inr (IFR_OK, st)" "stream_inv inv bsz tid (unat lba * bsz) m ses' st" "disk (sc_b (st_s st)) = disk b"
    "cc_tx (st_cc st) = cc_tx (sv_cc sv) @ blobs"
    "data_ins (get_header_digest ses') (get_Itasktag cdb_pdu_req_l p) 0 blobs (slice (unat lba * bsz) len (disk b))"
    using stream_data_law [OF u(1-4,6) assms(11-14,7,8) room assms(15-20)] unfolding u(5) by blast
  have p: "push_response fuel ops tid ses' p sv = Inr (IFR_OK, sv\<lparr>sv_s := st_s st, sv_ses := Some (st_ses st), sv_cc := st_cc st,
      sv_is := st_is st\<rparr>)"
    using assms(2) g st(1) by (simp add: push_response_def)
  show "\<exists>sv' ses'' blobs. push_response fuel ops tid ses' p sv = Inr (IFR_OK, sv') \<and> sv_ses sv' = Some ses'' \<and>
      same_limits ses ses'' \<and> usable inv tid (sv_s sv') \<and> cc_send_ok (sv_cc sv') = [] \<and>
      cc_tx (sv_cc sv') = cc_tx (sv_cc sv) @ blobs \<and> disk (sc_b (sv_s sv')) = disk b \<and>
      data_ins (get_header_digest ses) (get_Itasktag cdb_pdu_req_l p) 0 blobs (slice (unat lba * bsz) len (disk b))"
    unfolding p by (intro exI [of _ "sv\<lparr>sv_s := st_s st, sv_ses := Some (st_ses st), sv_cc := st_cc st, sv_is := st_is st\<rparr>"]
        exI [of _ "st_ses st"] exI [of _ blobs])
      (use a st(2-5) u(6) in \<open>simp add: stream_inv_def usable_def same_limits_def word_unat_eq_iff\<close>)
qed

end


section \<open>The disk that the initiator sees\<close>

text \<open>What the initiator asks for: each request with its 48-byte header, and its data if it has any.\<close>

datatype io = Io_ping (io_hdr: "byte list") "byte list" | Io_write (io_hdr: "byte list") "byte list" | Io_read (io_hdr: "byte list")

fun io_data :: "io \<Rightarrow> byte list" where
  "io_data (Io_ping h d) = d" | "io_data (Io_write h d) = d" | "io_data (Io_read h) = []"

definition io_pdu :: "io \<Rightarrow> pdu" where
  "io_pdu r = request (io_hdr r) (io_data r)"

text \<open>The blocks that it names: the first one and their number.\<close>

fun io_range :: "io \<Rightarrow> u64 \<times> u32" where
  "io_range (Io_ping h d) = (0, 0)"
| "io_range (Io_write h d) = (let CDB = get_CDB (request h d) in write_lba_len CDB (CDB ! 0))"
| "io_range (Io_read h) = (let CDB = get_CDB (request h []) in read_lba_len CDB (CDB ! 0))"

text \<open>How many bytes a read asks for, given the block size.\<close>

definition io_wants :: "nat \<Rightarrow> io \<Rightarrow> nat" where
  "io_wants bsz r = min (unat (snd (io_range r)) * bsz) (unat (get_ExpDatLen (io_pdu r)))"

text \<open>Its effect on the bytes of the disk, and what must come back: one PDU, or the Data-In PDUs of a read.\<close>

fun io_store :: "nat \<Rightarrow> io \<Rightarrow> byte list \<Rightarrow> byte list" where
  "io_store bsz (Io_write h d) bytes = overwrite (unat (fst (io_range (Io_write h d))) * bsz) d bytes"
| "io_store bsz r bytes = bytes"

fun io_answered :: "bool \<Rightarrow> nat \<Rightarrow> byte list \<Rightarrow> io \<Rightarrow> byte list list \<Rightarrow> bool" where
  "io_answered hdigest bsz bytes (Io_ping h d) [blob] \<longleftrightarrow>
     read_pdu hdigest blob = (o_nop_in, get_Itasktag bhs_l (request h d), d)"
| "io_answered hdigest bsz bytes (Io_write h d) [blob] \<longleftrightarrow> good_response hdigest (get_Itasktag bhs_l (request h d)) blob"
| "io_answered hdigest bsz bytes (Io_read h) blobs \<longleftrightarrow>
     data_ins hdigest (get_Itasktag cdb_pdu_req_l (request h [])) 0 blobs
       (slice (unat (fst (io_range (Io_read h))) * bsz) (io_wants bsz (Io_read h)) bytes)"
| "io_answered hdigest bsz bytes _ _ \<longleftrightarrow> False"

fun io_trace :: "bool \<Rightarrow> nat \<Rightarrow> byte list \<Rightarrow> io list \<Rightarrow> byte list list list \<Rightarrow> bool" where
  "io_trace hdigest bsz bytes [] replies \<longleftrightarrow> replies = []"
| "io_trace hdigest bsz bytes (r # rs) [] \<longleftrightarrow> False"
| "io_trace hdigest bsz bytes (r # rs) (blobs # replies) \<longleftrightarrow>
     io_answered hdigest bsz bytes r blobs \<and> io_trace hdigest bsz (io_store bsz r bytes) rs replies"

text \<open>
  Requests within the contract, for a disk of \<open>l\<close> bytes and Data-In PDUs of at most \<open>m\<close> bytes: the header
  says what follows it, the operation is a write with all of its data or a read of at least one block,
  the reserved bits are clear, the blocks exist, and what goes into one PDU fits its length field.
\<close>

fun io_valid :: "nat \<Rightarrow> nat \<Rightarrow> nat \<Rightarrow> io \<Rightarrow> bool" where
  "io_valid bsz l m (Io_ping h d) \<longleftrightarrow> get_opcode (request h d) = o_nop_out"
| "io_valid bsz l m (Io_write h d) \<longleftrightarrow>
     (let CDB = get_CDB (request h d); (lba, n) = io_range (Io_write h d)
      in get_opcode (request h d) = o_scsi_cmd \<and> CDB ! 0 \<in> {o_write_6, o_write_10, o_write_verify_10, o_write_12, o_write_16} \<and>
         drop_bit 5 (CDB ! 1) = 0 \<and> 0 < n \<and> length d = unat n * bsz \<and> (unat lba + unat n) * bsz \<le> l)"
| "io_valid bsz l m (Io_read h) \<longleftrightarrow>
     (let CDB = get_CDB (request h []); (lba, n) = io_range (Io_read h); exp = get_ExpDatLen (request h [])
      in get_opcode (request h []) = o_scsi_cmd \<and> CDB ! 0 \<in> {o_read_16, o_read_12, o_read_10, o_read_6} \<and>
         drop_bit 5 (CDB ! 1) = 0 \<and> 0 < n \<and> unat n * bsz < 2 ^ 32 \<and> (unat lba + unat n) * bsz \<le> l \<and>
         0 < exp \<and> bsz dvd unat exp \<and> min m (io_wants bsz (Io_read h)) < 2 ^ 24)"

definition io_ok :: "nat \<Rightarrow> nat \<Rightarrow> nat \<Rightarrow> io \<Rightarrow> bool" where
  "io_ok bsz l m r \<longleftrightarrow> length (io_hdr r) = 48 \<and> get_ahs_length (io_pdu r) = 0 \<and>
     get_data_length (io_pdu r) = length (io_data r) \<and> io_valid bsz l m r"

definition io_bytes :: "session \<Rightarrow> io \<Rightarrow> byte list" where
  "io_bytes ses r = assembled ses (io_hdr r) (io_data r) True"

section \<open>The thread serves this disk\<close>

lemma answers_mono:
  "answers fuel ops dinv tid ses p b Q \<Longrightarrow> (\<And>blobs b'. Q blobs b' \<Longrightarrow> Q' blobs b') \<Longrightarrow> answers fuel ops dinv tid ses p b Q'"
  unfolding answers_def by blast

lemma ping_data: "length d < 2 ^ 24 \<Longrightarrow> reply_data (nop_in_set (request h d)) = d"
  by (cases "d = []") (auto simp: nop_in_set_def request_def get_data_def Let_def)

lemma io_opcode: "io_valid bsz l m r \<Longrightarrow> get_opcode (io_pdu r) \<in> set known_opcodes - {o_login_req}"
  by (cases r) (auto simp: io_pdu_def known_opcodes_def Let_def)

lemma length_io_store: "io_valid bsz (length bytes) m r \<Longrightarrow> length (io_store bsz r bytes) = length bytes"
  by (cases r) (auto simp: Let_def add_mult_distrib split: prod.splits)

context block_storage
begin

lemma io_answers:
  assumes "inv b" and ok: "io_ok bsz (length (disk b)) m r"
    and "m = unat (max_seg_len ses)" and "0 < m" and "m \<le> unat MAX_DATA_SEGMENT_SIZE" and "bsz dvd m" and "4 dvd bsz"
    and "2 ^ 24 \<le> lim * bsz" and "length (disk b) \<le> fuel"
  shows "answers fuel ops inv tid ses (io_pdu r) b (\<lambda>blobs b'. disk b' = io_store bsz r (disk b) \<and>
    io_answered (get_header_digest ses) bsz (disk b) r blobs)"
proof (cases r)
  case (Io_ping h d)
  have l: "length d < 2 ^ 24" using ok get_data_length_lt [of "io_pdu r"] by (simp add: io_ok_def Io_ping)
  have p: "io_pdu r = request h d" by (simp add: io_pdu_def Io_ping)
  show ?thesis unfolding p
    by (rule answers_mono [OF ping_answers])
      (use ok l ping_data [OF l] in \<open>auto simp: io_ok_def Io_ping request_def split: if_splits\<close>)
next
  case (Io_write h d)
  obtain lba n where ln: "write_lba_len (get_CDB (request h d)) (get_CDB (request h d) ! 0) = (lba, n)" by fastforce
  have p: "io_pdu r = request h d" by (simp add: io_pdu_def Io_write)
  have v: "get_opcode (request h d) = o_scsi_cmd" "drop_bit 5 (get_CDB (request h d) ! 1) = 0"
    "get_CDB (request h d) ! 0 \<in> {o_write_6, o_write_10, o_write_verify_10, o_write_12, o_write_16}"
    "0 < n" "length d = unat n * bsz" "(unat lba + unat n) * bsz \<le> length (disk b)"
    using ok by (simp_all add: io_ok_def Io_write Let_def ln)
  have l: "length d < 2 ^ 24" using ok get_data_length_lt [of "io_pdu r"] by (simp add: io_ok_def Io_write)
  then have "unat n * bsz < lim * bsz" using assms(8) unfolding v(5) by linarith
  then have lim: "unat n \<le> lim" by simp
  have "d \<noteq> []" using v(4,5) bsz_pos by (auto simp: word_less_nat_alt)
  then have d: "pdu_data (request h d) = Some d" by (simp add: request_def)
  have od: "on_disk lba n b" using v(6) by (simp add: on_disk_def add_mult_distrib)
  have "unat n * bsz < 2 ^ 32" using l v(5) by simp
  from write_answers [OF assms(1) v(1) d v(3,2) ln v(5) od lim this] show ?thesis
    unfolding p by (rule answers_mono) (auto simp: Io_write ln Let_def)
next
  case (Io_read h)
  obtain lba n where ln: "read_lba_len (get_CDB (request h [])) (get_CDB (request h []) ! 0) = (lba, n)" by fastforce
  have p: "io_pdu r = request h []" by (simp add: io_pdu_def Io_read)
  define len where "len = io_wants bsz r"
  have len: "len = min (unat n * bsz) (unat (get_ExpDatLen (request h [])))"
    by (simp add: len_def io_wants_def p [unfolded Io_read] ln Io_read Let_def)
  have v: "get_opcode (request h []) = o_scsi_cmd" "drop_bit 5 (get_CDB (request h []) ! 1) = 0"
    "get_CDB (request h []) ! 0 \<in> {o_read_16, o_read_12, o_read_10, o_read_6}"
    "0 < n" "unat n * bsz < 2 ^ 32" "(unat lba + unat n) * bsz \<le> length (disk b)" "0 < get_ExpDatLen (request h [])"
    "bsz dvd unat (get_ExpDatLen (request h []))" "min m len < 2 ^ 24"
    using ok by (simp_all add: io_ok_def Io_read Let_def ln len_def)
  have od: "on_disk lba n b" using v(6) by (simp add: on_disk_def add_mult_distrib)
  have fuel: "unat n * bsz \<le> fuel" using v(6) assms(9) by (simp add: add_mult_distrib)
  have lim: "min m len \<le> lim * bsz" using v(9) assms(8) by linarith
  have d: "pdu_data (request h []) = None" by (simp add: request_def)
  from read_answers [OF assms(1) v(1) d v(3,2) ln v(4,5) od assms(3-7) v(7,8) fuel len v(9) lim] show ?thesis
    unfolding p by (rule answers_mono) (simp add: Io_read ln Let_def len_def)
qed

end


context block_storage
begin

lemma rounds_law:
  assumes "m = unat (max_seg_len ses)" and "0 < m" and "m \<le> unat MAX_DATA_SEGMENT_SIZE" and "bsz dvd m" and "4 dvd bsz"
    and "2 ^ 24 \<le> lim * bsz" and "length (disk (sc_b (sv_s (h_sv h)))) \<le> fuel"
    and "ready ops inv tid ses h" and "list_all (io_ok bsz (length (disk (sc_b (sv_s (h_sv h))))) m) rs"
    and "cc_rx (sv_cc (h_sv h)) = concat (map (io_bytes ses) rs) @ rest"
  shows "\<exists>h' replies. (\<forall>k. handler_loop fuel ops tid (length rs + k) h = handler_loop fuel ops tid k h') \<and>
    ready ops inv tid ses h' \<and> cc_rx (sv_cc (h_sv h')) = rest \<and>
    cc_tx (sv_cc (h_sv h')) = cc_tx (sv_cc (h_sv h)) @ concat replies \<and>
    io_trace (get_header_digest ses) bsz (disk (sc_b (sv_s (h_sv h)))) rs replies \<and>
    disk (sc_b (sv_s (h_sv h'))) = fold (io_store bsz) rs (disk (sc_b (sv_s (h_sv h))))"
  using assms(7-10)
proof (induction rs arbitrary: h)
  case Nil
  then show ?case by (intro exI [of _ h] exI [of _ "[]"]) simp
next
  case (Cons r rs)
  define b where "b = sc_b (sv_s (h_sv h))"
  have b: "inv b" using Cons.prems(2) by (simp add: ready_def usable_def b_def)
  have ok: "io_ok bsz (length (disk b)) m r" using Cons.prems(3) by (simp add: b_def)
  note io = ok [unfolded io_ok_def]
  have rx: "cc_rx (sv_cc (h_sv h)) = assembled ses (io_hdr r) (io_data r) True @ (concat (map (io_bytes ses) rs) @ rest)"
    using Cons.prems(4) io_bytes_def [of ses r] by simp
  have "answers fuel ops inv tid ses (io_pdu r) b (\<lambda>blobs b'. disk b' = io_store bsz r (disk b) \<and>
      io_answered (get_header_digest ses) bsz (disk b) r blobs)"
    by (rule io_answers [OF b ok assms(1-6) Cons.prems(1) [folded b_def]])
  then obtain h1 blobs where h1: "handler_round fuel ops tid h = Inr h1" "ready ops inv tid ses h1"
    "cc_rx (sv_cc (h_sv h1)) = concat (map (io_bytes ses) rs) @ rest"
    "cc_tx (sv_cc (h_sv h1)) = cc_tx (sv_cc (h_sv h)) @ blobs"
    "disk (sc_b (sv_s (h_sv h1))) = io_store bsz r (disk b)" "io_answered (get_header_digest ses) bsz (disk b) r blobs"
    using round_answers [OF Cons.prems(2) _ _ _ _ rx] io io_opcode [of bsz "length (disk b)" m r]
    unfolding io_pdu_def b_def by blast
  have len: "length (disk (sc_b (sv_s (h_sv h1)))) = length (disk b)"
    unfolding h1(5) by (rule length_io_store) (use io in blast)
  obtain h' replies where h': "\<forall>k. handler_loop fuel ops tid (length rs + k) h1 = handler_loop fuel ops tid k h'"
    "ready ops inv tid ses h'" "cc_rx (sv_cc (h_sv h')) = rest"
    "cc_tx (sv_cc (h_sv h')) = cc_tx (sv_cc (h_sv h1)) @ concat replies"
    "io_trace (get_header_digest ses) bsz (disk (sc_b (sv_s (h_sv h1)))) rs replies"
    "disk (sc_b (sv_s (h_sv h'))) = fold (io_store bsz) rs (disk (sc_b (sv_s (h_sv h1))))"
    using Cons.IH [OF _ h1(2) _ h1(3)] Cons.prems(1,3) unfolding len b_def [symmetric] by (auto simp del: io_trace.simps)
  have "h_ok h1" using h1(2) by (simp add: ready_def)
  then show ?case
    using h' h1(1,4,6) unfolding h1(5) b_def
    by (intro exI [of _ h'] exI [of _ "blobs # replies"]) simp
qed

text \<open>When the peer has sent everything and closes, the next round is the last one.\<close>

lemma round_closed:
  assumes "usable inv tid (sv_s (h_sv h))" and "cc_rx (sv_cc (h_sv h)) = []"
  shows "\<exists>h'. handler_round fuel ops tid h = Inr h' \<and> \<not> h_ok h' \<and> usable inv tid (sv_s (h_sv h')) \<and>
    sc_b (sv_s (h_sv h')) = sc_b (sv_s (h_sv h)) \<and> cc_tx (sv_cc (h_sv h')) = cc_tx (sv_cc (h_sv h))"
proof -
  define sv where "sv = (h_sv h)\<lparr>sv_ses := Some (start_session ops (h_sv h)), sv_cc := (sv_cc (h_sv h))\<lparr>cc_rx := []\<rparr>,
    sv_is := (sv_is (h_sv h))\<lparr>iscsiSsnCmdPDUs := iscsiSsnCmdPDUs (sv_is (h_sv h)) + 1\<rparr>\<rparr>"
  define h1 where "h1 = handler_errors IFR_CONNECTION (h\<lparr>h_sv := sv\<rparr>)"
  have "handler_round fuel ops tid h = Inr (handler_clock 0 h1)"
    using assms(2) by (simp add: handler_round_def receive_pdu_def cc_recv_def Let_def sv_def h1_def)
  moreover have "\<not> h_ok h1" "sv_s (h_sv h1) = sv_s (h_sv h)" "cc_tx (sv_cc (h_sv h1)) = cc_tx (sv_cc (h_sv h))"
    by (simp_all add: h1_def handler_errors_def Let_def sv_def)
  ultimately show ?thesis
    using handler_clock_keeps [of 0 h1] assms(1) usable_cfg by (auto simp: settled_def)
qed

text \<open>
  A connection whose first \<open>n\<close> rounds lead to a state in which the device can be used, and which then carries the
  requests \<open>rs\<close>.
\<close>

lemma handler_served:
  assumes h: "h = \<lparr>h_sv = sv\<lparr>sv_s := snd (get_millis (sv_s sv))\<rparr>, h_ok = True, h_fail_counter = 0, h_busy = 0,
      h_prev_output = fst (get_millis (sv_s sv))\<rparr>"
    and first: "\<And>k. handler_loop fuel ops tid (n + k) h = handler_loop fuel ops tid k h0" and "ready ops inv tid ses h0"
    and "m = unat (max_seg_len ses)" and "0 < m" and "m \<le> unat MAX_DATA_SEGMENT_SIZE" and "bsz dvd m" and "4 dvd bsz"
    and "2 ^ 24 \<le> lim * bsz" and "bytes = disk (sc_b (sv_s (h_sv h0)))" and "length bytes \<le> fuel"
    and "list_all (io_ok bsz (length bytes) m) rs" and "cc_rx (sv_cc (h_sv h0)) = concat (map (io_bytes ses) rs)"
  shows "\<exists>sv' replies. handler fuel ops tid sv = Inr sv' \<and> cc_tx (sv_cc sv') = cc_tx (sv_cc (h_sv h0)) @ concat replies \<and>
    io_trace (get_header_digest ses) bsz bytes rs replies \<and> disk (sc_b (sv_s sv')) = fold (io_store bsz) rs bytes \<and>
    usable inv tid (sv_s sv') \<and> sv_ses sv' = None"
proof -
  obtain h' replies where h': "\<forall>k. handler_loop fuel ops tid (length rs + k) h0 = handler_loop fuel ops tid k h'"
    "ready ops inv tid ses h'" "cc_rx (sv_cc (h_sv h')) = []" "cc_tx (sv_cc (h_sv h')) = cc_tx (sv_cc (h_sv h0)) @ concat replies"
    "io_trace (get_header_digest ses) bsz bytes rs replies"
    "disk (sc_b (sv_s (h_sv h'))) = fold (io_store bsz) rs bytes"
    using rounds_law [OF assms(4-9) assms(11) [unfolded assms(10)] assms(3) assms(12) [unfolded assms(10)], of "[]"] assms(13)
    unfolding assms(10) by auto
  define k where "k = length (cc_rx (sv_cc sv)) div 48"
  obtain h2 where h2: "handler_round fuel ops tid h' = Inr h2" "\<not> h_ok h2" "usable inv tid (sv_s (h_sv h2))"
    "sc_b (sv_s (h_sv h2)) = sc_b (sv_s (h_sv h'))" "cc_tx (sv_cc (h_sv h2)) = cc_tx (sv_cc (h_sv h'))"
    using round_closed [OF _ h'(3)] h'(2) unfolding ready_def by blast
  have "handler_loop fuel ops tid (k + 1) h = handler_loop fuel ops tid (n + (length rs + (k + 1))) h"
    by (rule handler_loop_rounds) (simp_all add: k_def h)
  also have "\<dots> = handler_loop fuel ops tid (k + 1) h'" unfolding first using h'(1) by (rule spec)
  also have "\<dots> = Inr h2" using h2(1,2) by simp
  finally have loop: "handler_loop fuel ops tid (k + 1) h = Inr h2" .
  obtain s3 where s3: "scsi_sync ops tid (sv_s (h_sv h2)) = Inr (rw_ok, s3)" "disk (sc_b s3) = disk (sc_b (sv_s (h_sv h2)))"
    "inv (sc_b s3)" "same_cfg (sv_s (h_sv h2)) s3" "quiet (sc_env s3)"
    using scsi_sync_quiet h2(3) unfolding usable_def by blast
  define s4 where "s4 = (if locking_status tid s3 = l_locked then snd (unlock_device tid s3) else s3)"
  have "locking_status tid s3 \<noteq> l_locked_other" using h2(3) same_cfg_locking [OF s3(4)] by (simp add: usable_def)
  then have u: "sc_b s4 = sc_b s3" "usable inv tid s4" using s3(3,5)
    by (auto simp: s4_def unlock_device_def usable_def locking_status_def split: option.splits)
  have "handler fuel ops tid sv = Inr ((h_sv h2)\<lparr>sv_s := s4, sv_ses := None\<rparr>)"
    using loop s3(1) by (cases "get_millis (sv_s sv)") (simp add: handler_def k_def h handler_finish_def s4_def)
  then show ?thesis using h'(4-6) h2(4,5) s3(2) u by (intro exI [of _ "(h_sv h2)\<lparr>sv_s := s4, sv_ses := None\<rparr>"] exI [of _ replies]) simp
qed

lemma handler_law:
  assumes "usable inv tid (sv_s sv)" and "cc_send_ok (sv_cc sv) = []" and "ses = start_session ops sv"
    and "m = unat (max_seg_len ses)" and "0 < m" and "m \<le> unat MAX_DATA_SEGMENT_SIZE" and "bsz dvd m" and "4 dvd bsz"
    and "2 ^ 24 \<le> lim * bsz" and "length (disk (sc_b (sv_s sv))) \<le> fuel"
    and "list_all (io_ok bsz (length (disk (sc_b (sv_s sv)))) m) rs" and "cc_rx (sv_cc sv) = concat (map (io_bytes ses) rs)"
  shows "\<exists>sv' replies. handler fuel ops tid sv = Inr sv' \<and> cc_tx (sv_cc sv') = cc_tx (sv_cc sv) @ concat replies \<and>
    io_trace (get_header_digest ses) bsz (disk (sc_b (sv_s sv))) rs replies \<and>
    disk (sc_b (sv_s sv')) = fold (io_store bsz) rs (disk (sc_b (sv_s sv)))"
proof -
  define h where "h = \<lparr>h_sv = sv\<lparr>sv_s := snd (get_millis (sv_s sv))\<rparr>, h_ok = True, h_fail_counter = 0, h_busy = 0,
      h_prev_output = fst (get_millis (sv_s sv))\<rparr>"
  note s = get_millis_keeps [OF surjective_pairing, of "sv_s sv"]
  have "start_session ops (h_sv h) = ses" using s by (cases "sv_ses sv") (simp_all add: h_def assms(3) start_session_def)
  then have "ready ops inv tid ses h" using assms(1,2) s usable_cfg by (auto simp: ready_def h_def)
  from handler_served [OF h_def _ this assms(4-9), where n = 0 and fuel = fuel and rs = rs and bytes = "disk (sc_b (sv_s sv))"]
  show ?thesis using s assms(10-12) by (auto simp: h_def)
qed

end


text \<open>
  A connection is a disk, under the terms its session has: for any sequence of pings, writes with immediate data and reads within the
  contract that an initiator puts on a connection before closing it, the thread that serves the
  connection returns; it has sent, in order, exactly the replies that an array of bytes that executes the
  requests one after the other gives (each ping echoed, each write acknowledged with success, each read
  answered with the bytes the array holds at that moment, in consecutive Data-In PDUs under the
  command's tag), for all negotiated digests and segment lengths; and the file ends up as that array.
\<close>

theorem connection_is_disk:
  assumes "file_inv (sc_b (sv_s sv))" and "locking_status tid (sv_s sv) \<noteq> l_locked_other" and "quiet (sc_env (sv_s sv))"
    and "cc_send_ok (sv_cc sv) = []" and "ses = start_session file_ops sv"
    and "m = unat (max_seg_len ses)" and "0 < m" and "m \<le> unat MAX_DATA_SEGMENT_SIZE" and "4096 dvd m"
    and "bytes = bf_contents (sc_b (sv_s sv))" and "length bytes \<le> fuel"
    and "list_all (io_ok 4096 (length bytes) m) rs" and "cc_rx (sv_cc sv) = concat (map (io_bytes ses) rs)"
  shows "\<exists>sv' replies. handler fuel file_ops tid sv = Inr sv' \<and> cc_tx (sv_cc sv') = cc_tx (sv_cc sv) @ concat replies \<and>
    io_trace (get_header_digest ses) 4096 bytes rs replies \<and>
    bf_contents (sc_b (sv_s sv')) = fold (io_store 4096) rs bytes"
proof -
  have "usable file_inv tid (sv_s sv)" using assms(1-3) by (simp add: usable_def)
  moreover have "2 ^ 24 \<le> file_lim * 4096" "4 dvd (4096 :: nat)" by (simp_all add: file_lim_def)
  ultimately show ?thesis using file_dev.handler_law assms(4-13) by blast
qed

text \<open>Block 1 is overwritten, then both blocks are read back, over a session with both digests.\<close>

definition example_write_hdr :: "byte list" where
  "example_write_hdr = [1, 0xa0, 0, 0, 0, 0, 0x10, 0] @ replicate 8 0 @ [0, 0, 0, 7] @ [0, 0, 0x10, 0] @ replicate 8 0 @
     example_write_10"

definition example_read_hdr :: "byte list" where
  "example_read_hdr = [1, 0xc0] @ replicate 14 0 @ [0, 0, 0, 8] @ [0, 0, 0x20, 0] @ replicate 8 0 @
     [0x28, 0, 0, 0, 0, 0, 0, 0, 2, 0, 0, 0, 0, 0, 0, 0]"

definition example_ios :: "io list" where
  "example_ios = [Io_write example_write_hdr (replicate 4096 9), Io_read example_read_hdr]"

lemma example_hdrs:
  "length example_write_hdr = 48" "length example_read_hdr = 48" "example_write_hdr ! 0 = 1" "example_read_hdr ! 0 = 1"
  "example_write_hdr ! 4 = 0" "example_read_hdr ! 4 = 0" "datalen_of example_write_hdr = 4096" "datalen_of example_read_hdr = 0"
  "slice 32 16 example_write_hdr = example_write_10"
  "slice 32 16 example_read_hdr = [0x28, 0, 0, 0, 0, 0, 0, 0, 2, 0, 0, 0, 0, 0, 0, 0]"
  by code_simp+

lemma example_hdr_fields:
  "get_CDB (request example_write_hdr d) = example_write_10"
  "get_CDB (request example_read_hdr d) = [0x28, 0, 0, 0, 0, 0, 0, 0, 2, 0, 0, 0, 0, 0, 0, 0]"
  "get_opcode (request example_write_hdr d) = 1" "get_opcode (request example_read_hdr d) = 1"
  "get_ExpDatLen (request example_read_hdr d) = 8192"
proof -
  show "get_ExpDatLen (request example_read_hdr d) = 8192"
    by (simp add: get_ExpDatLen_def get32_def my_NTOHL_ld32 get_uint32_t_def example_read_hdr_def nth_append)
qed (simp_all add: get_CDB_def example_hdrs get_bits_def)

lemma example_ranges:
  "io_range (Io_write example_write_hdr d) = (1, 1)" "io_range (Io_read example_read_hdr) = (0, 2)"
  using example_lba_len
  by (simp_all add: example_hdr_fields Let_def example_write_10_def read_lba_len_def get_lba_len_def get_uint32_t_def)

lemma example_ios_ok: "list_all (io_ok 4096 8192 m) example_ios"
  by (simp add: example_ios_def io_ok_def io_pdu_def example_hdrs example_hdr_fields example_ranges io_wants_def
      example_write_10_def Let_def get_bits_def min_less_iff_disj del: io_range.simps)

theorem connection_is_disk_witness:
  "\<exists>sv' replies. handler 8192 file_ops 0 (example_server (concat (map (io_bytes example_session) example_ios))) = Inr sv' \<and>
    cc_tx (sv_cc sv') = concat replies \<and> io_trace True 4096 (bf_contents example_file) example_ios replies \<and>
    bf_contents (sc_b (sv_s sv')) = overwrite 4096 (replicate 4096 9) (bf_contents example_file)"
proof -
  let ?sv = "example_server (concat (map (io_bytes example_session) example_ios))"
  have len: "length (bf_contents example_file) = 8192" by (simp add: example_file_def)
  have "\<exists>sv' replies. handler 8192 file_ops 0 ?sv = Inr sv' \<and> cc_tx (sv_cc sv') = cc_tx (sv_cc ?sv) @ concat replies \<and>
      io_trace (get_header_digest example_session) 4096 (bf_contents example_file) example_ios replies \<and>
      bf_contents (sc_b (sv_s sv')) = fold (io_store 4096) example_ios (bf_contents example_file)"
    by (rule connection_is_disk [where m = "unat MAX_DATA_SEGMENT_SIZE"])
      (simp_all add: len example_ios_ok example_file_inv locking_status_def start_session_def MAX_DATA_SEGMENT_SIZE_def)
  then show ?thesis by (simp add: example_ios_def example_ranges del: io_range.simps)
qed

end
