(* ===== verification/Server_Session.thy ===== *)
theory Server_Session
  imports Server_Disk
begin

text \<open>
  Whole sessions: a connection begins with login requests, which settle digests and segment length, and goes on
  with requests to the disk under these terms.
\<close>

section \<open>The terms of a session\<close>

definition same_terms :: "session \<Rightarrow> session \<Rightarrow> bool" where
  "same_terms ses ses' \<longleftrightarrow> header_digest ses' = header_digest ses \<and> data_digest ses' = data_digest ses \<and>
     allow_digest ses' = allow_digest ses \<and> max_seg_len ses' = max_seg_len ses"

lemma same_terms_refl [simp]: "same_terms ses ses"
  by (simp add: same_terms_def)

lemma same_terms_trans: "same_terms a b \<Longrightarrow> same_terms b c \<Longrightarrow> same_terms a c"
  by (simp add: same_terms_def)

lemma same_terms_limits: "same_terms ses ses' \<Longrightarrow> same_limits ses ses'"
  by (simp add: same_terms_def same_limits_def get_header_digest_def get_data_digest_def)

lemma same_terms_upd [simp]:
  "same_terms ses (ses'\<lparr>bytes_rx := n\<rparr>) = same_terms ses ses'" "same_terms ses (add_bytes_rx k ses') = same_terms ses ses'"
  "same_terms ses (add_bytes_tx k ses') = same_terms ses ses'" "same_terms ses (reset_bytes_tx ses') = same_terms ses ses'"
  "same_terms ses (reset_bytes_rx ses') = same_terms ses ses'"
  by (simp_all add: same_terms_def add_bytes_rx_def add_bytes_tx_def reset_bytes_tx_def reset_bytes_rx_def)

text \<open>What a login request makes of the session depends on the terms so far only.\<close>

lemma login_kv_terms:
  assumes "login_kv kv (mb, ms, ini, ses) = Inr (mb', ms', ini', ses')" and "same_terms ses sesb"
  shows "\<exists>sesb'. login_kv kv (mb, ms, ini, sesb) = Inr (mb', ms', ini', sesb') \<and> same_terms ses' sesb'"
proof (cases "split_str kv ''=''")
  case None
  then show ?thesis using assms by (simp add: login_kv_def)
next
  case (Some parts)
  define k where "k = parts ! 0"
  have e: "login_kv kv (mb, ms, ini, s) =
      (if length parts < 2 then Inr (mb, ms, ini, s)
       else if k = ''MaxBurstLength'' \<or> k = ''FirstBurstLength'' then bindR (stoi (parts ! 1)) (\<lambda>v. Inr (min mb (of_int v), ms, ini, s))
       else if k = ''MaxRecvDataSegmentLength'' then bindR (stoi (parts ! 1)) (\<lambda>v. Inr (mb, min ms (of_int v), ini, s))
       else if k = ''InitiatorName'' then Inr (mb, ms, Some (parts ! 1), s)
       else if k = ''HeaderDigest'' then Inr (mb, ms, ini, s\<lparr>header_digest := has_CRC32C (parts ! 1)\<rparr>)
       else if k = ''DataDigest'' then Inr (mb, ms, ini, s\<lparr>data_digest := has_CRC32C (parts ! 1)\<rparr>)
       else Inr (mb, ms, ini, s))" for s
    by (simp add: login_kv_def Some k_def)
  show ?thesis using assms unfolding e
    by (cases "stoi (parts ! 1)") (auto simp: same_terms_def split: if_splits)
qed

lemma login_kvs_terms:
  "login_kvs kvs (mb, ms, ini, ses) = Inr (mb', ms', ini', ses') \<Longrightarrow> same_terms ses sesb \<Longrightarrow>
    \<exists>sesb'. login_kvs kvs (mb, ms, ini, sesb) = Inr (mb', ms', ini', sesb') \<and> same_terms ses' sesb'"
proof (induction kvs arbitrary: mb ms ini ses sesb)
  case (Cons kv kvs)
  then obtain mb1 ms1 ini1 ses1 where 1: "login_kv kv (mb, ms, ini, ses) = Inr (mb1, ms1, ini1, ses1)"
    "login_kvs kvs (mb1, ms1, ini1, ses1) = Inr (mb', ms', ini', ses')"
    by (cases "login_kv kv (mb, ms, ini, ses)") auto
  from login_kv_terms [OF 1(1) Cons.prems(2)] Cons.IH [OF 1(2)] show ?case by fastforce
qed auto

lemma login_set_data_terms:
  assumes "login_set_data d p ses = Inr (q, ini, ses')" and "same_terms ses sesb"
  shows "\<exists>sesb'. login_set_data d p sesb = Inr (q, ini, sesb') \<and> same_terms ses' sesb'"
proof (cases "bhs_set_data d p")
  case None
  then show ?thesis using assms by (simp add: login_set_data_def)
next
  case (Some p')
  have m: "max_seg_len sesb = max_seg_len ses" using assms(2) by (simp add: same_terms_def)
  obtain mb ms ses1 where l: "login_kvs (data_to_text_array d) (0xffffffff, max_seg_len ses, None, ses) = Inr (mb, ms, ini, ses1)"
    "q = Some p'" "ses' = (let ses = ses1\<lparr>max_seg_len := ms\<rparr> in if mb < 0xffffffff then ses\<lparr>ack_interval := Some mb\<rparr> else ses)"
    using assms(1) Some
    by (cases "login_kvs (data_to_text_array d) (0xffffffff, max_seg_len ses, None, ses)") (auto simp: login_set_data_def Let_def)
  obtain ses2 where "login_kvs (data_to_text_array d) (0xffffffff, max_seg_len ses, None, sesb) = Inr (mb, ms, ini, ses2)"
    "same_terms ses1 ses2" using login_kvs_terms [OF l(1) assms(2)] by blast
  then show ?thesis using l(2,3) Some by (simp add: login_set_data_def m same_terms_def Let_def)
qed

section \<open>Login requests\<close>

text \<open>
  A login request, header and data, as an initiator puts it on the connection: never with digests. \<open>negotiate\<close>
  is the session it leads to.
\<close>

definition is_login :: "byte list \<times> byte list \<Rightarrow> bool" where
  "is_login = (\<lambda>(h, d). length h = 48 \<and> get_opcode (request h d) = o_login_req \<and> get_ahs_length (request h d) = 0 \<and>
     get_data_length (request h d) = length d)"

definition login_bytes :: "byte list \<times> byte list \<Rightarrow> byte list" where
  "login_bytes = (\<lambda>(h, d). h @ padded d)"

definition negotiate :: "byte list \<times> byte list \<Rightarrow> session \<Rightarrow> session option" where
  "negotiate = (\<lambda>(h, d) ses. if d = [] then Some ses
     else (case login_set_data d (request h []) ses of Inr (_, _, ses) \<Rightarrow> Some ses | Inl _ \<Rightarrow> None))"

lemma receive_login:
  assumes "start_session ops sv = sesb" and "same_terms ses sesb" and "is_login (h, d)" and "negotiate (h, d) ses = Some ses1"
    and "cc_rx (sv_cc sv) = login_bytes (h, d) @ rest"
  shows "\<exists>t sv' ses'. receive_pdu ops sv = Inr (Some (request h d), IFR_OK, t, sv') \<and> sv_cc sv' = (sv_cc sv)\<lparr>cc_rx := rest\<rparr> \<and>
    sv_ses sv' = Some ses' \<and> same_terms ses1 ses' \<and> sv_s sv' = snd (sc_micros (sv_s sv))"
proof -
  note l = assms(3) [unfolded is_login_def prod.case]
  have recv: "cc_recv 48 (sv_cc sv) = (Some h, (sv_cc sv)\<lparr>cc_rx := padded d @ rest\<rparr>)"
    using l assms(5) by (intro cc_recv_append) (simp_all add: login_bytes_def)
  have bs: "bhs_set h pdu_new = Some (request h [])" using l by (simp add: bhs_set_def pdu_new_def request_def)
  obtain t s where t: "sc_micros (sv_s sv) = (t, s)" by (cases "sc_micros (sv_s sv)")
  define is1 where "is1 = (let is = count_rx 48 (sv_is sv) in is\<lparr>iscsiTgtLoginAccepts := iscsiTgtLoginAccepts is + 1\<rparr>)"
  define r where "r = \<lparr>rx_pdu = request h [], rx_ok = True, rx_err = IFR_OK, rx_ses = add_bytes_rx 48 sesb,
    rx_cc = (sv_cc sv)\<lparr>cc_rx := padded d @ rest\<rparr>, rx_is = is1\<rparr>"
  have body: "receive_pdu ops sv = bindR (rx_data (digest_chk sv) False r) (\<lambda>r. Inr (if rx_ok r then Some (rx_pdu r) else None,
      rx_err r, t, sv\<lparr>sv_s := s, sv_ses := Some (rx_ses r), sv_cc := rx_cc r, sv_is := rx_is r\<rparr>))"
    using l unfolding receive_pdu_def assms(1) Let_def recv option.case prod.case t bs
    by (simp add: receive_body_def rx_ahs_def known_opcodes_def Let_def r_def is1_def)
  show ?thesis
  proof (cases "d = []")
    case True
    then have "rx_data (digest_chk sv) False r = Inr r" using l by (simp add: rx_data_def r_def MAX_DATA_SEGMENT_SIZE_def)
    moreover have "padded d = []" using True by (simp add: padded_def)
    ultimately show ?thesis using True assms(2,4) t by (simp add: body) (simp add: r_def negotiate_def)
  next
    case False
    have n: "\<not> length d > unat MAX_DATA_SEGMENT_SIZE" "\<not> length d > 16777215"
      using get_data_length_lt [of "request h d"] l by (simp_all add: MAX_DATA_SEGMENT_SIZE_def)
    have rcv: "cc_recv (pad4 (length d)) (rx_cc r) = (Some (padded d), (rx_cc r)\<lparr>cc_rx := rest\<rparr>)"
      by (rule cc_recv_append) (simp_all add: r_def length_padded)
    have take: "take (length d) (padded d) = d" by (simp add: padded_def)
    obtain q ini where set: "login_set_data d (request h []) ses = Inr (q, ini, ses1)"
      using assms(4) False by (auto simp: negotiate_def split: sum.splits)
    have q: "q = Some (request h d)"
      using set n False by (auto simp: login_set_data_def bhs_set_data_def request_def bindR_def Let_def split: sum.splits if_splits)
    obtain ses2 where s2: "login_set_data d (request h []) (add_bytes_rx 48 sesb) = Inr (Some (request h d), ini, ses2)"
      "same_terms ses1 ses2"
      using login_set_data_terms [OF set, of "add_bytes_rx 48 sesb"] assms(2) q by auto
    have "rx_data (digest_chk sv) False r = Inr (r\<lparr>rx_cc := (rx_cc r)\<lparr>cc_rx := rest\<rparr>, rx_pdu := request h d,
        rx_ses := add_bytes_rx (pad4 (length d)) ses2, rx_is := count_rx (pad4 (length d)) (rx_is r)\<rparr>)"
      using l n False s2(1) rcv take by (simp add: rx_data_def pdu_set_data_def r_def Let_def)
    then show ?thesis using s2(2) t by (simp add: body) (simp add: r_def)
  qed
qed

section \<open>The answer to a login request\<close>

text \<open>
  One PDU with the task tag of the request and the keys of the reply as text; in the last phase there is none
  when no random number can be had for the session.
\<close>

definition login_answered :: "session \<Rightarrow> byte list \<times> byte list \<Rightarrow> byte list list \<Rightarrow> bool" where
  "login_answered ses = (\<lambda>(h, d) blobs. get_NSG (request h d) = 3 \<and> blobs = [] \<or>
     (\<exists>blob t. blobs = [blob] \<and> read_pdu False blob = (o_login_resp, get_Itasktag bhs_l (request h d), t) \<and>
        data_to_text_array t = login_reply_kvs ses (request h d)))"

lemma login_reply_kvs_terms: "same_terms ses ses' \<Longrightarrow> login_reply_kvs ses' p = login_reply_kvs ses p"
  by (simp add: login_reply_kvs_def same_terms_def get_header_digest_def get_data_digest_def)

lemma my_getrandom_quiet: "quiet (snd (my_getrandom n e)) = quiet e"
  by (simp add: my_getrandom_def quiet_def)

lemma random_tsih_quiet: "quiet (snd (random_tsih n v e)) = quiet e"
proof (induction n arbitrary: v e)
  case (Suc n)
  obtain b e' where "my_getrandom 2 e = (b, e')" by fastforce
  then show ?case using Suc my_getrandom_quiet [of 2 e] by (cases b) simp_all
qed simp

lemma login_reply_set_law:
  obtains r e' where "login_reply_set ses p e = (r, e')" "quiet e' = quiet e" "r = None \<Longrightarrow> get_NSG p = 3"
    "\<And>x. r = Some x \<Longrightarrow> reply_data x = take (snd (text_array_to_data (login_reply_kvs ses p))) (fst (text_array_to_data (login_reply_kvs ses p)))"
proof -
  obtain tsih e' where t: "(if get_NSG p = 3 then random_tsih (length (entropy e) + 2) 0 e else (Some 0, e)) = (tsih, e')"
    by fastforce
  have q: "quiet e' = quiet e" using t random_tsih_quiet [of "length (entropy e) + 2" 0 e] by (auto split: if_splits)
  have n: "tsih = None \<Longrightarrow> get_NSG p = 3" using t by (auto split: if_splits)
  obtain buf n where b: "text_array_to_data (login_reply_kvs ses p) = (buf, n)" by fastforce
  have e: "\<exists>x. login_reply_set ses p e = (x, e') \<and> (x = None \<longleftrightarrow> tsih = None) \<and> (\<forall>y. x = Some y \<longrightarrow> reply_data y = take n buf)"
    unfolding login_reply_set_def Let_def b t prod.case by (cases tsih) simp_all
  then show ?thesis using that q n b by auto
qed

lemma login_reply_text:
  "reply_data x = take (snd (text_array_to_data (login_reply_kvs ses p))) (fst (text_array_to_data (login_reply_kvs ses p))) \<Longrightarrow>
    data_to_text_array (reply_data x) = login_reply_kvs ses p"
proof -
  have "CHR 0x00 \<notin> set kv" if "kv \<in> set (login_reply_kvs ses p)" for kv
    using that by (auto simp: login_reply_kvs_def split: if_splits)
  from text_array_roundtrip [OF this surjective_pairing] show
    "reply_data x = take (snd (text_array_to_data (login_reply_kvs ses p))) (fst (text_array_to_data (login_reply_kvs ses p))) \<Longrightarrow>
      data_to_text_array (reply_data x) = login_reply_kvs ses p" by simp
qed

lemma push_login:
  assumes "get_opcode (request h d) = o_login_req" and "cc_send_ok (sv_cc sv) = []" and "usable dinv tid (sv_s sv)"
  shows "\<exists>sv' ses' blobs. push_response fuel ops tid ses (request h d) sv = Inr (IFR_OK, sv') \<and> sv_ses sv' = Some ses' \<and>
    same_terms ses ses' \<and> usable dinv tid (sv_s sv') \<and> sc_b (sv_s sv') = sc_b (sv_s sv) \<and> cc_send_ok (sv_cc sv') = [] \<and>
    cc_tx (sv_cc sv') = cc_tx (sv_cc sv) @ blobs \<and> login_answered ses (h, d) blobs"
proof -
  let ?p = "request h d"
  obtain r e' where r: "login_reply_set ses ?p (sc_env (sv_s sv)) = (r, e')" "quiet e' = quiet (sc_env (sv_s sv))"
    "r = None \<Longrightarrow> get_NSG ?p = 3"
    "\<And>x. r = Some x \<Longrightarrow> reply_data x = take (snd (text_array_to_data (login_reply_kvs ses ?p))) (fst (text_array_to_data (login_reply_kvs ses ?p)))"
    using login_reply_set_law [of ses ?p "sc_env (sv_s sv)"] by metis
  define s' where "s' = (sv_s sv)\<lparr>sc_env := e'\<rparr>"
  have s': "usable dinv tid s'" "sc_b s' = sc_b (sv_s sv)"
    using assms(3) r(2) by (simp_all add: s'_def usable_def locking_status_def)
  have g: "get_response ops tid ?p ses (sv_s sv) = Inr (map_option one_reply r, ses, s')"
    using assms(1) by (cases r) (simp_all add: get_response_def login_get_response_def r(1) s'_def)
  show ?thesis
  proof (cases r)
    case None
    then have "push_response fuel ops tid ses ?p sv = Inr (IFR_OK, sv\<lparr>sv_s := s', sv_ses := Some ses\<rparr>)"
      using assms(1) g by (simp add: push_response_def)
    then show ?thesis using None r(3) s' assms(2) by (simp add: login_answered_def)
  next
    case (Some x)
    have "fst (login_reply_set ses ?p (sc_env (sv_s sv))) = Some x" by (simp add: r(1) Some)
    from login_class.on_wire [OF this, of ses] obtain blob where b: "reply_get x ses = Inr ([blob], ses)"
      "read_pdu False blob = (0x23, ld32 16 (pdu_bytes ?p), reply_data x)" by auto
    obtain "is" where p: "push_response fuel ops tid ses ?p sv = Inr (IFR_OK, sv\<lparr>sv_s := s', sv_ses := Some (add_bytes_tx (length blob) ses),
      sv_cc := (sv_cc sv)\<lparr>cc_tx := cc_tx (sv_cc sv) @ [blob]\<rparr>, sv_is := is\<rparr>)"
      using push_response_one [OF _ _ b(1) assms(2), of ?p ops tid ses s' fuel] g assms(1) Some by auto
    have "login_answered ses (h, d) [blob]"
      using b(2) login_reply_text [OF r(4) [OF Some]] by (simp add: login_answered_def get_Itasktag_def get32_def)
    then show ?thesis unfolding p using s' assms(2) by simp
  qed
qed

section \<open>The login phase\<close>

definition ready_terms :: "'b backend_ops \<Rightarrow> ('b \<Rightarrow> bool) \<Rightarrow> nat \<Rightarrow> session \<Rightarrow> 'b handler_st \<Rightarrow> bool" where
  "ready_terms ops dinv tid ses h \<longleftrightarrow> usable dinv tid (sv_s (h_sv h)) \<and> cc_send_ok (sv_cc (h_sv h)) = [] \<and> h_ok h \<and>
     same_terms ses (start_session ops (h_sv h))"

lemma ready_terms_ready: "ready_terms ops dinv tid ses h \<Longrightarrow> ready ops dinv tid ses h"
  by (simp add: ready_terms_def ready_def same_terms_limits)

lemma handler_clock_terms: "rel_option same_terms (sv_ses (h_sv h)) (sv_ses (h_sv (handler_clock t h)))"
proof -
  have r: "rel_option same_terms x x" "rel_option same_terms x (map_option (\<lambda>ses. reset_bytes_tx (reset_bytes_rx ses)) x)" for x
    by (cases x; simp)+
  show ?thesis by (simp add: handler_clock_def Let_def case_prod_beta r)
qed

lemma login_round:
  assumes "ready_terms ops dinv tid ses h" and "is_login l" and "negotiate l ses = Some ses1"
    and "cc_rx (sv_cc (h_sv h)) = login_bytes l @ rest"
  shows "\<exists>h' blobs. handler_round fuel ops tid h = Inr h' \<and> ready_terms ops dinv tid ses1 h' \<and> cc_rx (sv_cc (h_sv h')) = rest \<and>
    cc_tx (sv_cc (h_sv h')) = cc_tx (sv_cc (h_sv h)) @ blobs \<and> sc_b (sv_s (h_sv h')) = sc_b (sv_s (h_sv h)) \<and>
    login_answered ses1 l blobs"
proof -
  obtain hd d where l: "l = (hd, d)" by fastforce
  note lo = assms(2) [unfolded l is_login_def prod.case]
  note rd = assms(1) [unfolded ready_terms_def]
  obtain t sv ses2 where rx: "receive_pdu ops (h_sv h) = Inr (Some (request hd d), IFR_OK, t, sv)"
    "sv_cc sv = (sv_cc (h_sv h))\<lparr>cc_rx := rest\<rparr>" "sv_ses sv = Some ses2" "same_terms ses1 ses2"
    "sv_s sv = snd (sc_micros (sv_s (h_sv h)))"
    using receive_login [OF refl _ assms(2) [unfolded l] assms(3) [unfolded l] assms(4) [unfolded l]] rd by blast
  define sv1 where "sv1 = sv\<lparr>sv_is := (sv_is sv)\<lparr>iscsiSsnCmdPDUs := iscsiSsnCmdPDUs (sv_is sv) + 1\<rparr>\<rparr>"
  have sv1: "sv_s sv1 = sv_s sv" "sv_cc sv1 = sv_cc sv" by (simp_all add: sv1_def)
  have us: "usable dinv tid (sv_s sv1)" "sc_b (sv_s sv1) = sc_b (sv_s (h_sv h))" "cc_send_ok (sv_cc sv1) = []"
    using rd sc_micros_keeps [OF surjective_pairing, of "sv_s (h_sv h)"] usable_cfg by (auto simp: sv1 rx(2,5))
  obtain sv' ses3 blobs where p: "push_response fuel ops tid ses2 (request hd d) sv1 = Inr (IFR_OK, sv')" "sv_ses sv' = Some ses3"
    "same_terms ses2 ses3" "usable dinv tid (sv_s sv')" "sc_b (sv_s sv') = sc_b (sv_s sv1)" "cc_send_ok (sv_cc sv') = []"
    "cc_tx (sv_cc sv') = cc_tx (sv_cc sv1) @ blobs" "login_answered ses2 (hd, d) blobs"
    using push_login [OF _ us(3,1)] lo by blast
  define h' where "h' = handler_clock t (h\<lparr>h_sv := sv', h_fail_counter := 0\<rparr>)"
  have round: "handler_round fuel ops tid h = Inr h'"
    using p(1) rx(3) by (simp add: handler_round_def rx(1) Let_def handler_errors_def h'_def sv1_def)
  have k: "h_ok h' = h_ok h" "settled sv' (h_sv h')" "rel_option same_terms (sv_ses sv') (sv_ses (h_sv h'))"
    using handler_clock_keeps [of t "h\<lparr>h_sv := sv', h_fail_counter := 0\<rparr>"]
      handler_clock_terms [of "h\<lparr>h_sv := sv', h_fail_counter := 0\<rparr>" t] by (simp_all add: h'_def)
  obtain ses4 where s4: "sv_ses (h_sv h') = Some ses4" "same_terms ses3 ses4" using k(3) p(2) by (auto simp: option_rel_Some1)
  have "same_terms ses1 ses4" using same_terms_trans rx(4) p(3) s4(2) by blast
  then have "ready_terms ops dinv tid ses1 h'"
    using k(1,2) p(4,6) s4(1) rd usable_cfg by (auto simp: ready_terms_def settled_def start_session_def)
  moreover have "cc_rx (sv_cc sv') = rest" using rx_push_response [OF p(1)] by (simp add: sv1 rx(2))
  moreover have "login_answered ses1 l blobs"
    using p(8) login_reply_kvs_terms [OF rx(4)] by (simp add: l login_answered_def)
  ultimately show ?thesis using round k(2) p(5,7) us(2) by (auto simp: settled_def sv1 rx(2))
qed

text \<open>Several login requests, as of an initiator that negotiates in steps.\<close>

fun negotiate_all :: "(byte list \<times> byte list) list \<Rightarrow> session \<Rightarrow> session option" where
  "negotiate_all [] ses = Some ses"
| "negotiate_all (l # ls) ses = (case negotiate l ses of None \<Rightarrow> None | Some ses \<Rightarrow> negotiate_all ls ses)"

fun logins_answered :: "session \<Rightarrow> (byte list \<times> byte list) list \<Rightarrow> byte list list list \<Rightarrow> bool" where
  "logins_answered ses [] replies \<longleftrightarrow> replies = []"
| "logins_answered ses (l # ls) [] \<longleftrightarrow> False"
| "logins_answered ses (l # ls) (blobs # replies) \<longleftrightarrow>
     (case negotiate l ses of None \<Rightarrow> False | Some ses \<Rightarrow> login_answered ses l blobs \<and> logins_answered ses ls replies)"

lemma login_rounds:
  assumes "ready_terms ops dinv tid ses h" and "list_all is_login ls" and "negotiate_all ls ses = Some ses1"
    and "cc_rx (sv_cc (h_sv h)) = concat (map login_bytes ls) @ rest"
  shows "\<exists>h' replies. (\<forall>k. handler_loop fuel ops tid (length ls + k) h = handler_loop fuel ops tid k h') \<and>
    ready_terms ops dinv tid ses1 h' \<and> cc_rx (sv_cc (h_sv h')) = rest \<and>
    cc_tx (sv_cc (h_sv h')) = cc_tx (sv_cc (h_sv h)) @ concat replies \<and> sc_b (sv_s (h_sv h')) = sc_b (sv_s (h_sv h)) \<and>
    logins_answered ses ls replies"
  using assms
proof (induction ls arbitrary: h ses)
  case Nil
  then show ?case by (intro exI [of _ h] exI [of _ "[]"]) simp
next
  case (Cons l ls)
  obtain ses2 where s2: "negotiate l ses = Some ses2" "negotiate_all ls ses2 = Some ses1"
    using Cons.prems(3) by (auto split: option.splits)
  obtain h1 blobs where h1: "handler_round fuel ops tid h = Inr h1" "ready_terms ops dinv tid ses2 h1"
    "cc_rx (sv_cc (h_sv h1)) = concat (map login_bytes ls) @ rest"
    "cc_tx (sv_cc (h_sv h1)) = cc_tx (sv_cc (h_sv h)) @ blobs" "sc_b (sv_s (h_sv h1)) = sc_b (sv_s (h_sv h))"
    "login_answered ses2 l blobs"
    using login_round [OF Cons.prems(1) _ s2(1), of "concat (map login_bytes ls) @ rest" fuel] Cons.prems(2,4) by auto
  obtain h' replies where h': "\<forall>k. handler_loop fuel ops tid (length ls + k) h1 = handler_loop fuel ops tid k h'"
    "ready_terms ops dinv tid ses1 h'" "cc_rx (sv_cc (h_sv h')) = rest"
    "cc_tx (sv_cc (h_sv h')) = cc_tx (sv_cc (h_sv h1)) @ concat replies" "sc_b (sv_s (h_sv h')) = sc_b (sv_s (h_sv h1))"
    "logins_answered ses2 ls replies"
    using Cons.IH [OF h1(2) _ s2(2) h1(3)] Cons.prems(2) by auto
  have "h_ok h1" using h1(2) by (simp add: ready_terms_def)
  then show ?case using h' h1 s2(1) by (intro exI [of _ h'] exI [of _ "blobs # replies"]) simp
qed

section \<open>Sessions\<close>

text \<open>
  What an initiator puts on a connection: login requests, then requests under the terms they settle. \<open>chk\<close> is the
  server's option to use digests.
\<close>

type_synonym initiator_session = "(byte list \<times> byte list) list \<times> io list"

definition session_terms :: "bool \<Rightarrow> initiator_session \<Rightarrow> session option" where
  "session_terms chk x = negotiate_all (fst x) (session_new [] [] [] chk)"

definition session_bytes :: "bool \<Rightarrow> initiator_session \<Rightarrow> byte list" where
  "session_bytes chk x = concat (map login_bytes (fst x)) @
     (case session_terms chk x of None \<Rightarrow> [] | Some ses \<Rightarrow> concat (map (io_bytes ses) (snd x)))"

text \<open>
  A session within the contract, on a disk of \<open>l\<close> bytes: the login requests are understood, the settled segment
  length is a multiple of the block size, and so are the requests.
\<close>

definition session_ok :: "nat \<Rightarrow> nat \<Rightarrow> bool \<Rightarrow> initiator_session \<Rightarrow> bool" where
  "session_ok bsz l chk x \<longleftrightarrow> list_all is_login (fst x) \<and>
     (case session_terms chk x of None \<Rightarrow> False
      | Some ses \<Rightarrow> let m = unat (max_seg_len ses)
          in 0 < m \<and> m \<le> unat MAX_DATA_SEGMENT_SIZE \<and> bsz dvd m \<and> list_all (io_ok bsz l m) (snd x))"

definition session_answered :: "bool \<Rightarrow> nat \<Rightarrow> byte list \<Rightarrow> initiator_session \<Rightarrow> byte list list \<Rightarrow> bool" where
  "session_answered chk bsz bytes x pdus \<longleftrightarrow>
     (\<exists>ses logins replies. session_terms chk x = Some ses \<and> pdus = concat logins @ concat replies \<and>
        logins_answered (session_new [] [] [] chk) (fst x) logins \<and> io_trace (get_header_digest ses) bsz bytes (snd x) replies)"

lemma session_new_terms:
  "sv_ses sv = None \<Longrightarrow> same_terms (session_new [] [] [] (digest_chk sv)) (start_session ops sv)"
  by (simp add: start_session_def same_terms_def session_new_def set_block_size_def)

context block_storage
begin

lemma session_law:
  assumes "usable inv tid (sv_s sv)" and "cc_send_ok (sv_cc sv) = []" and "sv_ses sv = None" and "4 dvd bsz"
    and "2 ^ 24 \<le> lim * bsz" and "bytes = disk (sc_b (sv_s sv))" and "length bytes \<le> fuel"
    and "session_ok bsz (length bytes) (digest_chk sv) x" and "cc_rx (sv_cc sv) = session_bytes (digest_chk sv) x"
  shows "\<exists>sv' pdus. handler fuel ops tid sv = Inr sv' \<and> cc_tx (sv_cc sv') = cc_tx (sv_cc sv) @ pdus \<and>
    session_answered (digest_chk sv) bsz bytes x pdus \<and> disk (sc_b (sv_s sv')) = fold (io_store bsz) (snd x) bytes \<and>
    usable inv tid (sv_s sv') \<and> sv_ses sv' = None"
proof -
  obtain ses where ses: "session_terms (digest_chk sv) x = Some ses"
    using assms(8) by (auto simp: session_ok_def split: option.splits)
  define m where "m = unat (max_seg_len ses)"
  have ok: "list_all is_login (fst x)" "0 < m" "m \<le> unat MAX_DATA_SEGMENT_SIZE" "bsz dvd m" "list_all (io_ok bsz (length bytes) m) (snd x)"
    using assms(8) by (simp_all add: session_ok_def ses m_def Let_def)
  define h where "h = \<lparr>h_sv = sv\<lparr>sv_s := snd (get_millis (sv_s sv))\<rparr>, h_ok = True, h_fail_counter = 0, h_busy = 0,
      h_prev_output = fst (get_millis (sv_s sv))\<rparr>"
  note s = get_millis_keeps [OF surjective_pairing, of "sv_s sv"]
  have "ready_terms ops inv tid (session_new [] [] [] (digest_chk sv)) h"
    using assms(1-3) s usable_cfg session_new_terms [of "h_sv h" ops] by (auto simp: ready_terms_def h_def)
  moreover have "cc_rx (sv_cc (h_sv h)) = concat (map login_bytes (fst x)) @ concat (map (io_bytes ses) (snd x))"
    using assms(9) by (simp add: h_def session_bytes_def ses)
  ultimately obtain h0 logins where h0: "\<forall>k. handler_loop fuel ops tid (length (fst x) + k) h = handler_loop fuel ops tid k h0"
    "ready_terms ops inv tid ses h0" "cc_rx (sv_cc (h_sv h0)) = concat (map (io_bytes ses) (snd x))"
    "cc_tx (sv_cc (h_sv h0)) = cc_tx (sv_cc (h_sv h)) @ concat logins" "sc_b (sv_s (h_sv h0)) = sc_b (sv_s (h_sv h))"
    "logins_answered (session_new [] [] [] (digest_chk sv)) (fst x) logins"
    using login_rounds [OF _ ok(1) ses [unfolded session_terms_def]] by blast
  have d: "bytes = disk (sc_b (sv_s (h_sv h0)))" using h0(5) s assms(6) by (simp add: h_def)
  obtain sv' replies where r: "handler fuel ops tid sv = Inr sv'" "cc_tx (sv_cc sv') = cc_tx (sv_cc (h_sv h0)) @ concat replies"
    "io_trace (get_header_digest ses) bsz bytes (snd x) replies" "disk (sc_b (sv_s sv')) = fold (io_store bsz) (snd x) bytes"
    "usable inv tid (sv_s sv')" "sv_ses sv' = None"
    using handler_served [OF h_def h0(1) [rule_format] ready_terms_ready [OF h0(2)] m_def ok(2-4) assms(4,5) d assms(7) ok(5) h0(3)]
    by blast
  have "cc_tx (sv_cc sv') = cc_tx (sv_cc sv) @ (concat logins @ concat replies)"
    using r(2) h0(4) by (simp add: h_def)
  then show ?thesis using r h0(6) ses by (intro exI [of _ sv'] exI [of _ "concat logins @ concat replies"]) (auto simp: session_answered_def)
qed

end


text \<open>Both digests and segments of 8192 bytes are asked for; then a block is overwritten and read back.\<close>

definition example_login :: "byte list \<times> byte list" where
  "example_login = ([0x43, 0x87, 0, 0, 0, 0, 0, 68, 0x40, 0, 1, 0x37, 0, 0, 0, 0, 0, 0, 0, 1] @ replicate 28 0,
     text_segment [''HeaderDigest=CRC32C'', ''DataDigest=CRC32C'', ''MaxRecvDataSegmentLength=8192''])"

lemma example_login_is: "is_login example_login"
  by code_simp

lemma example_login_keys:
  "split_str ''HeaderDigest=CRC32C'' ''='' = Some [''HeaderDigest'', ''CRC32C'']"
  "split_str ''DataDigest=CRC32C'' ''='' = Some [''DataDigest'', ''CRC32C'']"
  "split_str ''MaxRecvDataSegmentLength=8192'' ''='' = Some [''MaxRecvDataSegmentLength'', ''8192'']"
  "has_CRC32C ''CRC32C''"
  by (simp_all add: has_CRC32C_def split_str_def split_loop.simps)

lemma example_login_number: "stoi ''8192'' = Inr 8192"
  by code_simp

lemma example_login_text:
  "data_to_text_array (snd example_login) = [''HeaderDigest=CRC32C'', ''DataDigest=CRC32C'', ''MaxRecvDataSegmentLength=8192'']"
  by code_simp

lemma example_login_terms:
  obtains ses where "negotiate example_login (session_new [] [] [] chk) = Some ses" "max_seg_len ses = 8192"
proof -
  obtain p where p: "bhs_set_data (snd example_login) (request (fst example_login) []) = Some p"
    by (simp add: bhs_set_data_def example_login_def text_segment_def)
  have "login_kvs (data_to_text_array (snd example_login)) (0xffffffff, max_seg_len (session_new [] [] [] chk), None, session_new [] [] [] chk) =
      Inr (0xffffffff, 8192, None, (session_new [] [] [] chk)\<lparr>header_digest := True, data_digest := True\<rparr>)"
    unfolding example_login_text
    by (simp add: login_kv_def example_login_keys example_login_number session_new_def MAX_DATA_SEGMENT_SIZE_def)
  then have "login_set_data (snd example_login) (request (fst example_login) []) (session_new [] [] [] chk) =
      Inr (Some p, None, (session_new [] [] [] chk)\<lparr>header_digest := True, data_digest := True, max_seg_len := 8192\<rparr>)"
    by (simp add: login_set_data_def p)
  moreover have "snd example_login \<noteq> []" by (simp add: example_login_def text_segment_def)
  ultimately show ?thesis by (intro that) (auto simp: negotiate_def case_prod_beta)
qed


end
