(* ===== verification/Backend_Teensy.thy ===== *)
theory Backend_Teensy
  imports Backend_Sdcard
begin

text \<open>
  The SD-card backend of the Teensy 4.1 (\<^verbatim>\<open>microcontrollers/backend-sdcard-teensy41.cpp\<close>). It keeps what the
  backend of the ESP32 boards keeps and calls the same library for the file, so state, library and
  the hypothesis \<open>sd_serves\<close> of \<open>Backend_Sdcard\<close> serve here too; only the card is started through another
  bus. The LEDs are part of the state. Cache maintenance for DMA and printed messages are left out.
\<close>

section \<open>State and operations\<close>

record 'w teensy41 =
  te_card :: "'w backend_sdcard"
  te_led_read :: bool
  te_led_write :: bool

definition teensy_new :: "string \<Rightarrow> 'w \<Rightarrow> env \<Rightarrow> 'w teensy41 \<times> env" where
  "teensy_new disk_name w e = (case sdcard_new disk_name None w e of (b, e) \<Rightarrow>
     (\<lparr>te_card = b, te_led_read = False, te_led_write = False\<rparr>, e))"

definition leds_off :: "'w teensy41 \<Rightarrow> 'w teensy41" where
  "leds_off t = t\<lparr>te_led_read := False, te_led_write := False\<rparr>"

text \<open>\<open>sdio\<close> starts the card on its bus.\<close>

definition teensy_begin :: "('w \<Rightarrow> bool \<times> 'w) \<Rightarrow> 'w sd_lib \<Rightarrow> 'w teensy41 \<Rightarrow> bool \<times> 'w teensy41" where
  "teensy_begin sdio lib t =
     (let t = t\<lparr>te_led_read := True, te_led_write := True\<rparr>;
          b = te_card t;
          (ok, w) = sdio (sd_world b)
      in if \<not> ok then (False, leds_off (t\<lparr>te_card := b\<lparr>sd_world := w\<rparr>\<rparr>))
         else case fs_open lib (sd_disk_name b) w of (ok, w) \<Rightarrow>
           if \<not> ok then (False, leds_off (t\<lparr>te_card := b\<lparr>sd_world := w\<rparr>\<rparr>))
           else (True, leds_off (t\<lparr>te_card := b\<lparr>sd_world := w, sd_card_size := fs_fileSize lib w\<rparr>\<rparr>)))"

definition teensy_delete :: "'w sd_lib \<Rightarrow> 'w teensy41 \<Rightarrow> 'w" where
  "teensy_delete lib t = sd_end lib (fs_close lib (sd_world (te_card t)))"

definition teensy_get_block_size :: "'w teensy41 \<Rightarrow> u64" where
  "teensy_get_block_size t = 512"

definition teensy_get_size_in_blocks :: "'w teensy41 \<Rightarrow> u64" where
  "teensy_get_size_in_blocks t = sd_card_size (te_card t) div teensy_get_block_size t"

text \<open>
  The condition before the last \<open>write_led\<close> is a second call of \<open>sync\<close>: the LED is switched off only when
  that fails.
\<close>

definition teensy_sync :: "'w sd_lib \<Rightarrow> 'w teensy41 \<times> env \<Rightarrow> (bool \<times> 'w teensy41 \<times> env) result" where
  "teensy_sync lib = (\<lambda>(t, e).
     let t = t\<lparr>te_led_write := True\<rparr>;
         b = te_card t;
         (start, e) = get_micros e;
         (_, w) = fs_sync lib (sd_world b);
         (end_ts, e) = get_micros e;
         (again, w) = fs_sync lib w;
         t = (if \<not> again then t\<lparr>te_led_write := False\<rparr> else t);
         bs = add_io_wait start end_ts (sd_bs b)
     in Inr (True, t\<lparr>te_card := b\<lparr>sd_world := w, sd_bs := bs, sd_ts_last_acces := end_ts\<rparr>\<rparr>, e))"

definition teensy_write :: "nat \<Rightarrow> 'w sd_lib \<Rightarrow> u64 \<Rightarrow> u32 \<Rightarrow> byte list \<Rightarrow> 'w teensy41 \<times> env
    \<Rightarrow> (bool \<times> 'w teensy41 \<times> env) result" where
  "teensy_write fuel lib block_nr n_blocks data = (\<lambda>(t, e).
     let t = t\<lparr>te_led_write := True\<rparr>;
         b = te_card t;
         iscsi_block_size = teensy_get_block_size t;
         byte_address = block_nr * iscsi_block_size;
         (start, e) = get_micros e;
         (ok, w) = fs_seekSet lib byte_address (sd_world b)
     in if \<not> ok then Inr (False, t\<lparr>te_card := b\<lparr>sd_world := w\<rparr>, te_led_write := False\<rparr>, e)
        else
          let n_bytes_to_write = (ucast (ucast n_blocks * iscsi_block_size) :: u32);
              bs = (sd_bs b)\<lparr>bs_bytes_written := bs_bytes_written (sd_bs b) + ucast n_bytes_to_write\<rparr>
          in bindR (wait_for_card fuel lib w) (\<lambda>w.
             if length data < unat n_bytes_to_write then Inl Mem_oob
             else
               let (bytes_written, w) = fs_write lib (take (unat n_bytes_to_write) data) w;
                   rc = (bytes_written = unat n_bytes_to_write);
                   t = t\<lparr>te_led_write := False\<rparr>;
                   (end_ts, e) = get_micros e;
                   bs = add_io_wait start end_ts bs;
                   bs = bs\<lparr>bs_n_writes := bs_n_writes bs + 1\<rparr>
               in Inr (rc, t\<lparr>te_card := b\<lparr>sd_world := w, sd_bs := bs, sd_ts_last_acces := end_ts\<rparr>\<rparr>, e)))"

fun teensy_trim_loop :: "nat \<Rightarrow> 'w sd_lib \<Rightarrow> u64 \<Rightarrow> nat \<Rightarrow> byte list \<Rightarrow> 'w teensy41 \<times> env
    \<Rightarrow> (bool \<times> 'w teensy41 \<times> env) result" where
  "teensy_trim_loop fuel lib nr 0 data st = Inr (True, st)"
| "teensy_trim_loop fuel lib nr (Suc left) data st =
     bindR (teensy_write fuel lib nr 1 data st) (\<lambda>(ok, st).
     if \<not> ok then Inr (False, st) else teensy_trim_loop fuel lib (nr + 1) left data st)"

text \<open>The time is added here once more, although \<open>write\<close> has counted it for every block.\<close>

definition teensy_trim :: "nat \<Rightarrow> 'w sd_lib \<Rightarrow> u64 \<Rightarrow> u32 \<Rightarrow> 'w teensy41 \<times> env \<Rightarrow> (bool \<times> 'w teensy41 \<times> env) result" where
  "teensy_trim fuel lib block_nr n_blocks = (\<lambda>(t, e).
     let data = replicate (unat (teensy_get_block_size t)) 0;
         (start, e) = get_micros e
     in bindR (teensy_trim_loop fuel lib block_nr (unat n_blocks) data (t, e)) (\<lambda>(rc, t, e).
        let (end_ts, e) = get_micros e;
            b = te_card t
        in Inr (rc, t\<lparr>te_card := b\<lparr>sd_bs := add_io_wait start end_ts (sd_bs b), sd_ts_last_acces := end_ts\<rparr>\<rparr>, e)))"

definition teensy_read :: "'w sd_lib \<Rightarrow> u64 \<Rightarrow> u32 \<Rightarrow> byte list \<Rightarrow> 'w teensy41 \<times> env
    \<Rightarrow> (bool \<times> byte list \<times> 'w teensy41 \<times> env) result" where
  "teensy_read lib block_nr n_blocks data = (\<lambda>(t, e).
     let t = t\<lparr>te_led_read := True\<rparr>;
         b = te_card t;
         iscsi_block_size = teensy_get_block_size t;
         byte_address = block_nr * iscsi_block_size;
         (start, e) = get_micros e;
         (ok, w) = fs_seekSet lib byte_address (sd_world b)
     in if \<not> ok then Inr (False, data, t\<lparr>te_card := b\<lparr>sd_world := w\<rparr>, te_led_read := False\<rparr>, e)
        else
          let n_bytes_to_read = (ucast (ucast n_blocks * iscsi_block_size) :: u32);
              bs = (sd_bs b)\<lparr>bs_bytes_read := bs_bytes_read (sd_bs b) + ucast n_bytes_to_read\<rparr>
          in if length data < unat n_bytes_to_read then Inl Mem_oob
             else
               let (got, w) = fs_read lib (unat n_bytes_to_read) w;
                   rc = (case got of None \<Rightarrow> False | Some d \<Rightarrow> length d = unat n_bytes_to_read);
                   data = (case got of None \<Rightarrow> data | Some d \<Rightarrow> overwrite 0 d data);
                   (end_ts, e) = get_micros e;
                   t = t\<lparr>te_led_read := False\<rparr>;
                   bs = add_io_wait start end_ts bs;
                   bs = bs\<lparr>bs_n_reads := bs_n_reads bs + 1\<rparr>
               in Inr (rc, data, t\<lparr>te_card := b\<lparr>sd_world := w, sd_bs := bs, sd_ts_last_acces := end_ts\<rparr>\<rparr>, e))"

text \<open>The loop over the blocks is, line by line, the one of the ESP32 boards.\<close>

definition teensy_cmpwrite :: "nat \<Rightarrow> 'w sd_lib \<Rightarrow> u64 \<Rightarrow> u32 \<Rightarrow> byte list \<Rightarrow> byte list \<Rightarrow> 'w teensy41 \<times> env
    \<Rightarrow> (cmpwrite_result_t \<times> 'w teensy41 \<times> env) result" where
  "teensy_cmpwrite fuel lib block_nr n_blocks data_write data_compare = (\<lambda>(t, e).
     let t = t\<lparr>te_led_read := True, te_led_write := True\<rparr>;
         b = te_card t
     in bindR (lock_range block_nr n_blocks (sd_locks b)) (\<lambda>(lock_list, ls).
        let block_size = teensy_get_block_size t;
            buffer = replicate (unat block_size) 0;
            (start, e) = get_micros e
        in bindR (sdcard_cmpwrite_loop fuel lib block_nr 0 (unat n_blocks) data_write data_compare buffer (b, e))
             (\<lambda>(result, b, e).
             let (end_ts, e) = get_micros e;
                 bs = add_io_wait start end_ts (sd_bs b);
                 bs = bs\<lparr>bs_n_reads := bs_n_reads bs + 1\<rparr>;
                 bs = bs\<lparr>bs_n_writes := bs_n_writes bs + 1\<rparr>;
                 b = b\<lparr>sd_bs := bs, sd_locks := unlock_range lock_list ls\<rparr>
             in Inr (result, leds_off (t\<lparr>te_card := b\<rparr>), e))))"

definition teensy_get_serial :: "'w sd_lib \<Rightarrow> 'w teensy41 \<Rightarrow> string" where
  "teensy_get_serial lib t =
     (case sd_readCID lib (sd_world (te_card t)) of None \<Rightarrow> ''12345678'' | Some psn \<Rightarrow> show_hex8 psn)"

definition teensy_ops :: "nat \<Rightarrow> 'w sd_lib \<Rightarrow> 'w teensy41 backend_ops" where
  "teensy_ops fuel lib = \<lparr>be_get_serial = (\<lambda>t e. teensy_get_serial lib t), be_get_size_in_blocks = teensy_get_size_in_blocks,
     be_get_block_size = teensy_get_block_size, be_sync = teensy_sync lib, be_write = teensy_write fuel lib,
     be_trim = teensy_trim fuel lib, be_read = teensy_read lib, be_cmpwrite = teensy_cmpwrite fuel lib\<rparr>"

section \<open>The same backend\<close>

lemma teensy_write_eq:
  "teensy_write fuel lib nr n data (t, e) =
     bindR (sdcard_write fuel lib nr n data (te_card t, e)) (\<lambda>(ok, b, e). Inr (ok, t\<lparr>te_card := b, te_led_write := False\<rparr>, e))"
proof -
  obtain start e1 where e: "get_micros e = (start, e1)" by fastforce
  obtain end_ts e2 where e2: "get_micros e1 = (end_ts, e2)" by fastforce
  obtain ok w where s: "fs_seekSet lib (nr * 512) (sd_world (te_card t)) = (ok, w)" by fastforce
  show ?thesis
    by (cases ok; cases "wait_for_card fuel lib w")
      (simp_all add: teensy_write_def sdcard_write_def teensy_get_block_size_def sdcard_get_block_size_def Let_def e e2 s case_prod_beta)
qed

lemma teensy_read_eq:
  "teensy_read lib nr n data (t, e) =
     bindR (sdcard_read lib nr n data (te_card t, e)) (\<lambda>(ok, d, b, e). Inr (ok, d, t\<lparr>te_card := b, te_led_read := False\<rparr>, e))"
proof -
  obtain start e1 where e: "get_micros e = (start, e1)" by fastforce
  obtain end_ts e2 where e2: "get_micros e1 = (end_ts, e2)" by fastforce
  obtain ok w where s: "fs_seekSet lib (nr * 512) (sd_world (te_card t)) = (ok, w)" by fastforce
  show ?thesis
    by (cases ok)
      (simp_all add: teensy_read_def sdcard_read_def teensy_get_block_size_def sdcard_get_block_size_def Let_def e e2 s case_prod_beta)
qed

lemma teensy_cmpwrite_eq:
  "teensy_cmpwrite fuel lib nr n dw dc (t, e) =
     bindR (sdcard_cmpwrite fuel lib nr n dw dc (te_card t, e)) (\<lambda>(r, b, e). Inr (r, leds_off (t\<lparr>te_card := b\<rparr>), e))"
proof -
  obtain start e1 where e: "get_micros e = (start, e1)" by fastforce
  let ?loop = "sdcard_cmpwrite_loop fuel lib nr 0 (unat n) dw dc (replicate (unat (512 :: u64)) 0) (te_card t, e1)"
  show ?thesis
  proof (cases "lock_range nr n (sd_locks (te_card t))")
    case (Inr r)
    then show ?thesis
      by (cases r; cases ?loop)
        (simp_all add: teensy_cmpwrite_def sdcard_cmpwrite_def teensy_get_block_size_def sdcard_get_block_size_def Let_def
          leds_off_def case_prod_beta e)
  qed (simp add: teensy_cmpwrite_def sdcard_cmpwrite_def Let_def)
qed

lemma teensy_trim_loop_eq:
  "teensy_trim_loop fuel lib nr left data (t, e) =
     bindR (sdcard_trim_loop fuel lib nr left data (te_card t, e)) (\<lambda>(ok, b, e).
       Inr (ok, t\<lparr>te_card := b, te_led_write := (left = 0 \<and> te_led_write t)\<rparr>, e))"
proof (induction left arbitrary: nr t e)
  case (Suc left)
  show ?case
  proof (cases "sdcard_write fuel lib nr 1 data (te_card t, e)")
    case (Inr r)
    then show ?thesis
      by (cases r; cases "sdcard_trim_loop fuel lib (nr + 1) left data (snd r)") (auto simp: teensy_write_eq Suc.IH)
  qed (simp add: teensy_write_eq)
qed simp

lemma teensy_trim_eq:
  "teensy_trim fuel lib nr n (t, e) = (case get_micros e of (start, e) \<Rightarrow>
     bindR (sdcard_trim fuel lib nr n (te_card t, e)) (\<lambda>(ok, b, e). case get_micros e of (end_ts, e) \<Rightarrow>
       Inr (ok, t\<lparr>te_card := b\<lparr>sd_bs := add_io_wait start end_ts (sd_bs b), sd_ts_last_acces := end_ts\<rparr>,
         te_led_write := (n = 0 \<and> te_led_write t)\<rparr>, e)))"
proof -
  obtain start e1 where e: "get_micros e = (start, e1)" by fastforce
  let ?loop = "sdcard_trim_loop fuel lib nr (unat n) (replicate (unat (512 :: u64)) 0) (te_card t, e1)"
  show ?thesis
    by (cases ?loop)
      (simp_all add: teensy_trim_def sdcard_trim_def teensy_get_block_size_def sdcard_get_block_size_def teensy_trim_loop_eq
        Let_def case_prod_beta e unat_eq_0)
qed


text \<open>A synchronisation leaves the LED on unless the file cannot be synchronised the second time.\<close>

theorem teensy_sync_led:
  assumes "\<And>w. fst (fs_sync lib w)"
  shows "\<exists>t' e'. teensy_sync lib (t, e) = Inr (True, t', e') \<and> te_led_write t'"
proof -
  obtain ok w where w: "fs_sync lib (sd_world (te_card t)) = (ok, w)" by fastforce
  obtain w' where "fs_sync lib w = (True, w')" using assms [of w] by (cases "fs_sync lib w") simp
  then show ?thesis by (simp add: teensy_sync_def w Let_def case_prod_beta)
qed

section \<open>The contract of a backend\<close>

lemma sdcard_quirks [simp]:
  "sdcard_inv live file (b\<lparr>sd_bs := s, sd_ts_last_acces := x\<rparr>) = sdcard_inv live file b"
  "sdcard_disk file (b\<lparr>sd_bs := s, sd_ts_last_acces := x\<rparr>) = sdcard_disk file b"
  by (simp_all add: sdcard_inv_def sdcard_disk_def)

theorem teensy_storage:
  assumes "sd_serves lib k live file pos wait" and "k < fuel"
  shows "block_storage (teensy_ops fuel lib) (\<lambda>t. sdcard_disk file (te_card t)) (\<lambda>t. sdcard_inv live file (te_card t)) 512 (2 ^ 22)"
proof -
  note s = sdcard_storage [OF assms]
  show ?thesis
  proof (unfold_locales, goal_cases)
    case (5 t)
    then show ?case using block_storage.size_in_blocks [OF s 5]
      by (simp add: teensy_ops_def sdcard_ops_def teensy_get_size_in_blocks_def sdcard_get_size_in_blocks_def
          teensy_get_block_size_def sdcard_get_block_size_def)
  next
    case (6 t)
    then show ?case using block_storage.disk_lt [OF s 6] by simp
  next
    case (7 t e)
    obtain ok w where w: "fs_sync lib (sd_world (te_card t)) = (ok, w)" "live w" "file w = file (sd_world (te_card t))"
      using sd_servesD(4) [OF assms(1), of "sd_world (te_card t)"] 7 unfolding sdcard_inv_def by blast
    obtain again w' where w': "fs_sync lib w = (again, w')" "live w'" "file w' = file w"
      using sd_servesD(4) [OF assms(1) w(2)] by blast
    obtain u e1 where e1: "get_micros e = (u, e1)" by fastforce
    obtain v e2 where e2: "get_micros e1 = (v, e2)" by fastforce
    show ?case using 7 w w' micros_quiet [OF e1] micros_quiet [OF e2]
      by (intro exI [of _ True]) (simp add: teensy_ops_def teensy_sync_def Let_def e1 e2 sdcard_inv_def sdcard_disk_def)
  next
    case (8 t n buf nr e)
    then show ?case using block_storage.read_law [OF s 8, of e] by (fastforce simp: teensy_ops_def sdcard_ops_def teensy_read_eq)
  next
    case (9 t n data nr e)
    then show ?case using block_storage.write_law [OF s 9, of e] by (fastforce simp: teensy_ops_def sdcard_ops_def teensy_write_eq)
  next
    case (10 t nr n e)
    obtain start e1 where e1: "get_micros e = (start, e1)" by fastforce
    obtain ok b e2 where b: "sdcard_trim fuel lib nr n (te_card t, e1) = Inr (ok, b, e2)" "sdcard_inv live file b"
      "sdcard_disk file b = (if ok then overwrite (unat nr * 512) (replicate (unat n * 512) 0) (sdcard_disk file (te_card t))
         else sdcard_disk file (te_card t))" "quiet e1 \<longrightarrow> quiet e2 \<and> (0 < n \<longrightarrow> ok)"
      using block_storage.trim_law [OF s 10, of e1] by (auto simp: sdcard_ops_def)
    obtain end_ts e3 where e3: "get_micros e2 = (end_ts, e3)" by fastforce
    show ?case using b micros_quiet [OF e1] micros_quiet [OF e3]
      by (intro exI [of _ ok]) (simp add: teensy_ops_def teensy_trim_eq e1 e3)
  qed (simp_all add: teensy_ops_def teensy_get_block_size_def)
qed

end
