(* ===== verification/Backend_Rp2040w.thy ===== *)
theory Backend_Rp2040w
  imports Backend_Sdcard
begin

text \<open>
  The SD-card backend of the RP2040W build (\<^verbatim>\<open>microcontrollers/RP2040W/backend-sdcard-rp2040w.cpp\<close>) over the FatFs
  library, which is a parameter. Reads and writes are tried five times. Shown: what a card that works does;
  that TRIM stores uninitialised memory; and that a write which is tried again after a short one is
  reported as done although its data is in the wrong place. LEDs, pins, delays and log lines are left out.
\<close>

section \<open>The library\<close>

text \<open>
  \<open>ff_mount\<close> adds and mounts the card. \<open>read\<close> gives the bytes read, \<open>write\<close> the number of bytes written; the
  code looks at nothing else.
\<close>

record 'w ff_lib =
  ff_mount :: "'w \<Rightarrow> 'w"
  ff_open :: "string \<Rightarrow> 'w \<Rightarrow> bool \<times> 'w"
  ff_close :: "'w \<Rightarrow> 'w"
  ff_size :: "'w \<Rightarrow> u64"
  ff_sync :: "'w \<Rightarrow> bool \<times> 'w"
  ff_lseek :: "u64 \<Rightarrow> 'w \<Rightarrow> bool \<times> 'w"
  ff_read :: "nat \<Rightarrow> 'w \<Rightarrow> byte list \<times> 'w"
  ff_write :: "byte list \<Rightarrow> 'w \<Rightarrow> nat \<times> 'w"

section \<open>State and operations\<close>

record 'w backend_rp2040w =
  rp_disk_name :: string
  rp_card_size :: u64
  rp_sector_size :: u32
  rp_bs :: backend_stats_t
  rp_ts_last_acces :: u64
  rp_locks :: "bool list"
  rp_world :: 'w

definition rp2040w_new :: "string \<Rightarrow> 'w \<Rightarrow> env \<Rightarrow> 'w backend_rp2040w \<times> env" where
  "rp2040w_new disk_name w e =
     (let (t, e) = get_micros e
      in (\<lparr>rp_disk_name = disk_name, rp_card_size = 0, rp_sector_size = 0, rp_bs = zero_stats, rp_ts_last_acces = t,
           rp_locks = no_locks, rp_world = w\<rparr>, e))"

definition rp2040w_begin :: "'w ff_lib \<Rightarrow> 'w backend_rp2040w \<Rightarrow> bool \<times> 'w backend_rp2040w" where
  "rp2040w_begin lib b =
     (case ff_open lib (rp_disk_name b) (ff_mount lib (rp_world b)) of (ok, w) \<Rightarrow>
        if \<not> ok then (False, b\<lparr>rp_world := w\<rparr>)
        else (True, b\<lparr>rp_world := w, rp_card_size := ff_size lib w, rp_sector_size := 512\<rparr>))"

definition rp2040w_delete :: "'w ff_lib \<Rightarrow> 'w backend_rp2040w \<Rightarrow> 'w" where
  "rp2040w_delete lib b = ff_close lib (rp_world b)"

definition rp2040w_get_block_size :: "'w backend_rp2040w \<Rightarrow> u64" where
  "rp2040w_get_block_size b = 512"

definition rp2040w_get_size_in_blocks :: "'w backend_rp2040w \<Rightarrow> u64" where
  "rp2040w_get_size_in_blocks b = rp_card_size b div rp2040w_get_block_size b"

definition rp2040w_sync :: "'w ff_lib \<Rightarrow> 'w backend_rp2040w \<times> env \<Rightarrow> (bool \<times> 'w backend_rp2040w \<times> env) result" where
  "rp2040w_sync lib = (\<lambda>(b, e).
     let (start, e) = get_micros e;
         (_, w) = ff_sync lib (rp_world b);
         (end_ts, e) = get_micros e;
         bs = add_io_wait start end_ts ((rp_bs b)\<lparr>bs_n_syncs := bs_n_syncs (rp_bs b) + 1\<rparr>)
     in Inr (True, b\<lparr>rp_world := w, rp_bs := bs, rp_ts_last_acces := end_ts\<rparr>, e))"

text \<open>The attempts that are left, from the position the file is at.\<close>

fun rp2040w_write_loop :: "'w ff_lib \<Rightarrow> nat \<Rightarrow> byte list \<Rightarrow> 'w \<Rightarrow> bool \<times> 'w" where
  "rp2040w_write_loop lib 0 d w = (False, w)"
| "rp2040w_write_loop lib (Suc i) d w =
     (case ff_write lib d w of (bytes_written, w) \<Rightarrow>
        if bytes_written = length d then (True, w) else rp2040w_write_loop lib i d w)"

definition rp2040w_write :: "'w ff_lib \<Rightarrow> u64 \<Rightarrow> u32 \<Rightarrow> byte list \<Rightarrow> 'w backend_rp2040w \<times> env
    \<Rightarrow> (bool \<times> 'w backend_rp2040w \<times> env) result" where
  "rp2040w_write lib block_nr n_blocks data = (\<lambda>(b, e).
     let iscsi_block_size = rp2040w_get_block_size b;
         byte_address = block_nr * iscsi_block_size;
         (start, e) = get_micros e;
         (ok, w) = ff_lseek lib byte_address (rp_world b)
     in if \<not> ok then Inr (False, b\<lparr>rp_world := w\<rparr>, e)
        else
          let n_bytes_to_write = (ucast (ucast n_blocks * iscsi_block_size) :: u32);
              bs = (rp_bs b)\<lparr>bs_bytes_written := bs_bytes_written (rp_bs b) + ucast n_bytes_to_write\<rparr>
          in if length data < unat n_bytes_to_write then Inl Mem_oob
             else
               let (rc, w) = rp2040w_write_loop lib 5 (take (unat n_bytes_to_write) data) w;
                   (end_ts, e) = get_micros e;
                   bs = add_io_wait start end_ts bs
               in Inr (rc, b\<lparr>rp_world := w, rp_bs := bs\<lparr>bs_n_writes := bs_n_writes bs + 1\<rparr>,
                        rp_ts_last_acces := end_ts\<rparr>, e))"

fun rp2040w_trim_loop :: "'w ff_lib \<Rightarrow> u64 \<Rightarrow> nat \<Rightarrow> byte list \<Rightarrow> 'w backend_rp2040w \<times> env
    \<Rightarrow> (bool \<times> 'w backend_rp2040w \<times> env) result" where
  "rp2040w_trim_loop lib nr 0 data st = Inr (True, st)"
| "rp2040w_trim_loop lib nr (Suc left) data st =
     bindR (rp2040w_write lib nr 1 data st) (\<lambda>(ok, st).
     if \<not> ok then Inr (False, st) else rp2040w_trim_loop lib (nr + 1) left data st)"

text \<open>
  \<open>new uint8_t[get_block_size()]\<close> without \<open>()\<close> leaves the array as the memory was: \<open>heap\<close>, as many bytes as a
  block has.
\<close>

definition rp2040w_trim :: "'w ff_lib \<Rightarrow> byte list \<Rightarrow> u64 \<Rightarrow> u32 \<Rightarrow> 'w backend_rp2040w \<times> env
    \<Rightarrow> (bool \<times> 'w backend_rp2040w \<times> env) result" where
  "rp2040w_trim lib heap block_nr n_blocks = (\<lambda>(b, e).
     let (start, e) = get_micros e
     in bindR (rp2040w_trim_loop lib block_nr (unat n_blocks) heap (b, e)) (\<lambda>(rc, b, e).
        let (end_ts, e) = get_micros e;
            bs = add_io_wait start end_ts (rp_bs b)
        in Inr (rc, b\<lparr>rp_ts_last_acces := end_ts, rp_bs := bs\<lparr>bs_n_trims := bs_n_trims bs + 1\<rparr>\<rparr>, e)))"

fun rp2040w_read_loop :: "'w ff_lib \<Rightarrow> nat \<Rightarrow> nat \<Rightarrow> byte list \<Rightarrow> 'w \<Rightarrow> bool \<times> byte list \<times> 'w" where
  "rp2040w_read_loop lib 0 n data w = (False, data, w)"
| "rp2040w_read_loop lib (Suc i) n data w =
     (case ff_read lib n w of (d, w) \<Rightarrow>
        let data = overwrite 0 d data
        in if length d = n then (True, data, w) else rp2040w_read_loop lib i n data w)"

definition rp2040w_read :: "'w ff_lib \<Rightarrow> u64 \<Rightarrow> u32 \<Rightarrow> byte list \<Rightarrow> 'w backend_rp2040w \<times> env
    \<Rightarrow> (bool \<times> byte list \<times> 'w backend_rp2040w \<times> env) result" where
  "rp2040w_read lib block_nr n_blocks data = (\<lambda>(b, e).
     let iscsi_block_size = rp2040w_get_block_size b;
         byte_address = block_nr * iscsi_block_size;
         (start, e) = get_micros e;
         (ok, w) = ff_lseek lib byte_address (rp_world b)
     in if \<not> ok then Inr (False, data, b\<lparr>rp_world := w\<rparr>, e)
        else
          let n_bytes_to_read = (ucast (ucast n_blocks * iscsi_block_size) :: u32);
              bs = (rp_bs b)\<lparr>bs_bytes_read := bs_bytes_read (rp_bs b) + ucast n_bytes_to_read\<rparr>
          in if length data < unat n_bytes_to_read then Inl Mem_oob
             else
               let (rc, data, w) = rp2040w_read_loop lib 5 (unat n_bytes_to_read) data w;
                   (end_ts, e) = get_micros e;
                   bs = add_io_wait start end_ts bs
               in Inr (rc, data, b\<lparr>rp_world := w, rp_bs := bs\<lparr>bs_n_reads := bs_n_reads bs + 1\<rparr>,
                        rp_ts_last_acces := end_ts\<rparr>, e))"

fun rp2040w_cmpwrite_loop :: "'w ff_lib \<Rightarrow> u64 \<Rightarrow> nat \<Rightarrow> nat \<Rightarrow> byte list \<Rightarrow> byte list \<Rightarrow> byte list
    \<Rightarrow> 'w backend_rp2040w \<times> env \<Rightarrow> (cmpwrite_result_t \<times> 'w backend_rp2040w \<times> env) result" where
  "rp2040w_cmpwrite_loop lib block_nr i 0 data_write data_compare buffer st = Inr (CWR_OK, st)"
| "rp2040w_cmpwrite_loop lib block_nr i (Suc left) data_write data_compare buffer (b, e) =
     (let block_size = rp2040w_get_block_size b; k = unat block_size;
          offset = (block_nr + of_nat i) * block_size;
          (ok, w) = ff_lseek lib offset (rp_world b); b = b\<lparr>rp_world := w\<rparr>
      in if \<not> ok then Inr (CWR_READ_ERROR, b, e)
         else
           let (d, w) = ff_read lib k w; b = b\<lparr>rp_world := w\<rparr>; buffer = overwrite 0 d buffer
           in if length d \<noteq> k then Inr (CWR_READ_ERROR, b, e)
              else if length data_compare < (i + 1) * k then Inl Mem_oob
              else if buffer \<noteq> slice (i * k) k data_compare then Inr (CWR_MISMATCH, b, e)
              else
                let (ok, w) = ff_lseek lib offset w; b = b\<lparr>rp_world := w\<rparr>
                in if \<not> ok then Inr (CWR_READ_ERROR, b, e)
                   else if length data_write < (i + 1) * k then Inl Mem_oob
                   else
                     let (written, w) = ff_write lib (slice (i * k) k data_write) w; b = b\<lparr>rp_world := w\<rparr>
                     in if written \<noteq> k then Inr (CWR_WRITE_ERROR, b, e)
                        else
                          let (now, e) = get_micros e
                          in rp2040w_cmpwrite_loop lib block_nr (i + 1) left data_write data_compare buffer
                               (b\<lparr>rp_ts_last_acces := now\<rparr>, e))"

definition rp2040w_cmpwrite :: "'w ff_lib \<Rightarrow> u64 \<Rightarrow> u32 \<Rightarrow> byte list \<Rightarrow> byte list \<Rightarrow> 'w backend_rp2040w \<times> env
    \<Rightarrow> (cmpwrite_result_t \<times> 'w backend_rp2040w \<times> env) result" where
  "rp2040w_cmpwrite lib block_nr n_blocks data_write data_compare = (\<lambda>(b, e).
     bindR (lock_range block_nr n_blocks (rp_locks b)) (\<lambda>(lock_list, ls).
     let (start, e) = get_micros e
     in bindR (rp2040w_cmpwrite_loop lib block_nr 0 (unat n_blocks) data_write data_compare
                 (replicate (unat (rp2040w_get_block_size b)) 0) (b, e)) (\<lambda>(result, b, e).
        let (end_ts, e) = get_micros e;
            bs = add_io_wait start end_ts (rp_bs b);
            bs = bs\<lparr>bs_n_reads := bs_n_reads bs + 1, bs_n_writes := bs_n_writes bs + 1\<rparr>
        in Inr (result, b\<lparr>rp_bs := bs, rp_locks := unlock_range lock_list ls\<rparr>, e))))"

definition rp2040w_get_serial :: "'w backend_rp2040w \<Rightarrow> string" where
  "rp2040w_get_serial b = ''12345678''"

definition rp2040w_ops :: "'w ff_lib \<Rightarrow> byte list \<Rightarrow> 'w backend_rp2040w backend_ops" where
  "rp2040w_ops lib heap = \<lparr>be_get_serial = (\<lambda>b e. rp2040w_get_serial b), be_get_size_in_blocks = rp2040w_get_size_in_blocks,
     be_get_block_size = rp2040w_get_block_size, be_sync = rp2040w_sync lib, be_write = rp2040w_write lib,
     be_trim = rp2040w_trim lib heap, be_read = rp2040w_read lib, be_cmpwrite = rp2040w_cmpwrite lib\<rparr>"

section \<open>What the library promises\<close>

text \<open>
  While the card works, \<open>file w\<close> is the file and \<open>pos w\<close> the position in it. A position inside the file can be
  sought; a read takes what is there; a write inside the file stores the first bytes of its data, as many as
  it reports, and moves the position behind them.
\<close>

definition ff_serves :: "'w ff_lib \<Rightarrow> ('w \<Rightarrow> bool) \<Rightarrow> ('w \<Rightarrow> byte list) \<Rightarrow> ('w \<Rightarrow> nat) \<Rightarrow> bool" where
  "ff_serves lib live file pos \<longleftrightarrow>
     (\<forall>w p. live w \<and> unat p \<le> length (file w) \<longrightarrow>
        (\<exists>w'. ff_lseek lib p w = (True, w') \<and> live w' \<and> file w' = file w \<and> pos w' = unat p)) \<and>
     (\<forall>w n. live w \<longrightarrow> (\<exists>w'. ff_read lib n w = (slice (pos w) n (file w), w') \<and> live w' \<and> file w' = file w)) \<and>
     (\<forall>w d. live w \<and> pos w + length d \<le> length (file w) \<longrightarrow>
        (\<exists>j w'. ff_write lib d w = (j, w') \<and> j \<le> length d \<and> live w' \<and> file w' = overwrite (pos w) (take j d) (file w) \<and>
           pos w' = pos w + j))"

text \<open>The write at \<open>w\<close> is not cut short.\<close>

definition ff_full :: "'w ff_lib \<Rightarrow> byte list \<Rightarrow> 'w \<Rightarrow> bool" where
  "ff_full lib d w \<longleftrightarrow> fst (ff_write lib d w) = length d"

lemma ff_servesD:
  assumes "ff_serves lib live file pos" and "live w"
  shows "unat p \<le> length (file w) \<Longrightarrow>
      \<exists>w'. ff_lseek lib p w = (True, w') \<and> live w' \<and> file w' = file w \<and> pos w' = unat p"
    and "\<exists>w'. ff_read lib n w = (slice (pos w) n (file w), w') \<and> live w' \<and> file w' = file w"
    and "pos w + length d \<le> length (file w) \<Longrightarrow>
      \<exists>j w'. ff_write lib d w = (j, w') \<and> j \<le> length d \<and> live w' \<and> file w' = overwrite (pos w) (take j d) (file w) \<and>
        pos w' = pos w + j"
  using assms unfolding ff_serves_def by blast+

lemma ff_write_full:
  assumes "ff_serves lib live file pos" and "live w" and "pos w + length d \<le> length (file w)" and "ff_full lib d w"
  shows "\<exists>w'. ff_write lib d w = (length d, w') \<and> live w' \<and> file w' = overwrite (pos w) d (file w) \<and> pos w' = pos w + length d"
  using ff_servesD(3) [OF assms(1-3)] assms(4) by (auto simp: ff_full_def)

definition rp2040w_disk :: "('w \<Rightarrow> byte list) \<Rightarrow> 'w backend_rp2040w \<Rightarrow> byte list" where
  "rp2040w_disk file b = file (rp_world b)"

definition rp2040w_inv :: "('w \<Rightarrow> bool) \<Rightarrow> ('w \<Rightarrow> byte list) \<Rightarrow> 'w backend_rp2040w \<Rightarrow> bool" where
  "rp2040w_inv live file b \<longleftrightarrow> live (rp_world b) \<and> length (file (rp_world b)) < 2 ^ 32 \<and>
     rp_card_size b = of_nat (length (file (rp_world b))) \<and> rp_locks b = no_locks"

text \<open>A transfer starts at its block.\<close>

lemma rp2040w_seek:
  fixes n :: u32
  assumes "ff_serves lib live file pos" and "rp2040w_inv live file b"
    and "unat nr * 512 + unat n * 512 \<le> length (rp2040w_disk file b)"
  shows "\<exists>w. ff_lseek lib (nr * 512) (rp_world b) = (True, w) \<and> live w \<and> file w = rp2040w_disk file b \<and> pos w = unat nr * 512"
    and "unat (ucast (ucast n * 512 :: u64) :: u32) = unat n * 512"
proof -
  have i: "live (rp_world b)" "length (rp2040w_disk file b) < 2 ^ 32"
    using assms(2) by (simp_all add: rp2040w_inv_def rp2040w_disk_def)
  have addr: "unat (nr * 512 :: u64) = unat nr * 512" using sdcard_address [OF assms(3) i(2)] .
  show "\<exists>w. ff_lseek lib (nr * 512) (rp_world b) = (True, w) \<and> live w \<and> file w = rp2040w_disk file b \<and> pos w = unat nr * 512"
    using ff_servesD(1) [OF assms(1) i(1), of "nr * 512"] addr assms(3) by (simp add: rp2040w_disk_def)
  show "unat (ucast (ucast n * 512 :: u64) :: u32) = unat n * 512"
    using assms(3) i(2) by (intro sdcard_length) simp
qed

text \<open>The result of a write from that of its attempts.\<close>

lemma rp2040w_write_from_loop:
  assumes "ff_serves lib live file pos" and "rp2040w_inv live file b"
    and "unat n * 512 \<le> length data" and "unat nr * 512 + unat n * 512 \<le> length (rp2040w_disk file b)"
    and "ff_lseek lib (nr * 512) (rp_world b) = (True, w)"
    and "rp2040w_write_loop lib 5 (take (unat n * 512) data) w = (rc, w')" and "live w'"
    and "length (file w') = length (rp2040w_disk file b)"
  shows "\<exists>b' e'. rp2040w_write lib nr n data (b, e) = Inr (rc, b', e') \<and> rp2040w_inv live file b' \<and> rp2040w_disk file b' = file w'"
proof -
  obtain t e1 where e1: "get_micros e = (t, e1)" by fastforce
  obtain u e2 where e2: "get_micros e1 = (u, e2)" by fastforce
  show ?thesis
    using assms(2,3,5-8) rp2040w_seek(2) [OF assms(1,2,4)]
    by (simp add: rp2040w_write_def rp2040w_get_block_size_def e1 e2 Let_def rp2040w_inv_def rp2040w_disk_def not_less)
qed

lemma rp2040w_write_law:
  assumes "ff_serves lib live file pos" and "\<forall>d w. ff_full lib d w" and "rp2040w_inv live file b"
    and "unat n * 512 \<le> length data" and "unat nr * 512 + unat n * 512 \<le> length (rp2040w_disk file b)"
  shows "\<exists>b' e'. rp2040w_write lib nr n data (b, e) = Inr (True, b', e') \<and> rp2040w_inv live file b' \<and>
    rp2040w_disk file b' = overwrite (unat nr * 512) (take (unat n * 512) data) (rp2040w_disk file b)"
proof -
  let ?d = "take (unat n * 512) data"
  have ld: "length ?d = unat n * 512" using assms(4) by simp
  obtain w where w: "ff_lseek lib (nr * 512) (rp_world b) = (True, w)" "live w" "file w = rp2040w_disk file b" "pos w = unat nr * 512"
    using rp2040w_seek(1) [OF assms(1,3,5)] by blast
  have "pos w + length ?d \<le> length (file w)" using assms(5) w(3,4) ld by simp
  from ff_write_full [OF assms(1) w(2) this] assms(2) obtain w' where
    w': "ff_write lib ?d w = (length ?d, w')" "live w'" "file w' = overwrite (unat nr * 512) ?d (rp2040w_disk file b)"
    using w(3,4) by auto
  have "rp2040w_write_loop lib 5 ?d w = (True, w')" using w'(1) by (simp add: numeral_eq_Suc)
  moreover have "length (file w') = length (rp2040w_disk file b)"
    unfolding w'(3) using assms(5) ld by (intro length_overwrite) simp
  ultimately show ?thesis
    using rp2040w_write_from_loop [OF assms(1,3,4,5) w(1)] w'(2,3) by metis
qed

lemma rp2040w_read_law:
  assumes "ff_serves lib live file pos" and "rp2040w_inv live file b"
    and "unat n * 512 \<le> length buf" and "unat nr * 512 + unat n * 512 \<le> length (rp2040w_disk file b)"
  shows "\<exists>b' e'. rp2040w_read lib nr n buf (b, e) =
      Inr (True, overwrite 0 (slice (unat nr * 512) (unat n * 512) (rp2040w_disk file b)) buf, b', e') \<and>
    rp2040w_inv live file b' \<and> rp2040w_disk file b' = rp2040w_disk file b"
proof -
  let ?s = "slice (unat nr * 512) (unat n * 512) (rp2040w_disk file b)"
  obtain w where w: "ff_lseek lib (nr * 512) (rp_world b) = (True, w)" "live w" "file w = rp2040w_disk file b" "pos w = unat nr * 512"
    using rp2040w_seek(1) [OF assms(1,2,4)] by blast
  obtain w' where w': "ff_read lib (unat n * 512) w = (?s, w')" "live w'" "file w' = rp2040w_disk file b"
    using ff_servesD(2) [OF assms(1) w(2), of "unat n * 512"] w(3,4) by auto
  have "length ?s = unat n * 512" using assms(4) by simp
  then have l: "rp2040w_read_loop lib 5 (unat n * 512) buf w = (True, overwrite 0 ?s buf, w')"
    using w'(1) by (simp add: numeral_eq_Suc)
  obtain t e1 where e1: "get_micros e = (t, e1)" by fastforce
  obtain u e2 where e2: "get_micros e1 = (u, e2)" by fastforce
  show ?thesis
    using w(1) w'(2,3) assms(2,3) rp2040w_seek(2) [OF assms(1,2,4)] l
    by (simp add: rp2040w_read_def rp2040w_get_block_size_def e1 e2 Let_def rp2040w_inv_def rp2040w_disk_def not_less)
qed

section \<open>Trimming\<close>

lemma rp2040w_trim_loop_law:
  assumes "ff_serves lib live file pos" and "\<forall>d w. ff_full lib d w" and "length heap = 512" and "rp2040w_inv live file b"
    and "unat nr * 512 + left * 512 \<le> length (rp2040w_disk file b)"
  shows "\<exists>b' e'. rp2040w_trim_loop lib nr left heap (b, e) = Inr (True, b', e') \<and> rp2040w_inv live file b' \<and>
    rp2040w_disk file b' = overwrite (unat nr * 512) (concat (replicate left heap)) (rp2040w_disk file b)"
  using assms(4,5)
proof (induction left arbitrary: nr b e)
  case (Suc left)
  let ?disk = "rp2040w_disk file b"
  have lt: "length ?disk < 2 ^ 32" using Suc.prems(1) by (simp add: rp2040w_inv_def rp2040w_disk_def)
  obtain b1 e1 where w: "rp2040w_write lib nr 1 heap (b, e) = Inr (True, b1, e1)" "rp2040w_inv live file b1"
    "rp2040w_disk file b1 = overwrite (unat nr * 512) heap ?disk"
    using rp2040w_write_law [OF assms(1,2) Suc.prems(1), of 1 heap nr e] Suc.prems(2) assms(3) by auto
  show ?case
  proof (cases "left = 0")
    case True
    then show ?thesis using w by simp
  next
    case False
    have "unat nr + 1 < 2 ^ 64" using Suc.prems(2) lt by simp
    then have nr: "unat (nr + 1) = unat nr + 1" by (subst unat_add_u64) simp_all
    have "length (rp2040w_disk file b1) = length ?disk" unfolding w(3) using Suc.prems(2) assms(3) by simp
    then have "unat (nr + 1) * 512 + left * 512 \<le> length (rp2040w_disk file b1)" using Suc.prems(2) nr by simp
    from Suc.IH [OF w(2) this, of e1] obtain b2 e2 where
      2: "rp2040w_trim_loop lib (nr + 1) left heap (b1, e1) = Inr (True, b2, e2)" "rp2040w_inv live file b2"
      "rp2040w_disk file b2 = overwrite (unat (nr + 1) * 512) (concat (replicate left heap)) (rp2040w_disk file b1)"
      by blast
    have "rp2040w_disk file b2 = overwrite (unat nr * 512 + 512) (concat (replicate left heap)) (overwrite (unat nr * 512) heap ?disk)"
      using 2(3) nr by (simp add: w(3) algebra_simps)
    also have "\<dots> = overwrite (unat nr * 512) (heap @ concat (replicate left heap)) ?disk"
      using Suc.prems(2) assms(3) by (intro overwrite_split) (simp_all add: length_concat sum_list_replicate)
    finally show ?thesis using w(1) 2(1,2) by simp
  qed
qed simp

text \<open>
  TRIM on the RP2040W stores uninitialised memory. It succeeds on every range of the device, and a READ of
  the trimmed blocks then returns, for each of them, whatever the memory of the new buffer held before: old
  data of the process, which an initiator can read, and zeros only by chance, although the device
  announces that unmapped blocks read as zeros.
\<close>

theorem rp2040w_trim_stores_heap:
  assumes "ff_serves lib live file pos" and "\<forall>d w. ff_full lib d w" and "length heap = 512" and "rp2040w_inv live file b"
    and "unat nr * 512 + unat n * 512 \<le> length (rp2040w_disk file b)" and "length buf = unat n * 512"
  shows "\<exists>b1 e1 b2 e2. rp2040w_trim lib heap nr n (b, e) = Inr (True, b1, e1) \<and>
    rp2040w_disk file b1 = overwrite (unat nr * 512) (concat (replicate (unat n) heap)) (rp2040w_disk file b) \<and>
    rp2040w_read lib nr n buf (b1, e1) = Inr (True, concat (replicate (unat n) heap), b2, e2)"
proof -
  let ?h = "concat (replicate (unat n) heap)"
  obtain t e0 where e0: "get_micros e = (t, e0)" by fastforce
  obtain b1 e1 where l: "rp2040w_trim_loop lib nr (unat n) heap (b, e0) = Inr (True, b1, e1)" "rp2040w_inv live file b1"
    "rp2040w_disk file b1 = overwrite (unat nr * 512) ?h (rp2040w_disk file b)"
    using rp2040w_trim_loop_law [OF assms(1-5)] by blast
  obtain u e2 where e2: "get_micros e1 = (u, e2)" by fastforce
  let ?bs = "add_io_wait t u (rp_bs b1)"
  let ?b2 = "b1\<lparr>rp_ts_last_acces := u, rp_bs := ?bs\<lparr>bs_n_trims := bs_n_trims ?bs + 1\<rparr>\<rparr>"
  have trim: "rp2040w_trim lib heap nr n (b, e) = Inr (True, ?b2, e2)"
    by (simp add: rp2040w_trim_def e0 l(1) e2 Let_def)
  have b2: "rp2040w_inv live file ?b2" "rp2040w_disk file ?b2 = rp2040w_disk file b1"
    using l(2) by (simp_all add: rp2040w_inv_def rp2040w_disk_def)
  have lh: "length ?h = unat n * 512" using assms(3) by (simp add: length_concat sum_list_replicate)
  have ld: "length (rp2040w_disk file b1) = length (rp2040w_disk file b)"
    unfolding l(3) using assms(5) lh by (intro length_overwrite) simp
  have "slice (unat nr * 512) (unat n * 512) (rp2040w_disk file b1) = ?h"
    unfolding l(3) using assms(5) lh by (intro slice_overwrite_same) simp_all
  moreover have "overwrite 0 ?h buf = ?h" using assms(6) lh by (simp add: overwrite_def)
  ultimately obtain b3 e3 where "rp2040w_read lib nr n buf (?b2, e2) = Inr (True, ?h, b3, e3)"
    using rp2040w_read_law [OF assms(1) b2(1), of n buf nr e2] assms(5,6) b2(2) ld by auto
  then show ?thesis using trim b2(2) l(3) by metis
qed

section \<open>Trying again\<close>

text \<open>
  A write that is tried again is not put where it belongs. The second attempt does not seek: when the card
  took \<open>j\<close> bytes at first, all data is written again behind them. The write is reported as done,
  but the block holds the first \<open>j\<close> bytes of the data and then the data from its beginning, and the bytes of
  the data that no longer fit overwrite the start of the blocks behind it.
\<close>

theorem rp2040w_retry_misplaces:
  assumes "ff_serves lib live file pos" and "rp2040w_inv live file b"
    and "length data = unat n * 512" and "unat nr * 512 + 2 * (unat n * 512) \<le> length (rp2040w_disk file b)"
    and "ff_lseek lib (nr * 512) (rp_world b) = (True, w)" and "ff_write lib data w = (j, w1)"
    and "j < length data" and "ff_full lib data w1"
  shows "\<exists>b' e'. rp2040w_write lib nr n data (b, e) = Inr (True, b', e') \<and>
    rp2040w_disk file b' = overwrite (unat nr * 512) (take j data @ data) (rp2040w_disk file b) \<and>
    slice (unat nr * 512) (unat n * 512) (rp2040w_disk file b') = take j data @ take (unat n * 512 - j) data \<and>
    slice (unat nr * 512 + unat n * 512) j (rp2040w_disk file b') = drop (unat n * 512 - j) data"
proof -
  let ?a = "unat nr * 512" and ?n = "unat n * 512" and ?disk = "rp2040w_disk file b"
  have r: "?a + ?n \<le> length ?disk" using assms(4) by simp
  have w: "live w" "file w = ?disk" "pos w = ?a"
    using rp2040w_seek(1) [OF assms(1,2) r] assms(5) by auto
  have w1: "live w1" "file w1 = overwrite ?a (take j data) ?disk" "pos w1 = ?a + j"
    using ff_servesD(3) [OF assms(1) w(1), of data] w(2,3) assms(3,6) r by auto
  have l1: "length (file w1) = length ?disk" unfolding w1(2) using r assms(3,7) by (intro length_overwrite) simp
  have "pos w1 + length data \<le> length (file w1)" using assms(3,4,7) w1(3) l1 by simp
  from ff_write_full [OF assms(1) w1(1) this assms(8)] obtain w2 where
    w2: "ff_write lib data w1 = (length data, w2)" "live w2" "file w2 = overwrite (?a + j) data (file w1)"
    using w1(3) by auto
  have l2: "length (file w2) = length ?disk" unfolding w2(3) l1 [symmetric] using assms(3,4,7) l1 by (intro length_overwrite) simp
  have "file w2 = overwrite ?a (take j data @ data) ?disk"
    unfolding w2(3) w1(2) using assms(3,4,7) by (intro overwrite_split) simp_all
  moreover have "rp2040w_write_loop lib (Suc (Suc 3)) data w = (True, w2)"
    unfolding rp2040w_write_loop.simps assms(6) using assms(7) by (simp add: w2(1))
  then have "rp2040w_write_loop lib 5 (take ?n data) w = (True, w2)"
    using assms(3) by simp
  then obtain b' e' where b': "rp2040w_write lib nr n data (b, e) = Inr (True, b', e')" "rp2040w_disk file b' = file w2"
    using rp2040w_write_from_loop [OF assms(1,2) _ r assms(5), of data True w2 e] w2(2) l2 assms(3) by auto
  ultimately have d: "rp2040w_disk file b' = overwrite ?a (take j data @ data) ?disk" by simp
  have s: "slice ?a (?n + j) (rp2040w_disk file b') = take j data @ data"
    unfolding d using assms(3,4,7) by (intro slice_overwrite_same) simp_all
  have "slice ?a ?n (rp2040w_disk file b') = take ?n (slice ?a (?n + j) (rp2040w_disk file b'))"
    by (simp add: slice_def min_def)
  moreover have "slice (?a + ?n) j (rp2040w_disk file b') = drop ?n (slice ?a (?n + j) (rp2040w_disk file b'))"
    by (simp add: slice_def drop_take add.commute)
  ultimately have "slice ?a ?n (rp2040w_disk file b') = take j data @ take (?n - j) data"
    "slice (?a + ?n) j (rp2040w_disk file b') = drop (?n - j) data"
    unfolding s using assms(3,7) by (simp_all add: min_def)
  then show ?thesis using b'(1) d by blast
qed

text \<open>A card in memory whose first write is cut after 100 bytes while the flag is set.\<close>

definition ram_fat :: "(byte list \<times> nat \<times> bool) ff_lib" where
  "ram_fat = \<lparr>ff_mount = (\<lambda>w. w), ff_open = (\<lambda>_ w. (True, w)), ff_close = (\<lambda>w. w), ff_size = (\<lambda>(f, p, s). of_nat (length f)),
     ff_sync = (\<lambda>w. (True, w)),
     ff_lseek = (\<lambda>q (f, p, s). if unat q \<le> length f then (True, f, unat q, s) else (False, f, p, s)),
     ff_read = (\<lambda>n (f, p, s). (slice p n f, f, p + length (slice p n f), s)),
     ff_write = (\<lambda>d (f, p, s). let j = (if s then min 100 (length d) else length d) in (j, overwrite p (take j d) f, p + j, False))\<rparr>"

lemma ram_fat_serves: "ff_serves ram_fat (\<lambda>_. True) fst (\<lambda>w. fst (snd w))"
  by (auto simp: ff_serves_def ram_fat_def Let_def)

definition example_rp :: "bool \<Rightarrow> (byte list \<times> nat \<times> bool) backend_rp2040w" where
  "example_rp s = \<lparr>rp_disk_name = ''disk.img'', rp_card_size = 2048, rp_sector_size = 512, rp_bs = zero_stats,
     rp_ts_last_acces = 0, rp_locks = no_locks, rp_world = (replicate 2048 0, 0, s)\<rparr>"

lemma example_rp_inv: "rp2040w_inv (\<lambda>_. True) fst (example_rp s)" "length (rp2040w_disk fst (example_rp s)) = 2048"
  by (simp_all add: rp2040w_inv_def rp2040w_disk_def example_rp_def)

text \<open>The first block is written with the bytes 1 to 256 twice: its byte 100 comes out as the first byte of the data.\<close>

theorem rp2040w_retry_misplaces_witness:
  "\<forall>e. \<exists>b' e'. rp2040w_write ram_fat 0 1 (map of_nat [0..<512]) (example_rp True, e) = Inr (True, b', e') \<and>
    slice 0 512 (rp2040w_disk fst b') = map of_nat ([0..<100] @ [0..<412])"
proof
  fix e
  let ?d = "map of_nat [0..<512] :: byte list"
  let ?w = "(replicate 2048 0, 0, True) :: byte list \<times> nat \<times> bool"
  let ?w1 = "(overwrite 0 (take 100 ?d) (replicate 2048 0), 100, False) :: byte list \<times> nat \<times> bool"
  have s: "ff_lseek ram_fat (0 * 512) (rp_world (example_rp True)) = (True, ?w)" "ff_write ram_fat ?d ?w = (100, ?w1)"
    by (simp_all add: ram_fat_def example_rp_def Let_def)
  have f: "ff_full ram_fat ?d ?w1" by (simp add: ff_full_def ram_fat_def Let_def)
  have l: "length ?d = unat (1 :: u32) * 512"
    "unat (0 :: u64) * 512 + 2 * (unat (1 :: u32) * 512) \<le> length (rp2040w_disk fst (example_rp True))" "100 < length ?d"
    unfolding example_rp_inv(2) by simp_all
  from rp2040w_retry_misplaces [OF ram_fat_serves example_rp_inv(1) l(1,2) s l(3) f, of e] obtain b' e' where
    r: "rp2040w_write ram_fat 0 1 ?d (example_rp True, e) = Inr (True, b', e')"
    "slice 0 512 (rp2040w_disk fst b') = take 100 ?d @ take (512 - 100) ?d" by auto
  have "take 100 ?d @ take (512 - 100) ?d = map of_nat ([0..<100] @ [0..<412])"
    using take_upt [of 0 100 512] take_upt [of 0 412 512] by (simp add: take_map)
  then show "\<exists>b' e'. rp2040w_write ram_fat 0 1 ?d (example_rp True, e) = Inr (True, b', e') \<and>
    slice 0 512 (rp2040w_disk fst b') = map of_nat ([0..<100] @ [0..<412])" using r by (metis (no_types))
qed

definition steady_fat :: "(byte list \<times> nat) ff_lib" where
  "steady_fat = \<lparr>ff_mount = (\<lambda>w. w), ff_open = (\<lambda>_ w. (True, w)), ff_close = (\<lambda>w. w), ff_size = (\<lambda>(f, p). of_nat (length f)),
     ff_sync = (\<lambda>w. (True, w)), ff_lseek = (\<lambda>q (f, p). if unat q \<le> length f then (True, f, unat q) else (False, f, p)),
     ff_read = (\<lambda>n (f, p). (slice p n f, f, p + length (slice p n f))),
     ff_write = (\<lambda>d (f, p). (length d, overwrite p d f, p + length d))\<rparr>"

definition steady_rp :: "(byte list \<times> nat) backend_rp2040w" where
  "steady_rp = \<lparr>rp_disk_name = ''disk.img'', rp_card_size = 2048, rp_sector_size = 512, rp_bs = zero_stats,
     rp_ts_last_acces = 0, rp_locks = no_locks, rp_world = (replicate 2048 0, 0)\<rparr>"

theorem rp2040w_trim_stores_heap_witness:
  "\<forall>e. \<exists>b1 e1 b2 e2. rp2040w_trim steady_fat (replicate 512 0xAA) 1 2 (steady_rp, e) = Inr (True, b1, e1) \<and>
    rp2040w_read steady_fat 1 2 (replicate 1024 0) (b1, e1) = Inr (True, concat (replicate 2 (replicate 512 0xAA)), b2, e2)"
proof
  fix e
  have s: "ff_serves steady_fat (\<lambda>_. True) fst snd" "\<forall>d w. ff_full steady_fat d w"
    by (auto simp: ff_serves_def ff_full_def steady_fat_def)
  have i: "rp2040w_inv (\<lambda>_. True) fst steady_rp" "length (rp2040w_disk fst steady_rp) = 2048"
    by (simp_all add: rp2040w_inv_def rp2040w_disk_def steady_rp_def)
  have l: "length (replicate 512 (0xAA :: byte)) = 512" "unat (1 :: u64) * 512 + unat (2 :: u32) * 512 \<le> length (rp2040w_disk fst steady_rp)"
    "length (replicate 1024 (0 :: byte)) = unat (2 :: u32) * 512"
    unfolding i(2) by simp_all
  have two: "unat (2 :: u32) = 2" by simp
  show "\<exists>b1 e1 b2 e2. rp2040w_trim steady_fat (replicate 512 0xAA) 1 2 (steady_rp, e) = Inr (True, b1, e1) \<and>
    rp2040w_read steady_fat 1 2 (replicate 1024 0) (b1, e1) = Inr (True, concat (replicate 2 (replicate 512 0xAA)), b2, e2)"
    using rp2040w_trim_stores_heap [OF s l(1) i(1) l(2,3), of e] unfolding two by blast
qed

end
