(* ===== verification/Server_In_Turn.thy ===== *)
theory Server_In_Turn
  imports Server_Session Backend_Teensy Backend_Rp2040w Com_Arduino
begin

text \<open>
  Boards without threads (Teensy, RP2040W): \<open>server::handler\<close> serves one connection after the other, and the
  sketch of the RP2040W (\<^verbatim>\<open>microcontrollers/RP2040W/main.ino\<close>) calls it again and again. Shown: what one session
  stored is there for the next ones.
\<close>

section \<open>One connection after the other\<close>

text \<open>
  The loop of \<open>handler\<close> in the builds without threads, for the connections that \<open>accept\<close> gives before the stop flag is found
  set. The result is every connection as it was left, and the server.
\<close>

fun handler_in_turn :: "nat \<Rightarrow> 'b backend_ops \<Rightarrow> nat \<Rightarrow> com_client list \<Rightarrow> 'b server \<Rightarrow> (com_client list \<times> 'b server) result" where
  "handler_in_turn fuel ops tid [] sv = Inr ([], sv)"
| "handler_in_turn fuel ops tid (cc # ccs) sv =
     bindR (handler fuel ops tid (sv\<lparr>sv_cc := cc\<rparr>)) (\<lambda>sv.
     bindR (handler_in_turn fuel ops tid ccs sv) (\<lambda>(left, sv'). Inr (sv_cc sv # left, sv')))"

text \<open>A run that returns ends in a state with \<open>P\<close>.\<close>

definition ends_in :: "('a \<Rightarrow> bool) \<Rightarrow> 'a result \<Rightarrow> bool" where
  "ends_in P r \<longleftrightarrow> (\<forall>a. r = Inr a \<longrightarrow> P a)"

lemma ends_in_simps [simp]: "ends_in P (Inl t)" "ends_in P (Inr a) = P a"
  by (simp_all add: ends_in_def)

lemma ends_in_bind: "ends_in Q r \<Longrightarrow> (\<And>a. Q a \<Longrightarrow> ends_in P (f a)) \<Longrightarrow> ends_in P (bindR r f)"
  by (cases r) simp_all

lemma ends_in_last: "(\<And>a. ends_in P (f a)) \<Longrightarrow> ends_in P (bindR r f)"
  by (cases r) simp_all

text \<open>The server keeps its option to use digests.\<close>

abbreviation chk_kept :: "'b server \<Rightarrow> 'b server \<Rightarrow> bool" where
  "chk_kept sv sv' \<equiv> digest_chk sv' = digest_chk sv"

lemma receive_pdu_chk: "ends_in (\<lambda>(_, _, _, sv'). chk_kept sv sv') (receive_pdu ops sv)"
  unfolding receive_pdu_def Let_def
  by (auto simp: case_prod_beta intro!: ends_in_last split: option.split)

lemma push_response_chk: "ends_in (\<lambda>(_, sv'). chk_kept sv sv') (push_response fuel ops tid ses p sv)"
  unfolding push_response_def Let_def
  by (rule ends_in_last) (auto simp: case_prod_beta intro!: ends_in_last split: sum.split option.split)

lemma handler_reject_chk: "ends_in (\<lambda>(_, h'). chk_kept (h_sv h) (h_sv h')) (handler_reject ifr p h)"
  unfolding handler_reject_def Let_def by (auto simp: case_prod_beta split: option.split)

lemma handler_clock_chk [simp]: "chk_kept (h_sv h) (h_sv (handler_clock t h))"
  by (simp add: handler_clock_def Let_def case_prod_beta)

lemma handler_errors_chk [simp]: "chk_kept (h_sv h) (h_sv (handler_errors ifr h))"
  by (simp add: handler_errors_def Let_def)

lemma handler_round_chk: "ends_in (\<lambda>h'. chk_kept (h_sv h) (h_sv h')) (handler_round fuel ops tid h)"
  unfolding handler_round_def
proof (rule ends_in_bind [OF receive_pdu_chk], clarify, unfold Let_def,
    rule ends_in_bind [where Q = "\<lambda>(_, sv'). chk_kept (h_sv h) sv'"], goal_cases)
  case (1 pdu ifr t sv)
  then show ?case
    by (auto intro!: ends_in_bind [OF push_response_chk] split: option.split)
next
  case (2 pdu ifr t sv r)
  have "ends_in (\<lambda>(_, h'). chk_kept (h_sv h) (h_sv h')) (handler_reject (fst r) pdu (h\<lparr>h_sv := snd r\<rparr>))"
    using handler_reject_chk [of "h\<lparr>h_sv := snd r\<rparr>" "fst r" pdu] 2 by (simp add: case_prod_beta)
  then show ?case using 2
    by (cases r) (auto intro!: ends_in_bind [where Q = "\<lambda>(_, h'). chk_kept (h_sv h) (h_sv h')"])
qed

lemma handler_loop_chk: "ends_in (\<lambda>h'. chk_kept (h_sv h) (h_sv h')) (handler_loop fuel ops tid rounds h)"
proof (induction rounds arbitrary: h)
  case (Suc rounds)
  show ?case unfolding handler_loop.simps
  proof (rule ends_in_bind [OF handler_round_chk])
    fix h1 :: "'a handler_st" assume "chk_kept (h_sv h) (h_sv h1)"
    then show "ends_in (\<lambda>h'. chk_kept (h_sv h) (h_sv h')) (if h_ok h1 then handler_loop fuel ops tid rounds h1 else Inr h1)"
      using Suc.IH [of h1] by simp
  qed
qed simp

lemma handler_chk: "ends_in (chk_kept sv) (handler fuel ops tid sv)"
  unfolding handler_def Let_def case_prod_beta
proof (rule ends_in_bind [OF handler_loop_chk])
  fix h :: "'a handler_st"
  assume "digest_chk (h_sv h) = digest_chk (h_sv \<lparr>h_sv = sv\<lparr>sv_s := snd (get_millis (sv_s sv))\<rparr>, h_ok = True, h_fail_counter = 0,
    h_busy = 0, h_prev_output = fst (get_millis (sv_s sv))\<rparr>)"
  then show "ends_in (chk_kept sv) (handler_finish ops tid (h_sv h))"
    unfolding handler_finish_def by (intro ends_in_last) auto
qed

section \<open>The disk lasts over the sessions\<close>

fun sessions_answered :: "bool \<Rightarrow> nat \<Rightarrow> byte list \<Rightarrow> initiator_session list \<Rightarrow> byte list list list \<Rightarrow> bool" where
  "sessions_answered chk bsz bytes [] pduss \<longleftrightarrow> pduss = []"
| "sessions_answered chk bsz bytes (x # xs) [] \<longleftrightarrow> False"
| "sessions_answered chk bsz bytes (x # xs) (pdus # pduss) \<longleftrightarrow>
     session_answered chk bsz bytes x pdus \<and> sessions_answered chk bsz (fold (io_store bsz) (snd x) bytes) xs pduss"

definition carries :: "bool \<Rightarrow> com_client \<Rightarrow> initiator_session \<Rightarrow> bool" where
  "carries chk cc x \<longleftrightarrow> cc_rx cc = session_bytes chk x \<and> cc_tx cc = [] \<and> cc_send_ok cc = []"

lemma length_ios_store:
  "list_all (io_ok bsz (length bytes) m) rs \<Longrightarrow> length (fold (io_store bsz) rs bytes) = length bytes"
proof (induction rs arbitrary: bytes)
  case (Cons r rs)
  then have "length (io_store bsz r bytes) = length bytes" using length_io_store by (auto simp: io_ok_def)
  then show ?case using Cons by simp
qed simp

lemma session_keeps_length:
  "session_ok bsz (length bytes) chk x \<Longrightarrow> length (fold (io_store bsz) (snd x) bytes) = length bytes"
  by (auto simp: session_ok_def Let_def split: option.splits intro: length_ios_store)

context block_storage
begin

lemma in_turn_law:
  assumes "usable inv tid (sv_s sv)" and "sv_ses sv = None" and "4 dvd bsz" and "2 ^ 24 \<le> lim * bsz"
    and "bytes = disk (sc_b (sv_s sv))" and "length bytes \<le> fuel" and "chk = digest_chk sv"
    and "list_all (session_ok bsz (length bytes) chk) xs" and "list_all2 (carries chk) ccs xs"
  shows "\<exists>left sv'. handler_in_turn fuel ops tid ccs sv = Inr (left, sv') \<and> sessions_answered chk bsz bytes xs (map cc_tx left) \<and>
    disk (sc_b (sv_s sv')) = fold (\<lambda>x. fold (io_store bsz) (snd x)) xs bytes \<and> usable inv tid (sv_s sv') \<and> sv_ses sv' = None"
  using assms(1,2,5-9)
proof (induction xs arbitrary: ccs sv bytes)
  case Nil
  then show ?case by simp
next
  case (Cons x xs)
  obtain cc ccs' where cc: "ccs = cc # ccs'" "carries chk cc x" "list_all2 (carries chk) ccs' xs"
    using Cons.prems(7) by (auto simp: list_all2_Cons2)
  have x: "session_ok bsz (length bytes) chk x" using Cons.prems(6) by simp
  have "\<exists>sv1 pdus. handler fuel ops tid (sv\<lparr>sv_cc := cc\<rparr>) = Inr sv1 \<and> cc_tx (sv_cc sv1) = cc_tx cc @ pdus \<and>
    session_answered chk bsz bytes x pdus \<and> disk (sc_b (sv_s sv1)) = fold (io_store bsz) (snd x) bytes \<and>
    usable inv tid (sv_s sv1) \<and> sv_ses sv1 = None"
    using session_law [of tid "sv\<lparr>sv_cc := cc\<rparr>" bytes fuel x] Cons.prems(1-5) x cc(2) assms(3,4) by (simp add: carries_def)
  then obtain sv1 where 1: "handler fuel ops tid (sv\<lparr>sv_cc := cc\<rparr>) = Inr sv1" "session_answered chk bsz bytes x (cc_tx (sv_cc sv1))"
    "disk (sc_b (sv_s sv1)) = fold (io_store bsz) (snd x) bytes" "usable inv tid (sv_s sv1)" "sv_ses sv1 = None"
    using cc(2) by (auto simp: carries_def)
  have "digest_chk sv1 = digest_chk sv" using handler_chk [of "sv\<lparr>sv_cc := cc\<rparr>" fuel ops tid] 1(1) by simp
  then obtain left sv' where 2: "handler_in_turn fuel ops tid ccs' sv1 = Inr (left, sv')"
    "sessions_answered chk bsz (fold (io_store bsz) (snd x) bytes) xs (map cc_tx left)"
    "disk (sc_b (sv_s sv')) = fold (\<lambda>x. fold (io_store bsz) (snd x)) xs (fold (io_store bsz) (snd x) bytes)"
    "usable inv tid (sv_s sv')" "sv_ses sv' = None"
    using Cons.IH [OF 1(4,5) 1(3) [symmetric] _ _ _ cc(3)] Cons.prems(4-6) session_keeps_length [OF x] by auto
  then show ?case using 1(1,2) by (simp add: cc(1))
qed

end


text \<open>A first initiator logs in and overwrites the second block; the next one, which does not log in, reads both.\<close>

definition example_small_write :: "byte list" where
  "example_small_write = [1, 0xa0, 0, 0, 0, 0, 0x02, 0] @ replicate 8 0 @ [0, 0, 0, 7] @ [0, 0, 0x02, 0] @ replicate 8 0 @ example_write_10"

definition example_small_read :: "byte list" where
  "example_small_read = [1, 0xc0] @ replicate 14 0 @ [0, 0, 0, 8] @ [0, 0, 0x04, 0] @ replicate 8 0 @
     [0x28, 0, 0, 0, 0, 0, 0, 0, 2, 0, 0, 0, 0, 0, 0, 0]"

definition example_visitors :: "initiator_session list" where
  "example_visitors = [([example_login], [Io_write example_small_write (replicate 512 9)]), ([], [Io_read example_small_read])]"

lemma example_small_hdrs:
  "length example_small_write = 48" "length example_small_read = 48" "example_small_write ! 0 = 1" "example_small_read ! 0 = 1"
  "example_small_write ! 4 = 0" "example_small_read ! 4 = 0" "datalen_of example_small_write = 512" "datalen_of example_small_read = 0"
  "slice 32 16 example_small_write = example_write_10"
  "slice 32 16 example_small_read = [0x28, 0, 0, 0, 0, 0, 0, 0, 2, 0, 0, 0, 0, 0, 0, 0]"
  by code_simp+

lemma example_small_fields:
  "get_CDB (request example_small_write d) = example_write_10"
  "get_CDB (request example_small_read d) = [0x28, 0, 0, 0, 0, 0, 0, 0, 2, 0, 0, 0, 0, 0, 0, 0]"
  "get_ExpDatLen (request example_small_read d) = 1024"
proof -
  show "get_ExpDatLen (request example_small_read d) = 1024"
    by (simp add: get_ExpDatLen_def get32_def my_NTOHL_ld32 get_uint32_t_def example_small_read_def nth_append)
qed (simp_all add: get_CDB_def example_small_hdrs)

lemma example_small_ranges:
  "io_range (Io_write example_small_write d) = (1, 1)" "io_range (Io_read example_small_read) = (0, 2)"
  using example_lba_len
  by (simp_all add: example_small_fields Let_def example_write_10_def read_lba_len_def get_lba_len_def get_uint32_t_def)

lemma example_visitors_ok: "list_all (session_ok 512 1024 False) example_visitors"
proof -
  obtain ses where ses: "negotiate example_login (session_new [] [] [] False) = Some ses" "max_seg_len ses = 8192"
    by (rule example_login_terms)
  have io: "io_ok 512 1024 m (Io_write example_small_write (replicate 512 9))" "io_ok 512 1024 m (Io_read example_small_read)" for m
    by (simp_all add: io_ok_def io_pdu_def example_small_hdrs example_small_fields example_small_ranges io_wants_def
        example_write_10_def Let_def get_bits_def min_less_iff_disj del: io_range.simps)
  have "max_seg_len (session_new [] [] [] False) = MAX_DATA_SEGMENT_SIZE" by (simp add: session_new_def)
  then show ?thesis
    using ses io example_login_is by (simp add: example_visitors_def session_ok_def session_terms_def MAX_DATA_SEGMENT_SIZE_def)
qed

definition example_teensy_server :: "(byte list \<times> nat \<times> nat) teensy41 server" where
  "example_teensy_server = \<lparr>sv_s = \<lparr>sc_b = \<lparr>te_card = example_card, te_led_read = False, te_led_write = False\<rparr>, trim_level = 1,
       serial = [], locked_by = None, sc_is = io_stats_reset, sc_env = \<lparr>clock = [], sys = [], entropy = [], machine_id = None\<rparr>\<rparr>,
     sv_cc = example_client [], sv_is = example_is, sv_target_name = ''test'', digest_chk = False, sv_ses = None\<rparr>"


end
