(* ===== verification/Pico_Main.thy ===== *)
theory Pico_Main
  imports Server_In_Turn Scsi_Inform
begin

text \<open>
  The sketch of the RP2040W (\<^verbatim>\<open>microcontrollers/RP2040W/main.ino\<close>): \<open>setup\<close> and \<open>loop\<close> over the connections,
  the card and the server of the other theories. LEDs and console output are left out.
\<close>

section \<open>The sketch\<close>

text \<open>\<open>pc_server\<close> is \<open>None\<close> while the pointer is null; it is zero until \<open>setup\<close> has built the server.\<close>

record 'w pico_st =
  pc_wifi_connected :: bool
  pc_server :: "'w backend_rp2040w server option"
  pc_watchdog :: bool

definition pico_new :: "'w pico_st" where
  "pico_new = \<lparr>pc_wifi_connected = False, pc_server = None, pc_watchdog = False\<rparr>"

definition pico_is_network_up :: "'w pico_st \<Rightarrow> bool" where
  "pico_is_network_up st = pc_wifi_connected st"

definition no_client :: com_client where
  "no_client = \<lparr>cc_rx = [], cc_tx = [], cc_send_ok = [], cc_local_address = [], cc_endpoint_name = []\<rparr>"

definition zero_iscsi_stats :: iscsi_stats_t where
  "zero_iscsi_stats = \<lparr>iscsiSsnCmdPDUs = 0, iscsiInstSsnFailures = 0, iscsiInstSsnFormatErrors = 0, iscsiInstSsnDigestErrors = 0,
     iscsiSsnTxDataOctets = 0, iscsiSsnRxDataOctets = 0, iscsiTgtLoginAccepts = 0, iscsiTgtLogoutNormals = 0\<rparr>"

text \<open>
  \<open>setup\<close>. What \<open>begin\<close> of the backend returns is not looked at. An exception is reported and leaves what was
  built before it: no server. \<open>w\<close> is the state of the radio, \<open>c0\<close> that of the card.
\<close>

definition pico_setup :: "nat \<Rightarrow> 'v Com_Arduino.wifi_lib \<Rightarrow> 'w ff_lib \<Rightarrow> byte list \<Rightarrow> 'v \<Rightarrow> 'w \<Rightarrow> env \<Rightarrow> ('w pico_st \<times> 'v) result" where
  "pico_setup fuel lib ff heap w c0 e =
     (case com_arduino_begin fuel lib 3260 w of
        Inl (Uncaught x) \<Rightarrow> Inr (pico_new, w)
      | Inl t \<Rightarrow> Inl t
      | Inr (up, w) \<Rightarrow>
          let st = pico_new\<lparr>pc_wifi_connected := up\<rparr>;
              (bs, e) = rp2040w_new ''test.dat'' c0 e;
              (_, bs) = rp2040w_begin ff bs;
              sd = scsi_new (rp2040w_ops ff heap) bs 1 e;
              s = \<lparr>sv_s = sd, sv_cc = no_client, sv_is = zero_iscsi_stats, sv_target_name = ''test'', digest_chk = False, sv_ses = None\<rparr>
          in Inr (st\<lparr>pc_server := Some s, pc_watchdog := True\<rparr>, w))"

text \<open>
  One call of \<open>loop\<close>, with the connections that are accepted in it. An exception is reported (\<open>Inl\<close>), and \<open>loop\<close> is called
  again; a call through a null pointer is undefined.
\<close>

definition pico_loop :: "nat \<Rightarrow> 'w ff_lib \<Rightarrow> byte list \<Rightarrow> nat \<Rightarrow> com_client list \<Rightarrow> 'w pico_st
    \<Rightarrow> (string + com_client list \<times> 'w pico_st) result" where
  "pico_loop fuel ff heap tid ccs st =
     (case pc_server st of
        None \<Rightarrow> Inl Mem_oob
      | Some s \<Rightarrow>
          (case handler_in_turn fuel (rp2040w_ops ff heap) tid ccs s of
             Inl (Uncaught x) \<Rightarrow> Inr (Inl x)
           | Inl t \<Rightarrow> Inl t
           | Inr (left, s) \<Rightarrow> Inr (Inr (left, st\<lparr>pc_server := Some s\<rparr>))))"

section \<open>A board without its card\<close>

text \<open>
  When the file cannot be opened on the card, say because there is none, the board serves all the same: \<open>setup\<close> ends with a
  server whose device has no blocks, and READ CAPACITY then announces a last block of \<open>2 ^ 32 - 1\<close>.
\<close>

theorem pico_serves_without_card:
  assumes "wait_for_wifi fuel lib (wl_start lib w) = Inr w1" and "\<And>c. \<not> fst (ff_open ff ''test.dat'' c)"
  shows "\<exists>st s. pico_setup fuel lib ff heap w c0 e = Inr (st, wl_listen lib 3260 w1) \<and> pc_server st = Some s \<and> pc_watchdog st \<and>
    be_get_size_in_blocks (rp2040w_ops ff heap) (sc_b (sv_s s)) = 0 \<and>
    (\<exists>d. r_data (read_capacity_10 (rp2040w_ops ff heap) (sv_s s)) = Some d \<and> get_uint32_t d 0 = 0xffffffff)"
proof -
  obtain t e1 where t: "get_micros e = (t, e1)" by fastforce
  obtain c where c: "ff_open ff ''test.dat'' (ff_mount ff c0) = (False, c)"
    using assms(2) [of "ff_mount ff c0"] by (cases "ff_open ff ''test.dat'' (ff_mount ff c0)") simp
  have ones: "(ucast (- 1 :: u64) :: u32) = 0xffffffff" by code_simp
  have z: "get_uint32_t [byte_shr 24 (- 1), byte_shr 16 (- 1), byte_shr 8 (- 1), byte_shr 0 (- 1), b, b', b'', b'''] 0 = 0xffffffff"
    for b b' b'' b''' using get_uint32_t_bytes [where o' = 0 and x = "- 1 :: u64"] ones by simp
  show ?thesis
    using c by (simp add: pico_setup_def com_arduino_begin_def assms(1) rp2040w_new_def t rp2040w_begin_def scsi_new_def rp2040w_ops_def
        rp2040w_get_size_in_blocks_def read_capacity_10_def inline_reply_def Let_def z)
qed

end
