(* ===== verification/Snmp_Elem.thy ===== *)
theory Snmp_Elem
  imports Snmp_Text
begin

text \<open>
  The encoding the SNMP agent speaks: the reader of received bytes (\<^verbatim>\<open>snmp/block.cpp\<close>), the elements
  of a reply and their serialisation (\<^verbatim>\<open>snmp/snmp_elem.cpp\<close>), and the reading of integers and object
  identifiers (\<^verbatim>\<open>snmp/snmp.cpp\<close>). Elements carry the 8-bit length the code keeps; an element whose
  length wrapped writes outside its buffer, which is the trap \<open>Mem_oob\<close>. Shown: where nothing wraps, a
  payload is the BER encoding, and integers and object identifiers are read back as they were written.
\<close>

section \<open>Runs that may throw\<close>

text \<open>The exception \<open>std::range_error\<close> of a reader at its end, which the agent catches; or a trap.\<close>

datatype snmp_abort = Range_error | Snmp_trap trap

type_synonym 'a snmp_run = "snmp_abort + 'a"

definition bindE :: "'e + 'a \<Rightarrow> ('a \<Rightarrow> 'e + 'b) \<Rightarrow> 'e + 'b" where
  "bindE r f = (case r of Inl t \<Rightarrow> Inl t | Inr a \<Rightarrow> f a)"

lemma bindE_simps [simp]: "bindE (Inl t) f = Inl t" "bindE (Inr a) f = f a"
  by (simp_all add: bindE_def)

lemma bindE_cong [fundef_cong]: "r = r' \<Longrightarrow> (\<And>a. r' = Inr a \<Longrightarrow> f a = g a) \<Longrightarrow> bindE r f = bindE r' g"
  by (cases r') simp_all

definition snmp_result :: "'a result \<Rightarrow> 'a snmp_run" where
  "snmp_result r = (case r of Inl t \<Rightarrow> Inl (Snmp_trap t) | Inr a \<Rightarrow> Inr a)"

lemma snmp_result_simps [simp]: "snmp_result (Inl t) = Inl (Snmp_trap t)" "snmp_result (Inr a) = Inr a"
  by (simp_all add: snmp_result_def)

section \<open>The reader\<close>

record block =
  blk_data :: "byte list"
  blk_offset :: nat

definition new_block :: "byte list \<Rightarrow> block" where
  "new_block d = \<lparr>blk_data = d, blk_offset = 0\<rparr>"

definition get_bytes_left :: "block \<Rightarrow> nat" where
  "get_bytes_left b = length (blk_data b) - blk_offset b"

definition blk_is_empty :: "block \<Rightarrow> bool" where
  "blk_is_empty b \<longleftrightarrow> blk_offset b = length (blk_data b)"

definition get_byte :: "block \<Rightarrow> (byte \<times> block) snmp_run" where
  "get_byte b =
     (if blk_offset b = length (blk_data b) then Inl Range_error
      else if length (blk_data b) < blk_offset b then Inl (Snmp_trap Mem_oob)
      else Inr (blk_data b ! blk_offset b, b\<lparr>blk_offset := blk_offset b + 1\<rparr>))"

definition get_bytes :: "nat \<Rightarrow> block \<Rightarrow> (block \<times> block) snmp_run" where
  "get_bytes n b =
     (if length (blk_data b) < blk_offset b + n then Inl Range_error
      else Inr (new_block (slice (blk_offset b) n (blk_data b)), b\<lparr>blk_offset := blk_offset b + n\<rparr>))"

definition skip_bytes :: "nat \<Rightarrow> block \<Rightarrow> block snmp_run" where
  "skip_bytes n b =
     (if length (blk_data b) < blk_offset b + n then Inl Range_error
      else Inr (b\<lparr>blk_offset := blk_offset b + n\<rparr>))"

text \<open>What a reader still has to give, and the operations in terms of that.\<close>

definition blk_rest :: "block \<Rightarrow> byte list" where
  "blk_rest b = drop (blk_offset b) (blk_data b)"

definition blk_ok :: "block \<Rightarrow> bool" where
  "blk_ok b \<longleftrightarrow> blk_offset b \<le> length (blk_data b)"

lemma new_block_simps [simp]: "blk_rest (new_block d) = d" "blk_ok (new_block d)" "get_bytes_left (new_block d) = length d"
  by (simp_all add: new_block_def blk_rest_def blk_ok_def get_bytes_left_def)

lemma blk_is_empty_iff: "blk_ok b \<Longrightarrow> blk_is_empty b \<longleftrightarrow> blk_rest b = []"
  by (auto simp: blk_is_empty_def blk_rest_def blk_ok_def)

lemma get_byte_law:
  assumes "blk_ok b" and "blk_rest b = x # xs"
  shows "get_byte b = Inr (x, b\<lparr>blk_offset := blk_offset b + 1\<rparr>)"
    "blk_ok (b\<lparr>blk_offset := blk_offset b + 1\<rparr>)" "blk_rest (b\<lparr>blk_offset := blk_offset b + 1\<rparr>) = xs"
proof -
  have l: "blk_offset b < length (blk_data b)" using assms(2) by (simp add: blk_rest_def) (metis drop_eq_Nil leI list.distinct(1))
  then have "drop (blk_offset b) (blk_data b) = blk_data b ! blk_offset b # drop (Suc (blk_offset b)) (blk_data b)"
    by (simp add: Cons_nth_drop_Suc)
  then show "get_byte b = Inr (x, b\<lparr>blk_offset := blk_offset b + 1\<rparr>)"
    "blk_ok (b\<lparr>blk_offset := blk_offset b + 1\<rparr>)" "blk_rest (b\<lparr>blk_offset := blk_offset b + 1\<rparr>) = xs"
    using l assms(2) by (simp_all add: get_byte_def blk_rest_def blk_ok_def)
qed

lemma get_bytes_law:
  assumes "blk_ok b" and "blk_rest b = xs @ ys" and "n = length xs"
  shows "get_bytes n b = Inr (new_block xs, b\<lparr>blk_offset := blk_offset b + n\<rparr>)"
    "skip_bytes n b = Inr (b\<lparr>blk_offset := blk_offset b + n\<rparr>)"
    "blk_ok (b\<lparr>blk_offset := blk_offset b + n\<rparr>)" "blk_rest (b\<lparr>blk_offset := blk_offset b + n\<rparr>) = ys"
proof -
  have "length (drop (blk_offset b) (blk_data b)) = length xs + length ys" using assms(2) by (simp add: blk_rest_def)
  then have l: "blk_offset b + n \<le> length (blk_data b)" using assms(1,3) by (simp add: blk_ok_def)
  show "get_bytes n b = Inr (new_block xs, b\<lparr>blk_offset := blk_offset b + n\<rparr>)"
    "skip_bytes n b = Inr (b\<lparr>blk_offset := blk_offset b + n\<rparr>)"
    "blk_ok (b\<lparr>blk_offset := blk_offset b + n\<rparr>)"
    using l assms by (simp_all add: get_bytes_def skip_bytes_def blk_ok_def blk_rest_def slice_def)
  have "drop (blk_offset b + n) (blk_data b) = drop n (drop (blk_offset b) (blk_data b))" by (simp add: add.commute)
  also have "\<dots> = ys" using assms(2,3) unfolding blk_rest_def by (simp del: drop_drop)
  finally show "blk_rest (b\<lparr>blk_offset := blk_offset b + n\<rparr>) = ys" by (simp add: blk_rest_def)
qed

lemma get_byte_left: "get_byte b = Inr (x, b') \<Longrightarrow> Suc (get_bytes_left b') = get_bytes_left b"
  by (auto simp: get_byte_def get_bytes_left_def split: if_splits)

lemma get_bytes_left_less:
  "get_bytes n b = Inr (t, b') \<Longrightarrow> get_bytes_left t + get_bytes_left b' = get_bytes_left b \<and> get_bytes_left t = n"
  by (auto simp: get_bytes_def get_bytes_left_def new_block_def split: if_splits)

lemma skip_bytes_left: "skip_bytes n b = Inr b' \<Longrightarrow> get_bytes_left b' \<le> get_bytes_left b"
  by (auto simp: skip_bytes_def get_bytes_left_def split: if_splits)

section \<open>Reading integers and object identifiers\<close>

function get_INTEGER_loop :: "block \<Rightarrow> u64 \<Rightarrow> u64 snmp_run" where
  "get_INTEGER_loop b v =
     (if blk_is_empty b then Inr v
      else bindE (get_byte b) (\<lambda>(x, b). get_INTEGER_loop b (push_bit 8 v OR ucast x)))"
  by pat_completeness auto
termination by (relation "measure (\<lambda>(b, v). get_bytes_left b)") (auto dest: get_byte_left)

definition get_INTEGER :: "block \<Rightarrow> u64 snmp_run" where
  "get_INTEGER b = get_INTEGER_loop b 0"

text \<open>\<open>myformat(".%d", v)\<close> prints the 32-bit unsigned number as a signed one.\<close>

definition show_subid :: "u32 \<Rightarrow> string" where
  "show_subid v = CHR ''.'' # show_int (sint v)"

function get_OID_loop :: "block \<Rightarrow> bool \<Rightarrow> u32 \<Rightarrow> string \<Rightarrow> (bool \<times> string) snmp_run" where
  "get_OID_loop b first v out =
     (if blk_is_empty b then Inr (v = 0, out)
      else bindE (get_byte b) (\<lambda>(cur_byte, b).
        if cur_byte < 128
        then let v = push_bit 7 v OR ucast cur_byte;
                 out = out @ (if first \<and> v = 43 then ''1.3'' else show_subid v)
             in get_OID_loop b False 0 out
        else let v = push_bit 7 v OR ucast (cur_byte AND 127) in get_OID_loop b False v out))"
  by pat_completeness auto
termination by (relation "measure (\<lambda>(b, first, v, out). get_bytes_left b)") (auto dest: get_byte_left)

definition get_OID :: "block \<Rightarrow> (bool \<times> string) snmp_run" where
  "get_OID b = get_OID_loop b True 0 []"

declare get_INTEGER_loop.simps [simp del] get_OID_loop.simps [simp del]

text \<open>The loops as folds over the bytes.\<close>

lemma get_INTEGER_loop_fold:
  "blk_ok b \<Longrightarrow> get_INTEGER_loop b v = Inr (foldl (\<lambda>v x. push_bit 8 v OR ucast x) v (blk_rest b))"
proof (induction "blk_rest b" arbitrary: b v)
  case Nil
  then show ?case using blk_is_empty_iff [of b] by (subst get_INTEGER_loop.simps) simp
next
  case (Cons x xs)
  note g = get_byte_law [OF Cons.prems Cons.hyps(2) [symmetric]]
  show ?case using Cons.hyps g blk_is_empty_iff [OF Cons.prems]
    by (subst get_INTEGER_loop.simps) (simp add: Cons.hyps(2) [symmetric])
qed

fun oid_fold :: "byte list \<Rightarrow> bool \<Rightarrow> u32 \<Rightarrow> string \<Rightarrow> bool \<times> string" where
  "oid_fold [] first v out = (v = 0, out)"
| "oid_fold (x # xs) first v out =
     (let w = push_bit 7 v OR ucast (x AND 127) in
      if x < 128 then oid_fold xs False 0 (out @ (if first \<and> w = 43 then ''1.3'' else show_subid w))
      else oid_fold xs False w out)"

lemma and_127_small: "x < 128 \<Longrightarrow> (x :: byte) AND 127 = x"
proof -
  assume x: "x < 128"
  have "(127 :: byte) = mask 7" by (simp add: mask_eq_exp_minus_1)
  then have "x AND 127 = take_bit 7 x" by (simp add: take_bit_eq_mask)
  also have "unat \<dots> = unat x" using x by (simp add: word_less_nat_alt take_bit_eq_mod unat_mod)
  finally show ?thesis by (simp add: word_unat_eq_iff)
qed

lemma get_OID_loop_fold:
  "blk_ok b \<Longrightarrow> get_OID_loop b first v out = Inr (oid_fold (blk_rest b) first v out)"
proof (induction "blk_rest b" arbitrary: b first v out)
  case Nil
  then show ?case using blk_is_empty_iff [of b] by (subst get_OID_loop.simps) simp
next
  case (Cons x xs)
  note g = get_byte_law [OF Cons.prems Cons.hyps(2) [symmetric]]
  show ?case using Cons.hyps g blk_is_empty_iff [OF Cons.prems]
    by (subst get_OID_loop.simps) (simp add: Cons.hyps(2) [symmetric] Let_def and_127_small)
qed


section \<open>The elements of a reply\<close>

datatype snmp_integer_type = si_counter32 | si_integer | si_counter64 | si_ticks

text \<open>
  The classes derived from \<open>snmp_elem\<close>. An integer, a string and an object identifier carry \<open>len\<close>, the
  8-bit size of their encoding; \<open>snmp_pdu\<close> is a sequence with another type byte.
\<close>

datatype snmp_elem =
    Snmp_integer snmp_integer_type u64 byte
  | Snmp_sequence "snmp_elem list"
  | Snmp_null
  | Snmp_octet_string "byte list" byte
  | Snmp_oid "byte list" byte
  | Snmp_pdu byte "snmp_elem list"

definition snmp_integer_new :: "snmp_integer_type \<Rightarrow> u64 \<Rightarrow> snmp_elem" where
  "snmp_integer_new ty v = (if v \<le> 0xffffffff then Snmp_integer ty v (4 + 2) else Snmp_integer ty v (8 + 2))"

definition snmp_octet_string_new :: "byte list \<Rightarrow> snmp_elem" where
  "snmp_octet_string_new v = Snmp_octet_string v (of_nat (length v + 2))"

text \<open>
  \<open>snmp_oid(oid)\<close>: each number of the text is cut into groups of 7 bits, written most significant
  first into a buffer of as many bytes as the text has characters.
\<close>

function oid_groups :: "u64 \<Rightarrow> byte list" where
  "oid_groups v = (if v = 0 then [] else ucast (v AND 127) # oid_groups (drop_bit 7 v))"
  by pat_completeness auto
termination
proof (relation "measure unat")
  fix v :: u64 assume "v \<noteq> 0"
  then have "unat v \<noteq> 0" by (simp add: unat_eq_zero)
  moreover have "unat (drop_bit 7 v) = unat v div 128" by (simp only: unat_drop_bit_eq drop_bit_eq_div) (simp add: unat_div)
  ultimately show "(drop_bit 7 v, v) \<in> measure unat" by simp
qed simp

declare oid_groups.simps [simp del]

definition oid_put :: "byte list \<Rightarrow> byte list" where
  "oid_put temp = (case temp of [] \<Rightarrow> [] | g # gs \<Rightarrow> rev (map (\<lambda>x. x OR 128) gs) @ [g])"

definition oid_number :: "u64 \<Rightarrow> byte list" where
  "oid_number v = oid_put (if v = 0 then [0] else oid_groups v)"

function snmp_oid_loop :: "string \<Rightarrow> byte list" where
  "snmp_oid_loop work =
     (if work = [] then []
      else oid_number (word_of_int (atoll work)) @
        (case str_find work ''.'' of None \<Rightarrow> [] | Some dot \<Rightarrow> snmp_oid_loop (drop (dot + 1) work)))"
  by pat_completeness auto
termination by (relation "measure length") auto

declare snmp_oid_loop.simps [simp del]

definition snmp_oid_bytes :: "string \<Rightarrow> byte list" where
  "snmp_oid_bytes oid = (if take 4 oid = ''1.3.'' then 43 # snmp_oid_loop (drop 4 oid) else snmp_oid_loop oid)"

definition snmp_oid_new :: "string \<Rightarrow> snmp_elem result" where
  "snmp_oid_new oid =
     (let v = snmp_oid_bytes oid
      in if length oid < length v then Inl Mem_oob else Inr (Snmp_oid v (of_nat (length v + 2))))"

section \<open>Serialising\<close>

definition integer_type_byte :: "snmp_integer_type \<Rightarrow> byte" where
  "integer_type_byte ty = (case ty of si_integer \<Rightarrow> 0x02 | si_counter32 \<Rightarrow> 0x41 | si_counter64 \<Rightarrow> 0x46 | si_ticks \<Rightarrow> 0x43)"

text \<open>\<open>out\<close> has \<open>len\<close> bytes; the first two are written, and then \<open>pl_len = len - 2\<close> (8 bits) more.\<close>

definition elem_payload :: "byte \<Rightarrow> byte \<Rightarrow> (nat \<Rightarrow> byte list) \<Rightarrow> byte list result" where
  "elem_payload ty len content =
     (let pl_len = len - 2
      in if unat len < 2 + unat pl_len then Inl Mem_oob else Inr (ty # pl_len # content (unat pl_len)))"

definition integer_bytes :: "u64 \<Rightarrow> nat \<Rightarrow> byte list" where
  "integer_bytes v pl_len = map (\<lambda>i. ucast (drop_bit (pl_len * 8 - (i + 1) * 8) v)) [0..<pl_len]"

text \<open>
  A sequence is put together in a buffer of 258 bytes, of which the first \<open>o\<close> (8 bits) are returned.
  \<open>get_payload\<close> stands for the buffer together with the size it returns.
\<close>

fun get_payload :: "snmp_elem \<Rightarrow> byte list result"
and sequence_loop :: "snmp_elem list \<Rightarrow> byte \<Rightarrow> byte list \<Rightarrow> (byte \<times> byte list) result" where
  "get_payload (Snmp_integer ty v len) = elem_payload (integer_type_byte ty) len (integer_bytes v)"
| "get_payload (Snmp_octet_string v len) = elem_payload 0x04 len (\<lambda>n. take n v)"
| "get_payload (Snmp_oid v len) = elem_payload 0x06 len (\<lambda>n. take n v)"
| "get_payload Snmp_null = Inr [0x05, 0x00]"
| "get_payload (Snmp_sequence es) =
     bindR (sequence_loop es 2 ((replicate 258 0)[0 := 0x30])) (\<lambda>(o', out).
     Inr (take (unat o') (out[1 := o' - 2])))"
| "get_payload (Snmp_pdu ty es) =
     bindR (sequence_loop es 2 ((replicate 258 0)[0 := 0x30])) (\<lambda>(o', out).
     Inr ((take (unat o') (out[1 := o' - 2]))[0 := ty]))"
| "sequence_loop [] o' out = Inr (o', out)"
| "sequence_loop (e # es) o' out =
     bindR (get_payload e) (\<lambda>pl.
       if 257 \<le> unat o' + length pl then Inr (o', out)
       else sequence_loop es (o' + of_nat (length pl)) (overwrite (unat o') pl out))"


section \<open>The encoding, and when it is what is written\<close>

definition tlv :: "byte \<Rightarrow> byte list \<Rightarrow> byte list" where
  "tlv ty content = ty # of_nat (length content) # content"

fun ber :: "snmp_elem \<Rightarrow> byte list" where
  "ber (Snmp_integer ty v len) = tlv (integer_type_byte ty) (integer_bytes v (unat len - 2))"
| "ber (Snmp_octet_string v len) = tlv 0x04 v"
| "ber (Snmp_oid v len) = tlv 0x06 v"
| "ber Snmp_null = tlv 0x05 []"
| "ber (Snmp_sequence es) = tlv 0x30 (concat (map ber es))"
| "ber (Snmp_pdu ty es) = tlv ty (concat (map ber es))"

text \<open>The element and all parts have at most 253 bytes of content.\<close>

fun ber_fits :: "snmp_elem \<Rightarrow> bool" where
  "ber_fits (Snmp_integer ty v len) \<longleftrightarrow> len = 6 \<or> len = 10"
| "ber_fits (Snmp_octet_string v len) \<longleftrightarrow> length v \<le> 253 \<and> len = of_nat (length v + 2)"
| "ber_fits (Snmp_oid v len) \<longleftrightarrow> length v \<le> 253 \<and> len = of_nat (length v + 2)"
| "ber_fits Snmp_null \<longleftrightarrow> True"
| "ber_fits (Snmp_sequence es) \<longleftrightarrow> (\<forall>e \<in> set es. ber_fits e) \<and> length (concat (map ber es)) \<le> 253"
| "ber_fits (Snmp_pdu ty es) \<longleftrightarrow> (\<forall>e \<in> set es. ber_fits e) \<and> length (concat (map ber es)) \<le> 253"

text \<open>No part is a string or object identifier whose length wrapped to 0 or 1.\<close>

fun ber_safe :: "snmp_elem \<Rightarrow> bool" where
  "ber_safe (Snmp_integer ty v len) \<longleftrightarrow> 2 \<le> unat len"
| "ber_safe (Snmp_octet_string v len) \<longleftrightarrow> 2 \<le> unat len"
| "ber_safe (Snmp_oid v len) \<longleftrightarrow> 2 \<le> unat len"
| "ber_safe Snmp_null \<longleftrightarrow> True"
| "ber_safe (Snmp_sequence es) \<longleftrightarrow> (\<forall>e \<in> set es. ber_safe e)"
| "ber_safe (Snmp_pdu ty es) \<longleftrightarrow> (\<forall>e \<in> set es. ber_safe e)"

lemma length_integer_bytes [simp]: "length (integer_bytes v n) = n"
  by (simp add: integer_bytes_def)

lemma length_tlv [simp]: "length (tlv ty c) = length c + 2"
  by (simp add: tlv_def)

lemma unat_small_byte: "n \<le> 255 \<Longrightarrow> unat (of_nat n :: byte) = n"
  by (simp add: unat_of_nat)

lemma unat_minus_2: "2 \<le> unat (len :: byte) \<Longrightarrow> unat (len - 2) = unat len - 2"
  by (simp add: unat_sub word_le_nat_alt)

lemma elem_payload_ok:
  "2 \<le> unat len \<Longrightarrow> elem_payload ty len c = Inr (ty # (len - 2) # c (unat len - 2))"
  by (simp add: elem_payload_def Let_def unat_minus_2)

lemma elem_payload_tlv:
  assumes "length (c n) = n" and "n \<le> 253" and "len = of_nat (n + 2)"
  shows "elem_payload ty len c = Inr (tlv ty (c n))"
proof -
  have u: "unat len = n + 2" using assms(2,3) unat_small_byte [of "n + 2"] by simp
  have "len - 2 = of_nat n" using assms(3) by simp
  then show ?thesis using elem_payload_ok [of len ty c] u assms(1) by (simp add: tlv_def)
qed

lemma elem_payload_oob: "unat len < 2 \<Longrightarrow> elem_payload ty len c = Inl Mem_oob"
proof -
  assume "unat len < 2"
  then have "unat len = 0 \<or> unat len = 1" by linarith
  then have "len = 0 \<or> len = 1" by (metis unat_0 unat_1 word_unat_eq_iff)
  then show ?thesis by (auto simp: elem_payload_def Let_def)
qed

lemma take_overwrite_header:
  fixes t l :: byte
  assumes "length C \<le> 253"
  shows "take (length C + 2) ((overwrite 2 C ((replicate 258 0)[0 := t]))[1 := l]) = t # l # C"
proof -
  have "(replicate 258 0)[0 := t] = t # 0 # replicate 256 (0 :: byte)" by (simp add: numeral_eq_Suc)
  then show ?thesis using assms by (simp add: overwrite_def numeral_2_eq_2)
qed

lemma overwrite_next:
  assumes "off + length d1 + length d2 \<le> length xs"
  shows "overwrite (off + length d1) d2 (overwrite off d1 xs) = overwrite off (d1 @ d2) xs"
  using overwrite_split [OF refl assms] .

lemma payload_ber:
  "ber_fits e \<Longrightarrow> get_payload e = Inr (ber e)"
  "(\<forall>e \<in> set es. ber_fits e) \<Longrightarrow> unat o' + length (concat (map ber es)) \<le> 255 \<Longrightarrow> length out = 258 \<Longrightarrow>
   sequence_loop es o' out =
     Inr (o' + of_nat (length (concat (map ber es))), overwrite (unat o') (concat (map ber es)) out)"
proof (induction e and es o' out rule: get_payload_sequence_loop.induct)
  case (1 ty v len)
  then show ?case using elem_payload_tlv [of "integer_bytes v" "unat len - 2" len] by auto
next
  case (2 v len)
  then show ?case using elem_payload_tlv [of "\<lambda>n. take n v" "length v" len] by simp
next
  case (3 v len)
  then show ?case using elem_payload_tlv [of "\<lambda>n. take n v" "length v" len] by simp
next
  case 4
  then show ?case by (simp add: tlv_def)
next
  case (5 es)
  let ?C = "concat (map ber es)"
  have "unat (2 + of_nat (length ?C) :: byte) = length ?C + 2"
    using unat_small_byte [of "length ?C + 2"] 5 by (simp add: add.commute)
  then show ?case using 5 take_overwrite_header [of ?C "0x30" "of_nat (length ?C)"] by (simp add: tlv_def)
next
  case (6 ty es)
  let ?C = "concat (map ber es)"
  have "unat (2 + of_nat (length ?C) :: byte) = length ?C + 2"
    using unat_small_byte [of "length ?C + 2"] 6 by (simp add: add.commute)
  then show ?case using 6 take_overwrite_header [of ?C "0x30" "of_nat (length ?C)"] by (simp add: tlv_def)
next
  case (7 o' out)
  then show ?case by simp
next
  case (8 e es o' out)
  let ?p = "ber e" and ?C = "concat (map ber es)"
  have p: "get_payload e = Inr ?p" using 8 by simp
  have u: "unat (o' + of_nat (length ?p)) = unat o' + length ?p"
    using 8(4) unat_small_byte [of "unat o' + length ?p"] by simp
  have "sequence_loop es (o' + of_nat (length ?p)) (overwrite (unat o') ?p out) =
      Inr (o' + of_nat (length ?p) + of_nat (length ?C), overwrite (unat o' + length ?p) ?C (overwrite (unat o') ?p out))"
    using 8(2) [of ?p] 8(3-5) u by simp
  then show ?case using p 8(4,5) overwrite_next [of "unat o'" ?p ?C out] by (simp add: add.assoc)
qed

lemma unat_byte_le: "unat (x :: byte) \<le> 255"
  using unsigned_less [of x, where 'a = nat] by simp

lemma unat_byte_minus_2 [simp]: "unat (x :: byte) - 2 < 254"
  using unat_byte_le [of x] by linarith

lemma payload_safe:
  "ber_safe e \<Longrightarrow> \<exists>p. get_payload e = Inr p \<and> length p \<le> 255"
  "(\<forall>e \<in> set es. ber_safe e) \<Longrightarrow> length out = 258 \<Longrightarrow>
   \<exists>o'' out'. sequence_loop es o' out = Inr (o'', out') \<and> length out' = 258"
proof (induction e and es o' out rule: get_payload_sequence_loop.induct)
  case (8 e es o' out)
  then obtain p where p: "get_payload e = Inr p" "length p \<le> 255" by auto
  show ?case
  proof (cases "257 \<le> unat o' + length p")
    case False
    then have "length (overwrite (unat o') p out) = 258" using 8(4) by simp
    then show ?thesis using 8(2) [OF False] 8(3) p False by simp
  qed (use p 8(4) in simp)
next
  case (5 es)
  then obtain o' out where "sequence_loop es 2 ((replicate 258 0)[0 := 0x30]) = Inr (o', out)" by auto
  then show ?case using unat_byte_le [of o'] by (simp add: min_def)
next
  case (6 ty es)
  then obtain o' out where "sequence_loop es 2 ((replicate 258 0)[0 := 0x30]) = Inr (o', out)" by auto
  then show ?case using unat_byte_le [of o'] by (simp add: min_def)
qed (auto simp: elem_payload_ok Suc_le_eq intro: min.strict_coboundedI2)


section \<open>Round trips\<close>

lemma integer_bytes_Suc: "integer_bytes v (Suc n) = ucast (drop_bit (8 * n) v) # integer_bytes v n"
  by (simp add: integer_bytes_def upt_conv_Cons map_Suc_upt [symmetric] del: upt_Suc) (simp add: o_def mult.commute)

lemma fold_integer_bytes:
  "foldl (\<lambda>v x. push_bit 8 v OR ucast x) a (integer_bytes v n) = (push_bit (8 * n) a OR take_bit (8 * n) v :: u64)"
proof (induction n arbitrary: a)
  case 0
  then show ?case by (simp add: integer_bytes_def)
next
  case (Suc n)
  have "push_bit (8 * n) (push_bit 8 a OR ucast (ucast (drop_bit (8 * n) v) :: byte)) OR take_bit (8 * n) v =
      (push_bit (8 * Suc n) a OR take_bit (8 * Suc n) v)"
    by (rule bit_word_eqI) (auto simp: bit_simps add.commute [of 8])
  then show ?case by (simp add: integer_bytes_Suc Suc.IH)
qed

lemma get_INTEGER_integer_bytes: "get_INTEGER (new_block (integer_bytes v n)) = Inr (take_bit (8 * n) v)"
  using fold_integer_bytes [of 0 v n] by (simp add: get_INTEGER_def get_INTEGER_loop_fold)

lemma get_INTEGER_new:
  assumes "snmp_integer_new ty v = Snmp_integer ty' w len"
  shows "get_INTEGER (new_block (integer_bytes w (unat len - 2))) = Inr v"
proof (cases "v \<le> 0xffffffff")
  case True
  then have "unat v < 2 ^ 32" by (simp add: word_le_nat_alt)
  then have "take_bit 32 v = v" by (simp add: word_unat_eq_iff unsigned_take_bit_eq take_bit_nat_eq_self)
  then show ?thesis using assms True by (auto simp: snmp_integer_new_def get_INTEGER_integer_bytes)
next
  case False
  have "take_bit 64 v = v" by (rule bit_word_eqI) (simp add: bit_simps)
  then show ?thesis using assms False by (auto simp: snmp_integer_new_def get_INTEGER_integer_bytes)
qed

lemma oid_text_dot:
  "str_find (oid_text (n # ns)) ''.'' = (if ns = [] then None else Some (length (show_nat n)))"
  using show_nat_no_dot [of n] str_find_dot_append [of "show_nat n" "oid_text ns"]
  by (cases "ns = []") (simp_all add: oid_text_Cons str_find_dot, simp add: oid_text_def str_find_dot)

lemma oid_text_head: "oid_text (n # ns) = show_nat n @ (if ns = [] then [] else CHR ''.'' # oid_text ns)"
  by (cases "ns = []") (simp_all add: oid_text_Cons, simp add: oid_text_def)

lemma atoll_oid_text: "n < 2 ^ 63 \<Longrightarrow> atoll (oid_text (n # ns)) = int n"
  unfolding atoll_def oid_text_head by (rule strtoll_show_nat) (simp_all add: is_digit_def)

lemma snmp_oid_loop_text:
  "\<forall>n \<in> set ns. n < 2 ^ 63 \<Longrightarrow> snmp_oid_loop (oid_text ns) = concat (map (\<lambda>n. oid_number (of_nat n)) ns)"
proof (induction ns)
  case Nil
  then show ?case by (simp add: snmp_oid_loop.simps)
next
  case (Cons n ns)
  then have "snmp_oid_loop (oid_text (n # ns)) = oid_number (of_nat n) @
      (case str_find (oid_text (n # ns)) ''.'' of None \<Rightarrow> [] | Some dot \<Rightarrow> snmp_oid_loop (drop (dot + 1) (oid_text (n # ns))))"
    by (subst snmp_oid_loop.simps) (simp add: atoll_oid_text)
  then show ?case using Cons by (simp add: oid_text_dot oid_text_Cons)
qed

lemma oid_text_13: "ns \<noteq> [] \<Longrightarrow> oid_text (1 # 3 # ns) = ''1.3.'' @ oid_text ns"
proof -
  have "show_nat 1 = ''1''" "show_nat 3 = ''3''" by code_simp+
  then show "ns \<noteq> [] \<Longrightarrow> oid_text (1 # 3 # ns) = ''1.3.'' @ oid_text ns" by (simp add: oid_text_Cons)
qed

lemma snmp_oid_bytes_text:
  "ns \<noteq> [] \<Longrightarrow> \<forall>n \<in> set ns. n < 2 ^ 63 \<Longrightarrow>
   snmp_oid_bytes (oid_text (1 # 3 # ns)) = 43 # concat (map (\<lambda>n. oid_number (of_nat n)) ns)"
  using oid_text_13 [of ns] by (simp add: snmp_oid_bytes_def snmp_oid_loop_text)


text \<open>A number's groups of 7 bits are read back; bits beyond 32 are lost.\<close>

lemma oid_fold_groups:
  "oid_fold (rev (map (\<lambda>x. x OR 128) gs) @ rest) first v out =
   oid_fold rest (first \<and> gs = []) (foldr (\<lambda>g v. push_bit 7 v OR ucast (g AND 127)) gs v) out"
proof (induction gs arbitrary: rest)
  case Nil
  then show ?case by simp
next
  case (Cons g gs)
  have m: "(127 :: byte) = mask 7" "(128 :: byte) = push_bit 7 1" by (simp_all add: mask_eq_exp_minus_1)
  have h: "bit (128 :: byte) n \<Longrightarrow> n = 7" for n
    unfolding m(2) by (simp only: bit_push_bit_iff bit_1_iff) simp
  have "(g OR 128) AND 127 = g AND 127" unfolding m(1)
  proof (rule bit_word_eqI)
    fix n show "bit ((g OR 128) AND mask 7) n = bit (g AND mask 7) n"
      using h [of n] by (auto simp: bit_or_iff bit_and_iff bit_mask_iff)
  qed
  moreover have "\<not> g OR 128 < 128" using le_word_or2 [of 128 g] by (simp add: not_less or.commute)
  ultimately show ?case using Cons by simp
qed

lemma ucast_7_bits: "push_bit 7 (ucast (drop_bit 7 v) :: u32) OR ucast ((ucast (v AND 127) :: byte) AND 127) = ucast (v :: u64)"
proof -
  have m: "(127 :: u64) = mask 7" "(127 :: byte) = mask 7" by (simp_all add: mask_eq_exp_minus_1)
  show ?thesis unfolding m
  proof (rule bit_word_eqI)
    fix n assume "n < LENGTH(32)"
    then consider "n < 7" | "7 \<le> n" "n < 32" by fastforce
    then show "bit (push_bit 7 (ucast (drop_bit 7 v) :: u32) OR ucast ((ucast (v AND mask 7) :: byte) AND mask 7)) n =
        bit (ucast v :: u32) n"
      by cases (auto simp: bit_simps)
  qed
qed

lemma groups_value: "foldr (\<lambda>g v. push_bit 7 v OR ucast (g AND 127)) (oid_groups v) 0 = (ucast v :: u32)"
proof (induction v rule: oid_groups.induct)
  case (1 v)
  show ?case
  proof (cases "v = 0")
    case True
    then show ?thesis by (subst oid_groups.simps) simp
  next
    case False
    then show ?thesis using 1 ucast_7_bits [of v] by (subst oid_groups.simps) simp
  qed
qed

lemma oid_fold_number:
  "oid_fold (oid_number v @ rest) False 0 out = oid_fold rest False 0 (out @ show_subid (ucast v))"
proof (cases "v = 0")
  case True
  then show ?thesis by (simp add: oid_number_def oid_put_def)
next
  case False
  define g where "g = (ucast (v AND 127) :: byte)"
  have gs: "oid_groups v = g # oid_groups (drop_bit 7 v)" using False by (simp add: g_def oid_groups.simps [of v])
  have m: "(127 :: u64) = mask 7" "(127 :: byte) = mask 7" by (simp_all add: mask_eq_exp_minus_1)
  have "g AND 127 = g" unfolding g_def m by (rule bit_word_eqI) (auto simp: bit_simps)
  then have "g \<le> 127" using word_and_le1 [of g 127] by (simp add: and.commute)
  then have "g < 128" by (simp add: word_less_nat_alt word_le_nat_alt)
  then show ?thesis using False gs groups_value [of v] by (simp add: oid_number_def oid_put_def oid_fold_groups)
qed

lemma oid_fold_numbers:
  "oid_fold (concat (map oid_number vs)) False 0 out = (True, out @ concat (map (\<lambda>v. show_subid (ucast v)) vs))"
  by (induction vs arbitrary: out) (simp_all add: oid_fold_number)

lemma show_subid_nat: "n < 2 ^ 31 \<Longrightarrow> show_subid (ucast (of_nat n :: u64)) = CHR ''.'' # show_nat n"
proof -
  assume n: "n < 2 ^ 31"
  have "(ucast (of_nat n :: u64) :: u32) = of_nat n" using n
    by (simp add: word_unat_eq_iff unsigned_ucast_eq unat_of_nat take_bit_nat_eq_self)
  then show ?thesis using n
    by (simp add: show_subid_def show_int_def signed_of_nat signed_take_bit_int_eq_self)
qed

lemma oid_text_concat: "ns \<noteq> [] \<Longrightarrow> CHR ''.'' # oid_text ns = concat (map (\<lambda>n. CHR ''.'' # show_nat n) ns)"
  by (induction ns rule: list_nonempty_induct) (simp_all add: oid_text_Cons, simp add: oid_text_def)

text \<open>The encoding is never longer than the text, so it fits the buffer.\<close>

lemma show_nat_mono: "m \<le> n \<Longrightarrow> length (show_nat m) \<le> length (show_nat n)"
proof (induction n arbitrary: m rule: show_nat.induct)
  case (1 n)
  show ?case
  proof (cases "n < 10")
    case True
    then show ?thesis using 1(2) by (simp add: show_nat.simps)
  next
    case False
    have "length (show_nat (m div 10)) \<le> length (show_nat (n div 10))"
      using 1 False by (simp add: div_le_mono)
    then show ?thesis using False by (simp add: show_nat.simps [of m] show_nat.simps [of n])
  qed
qed

lemma groups_length: "length (oid_groups v) \<le> length (show_nat (unat v))"
proof (induction v rule: oid_groups.induct)
  case (1 v)
  show ?case
  proof (cases "v = 0 \<or> drop_bit 7 v = 0")
    case True
    have "1 \<le> length (show_nat (unat v))" by (simp add: Suc_le_eq)
    moreover have "length (oid_groups v) \<le> 1"
      using True by (subst oid_groups.simps) (auto simp: oid_groups.simps [of 0] oid_groups.simps [of "drop_bit 7 v"])
    ultimately show ?thesis by linarith
  next
    case False
    have d: "unat (drop_bit 7 v) = unat v div 128" by (simp only: unat_drop_bit_eq drop_bit_eq_div) (simp add: unat_div)
    then have "unat v div 128 \<noteq> 0" using False by (metis unat_eq_zero)
    then have "\<not> unat v < 10" by auto
    moreover have "length (show_nat (unat v div 128)) \<le> length (show_nat (unat v div 10))"
      by (rule show_nat_mono) (simp add: div_le_mono2)
    ultimately show ?thesis using 1 False d by (simp add: oid_groups.simps [of v] show_nat.simps [of "unat v"])
  qed
qed

lemma oid_number_length: "n < 2 ^ 64 \<Longrightarrow> length (oid_number (of_nat n)) \<le> length (show_nat n)"
proof -
  assume "n < 2 ^ 64"
  then have "unat (of_nat n :: u64) = n" by (simp add: unat_of_nat)
  moreover have "length (oid_put gs) = length gs" for gs by (cases gs) (simp_all add: oid_put_def)
  ultimately show ?thesis using groups_length [of "of_nat n"] by (simp add: oid_number_def Suc_le_eq)
qed

lemma oid_numbers_length:
  "ns \<noteq> [] \<Longrightarrow> \<forall>n \<in> set ns. n < 2 ^ 64 \<Longrightarrow>
   length (concat (map (\<lambda>n. oid_number (of_nat n)) ns)) < length (oid_text ns) + 1"
proof (induction ns rule: list_nonempty_induct)
  case (single n)
  then show ?case using oid_number_length [of n] by (simp add: oid_text_def)
next
  case (cons n ns)
  then show ?case using oid_number_length [of n] by (fastforce simp: oid_text_Cons)
qed


lemma get_OID_text:
  assumes "ns \<noteq> []" and "\<forall>n \<in> set ns. n < 2 ^ 31"
  shows "get_OID (new_block (snmp_oid_bytes (oid_text (1 # 3 # ns)))) = Inr (True, oid_text (1 # 3 # ns))"
proof -
  have "snmp_oid_bytes (oid_text (1 # 3 # ns)) = 43 # concat (map oid_number (map of_nat ns))"
    using assms by (subst snmp_oid_bytes_text) (force simp: o_def)+
  moreover have "concat (map (\<lambda>v. show_subid (ucast v)) (map (of_nat :: nat \<Rightarrow> u64) ns)) = CHR ''.'' # oid_text ns"
    using assms by (simp add: oid_text_concat o_def show_subid_nat cong: map_cong)
  ultimately show ?thesis
    using oid_text_13 [OF assms(1)] oid_fold_numbers [of "map of_nat ns" "''1.3''"]
    by (simp add: get_OID_def get_OID_loop_fold)
qed

lemma snmp_oid_bytes_length:
  "ns \<noteq> [] \<Longrightarrow> \<forall>n \<in> set ns. n < 2 ^ 63 \<Longrightarrow> length (snmp_oid_bytes (oid_text (1 # 3 # ns))) \<le> length (oid_text (1 # 3 # ns))"
  using oid_numbers_length [of ns] oid_text_13 [of ns] by (subst snmp_oid_bytes_text) (fastforce simp: less_Suc_eq_le)+

lemma snmp_oid_new_text:
  "ns \<noteq> [] \<Longrightarrow> \<forall>n \<in> set ns. n < 2 ^ 63 \<Longrightarrow>
   snmp_oid_new (oid_text (1 # 3 # ns)) =
     Inr (Snmp_oid (snmp_oid_bytes (oid_text (1 # 3 # ns))) (of_nat (length (snmp_oid_bytes (oid_text (1 # 3 # ns))) + 2)))"
  using snmp_oid_bytes_length [of ns] by (simp add: snmp_oid_new_def Let_def)

text \<open>
  C29: an object identifier below 1.3 whose numbers are below 2^31 and whose encoding has at most 253 bytes
  is built inside its buffer and serialised as a type 6 element, whose content the agent reads back as the
  same text.
\<close>

theorem oid_roundtrip:
  assumes "ns \<noteq> []" and "\<forall>n \<in> set ns. n < 2 ^ 31" and "length (snmp_oid_bytes (oid_text (1 # 3 # ns))) \<le> 253"
  shows "\<exists>e v. snmp_oid_new (oid_text (1 # 3 # ns)) = Inr e \<and> get_payload e = Inr (tlv 0x06 v) \<and>
    get_OID (new_block v) = Inr (True, oid_text (1 # 3 # ns))"
proof -
  let ?v = "snmp_oid_bytes (oid_text (1 # 3 # ns))"
  have "\<forall>n \<in> set ns. n < 2 ^ 63" using assms(2) by fastforce
  then have e: "snmp_oid_new (oid_text (1 # 3 # ns)) = Inr (Snmp_oid ?v (of_nat (length ?v + 2)))"
    using snmp_oid_new_text [OF assms(1)] by simp
  have "get_payload (Snmp_oid ?v (of_nat (length ?v + 2))) = Inr (tlv 0x06 ?v)"
    using payload_ber(1) [of "Snmp_oid ?v (of_nat (length ?v + 2))"] assms(3) by simp
  then show ?thesis using e get_OID_text [OF assms(1,2)] by blast
qed

theorem oid_roundtrip_witness:
  "\<exists>e v. snmp_oid_new (oid_text [1, 3, 6, 1, 4, 1, 2021]) = Inr e \<and> get_payload e = Inr (tlv 0x06 v) \<and>
    get_OID (new_block v) = Inr (True, oid_text [1, 3, 6, 1, 4, 1, 2021])"
proof -
  have "length (snmp_oid_bytes (oid_text [1, 3, 6, 1, 4, 1, 2021])) \<le> length (oid_text [1, 3, 6, 1, 4, 1, 2021])"
    by (rule snmp_oid_bytes_length) simp_all
  moreover have "length (oid_text [1, 3, 6, 1, 4, 1, 2021]) \<le> 253" by code_simp
  ultimately have "length (snmp_oid_bytes (oid_text [1, 3, 6, 1, 4, 1, 2021])) \<le> 253" by linarith
  then show ?thesis by (intro oid_roundtrip) simp_all
qed

end
