(* ===== verification/Snmp_Block.thy ===== *)
theory Snmp_Block
  imports Snmp_Elem
begin

text \<open>
  The operations of \<^verbatim>\<open>snmp/block.cpp\<close> that the agent's parser does not call: comparison, copies, pieces and the
  hexadecimal dump. Shown: blocks are equal when their data is, wherever they have been read to; a piece is a
  segment; a dump stays inside its buffer and can be read back.
\<close>

section \<open>Operations\<close>

definition blk_get_size :: "block \<Rightarrow> nat" where
  "blk_get_size b = length (blk_data b)"

definition blk_empty :: "block \<Rightarrow> bool" where
  "blk_empty b \<longleftrightarrow> blk_get_size b = 0"

definition memcmp_eq :: "byte list \<Rightarrow> byte list \<Rightarrow> nat \<Rightarrow> bool" where
  "memcmp_eq a b n \<longleftrightarrow> take n a = take n b"

definition blk_eq :: "block \<Rightarrow> block \<Rightarrow> bool" where
  "blk_eq this other =
     (if blk_get_size other \<noteq> blk_get_size this then False else memcmp_eq (blk_data other) (blk_data this) (blk_get_size this))"

definition blk_neq :: "block \<Rightarrow> block \<Rightarrow> bool" where
  "blk_neq this other =
     (if blk_get_size other \<noteq> blk_get_size this then True else \<not> memcmp_eq (blk_data other) (blk_data this) (blk_get_size this))"

definition push_to_vector :: "block \<Rightarrow> byte list \<Rightarrow> byte list" where
  "push_to_vector b to =
     (let org_size = length to; add_size = blk_get_size b
      in if add_size > 0 then overwrite org_size (blk_data b) (to @ replicate add_size 0) else to)"

definition dump_digit :: "byte \<Rightarrow> char" where
  "dump_digit n = char_of ((if n > 9 then 97 - 10 else 48) + unat n)"

text \<open>A character of the string, which has been made as long as it will be.\<close>

definition put_char :: "nat \<Rightarrow> char \<Rightarrow> string \<Rightarrow> string result" where
  "put_char i c out = (if i < length out then Inr (out[i := c]) else Inl Mem_oob)"

fun dump_loop :: "byte list \<Rightarrow> nat \<Rightarrow> string \<Rightarrow> string result" where
  "dump_loop [] pos out = Inr out"
| "dump_loop (v # data) pos out =
     bindR (if pos \<noteq> 0 then put_char pos CHR '' '' out else Inr out) (\<lambda>out.
     let pos = (if pos \<noteq> 0 then pos + 1 else pos);
         n1 = drop_bit 4 v; n2 = v AND 15
     in bindR (put_char pos (dump_digit n1) out) (\<lambda>out.
        bindR (put_char (pos + 1) (dump_digit n2) out) (\<lambda>out.
        dump_loop data (pos + 2) out)))"

definition blk_dump :: "block \<Rightarrow> string result" where
  "blk_dump b =
     (let add_size = blk_get_size b
      in if add_size > 0 then dump_loop (blk_data b) 0 (replicate (add_size * 3 - 1) CHR 0x00) else Inr [])"

text \<open>\<open>None\<close> is a null pointer. The comparison of the second refuses a piece that ends where the block ends.\<close>

definition blk_substr :: "nat \<Rightarrow> block \<Rightarrow> block option" where
  "blk_substr offset b =
     (if offset \<ge> blk_get_size b then None else Some (new_block (slice offset (blk_get_size b - offset) (blk_data b))))"

definition blk_substr_n :: "nat \<Rightarrow> nat \<Rightarrow> block \<Rightarrow> block option" where
  "blk_substr_n offset n b =
     (if offset + n \<ge> blk_get_size b then None else Some (new_block (slice offset n (blk_data b))))"

definition blk_duplicate :: "block \<Rightarrow> block" where
  "blk_duplicate b = new_block (take (blk_get_size b) (blk_data b))"

definition get_bytes_to :: "nat \<Rightarrow> byte list \<Rightarrow> block \<Rightarrow> (byte list \<times> block) snmp_run" where
  "get_bytes_to n to b =
     (if length (blk_data b) < blk_offset b + n then Inl Range_error
      else if length to < n then Inl (Snmp_trap Mem_oob)
      else Inr (overwrite 0 (slice (blk_offset b) n (blk_data b)) to, b\<lparr>blk_offset := blk_offset b + n\<rparr>))"

section \<open>Laws\<close>

theorem blk_eq_law: "blk_eq a b \<longleftrightarrow> blk_data a = blk_data b" and blk_neq_law: "blk_neq a b \<longleftrightarrow> \<not> blk_eq a b"
  by (auto simp: blk_eq_def blk_neq_def blk_get_size_def memcmp_eq_def)

theorem blk_duplicate_law: "blk_eq (blk_duplicate b) b \<and> blk_offset (blk_duplicate b) = 0"
  by (simp add: blk_eq_law blk_duplicate_def blk_get_size_def new_block_def)

theorem push_to_vector_law: "push_to_vector b to = to @ blk_data b"
  by (simp add: push_to_vector_def blk_get_size_def overwrite_def Let_def)

text \<open>A piece is refused by one operation and given by the other when it reaches the end of the block.\<close>

theorem blk_substr_law:
  assumes "offset < blk_get_size b"
  shows "blk_substr offset b = Some (new_block (drop offset (blk_data b)))"
    and "blk_substr_n offset (blk_get_size b - offset) b = None"
    and "n < blk_get_size b - offset \<Longrightarrow> blk_substr_n offset n b = Some (new_block (take n (drop offset (blk_data b))))"
  using assms by (simp_all add: blk_substr_def blk_substr_n_def slice_def blk_get_size_def)

theorem get_bytes_to_law:
  assumes "blk_ok b" and "blk_rest b = xs @ ys" and "n = length xs" and "length to = n"
  shows "get_bytes_to n to b = Inr (xs, b\<lparr>blk_offset := blk_offset b + n\<rparr>)"
proof -
  have "length (drop (blk_offset b) (blk_data b)) = length xs + length ys" using assms(2) by (simp add: blk_rest_def)
  then have "blk_offset b + n \<le> length (blk_data b)" using assms(1,3) by (simp add: blk_ok_def)
  moreover have "slice (blk_offset b) n (blk_data b) = xs" using assms(2,3) by (simp add: slice_def blk_rest_def)
  ultimately show ?thesis using assms(3,4) by (simp add: get_bytes_to_def overwrite_def)
qed

section \<open>Reading a dump\<close>

definition digit_value :: "char \<Rightarrow> byte" where
  "digit_value c = of_nat (if of_char c \<ge> (97 :: nat) then of_char c - 87 else of_char c - 48)"

fun read_dump :: "string \<Rightarrow> byte list" where
  "read_dump (a # b # c # rest) = (push_bit 4 (digit_value a) OR digit_value b) # read_dump rest"
| "read_dump [a, b] = [push_bit 4 (digit_value a) OR digit_value b]"
| "read_dump rest = []"

fun dump_text :: "byte list \<Rightarrow> string" where
  "dump_text [] = []"
| "dump_text (v # data) = dump_digit (drop_bit 4 v) # dump_digit (v AND 15) # (if data = [] then [] else CHR '' '' # dump_text data)"

lemma length_dump_text: "length (dump_text data) = length data * 3 - 1"
  by (induction data) auto

lemma dump_digit_value: "n \<le> 15 \<Longrightarrow> digit_value (dump_digit n) = n"
  by (auto simp: dump_digit_def digit_value_def word_le_nat_alt word_less_nat_alt of_char_of)

lemma read_dump_byte: "push_bit 4 (digit_value (dump_digit (drop_bit 4 v))) OR digit_value (dump_digit (v AND 15)) = v"
proof -
  have "unat (drop_bit 4 v) \<le> 15" using unsigned_less [of v, where 'a = nat] by (simp add: drop_bit_eq_div unat_div)
  moreover have "unat (v AND 15) \<le> 15" using word_and_le1 [of v 15] by (simp add: word_le_nat_alt and.commute)
  ultimately have d: "digit_value (dump_digit (drop_bit 4 v)) = drop_bit 4 v" "digit_value (dump_digit (v AND 15)) = v AND 15"
    by (simp_all add: dump_digit_value word_le_nat_alt)
  have b15: "bit (15 :: int) n \<longleftrightarrow> n < 4" for n
  proof -
    have "(15 :: int) = mask 4" by (simp add: mask_eq_exp_minus_1)
    then show ?thesis by (simp only: bit_mask_iff) auto
  qed
  have "push_bit 4 (drop_bit 4 v) OR (v AND 15) = v"
  proof (rule bit_word_eqI)
    show "bit (push_bit 4 (drop_bit 4 v) OR (v AND 15)) n = bit v n" if "n < LENGTH(8)" for n
      using that by (cases "n < 4") (simp_all add: b15 bit_push_bit_iff bit_drop_bit_eq bit_or_iff bit_and_iff)
  qed
  then show ?thesis using d by simp
qed

lemma read_dump_text: "read_dump (dump_text data) = data"
proof (induction data)
  case (Cons v data)
  then show ?case by (cases data) (simp_all add: read_dump_byte)
qed simp

lemma dump_loop_law:
  assumes "length rest = (if pos = 0 then length data * 3 - 1 else length data * 3)" and "length pre = pos"
  shows "dump_loop data pos (pre @ rest) = Inr (pre @ (if pos = 0 \<or> data = [] then dump_text data else CHR '' '' # dump_text data))"
  using assms
proof (induction data arbitrary: pos pre rest)
  case (Cons v data)
  show ?case
  proof (cases "pos = 0")
    case True
    then obtain a b rest' where r: "rest = a # b # rest'" "length rest' = length data * 3"
      using Cons.prems(1) by (cases rest; cases "tl rest") auto
    show ?thesis
      using Cons.IH [of rest' 2 "[dump_digit (drop_bit 4 v), dump_digit (v AND 15)]"] r True Cons.prems(2)
      by (auto simp: put_char_def Let_def numeral_2_eq_2)
  next
    case False
    then obtain a b c rest' where r: "rest = a # b # c # rest'" "length rest' = length data * 3"
      using Cons.prems(1) by (cases rest; cases "tl rest"; cases "tl (tl rest)") auto
    show ?thesis
      using Cons.IH [of rest' "pos + 3" "pre @ [CHR '' '', dump_digit (drop_bit 4 v), dump_digit (v AND 15)]"] r False Cons.prems(2)
      by (auto simp: put_char_def Let_def list_update_append nth_append numeral_3_eq_3)
  qed
qed (simp split: if_splits)

text \<open>A dump has three characters for every byte but the last, and gives back what was dumped.\<close>

theorem blk_dump_roundtrip:
  "\<exists>text. blk_dump b = Inr text \<and> length text = blk_get_size b * 3 - 1 \<and> read_dump text = blk_data b"
proof (cases "blk_data b = []")
  case True
  then show ?thesis by (simp add: blk_dump_def blk_get_size_def)
next
  case False
  have "dump_loop (blk_data b) 0 ([] @ replicate (blk_get_size b * 3 - 1) CHR 0x00) = Inr ([] @ dump_text (blk_data b))"
    using dump_loop_law [of "replicate (blk_get_size b * 3 - 1) CHR 0x00" 0 "blk_data b" "[]"] by (simp add: blk_get_size_def)
  then show ?thesis using False by (simp add: blk_dump_def blk_get_size_def length_dump_text read_dump_text)
qed

end
