(* ===== verification/Iscsi_Classes.thy ===== *)
theory Iscsi_Classes
  imports Iscsi_Wire
begin

text \<open>
  The classes of \<^verbatim>\<open>iscsi-pdu.cpp\<close> one by one: constructors, \<open>set\<close> and \<open>get\<close>, and the members of
  \<^verbatim>\<open>iscsi-pdu.h\<close> that the server does not use. Shown: what is serialised through the base class
  (\<open>request_get\<close>, \<open>reply_get\<close>) is what the class of the object serialises, headers survive \<open>set\<close> and \<open>get\<close>, and a
  request that carries data loses it.
\<close>

section \<open>Constructors\<close>

text \<open>The assertions of a constructor are in its condition; login, text, logout and task requests clear their bytes again.\<close>

definition checked_new :: "layout \<Rightarrow> pdu result" where
  "checked_new l = (if struct_size l = 48 then Inr pdu_new else Inl (Uncaught ''assert''))"

definition cleared_new :: "layout \<Rightarrow> pdu result" where
  "cleared_new l = bindR (checked_new l) (\<lambda>p. Inr (p\<lparr>pdu_bytes := zero48\<rparr>))"

definition login_request_new :: "pdu result" where
  "login_request_new = cleared_new login_req_l"

definition login_reply_new :: "pdu result" where
  "login_reply_new = checked_new login_reply_l"

definition scsi_cmd_new :: "pdu result" where
  "scsi_cmd_new = bindR (checked_new cdb_pdu_req_l) (\<lambda>p.
     if off cdb_pdu_req_l ''Itasktag'' = 16 \<and> off cdb_pdu_req_l ''expdatlen'' = 20 \<and> off cdb_pdu_req_l ''CmdSN'' = 24
     then Inr p else Inl (Uncaught ''assert''))"

definition response_pdu_new :: "pdu result" where
  "response_pdu_new = checked_new pdu_response_l"

definition scsi_data_in_new :: "pdu result" where
  "scsi_data_in_new = checked_new pdu_data_in_l"

definition scsi_data_out_new :: "pdu result" where
  "scsi_data_out_new = checked_new pdu_data_out_l"

definition nop_out_new :: "pdu result" where
  "nop_out_new = checked_new nop_out_l"

definition nop_in_new :: "pdu result" where
  "nop_in_new = checked_new nop_in_l"

definition scsi_r2t_new :: "pdu result" where
  "scsi_r2t_new = checked_new pdu_scsi_r2t_l"

definition text_request_new :: "pdu result" where
  "text_request_new = cleared_new text_req_l"

definition text_reply_new :: "pdu result" where
  "text_reply_new = checked_new text_reply_l"

definition logout_request_new :: "pdu result" where
  "logout_request_new = cleared_new logout_req_l"

definition logout_reply_new :: "pdu result" where
  "logout_reply_new = checked_new logout_reply_l"

definition taskman_request_new :: "pdu result" where
  "taskman_request_new = cleared_new taskman_req_l"

definition taskman_reply_new :: "pdu result" where
  "taskman_reply_new = checked_new taskman_reply_l"

section \<open>Requests\<close>

text \<open>The flag is the returned value.\<close>

definition scsi_cmd_set :: "byte list \<Rightarrow> pdu \<Rightarrow> bool \<times> pdu" where
  "scsi_cmd_set inp p = (case bhs_set inp p of None \<Rightarrow> (False, p) | Some p \<Rightarrow> (True, p))"

definition text_request_set :: "byte list \<Rightarrow> pdu \<Rightarrow> bool \<times> pdu" where
  "text_request_set inp p = (case bhs_set inp p of None \<Rightarrow> (False, p) | Some p \<Rightarrow> (True, p))"

definition logout_request_set :: "byte list \<Rightarrow> pdu \<Rightarrow> bool \<times> pdu" where
  "logout_request_set inp p = (case bhs_set inp p of None \<Rightarrow> (False, p) | Some p \<Rightarrow> (True, p))"

definition taskman_request_set :: "byte list \<Rightarrow> pdu \<Rightarrow> bool \<times> pdu" where
  "taskman_request_set inp p = (case bhs_set inp p of None \<Rightarrow> (False, p) | Some p \<Rightarrow> (True, p))"

definition bhs_get :: "session \<Rightarrow> pdu \<Rightarrow> byte list list" where
  "bhs_get ses p = [get_helper ses (pdu_bytes p) [] True]"

definition login_request_get :: "session \<Rightarrow> pdu \<Rightarrow> byte list list" where
  "login_request_get ses p = [get_helper ses (pdu_bytes p) [] False]"

definition scsi_cmd_get :: "session \<Rightarrow> pdu \<Rightarrow> byte list list" where
  "scsi_cmd_get ses p = [get_helper ses (pdu_bytes p) [] True]"

definition text_request_get :: "session \<Rightarrow> pdu \<Rightarrow> byte list list" where
  "text_request_get ses p = [get_helper ses (pdu_bytes p) [] True]"

definition logout_request_get :: "session \<Rightarrow> pdu \<Rightarrow> byte list list" where
  "logout_request_get ses p = [get_helper ses (pdu_bytes p) [] True]"

definition taskman_request_get :: "session \<Rightarrow> pdu \<Rightarrow> byte list list" where
  "taskman_request_get ses p = [get_helper ses (pdu_bytes p) [] True]"

text \<open>A Data-Out object that is filled for sending has its data, but is serialised as nothing.\<close>

definition scsi_data_out_set :: "pdu \<Rightarrow> byte list \<Rightarrow> pdu \<times> byte list \<Rightarrow> bool \<times> pdu \<times> byte list" where
  "scsi_data_out_set reply_to scsi_reply_data obj = (True, fst obj, if length scsi_reply_data \<noteq> 0 then scsi_reply_data else snd obj)"

definition scsi_data_out_get :: "session \<Rightarrow> pdu \<Rightarrow> byte list list" where
  "scsi_data_out_get ses p = []"

text \<open>Members of a login request, a Data-Out PDU and a SCSI response that the server has no use for.\<close>

definition get_CID :: "pdu \<Rightarrow> u16" where
  "get_CID p = ld16 (off login_req_l ''CID'') (pdu_bytes p)"

definition get_TSIH :: "pdu \<Rightarrow> u16" where
  "get_TSIH p = ld16 (off login_req_l ''TSIH'') (pdu_bytes p)"

definition get_T :: "pdu \<Rightarrow> bool" where
  "get_T p \<longleftrightarrow> get_bits (get8 login_req_l ''b2'' (pdu_bytes p)) 7 1 \<noteq> 0"

definition get_C :: "pdu \<Rightarrow> bool" where
  "get_C p \<longleftrightarrow> get_bits (get8 login_req_l ''b2'' (pdu_bytes p)) 6 1 \<noteq> 0"

text \<open>This one is in the byte order of the wire, unlike those of the other classes.\<close>

definition data_out_ExpStatSN :: "pdu \<Rightarrow> u32" where
  "data_out_ExpStatSN p = get32 pdu_data_out_l ''ExpStatSN'' (pdu_bytes p)"

definition set_residual_count :: "u32 \<Rightarrow> pdu \<Rightarrow> pdu" where
  "set_residual_count v p = p\<lparr>pdu_bytes := set32 pdu_response_l ''ResidualCt'' v (pdu_bytes p)\<rparr>"

definition set_overflow_flag :: "bool \<Rightarrow> pdu \<Rightarrow> pdu" where
  "set_overflow_flag state p = p\<lparr>pdu_bytes := setbits pdu_response_l ''b2'' 2 1 (of_bool state) (pdu_bytes p)\<rparr>"

definition set_underflow_flag :: "bool \<Rightarrow> pdu \<Rightarrow> pdu" where
  "set_underflow_flag state p = p\<lparr>pdu_bytes := setbits pdu_response_l ''b2'' 1 1 (of_bool state) (pdu_bytes p)\<rparr>"

section \<open>Replies\<close>

definition login_reply_get :: "session \<Rightarrow> byte list \<Rightarrow> byte list \<Rightarrow> byte list list" where
  "login_reply_get ses h d = [get_helper ses h d False]"

definition scsi_response_get :: "session \<Rightarrow> byte list \<Rightarrow> byte list \<Rightarrow> byte list list" where
  "scsi_response_get ses h d = [get_helper ses h d True]"

text \<open>The request is kept as a copy of its header only.\<close>

definition data_in_set :: "pdu \<Rightarrow> byte list \<Rightarrow> reply" where
  "data_in_set reply_to scsi_reply_data = Data_in (snd (scsi_cmd_set (get_raw reply_to) pdu_new)) scsi_reply_data"

definition nop_in_get :: "session \<Rightarrow> byte list \<Rightarrow> byte list \<Rightarrow> byte list list" where
  "nop_in_get ses h d = [get_helper ses h d True]"

definition scsi_r2t_get :: "session \<Rightarrow> byte list \<Rightarrow> byte list list" where
  "scsi_r2t_get ses h = [get_helper ses h [] True]"

definition text_reply_get :: "session \<Rightarrow> byte list \<Rightarrow> byte list \<Rightarrow> byte list list" where
  "text_reply_get ses h d = [get_helper ses h d True]"

definition logout_reply_get :: "session \<Rightarrow> byte list \<Rightarrow> byte list list" where
  "logout_reply_get ses h = [get_helper ses h [] True]"

definition taskman_reply_get :: "session \<Rightarrow> byte list \<Rightarrow> byte list list" where
  "taskman_reply_get ses h = [get_helper ses h [] True]"

text \<open>An additional header segment: \<open>ahs\<close> with its three bytes of header.\<close>

definition ahs_get :: "byte list \<Rightarrow> byte list" where
  "ahs_get ahs = (let expected_size = unat (my_NTOHS (ld16 0 ahs)) in take (3 + expected_size) ahs)"

lemmas class_gets = bhs_get_def login_request_get_def scsi_cmd_get_def text_request_get_def logout_request_get_def
  taskman_request_get_def scsi_data_out_get_def login_reply_get_def scsi_response_get_def nop_in_get_def scsi_r2t_get_def
  text_reply_get_def logout_reply_get_def taskman_reply_get_def

section \<open>Objects\<close>

lemma layouts_48 [simp]:
  "checked_new login_req_l = Inr pdu_new" "checked_new login_reply_l = Inr pdu_new" "checked_new cdb_pdu_req_l = Inr pdu_new"
  "checked_new pdu_response_l = Inr pdu_new" "checked_new pdu_data_in_l = Inr pdu_new" "checked_new pdu_data_out_l = Inr pdu_new"
  "checked_new nop_out_l = Inr pdu_new" "checked_new nop_in_l = Inr pdu_new" "checked_new pdu_scsi_r2t_l = Inr pdu_new"
  "checked_new text_req_l = Inr pdu_new" "checked_new text_reply_l = Inr pdu_new" "checked_new logout_req_l = Inr pdu_new"
  "checked_new logout_reply_l = Inr pdu_new" "checked_new taskman_req_l = Inr pdu_new" "checked_new taskman_reply_l = Inr pdu_new"
  by (simp_all add: checked_new_def struct_size_def layout_defs)

text \<open>No assertion of a constructor fails, and every object starts as 48 zero bytes without data.\<close>

theorem constructors_assert_nothing:
  "\<forall>c \<in> {login_request_new, login_reply_new, scsi_cmd_new, response_pdu_new, scsi_data_in_new, scsi_data_out_new, nop_out_new,
     nop_in_new, scsi_r2t_new, text_request_new, text_reply_new, logout_request_new, logout_reply_new, taskman_request_new,
     taskman_reply_new}. c = Inr pdu_new"
  by (simp add: login_request_new_def login_reply_new_def scsi_cmd_new_def response_pdu_new_def scsi_data_in_new_def
      scsi_data_out_new_def nop_out_new_def nop_in_new_def scsi_r2t_new_def text_request_new_def text_reply_new_def
      logout_request_new_def logout_reply_new_def taskman_request_new_def taskman_reply_new_def cleared_new_def)
    (simp add: pdu_new_def zero48_def)

section \<open>Virtual dispatch\<close>

text \<open>What the base class' \<open>get\<close> reaches for the object of an operation code, as \<open>receive_pdu\<close> makes them.\<close>

theorem request_get_dispatch:
  "request_get ses p =
     (if get_opcode p = o_scsi_data_out then scsi_data_out_get
      else if get_opcode p = o_login_req then login_request_get
      else if get_opcode p = o_scsi_cmd then scsi_cmd_get
      else if get_opcode p = o_text_req then text_request_get
      else if get_opcode p = o_logout_req then logout_request_get
      else if get_opcode p = o_scsi_taskman then taskman_request_get else bhs_get) ses p"
  by (simp add: request_get_def class_gets)

theorem reply_get_dispatch:
  "reply_get r ses = (case r of
     Login_reply h d \<Rightarrow> Inr (login_reply_get ses h d, ses)
   | Scsi_response h d \<Rightarrow> Inr (scsi_response_get ses h d, ses)
   | Data_in c d \<Rightarrow> data_in_get c d ses
   | Nop_in h d \<Rightarrow> Inr (nop_in_get ses h d, ses)
   | R2t h \<Rightarrow> Inr (scsi_r2t_get ses h, ses)
   | Text_reply h d \<Rightarrow> Inr (text_reply_get ses h d, ses)
   | Logout_reply h \<Rightarrow> Inr (logout_reply_get ses h, ses)
   | Taskman_reply h \<Rightarrow> Inr (taskman_reply_get ses h, ses))"
  by (cases r) (simp_all add: reply_get_def class_gets)

text \<open>The copy of a request that a Data-In PDU keeps has all that \<open>data_in_get\<close> reads.\<close>

lemma data_in_loop_bytes:
  "pdu_bytes c = pdu_bytes c' \<Longrightarrow>
    data_in_loop c data use block_size n_to_do i count ses = data_in_loop c' data use block_size n_to_do i count ses"
proof (induction "use - i" arbitrary: i count ses rule: less_induct)
  case less
  have "data_in_header c = data_in_header c'" "get_Itasktag cdb_pdu_req_l c = get_Itasktag cdb_pdu_req_l c'"
    using less.prems by - (intro ext, auto simp: data_in_header_def get_Itasktag_def get_LUN_def get_ExpStatSN_def get_CmdSN_def get_ExpDatLen_def)
  moreover have "data_in_loop c data use block_size n_to_do (i + block_size) k s =
      data_in_loop c' data use block_size n_to_do (i + block_size) k s" if "i < use" "0 < block_size" for k s
    using less.hyps [of "i + block_size"] less.prems that by simp
  ultimately show ?case by (subst (1 2) data_in_loop.simps) simp
qed

theorem data_in_set_law:
  assumes "length (pdu_bytes p) = 48"
  shows "reply_get (data_in_set p d) ses = reply_get (Data_in p d) ses"
proof -
  define c where "c = snd (scsi_cmd_set (get_raw p) pdu_new)"
  have e: "pdu_bytes c = pdu_bytes p"
    using assms by (simp add: c_def scsi_cmd_set_def bhs_set_def get_raw_def)
  show ?thesis
    unfolding data_in_set_def c_def [symmetric]
    by (simp add: reply_get_def data_in_get_def get_ExpDatLen_def e data_in_loop_bytes [OF e] Let_def)
qed

section \<open>Round trips\<close>

text \<open>
  A header of 48 bytes that is put into a request is what the request is serialised as, with its digest; but of
  a request with data only the header is: the length in it then promises bytes that do not follow.
\<close>

theorem request_roundtrip:
  assumes "setter \<in> {scsi_cmd_set, text_request_set, logout_request_set, taskman_request_set}"
    and "getter \<in> {scsi_cmd_get, text_request_get, logout_request_get, taskman_request_get, bhs_get}" and "length h = 48"
  shows "\<exists>p'. setter h p = (True, p') \<and> pdu_data p' = pdu_data p \<and>
    getter ses p' = [h @ (if get_header_digest ses then digest h else [])] \<and>
    (get_data_length p' \<noteq> 0 \<longrightarrow> length (concat (getter ses p')) < 48 + (if get_header_digest ses then 4 else 0) + get_data_length p')"
proof -
  have "get_helper ses h [] True = h @ (if get_header_digest ses then digest h else [])"
    using assms(3) by (simp add: get_helper_spec assembled_def padded_def pad4_def)
  then show ?thesis using assms
    by (auto simp: scsi_cmd_set_def text_request_set_def logout_request_set_def taskman_request_set_def bhs_set_def class_gets)
qed

theorem request_set_refuses: "length h \<noteq> 48 \<Longrightarrow>
   setter \<in> {scsi_cmd_set, text_request_set, logout_request_set, taskman_request_set} \<Longrightarrow> setter h p = (False, p)"
  by (auto simp: scsi_cmd_set_def text_request_set_def logout_request_set_def taskman_request_set_def bhs_set_def)

text \<open>A segment is given back as it was set.\<close>

theorem ahs_roundtrip: "ahs_set inp n = Some ahs \<Longrightarrow> n \<le> length inp \<Longrightarrow> ahs_get ahs = take n inp"
  by (auto simp: ahs_set_def ahs_get_def Let_def ld16_def split: if_splits)

end
