(* ===== verification/Quick_Test.thy ===== *)
theory Quick_Test
  imports Scsi_Inform Scsi_Write
begin

text \<open>
  The test program of the repository (\<^verbatim>\<open>quick-test.cpp\<close>), an initiator on top of the library libiscsi. The library
  is a parameter; the locale \<open>disk_target\<close> says what a target that is a disk does for it. Shown: the test
  passes with every such target if and only if SYNCHRONIZE CACHE (16) succeeds; and, with the SCSI layer of
  this development behind the library, that command is the only thing that keeps the program's own
  target from passing its own test.
\<close>

section \<open>The library\<close>

text \<open>
  Calls that only succeed or fail, and calls that give a task; a task may be missing. Freeing tasks and messages
  are left out.
\<close>

datatype setup_call =
    Create_context
  | Connect string
  | Session_type bool
  | Login
  | Discovery
  | Disconnect
  | Destroy_context
  | Header_digest_none
  | Targetname string
  | Initial_r2t
  | Testunitready nat

datatype rw_size = RW_10 | RW_12 | RW_16

datatype task_call =
    Inquiry nat
  | Write_sync rw_size nat "byte list"
  | Read_sync rw_size nat nat
  | Prefetch16 nat nat
  | Sync10 nat nat
  | Sync16 nat nat

record scsi_task =
  tk_status :: nat
  tk_datain :: "byte list"

record 'w initiator_lib =
  il_call :: "setup_call \<Rightarrow> 'w \<Rightarrow> bool \<times> 'w"
  il_task :: "task_call \<Rightarrow> 'w \<Rightarrow> scsi_task option \<times> 'w"

definition good :: "scsi_task option \<Rightarrow> bool" where
  "good t \<longleftrightarrow> (case t of None \<Rightarrow> False | Some t \<Rightarrow> tk_status t = 0)"

section \<open>The program\<close>

definition qt_bs :: nat where "qt_bs = 4096"

definition qt_lba :: nat where "qt_lba = 123"

definition qt_bc :: nat where "qt_bc = 2"

definition rw_functions :: "rw_size list" where
  "rw_functions = [RW_10, RW_12, RW_16]"

text \<open>
  One round of \<open>test_read_write\<close>; \<open>buffer\<close> has two blocks, of which only the first is filled and compared. The
  flag is the variable \<open>ok\<close>.
\<close>

definition rw_round :: "'w initiator_lib \<Rightarrow> byte \<Rightarrow> byte list \<Rightarrow> rw_size \<Rightarrow> bool \<times> 'w \<Rightarrow> (bool \<times> 'w) result" where
  "rw_round lib fill buffer k = (\<lambda>(ok, w).
     case il_task lib (Write_sync k qt_lba buffer) w of (task_w, w) \<Rightarrow>
       if \<not> good task_w then Inr (False, w)
       else
         case il_task lib (Read_sync k qt_lba (qt_bs * qt_bc)) w of (task_r, w) \<Rightarrow>
           (case task_r of
              None \<Rightarrow> Inr (False, w)
            | Some t \<Rightarrow>
                if tk_status t \<noteq> 0 then Inr (False, w)
                else if length (tk_datain t) < qt_bs then Inl Mem_oob
                else Inr (if \<forall>b \<in> set (take qt_bs (tk_datain t)). b = fill then ok else False, w)))"

fun rw_rounds :: "'w initiator_lib \<Rightarrow> byte \<Rightarrow> byte list \<Rightarrow> rw_size list \<Rightarrow> bool \<times> 'w \<Rightarrow> (bool \<times> 'w) result" where
  "rw_rounds lib fill buffer [] st = Inr st"
| "rw_rounds lib fill buffer (k # ks) st = bindR (rw_round lib fill buffer k st) (rw_rounds lib fill buffer ks)"

text \<open>\<open>rest\<close>: the part of the new buffer that is not filled.\<close>

definition test_read_write :: "'w initiator_lib \<Rightarrow> byte list \<Rightarrow> byte \<Rightarrow> bool \<times> 'w \<Rightarrow> (bool \<times> 'w) result" where
  "test_read_write lib rest fill = rw_rounds lib fill (replicate qt_bs fill @ rest) rw_functions"

definition discover :: "'w initiator_lib \<Rightarrow> string \<Rightarrow> 'w \<Rightarrow> bool \<times> 'w" where
  "discover lib hst w =
     (let (ok, w) = il_call lib Create_context w
      in if \<not> ok then (False, w)
      else let (ok, w) = il_call lib (Connect hst) w
      in if \<not> ok then (False, w)
      else let (_, w) = il_call lib (Session_type False) w;
               (ok, w) = il_call lib Login w
      in if \<not> ok then (False, w)
      else let (ok, w) = il_call lib Discovery w
      in if \<not> ok then (False, w)
      else let (ok, w) = il_call lib Disconnect w
      in if \<not> ok then (False, w)
      else let (_, w) = il_call lib Destroy_context w in (True, w))"

text \<open>The loops of \<open>test_prefetch\<close>. A failing write does not end its loop.\<close>

fun pf_writes :: "'w initiator_lib \<Rightarrow> (nat \<Rightarrow> byte list) \<Rightarrow> nat list \<Rightarrow> bool \<times> 'w \<Rightarrow> bool \<times> 'w" where
  "pf_writes lib buffer [] st = st"
| "pf_writes lib buffer (i # is) (ok, w) =
     (case il_task lib (Write_sync RW_16 (qt_lba + i) (buffer i)) w of (task_w, w) \<Rightarrow>
        pf_writes lib buffer is (if good task_w then ok else False, w))"

text \<open>The data is looked at whether the read succeeded or not.\<close>

fun pf_reads :: "'w initiator_lib \<Rightarrow> nat list \<Rightarrow> bool \<times> 'w \<Rightarrow> (bool \<times> 'w) result" where
  "pf_reads lib [] st = Inr st"
| "pf_reads lib (i # is) (ok, w) =
     (case il_task lib (Read_sync RW_16 (qt_lba + i) (qt_bs * qt_bc)) w of (task_r, w) \<Rightarrow>
        (case task_r of
           None \<Rightarrow> Inl Mem_oob
         | Some t \<Rightarrow>
             let ok = (if tk_status t = 0 then ok else False)
             in if tk_datain t = [] then Inl Mem_oob
                else pf_reads lib is (if unat (tk_datain t ! 0) \<noteq> i + 99 then False else ok, w)))"

text \<open>The last loop looks at its own buffer instead of what was read.\<close>

fun pf_reads_zero :: "'w initiator_lib \<Rightarrow> byte list \<Rightarrow> nat list \<Rightarrow> bool \<times> 'w \<Rightarrow> (bool \<times> 'w) result" where
  "pf_reads_zero lib buffer [] st = Inr st"
| "pf_reads_zero lib buffer (i # is) (ok, w) =
     (case il_task lib (Read_sync RW_16 (qt_lba + i) qt_bs) w of (task_r, w) \<Rightarrow>
        let ok = (if good task_r then ok else False)
        in if buffer ! 0 \<noteq> 0 then
             (case task_r of
                None \<Rightarrow> Inl Mem_oob
              | Some t \<Rightarrow> if length (tk_datain t) \<le> i then Inl Mem_oob else pf_reads_zero lib buffer is (False, w))
           else pf_reads_zero lib buffer is (ok, w))"

definition pf_prefetch :: "'w initiator_lib \<Rightarrow> bool \<times> 'w \<Rightarrow> bool \<times> 'w" where
  "pf_prefetch lib = (\<lambda>(ok, w). if ok then (case il_task lib (Prefetch16 qt_lba 10) w of (t, w) \<Rightarrow> (good t, w)) else (ok, w))"

definition test_prefetch :: "'w initiator_lib \<Rightarrow> bool \<times> 'w \<Rightarrow> (bool \<times> 'w) result" where
  "test_prefetch lib st =
     (let buffer = replicate qt_bs 0;
          st = pf_prefetch lib (pf_writes lib (\<lambda>i. buffer[0 := of_nat (i + 99)]) [0..<10] st)
      in bindR (if fst st then pf_reads lib [0..<10] st else Inr st) (\<lambda>st.
         let st = pf_prefetch lib st;
             st = (if fst st then pf_writes lib (\<lambda>i. buffer[0 := 0]) [0..<10] st else st)
         in if fst st then pf_reads_zero lib (buffer[0 := 0]) [0..<10] st else Inr st))"

text \<open>The calls before the tests; \<open>False\<close> ends the program with status 10.\<close>

definition prepare :: "'w initiator_lib \<Rightarrow> string \<Rightarrow> 'w \<Rightarrow> bool \<times> 'w" where
  "prepare lib hst w =
     (let (ok, w) = il_call lib Create_context w
      in if \<not> ok then (False, w)
      else let (ok, w) = il_call lib (Connect hst) w
      in if \<not> ok then (False, w)
      else let (_, w) = il_call lib (Session_type True) w;
               (_, w) = il_call lib Header_digest_none w;
               (ok, w) = il_call lib (Targetname ''test'') w
      in if \<not> ok then (False, w)
      else let (ok, w) = il_call lib Initial_r2t w
      in if \<not> ok then (False, w)
      else let (ok, w) = il_call lib Header_digest_none w
      in if \<not> ok then (False, w)
      else let (ok, w) = il_call lib Login w
      in if \<not> ok then (False, w)
      else let (ok, w) = il_call lib (Testunitready 0) w
      in if \<not> ok then (False, w)
      else let (task, w) = il_task lib (Inquiry 64) w in (good task, w))"

text \<open>\<open>rests\<close>: what is left in the buffers of the three read/write tests. \<open>None\<close>: the program ends with status 10.\<close>

definition main_tests :: "'w initiator_lib \<Rightarrow> byte list \<times> byte list \<times> byte list \<Rightarrow> string \<Rightarrow> bool \<times> 'w \<Rightarrow> (bool option \<times> 'w) result" where
  "main_tests lib rests hst = (\<lambda>(ok, w).
     case prepare lib hst w of (go_on, w) \<Rightarrow>
       if \<not> go_on then Inr (None, w)
       else
         bindR (test_read_write lib (fst rests) 0x00 (ok, w)) (\<lambda>st.
         bindR (test_read_write lib (fst (snd rests)) 0xff st) (\<lambda>st.
         bindR (test_read_write lib (snd (snd rests)) 0x99 st) (\<lambda>st.
         bindR (test_prefetch lib st) (\<lambda>(ok, w).
         let (t10, w) = il_task lib (Sync10 qt_lba 1) w;
             ok = (if good t10 then ok else False);
             (t16, w) = il_task lib (Sync16 qt_lba 1) w;
             ok = (if good t16 then ok else False);
             (_, w) = il_call lib Destroy_context w
         in Inr (Some ok, w))))))"

definition quick_main :: "'w initiator_lib \<Rightarrow> byte list \<times> byte list \<times> byte list \<Rightarrow> string list \<Rightarrow> 'w \<Rightarrow> (int \<times> 'w) result" where
  "quick_main lib rests argv w =
     (let hst = (if length argv = 2 then argv ! 1 else ''localhost'');
          (go_on, w) = discover lib hst w
      in if \<not> go_on then Inr (10, w)
         else bindR (main_tests lib rests hst (True, w)) (\<lambda>(ok, w).
           case ok of None \<Rightarrow> Inr (10, w) | Some ok \<Rightarrow> Inr (if ok then 0 else 1, w)))"

section \<open>A target that is a disk\<close>

text \<open>
  What the program may expect of a target with blocks of 4096 bytes and room for the blocks it touches (up to
  block 133); \<open>s16\<close> says whether SYNCHRONIZE CACHE (16) succeeds.
\<close>

locale disk_target =
  fixes lib :: "'w initiator_lib" and disk :: "'w \<Rightarrow> byte list" and inv :: "'w \<Rightarrow> bool" and s16 :: bool
  assumes room: "inv w \<Longrightarrow> 134 * 4096 \<le> length (disk w)"
    and call_law: "inv w \<Longrightarrow> \<exists>w'. il_call lib c w = (True, w') \<and> inv w' \<and> disk w' = disk w"
    and inquiry_law: "inv w \<Longrightarrow> \<exists>t w'. il_task lib (Inquiry n) w = (Some t, w') \<and> tk_status t = 0 \<and> inv w' \<and> disk w' = disk w"
    and write_law: "inv w \<Longrightarrow> length d = n * 4096 \<Longrightarrow> 0 < n \<Longrightarrow> n \<le> 2 \<Longrightarrow> lba + n \<le> 134 \<Longrightarrow>
      \<exists>t w'. il_task lib (Write_sync k lba d) w = (Some t, w') \<and> tk_status t = 0 \<and> inv w' \<and>
        disk w' = overwrite (lba * 4096) d (disk w)"
    and read_law: "inv w \<Longrightarrow> 0 < n \<Longrightarrow> n \<le> 2 \<Longrightarrow> lba + n \<le> 134 \<Longrightarrow>
      \<exists>w'. il_task lib (Read_sync k lba (n * 4096)) w = (Some \<lparr>tk_status = 0, tk_datain = slice (lba * 4096) (n * 4096) (disk w)\<rparr>, w') \<and>
        inv w' \<and> disk w' = disk w"
    and prefetch_law: "inv w \<Longrightarrow> lba + n \<le> 134 \<Longrightarrow>
      \<exists>t w'. il_task lib (Prefetch16 lba n) w = (Some t, w') \<and> tk_status t = 0 \<and> inv w' \<and> disk w' = disk w"
    and sync10_law: "inv w \<Longrightarrow> \<exists>t w'. il_task lib (Sync10 lba n) w = (Some t, w') \<and> tk_status t = 0 \<and> inv w' \<and> disk w' = disk w"
    and sync16_law: "inv w \<Longrightarrow> \<exists>t w'. il_task lib (Sync16 lba n) w = (t, w') \<and> good t = s16 \<and> inv w' \<and> disk w' = disk w"

context disk_target
begin

lemma rw_round_passes:
  assumes "inv w" and "length rest = 4096"
  shows "\<exists>w'. rw_round lib fill (replicate qt_bs fill @ rest) k (ok, w) = Inr (ok, w') \<and> inv w'"
proof -
  let ?d = "replicate 4096 fill @ rest"
  obtain t w1 where w1: "il_task lib (Write_sync k 123 ?d) w = (Some t, w1)" "tk_status t = 0" "inv w1"
      "disk w1 = overwrite (123 * 4096) ?d (disk w)"
    using write_law [OF assms(1), of ?d 2 123 k] assms(2) by auto
  have r: "disk w1 ! (123 * 4096 + i) = ?d ! i" if "i < 2 * 4096" for i
    unfolding w1(4) using room [OF assms(1)] assms(2) that by (subst nth_overwrite) auto
  have "slice (123 * 4096) (2 * 4096) (disk w1) = ?d"
    using room [OF w1(3)] assms(2) r by (intro nth_equalityI) (auto simp: nth_slice)
  moreover obtain w2 where w2: "il_task lib (Read_sync k 123 (2 * 4096)) w1 =
      (Some \<lparr>tk_status = 0, tk_datain = slice (123 * 4096) (2 * 4096) (disk w1)\<rparr>, w2)" "inv w2"
    using read_law [OF w1(3), of 2 123 k] by auto
  ultimately show ?thesis using w1(1,2) w2 assms(2)
    by (simp add: rw_round_def qt_bs_def qt_lba_def qt_bc_def good_def)
qed

lemma read_write_passes:
  assumes "inv w" and "length rest = 4096"
  shows "\<exists>w'. test_read_write lib rest fill (ok, w) = Inr (ok, w') \<and> inv w'"
proof -
  have "\<exists>w'. rw_rounds lib fill (replicate qt_bs fill @ rest) ks (ok, w) = Inr (ok, w') \<and> inv w'" for ks
    using assms(1)
  proof (induction ks arbitrary: w)
    case (Cons k ks)
    then show ?case using rw_round_passes [OF Cons.prems assms(2), of fill k ok] by auto
  qed simp
  then show ?thesis by (simp add: test_read_write_def)
qed

lemma pf_writes_law:
  assumes "inv w" and "\<forall>i \<in> set is. i < 10 \<and> length (buffer i) = 4096" and "distinct is"
  shows "\<exists>w'. pf_writes lib buffer is (ok, w) = (ok, w') \<and> inv w' \<and>
    (\<forall>j < 10. disk w' ! ((123 + j) * 4096) = (if j \<in> set is then buffer j ! 0 else disk w ! ((123 + j) * 4096)))"
  using assms
proof (induction "is" arbitrary: w)
  case (Cons i "is")
  have l: "length (buffer i) = 1 * 4096" "i < 10" using Cons.prems(2) by simp_all
  obtain t w1 where w1: "il_task lib (Write_sync RW_16 (123 + i) (buffer i)) w = (Some t, w1)" "tk_status t = 0" "inv w1"
      "disk w1 = overwrite ((123 + i) * 4096) (buffer i) (disk w)"
    using write_law [OF Cons.prems(1) l(1), of "123 + i" RW_16] l(2) by auto
  have d: "disk w1 ! ((123 + j) * 4096) = (if j = i then buffer i ! 0 else disk w ! ((123 + j) * 4096))" if "j < 10" for j
    unfolding w1(4) using room [OF Cons.prems(1)] l that by (subst nth_overwrite) auto
  obtain w2 where "pf_writes lib buffer is (ok, w1) = (ok, w2)" "inv w2"
      "\<forall>j < 10. disk w2 ! ((123 + j) * 4096) = (if j \<in> set is then buffer j ! 0 else disk w1 ! ((123 + j) * 4096))"
    using Cons.IH [OF w1(3)] Cons.prems(2,3) by auto
  then show ?case using w1(1,2) d Cons.prems(3) by (auto simp: good_def qt_lba_def)
qed auto

lemma pf_reads_law:
  assumes "inv w" and "\<forall>i \<in> set is. i < 10 \<and> disk w ! ((123 + i) * 4096) = of_nat (i + 99)"
  shows "\<exists>w'. pf_reads lib is (ok, w) = Inr (ok, w') \<and> inv w'"
  using assms
proof (induction "is" arbitrary: w)
  case (Cons i "is")
  have i: "i < 10" "disk w ! ((123 + i) * 4096) = of_nat (i + 99)" using Cons.prems(2) by simp_all
  let ?s = "slice ((123 + i) * 4096) (2 * 4096) (disk w)"
  obtain w1 where w1: "il_task lib (Read_sync RW_16 (123 + i) (2 * 4096)) w = (Some \<lparr>tk_status = 0, tk_datain = ?s\<rparr>, w1)"
      "inv w1" "disk w1 = disk w"
    using read_law [OF Cons.prems(1), of 2 "123 + i" RW_16] i(1) by auto
  have "length ?s = 2 * 4096" using room [OF Cons.prems(1)] i(1) by (subst length_slice) simp_all
  moreover have "?s ! 0 = of_nat (i + 99)" using room [OF Cons.prems(1)] i by (subst nth_slice) simp_all
  moreover have "unat (of_nat (i + 99) :: byte) = i + 99" using i(1) by (simp only: unat_of_nat) simp
  moreover have "\<exists>w'. pf_reads lib is (ok, w1) = Inr (ok, w') \<and> inv w'" using Cons.IH [OF w1(2)] Cons.prems(2) w1(3) by simp
  moreover have "?s \<noteq> []" using calculation(1) by (metis list.size(3) mult_is_0 zero_neq_numeral)
  ultimately show ?case using w1(1) by (simp add: qt_lba_def qt_bs_def qt_bc_def)
qed simp

lemma pf_reads_zero_law:
  assumes "inv w" and "\<forall>i \<in> set is. i < 10" and "buffer ! 0 = 0"
  shows "\<exists>w'. pf_reads_zero lib buffer is (ok, w) = Inr (ok, w') \<and> inv w'"
  using assms(1,2)
proof (induction "is" arbitrary: w)
  case (Cons i "is")
  obtain t w1 where "il_task lib (Read_sync RW_16 (123 + i) 4096) w = (Some t, w1)" "tk_status t = 0" "inv w1"
    using read_law [OF Cons.prems(1), of 1 "123 + i" RW_16] Cons.prems(2) by auto
  then show ?case using Cons.IH [of w1] Cons.prems(2) assms(3) by (simp add: qt_lba_def qt_bs_def good_def)
qed simp

lemma prefetch_passes:
  assumes "inv w"
  shows "\<exists>w'. test_prefetch lib (True, w) = Inr (True, w') \<and> inv w'"
proof -
  let ?b = "\<lambda>i. (replicate 4096 0)[0 := of_nat (i + 99)] :: byte list"
  have b: "\<forall>i \<in> set [0..<10]. i < 10 \<and> length (?b i) = 4096" by auto
  obtain w1 where w1: "pf_writes lib ?b [0..<10] (True, w) = (True, w1)" "inv w1"
      "\<forall>j < 10. disk w1 ! ((123 + j) * 4096) = of_nat (j + 99)"
    using pf_writes_law [OF assms b distinct_upt, of True] by auto
  obtain t w2 where w2: "il_task lib (Prefetch16 123 10) w1 = (Some t, w2)" "tk_status t = 0" "inv w2" "disk w2 = disk w1"
    using prefetch_law [OF w1(2), of 123 10] by auto
  obtain w3 where w3: "pf_reads lib [0..<10] (True, w2) = Inr (True, w3)" "inv w3"
    using pf_reads_law [OF w2(3), of "[0..<10]" True] w1(3) w2(4) by auto
  obtain t' w4 where w4: "il_task lib (Prefetch16 123 10) w3 = (Some t', w4)" "tk_status t' = 0" "inv w4"
    using prefetch_law [OF w3(2), of 123 10] by auto
  have z: "\<forall>i \<in> set [0..<10]. i < 10 \<and> length ((replicate 4096 0)[0 := 0] :: byte list) = 4096" by auto
  obtain w5 where w5: "pf_writes lib (\<lambda>i. (replicate 4096 0)[0 := 0]) [0..<10] (True, w4) = (True, w5)" "inv w5"
    using pf_writes_law [OF w4(3) z distinct_upt, of True] by blast
  obtain w6 where "pf_reads_zero lib ((replicate 4096 0)[0 := 0]) [0..<10] (True, w5) = Inr (True, w6)" "inv w6"
    using pf_reads_zero_law [OF w5(2), of "[0..<10]" "(replicate 4096 0)[0 := 0]" True] by auto
  then show ?thesis using w1(1) w2(1,2) w3(1) w4(1,2) w5(1)
    by (simp add: test_prefetch_def pf_prefetch_def qt_bs_def qt_lba_def good_def Let_def del: upt_conv_Cons upt_rec_numeral upt_0)
qed

lemma calls_go:
  assumes "inv w"
  obtains w' where "il_call lib c w = (True, w')" "inv w'"
  using call_law [OF assms] by blast

lemma discover_goes:
  assumes "inv w"
  shows "\<exists>w'. discover lib hst w = (True, w') \<and> inv w'"
proof -
  obtain w1 where w1: "il_call lib Create_context w = (True, w1)" "inv w1" using calls_go [OF assms] .
  obtain w2 where w2: "il_call lib (Connect hst) w1 = (True, w2)" "inv w2" using calls_go [OF w1(2)] .
  obtain w3 where w3: "il_call lib (Session_type False) w2 = (True, w3)" "inv w3" using calls_go [OF w2(2)] .
  obtain w4 where w4: "il_call lib Login w3 = (True, w4)" "inv w4" using calls_go [OF w3(2)] .
  obtain w5 where w5: "il_call lib Discovery w4 = (True, w5)" "inv w5" using calls_go [OF w4(2)] .
  obtain w6 where w6: "il_call lib Disconnect w5 = (True, w6)" "inv w6" using calls_go [OF w5(2)] .
  obtain w7 where w7: "il_call lib Destroy_context w6 = (True, w7)" "inv w7" using calls_go [OF w6(2)] .
  show ?thesis by (simp add: discover_def w1(1) w2(1) w3(1) w4(1) w5(1) w6(1) w7)
qed

lemma prepare_goes:
  assumes "inv w"
  shows "\<exists>w'. prepare lib hst w = (True, w') \<and> inv w'"
proof -
  obtain w1 where w1: "il_call lib Create_context w = (True, w1)" "inv w1" using calls_go [OF assms] .
  obtain w2 where w2: "il_call lib (Connect hst) w1 = (True, w2)" "inv w2" using calls_go [OF w1(2)] .
  obtain w3 where w3: "il_call lib (Session_type True) w2 = (True, w3)" "inv w3" using calls_go [OF w2(2)] .
  obtain w4 where w4: "il_call lib Header_digest_none w3 = (True, w4)" "inv w4" using calls_go [OF w3(2)] .
  obtain w5 where w5: "il_call lib (Targetname ''test'') w4 = (True, w5)" "inv w5" using calls_go [OF w4(2)] .
  obtain w6 where w6: "il_call lib Initial_r2t w5 = (True, w6)" "inv w6" using calls_go [OF w5(2)] .
  obtain w7 where w7: "il_call lib Header_digest_none w6 = (True, w7)" "inv w7" using calls_go [OF w6(2)] .
  obtain w8 where w8: "il_call lib Login w7 = (True, w8)" "inv w8" using calls_go [OF w7(2)] .
  obtain w9 where w9: "il_call lib (Testunitready 0) w8 = (True, w9)" "inv w9" using calls_go [OF w8(2)] .
  obtain t w10 where w10: "il_task lib (Inquiry 64) w9 = (Some t, w10)" "tk_status t = 0" "inv w10"
    using inquiry_law [OF w9(2)] by blast
  show ?thesis
    by (simp add: prepare_def good_def w1(1) w2(1) w3(1) w4(1) w5(1) w6(1) w7(1) w8(1) w9(1) w10)
qed

text \<open>The verdict depends on SYNCHRONIZE CACHE (16) alone.\<close>

lemma quick_main_verdict:
  assumes "inv w" and "length a = 4096" and "length b = 4096" and "length c = 4096"
  shows "\<exists>w'. quick_main lib (a, b, c) argv w = Inr (if s16 then 0 else 1, w') \<and> inv w'"
proof -
  obtain w1 where w1: "discover lib (if length argv = 2 then argv ! 1 else ''localhost'') w = (True, w1)" "inv w1"
    using discover_goes [OF assms(1)] by blast
  obtain w2 where w2: "prepare lib (if length argv = 2 then argv ! 1 else ''localhost'') w1 = (True, w2)" "inv w2"
    using prepare_goes [OF w1(2)] by blast
  obtain w3 where w3: "test_read_write lib a 0x00 (True, w2) = Inr (True, w3)" "inv w3"
    using read_write_passes [OF w2(2) assms(2)] by blast
  obtain w4 where w4: "test_read_write lib b 0xff (True, w3) = Inr (True, w4)" "inv w4"
    using read_write_passes [OF w3(2) assms(3)] by blast
  obtain w5 where w5: "test_read_write lib c 0x99 (True, w4) = Inr (True, w5)" "inv w5"
    using read_write_passes [OF w4(2) assms(4)] by blast
  obtain w6 where w6: "test_prefetch lib (True, w5) = Inr (True, w6)" "inv w6" using prefetch_passes [OF w5(2)] by blast
  obtain t w7 where w7: "il_task lib (Sync10 123 1) w6 = (Some t, w7)" "tk_status t = 0" "inv w7" using sync10_law [OF w6(2)] by blast
  obtain t' w8 where w8: "il_task lib (Sync16 123 1) w7 = (t', w8)" "good t' = s16" "inv w8" using sync16_law [OF w7(3)] by blast
  obtain w9 where w9: "il_call lib Destroy_context w8 = (True, w9)" "inv w9" using calls_go [OF w8(3)] .
  have "good (Some t)" using w7(2) by (simp add: good_def)
  then show ?thesis using w9(2)
    by (simp del: One_nat_def add: quick_main_def main_tests_def qt_lba_def w1(1) w2(1) w3(1) w4(1) w5(1) w6(1) w7(1) w8(1,2) w9(1))
qed

end

section \<open>What the last check of the program does not see\<close>

text \<open>
  Whatever the target returns as data in the last loop of \<open>test_prefetch\<close>, the outcome is the same: with a target
  that forgets writes after a prefetch the test passes.
\<close>

theorem zero_check_is_blind:
  assumes "buffer ! 0 = 0"
  shows "pf_reads_zero (lib\<lparr>il_task := (\<lambda>c w. case il_task lib c w of (t, w) \<Rightarrow> (map_option (\<lambda>t. t\<lparr>tk_datain := forged c w\<rparr>) t, w))\<rparr>)
      buffer is st = pf_reads_zero lib buffer is st"
proof (induction "is" arbitrary: st)
  case (Cons i "is")
  obtain ok w where st: "st = (ok, w)" by fastforce
  obtain t w1 where "il_task lib (Read_sync RW_16 (qt_lba + i) qt_bs) w = (t, w1)" by fastforce
  then show ?case using Cons assms unfolding st by (cases t) (simp_all add: good_def)
qed simp

section \<open>The target of this development behind the library\<close>

text \<open>
  What the library sends: the command descriptor blocks of the SCSI block commands, most significant byte first.
  A command that is refused gives a task with CHECK CONDITION; the blocks a READ announces are read from the medium.
\<close>

definition be_bytes :: "nat list \<Rightarrow> nat \<Rightarrow> byte list" where
  "be_bytes shifts x = map (\<lambda>k. byte_shr k (of_nat x)) shifts"

definition rw_cdb :: "byte \<Rightarrow> rw_size \<Rightarrow> nat \<Rightarrow> nat \<Rightarrow> byte list" where
  "rw_cdb opcode k lba n = [opcode, 0] @ (case k of
     RW_10 \<Rightarrow> be_bytes [24, 16, 8, 0] lba @ [0] @ be_bytes [8, 0] n @ replicate 7 0
   | RW_12 \<Rightarrow> be_bytes [24, 16, 8, 0] lba @ be_bytes [24, 16, 8, 0] n @ replicate 6 0
   | RW_16 \<Rightarrow> be_bytes [56, 48, 40, 32, 24, 16, 8, 0] lba @ be_bytes [24, 16, 8, 0] n @ replicate 2 0)"

definition write_op :: "rw_size \<Rightarrow> byte" where
  "write_op k = (case k of RW_10 \<Rightarrow> o_write_10 | RW_12 \<Rightarrow> o_write_12 | RW_16 \<Rightarrow> o_write_16)"

definition read_op :: "rw_size \<Rightarrow> byte" where
  "read_op k = (case k of RW_10 \<Rightarrow> o_read_10 | RW_12 \<Rightarrow> o_read_12 | RW_16 \<Rightarrow> o_read_16)"

definition run_cdb :: "'b backend_ops \<Rightarrow> nat \<Rightarrow> u64 \<Rightarrow> byte list \<Rightarrow> byte list option \<Rightarrow> 'b scsi_st
    \<Rightarrow> scsi_task option \<times> 'b scsi_st" where
  "run_cdb ops tid lun cdb data s =
     (case send ops tid lun cdb data s of
        Inl _ \<Rightarrow> (None, s)
      | Inr (r, s) \<Rightarrow>
          if sense_data r \<noteq> [] then (Some \<lparr>tk_status = 2, tk_datain = []\<rparr>, s)
          else if is_inline r then (Some \<lparr>tk_status = 0, tk_datain = the_data (r_data r)\<rparr>, s)
          else let n = dd_n_sectors (r_location r)
               in if n = 0 then (Some \<lparr>tk_status = 0, tk_datain = []\<rparr>, s)
                  else case scsi_read ops tid (dd_lba (r_location r)) n
                         (replicate (unat n * unat (be_get_block_size ops (sc_b s))) 0) s of
                    Inl _ \<Rightarrow> (None, s)
                  | Inr (rc, buf, s) \<Rightarrow> (if rc = rw_ok then Some \<lparr>tk_status = 0, tk_datain = buf\<rparr> else None, s))"

definition initiator :: "'b backend_ops \<Rightarrow> nat \<Rightarrow> 'b scsi_st initiator_lib" where
  "initiator ops tid = \<lparr>
     il_call = (\<lambda>c s. case c of
         Testunitready lun \<Rightarrow> (case run_cdb ops tid (of_nat lun) (replicate 16 0) None s of (t, s) \<Rightarrow> (t \<noteq> None, s))
       | _ \<Rightarrow> (True, s)),
     il_task = (\<lambda>c. case c of
         Inquiry n \<Rightarrow> run_cdb ops tid 0 ([o_inquiry, 0, 0] @ be_bytes [8, 0] n @ replicate 11 0) None
       | Write_sync k lba d \<Rightarrow> run_cdb ops tid 1 (rw_cdb (write_op k) k lba (length d div 4096)) (Some d)
       | Read_sync k lba n \<Rightarrow> run_cdb ops tid 1 (rw_cdb (read_op k) k lba (n div 4096)) None
       | Prefetch16 lba n \<Rightarrow> run_cdb ops tid 1 (rw_cdb o_prefetch_16 RW_16 lba n) None
       | Sync10 lba n \<Rightarrow> run_cdb ops tid 1 (rw_cdb o_sync_cache_10 RW_10 lba n) None
       | Sync16 lba n \<Rightarrow> run_cdb ops tid 1 (rw_cdb 0x91 RW_16 lba n) None)\<rparr>"

lemma byte_shr_small: "8 \<le> k \<Longrightarrow> x < 256 \<Longrightarrow> byte_shr k (of_nat x) = 0"
proof -
  assume a: "8 \<le> k" "x < 256"
  have "(256 :: nat) \<le> 2 ^ k" using power_increasing [OF a(1), of "2 :: nat"] by simp
  then have "unat (drop_bit k (of_nat x :: u64)) = 0" using a(2) by (simp only: unat_drop_bit_eq) (simp add: unat_of_nat drop_bit_eq_div)
  then have "drop_bit k (of_nat x :: u64) = 0" by (simp only: unsigned_eq_0_iff)
  then show ?thesis by (simp add: byte_shr_def)
qed

lemma rw_cdb_fields:
  assumes "lba < 256" and "n < 256"
  shows "get_lba_len (rw_cdb opc k lba n) (case k of RW_10 \<Rightarrow> cs_10 | RW_12 \<Rightarrow> cs_12 | RW_16 \<Rightarrow> cs_16) = (of_nat lba, of_nat n)"
    and "rw_cdb opc k lba n ! 0 = opc" "rw_cdb opc k lba n ! 1 = 0"
proof -
  have z: "byte_shr k (of_nat x) = 0" if "8 \<le> k" "x < 256" for k x using byte_shr_small that .
  have b: "(ucast (byte_shr 0 (of_nat x)) :: 'c::len word) = of_nat x" if "x < 256" for x
    using that by (simp add: byte_shr_def unsigned_of_nat take_bit_nat_eq_self)
  have c: "(ucast (of_nat x :: u32) :: u64) = of_nat x" if "x < 256" for x
    using that by (simp add: unsigned_of_nat take_bit_nat_eq_self)
  show "get_lba_len (rw_cdb opc k lba n) (case k of RW_10 \<Rightarrow> cs_10 | RW_12 \<Rightarrow> cs_12 | RW_16 \<Rightarrow> cs_16) = (of_nat lba, of_nat n)"
    using assms by (cases k)
      (simp_all add: get_lba_len_def rw_cdb_def be_bytes_def get_uint32_t_def get_uint64_t_def z b c)
  show "rw_cdb opc k lba n ! 0 = opc" "rw_cdb opc k lba n ! 1 = 0" by (simp_all add: rw_cdb_def)
qed

definition target_ready :: "('b \<Rightarrow> byte list) \<Rightarrow> ('b \<Rightarrow> bool) \<Rightarrow> nat \<Rightarrow> 'b scsi_st \<Rightarrow> bool" where
  "target_ready disk dinv tid s \<longleftrightarrow> dinv (sc_b s) \<and> locking_status tid s \<noteq> l_locked_other \<and> quiet (sc_env s) \<and>
     134 * 4096 \<le> length (disk (sc_b s))"

lemma rw_cdb_len:
  assumes "lba < 256" and "n < 256"
  shows "write_lba_len (rw_cdb (write_op k) k lba n) (write_op k) = (of_nat lba, of_nat n)"
    and "read_lba_len (rw_cdb (read_op k) k lba n) (read_op k) = (of_nat lba, of_nat n)"
    and "get_lba_len (rw_cdb opc RW_16 lba n) cs_16 = (of_nat lba, of_nat n)"
    and "write_op k \<in> {o_write_6, o_write_10, o_write_verify_10, o_write_12, o_write_16}"
    and "read_op k \<in> {o_read_16, o_read_12, o_read_10, o_read_6}"
  using rw_cdb_fields(1) [OF assms, where k = k] rw_cdb_fields(1) [OF assms, where k = RW_16]
  by (cases k; simp add: write_lba_len_def read_lba_len_def write_op_def read_op_def)+

lemma of_nat_small: "x < 256 \<Longrightarrow> unat (of_nat x :: u64) = x" "x < 256 \<Longrightarrow> unat (of_nat x :: u32) = x"
  by (simp_all add: unat_of_nat)

context block_storage
begin

lemma ready_on_disk:
  assumes "target_ready disk inv tid s" and "bsz = 4096" and "lba + n \<le> 134"
  shows "on_disk (of_nat lba) (of_nat n) (sc_b s)"
  unfolding on_disk_def using assms by (simp add: target_ready_def of_nat_small)

lemma ready_kept:
  assumes "target_ready disk inv tid s" and "inv (sc_b s')" and "same_cfg s s'" and "quiet (sc_env s')"
    and "length (disk (sc_b s')) = length (disk (sc_b s))"
  shows "target_ready disk inv tid s'"
  using assms same_cfg_locking [OF assms(3), of tid] by (simp add: target_ready_def)

lemma initiator_write:
  assumes r: "target_ready disk inv tid s" and "bsz = 4096" and "2 \<le> lim" and l: "length d = n * 4096"
    and n: "0 < n" "n \<le> 2" and "lba + n \<le> 134"
  shows "\<exists>t s'. il_task (initiator ops tid) (Write_sync k lba d) s = (Some t, s') \<and> tk_status t = 0 \<and>
    target_ready disk inv tid s' \<and> disk (sc_b s') = overwrite (lba * 4096) d (disk (sc_b s))"
proof -
  let ?cdb = "rw_cdb (write_op k) k lba n"
  have sm: "lba < 256" "n < 256" using n(2) assms(7) by simp_all
  note u = r [unfolded target_ready_def]
  have od: "on_disk (of_nat lba) (of_nat n) (sc_b s)" by (rule ready_on_disk [OF r assms(2,7)])
  have "write_op k \<notin> {o_write_same_10, o_write_same_16}" by (cases k) (simp_all add: write_op_def)
  then have v: "validate_request ops (sc_b s) (of_nat lba) (of_nat n) (Some ?cdb) = None"
      "unat (of_nat n :: u32) \<le> unat (be_get_size_in_blocks ops (sc_b s))"
    using validates [OF _ od, of ?cdb] u rw_cdb_fields(2,3) [OF sm, of "write_op k" k] by auto
  obtain x s' where x: "write_verify ops tid ?cdb (Some d) (write_op k) s = Inr (x, s')" "sense_data x = []" "inv (sc_b s')"
      "same_cfg s s'" "quiet (sc_env s')" "disk (sc_b s') = overwrite (lba * bsz) d (disk (sc_b s))"
    using write_verify_law [OF _ _ _ rw_cdb_len(1) [OF sm, of k] v, of tid d] u assms(2,3) l n sm by (auto simp: of_nat_small)
  have "length (disk (sc_b s')) = length (disk (sc_b s))"
    unfolding x(6) using u l assms(2,7) by (intro length_overwrite) simp
  then have "target_ready disk inv tid s'" using ready_kept [OF r x(3-5)] by simp
  moreover have "send ops tid 1 ?cdb (Some d) s = Inr (x, s')"
    using send_write [of ?cdb ops tid 1 "Some d" s] rw_cdb_len(4) [OF sm, of k] x(1)
    by (simp only: rw_cdb_fields(2) [OF sm])
  ultimately show ?thesis
    using x(2,6) write_verify_reply [OF x(1)] l assms(2) by (simp add: initiator_def run_cdb_def)
qed

lemma initiator_read:
  assumes r: "target_ready disk inv tid s" and "bsz = 4096" and "2 \<le> lim"
    and n: "0 < n" "n \<le> 2" and "lba + n \<le> 134"
  shows "\<exists>s'. il_task (initiator ops tid) (Read_sync k lba (n * 4096)) s =
      (Some \<lparr>tk_status = 0, tk_datain = slice (lba * 4096) (n * 4096) (disk (sc_b s))\<rparr>, s') \<and>
    target_ready disk inv tid s' \<and> disk (sc_b s') = disk (sc_b s)"
proof -
  let ?cdb = "rw_cdb (read_op k) k lba n"
  have sm: "lba < 256" "n < 256" using n(2) assms(6) by simp_all
  note u = r [unfolded target_ready_def]
  have od: "on_disk (of_nat lba) (of_nat n) (sc_b s)" by (rule ready_on_disk [OF r assms(2,6)])
  have "read_op k \<notin> {o_write_same_10, o_write_same_16}" by (cases k) (simp_all add: read_op_def)
  then have v: "validate_request ops (sc_b s) (of_nat lba) (of_nat n) (Some ?cdb) = None"
    using validates [OF _ od, of ?cdb] u rw_cdb_fields(2,3) [OF sm, of "read_op k" k] by auto
  have n0: "(of_nat n :: u32) \<noteq> 0" using n sm of_nat_small(2) [of n] by (metis unsigned_0 less_irrefl)
  have c: "send ops tid 1 ?cdb None s = Inr (read_cmd ops ?cdb (read_op k) s, s)"
    using send_read [of ?cdb] rw_cdb_len(5) [OF sm, of k] rw_cdb_fields(2) [OF sm, of "read_op k" k] by simp
  have q: "sense_data (read_cmd ops ?cdb (read_op k) s) = []" "\<not> is_inline (read_cmd ops ?cdb (read_op k) s)"
    "r_location (read_cmd ops ?cdb (read_op k) s) = \<lparr>dd_lba = of_nat lba, dd_n_sectors = of_nat n\<rparr>"
    using v n0 by (simp_all add: read_cmd_def rw_cdb_len(2) [OF sm] scsi_response_new_def Let_def)
  have un: "unat (of_nat n :: u32) = n" "unat (of_nat lba :: u64) = lba" using sm by (simp_all add: of_nat_small)
  let ?buf = "replicate (n * 4096) 0"
  obtain buf s' where b: "scsi_read ops tid (of_nat lba) (of_nat n) ?buf s = Inr (rw_of_bool True, buf, s')" "inv (sc_b s')" "same_cfg s s'"
      "disk (sc_b s') = disk (sc_b s)" "buf = overwrite 0 (slice (lba * 4096) (n * 4096) (disk (sc_b s))) ?buf" "quiet (sc_env s')"
    using scsi_read_law [OF _ _ od, of ?buf tid] u un assms(2,3) n(2) by auto
  have "buf = slice (lba * 4096) (n * 4096) (disk (sc_b s))"
  proof -
    have "n * 4096 \<le> length (disk (sc_b s)) - lba * 4096" using u assms(6) by linarith
    then show ?thesis unfolding b(5) by (intro overwrite_zero_all) (simp add: min_absorb1)
  qed
  moreover have "unat (be_get_block_size ops (sc_b s)) = 4096" using unat_block_size u assms(2) by simp
  moreover have "target_ready disk inv tid s'" using ready_kept [OF r b(2,3,6)] b(4) by simp
  ultimately show ?thesis
    using b(1,4) n0 by (simp add: initiator_def run_cdb_def c q un rw_of_bool_def)
qed

lemma initiator_target:
  assumes "bsz = 4096" and "2 \<le> lim"
  shows "disk_target (initiator ops tid) (\<lambda>s. disk (sc_b s)) (target_ready disk inv tid) False"
proof (unfold_locales, goal_cases)
  case (1 s)
  then show ?case by (simp add: target_ready_def)
next
  case (2 s c)
  then show ?case by (cases c)
    (auto simp: initiator_def run_cdb_def send_def test_unit_ready_def scsi_response_new_def)
next
  case (3 s n)
  then show ?case
    by (auto simp: initiator_def run_cdb_def send_def inquiry_def inline_reply_def scsi_response_new_def Let_def)
next
  case (4 s d n lba k)
  then show ?case using initiator_write [OF _ assms] by blast
next
  case (5 s n lba k)
  then show ?case using initiator_read [OF _ assms] by blast
next
  case (6 s lba n)
  have sm: "lba < 256" "n < 256" using 6(2) by simp_all
  have "unat (of_nat lba :: u64) + unat (of_nat n :: u32) \<le> unat (be_get_size_in_blocks ops (sc_b s))"
    using ready_on_disk [OF 6(1) assms(1) 6(2)] 6(1) on_disk_iff [of "sc_b s"] by (simp add: target_ready_def)
  then have "validate_request ops (sc_b s) (of_nat lba) (of_nat n) None = None"
    using validate_range [of "of_nat n" ops "sc_b s" "of_nat lba"] by simp
  then show ?case using 6(1) rw_cdb_fields(2) [OF sm, of o_prefetch_16 RW_16]
    by (simp add: initiator_def run_cdb_def send_def prefetch_def rw_cdb_len(3) [OF sm] scsi_response_new_def Let_def)
next
  case (7 s lba n)
  obtain rc s' where s': "scsi_sync ops tid s = Inr (rc, s')" "inv (sc_b s')" "same_cfg s s'"
      "disk (sc_b s') = disk (sc_b s)" "quiet (sc_env s')"
    using scsi_sync_law [of s tid] 7 unfolding target_ready_def by blast
  then have "target_ready disk inv tid s'" using ready_kept [OF 7] by simp
  then show ?case using s'
    by (simp add: initiator_def run_cdb_def send_def sync_cache_def rw_cdb_def scsi_response_new_def Let_def)
next
  case (8 s lba n)
  then show ?case
    by (simp add: initiator_def run_cdb_def send_def rw_cdb_def scsi_response_new_def Let_def good_def error_not_implemented_def)
qed

end

context disk_target
begin

text \<open>The same target with an answer to SYNCHRONIZE CACHE (16).\<close>

lemma with_sync16:
  "disk_target (lib\<lparr>il_task := (\<lambda>c. case c of Sync16 lba n \<Rightarrow> il_task lib (Sync10 lba n) | _ \<Rightarrow> il_task lib c)\<rparr>) disk inv True"
proof (unfold_locales, goal_cases)
  case (1 w) then show ?case by (rule room)
next
  case (2 w c) then show ?case using call_law by simp
next
  case (3 w n) then show ?case using inquiry_law by simp
next
  case (4 w d n lba k) then show ?case using write_law by simp
next
  case (5 w n lba k) then show ?case using read_law by simp
next
  case (6 w lba n) then show ?case using prefetch_law by simp
next
  case (7 w lba n) then show ?case using sync10_law by simp
next
  case (8 w lba n) then show ?case using sync10_law [of w lba n] by (fastforce simp: good_def)
qed

end

interpretation file_target: disk_target "initiator file_ops tid" "\<lambda>s. bf_contents (sc_b s)" "target_ready bf_contents file_inv tid" False
  for tid
  by (rule file_dev.initiator_target) (simp_all add: file_lim_def)


definition example_disk :: "backend_file scsi_st" where
  "example_disk = example_scsi\<lparr>sc_b := example_file\<lparr>bf_contents := replicate (134 * 4096) 7\<rparr>\<rparr>"


end
