(* ===== verification/Snmp_Data.thy ===== *)
theory Snmp_Data
  imports Backend Snmp_Elem "HOL-Library.Sublist"
begin

text \<open>
  The tree of object identifiers the SNMP agent serves (\<^verbatim>\<open>snmp/snmp_data.cpp\<close>): what a node holds and
  how its value is read, registering an identifier, looking one up, and finding the one after it.
  The tree is an interpretation of \<open>oid_map\<close>, the contract of a map from object identifiers to data in
  which registering an identifier makes its prefixes known, too.
\<close>

section \<open>What a node holds\<close>

text \<open>
  The classes derived from \<open>snmp_data_type\<close>. A pointer to a counter is the function that reads the counter
  from the program's state \<open>'w\<close>; a callback may also change that state. \<open>Dt_node\<close> is the base class.
\<close>

datatype 'w snmp_kind =
    Dt_node
  | Dt_static_string string
  | Dt_static_int snmp_integer_type i32
  | Dt_stats snmp_integer_type "'w \<Rightarrow> u64"
  | Dt_stats_atomic snmp_integer_type "'w \<Rightarrow> u64"
  | Dt_stats_atomic_int "'w \<Rightarrow> i32"
  | Dt_stats_int "'w \<Rightarrow> i32"
  | Dt_stats_int_callback "'w \<Rightarrow> i32 \<times> 'w"
  | Dt_stats_atomic_uint32 "'w \<Rightarrow> u32"
  | Dt_stats_uint32 "'w \<Rightarrow> u32"
  | Dt_running_since u64
  | Dt_oid string

text \<open>The state \<open>snmp_get_data\<close> works on: the counters, the clock, and the global \<open>running_since\<close>.\<close>

record 'w snmp_world =
  sw_counters :: 'w
  sw_env :: env
  sw_running_since :: u64

text \<open>\<open>(get_micros() - ::running_since) / 10000\<close>.\<close>

definition uptime_ticks :: "'w snmp_world \<Rightarrow> u64 \<times> 'w snmp_world" where
  "uptime_ticks w = (let (t, e) = get_micros (sw_env w) in ((t - sw_running_since w) div 10000, w\<lparr>sw_env := e\<rparr>))"

definition running_since_new :: "'w snmp_world \<Rightarrow> 'w snmp_kind \<times> 'w snmp_world" where
  "running_since_new w = (let (t, w) = uptime_ticks w in (Dt_running_since t, w))"

fun snmp_get_data :: "'w snmp_kind \<Rightarrow> 'w snmp_world \<Rightarrow> (snmp_elem option \<times> 'w snmp_world) result" where
  "snmp_get_data Dt_node w = Inr (None, w)"
| "snmp_get_data (Dt_static_string s) w = Inr (Some (snmp_octet_string_new (c_str s)), w)"
| "snmp_get_data (Dt_static_int ty i) w = Inr (Some (snmp_integer_new ty (scast i)), w)"
| "snmp_get_data (Dt_stats ty counter) w = Inr (Some (snmp_integer_new ty (counter (sw_counters w))), w)"
| "snmp_get_data (Dt_stats_atomic ty counter) w = Inr (Some (snmp_integer_new ty (counter (sw_counters w))), w)"
| "snmp_get_data (Dt_stats_atomic_int counter) w = Inr (Some (snmp_integer_new si_integer (scast (counter (sw_counters w)))), w)"
| "snmp_get_data (Dt_stats_int counter) w = Inr (Some (snmp_integer_new si_integer (scast (counter (sw_counters w)))), w)"
| "snmp_get_data (Dt_stats_int_callback cb) w =
     (let (v, c) = cb (sw_counters w) in Inr (Some (snmp_integer_new si_integer (scast v)), w\<lparr>sw_counters := c\<rparr>))"
| "snmp_get_data (Dt_stats_atomic_uint32 counter) w = Inr (Some (snmp_integer_new si_integer (ucast (counter (sw_counters w)))), w)"
| "snmp_get_data (Dt_stats_uint32 counter) w = Inr (Some (snmp_integer_new si_integer (ucast (counter (sw_counters w)))), w)"
| "snmp_get_data (Dt_running_since since) w =
     (let (now, w) = uptime_ticks w in Inr (Some (snmp_integer_new si_ticks (now - since)), w))"
| "snmp_get_data (Dt_oid oid) w = bindR (snmp_oid_new oid) (\<lambda>e. Inr (Some e, w))"

section \<open>The tree\<close>

text \<open>\<open>oid_idx\<close>, \<open>oid\<close>, the class and the children (\<open>data\<close>) of an \<open>snmp_data_type\<close>.\<close>

datatype 'w snmp_node = Snmp_node (node_idx: int) (node_oid: string) (node_kind: "'w snmp_kind")
  (node_children: "'w snmp_node list")

definition new_node :: "'w snmp_kind \<Rightarrow> 'w snmp_node" where
  "new_node k = Snmp_node 0 [] k []"

definition set_tree_data :: "string \<Rightarrow> 'w snmp_node \<Rightarrow> 'w snmp_node" where
  "set_tree_data oid n =
     Snmp_node (case rfind_dot oid of Some (_, t) \<Rightarrow> atoi t | None \<Rightarrow> node_idx n) oid (node_kind n) (node_children n)"

definition set_children :: "'w snmp_node list \<Rightarrow> 'w snmp_node \<Rightarrow> 'w snmp_node" where
  "set_children cs n = Snmp_node (node_idx n) (node_oid n) (node_kind n) cs"

text \<open>\<open>None\<close> stands for the index -1.\<close>

fun find_oid_in_vector :: "'w snmp_node list \<Rightarrow> string \<Rightarrow> nat option" where
  "find_oid_in_vector [] oid = None"
| "find_oid_in_vector (n # ns) oid = (if node_oid n = oid then Some 0 else map_option Suc (find_oid_in_vector ns oid))"

definition extend_oid :: "string \<Rightarrow> string \<Rightarrow> string" where
  "extend_oid cur_oid part = (if cur_oid \<noteq> [] then cur_oid @ ''.'' else cur_oid) @ part"

fun insert_node :: "'w snmp_node \<Rightarrow> 'w snmp_node list \<Rightarrow> 'w snmp_node list" where
  "insert_node e [] = [e]"
| "insert_node e (n # ns) = (if node_idx e < node_idx n then e # n # ns else n # insert_node e ns)"

fun register_loop :: "string list \<Rightarrow> string \<Rightarrow> 'w snmp_node \<Rightarrow> 'w snmp_node list \<Rightarrow> 'w snmp_node list" where
  "register_loop [] cur_oid e lut = lut"
| "register_loop (p # ps) cur_oid e lut =
     (let cur_oid = extend_oid cur_oid p in
      case find_oid_in_vector lut cur_oid of
        None \<Rightarrow>
          let temp_e = set_tree_data cur_oid (if ps = [] then e else new_node Dt_node)
          in insert_node (set_children (register_loop ps cur_oid e (node_children temp_e)) temp_e) lut
      | Some idx \<Rightarrow>
          lut[idx := set_children (register_loop ps cur_oid e (node_children (lut ! idx))) (lut ! idx)])"

definition register_oid :: "string \<Rightarrow> 'w snmp_node \<Rightarrow> 'w snmp_node list \<Rightarrow> 'w snmp_node list" where
  "register_oid oid e t = register_loop (split_dot oid) [] e t"

definition register_static_string :: "string \<Rightarrow> string \<Rightarrow> 'w snmp_node list \<Rightarrow> 'w snmp_node list" where
  "register_static_string oid static_data t = register_oid oid (new_node (Dt_static_string static_data)) t"

definition register_static_int :: "string \<Rightarrow> snmp_integer_type \<Rightarrow> i32 \<Rightarrow> 'w snmp_node list \<Rightarrow> 'w snmp_node list" where
  "register_static_int oid ty static_data t = register_oid oid (new_node (Dt_static_int ty static_data)) t"

text \<open>The node \<open>find_by_oid\<close> arrives at, and the value it returns.\<close>

fun find_loop :: "string list \<Rightarrow> string \<Rightarrow> 'w snmp_node list \<Rightarrow> 'w snmp_node option" where
  "find_loop [] cur_oid lut = None"
| "find_loop (p # ps) cur_oid lut =
     (let cur_oid = extend_oid cur_oid p in
      case find_oid_in_vector lut cur_oid of
        None \<Rightarrow> None
      | Some idx \<Rightarrow> if ps = [] then Some (lut ! idx) else find_loop ps cur_oid (node_children (lut ! idx)))"

definition find_by_oid :: "string \<Rightarrow> 'w snmp_node list \<Rightarrow> 'w snmp_world \<Rightarrow> (snmp_elem option option \<times> 'w snmp_world) result" where
  "find_by_oid oid t w =
     (case find_loop (split_dot oid) [] t of
        None \<Rightarrow> Inr (None, w)
      | Some n \<Rightarrow> bindR (snmp_get_data (node_kind n) w) (\<lambda>(d, w). Inr (Some d, w)))"

section \<open>The next object identifier\<close>

text \<open>
  \<open>find_next_oid\<close> follows the parts of the identifier as far as they exist, then goes down to a leaf; \<open>branch\<close> is
  the stack of parent and index (its top first), \<open>None\<close> the null parent of the top level.
\<close>

type_synonym 'w snmp_branch = "('w snmp_node option \<times> nat) list"

fun next_follow :: "string list \<Rightarrow> string \<Rightarrow> 'w snmp_node option \<Rightarrow> 'w snmp_node list \<Rightarrow> 'w snmp_branch
    \<Rightarrow> 'w snmp_node option \<times> 'w snmp_node list \<times> 'w snmp_branch" where
  "next_follow [] cur_oid parent lut branch = (parent, lut, branch)"
| "next_follow (p # ps) cur_oid parent lut branch =
     (let cur_oid = extend_oid cur_oid p in
      case find_oid_in_vector lut cur_oid of
        None \<Rightarrow> (parent, lut, branch)
      | Some idx \<Rightarrow> next_follow ps cur_oid (Some (lut ! idx)) (node_children (lut ! idx)) ((parent, idx) # branch))"

function next_down :: "'w snmp_node option \<Rightarrow> 'w snmp_node list \<Rightarrow> 'w snmp_branch \<Rightarrow> 'w snmp_node option \<times> 'w snmp_branch" where
  "next_down parent [] branch = (parent, branch)"
| "next_down parent (n # ns) branch = next_down (Some n) (node_children n) ((parent, 0) # branch)"
  by pat_completeness auto
termination
proof (relation "measure (\<lambda>(parent, lut, branch). size_list size lut)")
  fix n :: "'w snmp_node" and ns :: "'w snmp_node list" and parent :: "'w snmp_node option" and branch :: "'w snmp_branch"
  show "((Some n, node_children n, (parent, 0) # branch), parent, n # ns, branch) \<in> measure (\<lambda>(parent, lut, branch). size_list size lut)"
    by (cases n) simp
qed simp

fun first_leaf :: "'w snmp_node \<Rightarrow> 'w snmp_node" where
  "first_leaf (Snmp_node i oid k []) = Snmp_node i oid k []"
| "first_leaf (Snmp_node i oid k (c # cs)) = first_leaf c"

fun next_sibling :: "'w snmp_branch \<Rightarrow> string" where
  "next_sibling [] = []"
| "next_sibling ((None, index) # branch) = []"
| "next_sibling ((Some element, index) # branch) =
     (if index + 1 < length (node_children element)
      then node_oid (first_leaf (node_children element ! (index + 1)))
      else next_sibling branch)"

definition find_next_oid :: "string \<Rightarrow> 'w snmp_node list \<Rightarrow> string result" where
  "find_next_oid oid t =
     (let (parent, lut, branch) = next_follow (split_dot oid) [] None t [];
          (parent, branch) = next_down parent lut branch
      in case parent of
           None \<Rightarrow> Inl Mem_oob
         | Some n \<Rightarrow> if node_oid n \<noteq> oid then Inr (node_oid n) else Inr (next_sibling ((Some n, 0) # branch)))"


section \<open>The shape of the tree\<close>

text \<open>
  Siblings are in ascending order of their last number, and every node's text is that of its path. The
  node of the first number is an exception: its text has no dot, so its \<open>oid_idx\<close> stays 0.
\<close>

function forest_ok :: "nat list \<Rightarrow> 'w snmp_node list \<Rightarrow> bool" where
  "forest_ok path cs \<longleftrightarrow> sorted_wrt (\<lambda>a b. node_idx a < node_idx b) cs \<and>
     (\<forall>c \<in> set cs. 0 \<le> node_idx c \<and> node_idx c < 2 ^ 31 \<and> node_oid c = oid_text (path @ [nat (node_idx c)]) \<and>
        forest_ok (path @ [nat (node_idx c)]) (node_children c))"
  by pat_completeness auto
termination
proof (relation "measure (\<lambda>(path, cs). size_list size cs)")
  fix path :: "nat list" and cs :: "'w snmp_node list" and c :: "'w snmp_node"
  assume "c \<in> set cs"
  moreover have "size_list size (node_children c) < size c" by (cases c) simp
  ultimately have "size_list size (node_children c) < size_list size cs" by (rule size_list_estimation)
  then show "((path @ [nat (node_idx c)], node_children c), path, cs) \<in> measure (\<lambda>(path, cs). size_list size cs)"
    by simp
qed simp

declare forest_ok.simps [simp del]

definition tree_ok :: "nat \<Rightarrow> 'w snmp_node list \<Rightarrow> bool" where
  "tree_ok r t \<longleftrightarrow> t = [] \<or> (\<exists>n. t = [n] \<and> node_oid n = oid_text [r] \<and> forest_ok [r] (node_children n))"

definition valid_oid :: "nat \<Rightarrow> nat list \<Rightarrow> bool" where
  "valid_oid r ks \<longleftrightarrow> (\<exists>js. ks = r # js \<and> (\<forall>j \<in> set js. j < 2 ^ 31))"

definition tree_lookup :: "'w snmp_node list \<Rightarrow> nat list \<Rightarrow> 'w snmp_kind option" where
  "tree_lookup t ks = map_option node_kind (find_loop (split_dot (oid_text ks)) [] t)"

text \<open>Looking up by numbers.\<close>

fun flookup :: "nat list \<Rightarrow> 'w snmp_node list \<Rightarrow> 'w snmp_node option" where
  "flookup [] cs = None"
| "flookup (k # ks) cs =
     (case find (\<lambda>c. node_idx c = int k) cs of
        None \<Rightarrow> None
      | Some c \<Rightarrow> if ks = [] then Some c else flookup ks (node_children c))"

lemma flookup_Nil [simp]: "flookup ks [] = None"
  by (cases ks) simp_all

lemma forest_ok_Nil [simp]: "forest_ok path []"
  by (subst forest_ok.simps) simp

lemma forest_okD:
  assumes "forest_ok path cs"
  shows "sorted_wrt (\<lambda>a b. node_idx a < node_idx b) cs"
    "c \<in> set cs \<Longrightarrow> 0 \<le> node_idx c \<and> node_idx c < 2 ^ 31 \<and> node_oid c = oid_text (path @ [nat (node_idx c)])"
    "c \<in> set cs \<Longrightarrow> node_idx c = int k \<Longrightarrow> forest_ok (path @ [k]) (node_children c)"
  using assms by (simp_all add: forest_ok.simps [of path cs]) (metis nat_int)

lemma forest_oid_iff:
  "forest_ok path cs \<Longrightarrow> c \<in> set cs \<Longrightarrow> node_oid c = oid_text (path @ [k]) \<longleftrightarrow> node_idx c = int k"
  using forest_okD(2) [of path cs c] by (auto simp: oid_text_inj)

lemma extend_oid_text: "extend_oid (oid_text path) (show_nat k) = oid_text (path @ [k])"
  by (simp add: extend_oid_def oid_text_snoc)

lemma extend_oid_first: "extend_oid [] (show_nat k) = oid_text [k]"
  by (simp add: extend_oid_def oid_text_def)

lemma find_oid_find:
  "(\<And>c. c \<in> set cs \<Longrightarrow> node_oid c = oid \<longleftrightarrow> P c) \<Longrightarrow>
   (case find_oid_in_vector cs oid of
      None \<Rightarrow> find P cs = None
    | Some i \<Rightarrow> i < length cs \<and> P (cs ! i) \<and> find P cs = Some (cs ! i))"
  by (induction cs) (auto split: option.splits)

lemma find_oid_cases:
  assumes "forest_ok path cs"
  obtains "find_oid_in_vector cs (oid_text (path @ [k])) = None" "find (\<lambda>c. node_idx c = int k) cs = None"
  | i where "find_oid_in_vector cs (oid_text (path @ [k])) = Some i" "i < length cs" "node_idx (cs ! i) = int k"
      "find (\<lambda>c. node_idx c = int k) cs = Some (cs ! i)" "forest_ok (path @ [k]) (node_children (cs ! i))"
proof -
  have "case find_oid_in_vector cs (oid_text (path @ [k])) of
      None \<Rightarrow> find (\<lambda>c. node_idx c = int k) cs = None
    | Some i \<Rightarrow> i < length cs \<and> node_idx (cs ! i) = int k \<and> find (\<lambda>c. node_idx c = int k) cs = Some (cs ! i)"
    by (rule find_oid_find) (rule forest_oid_iff [OF assms])
  then show ?thesis using that forest_okD(3) [OF assms nth_mem]
    by (cases "find_oid_in_vector cs (oid_text (path @ [k]))") auto
qed

lemma find_loop_flookup:
  "forest_ok path cs \<Longrightarrow> find_loop (map show_nat ks) (oid_text path) cs = flookup ks cs"
proof (induction ks arbitrary: path cs)
  case Nil
  then show ?case by simp
next
  case (Cons k ks)
  show ?case
    by (cases rule: find_oid_cases [OF Cons.prems, of k]) (simp_all add: extend_oid_text Let_def Cons.IH)
qed

section \<open>Registering\<close>

lemma insert_node_set: "set (insert_node e cs) = insert e (set cs)"
  by (induction cs) auto

lemma insert_node_sorted:
  "sorted_wrt (\<lambda>a b. node_idx a < node_idx b) cs \<Longrightarrow> node_idx e \<notin> node_idx ` set cs \<Longrightarrow>
   sorted_wrt (\<lambda>a b. node_idx a < node_idx b) (insert_node e cs)"
  by (induction cs) (auto simp: insert_node_set)

lemma find_insert_node:
  "find (\<lambda>c. node_idx c = int k) cs = None \<Longrightarrow> node_idx e = int k \<Longrightarrow>
   find (\<lambda>c. node_idx c = int j) (insert_node e cs) = (if j = k then Some e else find (\<lambda>c. node_idx c = int j) cs)"
  by (induction cs) (auto split: if_splits)

lemma sorted_update:
  assumes "sorted_wrt (\<lambda>a b. node_idx a < node_idx b) cs" and "i < length cs" and "node_idx c = node_idx (cs ! i)"
  shows "sorted_wrt (\<lambda>a b. node_idx a < node_idx b) (cs[i := c])"
  using assms by (auto simp: sorted_wrt_iff_nth_less nth_list_update)

lemma find_update:
  assumes "sorted_wrt (\<lambda>a b. node_idx a < node_idx b) cs" and "i < length cs" and "node_idx (cs ! i) = int k"
    and "node_idx c = int k"
  shows "find (\<lambda>c. node_idx c = int j) (cs[i := c]) = (if j = k then Some c else find (\<lambda>c. node_idx c = int j) cs)"
  using assms
proof (induction cs arbitrary: i)
  case Nil
  then show ?case by simp
next
  case (Cons b cs)
  show ?case
  proof (cases i)
    case 0
    then show ?thesis using Cons.prems by simp
  next
    case (Suc m)
    then have "cs ! m \<in> set cs" and "\<forall>x \<in> set cs. node_idx b < node_idx x" using Cons.prems(1,2) by simp_all
    then have "node_idx b < node_idx (cs ! m)" by blast
    then have "node_idx b \<noteq> int k" using Cons.prems Suc by simp
    then show ?thesis using Cons.IH [of m] Cons.prems Suc by (cases "j = k") simp_all
  qed
qed

lemma node_sel_set [simp]:
  "node_idx (set_children cs n) = node_idx n" "node_oid (set_children cs n) = node_oid n"
  "node_kind (set_children cs n) = node_kind n" "node_children (set_children cs n) = cs"
  "node_oid (set_tree_data oid n) = oid" "node_kind (set_tree_data oid n) = node_kind n"
  "node_children (set_tree_data oid n) = node_children n"
  "node_children (new_node d) = []" "node_kind (new_node d) = d"
  by (simp_all add: set_children_def set_tree_data_def new_node_def)

lemma idx_set_tree_data:
  "path \<noteq> [] \<Longrightarrow> k < 2 ^ 31 \<Longrightarrow> node_idx (set_tree_data (oid_text (path @ [k])) n) = int k"
  using rfind_dot_append [OF show_nat_no_dot [of k], of "oid_text path"] atoi_show_nat [of k]
  by (simp add: set_tree_data_def oid_text_snoc)

lemma register_loop_ok:
  "forest_ok path cs \<Longrightarrow> path \<noteq> [] \<Longrightarrow> \<forall>k \<in> set ks. k < 2 ^ 31 \<Longrightarrow> node_children e = [] \<Longrightarrow>
   forest_ok path (register_loop (map show_nat ks) (oid_text path) e cs)"
proof (induction ks arbitrary: path cs)
  case Nil
  then show ?case by simp
next
  case (Cons k ks)
  show ?case
  proof (cases rule: find_oid_cases [OF Cons.prems(1), of k])
    case absent: 1
    define e' where "e' = set_tree_data (oid_text (path @ [k])) (if ks = [] then e else new_node Dt_node)"
    define n where "n = set_children (register_loop (map show_nat ks) (oid_text (path @ [k])) e []) e'"
    have n: "node_idx n = int k" "node_oid n = oid_text (path @ [k])" "forest_ok (path @ [k]) (node_children n)"
      using Cons.prems Cons.IH [of "path @ [k]" "[]"] by (simp_all add: n_def e'_def idx_set_tree_data)
    have "node_idx n \<notin> node_idx ` set cs" using absent(2) n(1) by (auto simp: find_None_iff)
    then have "forest_ok path (insert_node n cs)"
      using forest_okD [OF Cons.prems(1)] n Cons.prems(1,3) insert_node_sorted [of cs n]
      by (simp add: forest_ok.simps [of path] insert_node_set)
    moreover have "node_children e' = []" using Cons.prems(4) by (simp add: e'_def)
    ultimately show ?thesis using absent by (simp add: extend_oid_text Let_def n_def e'_def)
  next
    case present: (2 i)
    define c where "c = set_children (register_loop (map show_nat ks) (oid_text (path @ [k])) e (node_children (cs ! i))) (cs ! i)"
    have c: "node_idx c = int k" "node_oid c = oid_text (path @ [k])" "forest_ok (path @ [k]) (node_children c)"
      using Cons.prems Cons.IH [OF present(5)] present forest_oid_iff [OF Cons.prems(1) nth_mem] by (simp_all add: c_def)
    have "forest_ok path (cs[i := c])"
      unfolding forest_ok.simps [of path "cs[i := c]"]
      using c Cons.prems(1,3) present(2,3) sorted_update [OF forest_okD(1) [OF Cons.prems(1)] present(2), of c]
        set_update_subset_insert [of cs i c] forest_okD(2,3) [OF Cons.prems(1)]
      by (fastforce simp: forest_ok.simps [of path cs])
    then show ?thesis using present by (simp add: extend_oid_text Let_def c_def)
  qed
qed


text \<open>What registering does to every look-up.\<close>

lemma flookup_Cons:
  "find (\<lambda>c. node_idx c = int k) cs = Some c \<Longrightarrow>
   map_option node_kind (flookup (k # ks) cs) = (if ks = [] then Some (node_kind c) else map_option node_kind (flookup ks (node_children c)))"
  by simp

definition registered_kind :: "nat list \<Rightarrow> 'd \<Rightarrow> nat list \<Rightarrow> 'd \<Rightarrow> 'd option \<Rightarrow> 'd option" where
  "registered_kind ks d js plain old =
     (case old of
        Some d' \<Rightarrow> Some d'
      | None \<Rightarrow> if js = ks \<and> ks \<noteq> [] then Some d else if js \<noteq> [] \<and> strict_prefix js ks then Some plain else None)"

lemma registered_kind_simps:
  "registered_kind ks d js plain (Some x) = Some x"
  "j \<noteq> k \<Longrightarrow> registered_kind (k # ks) d (j # js) plain old = old"
  "registered_kind (k # ks) d [k] plain None = Some (if ks = [] then d else plain)"
  "js \<noteq> [] \<Longrightarrow> registered_kind (k # ks) d (k # js) plain old = registered_kind ks d js plain old"
  by (cases ks; auto simp: registered_kind_def split: option.split)+

lemma flookup_register:
  "forest_ok path cs \<Longrightarrow> path \<noteq> [] \<Longrightarrow> \<forall>k \<in> set ks. k < 2 ^ 31 \<Longrightarrow> node_children e = [] \<Longrightarrow>
   map_option node_kind (flookup js (register_loop (map show_nat ks) (oid_text path) e cs)) =
     registered_kind ks (node_kind e) js Dt_node (map_option node_kind (flookup js cs))"
proof (induction ks arbitrary: path cs js)
  case Nil
  then show ?case by (simp add: registered_kind_def split: option.split)
next
  case (Cons k ks)
  show ?case
  proof (cases js)
    case Nil
    then show ?thesis by (simp add: registered_kind_def)
  next
    case js: (Cons j ls)
    show ?thesis
    proof (cases rule: find_oid_cases [OF Cons.prems(1), of k])
      case absent: 1
      define e' where "e' = set_tree_data (oid_text (path @ [k])) (if ks = [] then e else new_node Dt_node)"
      define n where "n = set_children (register_loop (map show_nat ks) (oid_text (path @ [k])) e []) e'"
      have idx: "node_idx n = int k" using Cons.prems by (simp add: n_def e'_def idx_set_tree_data)
      have ch: "map_option node_kind (flookup ls (node_children n)) = registered_kind ks (node_kind e) ls Dt_node None"
        using Cons.IH [of "path @ [k]" "[]" ls] Cons.prems by (cases ls) (simp_all add: n_def)
      have "register_loop (map show_nat (k # ks)) (oid_text path) e cs = insert_node n cs"
        using absent Cons.prems(4) by (simp add: extend_oid_text Let_def n_def e'_def)
      moreover have "node_kind n = (if ks = [] then node_kind e else Dt_node)" by (simp add: n_def e'_def)
      ultimately show ?thesis using absent(2) ch find_insert_node [OF absent(2) idx, of j]
        by (cases "j = k"; cases "ls = []") (simp_all add: js registered_kind_simps del: register_loop.simps list.map)
    next
      case present: (2 i)
      define c where "c = set_children (register_loop (map show_nat ks) (oid_text (path @ [k])) e (node_children (cs ! i))) (cs ! i)"
      have idx: "node_idx c = int k" using present by (simp add: c_def)
      have ch: "map_option node_kind (flookup ls (node_children c)) =
          registered_kind ks (node_kind e) ls Dt_node (map_option node_kind (flookup ls (node_children (cs ! i))))"
        using Cons.IH [OF present(5)] Cons.prems by (simp add: c_def)
      have "register_loop (map show_nat (k # ks)) (oid_text path) e cs = cs[i := c]"
        using present by (simp add: extend_oid_text Let_def c_def)
      moreover have "node_kind c = node_kind (cs ! i)" by (simp add: c_def)
      ultimately show ?thesis
        using present(4) ch find_update [OF forest_okD(1) [OF Cons.prems(1)] present(2,3) idx, of j]
        by (cases "j = k"; cases "ls = []") (simp_all add: js registered_kind_simps del: register_loop.simps list.map)
    qed
  qed
qed


section \<open>A map from object identifiers\<close>

locale oid_map =
  fixes empty :: 't
    and register :: "nat list \<Rightarrow> 'd \<Rightarrow> 't \<Rightarrow> 't"
    and lookup :: "'t \<Rightarrow> nat list \<Rightarrow> 'd option"
    and ok :: "'t \<Rightarrow> bool"
    and valid :: "nat list \<Rightarrow> bool"
    and plain :: 'd
  assumes ok_empty: "ok empty"
    and ok_register: "ok t \<Longrightarrow> valid ks \<Longrightarrow> ok (register ks d t)"
    and lookup_empty: "lookup empty js = None"
    and lookup_register: "ok t \<Longrightarrow> valid ks \<Longrightarrow> lookup (register ks d t) js = registered_kind ks d js plain (lookup t js)"
begin

abbreviation register_all :: "(nat list \<times> 'd) list \<Rightarrow> 't \<Rightarrow> 't" where
  "register_all entries \<equiv> fold (\<lambda>(ks, d). register ks d) entries"

lemma ok_register_all: "ok t \<Longrightarrow> \<forall>(ks, d) \<in> set entries. valid ks \<Longrightarrow> ok (register_all entries t)"
  by (induction entries arbitrary: t) (auto intro: ok_register)

text \<open>What is known stays; what is registered later does not replace it.\<close>

lemma lookup_kept:
  "ok t \<Longrightarrow> \<forall>(ks, d) \<in> set entries. valid ks \<Longrightarrow> lookup t js = Some d \<Longrightarrow> lookup (register_all entries t) js = Some d"
proof (induction entries arbitrary: t)
  case (Cons x entries)
  obtain ks c where x: "x = (ks, c)" by fastforce
  have "lookup (register ks c t) js = Some d" using Cons.prems x by (simp add: lookup_register registered_kind_simps)
  then show ?case using Cons x ok_register [of t ks c] by simp
qed simp

text \<open>
  Of entries none of which is a prefix of another one, each is found with its own data, and so are the
  identifiers known before.
\<close>

lemma lookup_register_all:
  assumes "ok t" and "\<forall>(ks, d) \<in> set entries. valid ks \<and> ks \<noteq> [] \<and> lookup t ks = None"
    and "pairwise (\<lambda>a b. \<not> prefix a b) (fst ` set entries)" and "distinct (map fst entries)" and "(ks, d) \<in> set entries"
  shows "lookup (register_all entries t) ks = Some d"
  using assms
proof (induction entries arbitrary: t)
  case (Cons x entries)
  obtain ms c where x: "x = (ms, c)" by fastforce
  have ok: "ok (register ms c t)" and v: "\<forall>(ks, d) \<in> set entries. valid ks"
    using Cons.prems(1,2) x ok_register by auto
  show ?case
  proof (cases "ks = ms")
    case True
    then have "d = c" using Cons.prems(4,5) x by (force simp: image_iff)
    moreover have "lookup (register ms c t) ms = Some c"
      using Cons.prems(1,2) x by (simp add: lookup_register registered_kind_def)
    ultimately show ?thesis using lookup_kept [OF ok v] True x by simp
  next
    case False
    have "lookup (register ms c t) js = None" if "(js, b) \<in> set entries" for js b
    proof -
      have "js \<noteq> ms" "\<not> prefix js ms" using that Cons.prems(3,4) x by (force simp: pairwise_def image_iff)+
      then show ?thesis using that Cons.prems(1,2) x by (fastforce simp: lookup_register registered_kind_def)
    qed
    then have "\<forall>(ks, d) \<in> set entries. valid ks \<and> ks \<noteq> [] \<and> lookup (register ms c t) ks = None" using Cons.prems(2) by fastforce
    moreover have "pairwise (\<lambda>a b. \<not> prefix a b) (fst ` set entries)" using Cons.prems(3) by (auto simp: pairwise_def)
    ultimately show ?thesis using Cons.IH [OF ok] Cons.prems(4,5) False x by simp
  qed
qed simp

text \<open>Known afterwards: what was known, and the prefixes of what is registered.\<close>

lemma known_register_all:
  "ok t \<Longrightarrow> \<forall>(ks, d) \<in> set entries. valid ks \<and> ks \<noteq> [] \<Longrightarrow>
   lookup (register_all entries t) js \<noteq> None \<longleftrightarrow>
     lookup t js \<noteq> None \<or> js \<noteq> [] \<and> (\<exists>(ks, d) \<in> set entries. prefix js ks)"
proof (induction entries arbitrary: t)
  case (Cons x entries)
  obtain ks c where x: "x = (ks, c)" by fastforce
  have "lookup (register ks c t) js \<noteq> None \<longleftrightarrow> lookup t js \<noteq> None \<or> js \<noteq> [] \<and> prefix js ks"
    using Cons.prems x by (auto simp: lookup_register registered_kind_def strict_prefix_def split: option.split)
  then show ?case using Cons.IH [of "register ks c t"] Cons.prems x ok_register by auto
qed simp

end

section \<open>The tree is such a map\<close>

lemma tree_register_single:
  assumes "node_oid n = oid_text [r]"
  shows "register_oid (oid_text (r # ks)) e [n] =
    [set_children (register_loop (map show_nat ks) (oid_text [r]) e (node_children n)) n]"
  using assms by (simp add: register_oid_def extend_oid_first Let_def)

lemma tree_register_empty:
  "register_oid (oid_text (r # ks)) e [] =
    (let n = set_tree_data (oid_text [r]) (if ks = [] then e else new_node Dt_node)
     in [set_children (register_loop (map show_nat ks) (oid_text [r]) e (node_children n)) n])"
  by (simp add: register_oid_def extend_oid_first Let_def)

lemma tree_lookup_single:
  assumes "node_oid n = oid_text [r]" and "forest_ok [r] (node_children n)"
  shows "tree_lookup [n] js =
    (case js of [] \<Rightarrow> None
     | j # js \<Rightarrow> if j \<noteq> r then None else if js = [] then Some (node_kind n) else map_option node_kind (flookup js (node_children n)))"
proof (cases js)
  case Nil
  then show ?thesis by (simp add: tree_lookup_def)
next
  case (Cons j ks)
  then show ?thesis using assms by (auto simp: tree_lookup_def Let_def oid_text_inj find_loop_flookup extend_oid_first)
qed

lemma tree_lookup_empty [simp]: "tree_lookup [] js = None"
  by (cases js) (simp_all add: tree_lookup_def)

lemma tree_registered:
  assumes "tree_ok r t" and "valid_oid r ks"
  shows "tree_ok r (register_oid (oid_text ks) (new_node d) t)"
    and "tree_lookup (register_oid (oid_text ks) (new_node d) t) js = registered_kind ks d js Dt_node (tree_lookup t js)"
proof -
  obtain ls where ks: "ks = r # ls" "\<forall>k \<in> set ls. k < 2 ^ 31" using assms(2) by (auto simp: valid_oid_def)
  define e where "e = new_node d"
  have e: "node_children e = []" "node_kind e = d" by (simp_all add: e_def)
  define n where "n = (if t = [] then set_tree_data (oid_text [r]) (if ls = [] then e else new_node Dt_node) else hd t)"
  have t: "t = [] \<or> t = [n]" "node_oid n = oid_text [r]" "forest_ok [r] (node_children n)"
    using assms(1) e by (auto simp: tree_ok_def n_def)
  define m where "m = set_children (register_loop (map show_nat ls) (oid_text [r]) e (node_children n)) n"
  have reg: "register_oid (oid_text ks) e t = [m]"
    using t tree_register_single [of n r ls e] tree_register_empty [of r ls e] ks(1) by (auto simp: m_def n_def Let_def)
  have m: "node_oid m = oid_text [r]" "forest_ok [r] (node_children m)" "node_kind m = node_kind n"
    using t(2,3) ks(2) e by (simp_all add: m_def register_loop_ok)
  show "tree_ok r (register_oid (oid_text ks) (new_node d) t)"
    using reg m by (simp add: tree_ok_def e_def)
  have ch: "map_option node_kind (flookup is (node_children m)) =
      registered_kind ls d is Dt_node (map_option node_kind (flookup is (node_children n)))" for "is"
    using flookup_register [OF t(3) _ ks(2) e(1)] e(2) by (simp add: m_def)
  have "tree_lookup [m] js = registered_kind ks d js Dt_node (tree_lookup t js)"
  proof (cases "t = []")
    case True
    then have "node_kind n = (if ls = [] then d else Dt_node)" "node_children n = []" using e by (simp_all add: n_def)
    then show ?thesis using True ch m(3)
      by (cases js; cases "hd js = r"; cases "tl js = []")
        (auto simp: tree_lookup_single [OF m(1,2)] ks(1) registered_kind_simps registered_kind_def [of ls] registered_kind_def [of "r # ls" _ "[]"])
  next
    case False
    then have "t = [n]" using t(1) by simp
    then show ?thesis using ch m(3)
      by (cases js; cases "hd js = r"; cases "tl js = []")
        (auto simp: tree_lookup_single [OF m(1,2)] tree_lookup_single [OF t(2,3)] ks(1) registered_kind_simps registered_kind_def [of "r # ls" _ "[]"])
  qed
  then show "tree_lookup (register_oid (oid_text ks) (new_node d) t) js = registered_kind ks d js Dt_node (tree_lookup t js)"
    using reg by (simp add: e_def)
qed

interpretation snmp_tree: oid_map "[]" "\<lambda>ks d. register_oid (oid_text ks) (new_node d)" tree_lookup "tree_ok r" "valid_oid r" Dt_node
  for r
  by unfold_locales (simp_all add: tree_registered, simp add: tree_ok_def)


text \<open>
  C28: \<open>register_oid\<close> keeps the tree well formed, and afterwards an object identifier is known exactly when it
  was known before, is the one registered (then with the new data), or is a prefix of it (then without
  data); what was known keeps its data.
\<close>

theorem register_oid_law:
  assumes "tree_ok 1 t" and "valid_oid 1 ks"
  shows "tree_ok 1 (register_oid (oid_text ks) (new_node d) t) \<and>
    tree_lookup (register_oid (oid_text ks) (new_node d) t) js =
      (case tree_lookup t js of
         Some d' \<Rightarrow> Some d'
       | None \<Rightarrow> if js = ks then Some d else if js \<noteq> [] \<and> strict_prefix js ks then Some Dt_node else None)"
  using snmp_tree.ok_register [OF assms] snmp_tree.lookup_register [OF assms, of d js] assms(2)
  by (auto simp: registered_kind_def valid_oid_def split: option.split)

theorem register_oid_law_witness:
  "tree_lookup (register_oid (oid_text [1, 3, 6]) (new_node (Dt_static_string ''iESP'' :: unit snmp_kind)) []) [1, 3, 6] =
     Some (Dt_static_string ''iESP'')"
  using register_oid_law [of "[]" "[1, 3, 6]" "Dt_static_string ''iESP'' :: unit snmp_kind" "[1, 3, 6]"]
  by (simp add: tree_ok_def valid_oid_def)

end
