(* ===== verification/Snmp_Walk.thy ===== *)
theory Snmp_Walk
  imports Snmp_Data "HOL-Library.List_Lexorder"
begin

text \<open>
  What \<open>find_next_oid\<close> answers. The leaves of a well-formed tree are in ascending order of their numbers;
  for an identifier that is in the tree the answer is the first leaf after it in that order, so that a
  walk by GetNext requests enumerates all leaves once. For an identifier that is not in the tree the
  answer may lie before it.
\<close>

section \<open>Leaves\<close>

fun leaves :: "'w snmp_node \<Rightarrow> string list" where
  "leaves (Snmp_node i oid k cs) = (if cs = [] then [oid] else concat (map leaves cs))"

function nleaves :: "nat list \<Rightarrow> 'w snmp_node \<Rightarrow> nat list list" where
  "nleaves path n =
     (if node_children n = [] then [path]
      else concat (map (\<lambda>c. nleaves (path @ [nat (node_idx c)]) c) (node_children n)))"
  by pat_completeness auto
termination
proof (relation "measure (\<lambda>(path, n). size n)")
  fix path :: "nat list" and n c :: "'w snmp_node"
  assume "c \<in> set (node_children n)"
  then have "size c \<le> size_list size (node_children n)" by (rule size_list_estimation') simp
  also have "\<dots> < size n" by (cases n) simp
  finally show "((path @ [nat (node_idx c)], c), path, n) \<in> measure (\<lambda>(path, n). size n)" by simp
qed simp

declare nleaves.simps [simp del] leaves.simps [simp del]

lemma leaves_eq: "leaves n = (if node_children n = [] then [node_oid n] else concat (map leaves (node_children n)))"
  by (cases n) (simp add: leaves.simps)

lemma leaves_ne [simp]: "leaves n \<noteq> []"
proof (induction n)
  case (Snmp_node i oid k cs)
  then show ?case by (cases cs) (simp_all add: leaves.simps)
qed

lemma nleaves_ne [simp]: "nleaves path n \<noteq> []"
proof (induction path n rule: nleaves.induct)
  case (1 path n)
  then show ?case by (cases "node_children n") (auto simp: nleaves.simps [of path n])
qed

lemma first_leaf_leaves: "node_oid (first_leaf n) = hd (leaves n)"
proof (induction n rule: first_leaf.induct)
  case (2 i oid k c cs)
  then show ?case by (simp add: leaves.simps [of i])
qed (simp add: leaves.simps)

lemma nleaves_leaves:
  "forest_ok path (node_children n) \<Longrightarrow> node_oid n = oid_text path \<Longrightarrow> leaves n = map oid_text (nleaves path n)"
proof (induction path n rule: nleaves.induct)
  case (1 path n)
  have "leaves c = map oid_text (nleaves (path @ [nat (node_idx c)]) c)" if c: "c \<in> set (node_children n)" for c
  proof (rule 1(1))
    show "node_children n \<noteq> []" using c by auto
    have "0 \<le> node_idx c" using forest_okD(2) [OF 1(2) c] by simp
    then show "forest_ok (path @ [nat (node_idx c)]) (node_children c)"
      using forest_okD(3) [OF 1(2) c, of "nat (node_idx c)"] by simp
  qed (use c forest_okD(2) [OF 1(2) c] in simp_all)
  then have "map leaves (node_children n) = map (\<lambda>c. map oid_text (nleaves (path @ [nat (node_idx c)]) c)) (node_children n)"
    by simp
  then show ?case using 1(3) by (simp add: leaves_eq [of n] nleaves.simps [of path n] map_concat o_def del: map_eq_conv)
qed

lemma nleaves_prefix: "x \<in> set (nleaves path n) \<Longrightarrow> prefix path x"
proof (induction path n arbitrary: x rule: nleaves.induct)
  case (1 path n)
  then show ?case by (auto simp: nleaves.simps [of path n] split: if_splits dest: append_prefixD)
qed

lemma nleaves_strict: "node_children n \<noteq> [] \<Longrightarrow> x \<in> set (nleaves path n) \<Longrightarrow> \<exists>j z. x = path @ j # z"
  by (auto simp: nleaves.simps [of path n] dest!: nleaves_prefix simp: prefix_def)

lemma lex_append_less: "path < path @ j # (z :: nat list)"
  by (induction path) simp_all

lemma lex_less_siblings: "i < j \<Longrightarrow> path @ i # y < path @ j # (z :: nat list)"
  by (induction path) simp_all

lemma lex_less_extend: "x < path \<Longrightarrow> x < path @ (z :: nat list)"
proof (cases z)
  case (Cons j w)
  then show "x < path \<Longrightarrow> x < path @ z" using lex_append_less [of path j w] by (meson less_trans)
qed simp

section \<open>The stack of \<open>find_next_oid\<close>\<close>

text \<open>The leaves that come after the subtree a stack leads to.\<close>

fun rest_leaves :: "'w snmp_branch \<Rightarrow> string list" where
  "rest_leaves [] = []"
| "rest_leaves ((None, i) # br) = []"
| "rest_leaves ((Some n, i) # br) = concat (map leaves (drop (i + 1) (node_children n))) @ rest_leaves br"

definition first_or_empty :: "string list \<Rightarrow> string" where
  "first_or_empty xs = (case xs of [] \<Rightarrow> [] | x # _ \<Rightarrow> x)"

lemma first_or_empty_append: "xs \<noteq> [] \<Longrightarrow> first_or_empty (xs @ ys) = hd xs"
  by (cases xs) (simp_all add: first_or_empty_def)

lemma next_sibling_rest: "next_sibling br = first_or_empty (rest_leaves br)"
proof (induction br rule: next_sibling.induct)
  case (3 n i br)
  show ?case
  proof (cases "i + 1 < length (node_children n)")
    case True
    then have "drop (i + 1) (node_children n) = node_children n ! (i + 1) # drop (i + 2) (node_children n)"
      by (simp add: Cons_nth_drop_Suc)
    then show ?thesis using True first_leaf_leaves [of "node_children n ! (i + 1)"]
      by (simp add: first_or_empty_append)
  qed (use 3 in simp)
qed (simp_all add: first_or_empty_def)

lemma next_down_law:
  "\<exists>m br'. next_down (Some n) (node_children n) br = (Some m, br') \<and> node_children m = [] \<and>
     node_oid m = hd (leaves n) \<and> rest_leaves br' = tl (leaves n) @ rest_leaves br"
proof (induction n arbitrary: br)
  case (Snmp_node i oid k cs)
  show ?case
  proof (cases cs)
    case Nil
    then show ?thesis by (simp add: leaves.simps)
  next
    case (Cons c ds)
    then show ?thesis using Snmp_node [of c "(Some (Snmp_node i oid k cs), 0) # br"]
      by (auto simp: leaves.simps [of i])
  qed
qed

lemma next_follow_law:
  assumes "forest_ok path (node_children n)" and "flookup ks (node_children n) = Some m"
    and "N = pre @ nleaves path n @ rest" and "rest_leaves br = map oid_text rest"
    and "\<forall>x \<in> set pre. x < path" and "\<forall>y \<in> set rest. \<forall>z. path @ z < y"
  shows "\<exists>pre' rest' br'. next_follow (map show_nat ks) (oid_text path) (Some n) (node_children n) br = (Some m, node_children m, br') \<and>
    N = pre' @ nleaves (path @ ks) m @ rest' \<and> rest_leaves br' = map oid_text rest' \<and>
    (\<forall>x \<in> set pre'. x < path @ ks) \<and> (\<forall>y \<in> set rest'. \<forall>z. path @ ks @ z < y) \<and>
    forest_ok (path @ ks) (node_children m) \<and> node_oid m = oid_text (path @ ks)"
  using assms
proof (induction ks arbitrary: path n pre rest br)
  case Nil
  then show ?case by simp
next
  case (Cons k ks)
  let ?cs = "node_children n" and ?f = "\<lambda>c. nleaves (path @ [nat (node_idx c)]) c"
  show ?case
  proof (cases rule: find_oid_cases [OF Cons.prems(1), of k])
    case 1
    then show ?thesis using Cons.prems(2) by simp
  next
    case (2 i)
    let ?c = "?cs ! i"
    define pre1 where "pre1 = pre @ concat (map ?f (take i ?cs))"
    define rest1 where "rest1 = concat (map ?f (drop (i + 1) ?cs)) @ rest"
    have split: "?cs = take i ?cs @ ?c # drop (i + 1) ?cs" using 2(2) by (simp add: id_take_nth_drop)
    have idx: "node_idx (?cs ! a) < node_idx (?cs ! b)" if "a < b" "b < length ?cs" for a b
      using forest_okD(1) [OF Cons.prems(1)] that by (simp add: sorted_wrt_iff_nth_less)
    have nn: "0 \<le> node_idx c" if "c \<in> set ?cs" for c using forest_okD(2) [OF Cons.prems(1) that] by simp
    have lo: "node_idx c < int k \<and> 0 \<le> node_idx c" if c: "c \<in> set (take i ?cs)" for c
    proof -
      obtain a where "a < i" "c = ?cs ! a" using c 2(2) by (auto simp: in_set_conv_nth)
      then show ?thesis using idx [of a i] 2(2,3) nn [OF in_set_takeD [OF c]] by simp
    qed
    have hi: "int k < node_idx c" if c: "c \<in> set (drop (i + 1) ?cs)" for c
    proof -
      obtain a where "a < length ?cs - (i + 1)" "c = ?cs ! (i + 1 + a)" using c by (auto simp: in_set_conv_nth)
      then show ?thesis using idx [of i "i + 1 + a"] 2(3) by simp
    qed
    have "nleaves path n = concat (map ?f ?cs)" using 2(2) by (subst nleaves.simps) auto
    also have "\<dots> = concat (map ?f (take i ?cs)) @ nleaves (path @ [k]) ?c @ concat (map ?f (drop (i + 1) ?cs))"
      using 2(3) by (subst split) simp
    finally have N: "N = pre1 @ nleaves (path @ [k]) ?c @ rest1" using Cons.prems(3) by (simp add: pre1_def rest1_def)
    have oids: "leaves c = map oid_text (?f c)" if c: "c \<in> set ?cs" for c
    proof (rule nleaves_leaves)
      show "forest_ok (path @ [nat (node_idx c)]) (node_children c)"
        using forest_okD(3) [OF Cons.prems(1) c, of "nat (node_idx c)"] nn [OF c] by simp
    qed (use forest_okD(2) [OF Cons.prems(1) c] in simp)
    have R: "rest_leaves ((Some n, i) # br) = map oid_text rest1"
      using Cons.prems(4) oids by (simp add: rest1_def map_concat o_def in_set_dropD cong: map_cong)
    have P: "\<forall>x \<in> set pre1. x < path @ [k]"
    proof
      fix x assume "x \<in> set pre1"
      then consider "x \<in> set pre" | c z where "c \<in> set (take i ?cs)" "x = path @ nat (node_idx c) # z"
        by (auto simp: pre1_def prefix_def dest!: nleaves_prefix)
      then show "x < path @ [k]"
      proof cases
        case 1
        then show ?thesis using Cons.prems(5) lex_less_extend by blast
      next
        case (2 c z)
        then show ?thesis using lo [of c] lex_less_siblings [of "nat (node_idx c)" k path z "[]"] by auto
      qed
    qed
    have Q: "\<forall>y \<in> set rest1. \<forall>z. (path @ [k]) @ z < y"
      using Cons.prems(6) hi by (auto simp: rest1_def prefix_def zless_nat_eq_int_zless intro!: lex_less_siblings dest!: nleaves_prefix)
    have F: "find_oid_in_vector ?cs (extend_oid (oid_text path) (show_nat k)) = Some i" using 2(1) by (simp add: extend_oid_text)
    show ?thesis
    proof (cases "ks = []")
      case True
      then have "m = ?c" using Cons.prems(2) 2(4) by simp
      then show ?thesis using True F N R P Q 2(5) forest_oid_iff [OF Cons.prems(1) nth_mem [OF 2(2)], of k] 2(3)
        by (simp add: Let_def) blast
    next
      case False
      then have "flookup ks (node_children ?c) = Some m" using Cons.prems(2) 2(4) by simp
      from Cons.IH [OF 2(5) this N R P Q] show ?thesis using F by (simp add: Let_def extend_oid_text)
    qed
  qed
qed


section \<open>The next identifier is the successor\<close>

text \<open>The leaves of a tree below the first number 1, in the order of the tree.\<close>

definition tree_oids :: "'w snmp_node list \<Rightarrow> nat list list" where
  "tree_oids t = concat (map (nleaves [1]) t)"

definition successor :: "nat list list \<Rightarrow> nat list \<Rightarrow> string" where
  "successor ks s = (case filter (\<lambda>k. s < k) ks of [] \<Rightarrow> [] | k # _ \<Rightarrow> oid_text k)"

lemma sorted_concat:
  assumes "\<And>c. c \<in> set cs \<Longrightarrow> sorted_wrt (<) (f c)" and "sorted_wrt R cs"
    and "\<And>a b x y. a \<in> set cs \<Longrightarrow> b \<in> set cs \<Longrightarrow> R a b \<Longrightarrow> x \<in> set (f a) \<Longrightarrow> y \<in> set (f b) \<Longrightarrow> x < y"
  shows "sorted_wrt (<) (concat (map f cs))"
  using assms
proof (induction cs)
  case (Cons a cs)
  have "sorted_wrt (<) (concat (map f cs))"
  proof (rule Cons.IH)
    show "sorted_wrt (<) (f c)" if "c \<in> set cs" for c using Cons.prems(1) that by simp
    show "x < y" if "b \<in> set cs" "c \<in> set cs" "R b c" "x \<in> set (f b)" "y \<in> set (f c)" for b c x y
      using Cons.prems(3) [of b c x y] that by simp
  qed (use Cons.prems(2) in simp)
  moreover have "x < y" if "x \<in> set (f a)" "b \<in> set cs" "y \<in> set (f b)" for x b y
    using Cons.prems(2) Cons.prems(3) [of a b x y] that by simp
  ultimately show ?case using Cons.prems(1) by (auto simp: sorted_wrt_append)
qed simp

lemma nleaves_sorted: "forest_ok path (node_children n) \<Longrightarrow> sorted_wrt (<) (nleaves path n)"
proof (induction path n rule: nleaves.induct)
  case (1 path n)
  have nn: "0 \<le> node_idx c" if "c \<in> set (node_children n)" for c using forest_okD(2) [OF 1(2) that] by simp
  have "sorted_wrt (<) (concat (map (\<lambda>c. nleaves (path @ [nat (node_idx c)]) c) (node_children n)))"
  proof (rule sorted_concat [OF _ forest_okD(1) [OF 1(2)]])
    fix c assume c: "c \<in> set (node_children n)"
    show "sorted_wrt (<) (nleaves (path @ [nat (node_idx c)]) c)"
      using 1(1) [OF _ c] forest_okD(3) [OF 1(2) c, of "nat (node_idx c)"] c nn [OF c] by fastforce
  next
    fix a b x y
    assume "a \<in> set (node_children n)" "b \<in> set (node_children n)" "node_idx a < node_idx b"
      and "x \<in> set (nleaves (path @ [nat (node_idx a)]) a)" "y \<in> set (nleaves (path @ [nat (node_idx b)]) b)"
    then show "x < y" using nn [of a] nn [of b] by (auto simp: prefix_def intro!: lex_less_siblings dest!: nleaves_prefix)
  qed
  then show ?case by (simp add: nleaves.simps [of path n])
qed

lemma next_follow_tree:
  assumes "tree_ok 1 t" and "tree_lookup t s \<noteq> None"
  shows "\<exists>m pre rest br. next_follow (map show_nat s) [] None t [] = (Some m, node_children m, br) \<and>
    tree_oids t = pre @ nleaves s m @ rest \<and> rest_leaves br = map oid_text rest \<and>
    (\<forall>x \<in> set pre. x < s) \<and> (\<forall>y \<in> set rest. \<forall>z. s @ z < y) \<and> forest_ok s (node_children m) \<and> node_oid m = oid_text s"
proof -
  obtain n where n: "t = [n]" "node_oid n = oid_text [1]" "forest_ok [1] (node_children n)"
    using assms by (auto simp: tree_ok_def)
  obtain ks where s: "s = 1 # ks" and m: "ks = [] \<or> flookup ks (node_children n) \<noteq> None"
    using assms(2) n by (auto simp: tree_lookup_single split: list.splits if_splits)
  have step: "next_follow (map show_nat s) [] None t [] = next_follow (map show_nat ks) (oid_text [1]) (Some n) (node_children n) [(None, 0)]"
    using n(1,2) s by (simp add: Let_def extend_oid_first)
  have N: "tree_oids t = [] @ nleaves [1] n @ []" using n(1) by (simp add: tree_oids_def)
  show ?thesis
  proof (cases "ks = []")
    case True
    then show ?thesis using step N n(2,3) s
      by (intro exI [of _ n] exI [of _ "[]"] exI [of _ "[(None, 0)]"]) simp
  next
    case False
    then obtain m where "flookup ks (node_children n) = Some m" using m by auto
    from next_follow_law [OF n(3) this N, of "[(None, 0)]"] obtain pre' rest' br' where
      "next_follow (map show_nat ks) (oid_text [1]) (Some n) (node_children n) [(None, 0)] = (Some m, node_children m, br')"
      "tree_oids t = pre' @ nleaves s m @ rest'" "rest_leaves br' = map oid_text rest'" "\<forall>x \<in> set pre'. x < s"
      "\<forall>y \<in> set rest'. \<forall>z. s @ z < y" "forest_ok s (node_children m)" "node_oid m = oid_text s"
      using s by auto
    then show ?thesis unfolding step by blast
  qed
qed

lemma find_next_successor:
  assumes "tree_ok 1 t" and "tree_lookup t s \<noteq> None"
  shows "find_next_oid (oid_text s) t = Inr (successor (tree_oids t) s) \<and> sorted_wrt (<) (tree_oids t)"
proof
  obtain m pre rest br where f: "next_follow (map show_nat s) [] None t [] = (Some m, node_children m, br)"
    "tree_oids t = pre @ nleaves s m @ rest" "rest_leaves br = map oid_text rest"
    "\<forall>x \<in> set pre. x < s" "\<forall>y \<in> set rest. \<forall>z. s @ z < y" "forest_ok s (node_children m)" "node_oid m = oid_text s"
    using next_follow_tree [OF assms] by blast
  obtain l br' where d: "next_down (Some m) (node_children m) br = (Some l, br')" "node_children l = []"
    "node_oid l = hd (leaves m)" "rest_leaves br' = tl (leaves m) @ rest_leaves br"
    using next_down_law [of m br] by blast
  have l: "leaves m = map oid_text (nleaves s m)" using nleaves_leaves [OF f(6,7)] .
  have pre: "filter (\<lambda>k. s < k) pre = []" using f(4) by (auto simp: filter_empty_conv)
  have rest: "filter (\<lambda>k. s < k) rest = rest" using f(5) by (metis append_Nil2 filter_True)
  have body: "find_next_oid (oid_text s) t =
      Inr (if node_oid l \<noteq> oid_text s then node_oid l else next_sibling ((Some l, 0) # br'))"
    using f(1) d(1) by (simp add: find_next_oid_def)
  show "find_next_oid (oid_text s) t = Inr (successor (tree_oids t) s)"
  proof (cases "node_children m = []")
    case True
    then have nl: "nleaves s m = [s]" by (subst nleaves.simps) simp
    then have "node_oid l = oid_text s" "rest_leaves ((Some l, 0) # br') = map oid_text rest"
      using d(2-4) f(3) l by simp_all
    moreover have "filter (\<lambda>k. s < k) (tree_oids t) = rest" using f(2) nl pre rest by simp
    ultimately show ?thesis using body
      by (cases rest) (simp_all add: next_sibling_rest first_or_empty_def successor_def del: rest_leaves.simps next_sibling.simps)
  next
    case False
    obtain k ks where nl: "nleaves s m = k # ks" by (cases "nleaves s m") simp_all
    have "\<forall>x \<in> set (k # ks). s < x" using nleaves_strict [OF False, of _ s] lex_append_less nl by metis
    then have "filter (\<lambda>k. s < k) (k # ks) = k # ks" by (rule filter_True)
    then have "filter (\<lambda>k. s < k) (tree_oids t) = k # ks @ filter (\<lambda>k. s < k) rest"
      unfolding f(2) filter_append pre nl by simp
    then have "successor (tree_oids t) s = oid_text k" by (simp add: successor_def)
    moreover have "node_oid l = oid_text k" using d(3) l nl by simp
    moreover have "k \<noteq> s" using nleaves_strict [OF False, of k s] nl by auto
    ultimately show ?thesis using body by (simp add: oid_text_inj)
  qed
next
  show "sorted_wrt (<) (tree_oids t)" using assms(1) nleaves_sorted by (auto simp: tree_ok_def tree_oids_def)
qed


section \<open>The leaves are what was registered\<close>

lemma find_member:
  "forest_ok path cs \<Longrightarrow> c \<in> set cs \<Longrightarrow> find (\<lambda>d. node_idx d = int (nat (node_idx c))) cs = Some c"
proof -
  assume ok: "forest_ok path cs" and c: "c \<in> set cs"
  have "0 \<le> node_idx c" using forest_okD(2) [OF ok c] by simp
  moreover have "sorted_wrt (\<lambda>a b. node_idx a < node_idx b) cs \<Longrightarrow> c \<in> set cs \<Longrightarrow> find (\<lambda>d. node_idx d = node_idx c) cs = Some c"
    by (induction cs) auto
  ultimately show ?thesis using forest_okD(1) [OF ok] c by simp
qed

lemma nleaves_iff:
  "forest_ok path (node_children n) \<Longrightarrow>
   x \<in> set (nleaves path n) \<longleftrightarrow>
     (\<exists>ks. x = path @ ks \<and> (if ks = [] then node_children n = []
        else \<exists>m. flookup ks (node_children n) = Some m \<and> node_children m = []))"
proof (induction path n arbitrary: x rule: nleaves.induct)
  case (1 path n)
  let ?cs = "node_children n"
  have IH: "x \<in> set (nleaves (path @ [nat (node_idx c)]) c) \<longleftrightarrow>
      (\<exists>ks. x = path @ nat (node_idx c) # ks \<and> (\<exists>m. flookup (nat (node_idx c) # ks) ?cs = Some m \<and> node_children m = []))"
    if c: "c \<in> set ?cs" for c
    using 1(1) [OF _ c, of x] forest_okD(3) [OF 1(2) c, of "nat (node_idx c)"] forest_okD(2) [OF 1(2) c] c find_member [OF 1(2) c]
    by (cases "?cs = []") auto
  show ?case
  proof (cases "?cs = []")
    case True
    then show ?thesis by (subst nleaves.simps) (auto dest: sym)
  next
    case False
    have "x \<in> set (nleaves path n) \<longleftrightarrow> (\<exists>c \<in> set ?cs. x \<in> set (nleaves (path @ [nat (node_idx c)]) c))"
      using False by (subst nleaves.simps) simp
    also have "\<dots> \<longleftrightarrow> (\<exists>ks. x = path @ ks \<and> ks \<noteq> [] \<and> (\<exists>m. flookup ks ?cs = Some m \<and> node_children m = []))"
    proof
      assume "\<exists>ks. x = path @ ks \<and> ks \<noteq> [] \<and> (\<exists>m. flookup ks ?cs = Some m \<and> node_children m = [])"
      then obtain k ks m where k: "x = path @ k # ks" "flookup (k # ks) ?cs = Some m" "node_children m = []"
        by (metis neq_Nil_conv)
      obtain c where c: "find (\<lambda>c. node_idx c = int k) ?cs = Some c" using k(2) by (simp split: option.splits)
      then have "c \<in> set ?cs" "node_idx c = int k" by (auto simp: find_Some_iff)
      then show "\<exists>c \<in> set ?cs. x \<in> set (nleaves (path @ [nat (node_idx c)]) c)" using IH [of c] k by (intro bexI [of _ c]) (auto simp del: flookup.simps)
    qed (use IH in blast)
    finally show ?thesis using False by auto
  qed
qed

lemma flookup_snoc:
  "flookup (ks @ [j]) cs =
     (if ks = [] then flookup [j] cs else case flookup ks cs of None \<Rightarrow> None | Some m \<Rightarrow> flookup [j] (node_children m))"
  by (induction ks arbitrary: cs) (auto split: option.split)

lemma flookup_child:
  assumes "forest_ok path cs"
  shows "(\<forall>j. flookup [j] cs = None) \<longleftrightarrow> cs = []"
proof
  assume none: "\<forall>j. flookup [j] cs = None"
  show "cs = []"
  proof (cases cs)
    case (Cons c ds)
    then have "flookup [nat (node_idx c)] cs \<noteq> None" using find_member [OF assms, of c] by simp
    then show ?thesis using none by (simp del: flookup.simps)
  qed
qed simp

lemma flookup_ok: "forest_ok path cs \<Longrightarrow> flookup ks cs = Some m \<Longrightarrow> forest_ok (path @ ks) (node_children m)"
proof (induction ks arbitrary: path cs)
  case (Cons k ks)
  obtain c where c: "find (\<lambda>c. node_idx c = int k) cs = Some c" using Cons.prems(2) by (simp split: option.splits)
  then have "forest_ok (path @ [k]) (node_children c)"
    using forest_okD(3) [OF Cons.prems(1), of c k] by (auto simp: find_Some_iff)
  then show ?case using Cons.IH [of "path @ [k]" "node_children c"] Cons.prems c by (auto split: if_splits)
qed simp

lemma tree_oids_iff:
  assumes "tree_ok 1 t"
  shows "x \<in> set (tree_oids t) \<longleftrightarrow> tree_lookup t x \<noteq> None \<and> (\<forall>j. tree_lookup t (x @ [j]) = None)"
proof (cases t)
  case Nil
  then show ?thesis by (simp add: tree_oids_def)
next
  case (Cons a t')
  then have n: "t = [a]" "node_oid a = oid_text [1]" "forest_ok [1] (node_children a)" using assms by (auto simp: tree_ok_def)
  have look: "tree_lookup t js = (case js of [] \<Rightarrow> None | j # js \<Rightarrow> if j \<noteq> 1 then None else
      if js = [] then Some (node_kind a) else map_option node_kind (flookup js (node_children a)))" for js
    using tree_lookup_single [OF n(2,3)] n(1) by simp
  show ?thesis
  proof (cases "\<exists>ks. x = 1 # ks")
    case True
    then obtain ks where x: "x = 1 # ks" by blast
    have "x \<in> set (tree_oids t) \<longleftrightarrow> (if ks = [] then node_children a = []
        else \<exists>m. flookup ks (node_children a) = Some m \<and> node_children m = [])"
      using nleaves_iff [OF n(3), of x] n(1) x by (simp add: tree_oids_def)
    also have "\<dots> \<longleftrightarrow> tree_lookup t x \<noteq> None \<and> (\<forall>j. tree_lookup t (x @ [j]) = None)"
    proof (cases "ks = []")
      case True
      then show ?thesis using flookup_child [OF n(3)] x by (simp add: look)
    next
      case False
      have "(\<forall>j. flookup (ks @ [j]) (node_children a) = None) \<longleftrightarrow> node_children m = []" if "flookup ks (node_children a) = Some m" for m
        using flookup_child [OF flookup_ok [OF n(3) that]] that False by (simp add: flookup_snoc)
      then show ?thesis using False x by (cases "flookup ks (node_children a)") (simp_all add: look)
    qed
    finally show ?thesis .
  next
    case False
    then have "tree_lookup t x = None" by (cases x) (auto simp: look)
    moreover have "x \<notin> set (tree_oids t)" using nleaves_prefix [of x "[1]" a] False n(1) by (auto simp: tree_oids_def prefix_def)
    ultimately show ?thesis by simp
  qed
qed


section \<open>A walk\<close>

text \<open>What a manager does: GetNext from the identifier it got last, until there is no next one.\<close>

fun getnext_walk :: "nat \<Rightarrow> string \<Rightarrow> 'w snmp_node list \<Rightarrow> string list result" where
  "getnext_walk 0 oid t = Inl No_return"
| "getnext_walk (Suc fuel) oid t =
     bindR (find_next_oid oid t) (\<lambda>oid'.
       if oid' = [] then Inr [] else bindR (getnext_walk fuel oid' t) (\<lambda>oids. Inr (oid' # oids)))"

abbreviation register_tree :: "(nat list \<times> 'w snmp_kind) list \<Rightarrow> 'w snmp_node list" where
  "register_tree entries \<equiv> fold (\<lambda>(ks, d). register_oid (oid_text ks) (new_node d)) entries []"


lemma sorted_distinct: "sorted_wrt (<) xs \<Longrightarrow> distinct (xs :: nat list list)"
  by (induction xs) auto

lemma filter_tail:
  assumes "sorted_wrt (<) ks" and "filter (\<lambda>x. s < x) ks = k # rest"
  shows "filter (\<lambda>x. k < x) ks = (rest :: nat list list)" and "k \<in> set ks"
proof -
  have "k \<in> set (filter (\<lambda>x. s < x) ks)" unfolding assms(2) by simp
  then have "s < k" and k: "k \<in> set ks" by simp_all
  then show "k \<in> set ks" by simp
  have sorted: "sorted_wrt (<) (k # rest)" using assms sorted_wrt_filter by metis
  have "filter (\<lambda>x. k < x) ks = filter (\<lambda>x. k < x) (filter (\<lambda>x. s < x) ks)"
    using \<open>s < k\<close> by (simp add: conj_commute) (metis (no_types, lifting) filter_cong less_trans)
  also have "\<dots> = rest" using sorted unfolding assms(2) by (simp add: filter_id_conv)
  finally show "filter (\<lambda>x. k < x) ks = rest" .
qed

lemma walk_filter:
  "tree_ok 1 t \<Longrightarrow> tree_lookup t s \<noteq> None \<Longrightarrow> length (filter (\<lambda>k. s < k) (tree_oids t)) < fuel \<Longrightarrow>
   getnext_walk fuel (oid_text s) t = Inr (map oid_text (filter (\<lambda>k. s < k) (tree_oids t)))"
proof (induction fuel arbitrary: s)
  case (Suc fuel)
  have nxt: "find_next_oid (oid_text s) t = Inr (successor (tree_oids t) s)" and sorted: "sorted_wrt (<) (tree_oids t)"
    using find_next_successor [OF Suc.prems(1,2)] by simp_all
  show ?case
  proof (cases "filter (\<lambda>k. s < k) (tree_oids t)")
    case Nil
    then show ?thesis using nxt by (simp add: successor_def)
  next
    case (Cons k rest)
    note tail = filter_tail [OF sorted Cons]
    have known: "tree_lookup t k \<noteq> None" using tree_oids_iff [OF Suc.prems(1)] tail(2) by blast
    then have "k \<noteq> []" using Suc.prems(1) by (auto simp: tree_lookup_def)
    moreover have "getnext_walk fuel (oid_text k) t = Inr (map oid_text rest)"
      using Suc.IH [OF Suc.prems(1) known] Suc.prems(3) Cons tail(1) by simp
    ultimately show ?thesis using nxt Cons by (simp add: successor_def)
  qed
qed simp

lemma registered_tree:
  assumes "\<forall>(ks, d) \<in> set entries. valid_oid 1 ks"
  shows "tree_ok 1 (register_tree entries)"
    and "tree_lookup (register_tree entries) js \<noteq> None \<longleftrightarrow> js \<noteq> [] \<and> (\<exists>(ks, d) \<in> set entries. prefix js ks)"
proof -
  show "tree_ok 1 (register_tree entries)"
    using snmp_tree.ok_register_all [of 1 "[]" entries] assms snmp_tree.ok_empty by blast
  have "\<forall>(ks, d) \<in> set entries. valid_oid 1 ks \<and> ks \<noteq> []" using assms by (auto simp: valid_oid_def)
  from snmp_tree.known_register_all [OF snmp_tree.ok_empty this, of js]
  show "tree_lookup (register_tree entries) js \<noteq> None \<longleftrightarrow> js \<noteq> [] \<and> (\<exists>(ks, d) \<in> set entries. prefix js ks)"
    by simp
qed

lemma registered_oids:
  assumes "\<forall>(ks, d) \<in> set entries. valid_oid 1 ks" and "pairwise (\<lambda>a b. \<not> prefix a b) (fst ` set entries)"
  shows "set (tree_oids (register_tree entries)) = fst ` set entries"
proof -
  let ?known = "\<lambda>js. js \<noteq> [] \<and> (\<exists>(ks, d) \<in> set entries. prefix js ks)"
  have "?known x \<and> (\<forall>j. \<not> ?known (x @ [j])) \<longleftrightarrow> x \<in> fst ` set entries" for x
  proof
    assume x: "x \<in> fst ` set entries"
    have "\<not> prefix (x @ [j]) ks" if k: "(ks, d) \<in> set entries" for j ks d
    proof
      assume p: "prefix (x @ [j]) ks"
      then have "prefix x ks" "x \<noteq> ks" by (auto dest: append_prefixD)
      moreover have "ks \<in> fst ` set entries" using k by force
      ultimately show False using assms(2) x unfolding pairwise_def by blast
    qed
    moreover have "x \<noteq> []" using x assms(1) by (auto simp: valid_oid_def)
    ultimately show "?known x \<and> (\<forall>j. \<not> ?known (x @ [j]))" using x by force
  next
    assume l: "?known x \<and> (\<forall>j. \<not> ?known (x @ [j]))"
    then obtain ks d where k: "(ks, d) \<in> set entries" "prefix x ks" by blast
    obtain zs where "ks = x @ zs" using k(2) by (auto simp: prefix_def)
    moreover have "zs = []"
    proof (cases zs)
      case (Cons j ys)
      then have "prefix (x @ [j]) ks" using \<open>ks = x @ zs\<close> by simp
      then show ?thesis using l k(1) by blast
    qed simp
    ultimately show "x \<in> fst ` set entries" using k by force
  qed
  moreover have "x \<in> set (tree_oids (register_tree entries)) \<longleftrightarrow> ?known x \<and> (\<forall>j. \<not> ?known (x @ [j]))" for x
    using tree_oids_iff [OF registered_tree(1) [OF assms(1)], of x] unfolding registered_tree(2) [OF assms(1), symmetric] by simp
  ultimately show ?thesis by (intro equalityI subsetI) simp_all
qed


text \<open>
  For an identifier that is in a well-formed tree, \<open>find_next_oid\<close> returns the first leaf after it in
  the order of the numbers, and the empty text after the last one; the tree keeps its leaves in this order.
\<close>

theorem find_next_is_successor:
  assumes "tree_ok 1 t" and "tree_lookup t s \<noteq> None"
  shows "find_next_oid (oid_text s) t = Inr (successor (tree_oids t) s) \<and> sorted_wrt (<) (tree_oids t)"
  by (rule find_next_successor [OF assms])

theorem find_next_is_successor_witness:
  "find_next_oid (oid_text [1, 3]) (register_tree [([1, 3, 6, 2], Dt_node), ([1, 3, 6, 1], Dt_node :: unit snmp_kind)]) =
     Inr (successor (tree_oids (register_tree [([1, 3, 6, 2], Dt_node), ([1, 3, 6, 1], Dt_node :: unit snmp_kind)])) [1, 3])"
proof -
  have v: "\<forall>(ks, d) \<in> set [([1, 3, 6, 2], Dt_node), ([1, 3, 6, 1], Dt_node :: unit snmp_kind)]. valid_oid 1 ks"
    by (simp add: valid_oid_def)
  show ?thesis using find_next_is_successor [OF registered_tree(1) [OF v], of "[1, 3]"] registered_tree(2) [OF v, of "[1, 3]"]
    by (simp del: fold_simps)
qed

text \<open>
  C25: after any identifiers below 1 have been registered, none a prefix of another, a walk from a known
  identifier takes at most one request more than there are identifiers; it returns in ascending order,
  each once, exactly the registered identifiers that come after the one it started from.
\<close>

theorem getnext_walk_enumerates:
  assumes "\<forall>(ks, d) \<in> set entries. valid_oid 1 ks" and "pairwise (\<lambda>a b. \<not> prefix a b) (fst ` set entries)"
    and "(ks, d) \<in> set entries" and "prefix s ks" and "s \<noteq> []" and "length entries < fuel"
  shows "\<exists>oids. sorted_wrt (<) oids \<and> set oids = fst ` set entries \<and>
    getnext_walk fuel (oid_text s) (register_tree entries) = Inr (map oid_text (filter (\<lambda>k. s < k) oids))"
proof -
  let ?t = "register_tree entries"
  have known: "tree_lookup ?t s \<noteq> None" using registered_tree(2) [OF assms(1)] assms(3-5) by blast
  note ok = registered_tree(1) [OF assms(1)] and oids = registered_oids [OF assms(1,2)]
  have sorted: "sorted_wrt (<) (tree_oids ?t)" using find_next_successor [OF ok known] by simp
  have "distinct (tree_oids ?t)" using sorted by (rule sorted_distinct)
  then have "length (tree_oids ?t) = card (fst ` set entries)" using oids distinct_card by metis
  also have "\<dots> \<le> length entries" using card_image_le card_length le_trans finite_set by metis
  finally have "length (filter (\<lambda>k. s < k) (tree_oids ?t)) < fuel" using assms(6) length_filter_le [of "\<lambda>k. s < k" "tree_oids ?t"] by linarith
  from walk_filter [OF ok known this] show ?thesis using sorted oids by blast
qed

theorem getnext_walk_enumerates_witness:
  "\<exists>oids. sorted_wrt (<) oids \<and> set oids = {[1, 3, 6, 2], [1, 3, 6, 1]} \<and>
    getnext_walk 3 (oid_text [1, 3]) (register_tree [([1, 3, 6, 2], Dt_node), ([1, 3, 6, 1], Dt_node :: unit snmp_kind)]) =
      Inr (map oid_text (filter (\<lambda>k. [1, 3] < k) oids))"
  using getnext_walk_enumerates [of "[([1, 3, 6, 2], Dt_node), ([1, 3, 6, 1], Dt_node :: unit snmp_kind)]" "[1, 3, 6, 1]" Dt_node "[1, 3]" 3]
  by (simp add: valid_oid_def pairwise_def del: fold_simps getnext_walk.simps)

text \<open>
  For an identifier that is not in the tree \<open>find_next_oid\<close> goes back to the first leaf below the
  part of it that exists: after 1.3.6.2 it returns 1.3.6.1 although 1.3.6.3 is there.
\<close>

theorem find_next_unknown_goes_back:
  "find_next_oid (oid_text [1, 3, 6, 2]) (register_tree [([1, 3, 6, 1], Dt_node), ([1, 3, 6, 3], Dt_node)]) =
     Inr (oid_text [1, 3, 6, 1])"
  by (simp only: fold_simps prod.case find_next_oid_def register_oid_def split_oid_text) code_simp

end
