(* ===== verification/Snmp.thy ===== *)
theory Snmp
  imports Snmp_Walk
begin

text \<open>
  The SNMP agent (\<^verbatim>\<open>snmp/snmp.cpp\<close>): taking a request apart (\<open>process_BER\<close>, \<open>process_PDU\<close>), putting the
  reply together (\<open>gen_reply\<close>), and what its thread does with the datagrams it receives. Shown: a Get or
  GetNext request is answered with the values of the identifiers asked for; requests that make the
  agent write outside its buffers.
\<close>

section \<open>Requests\<close>

record oid_req_t =
  rq_oids :: "string list"
  rq_req_id :: u64
  rq_err :: i32
  rq_err_idx :: i32
  rq_version :: i32
  rq_community :: string

definition oid_req_new :: oid_req_t where
  "oid_req_new = \<lparr>rq_oids = [], rq_req_id = 0, rq_err = 0, rq_err_idx = 0, rq_version = 0, rq_community = []\<rparr>"

definition get_type_length :: "block \<Rightarrow> (byte \<times> byte \<times> block) snmp_run" where
  "get_type_length b = bindE (get_byte b) (\<lambda>(ty, b). bindE (get_byte b) (\<lambda>(len, b). Inr (ty, len, b)))"

text \<open>The type, the length and as many bytes, as the loops of \<open>process_BER\<close> and \<open>process_PDU\<close> read them.\<close>

definition get_tlv :: "block \<Rightarrow> (byte \<times> block \<times> block) snmp_run" where
  "get_tlv b = bindE (get_byte b) (\<lambda>(ty, b). bindE (get_byte b) (\<lambda>(len, b).
     bindE (get_bytes (unat len) b) (\<lambda>(temp, b). Inr (ty, temp, b))))"

lemma get_type_length_left: "get_type_length b = Inr (ty, len, b') \<Longrightarrow> get_bytes_left b' + 2 = get_bytes_left b"
  by (auto simp: get_type_length_def bindE_def split: sum.splits dest!: get_byte_left)

lemma get_tlv_left: "get_tlv b = Inr (ty, temp, b') \<Longrightarrow> get_bytes_left temp + get_bytes_left b' + 2 = get_bytes_left b"
  by (auto simp: get_tlv_def bindE_def split: sum.splits dest!: get_byte_left get_bytes_left_less)

text \<open>What \<open>process_BER\<close> does with an object identifier.\<close>

definition add_oid :: "'w snmp_node list \<Rightarrow> bool \<Rightarrow> string \<Rightarrow> oid_req_t \<Rightarrow> oid_req_t snmp_run" where
  "add_oid sd is_getnext oid_out req =
     (if is_getnext
      then bindE (snmp_result (find_next_oid oid_out sd)) (\<lambda>oid_next.
        if oid_next = [] then Inr (req\<lparr>rq_err := 2, rq_err_idx := 1\<rparr>)
        else Inr (req\<lparr>rq_oids := rq_oids req @ [oid_next]\<rparr>))
      else Inr (req\<lparr>rq_oids := rq_oids req @ [oid_out]\<rparr>))"

text \<open>
  \<open>ber_loop\<close> is the loop of \<open>process_BER\<close>, \<open>varbind_loop\<close> the one of \<open>process_PDU\<close>, which ignores what
  \<open>process_BER\<close> returns. An exception leaves all of them.
\<close>

function ber_loop :: "'w snmp_node list \<Rightarrow> block \<Rightarrow> bool \<Rightarrow> int \<Rightarrow> bool \<Rightarrow> bool \<Rightarrow> oid_req_t \<Rightarrow> (bool \<times> oid_req_t) snmp_run"
and process_PDU :: "'w snmp_node list \<Rightarrow> block \<Rightarrow> bool \<Rightarrow> oid_req_t \<Rightarrow> (bool \<times> oid_req_t) snmp_run"
and varbind_loop :: "'w snmp_node list \<Rightarrow> block \<Rightarrow> bool \<Rightarrow> oid_req_t \<Rightarrow> (bool \<times> oid_req_t) snmp_run" where
  "ber_loop sd b is_getnext is_top first_integer first_octet_str req =
     (if blk_is_empty b then Inr (True, req)
      else bindE (get_tlv b) (\<lambda>(ty, temp, b).
        if ty = 0x02 then
          bindE (if is_top \<noteq> 0 \<and> first_integer
                 then bindE (get_INTEGER temp) (\<lambda>v. Inr (req\<lparr>rq_version := ucast v\<rparr>)) else Inr req) (\<lambda>req.
          ber_loop sd b is_getnext is_top False first_octet_str req)
        else if ty = 0x04 then
          ber_loop sd b is_getnext is_top first_integer False
            (if is_top \<noteq> 0 \<and> first_octet_str then req\<lparr>rq_community := map char_of_byte (blk_data temp)\<rparr> else req)
        else if ty = 0x05 then ber_loop sd b is_getnext is_top first_integer first_octet_str req
        else if ty = 0x06 then
          bindE (get_OID temp) (\<lambda>(ok, oid_out).
            if \<not> ok then Inr (False, req)
            else bindE (add_oid sd is_getnext oid_out req) (\<lambda>req.
              ber_loop sd b is_getnext is_top first_integer first_octet_str req))
        else if ty = 0x30 then
          bindE (ber_loop sd temp is_getnext (is_top - 1) True True req) (\<lambda>(ok, req).
            if \<not> ok then Inr (False, req) else ber_loop sd b is_getnext is_top first_integer first_octet_str req)
        else if ty = 0xa0 \<or> ty = 0xa3 then
          bindE (process_PDU sd temp is_getnext req) (\<lambda>(ok, req).
            if \<not> ok then Inr (False, req) else ber_loop sd b is_getnext is_top first_integer first_octet_str req)
        else if ty = 0xa1 then
          bindE (process_PDU sd temp True req) (\<lambda>(ok, req).
            if \<not> ok then Inr (False, req) else ber_loop sd b is_getnext is_top first_integer first_octet_str req)
        else Inr (False, req)))"
| "process_PDU sd b is_getnext req =
     bindE (get_type_length b) (\<lambda>(pdu_type, pdu_length, b).
     if pdu_type \<noteq> 0x02 then Inr (False, req)
     else bindE (get_bytes (unat pdu_length) b) (\<lambda>(id_bytes, b).
     bindE (get_INTEGER id_bytes) (\<lambda>v. let req = req\<lparr>rq_req_id := v\<rparr> in
     bindE (get_type_length b) (\<lambda>(pdu_type, pdu_length, b).
     if pdu_type \<noteq> 0x02 then Inr (False, req)
     else bindE (skip_bytes (unat pdu_length) b) (\<lambda>b.
     bindE (get_type_length b) (\<lambda>(pdu_type, pdu_length, b).
     if pdu_type \<noteq> 0x02 then Inr (False, req)
     else bindE (skip_bytes (unat pdu_length) b) (\<lambda>b.
     bindE (get_byte b) (\<lambda>(type_vb_list, b).
     if type_vb_list \<noteq> 0x30 then Inr (False, req)
     else bindE (get_byte b) (\<lambda>(len_vb_list, b).
     if len_vb_list = 0 then Inr (True, req)
     else bindE (get_bytes (unat len_vb_list) b) (\<lambda>(temp, b).
       varbind_loop sd temp is_getnext req))))))))))"
| "varbind_loop sd temp is_getnext req =
     (if blk_is_empty temp then Inr (True, req)
      else bindE (get_tlv temp) (\<lambda>(seq_type, seq_data, temp).
        if seq_type = 0x30 then
          bindE (ber_loop sd seq_data is_getnext 0 True True req) (\<lambda>(_, req). varbind_loop sd temp is_getnext req)
        else Inr (False, req)))"
  by pat_completeness auto
termination
  by (relation "measure (case_sum (\<lambda>(_, b, _). get_bytes_left b)
        (case_sum (\<lambda>(_, b, _). get_bytes_left b) (\<lambda>(_, b, _). get_bytes_left b)))")
    (auto dest!: get_tlv_left get_type_length_left get_byte_left get_bytes_left_less skip_bytes_left)

declare ber_loop.simps [simp del] process_PDU.simps [simp del] varbind_loop.simps [simp del]

definition process_BER :: "'w snmp_node list \<Rightarrow> block \<Rightarrow> bool \<Rightarrow> int \<Rightarrow> oid_req_t \<Rightarrow> (bool \<times> oid_req_t) snmp_run" where
  "process_BER sd b is_getnext is_top req = ber_loop sd b is_getnext is_top True True req"

section \<open>The reply\<close>

definition last_part_zero :: "string \<Rightarrow> string option" where
  "last_part_zero e = (case rfind_dot e of Some (p, t) \<Rightarrow> if t = ''0'' then Some p else None | None \<Rightarrow> None)"

definition reply_value :: "string \<Rightarrow> 'w snmp_node list \<Rightarrow> 'w snmp_world \<Rightarrow> (snmp_elem \<times> 'w snmp_world) result" where
  "reply_value e sd w =
     bindR (find_by_oid e sd w) (\<lambda>(rc, w).
     bindR (case (rc, last_part_zero e) of
              (None, Some p) \<Rightarrow> find_by_oid p sd w
            | _ \<Rightarrow> Inr (rc, w)) (\<lambda>(rc, w).
     Inr (case rc of Some (Some current_element) \<Rightarrow> current_element | _ \<Rightarrow> Snmp_null, w)))"

fun reply_varbinds :: "string list \<Rightarrow> 'w snmp_node list \<Rightarrow> 'w snmp_world \<Rightarrow> (snmp_elem list \<times> 'w snmp_world) result" where
  "reply_varbinds [] sd w = Inr ([], w)"
| "reply_varbinds (e # es) sd w =
     bindR (snmp_oid_new e) (\<lambda>oid.
     bindR (reply_value e sd w) (\<lambda>(v, w).
     bindR (reply_varbinds es sd w) (\<lambda>(vs, w). Inr (Snmp_sequence [oid, v] # vs, w))))"

definition reply_message :: "oid_req_t \<Rightarrow> snmp_elem list \<Rightarrow> snmp_elem" where
  "reply_message req varbind_list =
     (let community = (if rq_community req = [] then ''public'' else rq_community req) in
      Snmp_sequence
        [snmp_integer_new si_integer (scast (rq_version req)),
         snmp_octet_string_new (c_str community),
         Snmp_pdu 0xa2
           [snmp_integer_new si_integer (rq_req_id req),
            snmp_integer_new si_integer (scast (rq_err req)),
            snmp_integer_new si_integer (scast (rq_err_idx req)),
            Snmp_sequence varbind_list]])"

definition gen_reply :: "oid_req_t \<Rightarrow> 'w snmp_node list \<Rightarrow> 'w snmp_world \<Rightarrow> (byte list \<times> 'w snmp_world) result" where
  "gen_reply req sd w =
     bindR (reply_varbinds (rq_oids req) sd w) (\<lambda>(varbind_list, w).
     bindR (get_payload (reply_message req varbind_list)) (\<lambda>p. Inr (p, w)))"

section \<open>The thread\<close>

text \<open>A received datagram: \<open>None\<close> when nothing is sent back. The exception is caught, a trap is not.\<close>

definition handle_packet :: "'w snmp_node list \<Rightarrow> byte list \<Rightarrow> 'w snmp_world \<Rightarrow> (byte list option \<times> 'w snmp_world) result" where
  "handle_packet sd d w =
     (case process_BER sd (new_block d) False 2 oid_req_new of
        Inl Range_error \<Rightarrow> Inr (None, w)
      | Inl (Snmp_trap t) \<Rightarrow> Inl t
      | Inr (False, _) \<Rightarrow> Inr (None, w)
      | Inr (True, req) \<Rightarrow>
          bindR (gen_reply req sd w) (\<lambda>(p, w). Inr (if p \<noteq> [] then Some p else None, w)))"

definition SNMP_RECV_BUFFER_SIZE :: nat where
  "SNMP_RECV_BUFFER_SIZE = 65507"

text \<open>
  What \<open>poll\<close> and \<open>recvfrom\<close> report, one round of the loop each; the list ends when \<open>stop_flag\<close> is set. The
  result is the replies sent.
\<close>

datatype snmp_event = Poll_timeout | Recv_error | Recv "byte list"

fun snmp_thread :: "'w snmp_node list \<Rightarrow> snmp_event list \<Rightarrow> 'w snmp_world \<Rightarrow> (byte list list \<times> 'w snmp_world) result" where
  "snmp_thread sd [] w = Inr ([], w)"
| "snmp_thread sd (Poll_timeout # evs) w = snmp_thread sd evs w"
| "snmp_thread sd (Recv_error # evs) w = Inr ([], w)"
| "snmp_thread sd (Recv d # evs) w =
     (let buffer = take SNMP_RECV_BUFFER_SIZE d in
      bindR (if buffer \<noteq> [] then handle_packet sd buffer w else Inr (None, w)) (\<lambda>(r, w).
      bindR (snmp_thread sd evs w) (\<lambda>(rs, w). Inr ((case r of Some p \<Rightarrow> [p] | None \<Rightarrow> []) @ rs, w))))"


section \<open>A request as a manager sends it\<close>

definition varbind_request :: "nat list \<Rightarrow> byte list" where
  "varbind_request ns = tlv 0x30 (tlv 0x06 (snmp_oid_bytes (oid_text ns)) @ tlv 0x05 [])"

definition snmp_request :: "byte \<Rightarrow> byte list \<Rightarrow> string \<Rightarrow> byte list \<Rightarrow> nat list list \<Rightarrow> byte list" where
  "snmp_request kind version community req_id oids =
     tlv 0x30 (tlv 0x02 version @ tlv 0x04 (c_str community) @
       tlv kind (tlv 0x02 req_id @ tlv 0x02 [0] @ tlv 0x02 [0] @ tlv 0x30 (concat (map varbind_request oids))))"

definition INTEGER_value :: "byte list \<Rightarrow> u64" where
  "INTEGER_value bs = foldl (\<lambda>v x. push_bit 8 v OR ucast x) 0 bs"

text \<open>Identifiers the encoding is faithful for.\<close>

definition plain_oid :: "nat list \<Rightarrow> bool" where
  "plain_oid o' \<longleftrightarrow> (\<exists>ns. o' = 1 # 3 # ns \<and> ns \<noteq> [] \<and> (\<forall>n \<in> set ns. n < 2 ^ 31))"

fun add_oids :: "'w snmp_node list \<Rightarrow> bool \<Rightarrow> nat list list \<Rightarrow> oid_req_t \<Rightarrow> oid_req_t snmp_run" where
  "add_oids sd is_getnext [] req = Inr req"
| "add_oids sd is_getnext (o' # os) req = bindE (add_oid sd is_getnext (oid_text o') req) (add_oids sd is_getnext os)"

lemma get_byte_run:
  assumes "blk_ok b" and "blk_rest b = x # xs"
  obtains b' where "get_byte b = Inr (x, b')" "blk_ok b'" "blk_rest b' = xs"
  using get_byte_law [OF assms] by blast

lemma get_type_length_run:
  assumes "blk_ok b" and "blk_rest b = x # y # xs"
  obtains b' where "get_type_length b = Inr (x, y, b')" "blk_ok b'" "blk_rest b' = xs"
proof -
  obtain b1 where b1: "get_byte b = Inr (x, b1)" "blk_ok b1" "blk_rest b1 = y # xs" using get_byte_run [OF assms] .
  obtain b2 where "get_byte b1 = Inr (y, b2)" "blk_ok b2" "blk_rest b2 = xs" using get_byte_run [OF b1(2,3)] .
  then show ?thesis using that b1(1) by (simp add: get_type_length_def)
qed

lemma get_bytes_run:
  assumes "blk_ok b" and "blk_rest b = xs @ ys" and "n = length xs"
  obtains b' where "get_bytes n b = Inr (new_block xs, b')" "skip_bytes n b = Inr b'" "blk_ok b'" "blk_rest b' = ys"
  using get_bytes_law [OF assms] by blast

lemma get_tlv_run:
  assumes "blk_ok b" and "blk_rest b = tlv ty c @ ys" and "length c \<le> 255"
  obtains b' where "get_tlv b = Inr (ty, new_block c, b')" "blk_ok b'" "blk_rest b' = ys"
proof -
  let ?l = "of_nat (length c) :: byte"
  have "blk_rest b = ty # ?l # c @ ys" using assms(2) by (simp add: tlv_def)
  with assms(1) obtain b1 where b1: "get_byte b = Inr (ty, b1)" "blk_ok b1" "blk_rest b1 = ?l # c @ ys" by (rule get_byte_run)
  from b1(2,3) obtain b2 where b2: "get_byte b1 = Inr (?l, b2)" "blk_ok b2" "blk_rest b2 = c @ ys" by (rule get_byte_run)
  have "unat ?l = length c" using assms(3) by (rule unat_small_byte)
  with b2(2,3) obtain b3 where "get_bytes (unat ?l) b2 = Inr (new_block c, b3)" "blk_ok b3" "blk_rest b3 = ys"
    using get_bytes_run [of b2 c ys "unat ?l"] by metis
  then show ?thesis using that b1(1) b2(1) by (simp add: get_tlv_def)
qed

lemma get_INTEGER_value: "get_INTEGER (new_block c) = Inr (INTEGER_value c)"
  by (simp add: get_INTEGER_def get_INTEGER_loop_fold INTEGER_value_def)

lemma get_OID_plain: "plain_oid o' \<Longrightarrow> get_OID (new_block (snmp_oid_bytes (oid_text o'))) = Inr (True, oid_text o')"
  using get_OID_text by (auto simp: plain_oid_def)

lemma ber_loop_end: "blk_ok b \<Longrightarrow> blk_rest b = [] \<Longrightarrow> ber_loop sd b g tp fi fo req = Inr (True, req)"
  using blk_is_empty_iff [of b] by (subst ber_loop.simps) simp

lemma tlv_append_ne [simp]: "tlv ty c @ ys \<noteq> []"
  by (simp add: tlv_def)

text \<open>One element of each kind, and what the loop goes on with.\<close>

lemma get_tlv_not_empty: "get_tlv b = Inr r \<Longrightarrow> \<not> blk_is_empty b"
  by (auto simp: get_tlv_def get_byte_def blk_is_empty_def)

lemma ber_loop_step:
  assumes "get_tlv b = Inr (ty, new_block c, b')"
  shows "ty = 0x02 \<Longrightarrow> ber_loop sd b g tp fi fo req =
       ber_loop sd b' g tp False fo (if tp \<noteq> 0 \<and> fi then req\<lparr>rq_version := ucast (INTEGER_value c)\<rparr> else req)"
    "ty = 0x04 \<Longrightarrow> ber_loop sd b g tp fi fo req =
       ber_loop sd b' g tp fi False (if tp \<noteq> 0 \<and> fo then req\<lparr>rq_community := map char_of_byte c\<rparr> else req)"
    "ty = 0x05 \<Longrightarrow> ber_loop sd b g tp fi fo req = ber_loop sd b' g tp fi fo req"
    "ty = 0x06 \<Longrightarrow> get_OID (new_block c) = Inr (True, oid) \<Longrightarrow> ber_loop sd b g tp fi fo req =
       bindE (add_oid sd g oid req) (ber_loop sd b' g tp fi fo)"
    "ty = 0x30 \<Longrightarrow> ber_loop sd b g tp fi fo req = bindE (ber_loop sd (new_block c) g (tp - 1) True True req) (\<lambda>(ok, req).
       if \<not> ok then Inr (False, req) else ber_loop sd b' g tp fi fo req)"
    "ty = 0xa0 \<or> ty = 0xa1 \<Longrightarrow> ber_loop sd b g tp fi fo req =
       bindE (process_PDU sd (new_block c) (g \<or> ty = 0xa1) req) (\<lambda>(ok, req).
       if \<not> ok then Inr (False, req) else ber_loop sd b' g tp fi fo req)"
proof -
  have ne: "blk_is_empty b = False" using get_tlv_not_empty [OF assms] by simp
  note body = ber_loop.simps [of sd b g tp fi fo req, unfolded assms ne if_False bindE_simps prod.case]
  show "ty = 0x02 \<Longrightarrow> ber_loop sd b g tp fi fo req =
       ber_loop sd b' g tp False fo (if tp \<noteq> 0 \<and> fi then req\<lparr>rq_version := ucast (INTEGER_value c)\<rparr> else req)"
    unfolding body by (simp add: get_INTEGER_value)
  show "ty = 0x04 \<Longrightarrow> ber_loop sd b g tp fi fo req =
       ber_loop sd b' g tp fi False (if tp \<noteq> 0 \<and> fo then req\<lparr>rq_community := map char_of_byte c\<rparr> else req)"
    unfolding body by (simp add: new_block_def)
  show "ty = 0x05 \<Longrightarrow> ber_loop sd b g tp fi fo req = ber_loop sd b' g tp fi fo req"
    unfolding body by simp
  show "ty = 0x06 \<Longrightarrow> get_OID (new_block c) = Inr (True, oid) \<Longrightarrow> ber_loop sd b g tp fi fo req =
       bindE (add_oid sd g oid req) (ber_loop sd b' g tp fi fo)"
    unfolding body by simp
  show "ty = 0x30 \<Longrightarrow> ber_loop sd b g tp fi fo req = bindE (ber_loop sd (new_block c) g (tp - 1) True True req) (\<lambda>(ok, req).
       if \<not> ok then Inr (False, req) else ber_loop sd b' g tp fi fo req)"
    unfolding body by simp
  show "ty = 0xa0 \<or> ty = 0xa1 \<Longrightarrow> ber_loop sd b g tp fi fo req =
       bindE (process_PDU sd (new_block c) (g \<or> ty = 0xa1) req) (\<lambda>(ok, req).
       if \<not> ok then Inr (False, req) else ber_loop sd b' g tp fi fo req)"
    unfolding body by auto
qed


lemma bindE_assoc: "bindE (bindE r f) g = bindE r (\<lambda>a. bindE (f a) g)"
  by (cases r) simp_all

lemma bindE_cong_fun: "(\<And>a. f a = g a) \<Longrightarrow> bindE r f = bindE r g"
  by (cases r) simp_all

lemma varbind_content:
  assumes "plain_oid o'" and "length (snmp_oid_bytes (oid_text o')) \<le> 255"
  shows "ber_loop sd (new_block (tlv 0x06 (snmp_oid_bytes (oid_text o')) @ tlv 0x05 [])) g tp fi fo req =
    bindE (add_oid sd g (oid_text o') req) (\<lambda>req. Inr (True, req))"
proof -
  let ?c = "snmp_oid_bytes (oid_text o')"
  obtain b1 where b1: "get_tlv (new_block (tlv 0x06 ?c @ tlv 0x05 [])) = Inr (0x06, new_block ?c, b1)" "blk_ok b1" "blk_rest b1 = tlv 0x05 [] @ []"
    using get_tlv_run [of "new_block (tlv 0x06 ?c @ tlv 0x05 [])" "0x06" ?c "tlv 0x05 []"] assms(2) by auto
  obtain b2 where b2: "get_tlv b1 = Inr (0x05, new_block [], b2)" "blk_ok b2" "blk_rest b2 = []"
    using get_tlv_run [OF b1(2,3)] by auto
  have "ber_loop sd b1 g tp fi fo req = Inr (True, req)" for req
    by (simp add: ber_loop_step(3) [OF b2(1) refl] ber_loop_end [OF b2(2,3)])
  then show ?thesis
    by (simp add: ber_loop_step(4) [OF b1(1) refl get_OID_plain [OF assms(1)]] cong: bindE_cong)
qed

lemma varbind_loop_requests:
  "blk_ok b \<Longrightarrow> blk_rest b = concat (map varbind_request os) \<Longrightarrow> \<forall>o' \<in> set os. plain_oid o' \<Longrightarrow>
   length (concat (map varbind_request os)) \<le> 255 \<Longrightarrow>
   varbind_loop sd b g req = bindE (add_oids sd g os req) (\<lambda>req. Inr (True, req))"
proof (induction os arbitrary: b req)
  case Nil
  then show ?case using blk_is_empty_iff [of b] by (subst varbind_loop.simps) simp
next
  case (Cons o' os)
  let ?c = "tlv 0x06 (snmp_oid_bytes (oid_text o')) @ tlv 0x05 []"
  have l: "length ?c \<le> 255" "length (snmp_oid_bytes (oid_text o')) \<le> 255" using Cons.prems(4) by (simp_all add: varbind_request_def)
  have "blk_rest b = tlv 0x30 ?c @ concat (map varbind_request os)" using Cons.prems(2) varbind_request_def [of o'] by simp
  from get_tlv_run [OF Cons.prems(1) this l(1)]
  obtain b1 where b1: "get_tlv b = Inr (0x30, new_block ?c, b1)" "blk_ok b1" "blk_rest b1 = concat (map varbind_request os)" .
  have "blk_is_empty b = False" using get_tlv_not_empty [OF b1(1)] by simp
  then have "varbind_loop sd b g req =
      bindE (ber_loop sd (new_block ?c) g 0 True True req) (\<lambda>(_, req). varbind_loop sd b1 g req)"
    using b1(1) by (subst varbind_loop.simps) simp
  also have "\<dots> = bindE (add_oid sd g (oid_text o') req) (\<lambda>req. varbind_loop sd b1 g req)"
    using varbind_content [of o' sd g 0 True True req] Cons.prems(3) l(2) by (simp add: bindE_assoc)
  also have "\<dots> = bindE (add_oids sd g (o' # os) req) (\<lambda>req. Inr (True, req))"
    using Cons.IH [OF b1(2,3)] Cons.prems(3,4) by (simp add: bindE_assoc)
  finally show ?case .
qed

lemma process_PDU_request:
  assumes "\<forall>o' \<in> set os. plain_oid o'" and "length req_id \<le> 255" and "length (concat (map varbind_request os)) \<le> 255"
    and vs: "vs = concat (map varbind_request os)"
  shows "process_PDU sd (new_block (tlv 0x02 req_id @ tlv 0x02 [0] @ tlv 0x02 [0] @ tlv 0x30 vs)) g req =
    bindE (add_oids sd g os (req\<lparr>rq_req_id := INTEGER_value req_id\<rparr>)) (\<lambda>req. Inr (True, req))"
proof -
  define b where "b = new_block (tlv 0x02 req_id @ tlv 0x02 [0] @ tlv 0x02 [0] @ tlv 0x30 vs)"
  define lid where "lid = (of_nat (length req_id) :: byte)"
  define lvs where "lvs = (of_nat (length vs) :: byte)"
  have u: "unat lid = length req_id" "unat lvs = length vs"
    unfolding lid_def lvs_def by (rule unat_small_byte, use assms in blast)+
  have r: "blk_ok b" "blk_rest b = 0x02 # lid # req_id @ tlv 0x02 [0] @ tlv 0x02 [0] @ tlv 0x30 vs"
    by (simp_all add: tlv_def b_def lid_def)
  obtain b1 where b1: "get_type_length b = Inr (0x02, lid, b1)" "blk_ok b1"
    "blk_rest b1 = req_id @ tlv 0x02 [0] @ tlv 0x02 [0] @ tlv 0x30 vs" using get_type_length_run [OF r] .
  obtain b2 where b2: "get_bytes (unat lid) b1 = Inr (new_block req_id, b2)" "blk_ok b2"
    "blk_rest b2 = tlv 0x02 [0] @ tlv 0x02 [0] @ tlv 0x30 vs" using get_bytes_run [OF b1(2,3) u(1)] .
  obtain b3 where b3: "get_type_length b2 = Inr (0x02, 1, b3)" "blk_ok b3" "blk_rest b3 = [0] @ tlv 0x02 [0] @ tlv 0x30 vs"
    using get_type_length_run [OF b2(2), of "0x02" 1] b2(3) by (auto simp: tlv_def)
  obtain b4 where b4: "skip_bytes (unat (1 :: byte)) b3 = Inr b4" "blk_ok b4" "blk_rest b4 = tlv 0x02 [0] @ tlv 0x30 vs"
    using get_bytes_run [OF b3(2,3), of "unat (1 :: byte)"] by auto
  obtain b5 where b5: "get_type_length b4 = Inr (0x02, 1, b5)" "blk_ok b5" "blk_rest b5 = [0] @ tlv 0x30 vs"
    using get_type_length_run [OF b4(2), of "0x02" 1] b4(3) by (auto simp: tlv_def)
  obtain b6 where b6: "skip_bytes (unat (1 :: byte)) b5 = Inr b6" "blk_ok b6" "blk_rest b6 = tlv 0x30 vs"
    using get_bytes_run [OF b5(2,3), of "unat (1 :: byte)"] by auto
  have r6: "blk_rest b6 = 0x30 # lvs # vs @ []" using b6(3) by (simp add: tlv_def lvs_def)
  obtain b7 where b7: "get_byte b6 = Inr (0x30, b7)" "blk_ok b7" "blk_rest b7 = lvs # vs @ []"
    using get_byte_run [OF b6(2) r6] .
  obtain b8 where b8: "get_byte b7 = Inr (lvs, b8)" "blk_ok b8" "blk_rest b8 = vs @ []"
    using get_byte_run [OF b7(2,3)] .
  obtain b9 where b9: "get_bytes (unat lvs) b8 = Inr (new_block vs, b9)" using get_bytes_run [OF b8(2,3) u(2)] by metis
  have empty: "lvs = 0 \<longleftrightarrow> os = []"
  proof -
    have "lvs = 0 \<longleftrightarrow> length vs = 0" using u(2) by (metis unat_eq_zero)
    then show ?thesis by (cases os) (simp_all add: vs varbind_request_def tlv_def)
  qed
  have loop: "varbind_loop sd (new_block vs) g req' = bindE (add_oids sd g os req') (\<lambda>req. Inr (True, req))" for req'
    using varbind_loop_requests [of "new_block vs" os] assms by simp
  have "process_PDU sd b g req =
      (if lvs = 0 then Inr (True, req\<lparr>rq_req_id := INTEGER_value req_id\<rparr>)
       else varbind_loop sd (new_block vs) g (req\<lparr>rq_req_id := INTEGER_value req_id\<rparr>))"
    unfolding process_PDU.simps [of sd b] b1(1) b2(1) b3(1) b4(1) b5(1) b6(1) b7(1) b8(1) b9(1) get_INTEGER_value
      bindE_simps prod.case Let_def by simp
  then show ?thesis unfolding b_def [symmetric] loop by (simp add: empty)
qed


lemma map_char_of_byte [simp]: "map char_of_byte (c_str s) = s"
  by (simp add: c_str_def o_def)

lemma process_BER_request:
  assumes "\<forall>o' \<in> set os. plain_oid o'" and "kind = 0xa0 \<or> kind = 0xa1"
    and len: "length (snmp_request kind version community req_id os) \<le> 257"
  shows "process_BER sd (new_block (snmp_request kind version community req_id os)) False 2 req =
    bindE (add_oids sd (kind = 0xa1) os
      (req\<lparr>rq_version := ucast (INTEGER_value version), rq_community := community, rq_req_id := INTEGER_value req_id\<rparr>))
      (\<lambda>req. Inr (True, req))"
proof -
  define vs where "vs = concat (map varbind_request os)"
  define pdu where "pdu = tlv 0x02 req_id @ tlv 0x02 [0] @ tlv 0x02 [0] @ tlv 0x30 vs"
  define msg where "msg = tlv 0x02 version @ tlv 0x04 (c_str community) @ tlv kind pdu"
  have req: "snmp_request kind version community req_id os = tlv 0x30 msg"
    by (simp add: snmp_request_def msg_def pdu_def vs_def)
  have l: "length msg \<le> 255" using len unfolding req by simp
  then have l': "length version \<le> 255" "length (c_str community) \<le> 255" "length pdu \<le> 255" by (simp_all add: msg_def)
  then have l'': "length req_id \<le> 255" "length vs \<le> 255" by (simp_all add: pdu_def)
  obtain b1 where b1: "get_tlv (new_block (tlv 0x30 msg)) = Inr (0x30, new_block msg, b1)" "blk_ok b1" "blk_rest b1 = []"
    using get_tlv_run [of "new_block (tlv 0x30 msg)" "0x30" msg "[]"] l by auto
  obtain b2 where b2: "get_tlv (new_block msg) = Inr (0x02, new_block version, b2)" "blk_ok b2"
    "blk_rest b2 = tlv 0x04 (c_str community) @ tlv kind pdu"
    using get_tlv_run [of "new_block msg" "0x02" version "tlv 0x04 (c_str community) @ tlv kind pdu"] l'(1) by (auto simp: msg_def)
  obtain b3 where b3: "get_tlv b2 = Inr (0x04, new_block (c_str community), b3)" "blk_ok b3" "blk_rest b3 = tlv kind pdu @ []"
    using get_tlv_run [OF b2(2,3) l'(2)] by auto
  obtain b4 where b4: "get_tlv b3 = Inr (kind, new_block pdu, b4)" "blk_ok b4" "blk_rest b4 = []"
    using get_tlv_run [OF b3(2,3) l'(3)] by auto
  have pdu: "process_PDU sd (new_block pdu) (kind = 0xa1) req' =
      bindE (add_oids sd (kind = 0xa1) os (req'\<lparr>rq_req_id := INTEGER_value req_id\<rparr>)) (\<lambda>req. Inr (True, req))" for req'
    unfolding pdu_def using process_PDU_request [OF assms(1) l''(1) _ vs_def] l''(2) vs_def by simp
  show ?thesis
    unfolding req process_BER_def
    by (simp add: ber_loop_step(5) [OF b1(1) refl] ber_loop_end [OF b1(2,3)] ber_loop_step(1) [OF b2(1) refl]
        ber_loop_step(2) [OF b3(1) refl] ber_loop_step(6) [OF b4(1) assms(2)] ber_loop_end [OF b4(2,3)] pdu bindE_assoc)
qed

section \<open>What a manager may expect\<close>

text \<open>The data that stands for an identifier in a map \<open>look\<close>: its own, or with a last number 0 that of its parent.\<close>

definition served_kind :: "(nat list \<Rightarrow> 'd option) \<Rightarrow> nat list \<Rightarrow> 'd option" where
  "served_kind look o' =
     (case look o' of Some d \<Rightarrow> Some d | None \<Rightarrow> if 1 < length o' \<and> last o' = 0 then look (butlast o') else None)"

text \<open>The variable bindings of the answer to a request for identifiers: each with its value, null if there is none.\<close>

fun serve :: "(nat list \<Rightarrow> 'w snmp_kind option) \<Rightarrow> nat list list \<Rightarrow> 'w snmp_world \<Rightarrow> (snmp_elem list \<times> 'w snmp_world) result" where
  "serve look [] w = Inr ([], w)"
| "serve look (o' # os) w =
     bindR (snmp_oid_new (oid_text o')) (\<lambda>oid.
     bindR (case served_kind look o' of Some d \<Rightarrow> snmp_get_data d w | None \<Rightarrow> Inr (None, w)) (\<lambda>(v, w).
     bindR (serve look os w) (\<lambda>(vs, w).
       Inr (Snmp_sequence [oid, case v of Some e \<Rightarrow> e | None \<Rightarrow> Snmp_null] # vs, w))))"

lemma last_part_zero_text:
  "last_part_zero (oid_text o') = (if 1 < length o' \<and> last o' = 0 then Some (oid_text (butlast o')) else None)"
proof (cases o' rule: rev_cases)
  case Nil
  then show ?thesis by (simp add: last_part_zero_def rfind_dot_def)
next
  case (snoc pre k)
  have z: "show_nat k = ''0'' \<longleftrightarrow> k = 0"
  proof -
    have "show_nat 0 = ''0''" by code_simp
    then show ?thesis using show_nat_inj by metis
  qed
  show ?thesis
  proof (cases "pre = []")
    case True
    then show ?thesis using snoc rfind_dot_None [OF show_nat_no_dot [of k]] by (simp add: last_part_zero_def oid_text_head)
  next
    case False
    have "rfind_dot (oid_text pre @ CHR ''.'' # show_nat k) = Some (oid_text pre, show_nat k)"
      using rfind_dot_append [OF show_nat_no_dot] .
    moreover have "oid_text o' = oid_text pre @ CHR ''.'' # show_nat k" using False snoc by (simp add: oid_text_snoc)
    moreover have "butlast o' = pre" "last o' = k" "1 < length o'" using False snoc by simp_all
    ultimately show ?thesis using z by (simp add: last_part_zero_def)
  qed
qed

lemma find_by_oid_lookup:
  "find_by_oid (oid_text o') sd w =
     (case tree_lookup sd o' of None \<Rightarrow> Inr (None, w) | Some d \<Rightarrow> bindR (snmp_get_data d w) (\<lambda>(d, w). Inr (Some d, w)))"
  by (simp add: find_by_oid_def tree_lookup_def split: option.split)

lemma reply_value_served:
  "reply_value (oid_text o') sd w =
     bindR (case served_kind (tree_lookup sd) o' of Some d \<Rightarrow> snmp_get_data d w | None \<Rightarrow> Inr (None, w)) (\<lambda>(v, w).
       Inr (case v of Some e \<Rightarrow> e | None \<Rightarrow> Snmp_null, w))"
proof (cases "tree_lookup sd o'")
  case None
  then show ?thesis
    by (cases "tree_lookup sd (butlast o')")
      (auto simp: reply_value_def served_kind_def find_by_oid_lookup last_part_zero_text bindR_def split: sum.split option.split)
next
  case (Some d)
  then show ?thesis
    by (auto simp: reply_value_def served_kind_def find_by_oid_lookup bindR_def split: sum.split option.split)
qed

lemma reply_varbinds_serve: "reply_varbinds (map oid_text os) sd w = serve (tree_lookup sd) os w"
  by (induction os arbitrary: w) (auto simp: reply_value_served bindR_def split: sum.split)


lemma add_oids_get: "add_oids sd False os req = Inr (req\<lparr>rq_oids := rq_oids req @ map oid_text os\<rparr>)"
  by (induction os arbitrary: req) (simp_all add: add_oid_def)

lemma add_oids_getnext:
  assumes "tree_ok 1 sd" and "\<forall>o' \<in> set os. tree_lookup sd o' \<noteq> None"
    and "map (successor (tree_oids sd)) os = map oid_text ns" and "[] \<notin> set ns"
  shows "add_oids sd True os req = Inr (req\<lparr>rq_oids := rq_oids req @ map oid_text ns\<rparr>)"
  using assms
proof (induction os arbitrary: req ns)
  case (Cons o' os)
  obtain n ms where ns: "ns = n # ms" "successor (tree_oids sd) o' = oid_text n" "map (successor (tree_oids sd)) os = map oid_text ms"
    using Cons.prems(3) by (cases ns) auto
  have nx: "find_next_oid (oid_text o') sd = Inr (oid_text n)"
    using find_next_successor [OF Cons.prems(1), of o'] Cons.prems(2) ns(2) by simp
  have "n \<noteq> []" using Cons.prems(4) ns(1) by auto
  then have "add_oid sd True (oid_text o') req = Inr (req\<lparr>rq_oids := rq_oids req @ [oid_text n]\<rparr>)"
    using nx by (simp add: add_oid_def)
  then show ?case using Cons.IH [OF Cons.prems(1) _ ns(3)] Cons.prems(2,4) ns(1) by simp
qed simp

definition request_of :: "byte list \<Rightarrow> string \<Rightarrow> byte list \<Rightarrow> nat list list \<Rightarrow> oid_req_t" where
  "request_of version community req_id os =
     \<lparr>rq_oids = map oid_text os, rq_req_id = INTEGER_value req_id, rq_err = 0, rq_err_idx = 0,
      rq_version = ucast (INTEGER_value version), rq_community = community\<rparr>"

lemma process_BER_get:
  assumes "\<forall>o' \<in> set os. plain_oid o'" and "length (snmp_request 0xa0 version community req_id os) \<le> 257"
  shows "process_BER sd (new_block (snmp_request 0xa0 version community req_id os)) False 2 oid_req_new =
    Inr (True, request_of version community req_id os)"
  using process_BER_request [OF assms(1) _ assms(2), of sd oid_req_new] by (simp add: add_oids_get request_of_def oid_req_new_def)

lemma process_BER_getnext:
  assumes "\<forall>o' \<in> set os. plain_oid o'" and "length (snmp_request 0xa1 version community req_id os) \<le> 257"
    and "tree_ok 1 sd" and "\<forall>o' \<in> set os. tree_lookup sd o' \<noteq> None"
    and "map (successor (tree_oids sd)) os = map oid_text ns" and "[] \<notin> set ns"
  shows "process_BER sd (new_block (snmp_request 0xa1 version community req_id os)) False 2 oid_req_new =
    Inr (True, request_of version community req_id ns)"
  using process_BER_request [OF assms(1) _ assms(2), of sd oid_req_new] add_oids_getnext [OF assms(3-6)]
  by (simp add: request_of_def oid_req_new_def)

lemma handle_packet_reply:
  assumes "process_BER sd (new_block d) False 2 oid_req_new = Inr (True, request_of version community req_id os)"
    and "serve (tree_lookup sd) os w = Inr (vs, w')"
    and "ber_fits (reply_message (request_of version community req_id os) vs)"
  shows "handle_packet sd d w = Inr (Some (ber (reply_message (request_of version community req_id os) vs)), w')"
proof -
  have "ber (reply_message req vs) \<noteq> []" for req by (simp add: reply_message_def Let_def tlv_def)
  then show ?thesis using assms(1,2) payload_ber(1) [OF assms(3)]
    by (simp add: handle_packet_def gen_reply_def reply_varbinds_serve request_of_def)
qed


text \<open>
  A GetNextRequest for identifiers that are in the tree is answered with the identifiers that follow
  them in the order of their numbers, and their values.
\<close>

theorem getnext_request_answered:
  assumes "\<forall>o' \<in> set os. plain_oid o'" and "length (snmp_request 0xa1 version community req_id os) \<le> 257"
    and "tree_ok 1 sd" and "\<forall>o' \<in> set os. tree_lookup sd o' \<noteq> None"
    and "map (successor (tree_oids sd)) os = map oid_text ns" and "[] \<notin> set ns"
    and "serve (tree_lookup sd) ns w = Inr (vs, w')"
    and "ber_fits (reply_message (request_of version community req_id ns) vs)"
  shows "handle_packet sd (snmp_request 0xa1 version community req_id os) w =
    Inr (Some (ber (reply_message (request_of version community req_id ns) vs)), w')"
  using handle_packet_reply [OF process_BER_getnext [OF assms(1-6)] assms(7,8)] .


text \<open>A small agent to see these at work: one identifier, 1.3.6.1, with the integer 254.\<close>

definition small_tree :: "unit snmp_node list" where
  "small_tree = register_oid (oid_text [1, 3, 6, 1]) (new_node (Dt_static_int si_integer 254)) []"

lemma small_tree_facts:
  "tree_ok 1 small_tree" "tree_lookup small_tree [1, 3, 6, 1] = Some (Dt_static_int si_integer 254)"
  "tree_lookup small_tree [1, 3, 6] \<noteq> None" "tree_oids small_tree = [[1, 3, 6, 1]]"
proof -
  let ?es = "[([1, 3, 6, 1], Dt_static_int si_integer 254 :: unit snmp_kind)]"
  have t: "small_tree = register_tree ?es" by (simp add: small_tree_def)
  have v: "\<forall>(ks, d) \<in> set ?es. valid_oid 1 ks" by (simp add: valid_oid_def)
  show ok: "tree_ok 1 small_tree" unfolding t by (rule registered_tree(1) [OF v])
  show "tree_lookup small_tree [1, 3, 6, 1] = Some (Dt_static_int si_integer 254)"
    using tree_registered(2) [of 1 "[]" "[1, 3, 6, 1]" "Dt_static_int si_integer 254" "[1, 3, 6, 1]"]
    by (simp add: small_tree_def registered_kind_def tree_ok_def valid_oid_def)
  show known: "tree_lookup small_tree [1, 3, 6] \<noteq> None" unfolding t registered_tree(2) [OF v] by simp
  have "set (tree_oids small_tree) = {[1, 3, 6, 1]}" unfolding t by (subst registered_oids [OF v]) simp_all
  moreover have "distinct (tree_oids small_tree)" using find_next_successor [OF ok known] sorted_distinct by blast
  ultimately show "tree_oids small_tree = [[1, 3, 6, 1]]" by (cases "tree_oids small_tree"; cases "tl (tree_oids small_tree)") auto
qed

lemma small_oids:
  "snmp_oid_bytes (oid_text [1, 3, 6, 1]) = [43, 6, 1]" "snmp_oid_bytes (oid_text [1, 3, 6]) = [43, 6]"
  "snmp_oid_new (oid_text [1, 3, 6, 1]) = Inr (Snmp_oid [43, 6, 1] 5)"
proof -
  have n: "oid_number 6 = [6]" "oid_number 1 = [1]" by code_simp+
  show b: "snmp_oid_bytes (oid_text [1, 3, 6, 1]) = [43, 6, 1]" "snmp_oid_bytes (oid_text [1, 3, 6]) = [43, 6]"
    using snmp_oid_bytes_text [of "[6, 1]"] snmp_oid_bytes_text [of "[6]"] n by simp_all
  show "snmp_oid_new (oid_text [1, 3, 6, 1]) = Inr (Snmp_oid [43, 6, 1] 5)"
    using snmp_oid_new_text [of "[6, 1]"] b by simp
qed

lemma small_serve:
  "serve (tree_lookup small_tree) [[1, 3, 6, 1]] w =
     Inr ([Snmp_sequence [Snmp_oid [43, 6, 1] 5, snmp_integer_new si_integer 254]], w)"
  using small_tree_facts(2) small_oids(3) by (simp add: served_kind_def signed_scast_eq del: One_nat_def)

lemma small_reply_fits:
  "ber_fits (reply_message (request_of [1] ''public'' [7] os)
     [Snmp_sequence [Snmp_oid [43, 6, 1] 5, snmp_integer_new si_integer 254]])"
  by (simp add: reply_message_def request_of_def INTEGER_value_def snmp_integer_new_def snmp_octet_string_new_def tlv_def c_str_def)


theorem getnext_request_answered_witness:
  "\<forall>w. handle_packet small_tree (snmp_request 0xa1 [1] ''public'' [7] [[1, 3, 6]]) w =
     Inr (Some (ber (reply_message (request_of [1] ''public'' [7] [[1, 3, 6, 1]])
       [Snmp_sequence [Snmp_oid [43, 6, 1] 5, snmp_integer_new si_integer 254]])), w)"
proof (rule allI, rule getnext_request_answered [OF _ _ small_tree_facts(1) _ _ _ small_serve small_reply_fits])
  show "\<forall>o' \<in> set [[1, 3, 6]]. plain_oid o'" by (simp add: plain_oid_def)
  show "length (snmp_request 0xa1 [1] ''public'' [7] [[1, 3, 6]]) \<le> 257"
    by (simp add: snmp_request_def varbind_request_def small_oids [simplified] c_str_def)
  show "map (successor (tree_oids small_tree)) [[1, 3, 6]] = map oid_text [[1, 3, 6, 1]]"
    by (simp add: small_tree_facts(4) successor_def)
qed (use small_tree_facts(3) in simp_all)


section \<open>Requests that do no harm\<close>

text \<open>Data whose encoded size does not wrap: everything but object identifiers and long strings.\<close>

definition kind_safe :: "'w snmp_kind \<Rightarrow> bool" where
  "kind_safe d \<longleftrightarrow> (case d of Dt_static_string s \<Rightarrow> length s \<le> 253 | Dt_oid _ \<Rightarrow> False | _ \<Rightarrow> True)"

lemma octet_string_safe: "length v \<le> 253 \<Longrightarrow> ber_safe (snmp_octet_string_new v)"
  using unat_small_byte [of "length v + 2"] by (simp add: snmp_octet_string_new_def)

lemma integer_safe [simp]: "ber_safe (snmp_integer_new ty v)"
  by (simp add: snmp_integer_new_def)

lemma snmp_get_data_safe:
  "kind_safe d \<Longrightarrow> \<exists>e w'. snmp_get_data d w = Inr (e, w') \<and> (\<forall>x. e = Some x \<longrightarrow> ber_safe x)"
  by (cases d) (auto simp: kind_safe_def c_str_def octet_string_safe split: prod.split)

lemma serve_safe:
  assumes "\<forall>o' \<in> set os. plain_oid o' \<and> length (snmp_oid_bytes (oid_text o')) \<le> 253"
    and "\<forall>js d. look js = Some d \<longrightarrow> kind_safe d"
  shows "\<exists>vs w'. serve look os w = Inr (vs, w') \<and> (\<forall>v \<in> set vs. ber_safe v)"
  using assms(1)
proof (induction os arbitrary: w)
  case (Cons o' os)
  let ?v = "snmp_oid_bytes (oid_text o')"
  obtain ns where o': "o' = 1 # 3 # ns" "ns \<noteq> []" "\<forall>n \<in> set ns. n < 2 ^ 31" using Cons.prems by (auto simp: plain_oid_def)
  then have "\<forall>n \<in> set ns. n < 2 ^ 63" by fastforce
  then have new: "snmp_oid_new (oid_text o') = Inr (Snmp_oid ?v (of_nat (length ?v + 2)))"
    using snmp_oid_new_text [OF o'(2)] o'(1) by simp
  have safe: "ber_safe (Snmp_oid ?v (of_nat (length ?v + 2)))"
    using unat_small_byte [of "length ?v + 2"] Cons.prems by simp
  have "\<exists>e w1. (case served_kind look o' of Some d \<Rightarrow> snmp_get_data d w | None \<Rightarrow> Inr (None, w)) = Inr (e, w1) \<and>
      (\<forall>x. e = Some x \<longrightarrow> ber_safe x)"
  proof (cases "served_kind look o'")
    case (Some d)
    then have "kind_safe d" using assms(2) by (auto simp: served_kind_def split: option.splits if_splits)
    then show ?thesis using Some snmp_get_data_safe by simp
  qed simp
  then obtain e w1 where e: "(case served_kind look o' of Some d \<Rightarrow> snmp_get_data d w | None \<Rightarrow> Inr (None, w)) = Inr (e, w1)"
    "\<forall>x. e = Some x \<longrightarrow> ber_safe x" by blast
  obtain vs w' where "serve look os w1 = Inr (vs, w')" "\<forall>v \<in> set vs. ber_safe v" using Cons.IH Cons.prems by fastforce
  then show ?case using new e safe by (auto split: option.split)
qed simp

text \<open>
  C30: over data of which no string is longer than 253 bytes, every GetRequest for identifiers below 1.3
  whose numbers are below 2^31 is handled without an access outside a buffer, whether or not the answer
  fits.
\<close>

theorem get_request_safe:
  assumes "\<forall>o' \<in> set os. plain_oid o'" and "length (snmp_request 0xa0 version community req_id os) \<le> 257"
    and "\<forall>js d. tree_lookup sd js = Some d \<longrightarrow> kind_safe d"
  shows "\<exists>r w'. handle_packet sd (snmp_request 0xa0 version community req_id os) w = Inr (r, w')"
proof -
  let ?req = "request_of version community req_id os"
  have "length (c_str community) \<le> 253" and vs: "length (concat (map varbind_request os)) \<le> 253"
    using assms(2) by (simp_all add: snmp_request_def)
  then have com: "ber_safe (snmp_octet_string_new (c_str (if community = [] then ''public'' else community)))"
    by (auto intro!: octet_string_safe simp: c_str_def)
  have "length (snmp_oid_bytes (oid_text o')) \<le> 253" if o': "o' \<in> set os" for o'
  proof -
    have "length (varbind_request o') \<le> length (concat (map varbind_request os))"
      using o' by (induction os) auto
    then show ?thesis using vs by (simp add: varbind_request_def)
  qed
  then obtain vs w' where vs: "serve (tree_lookup sd) os w = Inr (vs, w')" "\<forall>v \<in> set vs. ber_safe v"
    using serve_safe [of os "tree_lookup sd" w] assms(1,3) by blast
  have "ber_safe (reply_message ?req vs)"
    using com vs(2) by (cases "community = []") (simp_all add: reply_message_def request_of_def Let_def)
  then obtain p where "get_payload (reply_message ?req vs) = Inr p" using payload_safe(1) by blast
  then show ?thesis using process_BER_get [OF assms(1,2), of sd] vs(1)
    by (simp add: handle_packet_def gen_reply_def reply_varbinds_serve request_of_def)
qed

theorem get_request_safe_witness:
  "\<forall>w. \<exists>r w'. handle_packet small_tree (snmp_request 0xa0 [1] ''public'' [7] [[1, 3, 6, 1]]) w = Inr (r, w')"
proof (rule allI, rule get_request_safe)
  show "\<forall>o' \<in> set [[1, 3, 6, 1]]. plain_oid o'" by (simp add: plain_oid_def)
  show "length (snmp_request 0xa0 [1] ''public'' [7] [[1, 3, 6, 1]]) \<le> 257"
    by (simp add: snmp_request_def varbind_request_def small_oids [simplified] c_str_def)
  have "tree_lookup small_tree js = Some d \<Longrightarrow> kind_safe d" for js d
    using tree_registered(2) [of 1 "[] :: unit snmp_node list" "[1, 3, 6, 1]" "Dt_static_int si_integer 254" js]
    by (auto simp: small_tree_def registered_kind_def tree_ok_def valid_oid_def kind_safe_def split: if_splits)
  then show "\<forall>js d. tree_lookup small_tree js = Some d \<longrightarrow> kind_safe d" by blast
qed

section \<open>Requests that do harm\<close>

lemma community_overflow:
  assumes "length c = 254 \<or> length c = 255"
  shows "handle_packet sd (tlv 0x04 c) w = Inl Mem_oob"
proof -
  have l: "length c \<le> 255" using assms by auto
  obtain b where b: "get_tlv (new_block (tlv 0x04 c)) = Inr (0x04, new_block c, b)" "blk_ok b" "blk_rest b = []"
    using get_tlv_run [of "new_block (tlv 0x04 c)" "0x04" c "[]"] l by auto
  define req where "req = oid_req_new\<lparr>rq_community := map char_of_byte c\<rparr>"
  have p: "process_BER sd (new_block (tlv 0x04 c)) False 2 oid_req_new = Inr (True, req)"
    by (simp add: process_BER_def ber_loop_step(2) [OF b(1) refl] ber_loop_end [OF b(2,3)] req_def)
  have "of_nat (length c + 2) = (0 :: byte) \<or> of_nat (length c + 2) = (1 :: byte)" using assms by auto
  then have "unat (of_nat (length c + 2) :: byte) < 2" by (metis one_less_numeral_iff semiring_norm(76) unat_0 unat_1 zero_less_numeral)
  moreover have "rq_community req \<noteq> []" "rq_oids req = []" "length (c_str (rq_community req)) = length c"
    using assms by (auto simp: req_def oid_req_new_def c_str_def)
  moreover have "get_payload (snmp_integer_new si_integer v) = Inr (ber (snmp_integer_new si_integer v))" for v
    by (rule payload_ber(1)) (simp add: snmp_integer_new_def)
  moreover have "length (ber (snmp_integer_new si_integer v)) < 255" for v by (simp add: snmp_integer_new_def)
  ultimately have "get_payload (reply_message req []) = Inl Mem_oob"
    by (simp add: reply_message_def Let_def snmp_octet_string_new_def elem_payload_oob not_le)
  then show ?thesis using p \<open>rq_oids req = []\<close> by (simp add: handle_packet_def gen_reply_def)
qed

lemma number_overflow:
  "handle_packet sd (tlv 0x06 [43, 0x8f, 0xff, 0xff, 0xff, 0x7f]) w = Inl Mem_oob"
proof -
  let ?c = "[43, 0x8f, 0xff, 0xff, 0xff, 0x7f] :: byte list"
  obtain b where b: "get_tlv (new_block (tlv 0x06 ?c)) = Inr (0x06, new_block ?c, b)" "blk_ok b" "blk_rest b = []"
    using get_tlv_run [of "new_block (tlv 0x06 ?c)" "0x06" ?c "[]"] by auto
  have o': "get_OID (new_block ?c) = Inr (True, ''1.3.-1'')"
    by (simp add: get_OID_def get_OID_loop_fold) code_simp
  have "process_BER sd (new_block (tlv 0x06 ?c)) False 2 oid_req_new = Inr (True, oid_req_new\<lparr>rq_oids := [''1.3.-1'']\<rparr>)"
    by (simp add: process_BER_def ber_loop_step(4) [OF b(1) refl o'] ber_loop_end [OF b(2,3)] add_oid_def oid_req_new_def)
  moreover have "snmp_oid_new ''1.3.-1'' = Inl Mem_oob" by code_simp
  ultimately show ?thesis by (simp add: handle_packet_def gen_reply_def)
qed

text \<open>
  C31: one datagram makes the agent write outside a heap buffer: a community of 254 or 255 bytes, whose 8-bit
  size wraps to 0 or 1, or an object identifier with the number 2^32 - 1, which is printed as -1 and
  encoded in ten bytes.
\<close>

theorem datagram_overflows_heap:
  assumes "length c = 254 \<or> length c = 255"
  shows "handle_packet sd (tlv 0x04 c) w = Inl Mem_oob \<and>
    handle_packet sd (tlv 0x06 [43, 0x8f, 0xff, 0xff, 0xff, 0x7f]) w = Inl Mem_oob"
  using community_overflow [OF assms] number_overflow by blast

theorem datagram_overflows_heap_witness:
  "\<forall>w. handle_packet small_tree (tlv 0x04 (replicate 254 65)) w = Inl Mem_oob"
  using datagram_overflows_heap [of "replicate 254 65" small_tree] by simp

end
