(* ===== verification/Snmp_Init.thy ===== *)
theory Snmp_Init
  imports Snmp Server
begin

text \<open>
  Starting the SNMP agent: what the program exports (\<open>init_snmp\<close> of \<^verbatim>\<open>snmp.cpp\<close>) and the agent's socket,
  buffer and thread (\<open>begin\<close>, \<open>stop\<close> of \<^verbatim>\<open>snmp/snmp.cpp\<close>). Shown: every counter is served under its
  identifier, and a walk finds all of them in order.
\<close>

section \<open>Starting and stopping\<close>

text \<open>The descriptor, whether \<open>buffer\<close> and \<open>th\<close> are set, and \<open>*stop_flag\<close>.\<close>

record snmp_agent =
  sa_fd :: int
  sa_buffer :: bool
  sa_th :: bool
  sa_stop_flag :: bool

definition snmp_agent_new :: "bool \<Rightarrow> snmp_agent" where
  "snmp_agent_new stop_flag = \<lparr>sa_fd = -1, sa_buffer = False, sa_th = False, sa_stop_flag = stop_flag\<rparr>"

text \<open>\<open>sock\<close> is what \<open>socket\<close> returns, \<open>bound\<close> whether \<open>bind\<close> succeeds.\<close>

definition snmp_begin :: "int \<Rightarrow> bool \<Rightarrow> snmp_agent \<Rightarrow> bool \<times> snmp_agent" where
  "snmp_begin sock bound s =
     (if sa_fd s \<noteq> -1 then (False, s)
      else let s = s\<lparr>sa_fd := sock\<rparr> in
        if sa_fd s = -1 then (False, s)
        else if \<not> bound then (False, s)
        else (True, s\<lparr>sa_buffer := True, sa_stop_flag := False, sa_th := True\<rparr>))"

definition snmp_stop :: "snmp_agent \<Rightarrow> snmp_agent" where
  "snmp_stop s =
     (let s = (if sa_fd s \<noteq> -1 then s\<lparr>sa_fd := -1\<rparr> else s);
          s = (if sa_th s then s\<lparr>sa_stop_flag := True, sa_th := False\<rparr> else s)
      in s\<lparr>sa_buffer := False\<rparr>)"

section \<open>What is exported\<close>

record snmp_counters =
  sc_is :: iscsi_stats_t
  sc_bs :: backend_stats_t
  sc_cpu_usage :: i32
  sc_ram_free_kb :: i32

type_synonym counters_kind = "snmp_counters snmp_kind"
type_synonym counters_tree = "snmp_counters snmp_node list"

text \<open>
  The registrations in the order of the code; \<open>get_percentage_diskspace\<close> is the callback, \<open>build_date\<close> the
  compiler's \<open>__DATE__\<close>, \<open>since\<close> what the constructor of \<open>snmp_data_type_running_since\<close> read.
\<close>

definition snmp_registrations ::
    "(snmp_counters \<Rightarrow> i32 \<times> snmp_counters) \<Rightarrow> string \<Rightarrow> u64 \<Rightarrow> (nat list \<times> counters_kind) list" where
  "snmp_registrations get_percentage_diskspace build_date since =
    [([1,3,6,1,2,1,1,1,0], Dt_static_string ''iESP''),
     ([1,3,6,1,2,1,1,3,0], Dt_running_since since),
     ([1,3,6,1,2,1,1,4,0], Dt_static_string ''Folkert van Heusden <mail@vanheusden.com>''),
     ([1,3,6,1,2,1,1,5,0], Dt_static_string ''iESP''),
     ([1,3,6,1,2,1,1,6,0], Dt_static_string ''The Netherlands, Europe, Earth''),
     ([1,3,6,1,2,1,1,7,0], Dt_static_int si_integer 254),
     ([1,3,6,1,2,1,1,8,0], Dt_static_int si_ticks 0),
     ([1,3,6,1,2,1,142,1,1,1,1,10], Dt_stats si_counter32 (\<lambda>c. iscsiInstSsnFailures (sc_is c))),
     ([1,3,6,1,2,1,142,1,1,2,1,1], Dt_stats si_counter32 (\<lambda>c. iscsiInstSsnDigestErrors (sc_is c))),
     ([1,3,6,1,2,1,142,1,1,2,1,3], Dt_stats si_counter32 (\<lambda>c. iscsiInstSsnFormatErrors (sc_is c))),
     ([1,3,6,1,2,1,142,1,6,2,1,1], Dt_stats si_counter32 (\<lambda>c. iscsiTgtLoginAccepts (sc_is c))),
     ([1,3,6,1,2,1,142,1,6,3,1,1], Dt_stats si_counter32 (\<lambda>c. iscsiTgtLogoutNormals (sc_is c))),
     ([1,3,6,1,2,1,142,1,10,2,1,1], Dt_stats si_counter32 (\<lambda>c. iscsiSsnCmdPDUs (sc_is c))),
     ([1,3,6,1,2,1,142,1,10,2,1,3], Dt_stats si_counter64 (\<lambda>c. iscsiSsnTxDataOctets (sc_is c))),
     ([1,3,6,1,2,1,142,1,10,2,1,4], Dt_stats si_counter64 (\<lambda>c. iscsiSsnRxDataOctets (sc_is c))),
     ([1,3,6,1,4,1,2021,11,54], Dt_stats_uint32 (\<lambda>c. bs_io_wait_ticks (sc_bs c))),
     ([1,3,6,1,4,1,2021,13,15,1,1,2], Dt_static_string ''iESP''),
     ([1,3,6,1,4,1,2021,100,1], Dt_static_int si_integer 1),
     ([1,3,6,1,4,1,2021,100,3], Dt_static_string build_date),
     ([1,3,6,1,4,1,2021,13,15,1,1,3], Dt_stats si_counter64 (\<lambda>c. bs_bytes_read (sc_bs c))),
     ([1,3,6,1,4,1,2021,13,15,1,1,4], Dt_stats si_counter64 (\<lambda>c. bs_bytes_written (sc_bs c))),
     ([1,3,6,1,4,1,2021,13,15,1,1,5], Dt_stats si_counter64 (\<lambda>c. bs_n_reads (sc_bs c))),
     ([1,3,6,1,4,1,2021,13,15,1,1,6], Dt_stats si_counter64 (\<lambda>c. bs_n_writes (sc_bs c))),
     ([1,3,6,1,4,1,2021,4,11,0], Dt_stats_int sc_ram_free_kb),
     ([1,3,6,1,4,1,2021,9,1,9,1], Dt_stats_int_callback get_percentage_diskspace),
     ([1,3,6,1,4,1,2021,11,9,0], Dt_stats_int sc_cpu_usage)]"

definition init_snmp :: "(snmp_counters \<Rightarrow> i32 \<times> snmp_counters) \<Rightarrow> string \<Rightarrow> int \<Rightarrow> bool \<Rightarrow> bool
    \<Rightarrow> snmp_counters snmp_world \<Rightarrow> counters_tree \<times> snmp_agent \<times> snmp_counters snmp_world" where
  "init_snmp get_percentage_diskspace build_date sock bound stop w =
     (let (t, w) = uptime_ticks w;
          snmp_data = fold (\<lambda>(ks, d). register_oid (oid_text ks) (new_node d))
            (snmp_registrations get_percentage_diskspace build_date t) [];
          (_, s) = snmp_begin sock bound (snmp_agent_new stop)
      in (snmp_data, s, w))"

section \<open>What a manager sees\<close>

text \<open>The identifiers of the registrations; their order in the tree.\<close>

definition exported_oids :: "nat list list" where
  "exported_oids =
    [[1,3,6,1,2,1,1,1,0], [1,3,6,1,2,1,1,3,0], [1,3,6,1,2,1,1,4,0], [1,3,6,1,2,1,1,5,0], [1,3,6,1,2,1,1,6,0],
     [1,3,6,1,2,1,1,7,0], [1,3,6,1,2,1,1,8,0],
     [1,3,6,1,2,1,142,1,1,1,1,10], [1,3,6,1,2,1,142,1,1,2,1,1], [1,3,6,1,2,1,142,1,1,2,1,3],
     [1,3,6,1,2,1,142,1,6,2,1,1], [1,3,6,1,2,1,142,1,6,3,1,1],
     [1,3,6,1,2,1,142,1,10,2,1,1], [1,3,6,1,2,1,142,1,10,2,1,3], [1,3,6,1,2,1,142,1,10,2,1,4],
     [1,3,6,1,4,1,2021,4,11,0], [1,3,6,1,4,1,2021,9,1,9,1], [1,3,6,1,4,1,2021,11,9,0], [1,3,6,1,4,1,2021,11,54],
     [1,3,6,1,4,1,2021,13,15,1,1,2], [1,3,6,1,4,1,2021,13,15,1,1,3], [1,3,6,1,4,1,2021,13,15,1,1,4],
     [1,3,6,1,4,1,2021,13,15,1,1,5], [1,3,6,1,4,1,2021,13,15,1,1,6],
     [1,3,6,1,4,1,2021,100,1], [1,3,6,1,4,1,2021,100,3]]"

lemma registrations_valid: "\<forall>(ks, d) \<in> set (snmp_registrations cb date since). valid_oid 1 ks"
  by (simp add: snmp_registrations_def valid_oid_def)

lemma registrations_fst:
  "map fst (snmp_registrations cb date since) =
    [[1,3,6,1,2,1,1,1,0], [1,3,6,1,2,1,1,3,0], [1,3,6,1,2,1,1,4,0], [1,3,6,1,2,1,1,5,0],
     [1,3,6,1,2,1,1,6,0], [1,3,6,1,2,1,1,7,0], [1,3,6,1,2,1,1,8,0], [1,3,6,1,2,1,142,1,1,1,1,10],
     [1,3,6,1,2,1,142,1,1,2,1,1], [1,3,6,1,2,1,142,1,1,2,1,3], [1,3,6,1,2,1,142,1,6,2,1,1], [1,3,6,1,2,1,142,1,6,3,1,1],
     [1,3,6,1,2,1,142,1,10,2,1,1], [1,3,6,1,2,1,142,1,10,2,1,3], [1,3,6,1,2,1,142,1,10,2,1,4], [1,3,6,1,4,1,2021,11,54],
     [1,3,6,1,4,1,2021,13,15,1,1,2], [1,3,6,1,4,1,2021,100,1], [1,3,6,1,4,1,2021,100,3], [1,3,6,1,4,1,2021,13,15,1,1,3],
     [1,3,6,1,4,1,2021,13,15,1,1,4], [1,3,6,1,4,1,2021,13,15,1,1,5], [1,3,6,1,4,1,2021,13,15,1,1,6], [1,3,6,1,4,1,2021,4,11,0],
     [1,3,6,1,4,1,2021,9,1,9,1], [1,3,6,1,4,1,2021,11,9,0]]"
  by (simp only: snmp_registrations_def list.map fst_conv)

lemma registrations_oids: "fst ` set (snmp_registrations cb date since) = set exported_oids"
proof -
  have "set (map fst (snmp_registrations cb date since)) = set exported_oids"
    unfolding registrations_fst exported_oids_def by (rule equalityI; simp)
  then show ?thesis by simp
qed

lemma exported_sorted: "sorted_wrt (<) exported_oids"
  by (simp add: exported_oids_def)

lemma prefix_between: "a < b \<Longrightarrow> b < c \<Longrightarrow> prefix a c \<Longrightarrow> prefix a (b :: nat list)"
proof (induction a arbitrary: b c)
  case (Cons x a)
  then obtain c' where c: "c = x # c'" "prefix a c'" by (cases c) auto
  obtain y b' where b: "b = y # b'" using Cons.prems(1) by (cases b) auto
  then show ?case using Cons.prems Cons.IH [of b' c'] c by auto
qed simp

lemma sorted_prefix_free:
  "sorted_wrt (<) xs \<Longrightarrow> successively (\<lambda>a b. \<not> prefix a b) xs \<Longrightarrow> sorted_wrt (\<lambda>a b. \<not> prefix a b) (xs :: nat list list)"
proof (induction xs)
  case (Cons x xs)
  show ?case
  proof (cases xs)
    case ys: (Cons y ys)
    have "\<not> prefix x z" if "z \<in> set ys" for z
      using Cons.prems ys that prefix_between [of x y z] by auto
    then show ?thesis using Cons ys by auto
  qed simp
qed simp

lemma exported_prefix_free: "pairwise (\<lambda>a b. \<not> prefix a b) (set exported_oids)"
proof -
  have "successively (\<lambda>a b. \<not> prefix a b) exported_oids" by (simp add: exported_oids_def)
  then have free: "sorted_wrt (\<lambda>a b. \<not> prefix a b \<and> a < b) exported_oids"
    using sorted_prefix_free [OF exported_sorted] exported_sorted by (simp add: sorted_wrt_iff_nth_less)
  have "\<not> prefix a b" if ab: "a \<in> set exported_oids" "b \<in> set exported_oids" "a \<noteq> b" for a b
  proof -
    obtain i j where ij: "i < length exported_oids" "a = exported_oids ! i" "j < length exported_oids" "b = exported_oids ! j"
      using ab by (auto simp: in_set_conv_nth)
    consider "i < j" | "j < i" using ab(3) ij by force
    then show ?thesis
    proof cases
      case 2
      then have "b < a" using free ij by (auto simp: sorted_wrt_iff_nth_less)
      then show ?thesis using lex_append_less [of a] by (metis append_Nil2 less_asym neq_Nil_conv prefix_def ab(3))
    qed (use free ij in \<open>auto simp: sorted_wrt_iff_nth_less\<close>)
  qed
  then show ?thesis by (simp add: pairwise_def)
qed

lemma registrations_distinct: "distinct (map fst (snmp_registrations cb date since))"
proof (rule card_distinct)
  have "card (set exported_oids) = length exported_oids"
    using distinct_card sorted_distinct [OF exported_sorted] by blast
  moreover have "length (snmp_registrations cb date since) = length exported_oids"
    by (simp add: snmp_registrations_def exported_oids_def)
  ultimately show "card (set (map fst (snmp_registrations cb date since))) = length (map fst (snmp_registrations cb date since))"
    using registrations_oids [of cb date since] by simp
qed

lemma exported_after_13: "filter (\<lambda>k. [1, 3] < k) exported_oids = exported_oids"
  by (simp add: exported_oids_def)

lemma init_snmp_tree:
  assumes "init_snmp cb build_date sock bound stop w = (t, s, w')"
  shows "t = register_tree (snmp_registrations cb build_date (fst (uptime_ticks w)))"
    and "tree_ok 1 t" and "tree_oids t = exported_oids" and "tree_lookup t [1, 3] \<noteq> None"
proof -
  let ?es = "snmp_registrations cb build_date (fst (uptime_ticks w))"
  have t: "t = register_tree ?es" using assms by (auto simp: init_snmp_def Let_def split: prod.splits)
  have pf: "pairwise (\<lambda>a b. \<not> prefix a b) (fst ` set ?es)" unfolding registrations_oids by (rule exported_prefix_free)
  have ok: "tree_ok 1 t" unfolding t by (rule registered_tree(1) [OF registrations_valid])
  have "[1, 3, 6, 1, 2, 1, 1, 1, 0] \<in> set exported_oids" by (simp add: exported_oids_def)
  then obtain d0 where "([1, 3, 6, 1, 2, 1, 1, 1, 0], d0) \<in> set ?es"
    using registrations_oids [of cb build_date "fst (uptime_ticks w)"] by force
  then have known: "tree_lookup t [1, 3] \<noteq> None"
    unfolding t registered_tree(2) [OF registrations_valid] by (force simp: prefix_def)
  have oids: "tree_oids t = exported_oids"
  proof (rule strict_sorted_equal)
    show "sorted_wrt (<) exported_oids" by (rule exported_sorted)
    show "sorted_wrt (<) (tree_oids t)" using find_next_successor [OF ok known] by simp
    show "set (tree_oids t) = set exported_oids"
      unfolding t using registered_oids [OF registrations_valid pf] registrations_oids by simp
  qed
  show "t = register_tree ?es" "tree_ok 1 t" "tree_oids t = exported_oids" "tree_lookup t [1, 3] \<noteq> None"
    using t ok oids known by blast+
qed

text \<open>
  C27: the tree that \<open>init_snmp\<close> builds has each registered object identifier with its own data, keeps them
  in the order of their numbers, and a GetNext walk from 1.3 returns all 26 of them in that order and ends.
\<close>

theorem init_snmp_exports:
  assumes "init_snmp cb build_date sock bound stop w = (t, s, w')"
  shows "tree_ok 1 t \<and> tree_oids t = exported_oids \<and>
    (\<forall>(ks, d) \<in> set (snmp_registrations cb build_date (fst (uptime_ticks w))). tree_lookup t ks = Some d) \<and>
    getnext_walk 27 (oid_text [1, 3]) t = Inr (map oid_text exported_oids)"
proof -
  let ?es = "snmp_registrations cb build_date (fst (uptime_ticks w))"
  note t = init_snmp_tree(1) [OF assms] and ok = init_snmp_tree(2) [OF assms] and oids = init_snmp_tree(3) [OF assms]
  have pf: "pairwise (\<lambda>a b. \<not> prefix a b) (fst ` set ?es)" unfolding registrations_oids by (rule exported_prefix_free)
  have looks: "tree_lookup t ks = Some d" if "(ks, d) \<in> set ?es" for ks d
    unfolding t
    by (rule snmp_tree.lookup_register_all [of 1 "[]" ?es])
      (use registrations_valid [of cb build_date "fst (uptime_ticks w)"] that pf registrations_distinct snmp_tree.ok_empty
        in \<open>auto simp: valid_oid_def\<close>)
  have "length exported_oids < 27" by (simp add: exported_oids_def)
  then have "getnext_walk 27 (oid_text [1, 3]) t = Inr (map oid_text exported_oids)"
    using walk_filter [OF ok init_snmp_tree(4) [OF assms], of 27] unfolding oids exported_after_13 by simp
  then show ?thesis using ok oids looks by blast
qed

theorem init_snmp_exports_witness:
  "\<forall>w. getnext_walk 27 (oid_text [1, 3]) (fst (init_snmp (\<lambda>c. (50, c)) ''Jan  1 2025'' 3 True False w)) =
     Inr (map oid_text exported_oids)"
proof
  fix w
  obtain t s w' where "init_snmp (\<lambda>c. (50, c)) ''Jan  1 2025'' 3 True False w = (t, s, w')" by (metis prod_cases3)
  with init_snmp_exports [OF this]
  show "getnext_walk 27 (oid_text [1, 3]) (fst (init_snmp (\<lambda>c. (50, c)) ''Jan  1 2025'' 3 True False w)) =
     Inr (map oid_text exported_oids)" by simp
qed

end
