(* ===== verification/Iesp_Main.thy ===== *)
theory Iesp_Main
  imports Iesp_Options Com_Sockets Snmp_Init "HOL-Library.Signed_Division"
begin

text \<open>
  The program as a whole (\<^verbatim>\<open>main.cpp\<close>, \<^verbatim>\<open>log.cpp\<close>): logging, the maintenance thread, the choice of the
  backend, start-up, and the way from the stop signal to the end. The operating system is a parameter.
  Shown: the thread publishes what the backend counted, a backend is a block device whichever type was
  chosen, and the program serves as it was told on its command line until it is stopped.
\<close>

section \<open>Logging\<close>

record log_st =
  lg_logfile :: string
  lg_level_file :: log_level_t
  lg_level_screen :: log_level_t

definition initial_log :: log_st where
  "initial_log = \<lparr>lg_logfile = ''/tmp/iesp.log'', lg_level_file = ll_debug, lg_level_screen = ll_error\<rparr>"

definition setlog :: "string \<Rightarrow> log_level_t \<Rightarrow> log_level_t \<Rightarrow> log_st \<Rightarrow> log_st" where
  "setlog lf fil screen lg = lg\<lparr>lg_logfile := lf, lg_level_file := fil, lg_level_screen := screen\<rparr>"

text \<open>The broken down local time; \<open>%04d\<close> and the like.\<close>

record tm =
  tm_year :: int
  tm_mon :: int
  tm_mday :: int
  tm_hour :: int
  tm_min :: int
  tm_sec :: int

definition pad_int :: "nat \<Rightarrow> int \<Rightarrow> string" where
  "pad_int w i =
     (let sign = (if i < 0 then ''-'' else []); ds = show_nat (nat \<bar>i\<bar>)
      in sign @ replicate (w - length sign - length ds) (CHR ''0'') @ ds)"

fun ll_names :: "log_level_t \<Rightarrow> string" where
  "ll_names ll_debug = ''debug''"
| "ll_names ll_info = ''info''"
| "ll_names ll_warning = ''warning''"
| "ll_names ll_error = ''error''"

definition log_prefix :: "tm \<Rightarrow> u64 \<Rightarrow> log_level_t \<Rightarrow> string \<Rightarrow> string \<Rightarrow> string" where
  "log_prefix tm now ll component context_str =
     pad_int 4 (tm_year tm + 1900) @ ''-'' @ pad_int 2 (tm_mon tm + 1) @ ''-'' @ pad_int 2 (tm_mday tm) @ '' '' @
     pad_int 2 (tm_hour tm) @ '':'' @ pad_int 2 (tm_min tm) @ '':'' @ pad_int 2 (tm_sec tm) @ ''.'' @
     pad_int 6 (int (unat (now mod 1000000))) @ '' '' @ ll_names ll @ '' | '' @ component @ '' | '' @ context_str @ '' | ''"

text \<open>
  \<open>dolog\<close>: \<open>opened\<close> says whether the log file could be opened, \<open>localtime\<close> is \<open>localtime_r\<close>. The result is what
  is added to the file and printed; \<open>None\<close>: the program exits with status 1.
\<close>

definition dolog :: "bool \<Rightarrow> (u64 \<Rightarrow> tm) \<Rightarrow> u64 \<Rightarrow> log_st \<Rightarrow> log_level_t \<Rightarrow> string \<Rightarrow> string \<Rightarrow> string
    \<Rightarrow> (string \<times> string) option" where
  "dolog opened localtime now lg ll component context_str str =
     (if \<not> opened then None
      else let line = log_prefix (localtime (now div 1000000)) now ll component context_str @ str @ [CHR 0x0A]
           in Some (if lg_level_file lg \<le> ll then line else [], if lg_level_screen lg \<le> ll then line else []))"

definition DOLOG :: "bool \<Rightarrow> (u64 \<Rightarrow> tm) \<Rightarrow> u64 \<Rightarrow> log_st \<Rightarrow> log_level_t \<Rightarrow> string \<Rightarrow> string \<Rightarrow> string
    \<Rightarrow> (string \<times> string) option" where
  "DOLOG opened localtime now lg ll component context_str str =
     (if lg_level_file lg \<le> ll \<or> lg_level_screen lg \<le> ll
      then dolog opened localtime now lg ll component context_str str else Some ([], []))"

section \<open>Processor time, memory, counters\<close>

text \<open>What \<open>getrusage\<close> reports; \<open>None\<close> when it fails. The numbers are C's \<open>long\<close>.\<close>

record rusage =
  ru_utime_sec :: u64
  ru_utime_usec :: u64
  ru_stime_sec :: u64
  ru_stime_usec :: u64
  ru_maxrss :: u64

definition get_cpu_usage_us :: "rusage option \<Rightarrow> u64" where
  "get_cpu_usage_us r = (case r of None \<Rightarrow> 0
     | Some ru \<Rightarrow> ru_utime_sec ru * 1000000 + ru_utime_usec ru + ru_stime_sec ru * 1000000 + ru_stime_usec ru)"

text \<open>The variables of the thread. \<open>int\<close> differences wrap, as the compiled code does.\<close>

record maint_st =
  mt_prev_w_poll :: u64
  mt_prev_cpu_usage :: i32
  mt_counters :: snmp_counters

definition maintenance_new :: "rusage option \<Rightarrow> snmp_counters \<Rightarrow> maint_st" where
  "maintenance_new ru c = \<lparr>mt_prev_w_poll = 0, mt_prev_cpu_usage = ucast (get_cpu_usage_us ru), mt_counters = c\<rparr>"

text \<open>
  One round after the \<open>sleep\<close>. \<open>now\<close> is the time, \<open>ru1\<close> and \<open>ru2\<close> what the two calls of \<open>getrusage\<close> report,
  \<open>rlim_max\<close> the limit of the data segment, \<open>bs\<close> the counters of the backend, which are reset.
\<close>

definition maintenance_round :: "u64 \<Rightarrow> rusage option \<Rightarrow> u64 option \<Rightarrow> rusage option \<Rightarrow> backend_stats_t \<times> maint_st
    \<Rightarrow> backend_stats_t \<times> maint_st" where
  "maintenance_round now ru1 rlim_max ru2 = (\<lambda>(bs, m).
     let c = mt_counters m;
         m = (if 1000000 \<le> now - mt_prev_w_poll m then
                let current_cpu_usage = (ucast (get_cpu_usage_us ru1) :: i32);
                    cpu = (word_of_int (sint (current_cpu_usage - mt_prev_cpu_usage m) sdiv 10000) :: i32);
                    ram = (case (rlim_max, ru2) of
                             (Some lim, Some ru) \<Rightarrow> (ucast (lim div 1024 - ru_maxrss ru) :: i32)
                           | _ \<Rightarrow> 0)
                in m\<lparr>mt_prev_cpu_usage := current_cpu_usage, mt_prev_w_poll := now,
                     mt_counters := c\<lparr>sc_cpu_usage := cpu, sc_ram_free_kb := ram\<rparr>\<rparr>
              else m);
         (target, bs) = get_and_reset_stats bs;
         target = target\<lparr>bs_io_wait_ticks := bs_io_wait target * 10000\<rparr>
     in (bs, m\<lparr>mt_counters := (mt_counters m)\<lparr>sc_bs := target\<rparr>\<rparr>))"

text \<open>\<open>get_diskspace\<close>, the callback of the agent: an \<open>int\<close> from an 8-bit percentage.\<close>

definition get_diskspace :: "'b backend_ops \<Rightarrow> 'b \<times> env \<Rightarrow> (i32 \<times> 'b \<times> env) result" where
  "get_diskspace ops st = bindR (get_free_space_percentage ops st) (\<lambda>(p, st). Inr (ucast p, st))"

section \<open>The backend, whichever type it has\<close>

text \<open>Virtual dispatch: a backend is a file or an NBD backend, and a method is the method of its class.\<close>

type_synonym 'w any_backend = "backend_file + 'w backend_nbd"

definition sum_ops :: "'a backend_ops \<Rightarrow> 'b backend_ops \<Rightarrow> ('a + 'b) backend_ops" where
  "sum_ops A B = \<lparr>
     be_get_serial = (\<lambda>b e. case b of Inl x \<Rightarrow> be_get_serial A x e | Inr y \<Rightarrow> be_get_serial B y e),
     be_get_size_in_blocks = case_sum (be_get_size_in_blocks A) (be_get_size_in_blocks B),
     be_get_block_size = case_sum (be_get_block_size A) (be_get_block_size B),
     be_sync = (\<lambda>(b, e). case b of
         Inl x \<Rightarrow> bindR (be_sync A (x, e)) (\<lambda>(ok, x, e). Inr (ok, Inl x, e))
       | Inr y \<Rightarrow> bindR (be_sync B (y, e)) (\<lambda>(ok, y, e). Inr (ok, Inr y, e))),
     be_write = (\<lambda>nr n d (b, e). case b of
         Inl x \<Rightarrow> bindR (be_write A nr n d (x, e)) (\<lambda>(ok, x, e). Inr (ok, Inl x, e))
       | Inr y \<Rightarrow> bindR (be_write B nr n d (y, e)) (\<lambda>(ok, y, e). Inr (ok, Inr y, e))),
     be_trim = (\<lambda>nr n (b, e). case b of
         Inl x \<Rightarrow> bindR (be_trim A nr n (x, e)) (\<lambda>(ok, x, e). Inr (ok, Inl x, e))
       | Inr y \<Rightarrow> bindR (be_trim B nr n (y, e)) (\<lambda>(ok, y, e). Inr (ok, Inr y, e))),
     be_read = (\<lambda>nr n d (b, e). case b of
         Inl x \<Rightarrow> bindR (be_read A nr n d (x, e)) (\<lambda>(ok, d, x, e). Inr (ok, d, Inl x, e))
       | Inr y \<Rightarrow> bindR (be_read B nr n d (y, e)) (\<lambda>(ok, d, y, e). Inr (ok, d, Inr y, e))),
     be_cmpwrite = (\<lambda>nr n dw dc (b, e). case b of
         Inl x \<Rightarrow> bindR (be_cmpwrite A nr n dw dc (x, e)) (\<lambda>(r, x, e). Inr (r, Inl x, e))
       | Inr y \<Rightarrow> bindR (be_cmpwrite B nr n dw dc (y, e)) (\<lambda>(r, y, e). Inr (r, Inr y, e)))\<rparr>"

definition any_ops :: "nat \<Rightarrow> 'w nbd_net \<Rightarrow> 'w any_backend backend_ops" where
  "any_ops fuel net = sum_ops file_ops (nbd_ops fuel net)"

section \<open>Start-up and end\<close>

text \<open>
  The operating system over a state \<open>'w\<close>, besides the calls on sockets: opening the device and its
  contents, the agent's UDP socket, the stop flag, \<open>daemon\<close>, and the PID file.
\<close>

record 'w main_os =
  os_net :: "'w sock_net"
  os_contents :: "string \<Rightarrow> 'w \<Rightarrow> byte list"
  os_open :: "string \<Rightarrow> 'w \<Rightarrow> int \<times> 'w"
  os_udp_socket :: "'w \<Rightarrow> int \<times> 'w"
  os_udp_bind :: "int \<Rightarrow> int \<Rightarrow> 'w \<Rightarrow> bool \<times> 'w"
  os_set_stop :: "bool \<Rightarrow> 'w \<Rightarrow> 'w"
  os_daemon :: "'w \<Rightarrow> bool \<times> 'w"
  os_getpid :: "'w \<Rightarrow> nat"
  os_write_file :: "string \<Rightarrow> string \<Rightarrow> 'w \<Rightarrow> bool \<times> 'w"
  os_unlink :: "string \<Rightarrow> 'w \<Rightarrow> bool \<times> 'w"

text \<open>The handler of SIGINT and SIGTERM.\<close>

definition sigh :: "'w main_os \<Rightarrow> 'w \<Rightarrow> 'w" where
  "sigh os w = os_set_stop os True w"

text \<open>\<open>None\<close>: an NBD device without a port.\<close>

definition create_backend :: "'w main_os \<Rightarrow> options \<Rightarrow> 'w \<Rightarrow> env \<Rightarrow> ('w any_backend \<times> env) option result" where
  "create_backend os opts w e =
     (case op_bt opts of
        BT_FILE \<Rightarrow> (let (b, e) = backend_file_new (op_dev opts) (os_contents os (op_dev opts) w) e in Inr (Some (Inl b, e)))
      | BT_NBD \<Rightarrow>
          (case str_find (op_dev opts) '':'' of
             None \<Rightarrow> Inr None
           | Some colon \<Rightarrow>
               let host = take colon (op_dev opts)
               in bindR (stoi (drop (colon + 1) (op_dev opts))) (\<lambda>port.
                  let (b, e) = backend_nbd_new (host @ '':'' @ show_int port) host port w e in Inr (Some (Inr b, e)))))"

definition begin_backend :: "'w main_os \<Rightarrow> 'w any_backend \<Rightarrow> 'w \<Rightarrow> (bool \<times> 'w any_backend \<times> 'w) result" where
  "begin_backend os b w =
     (case b of
        Inl f \<Rightarrow> (let (fd, w) = os_open os (bf_identifier f) w; (ok, f) = backend_file_begin fd f in Inr (ok, Inl f, w))
      | Inr n \<Rightarrow> bindR (backend_nbd_begin (sk_io (os_net os)) (n\<lparr>nb_world := w\<rparr>)) (\<lambda>(ok, n). Inr (ok, Inr n, nb_world n)))"

definition delete_backend :: "'w main_os \<Rightarrow> 'w any_backend \<Rightarrow> 'w \<Rightarrow> 'w" where
  "delete_backend os b w =
     (let fd = (case b of Inl f \<Rightarrow> bf_fd f | Inr n \<Rightarrow> nb_fd n)
      in if fd \<noteq> -1 then net_close (sk_io (os_net os)) fd w else w)"

text \<open>What \<open>main\<close> has built when it enters the server's loop.\<close>

record 'w running =
  rn_log :: log_st
  rn_scsi :: "'w any_backend scsi_st"
  rn_com :: com_sockets
  rn_snmp :: "(counters_tree \<times> snmp_agent) option"
  rn_target_name :: string
  rn_digest_chk :: bool
  rn_pid_file :: string

definition start_snmp :: "'w main_os \<Rightarrow> (snmp_counters \<Rightarrow> i32 \<times> snmp_counters) \<Rightarrow> string \<Rightarrow> snmp_counters snmp_world \<Rightarrow> int \<Rightarrow> 'w
    \<Rightarrow> (counters_tree \<times> snmp_agent) \<times> 'w" where
  "start_snmp os diskspace build_date sw port w =
     (let (sock, w) = os_udp_socket os w;
          (bound, w) = (if sock = -1 then (False, w) else os_udp_bind os sock port w);
          (tree, agent, _) = init_snmp diskspace build_date sock bound (sk_stop (os_net os) w) sw;
          w = (if sa_th agent then os_set_stop os (sa_stop_flag agent) w else w)
      in ((tree, agent), w))"

text \<open>
  Up to the call of \<open>s.handler()\<close>; \<open>Inl\<close> is the exit status. Returning from \<open>main\<close> destroys the sockets that
  are there.
\<close>

definition main_start :: "nat \<Rightarrow> 'w main_os \<Rightarrow> (snmp_counters \<Rightarrow> i32 \<times> snmp_counters) \<Rightarrow> string \<Rightarrow> snmp_counters snmp_world
    \<Rightarrow> options \<Rightarrow> 'w \<Rightarrow> env \<Rightarrow> ((int + 'w running) \<times> 'w) result" where
  "main_start fuel os diskspace build_date sw opts w e =
     (let lg = setlog (op_logfile opts) (op_ll_file opts) (op_ll_screen opts) initial_log
      in bindR (create_backend os opts w e) (\<lambda>cb.
         case cb of None \<Rightarrow> Inr (Inl 1, w) | Some (b, e) \<Rightarrow>
         bindR (begin_backend os b w) (\<lambda>(ok, b, w).
         if \<not> ok then Inr (Inl 1, w)
         else
           let sd = scsi_new (any_ops fuel (sk_io (os_net os))) b (op_trim_level opts) e;
               (ok, c, w) = com_sockets_begin (os_net os) (com_sockets_new (op_ip_address opts) (op_port opts)) w
           in if \<not> ok then Inr (Inl 1, com_sockets_delete (os_net os) c w)
              else
                let (ok, w) = (if op_do_daemon opts then os_daemon os w else (True, w))
                in if \<not> ok then Inr (Inl 1, com_sockets_delete (os_net os) c w)
                   else
                     let (snmp, w) = (if op_use_snmp opts
                            then let (s, w) = start_snmp os diskspace build_date sw (op_snmp_port opts) w in (Some s, w)
                            else (None, w));
                         (ok, w) = (if op_pid_file opts \<noteq> []
                            then os_write_file os (op_pid_file opts) (show_nat (os_getpid os w) @ [CHR 0x0A]) w else (True, w))
                     in if \<not> ok then Inr (Inl 1, com_sockets_delete (os_net os) c w)
                        else Inr (Inr \<lparr>rn_log = lg, rn_scsi = sd, rn_com = c, rn_snmp = snmp, rn_target_name = op_target_name opts,
                                   rn_digest_chk = op_digest_chk opts, rn_pid_file = op_pid_file opts\<rparr>, w))))"

text \<open>
  The server's loop and what follows it. \<open>b\<close> is the backend as the connections leave it. The maintenance
  thread ends when it finds the stop flag set; waiting for it while the flag is clear does not return.
\<close>

definition main_end :: "'w main_os \<Rightarrow> 'w running \<Rightarrow> 'w any_backend \<Rightarrow> 'w \<Rightarrow> 'w result" where
  "main_end os rn b w =
     (let w = (case rn_snmp rn of None \<Rightarrow> w
                 | Some (tree, agent) \<Rightarrow> if sa_th agent then os_set_stop os (sa_stop_flag (snmp_stop agent)) w else w)
      in if \<not> sk_stop (os_net os) w then Inl No_return
         else
           let w = delete_backend os b w;
               w = (if rn_pid_file rn \<noteq> [] then snd (os_unlink os (rn_pid_file rn) w) else w)
           in Inr (com_sockets_delete (os_net os) (rn_com rn) w))"

definition main_serve :: "nat \<Rightarrow> nat \<Rightarrow> 'w main_os \<Rightarrow> (nat \<Rightarrow> 'w \<Rightarrow> bool) \<Rightarrow> 'w running \<Rightarrow> 'w any_backend \<Rightarrow> 'w
    \<Rightarrow> (int \<times> threads_st \<times> 'w) result" where
  "main_serve rounds fuel os flag rn b w =
     bindR (accept_loop rounds fuel (os_net os) flag (rn_com rn) \<lparr>th_list = [], th_started = [], th_joined = []\<rparr> w) (\<lambda>(ts, w).
     bindR (main_end os rn b w) (\<lambda>w. Inr (0, ts, w)))"

definition iesp_main :: "nat \<Rightarrow> nat \<Rightarrow> 'w main_os \<Rightarrow> (nat \<Rightarrow> 'w \<Rightarrow> bool) \<Rightarrow> (snmp_counters \<Rightarrow> i32 \<times> snmp_counters) \<Rightarrow> string
    \<Rightarrow> snmp_counters snmp_world \<Rightarrow> ('w running \<Rightarrow> 'w any_backend) \<Rightarrow> string list \<Rightarrow> 'w \<Rightarrow> env
    \<Rightarrow> (int \<times> ('w running \<times> threads_st) option \<times> 'w) result" where
  "iesp_main rounds fuel os flag diskspace build_date sw left_by argv w e =
     bindR (parse_options (argv, []) default_options) (\<lambda>r.
     case r of
       Inl code \<Rightarrow> Inr (code, None, w)
     | Inr opts \<Rightarrow>
         bindR (main_start fuel os diskspace build_date sw opts w e) (\<lambda>(r, w).
         case r of
           Inl code \<Rightarrow> Inr (code, None, w)
         | Inr rn \<Rightarrow> bindR (main_serve rounds fuel os flag rn (left_by rn) w) (\<lambda>(code, ts, w). Inr (code, Some (rn, ts), w))))"

section \<open>What the maintenance thread publishes\<close>

lemma sint_of_small_nat: "n < 2 ^ 31 \<Longrightarrow> sint (of_nat n :: i32) = int n"
  by (simp add: signed_of_nat signed_take_bit_int_eq_self)

lemma sint_ucast_small: "unat (w :: u64) < 2 ^ 31 \<Longrightarrow> sint (ucast w :: i32) = int (unat w)"
  using sint_of_small_nat [of "unat w"] by simp

lemma sint_ucast_u64: "sint (ucast (w :: u64) :: i32) = signed_take_bit 31 (int (unat w))"
  using sint_sbintrunc' [of "uint w", where 'a = 32] by simp

lemma nat_difference_bounds:
  fixes m n :: nat
  assumes "n \<le> m" and "m < 2 ^ 31"
  shows "0 \<le> int m - int n" and "int m - int n < 2 ^ 31"
  using assms by simp_all

lemma int_of_cpu_difference:
  fixes a b :: u64
  assumes "unat a \<le> unat b" and "unat b < 2 ^ 31"
  shows "sint ((ucast b :: i32) - ucast a) = int (unat b) - int (unat a)"
proof -
  from sint_ucast_small [of a] sint_ucast_small [of b] have "sint (ucast a :: i32) = int (unat a)" "sint (ucast b :: i32) = int (unat b)"
    using assms by auto
  then have "sint ((ucast b :: i32) - ucast a) = signed_take_bit 31 (int (unat b) - int (unat a))"
    using signed_take_bit_diff [of 31 "sint (ucast b :: i32)" "sint (ucast a :: i32)"]
    by (simp add: sint_word_ariths)
  then show ?thesis using nat_difference_bounds [OF assms] by (simp add: signed_take_bit_int_eq_self)
qed

text \<open>
  C38: one round of the maintenance thread hands the manager every counter of the backend and clears the
  backend's, so no access is counted twice or lost; the processor usage is the time used since the last
  round in hundredths of a second, while the process has used less than 2^31 microseconds in all. Two of the
  values are not what their identifiers promise: with an unlimited data segment the free memory is
  negative, and the wait ticks are ten thousand times the microseconds instead of their ten-thousandth
  part.
\<close>

theorem maintenance_round_publishes:
  assumes "mt_prev_cpu_usage m = ucast (get_cpu_usage_us ru0)" and "1000000 \<le> now - mt_prev_w_poll m"
    and "unat (get_cpu_usage_us ru0) \<le> unat (get_cpu_usage_us ru1)" and "unat (get_cpu_usage_us ru1) < 2 ^ 31"
    and "unat (ru_maxrss ru2) < 2 ^ 30"
    and "maintenance_round now ru1 (Some lim) (Some ru2) (bs, m) = (bs', m')"
  shows "bs' = zero_stats \<and> sc_bs (mt_counters m') = bs\<lparr>bs_io_wait_ticks := bs_io_wait bs * 10000\<rparr>
    \<and> sc_is (mt_counters m') = sc_is (mt_counters m)
    \<and> sint (sc_cpu_usage (mt_counters m')) =
        (int (unat (get_cpu_usage_us ru1)) - int (unat (get_cpu_usage_us ru0))) div 10000
    \<and> mt_prev_cpu_usage m' = ucast (get_cpu_usage_us ru1) \<and> mt_prev_w_poll m' = now
    \<and> (lim = -1 \<longrightarrow> sint (sc_ram_free_kb (mt_counters m')) = - 1 - int (unat (ru_maxrss ru2)))
    \<and> (unat lim < 2 ^ 40 \<and> unat (ru_maxrss ru2) \<le> unat lim div 1024 \<longrightarrow>
         sint (sc_ram_free_kb (mt_counters m')) = int (unat lim div 1024) - int (unat (ru_maxrss ru2)))"
proof -
  let ?d = "int (unat (get_cpu_usage_us ru1)) - int (unat (get_cpu_usage_us ru0))"
  let ?k = "unat (ru_maxrss ru2)"
  have m: "bs' = zero_stats" "m' = m\<lparr>mt_prev_cpu_usage := ucast (get_cpu_usage_us ru1), mt_prev_w_poll := now,
      mt_counters := (mt_counters m)\<lparr>sc_cpu_usage := word_of_int (sint ((ucast (get_cpu_usage_us ru1) :: i32) - ucast (get_cpu_usage_us ru0)) sdiv 10000),
        sc_ram_free_kb := ucast (lim div 1024 - ru_maxrss ru2), sc_bs := bs\<lparr>bs_io_wait_ticks := bs_io_wait bs * 10000\<rparr>\<rparr>\<rparr>"
    using assms(6) by (auto simp: maintenance_round_def assms(1,2) get_and_reset_stats_def Let_def)
  have d: "0 \<le> ?d" "?d < 2 ^ 31" by (rule nat_difference_bounds [OF assms(3,4)])+
  have c: "sint (word_of_int (?d div 10000) :: i32) = ?d div 10000"
    using d by (simp add: sint_sbintrunc' signed_take_bit_int_eq_self)
  have "?d sdiv 10000 = ?d div 10000" using d by (simp add: signed_divide_int_eq_divide_int sgn_if)
  then have cpu: "sint (sc_cpu_usage (mt_counters m')) = ?d div 10000"
    using c by (simp add: m(2) int_of_cpu_difference [OF assms(3,4)])
  have ram: "sc_ram_free_kb (mt_counters m') = ucast (lim div 1024 - ru_maxrss ru2)" by (simp add: m(2))
  have unlimited: "sint (sc_ram_free_kb (mt_counters m')) = - 1 - int ?k" if "lim = -1"
  proof -
    have l: "unat (lim div 1024) = 18014398509481983" unfolding that by (simp add: unat_div_distrib unsigned_minus_1_eq_mask mask_eq_exp_minus_1)
    then have "ru_maxrss ru2 \<le> lim div 1024" using assms(5) by (simp add: word_le_nat_alt)
    from unat_sub [OF this] have "int (unat (lim div 1024 - ru_maxrss ru2)) = 2147483647 - int ?k + 2 ^ 32 * 4194304 - 2 ^ 31"
      using assms(5) by (simp add: l of_nat_diff)
    then have "sint (sc_ram_free_kb (mt_counters m')) = signed_take_bit 31 (2147483647 - int ?k + 2 ^ 32 * 4194304 - 2 ^ 31)"
      by (simp only: ram sint_ucast_u64)
    also have "\<dots> = (2147483647 - int ?k + 2 ^ 32 * 4194304) mod 2 ^ 32 - 2 ^ 31"
      by (simp add: signed_take_bit_eq_take_bit_shift take_bit_eq_mod)
    also have "\<dots> = - 1 - int ?k" unfolding mod_mult_self2 using nat_difference_bounds [of ?k 2147483647] assms(5)
      by (subst mod_pos_pos_trivial) simp_all
    finally show ?thesis .
  qed
  have limited: "sint (sc_ram_free_kb (mt_counters m')) = int (unat lim div 1024) - int ?k"
    if "unat lim < 2 ^ 40" "?k \<le> unat lim div 1024"
  proof -
    have l: "unat (lim div 1024) = unat lim div 1024" by (simp add: unat_div_distrib)
    then have "ru_maxrss ru2 \<le> lim div 1024" using that(2) by (simp add: word_le_nat_alt)
    from unat_sub [OF this] have u: "unat (lim div 1024 - ru_maxrss ru2) = unat lim div 1024 - ?k" by (simp add: l)
    have "unat (lim div 1024 - ru_maxrss ru2) < 2 ^ 31" using that(1) by (simp only: u) simp
    from sint_ucast_small [OF this] show ?thesis by (simp only: ram u of_nat_diff [OF that(2)])
  qed
  show ?thesis using cpu unlimited limited by (simp add: m)
qed

text \<open>One round after two and a half seconds, of which 0.6 were processor time.\<close>

theorem maintenance_round_publishes_witness:
  "\<forall>c. \<exists>bs' m'. maintenance_round 2500000 (Some \<lparr>ru_utime_sec = 1, ru_utime_usec = 100000, ru_stime_sec = 0, ru_stime_usec = 0,
        ru_maxrss = 5000\<rparr>) (Some (-1)) (Some \<lparr>ru_utime_sec = 1, ru_utime_usec = 100000, ru_stime_sec = 0, ru_stime_usec = 0,
        ru_maxrss = 5000\<rparr>) (zero_stats\<lparr>bs_n_reads := 7, bs_io_wait := 3\<rparr>,
        maintenance_new (Some \<lparr>ru_utime_sec = 0, ru_utime_usec = 300000, ru_stime_sec = 0, ru_stime_usec = 200000, ru_maxrss = 4000\<rparr>)
          \<lparr>sc_is = c, sc_bs = zero_stats, sc_cpu_usage = 0, sc_ram_free_kb = 0\<rparr>) = (bs', m') \<and>
    bs_n_reads (sc_bs (mt_counters m')) = 7 \<and> bs_io_wait_ticks (sc_bs (mt_counters m')) = 30000 \<and>
    sint (sc_cpu_usage (mt_counters m')) = 60 \<and> sint (sc_ram_free_kb (mt_counters m')) = -5001"
proof
  fix c
  let ?ru0 = "Some \<lparr>ru_utime_sec = 0, ru_utime_usec = 300000, ru_stime_sec = 0, ru_stime_usec = 200000, ru_maxrss = 4000\<rparr> :: rusage option"
  let ?ru2 = "\<lparr>ru_utime_sec = 1, ru_utime_usec = 100000, ru_stime_sec = 0, ru_stime_usec = 0, ru_maxrss = 5000\<rparr> :: rusage"
  let ?m = "maintenance_new ?ru0 \<lparr>sc_is = c, sc_bs = zero_stats, sc_cpu_usage = 0, sc_ram_free_kb = 0\<rparr>"
  let ?bs = "zero_stats\<lparr>bs_n_reads := 7, bs_io_wait := 3\<rparr>"
  obtain bs' m' where r: "maintenance_round 2500000 (Some ?ru2) (Some (-1)) (Some ?ru2) (?bs, ?m) = (bs', m')" by fastforce
  have u: "unat (get_cpu_usage_us ?ru0) = 500000" "unat (get_cpu_usage_us (Some ?ru2)) = 1100000"
    by (simp_all add: get_cpu_usage_us_def)
  have p: "mt_prev_cpu_usage ?m = ucast (get_cpu_usage_us ?ru0)" "1000000 \<le> (2500000 :: u64) - mt_prev_w_poll ?m"
      "unat (get_cpu_usage_us ?ru0) \<le> unat (get_cpu_usage_us (Some ?ru2))" "unat (get_cpu_usage_us (Some ?ru2)) < 2 ^ 31"
      "unat (ru_maxrss ?ru2) < 2 ^ 30"
    by (simp_all only: u) (simp_all add: maintenance_new_def)
  show "\<exists>bs' m'. maintenance_round 2500000 (Some \<lparr>ru_utime_sec = 1, ru_utime_usec = 100000, ru_stime_sec = 0, ru_stime_usec = 0,
        ru_maxrss = 5000\<rparr>) (Some (-1)) (Some \<lparr>ru_utime_sec = 1, ru_utime_usec = 100000, ru_stime_sec = 0, ru_stime_usec = 0,
        ru_maxrss = 5000\<rparr>) (zero_stats\<lparr>bs_n_reads := 7, bs_io_wait := 3\<rparr>,
        maintenance_new (Some \<lparr>ru_utime_sec = 0, ru_utime_usec = 300000, ru_stime_sec = 0, ru_stime_usec = 200000, ru_maxrss = 4000\<rparr>)
          \<lparr>sc_is = c, sc_bs = zero_stats, sc_cpu_usage = 0, sc_ram_free_kb = 0\<rparr>) = (bs', m') \<and>
    bs_n_reads (sc_bs (mt_counters m')) = 7 \<and> bs_io_wait_ticks (sc_bs (mt_counters m')) = 30000 \<and>
    sint (sc_cpu_usage (mt_counters m')) = 60 \<and> sint (sc_ram_free_kb (mt_counters m')) = -5001"
    using maintenance_round_publishes [OF p r] r unfolding u by (intro exI [of _ bs'] exI [of _ m']) simp
qed

section \<open>The chosen backend is a block device\<close>

lemma sum_block_device:
  assumes A: "block_device A dA iA bsz l1" and B: "block_device B dB iB bsz l2"
  shows "block_device (sum_ops A B) (case_sum dA dB) (case_sum iA iB) bsz (min l1 l2)"
proof -
  note a = block_device.axioms(1) [OF A] and b = block_device.axioms(1) [OF B]
  show ?thesis
  proof (unfold_locales, goal_cases)
    case 1 then show ?case by (rule block_storage.bsz_pos [OF a])
  next
    case 2 then show ?case by (rule block_storage.bsz_lt [OF a])
  next
    case 3 then show ?case using block_storage.lim_pos [OF a] block_storage.lim_pos [OF b] by simp
  next
    case (4 x) then show ?case
      using block_storage.block_size [OF a] block_storage.block_size [OF b] by (cases x) (simp_all add: sum_ops_def)
  next
    case (5 x) then show ?case
      using block_storage.size_in_blocks [OF a] block_storage.size_in_blocks [OF b] by (cases x) (simp_all add: sum_ops_def)
  next
    case (6 x) then show ?case
      using block_storage.disk_lt [OF a] block_storage.disk_lt [OF b] by (cases x) simp_all
  next
    case (7 x e) then show ?case
      using block_storage.sync_law [OF a, of _ e] block_storage.sync_law [OF b, of _ e]
      by (cases x) (fastforce simp: sum_ops_def)+
  next
    case (8 x n buf nr e) then show ?case
      using block_storage.read_law [OF a, of _ n buf nr e] block_storage.read_law [OF b, of _ n buf nr e]
      by (cases x) (fastforce simp: sum_ops_def)+
  next
    case (9 x n data nr e) then show ?case
      using block_storage.write_law [OF a, of _ n data nr e] block_storage.write_law [OF b, of _ n data nr e]
      by (cases x) (fastforce simp: sum_ops_def)+
  next
    case (10 x nr n e) then show ?case
      using block_storage.trim_law [OF a, of _ nr n e] block_storage.trim_law [OF b, of _ nr n e]
      by (cases x) (fastforce simp: sum_ops_def)+
  next
    case (11 x n dw dc nr e)
    show ?case
    proof (cases x)
      case (Inl y)
      then have y: "iA y" "unat nr * bsz + unat n * bsz \<le> length (dA y)" using 11 by simp_all
      from block_device.cmpwrite_law [OF A y(1) 11(2,3) y(2), of e] obtain k r y' e' where
        "be_cmpwrite A nr n dw dc (y, e) = Inr (r, y', e')" and law: "iA y'" "dA y' = overwrite (unat nr * bsz) (take k dw) (dA y)"
        "k \<le> unat n * bsz" "r = CWR_OK \<longrightarrow> k = unat n * bsz" "r \<in> {CWR_MISMATCH, CWR_READ_ERROR} \<longrightarrow> k = 0"
        "r \<in> {CWR_OK, CWR_WRITE_ERROR} \<longrightarrow> slice (unat nr * bsz) (unat n * bsz) (dA y) = take (unat n * bsz) dc"
        "r = CWR_MISMATCH \<longrightarrow> slice (unat nr * bsz) (unat n * bsz) (dA y) \<noteq> take (unat n * bsz) dc"
        "quiet e \<longrightarrow> quiet e' \<and> r \<noteq> CWR_READ_ERROR \<and> (unat n \<le> l1 \<longrightarrow> r \<noteq> CWR_WRITE_ERROR)"
        by blast
      then have "be_cmpwrite (sum_ops A B) nr n dw dc (x, e) = Inr (r, Inl y', e')" by (simp add: sum_ops_def Inl)
      then show ?thesis
        using law by (intro exI [of _ k] exI [of _ r] exI [of _ "Inl y'"] exI [of _ e']) (simp add: Inl)
    next
      case (Inr y)
      then have y: "iB y" "unat nr * bsz + unat n * bsz \<le> length (dB y)" using 11 by simp_all
      from block_device.cmpwrite_law [OF B y(1) 11(2,3) y(2), of e] obtain k r y' e' where
        "be_cmpwrite B nr n dw dc (y, e) = Inr (r, y', e')" and law: "iB y'" "dB y' = overwrite (unat nr * bsz) (take k dw) (dB y)"
        "k \<le> unat n * bsz" "r = CWR_OK \<longrightarrow> k = unat n * bsz" "r \<in> {CWR_MISMATCH, CWR_READ_ERROR} \<longrightarrow> k = 0"
        "r \<in> {CWR_OK, CWR_WRITE_ERROR} \<longrightarrow> slice (unat nr * bsz) (unat n * bsz) (dB y) = take (unat n * bsz) dc"
        "r = CWR_MISMATCH \<longrightarrow> slice (unat nr * bsz) (unat n * bsz) (dB y) \<noteq> take (unat n * bsz) dc"
        "quiet e \<longrightarrow> quiet e' \<and> r \<noteq> CWR_READ_ERROR \<and> (unat n \<le> l2 \<longrightarrow> r \<noteq> CWR_WRITE_ERROR)"
        by blast
      then have "be_cmpwrite (sum_ops A B) nr n dw dc (x, e) = Inr (r, Inr y', e')" by (simp add: sum_ops_def Inr)
      then show ?thesis
        using law by (intro exI [of _ k] exI [of _ r] exI [of _ "Inr y'"] exI [of _ e']) (simp add: Inr)
    qed
  qed
qed

text \<open>
  The backend the command line asked for is a block device: a file without further conditions, an NBD export
  while its server behaves as documented.
\<close>

lemma any_backend_is_block_device:
  assumes "nbd_serves net live srv" and "0 < fuel"
  shows "block_device (any_ops fuel net) (case_sum bf_contents (nbd_disk srv)) (case_sum file_inv (nbd_inv live srv)) 4096 file_lim"
proof -
  have "min file_lim (2 ^ 20) = file_lim" by (simp add: file_lim_def)
  then show ?thesis
    using sum_block_device [OF file_dev.block_device_axioms nbd_block_device [OF assms]] by (simp add: any_ops_def)
qed

section \<open>From the command line to the end\<close>

text \<open>
  What the operating system is relied on for: the stop flag holds what is stored in it, \<open>daemon\<close> succeeds
  and the PID file can be written.
\<close>

definition os_works :: "'w main_os \<Rightarrow> bool" where
  "os_works os \<longleftrightarrow> (\<forall>v w. sk_stop (os_net os) (os_set_stop os v w) = v) \<and> (\<forall>w. fst (os_daemon os w)) \<and>
     (\<forall>f s w. fst (os_write_file os f s w))"

text \<open>What the options say of the program when it is running; \<open>b\<close> is the backend, \<open>c\<close> the listening socket.\<close>

definition started_as_told :: "options \<Rightarrow> 'w any_backend \<Rightarrow> com_sockets \<Rightarrow> 'w running \<Rightarrow> bool" where
  "started_as_told opts b c rn \<longleftrightarrow>
     sc_b (rn_scsi rn) = b \<and> trim_level (rn_scsi rn) = op_trim_level opts \<and> locked_by (rn_scsi rn) = None \<and>
     rn_com rn = c \<and> rn_target_name rn = op_target_name opts \<and> rn_digest_chk rn = op_digest_chk opts \<and>
     rn_pid_file rn = op_pid_file opts \<and>
     rn_log rn = \<lparr>lg_logfile = op_logfile opts, lg_level_file = op_ll_file opts, lg_level_screen = op_ll_screen opts\<rparr> \<and>
     (case rn_snmp rn of None \<Rightarrow> \<not> op_use_snmp opts
      | Some (tree, agent) \<Rightarrow> op_use_snmp opts \<and> tree_oids tree = exported_oids)"

lemma main_start_runs:
  assumes os: "os_works os"
    and b: "create_backend os opts w e = Inr (Some (b0, e1))" "begin_backend os b0 w = Inr (True, b, w1)"
    and c: "com_sockets_begin (os_net os) (com_sockets_new (op_ip_address opts) (op_port opts)) w1 = (True, c, w2)"
  shows "\<exists>w3. \<forall>fuel. \<exists>rn. main_start fuel os diskspace build_date sw opts w e = Inr (Inr rn, w3) \<and> started_as_told opts b c rn"
proof -
  obtain w2' where d: "(if op_do_daemon opts then os_daemon os w2 else (True, w2)) = (True, w2')"
    using os by (cases "os_daemon os w2") (auto simp: os_works_def, metis fst_conv)
  obtain snmp w2'' where s: "(if op_use_snmp opts
      then let (s, w) = start_snmp os diskspace build_date sw (op_snmp_port opts) w2' in (Some s, w) else (None, w2')) = (snmp, w2'')"
    by fastforce
  have exported: "case snmp of None \<Rightarrow> \<not> op_use_snmp opts | Some (tree, agent) \<Rightarrow> op_use_snmp opts \<and> tree_oids tree = exported_oids"
    using s by (auto simp: start_snmp_def init_snmp_tree(3) split: prod.splits if_splits)
  obtain w3 where p: "(if op_pid_file opts \<noteq> []
      then os_write_file os (op_pid_file opts) (show_nat (os_getpid os w2'') @ [CHR 0x0A]) w2'' else (True, w2'')) = (True, w3)"
    using os by (cases "os_write_file os (op_pid_file opts) (show_nat (os_getpid os w2'') @ [CHR 0x0A]) w2''")
      (auto simp: os_works_def, metis fst_conv)
  show ?thesis
    using exported by (intro exI [of _ w3])
      (simp add: main_start_def b c d s p started_as_told_def scsi_new_def setlog_def initial_log_def Let_def)
qed

lemma accept_loop_stopped: "accept_loop rounds fuel net flag c ts w = Inr (ts', w') \<Longrightarrow> sk_stop net w'"
  by (induction rounds arbitrary: ts w)
    (auto simp: accept_loop.simps [of 0] accept_loop.simps [of "Suc _"] split: if_splits)

lemma main_end_returns:
  assumes "os_works os" and "sk_stop (os_net os) w"
  shows "\<exists>w4. main_end os rn b w = Inr (com_sockets_delete (os_net os) (rn_com rn)
    (if rn_pid_file rn \<noteq> [] then snd (os_unlink os (rn_pid_file rn) w4) else w4))"
proof -
  define v where "v = (case rn_snmp rn of None \<Rightarrow> w
      | Some (tree, agent) \<Rightarrow> if sa_th agent then os_set_stop os (sa_stop_flag (snmp_stop agent)) w else w)"
  have "sk_stop (os_net os) v"
    using assms by (auto simp: v_def os_works_def snmp_stop_def split: option.splits)
  then show ?thesis
    by (intro exI [of _ "delete_backend os b v"]) (simp add: main_end_def flip: v_def)
qed


text \<open>A system in which everything can be opened and the stop signal comes after three polls.\<close>

definition example_os :: "example_world main_os" where
  "example_os = \<lparr>os_net = example_sockets, os_contents = (\<lambda>_ _. replicate 8192 0), os_open = (\<lambda>_ w. (4, w)),
     os_udp_socket = (\<lambda>w. (5, w)), os_udp_bind = (\<lambda>_ _ w. (True, w)),
     os_set_stop = (\<lambda>v w. w\<lparr>ew_until := if v then 0 else max 3 (ew_until w)\<rparr>), os_daemon = (\<lambda>w. (True, w)),
     os_getpid = (\<lambda>_. 1234), os_write_file = (\<lambda>_ _ w. (True, w)), os_unlink = (\<lambda>_ w. (True, w))\<rparr>"

definition example_items :: "item list" where
  "example_items = [Setting False (Port 3261), Setting False No_digest, Setting False (Snmp 161), Setting True (Trim 2),
     Setting False (Pid_file ''iesp.pid''), Setting False (Dev ''disk.img'')]"

definition example_start :: example_world where
  "example_start = \<lparr>ew_rx = [], ew_tx = [], ew_wait = 0, ew_until = 3\<rparr>"


end
