(* ===== verification/Spec2Isabelle.thy ===== *)
theory Spec2Isabelle
  imports Crc32c Backend_Nbd Scsi_Errors Scsi_Inform Scsi_Race Server_System Board_Loop Pico_Main Snmp_Block
    Iscsi_Classes Quick_Test Iesp_Main
begin

text \<open>
  A verification development for iESP, an iSCSI target in C++: initiators connect over TCP, log in,
  and send SCSI commands in iSCSI PDUs; the target answers from a block device backend.

  \<^bold>\<open>The program's parts.\<close> A \<open>server\<close> (\<^verbatim>\<open>server.cpp\<close>) accepts connections and runs one thread per
  connection. The thread receives a PDU (\<open>receive_pdu\<close>), lets the PDU's class (\<^verbatim>\<open>iscsi-pdu.cpp\<close>) build its
  responses (\<open>push_response\<close>), and sends a reject when that failed. A SCSI command PDU hands its CDB and
  immediate data to the SCSI layer (\<^verbatim>\<open>scsi.cpp\<close>, \<open>scsi::send\<close>), which validates it, checks whether another
  connection has reserved the device, and reads, writes or trims the backend (\<^verbatim>\<open>backend.cpp\<close>,
  \<^verbatim>\<open>backend-file.cpp\<close>). Data of a WRITE that does not come with the command is asked for with an R2T PDU;
  the \<open>session\<close> (\<^verbatim>\<open>session.cpp\<close>) keeps the open transfers. Data of a READ is streamed from the backend
  straight into Data-In PDUs. Headers and data carry CRC-32C digests when negotiated (\<^verbatim>\<open>iscsi.cpp\<close>).
  An SNMP agent (\<^verbatim>\<open>snmp.cpp\<close>, \<^verbatim>\<open>snmp/*\<close>) in a thread of its own answers requests for the counters that
  these parts keep.

  \<^bold>\<open>The modelled build\<close> is the POSIX/Linux one on a little-endian 64-bit machine, without debug
  assertions: \<open>MAX_DATA_SEGMENT_SIZE\<close> is 256 MiB, \<open>MAX_WS_LEN\<close> 256, \<open>MAX_UNMAP_BLOCKS\<close> 8192, file backends
  have blocks of 4096 bytes. Machine integers are words of their width, so every wrap-around of the
  code is in the model. Buffers are byte lists; a \<open>result\<close> is \<open>Inl\<close> of a trap (access outside a buffer,
  an exception nothing catches, a loop that does not end) or \<open>Inr\<close> of a value and the new state.

  \<^bold>\<open>Theories.\<close>

  \<^descr> \<open>Iesp_Prelude\<close>: words, buffers, traps, and the lemmas all parts share.
  \<^descr> \<open>Crc32c\<close>: the digest of \<^verbatim>\<open>iscsi.cpp\<close>; the table-driven loop computes the bitwise CRC, and digests
    can be continued over a second buffer.
  \<^descr> \<open>Iscsi_Util\<close>: bit fields, text segments, \<open>split\<close>, hex dumps, byte order (\<^verbatim>\<open>iscsi.cpp\<close>, \<^verbatim>\<open>utils.cpp\<close>);
    round trips and termination.
  \<^descr> \<open>Backend\<close>: the base class of backends: its virtual methods as a record of operations, statistics,
    range locks. The contract is a pair of locales: \<open>block_storage\<close> for reads, writes, trims and sizes, and
    \<open>block_device\<close>, which adds an atomic compare-and-write.
  \<^descr> \<open>Backend_File\<close>: the file backend over the documented behaviour of \<open>pread\<close>, \<open>pwrite\<close>, \<open>fallocate\<close>,
    which may fail or be short; it is an interpretation of \<open>block_device\<close>.
  \<^descr> \<open>Backend_Nbd\<close>: the NBD backend (\<^verbatim>\<open>backend-nbd.cpp\<close>) over network calls that are a parameter. The
    behaviour of a server is the hypothesis \<open>nbd_serves\<close>; under it the backend meets \<open>block_device\<close>, and
    a lost connection does not show.
  \<^descr> \<open>Backend_Sdcard\<close>: the SD-card backend of the ESP32 builds (\<^verbatim>\<open>microcontrollers/backend-sdcard.cpp\<close>)
    over the SdFat library, a parameter with the hypothesis \<open>sd_serves\<close>. It meets \<open>block_storage\<close> but not
    \<open>block_device\<close>: compare-and-write goes block by block.
  \<^descr> \<open>Backend_Teensy\<close>: the SD-card backend of the Teensy (\<^verbatim>\<open>microcontrollers/backend-sdcard-teensy41.cpp\<close>),
    the one above up to the LEDs and the time of a TRIM, and \<open>block_storage\<close> like it.
  \<^descr> \<open>Backend_Rp2040w\<close>: the same for the RP2040W (\<^verbatim>\<open>microcontrollers/RP2040W\<close>) over FatFs, with the hypothesis
    \<open>ff_serves\<close>; its trim and its repeated attempts do not do what they should.
  \<^descr> \<open>Scsi\<close>, \<open>Scsi_Commands\<close>: state, validation and reservation; every command handler and \<open>send\<close>.
    \<open>Scsi_Write\<close>, \<open>Scsi_Errors\<close>, \<open>Scsi_Inform\<close> hold what is proved of them: data written is read back, a
    locked out connection changes nothing, error reporting, compare-and-write, unmap, capacity,
    inquiry, the list of supported operation codes. \<open>Scsi_Race\<close> takes \<open>scsi::write\<close> apart at its lock, as a
    step relation of threads: what a reservation keeps out, and the write in flight that it does not.
  \<^descr> \<open>Quick_Test\<close>: the test program (\<^verbatim>\<open>quick-test.cpp\<close>) over the initiator library, whose contract is the locale
    \<open>disk_target\<close>; it is interpreted for the SCSI layer over the file backend, and the verdict of the test follows.
  \<^descr> \<open>Session\<close>: session state; the table of R2T transfers satisfies the locale \<open>r2t_table\<close>.
  \<^descr> \<open>Iscsi_Bhs\<close>: the packed header structures as named layouts, the basic header segment, and the
    assembly of a PDU from header, data, padding and digests.
  \<^descr> \<open>Iscsi_Pdu\<close>: the request classes with what they answer, the reply classes with how they are filled
    and serialised. \<open>Iscsi_Wire\<close> shows that an initiator reads back what was put in (the locale
    \<open>reply_class\<close>, interpreted for every reply class); \<open>Iscsi_Data_In\<close> the same for data cut into PDUs.
    \<open>Iscsi_Classes\<close> has the classes one by one: constructors, \<open>set\<close>, \<open>get\<close> and what virtual dispatch makes of them.
  \<^descr> \<open>Server\<close>: the whole of \<open>receive_pdu\<close>, \<open>push_response\<close> and the loop of a connection. \<open>Server_Receive\<close>:
    framing and digest errors. \<open>Server_Transfer\<close>: the transfer of a WRITE by R2T and Data-Out.
    \<open>Server_Stream\<close>: streamed reads.
  \<^descr> \<open>Server_Connection\<close>: the loop of a connection as a whole. The locale \<open>access_invariant\<close> says what a
    handler may do to the shared SCSI state; it is interpreted for "another connection holds the
    reservation" and "this connection holds it". The loop ends within the rounds given.
  \<^descr> \<open>Server_Disk\<close>: the abstract specification of a connection, an array of bytes that executes pings, writes
    and reads (\<open>io_store\<close>, \<open>io_answered\<close>, \<open>io_trace\<close>), and the proof that \<open>handler\<close> with all the parts below it
    implements it, from the first byte received to the end of the thread.
  \<^descr> \<open>Server_Session\<close>: the login requests that settle the terms of a session (digests, segment length), and whole
    sessions as runs of that array of bytes.
  \<^descr> \<open>Server_In_Turn\<close>, \<open>Pico_Main\<close>: the loop of \<open>handler\<close> in the builds without threads, one connection after the
    other, shown to keep the disk over all of them; and the sketch of the RP2040W that calls it.
  \<^descr> \<open>Server_System\<close>: several connections over one SCSI state and one backend, as the step relation
    \<open>sys_step\<close> with runs \<open>sys_run\<close>: the holder of a reservation is served, the others change nothing.
  \<^descr> \<open>Com_Sockets\<close>: sockets (\<^verbatim>\<open>com-sockets.cpp\<close>) over the system calls, the accept loop and the list of threads
    (\<open>server::handler\<close>). Receiving through \<open>poll\<close> and short reads refines the byte stream of
    \<open>Server_Receive\<close>, and a set stop flag ends receiving and accepting.
  \<^descr> \<open>Com_Arduino\<close>: the connections of boards without sockets (\<^verbatim>\<open>microcontrollers/com-arduino.cpp\<close>), which
    implement the same byte stream.
  \<^descr> \<open>Wifi_Connect\<close>: the WiFi set-up of the ESP32 boards (\<^verbatim>\<open>microcontrollers/wifi.cpp\<close>, \<^verbatim>\<open>wifi-management.cpp\<close>)
    over the WiFi library: it ends, and joins the strongest access point that lets it in.
  \<^descr> \<open>Board_Setup\<close>: log lines sent to syslog (\<^verbatim>\<open>log.cpp\<close>), the configuration file and the set-up of an ESP32
    board (\<^verbatim>\<open>microcontrollers/main.ino\<close>) up to the device it serves, over the two libraries above.
  \<^descr> \<open>Board_Loop\<close>: the sketch of the ESP32 boards after its set-up: network events, over-the-air updates, the
    measuring of the load and \<open>loop\<close>, which serves the device.
  \<^descr> \<open>Snmp_Text\<close>, \<open>Snmp_Elem\<close>: decimal and dotted text; the reader of received bytes and the elements of a
    reply with their 8-bit sizes (\<^verbatim>\<open>snmp/block.cpp\<close>, \<^verbatim>\<open>snmp/snmp_elem.cpp\<close>). A payload is its BER encoding
    where no size wraps; identifiers are read back as they were written. \<open>Snmp_Block\<close>: the other operations of
    \<^verbatim>\<open>snmp/block.cpp\<close> (comparison, copies, pieces, hexadecimal dump).
  \<^descr> \<open>Snmp_Data\<close>, \<open>Snmp_Walk\<close>: the tree of object identifiers (\<^verbatim>\<open>snmp/snmp_data.cpp\<close>). It satisfies the
    locale \<open>oid_map\<close>; the next identifier is the successor in numeric order and a walk finds everything.
  \<^descr> \<open>Snmp\<close>, \<open>Snmp_Init\<close>: the agent (\<^verbatim>\<open>snmp/snmp.cpp\<close>) and what it exports (\<^verbatim>\<open>snmp.cpp\<close>): requests are
    answered, which datagrams are safe, and two that make it write outside a buffer.
  \<^descr> \<open>Iesp_Options\<close>: the command line (\<open>getopt\<close> and the options of \<^verbatim>\<open>main.cpp\<close>) and log levels (\<^verbatim>\<open>log.cpp\<close>).
  \<^descr> \<open>Iesp_Main\<close>: log lines, the maintenance thread, the choice of the backend (virtual dispatch as a sum of
    block devices), and \<open>main\<close> from its arguments to its exit status over the parts above.

  \<^bold>\<open>Fuel and bounds.\<close> The loop that streams a READ takes fuel; as many rounds as bytes are shown to be
  enough (for whole connections: as many as the disk has bytes). The loop of a connection runs for at most one round more than there are whole headers to be
  received. \<open>set_ahs_segment\<close>, which may loop for ever, is a partial function with \<open>None\<close> for that case.
  A GetNext walk over the exported tree takes 27 rounds for 26 identifiers; for other trees one more than
  there are identifiers is enough. Receiving and accepting take fuel for the calls
  of \<open>poll\<close>: the bytes wanted times one more than the idle polls between two pieces are enough, and the
  number of polls until the stop flag is set. \<open>wait_for_card\<close> takes
  fuel for the questions whether the card is busy; the bound of \<open>sd_serves\<close> is enough. All other loops are
  total functions. The data of one read or write is at most what one \<open>pread\<close>/\<open>pwrite\<close> call transfers
  (\<open>file_lim\<close> blocks).

  \<^bold>\<open>Not modelled.\<close> The operating system and libraries appear by the outcome of each call, part of the
  state or a parameter with named hypotheses. In \<open>Server_System\<close> steps of different connections interleave only
  between the rounds of their loops; of the interleavings inside a round only that of a write with
  RESERVE and RELEASE is modelled (\<open>Scsi_Race\<close>). \<open>getnameinfo\<close> is taken to succeed.
  Most calls of the logger are left out where they are made. Not modelled are the display, LEDs where a theory
  says so, the drivers of the Ethernet chips, the Teensy variant of the connection, and the python test scripts.
  Memory is not exhausted.
\<close>

end
